(* ===== verification/Entity_Prelude.thy ===== *)
theory Entity_Prelude
  imports Main
begin

text \<open>
  Shared vocabulary of the entity-MIB development: the constants of
  \<^verbatim>\<open>entityMib/stdhdr.h\<close>, the C integer conversions the table code relies on
  (\<^verbatim>\<open>int\<close> is 32 bits wide, \<^verbatim>\<open>int_l\<close> is a 64-bit \<^verbatim>\<open>long\<close>), the copy of an OID
  buffer, the collections of rewrite rules the component proofs use, and lemmas on lists
  that several components need.

  Conventions. A C string is the list of its characters before the terminating NUL, and
  a pointer to one is an \<open>option\<close>, \<open>None\<close> being the null pointer. A function whose C
  original can run into undefined behaviour (a dereference of a null or dangling pointer)
  returns an \<open>option\<close>, \<open>None\<close> being that outcome. An allocation is decided by the
  environment: a parameter \<open>ok :: nat \<Rightarrow> bool\<close> says whether the \<open>k\<close>-th allocation
  request of the call succeeds.
\<close>

named_theorems c_arith \<open>rewriting the C integer conversions away on values in range\<close>
named_theorems frame_simps \<open>which parts of the state an operation leaves alone\<close>
named_theorems wf_intros \<open>introduction rules for the well-formedness predicates\<close>

section \<open>Types and constants\<close>

type_synonym addr = nat
type_synonym oid = "nat list"
type_synonym cstring = "string option"

definition LARGE_TABLE :: int where
  "LARGE_TABLE = 200"

definition MIB_TRUE :: int where
  "MIB_TRUE = 1"

definition MIB_FALSE :: int where
  "MIB_FALSE = 2"

definition MAX_ENTITY_INDEX :: int where
  "MAX_ENTITY_INDEX = 2147483647"

text \<open>
  \<open>int32\<close> is the conversion of a value to a 32-bit \<^verbatim>\<open>int\<close>, and also the result of an
  \<^verbatim>\<open>int\<close> addition on hardware that wraps. \<open>c_abs\<close> is \<^verbatim>\<open>abs\<close> applied to a \<^verbatim>\<open>long\<close>, which
  the call converts to \<^verbatim>\<open>int\<close> first.
\<close>

definition int32 :: "int \<Rightarrow> int" where
  "int32 x = (x + 2147483648) mod 4294967296 - 2147483648"

definition c_abs :: "int \<Rightarrow> int" where
  "c_abs x = int32 \<bar>int32 x\<bar>"

text \<open>
  \<^verbatim>\<open>sizeof(oid)\<close> on the 64-bit agent, and \<^verbatim>\<open>memcpy\<close> of \<open>n\<close> bytes out of an OID
  buffer: reading past the end of the buffer is undefined, and a negative size would be
  a copy of about \<open>2 ^ 64\<close> bytes.
\<close>

definition sizeof_oid :: int where
  "sizeof_oid = 8"

definition memcpy_oid :: "oid \<Rightarrow> int \<Rightarrow> oid option" where
  "memcpy_oid xs n =
     (if 0 \<le> n \<and> n \<le> sizeof_oid * int (length xs)
      then Some (take (nat (n div sizeof_oid)) xs) else None)"

definition strlen :: "string \<Rightarrow> int" where
  "strlen s = int (length s)"

text \<open>The allocator of a call in which no request fails.\<close>

definition all_ok :: "nat \<Rightarrow> bool" where
  "all_ok k = True"

text \<open>
  Walking a linked list to the first node of interest: changing that node in place, or
  unlinking it. A null array has no slots.
\<close>

fun upd_first :: "('a \<Rightarrow> bool) \<Rightarrow> ('a \<Rightarrow> 'a) \<Rightarrow> 'a list \<Rightarrow> 'a list" where
  "upd_first P f [] = []"
| "upd_first P f (x # xs) = (if P x then f x # xs else x # upd_first P f xs)"

fun del_first :: "('a \<Rightarrow> bool) \<Rightarrow> 'a list \<Rightarrow> 'a list" where
  "del_first P [] = []"
| "del_first P (x # xs) = (if P x then xs else x # del_first P xs)"

definition slots :: "'a list option \<Rightarrow> 'a list" where
  "slots a = (case a of None \<Rightarrow> [] | Some xs \<Rightarrow> xs)"

text \<open>Strings in the argument of an allocation function.\<close>

definition nonnull :: "cstring \<Rightarrow> cstring" where
  "nonnull x = (case x of None \<Rightarrow> Some [] | Some y \<Rightarrow> Some y)"

definition longer_than :: "cstring \<Rightarrow> int \<Rightarrow> bool" where
  "longer_than x n = (case x of None \<Rightarrow> False | Some y \<Rightarrow> strlen y > n)"

text \<open>
  A run of requests: either every block is obtained, or the blocks freed for the one that
  failed are taken from the blocks held; \<open>Inl\<close> carries what is left allocated then.
\<close>

fun request_blocks ::
  "('b \<Rightarrow> 'b list) \<Rightarrow> ('b \<Rightarrow> bool) \<Rightarrow> 'b list \<Rightarrow> 'b list \<Rightarrow> 'b list + 'b list" where
  "request_blocks cleanup got [] held = Inr held"
| "request_blocks cleanup got (b # bs) held =
     (if got b then request_blocks cleanup got bs (b # held)
      else Inl (fold remove1 (cleanup b) held))"

text \<open>The outcome of building the entry: out of memory with what leaked, undefined, or built.\<close>

datatype ('b, 'e) built = Build_failed "'b list" | Build_undefined | Built 'e

section \<open>C integers in range\<close>

lemma int32_id [c_arith]:
  "-2147483648 \<le> x \<Longrightarrow> x < 2147483648 \<Longrightarrow> int32 x = x"
  by (simp add: int32_def)

lemma c_abs_id [c_arith]: "\<bar>x\<bar> \<le> MAX_ENTITY_INDEX \<Longrightarrow> c_abs x = \<bar>x\<bar>"
  by (simp add: c_abs_def MAX_ENTITY_INDEX_def int32_id)

lemma int32_range: "-2147483648 \<le> int32 x \<and> int32 x < 2147483648"
proof -
  have "0 \<le> (x + 2147483648) mod 4294967296" "(x + 2147483648) mod 4294967296 < 4294967296"
    by simp_all
  then show ?thesis by (simp add: int32_def)
qed

lemma memcpy_oid_whole [simp]:
  "n = sizeof_oid * int (length xs) \<Longrightarrow> memcpy_oid xs n = Some xs"
  by (simp add: memcpy_oid_def sizeof_oid_def)

lemma all_ok_simp [simp]: "all_ok k"
  by (simp add: all_ok_def)

section \<open>Lists\<close>

lemma sorted_wrt_less_nth_unique:
  fixes f :: "'a \<Rightarrow> int"
  assumes "sorted_wrt (<) (map f xs)" "x \<in> set xs" "y \<in> set xs" "f x = f y"
  shows "x = y"
proof -
  from assms(1) have "distinct (map f xs)"
    by (simp add: strict_sorted_iff)
  with assms(2-4) show ?thesis
    by (auto simp: distinct_map inj_on_def)
qed

lemma map_cong_on [simp]: "(\<And>x. x \<in> set xs \<Longrightarrow> f x = x) \<Longrightarrow> map f xs = xs"
  by (induction xs) auto

lemma takeWhile_neq_last:
  assumes "distinct (map f xs)" "xs \<noteq> []"
  shows "takeWhile (\<lambda>x. f x \<noteq> f (last xs)) xs = butlast xs"
  using assms
proof (induction xs)
  case Nil
  then show ?case by simp
next
  case (Cons x xs)
  show ?case
  proof (cases "xs = []")
    case False
    with Cons have "f x \<noteq> f (last xs)" by auto
    with False Cons show ?thesis by simp
  qed simp
qed

lemma sorted_wrt_snoc_less:
  fixes f :: "'a \<Rightarrow> int"
  assumes "sorted_wrt (<) (map f xs)" "xs \<noteq> []" "f (last xs) < f y"
  shows "sorted_wrt (<) (map f (xs @ [y]))"
proof -
  have "f x \<le> f (last xs)" if "x \<in> set xs" for x
    using assms(1,2) that
  proof (induction xs rule: rev_induct)
    case (snoc z zs)
    then show ?case by (auto simp: sorted_wrt_append)
  qed simp
  with assms(1,3) show ?thesis by (fastforce simp: sorted_wrt_append)
qed

lemma slots_simps [simp]: "slots None = []" "slots (Some xs) = xs"
  by (simp_all add: slots_def)

lemma find_Some_in: "find P xs = Some x \<Longrightarrow> x \<in> set xs \<and> P x"
  by (induction xs) (auto split: if_splits)

lemma find_unique:
  assumes "distinct (map f xs)" "x \<in> set xs" "f x = k"
  shows "find (\<lambda>y. f y = k) xs = Some x"
  using assms by (induction xs) (auto simp: image_iff)

lemma find_None_key: "find (\<lambda>y. f y = k) xs = None \<longleftrightarrow> k \<notin> f ` set xs"
  by (auto simp: find_None_iff image_iff)

lemma upd_first_key:
  assumes "distinct (map f xs)"
  shows "upd_first (\<lambda>y. f y = k) g xs = map (\<lambda>y. if f y = k then g y else y) xs"
  using assms
proof (induction xs)
  case (Cons x xs)
  show ?case
  proof (cases "f x = k")
    case True
    with Cons.prems have "map (\<lambda>y. if f y = k then g y else y) xs = xs"
      by (intro map_cong_on) (auto simp: image_iff)
    with True show ?thesis by simp
  qed (use Cons in simp)
qed simp

lemma del_first_key:
  assumes "distinct (map f xs)"
  shows "del_first (\<lambda>y. f y = k) xs = filter (\<lambda>y. f y \<noteq> k) xs"
  using assms
proof (induction xs)
  case (Cons x xs)
  then have "f x = k \<Longrightarrow> filter (\<lambda>y. f y \<noteq> k) xs = xs"
    by (intro filter_True) (auto simp: image_iff)
  with Cons show ?case by auto
qed simp

lemma map_upd_first: "(\<And>x. f (g x) = f x) \<Longrightarrow> map f (upd_first P g xs) = map f xs"
  by (induction xs) auto

lemma length_upd_first [simp]: "length (upd_first P g xs) = length xs"
  by (induction xs) auto

lemma upd_first_None: "find P xs = None \<Longrightarrow> upd_first P g xs = xs"
  by (induction xs) (auto split: if_splits)

lemma del_first_length: "find P xs = Some x \<Longrightarrow> length xs = Suc (length (del_first P xs))"
  by (induction xs) (auto split: if_splits)

lemma in_upd_first:
  "distinct (map f xs) \<Longrightarrow> x \<in> set (upd_first (\<lambda>y. f y = k) g xs) \<longleftrightarrow>
   (\<exists>y \<in> set xs. x = (if f y = k then g y else y))"
  unfolding upd_first_key set_map by blast

lemma bex_upd_first:
  "distinct (map f xs) \<Longrightarrow> (\<exists>x \<in> set (upd_first (\<lambda>y. f y = k) g xs). Q x) \<longleftrightarrow>
   (\<exists>y \<in> set xs. Q (if f y = k then g y else y))"
  unfolding upd_first_key set_map by blast

lemma ball_upd_first:
  "distinct (map f xs) \<Longrightarrow> (\<forall>x \<in> set (upd_first (\<lambda>y. f y = k) g xs). Q x) \<longleftrightarrow>
   (\<forall>y \<in> set xs. Q (if f y = k then g y else y))"
  unfolding upd_first_key set_map by blast

lemma key_unique:
  "distinct (map f xs) \<Longrightarrow> x \<in> set xs \<Longrightarrow> y \<in> set xs \<Longrightarrow> f x = f y \<Longrightarrow> x = y"
  by (auto simp: distinct_map inj_on_def)

section \<open>Memory requests\<close>

lemma nonnull_simps [simp]: "nonnull x \<noteq> None" "\<exists>y. nonnull x = Some y" "nonnull (Some y) = Some y"
  by (simp_all add: nonnull_def split: option.splits)

text \<open>
  When the cleanup for each block releases exactly the blocks requested before it, a run
  that fails leaves nothing allocated.
\<close>

lemma fold_remove1_self: "fold remove1 (xs @ ys) (xs @ zs) = fold remove1 ys zs"
  by (induction xs) auto

lemma request_blocks_no_leak:
  assumes "\<And>us b vs. bs = us @ b # vs \<Longrightarrow> cleanup b = rev us @ held"
    and "request_blocks cleanup got bs held = Inl leaked"
  shows "leaked = []"
  using assms
proof (induction bs arbitrary: held)
  case (Cons b bs)
  show ?case
  proof (cases "got b")
    case True
    show ?thesis
    proof (rule Cons.IH [of "b # held"])
      show "cleanup c = rev us @ b # held" if "bs = us @ c # vs" for us c vs
        using Cons.prems(1) [of "b # us" c vs] that by simp
      show "request_blocks cleanup got bs (b # held) = Inl leaked" using Cons.prems(2) True by simp
    qed
  next
    case False
    have "cleanup b = held" using Cons.prems(1) [of "[]" b bs] by simp
    with False Cons.prems(2) fold_remove1_self [of held "[]" "[]"] show ?thesis by simp
  qed
qed simp

lemma request_blocks_all:
  "(\<forall>b \<in> set bs. got b) \<Longrightarrow> request_blocks cleanup got bs held = Inr (rev bs @ held)"
  by (induction bs arbitrary: held) auto

lemma request_blocks_held:
  "request_blocks cleanup got bs held = Inr held' \<Longrightarrow> held' = rev bs @ held \<and> (\<forall>b \<in> set bs. got b)"
  by (induction bs arbitrary: held) (auto split: if_splits)

end
