(* ===== verification/Last_Change.thy ===== *)
theory Last_Change
  imports Entity_Prelude
begin

text \<open>
  The last-change time and the throttled \<^verbatim>\<open>entConfigChange\<close> notification
  (\<^verbatim>\<open>entityMib/entLastChangeTime.c\<close>). Every operation that changes a table calls
  \<open>configChanged\<close>, which stores the time of the change and sends a trap unless one
  was sent less than five seconds ago; an alarm polls again when the throttle period is over.

  The time functions of the agent library (\<^verbatim>\<open>atime_ready\<close>, \<^verbatim>\<open>atime_diff\<close>,
  \<^verbatim>\<open>netsnmp_marker_uptime\<close>), the time of day and the alarm registry are not part of the
  sources; they are the fields of an environment record, and \<open>atime_documented\<close> is what the
  library documents about them. A marker is a time of day in microseconds.
\<close>

type_synonym marker = int

record snmp_env =
  clock :: "nat \<Rightarrow> marker"
  atime_ready :: "marker \<Rightarrow> int \<Rightarrow> marker \<Rightarrow> bool"
  atime_diff :: "marker \<Rightarrow> marker \<Rightarrow> int"
  marker_uptime :: "marker \<Rightarrow> nat"
  alarm_number :: "nat \<Rightarrow> int"

record trap =
  trap_generic :: int
  trap_specific :: int
  trap_enterprise :: oid

text \<open>
  The static variables of the file. \<open>clock_reads\<close> counts the readings of the time of
  day, so that two readings may differ; \<open>traps_sent\<close> and \<open>trap_markers\<close> record
  what was sent and the values \<^verbatim>\<open>trapLastIssued\<close> has had, newest first;
  \<open>alarms\<close> holds the seconds of every alarm registered.
\<close>

record last_change =
  entLastChangeTime :: marker
  trapLastIssued :: marker
  creg :: int
  clock_reads :: nat
  traps_sent :: "trap list"
  trap_markers :: "marker list"
  alarms :: "int list"

definition TRAP_THROTTLE_PERIOD :: int where
  "TRAP_THROTTLE_PERIOD = 5000"

definition TRAP_THROTTLE_PERIOD_SECS :: int where
  "TRAP_THROTTLE_PERIOD_SECS = TRAP_THROTTLE_PERIOD div 1000"

definition entityMIBTrapsOID :: oid where
  "entityMIBTrapsOID = [1, 3, 6, 1, 2, 1, 47, 2]"

definition SNMP_TRAP_ENTERPRISESPECIFIC :: int where
  "SNMP_TRAP_ENTERPRISESPECIFIC = 6"

section \<open>Operations\<close>

definition read_clock :: "snmp_env \<Rightarrow> last_change \<Rightarrow> marker \<times> last_change" where
  "read_clock E l = (clock E (clock_reads l), l\<lparr>clock_reads := Suc (clock_reads l)\<rparr>)"

definition entLastChangeTime_TimeTicks :: "snmp_env \<Rightarrow> last_change \<Rightarrow> nat" where
  "entLastChangeTime_TimeTicks E l = marker_uptime E (entLastChangeTime l) mod 2 ^ 32"

definition init_entLastChangeTime :: "snmp_env \<Rightarrow> last_change \<Rightarrow> last_change" where
  "init_entLastChangeTime E l =
     (let l1 = l\<lparr>entLastChangeTime := 0\<rparr>;
          (now, l2) = read_clock E l1
      in l2\<lparr>entLastChangeTime := now\<rparr>)"

definition send_entConfigChange_trap :: "last_change \<Rightarrow> last_change" where
  "send_entConfigChange_trap l =
     l\<lparr>traps_sent := \<lparr>trap_generic = SNMP_TRAP_ENTERPRISESPECIFIC, trap_specific = 1,
                       trap_enterprise = entityMIBTrapsOID\<rparr> # traps_sent l\<rparr>"

definition poll_entLastChangeTime :: "snmp_env \<Rightarrow> last_change \<Rightarrow> last_change" where
  "poll_entLastChangeTime E l =
     (let (now, l1) = read_clock E l in
      if \<not> atime_ready E (trapLastIssued l1) TRAP_THROTTLE_PERIOD now then l1
      else let diff = atime_diff E (entLastChangeTime l1) (trapLastIssued l1) in
        if diff \<le> 0 then
          (let l2 = send_entConfigChange_trap l1;
               (issued, l3) = read_clock E l2;
               l4 = l3\<lparr>trapLastIssued := issued, trap_markers := issued # trap_markers l3\<rparr>
           in l4\<lparr>creg := alarm_number E (length (alarms l4)),
                 alarms := TRAP_THROTTLE_PERIOD_SECS # alarms l4\<rparr>)
        else l1)"

definition alarm_entLastChangeTime :: "snmp_env \<Rightarrow> last_change \<Rightarrow> last_change" where
  "alarm_entLastChangeTime E l = poll_entLastChangeTime E l"

definition lc_configChanged :: "snmp_env \<Rightarrow> last_change \<Rightarrow> last_change" where
  "lc_configChanged E l =
     (let (now, l1) = read_clock E l
      in poll_entLastChangeTime E (l1\<lparr>entLastChangeTime := now\<rparr>))"

text \<open>
  The statics before \<open>init_entLastChangeTime\<close>: zero-initialised storage.
\<close>

definition lc_static :: last_change where
  "lc_static = \<lparr>entLastChangeTime = 0, trapLastIssued = 0, creg = 0, clock_reads = 0,
     traps_sent = [], trap_markers = [], alarms = []\<rparr>"

text \<open>What happens to the module over time: configuration changes and alarms.\<close>

datatype lc_event = Config_Change | Alarm

fun lc_step :: "snmp_env \<Rightarrow> last_change \<Rightarrow> lc_event \<Rightarrow> last_change" where
  "lc_step E l Config_Change = lc_configChanged E l"
| "lc_step E l Alarm = alarm_entLastChangeTime E l"

fun lc_run :: "snmp_env \<Rightarrow> last_change \<Rightarrow> lc_event list \<Rightarrow> last_change" where
  "lc_run E l [] = l"
| "lc_run E l (e # es) = lc_run E (lc_step E l e) es"

section \<open>The documented behaviour of the time functions\<close>

definition atime_documented :: "snmp_env \<Rightarrow> bool" where
  "atime_documented E \<longleftrightarrow>
     (\<forall>a b. atime_diff E a b = (b - a) div 1000) \<and>
     (\<forall>m d now. atime_ready E m d now = (d \<le> atime_diff E m now))"

definition clock_mono :: "snmp_env \<Rightarrow> bool" where
  "clock_mono E \<longleftrightarrow> (\<forall>n. clock E n \<le> clock E (Suc n))"

text \<open>A concrete environment: the library's documented arithmetic over a given clock.\<close>

definition demo_env :: "(nat \<Rightarrow> marker) \<Rightarrow> snmp_env" where
  "demo_env c = \<lparr>clock = c, atime_ready = (\<lambda>m d now. d \<le> (now - m) div 1000),
     atime_diff = (\<lambda>a b. (b - a) div 1000), marker_uptime = (\<lambda>m. nat (m div 10000)),
     alarm_number = (\<lambda>k. int k + 1)\<rparr>"

section \<open>Lemmas\<close>

lemma demo_env_documented [simp]: "atime_documented (demo_env c)"
  by (simp add: atime_documented_def demo_env_def)

lemma demo_env_clock [simp]: "clock (demo_env c) = c"
  by (simp add: demo_env_def)

lemmas lc_defs = poll_entLastChangeTime_def alarm_entLastChangeTime_def lc_configChanged_def
  read_clock_def send_entConfigChange_trap_def Let_def

text \<open>The two facts a poll decides on, and its two outcomes.\<close>

definition poll_sends :: "snmp_env \<Rightarrow> last_change \<Rightarrow> bool" where
  "poll_sends E l \<longleftrightarrow>
     atime_ready E (trapLastIssued l) TRAP_THROTTLE_PERIOD (clock E (clock_reads l)) \<and>
     atime_diff E (entLastChangeTime l) (trapLastIssued l) \<le> 0"

lemma poll_silent:
  "\<not> poll_sends E l \<Longrightarrow>
   poll_entLastChangeTime E l = l\<lparr>clock_reads := Suc (clock_reads l)\<rparr>"
  by (auto simp: lc_defs poll_sends_def)

lemma poll_sending:
  "poll_sends E l \<Longrightarrow>
   poll_entLastChangeTime E l =
     l\<lparr>trapLastIssued := clock E (Suc (clock_reads l)),
       creg := alarm_number E (length (alarms l)),
       clock_reads := Suc (Suc (clock_reads l)),
       traps_sent := \<lparr>trap_generic = SNMP_TRAP_ENTERPRISESPECIFIC, trap_specific = 1,
                      trap_enterprise = entityMIBTrapsOID\<rparr> # traps_sent l,
       trap_markers := clock E (Suc (clock_reads l)) # trap_markers l,
       alarms := TRAP_THROTTLE_PERIOD_SECS # alarms l\<rparr>"
  by (simp add: lc_defs poll_sends_def)

lemma configChanged_poll:
  "lc_configChanged E l =
     poll_entLastChangeTime E
       (l\<lparr>clock_reads := Suc (clock_reads l), entLastChangeTime := clock E (clock_reads l)\<rparr>)"
  by (simp add: lc_configChanged_def read_clock_def)

lemma clock_mono_le: "clock_mono E \<Longrightarrow> m \<le> n \<Longrightarrow> clock E m \<le> clock E n"
  by (rule lift_Suc_mono_le [of "clock E"]) (auto simp: clock_mono_def)

text \<open>
  The invariant of the module: every marker is a past reading, the newest trap marker
  is \<^verbatim>\<open>trapLastIssued\<close>, and the trap markers are spaced by the throttle period.
\<close>

fun spaced :: "marker list \<Rightarrow> bool" where
  "spaced (t # u # ts) = (1000 * TRAP_THROTTLE_PERIOD \<le> t - u \<and> spaced (u # ts))"
| "spaced ts = True"

definition lc_inv :: "snmp_env \<Rightarrow> last_change \<Rightarrow> bool" where
  "lc_inv E l \<longleftrightarrow>
     entLastChangeTime l \<le> clock E (clock_reads l) \<and>
     trapLastIssued l \<le> clock E (clock_reads l) \<and>
     (trap_markers l \<noteq> [] \<longrightarrow> hd (trap_markers l) = trapLastIssued l) \<and>
     spaced (trap_markers l) \<and>
     length (traps_sent l) = length (trap_markers l) \<and>
     length (alarms l) = length (traps_sent l)"

lemma spaced_Cons:
  "spaced ts \<Longrightarrow> (ts \<noteq> [] \<Longrightarrow> 1000 * TRAP_THROTTLE_PERIOD \<le> t - hd ts) \<Longrightarrow> spaced (t # ts)"
  by (cases ts) auto

lemma ready_spacing:
  assumes "atime_documented E" "atime_ready E m TRAP_THROTTLE_PERIOD now"
  shows "1000 * TRAP_THROTTLE_PERIOD \<le> now - m"
proof -
  from assms have "5000 \<le> (now - m) div 1000"
    by (simp add: atime_documented_def TRAP_THROTTLE_PERIOD_def)
  moreover have "(now - m) div 1000 * 1000 + (now - m) mod 1000 = now - m" "0 \<le> (now - m) mod 1000"
    by simp_all
  ultimately have "5000 * 1000 \<le> now - m" by linarith
  then show ?thesis by (simp add: TRAP_THROTTLE_PERIOD_def)
qed

lemma poll_inv:
  assumes doc: "atime_documented E" and mono: "clock_mono E" and inv: "lc_inv E l"
  shows "lc_inv E (poll_entLastChangeTime E l)"
proof (cases "poll_sends E l")
  case False
  have "clock E (clock_reads l) \<le> clock E (Suc (clock_reads l))"
    using mono by (simp add: clock_mono_def)
  with inv False show ?thesis
    by (auto simp: poll_silent lc_inv_def)
next
  case True
  let ?now = "clock E (clock_reads l)" and ?t = "clock E (Suc (clock_reads l))"
  have le: "?now \<le> ?t" "?t \<le> clock E (Suc (Suc (clock_reads l)))"
    using mono by (simp_all add: clock_mono_def)
  from True doc have "1000 * TRAP_THROTTLE_PERIOD \<le> ?now - trapLastIssued l"
    by (auto simp: poll_sends_def intro: ready_spacing)
  with le inv have "spaced (?t # trap_markers l)"
    by (intro spaced_Cons) (auto simp: lc_inv_def)
  with le inv True show ?thesis
    by (auto simp: poll_sending lc_inv_def)
qed

lemma step_inv:
  assumes "atime_documented E" "clock_mono E" "lc_inv E l"
  shows "lc_inv E (lc_step E l e)"
proof (cases e)
  case Config_Change
  have "clock E (clock_reads l) \<le> clock E (Suc (clock_reads l))"
    using assms(2) by (simp add: clock_mono_def)
  with assms(3) have
    "lc_inv E (l\<lparr>clock_reads := Suc (clock_reads l),
                  entLastChangeTime := clock E (clock_reads l)\<rparr>)"
    by (auto simp: lc_inv_def)
  with assms(1,2) Config_Change show ?thesis
    by (simp add: configChanged_poll poll_inv)
next
  case Alarm
  with assms show ?thesis by (simp add: alarm_entLastChangeTime_def poll_inv)
qed

lemma run_inv:
  "atime_documented E \<Longrightarrow> clock_mono E \<Longrightarrow> lc_inv E l \<Longrightarrow> lc_inv E (lc_run E l es)"
  by (induction es arbitrary: l) (auto intro: step_inv)

lemma init_inv:
  "clock_mono E \<Longrightarrow> 0 \<le> clock E 0 \<Longrightarrow> lc_inv E (init_entLastChangeTime E lc_static)"
  using clock_mono_le [of E 0 "Suc 0"]
  by (simp add: init_entLastChangeTime_def read_clock_def lc_inv_def lc_static_def)

lemma diff_nonpos:
  "atime_documented E \<Longrightarrow> atime_diff E a b \<le> 0 \<longleftrightarrow> b - a < 1000"
  by (auto simp: atime_documented_def)

text \<open>
  A change is pending when the last trap is not later than it, up to the millisecond that
  \<^verbatim>\<open>atime_diff\<close> resolves. Steps that send nothing keep it pending.
\<close>

definition pending :: "last_change \<Rightarrow> bool" where
  "pending l \<longleftrightarrow> trapLastIssued l - entLastChangeTime l < 1000"

lemma step_grows: "\<exists>ts. traps_sent (lc_step E l e) = ts @ traps_sent l"
proof -
  have p: "\<exists>ts. traps_sent (poll_entLastChangeTime E k) = ts @ traps_sent k" for k
    by (cases "poll_sends E k") (auto simp: poll_sending poll_silent)
  show ?thesis
    by (cases e) (use p [of l] p [of "l\<lparr>clock_reads := Suc (clock_reads l),
      entLastChangeTime := clock E (clock_reads l)\<rparr>"] in \<open>auto simp: configChanged_poll alarm_entLastChangeTime_def\<close>)
qed

lemma run_grows: "\<exists>ts. traps_sent (lc_run E l es) = ts @ traps_sent l"
proof (induction es arbitrary: l)
  case (Cons e es)
  then show ?case using step_grows [of E l e] by (metis append.assoc lc_run.simps(2))
qed simp

lemma step_silent:
  assumes "clock_mono E" "lc_inv E l" "traps_sent (lc_step E l e) = traps_sent l"
  shows "trapLastIssued (lc_step E l e) = trapLastIssued l \<and>
    (pending l \<or> e = Config_Change \<longrightarrow> pending (lc_step E l e))"
proof (cases e)
  case Config_Change
  let ?l1 = "l\<lparr>clock_reads := Suc (clock_reads l), entLastChangeTime := clock E (clock_reads l)\<rparr>"
  have "\<not> poll_sends E ?l1" using assms(3) Config_Change by (auto simp: configChanged_poll poll_sending)
  then show ?thesis using assms(2) Config_Change
    by (auto simp: configChanged_poll poll_silent pending_def lc_inv_def)
next
  case Alarm
  then have "\<not> poll_sends E l" using assms(3) by (auto simp: alarm_entLastChangeTime_def poll_sending)
  then show ?thesis using Alarm by (simp add: alarm_entLastChangeTime_def poll_silent pending_def)
qed

lemma run_silent:
  assumes "atime_documented E" "clock_mono E" "lc_inv E l" "pending l"
    and "traps_sent (lc_run E l es) = traps_sent l"
  shows "pending (lc_run E l es) \<and> trapLastIssued (lc_run E l es) = trapLastIssued l"
  using assms(3-5)
proof (induction es arbitrary: l)
  case (Cons e es)
  obtain ts us where "traps_sent (lc_step E l e) = ts @ traps_sent l"
    "traps_sent (lc_run E (lc_step E l e) es) = us @ traps_sent (lc_step E l e)"
    using step_grows run_grows by meson
  with Cons.prems(3) have q: "traps_sent (lc_step E l e) = traps_sent l"
    "traps_sent (lc_run E (lc_step E l e) es) = traps_sent (lc_step E l e)" by simp_all
  show ?case
    using Cons.IH [OF step_inv [OF assms(1,2) Cons.prems(1)]] step_silent [OF assms(2) Cons.prems(1) q(1)]
      Cons.prems(2) q(2) by simp
qed simp

lemma pending_step:
  assumes "atime_documented E" "clock_mono E" "lc_inv E l" "pending l"
    and "trapLastIssued l + 5000000 \<le> clock E (clock_reads l)"
  shows "traps_sent (lc_step E l e) =
    \<lparr>trap_generic = 6, trap_specific = 1, trap_enterprise = [1, 3, 6, 1, 2, 1, 47, 2]\<rparr> # traps_sent l"
proof -
  have le: "clock E (clock_reads l) \<le> clock E (Suc (clock_reads l))" using assms(2) by (simp add: clock_mono_def)
  have ready: "atime_ready E (trapLastIssued l) TRAP_THROTTLE_PERIOD now"
    if "clock E (clock_reads l) \<le> now" for now
    using assms(1,5) that by (simp add: atime_documented_def TRAP_THROTTLE_PERIOD_def)
  have "poll_sends E l" using ready [of "clock E (clock_reads l)"] assms(1,4)
    by (simp add: poll_sends_def diff_nonpos pending_def)
  moreover have "poll_sends E (l\<lparr>clock_reads := Suc (clock_reads l), entLastChangeTime := clock E (clock_reads l)\<rparr>)"
    using ready [OF le] assms(1,3) by (simp add: poll_sends_def diff_nonpos lc_inv_def)
  ultimately show ?thesis
    by (cases e) (simp_all add: configChanged_poll alarm_entLastChangeTime_def poll_sending
      SNMP_TRAP_ENTERPRISESPECIFIC_def entityMIBTrapsOID_def)
qed

section \<open>Properties\<close>

text \<open>
  C9. Throttling. Whatever the sequence of configuration changes and alarms since
  initialisation, two traps are never issued closer together than the throttle period of
  five seconds (here in microseconds), for any clock that does not run backwards.
\<close>

theorem traps_are_throttled:
  assumes "atime_documented E" "clock_mono E" "0 \<le> clock E 0"
    and "i < j" "j < length (trap_markers (lc_run E (init_entLastChangeTime E lc_static) es))"
  shows "5000000 \<le> trap_markers (lc_run E (init_entLastChangeTime E lc_static) es) ! i
                  - trap_markers (lc_run E (init_entLastChangeTime E lc_static) es) ! j"
proof -
  have sp: "1000 * TRAP_THROTTLE_PERIOD \<le> ts ! i - ts ! j"
    if "spaced ts" "i < j" "j < length ts" for ts i j
    using that
  proof (induction ts arbitrary: i j rule: spaced.induct)
    case (1 t u ts)
    show ?case
    proof (cases i)
      case 0
      with 1 show ?thesis
      proof (cases "j = 1")
        case False
        with 1 0 have "1000 * TRAP_THROTTLE_PERIOD \<le> (u # ts) ! 0 - (u # ts) ! (j - 1)"
          by (intro "1.IH") auto
        with 1 0 False show ?thesis
          by (cases j) (auto simp: TRAP_THROTTLE_PERIOD_def)
      qed auto
    next
      case (Suc k)
      with 1 show ?thesis by (cases j) auto
    qed
  qed auto
  from assms have "lc_inv E (lc_run E (init_entLastChangeTime E lc_static) es)"
    by (intro run_inv init_inv)
  with sp assms(4,5) show ?thesis
    by (auto simp: lc_inv_def TRAP_THROTTLE_PERIOD_def)
qed

theorem traps_are_throttled_witness:
  "(5000000::int) \<le> 6000000 * 2 - 0 \<and>
   5000000 \<le> trap_markers (lc_run (demo_env (\<lambda>n. 6000000 * int n))
                   (init_entLastChangeTime (demo_env (\<lambda>n. 6000000 * int n)) lc_static)
                   [Config_Change, Config_Change]) ! 0
            - trap_markers (lc_run (demo_env (\<lambda>n. 6000000 * int n))
                   (init_entLastChangeTime (demo_env (\<lambda>n. 6000000 * int n)) lc_static)
                   [Config_Change, Config_Change]) ! 1"
proof -
  let ?E = "demo_env (\<lambda>n. 6000000 * int n)"
  have "trap_markers (lc_run ?E (init_entLastChangeTime ?E lc_static) [Config_Change, Config_Change])
        = [36000000, 18000000]"
    by (simp add: lc_defs init_entLastChangeTime_def lc_static_def demo_env_def
        TRAP_THROTTLE_PERIOD_def)
  then show ?thesis
    using traps_are_throttled [of ?E 0 1 "[Config_Change, Config_Change]"]
    by (simp add: clock_mono_def)
qed

text \<open>
  C10. No change goes unreported. After any sequence of changes and alarms since initialisation, let
  \<open>configChanged\<close> be throttled, and let any further changes and alarms follow. Either one
  of those has sent a trap, or the change is still pending: the time of the last trap is what it was,
  and the next change or alarm that comes five seconds or more after it sends the trap. Nothing but a
  trap clears the pending change. The clock may advance in any way as long as it does not run
  backwards.
\<close>

theorem throttled_change_is_reported:
  assumes E: "atime_documented E" "clock_mono E" "0 \<le> clock E 0"
    and l: "l = lc_run E (init_entLastChangeTime E lc_static) earlier"
    and throttled: "traps_sent (lc_configChanged E l) = traps_sent l"
    and m: "m = lc_run E (lc_configChanged E l) later"
  shows "(\<exists>ts. traps_sent m = ts @ traps_sent l) \<and>
    (traps_sent m = traps_sent l \<longrightarrow> trapLastIssued m = trapLastIssued l \<and>
      (trapLastIssued l + 5000000 \<le> clock E (clock_reads m) \<longrightarrow>
        (\<forall>e. traps_sent (lc_step E m e) =
          \<lparr>trap_generic = 6, trap_specific = 1, trap_enterprise = [1, 3, 6, 1, 2, 1, 47, 2]\<rparr>
            # traps_sent l)))"
proof -
  have i: "lc_inv E l" unfolding l using E by (intro run_inv init_inv)
  then have j: "lc_inv E (lc_configChanged E l)" using step_inv [OF E(1,2), of l Config_Change] by simp
  have run: "m = lc_run E l (Config_Change # later)" using m by simp
  have "pending (lc_configChanged E l)" using step_silent [OF E(2) i, of Config_Change] throttled by simp
  then have p: "traps_sent m = traps_sent l \<Longrightarrow> pending m \<and> trapLastIssued m = trapLastIssued l"
    using run_silent [OF E(1,2) j, of later] step_silent [OF E(2) i, of Config_Change] throttled m by auto
  have "traps_sent (lc_step E m e) =
      \<lparr>trap_generic = 6, trap_specific = 1, trap_enterprise = [1, 3, 6, 1, 2, 1, 47, 2]\<rparr> # traps_sent l"
    if "traps_sent m = traps_sent l" "trapLastIssued l + 5000000 \<le> clock E (clock_reads m)" for e
    using pending_step [OF E(1,2), of m e] run_inv [OF E(1,2) j, of later] p [OF that(1)] that m by simp
  then show ?thesis using run_grows [of E l "Config_Change # later"] p run by auto
qed

definition slow_clock :: "nat \<Rightarrow> marker" where
  "slow_clock n = (if n < 7 then 1000000 else 9000000)"

theorem throttled_change_is_reported_witness:
  "traps_sent (lc_step (demo_env slow_clock)
     (lc_run (demo_env slow_clock) (lc_configChanged (demo_env slow_clock)
       (lc_run (demo_env slow_clock) (init_entLastChangeTime (demo_env slow_clock) lc_static) []))
       [Alarm, Alarm, Config_Change]) Alarm) =
     [\<lparr>trap_generic = 6, trap_specific = 1, trap_enterprise = [1, 3, 6, 1, 2, 1, 47, 2]\<rparr>]"
proof -
  let ?E = "demo_env slow_clock"
  let ?l = "lc_run ?E (init_entLastChangeTime ?E lc_static) []"
  let ?m = "lc_run ?E (lc_configChanged ?E ?l) [Alarm, Alarm, Config_Change]"
  have E: "atime_documented ?E" "clock_mono ?E" "0 \<le> clock ?E 0"
    by (auto simp: clock_mono_def slow_clock_def)
  have c: "traps_sent (lc_configChanged ?E ?l) = traps_sent ?l" "traps_sent ?m = traps_sent ?l"
    "trapLastIssued ?l + 5000000 \<le> clock ?E (clock_reads ?m)" "traps_sent ?l = []"
    by (simp_all add: lc_defs lc_static_def init_entLastChangeTime_def demo_env_def slow_clock_def
      TRAP_THROTTLE_PERIOD_def)
  show ?thesis
    using throttled_change_is_reported [OF E refl c(1) refl, of "[Alarm, Alarm, Config_Change]"] c(2,3)
    unfolding c(4) by blast
qed

text \<open>
  A change can be reported twice. When a change is reported at once and the trap
  is issued within the same millisecond, the alarm that ends the throttle period sends a
  second trap although nothing changed in between: the test \<^verbatim>\<open>diff <= 0\<close> takes a trap of the
  same millisecond for one that precedes the change.
\<close>

theorem immediate_trap_is_repeated:
  assumes "atime_documented E"
    and "traps_sent (lc_configChanged E l) \<noteq> traps_sent l"
    and "clock E (clock_reads l + 2) - clock E (clock_reads l) < 1000"
    and "atime_ready E (trapLastIssued (lc_configChanged E l)) TRAP_THROTTLE_PERIOD
           (clock E (clock_reads (lc_configChanged E l)))"
  shows "length (traps_sent (alarm_entLastChangeTime E (lc_configChanged E l)))
           = length (traps_sent l) + 2
         \<and> entLastChangeTime (alarm_entLastChangeTime E (lc_configChanged E l))
           = clock E (clock_reads l)"
proof -
  let ?l1 = "l\<lparr>clock_reads := Suc (clock_reads l), entLastChangeTime := clock E (clock_reads l)\<rparr>"
  have "poll_sends E ?l1"
    using assms(2) by (rule contrapos_np) (simp add: configChanged_poll poll_silent)
  then have eq: "trapLastIssued (lc_configChanged E l) = clock E (clock_reads l + 2)"
    "entLastChangeTime (lc_configChanged E l) = clock E (clock_reads l)"
    "length (traps_sent (lc_configChanged E l)) = Suc (length (traps_sent l))"
    by (simp_all add: configChanged_poll poll_sending)
  have "atime_diff E (clock E (clock_reads l)) (clock E (clock_reads l + 2)) \<le> 0"
    using assms(1,3) by (simp add: diff_nonpos)
  with assms(4) have "poll_sends E (lc_configChanged E l)"
    by (simp add: eq poll_sends_def)
  with eq show ?thesis
    by (simp_all add: alarm_entLastChangeTime_def poll_sending)
qed

definition burst_clock :: "nat \<Rightarrow> marker" where
  "burst_clock n = (if n < 3 then 10000000 + 100 * int n else 16000000)"

theorem immediate_trap_is_repeated_witness:
  "length (traps_sent (alarm_entLastChangeTime (demo_env burst_clock)
     (lc_configChanged (demo_env burst_clock) lc_static))) = 2"
proof -
  let ?E = "demo_env burst_clock"
  have c: "traps_sent (lc_configChanged ?E lc_static) \<noteq> traps_sent lc_static"
    "clock ?E (clock_reads lc_static + 2) - clock ?E (clock_reads lc_static) < 1000"
    "atime_ready ?E (trapLastIssued (lc_configChanged ?E lc_static)) TRAP_THROTTLE_PERIOD
       (clock ?E (clock_reads (lc_configChanged ?E lc_static)))"
    by (simp_all add: lc_defs lc_static_def demo_env_def burst_clock_def TRAP_THROTTLE_PERIOD_def)
  show ?thesis
    using immediate_trap_is_repeated [OF demo_env_documented c] by (simp add: lc_static_def)
qed

end
