(* ===== verification/Indexed_Table.thy ===== *)
theory Indexed_Table
  imports Entity_Prelude
begin

text \<open>
  The linked list behind \<^verbatim>\<open>entPhysicalTable\<close> and \<^verbatim>\<open>entLogicalTable\<close>. The two C files
  hold the same code twice, once per entry structure (\<^verbatim>\<open>AddToPhysicalTable\<close> and
  \<^verbatim>\<open>AddToLogicalTable\<close>, the getters, the stale/live switches); here it is written once over
  the payload type \<open>'a\<close> and instantiated in \<^verbatim>\<open>Entity_State\<close>, \<^verbatim>\<open>Physical_Table\<close> and
  \<^verbatim>\<open>Logical_Table\<close>.

  A node carries the address \<^verbatim>\<open>malloc\<close> gave it, because the tail pointer is an address: the
  code never resets the tail when the last node is freed, so it may dangle or, when the
  address is reused, point into the middle of the chain or to the very node that is being
  added. In the last case the node is linked to itself and not to the chain; \<open>tloose\<close> is the
  last node added outside the chain in this way (no deletion ever finds it, so it is never
  freed). A negative index marks a stale entry.
\<close>

record 'a node =
  naddr :: addr
  nidx :: int
  ndata :: 'a

record 'a itable =
  thead :: "'a node list"
  ttail :: "addr option"
  tsize :: int
  tloose :: "'a node option"

definition empty_table :: "'a itable" where
  "empty_table = \<lparr>thead = [], ttail = None, tsize = 0, tloose = None\<rparr>"

section \<open>Adding an entry\<close>

text \<open>The walk past the entries whose index, live or stale, is below the requested one.\<close>

fun walk_below :: "int \<Rightarrow> 'a node list \<Rightarrow> 'a node list \<times> 'a node list" where
  "walk_below i [] = ([], [])"
| "walk_below i (n # ns) =
     (if i > c_abs (nidx n) then (case walk_below i ns of (p, r) \<Rightarrow> (n # p, r))
      else ([], n # ns))"

text \<open>First attempt: the requested index, when it is positive and not taken.\<close>

definition insert_at :: "'a node \<Rightarrow> 'a itable \<Rightarrow> 'a itable option" where
  "insert_at x t =
     (if nidx x > 0 then
        (case walk_below (nidx x) (thead t) of (p, r) \<Rightarrow>
           if thead t = [] then
             Some (t\<lparr>thead := [x], ttail := Some (naddr x), tsize := tsize t + 1\<rparr>)
           else if r = [] then
             Some (t\<lparr>thead := p @ [x], ttail := Some (naddr x), tsize := tsize t + 1\<rparr>)
           else if nidx x \<noteq> c_abs (nidx (hd r)) then
             Some (t\<lparr>thead := p @ x # r, tsize := tsize t + 1\<rparr>)
           else None)
      else None)"

text \<open>
  Large tables: append after the tail pointer. The node behind the pointer is in the chain,
  or it was itself added outside the chain, or it is the new node, at the address of the
  freed one. In the last two cases the chain stays as it is. Otherwise the pointer is null or
  dangles, and the behaviour is undefined.
\<close>

definition append_at_tail :: "'a node \<Rightarrow> 'a itable \<Rightarrow> (int \<times> 'a itable) option" where
  "append_at_tail x t =
     (case ttail t of None \<Rightarrow> None
      | Some a \<Rightarrow>
          (case dropWhile (\<lambda>n. naddr n \<noteq> a) (thead t) of
             [] \<Rightarrow>
               (case (if a = naddr x then Some x
                      else if map_option naddr (tloose t) = Some a then tloose t else None) of
                  None \<Rightarrow> None
                | Some n \<Rightarrow>
                    (let i = int32 (c_abs (nidx n) + 1) in
                     Some (i, t\<lparr>ttail := Some (naddr x), tsize := tsize t + 1,
                                tloose := Some (x\<lparr>nidx := i\<rparr>)\<rparr>)))
           | n # _ \<Rightarrow>
               (let i = int32 (c_abs (nidx n) + 1) in
                Some (i, t\<lparr>thead := takeWhile (\<lambda>m. naddr m \<noteq> a) (thead t) @ [n, x\<lparr>nidx := i\<rparr>],
                           ttail := Some (naddr x), tsize := tsize t + 1\<rparr>))))"

text \<open>
  Small tables: the first gap between two neighbours, else after the last entry. The
  result is the index, the new chain and whether the entry became the last one.
\<close>

fun fill_gap :: "'a node \<Rightarrow> 'a node list \<Rightarrow> int \<times> 'a node list \<times> bool" where
  "fill_gap x [] = (1, [x\<lparr>nidx := 1\<rparr>], True)"
| "fill_gap x [n] =
     (let i = int32 (c_abs (nidx n) + 1) in (i, [n, x\<lparr>nidx := i\<rparr>], True))"
| "fill_gap x (n # m # ns) =
     (if c_abs (nidx m) - c_abs (nidx n) > 1
      then (let i = int32 (c_abs (nidx n) + 1) in (i, n # x\<lparr>nidx := i\<rparr> # m # ns, False))
      else (case fill_gap x (m # ns) of (i, ms, e) \<Rightarrow> (i, n # ms, e)))"

definition add_to_table :: "'a node \<Rightarrow> 'a itable \<Rightarrow> (int \<times> 'a itable) option" where
  "add_to_table x t =
     (case insert_at x t of
        Some t' \<Rightarrow> Some (nidx x, t')
      | None \<Rightarrow>
          if tsize t > LARGE_TABLE then append_at_tail x t
          else (case fill_gap x (thead t) of (i, ns, e) \<Rightarrow>
                  Some (i, t\<lparr>thead := ns, ttail := (if e then Some (naddr x) else ttail t),
                             tsize := tsize t + 1\<rparr>)))"

section \<open>Searching and switching\<close>

fun find_live :: "int \<Rightarrow> 'a node list \<Rightarrow> 'a node option" where
  "find_live x [] = None"
| "find_live x (n # ns) =
     (if nidx n > 0 \<and> nidx n = x then Some n
      else if nidx n = - x then None else find_live x ns)"

fun find_stale :: "int \<Rightarrow> 'a node list \<Rightarrow> 'a node option" where
  "find_stale x [] = None"
| "find_stale x (n # ns) =
     (if nidx n < 0 \<and> nidx n = - x then Some n
      else if nidx n = x then None else find_stale x ns)"

definition get_live :: "int \<Rightarrow> 'a itable \<Rightarrow> 'a node option" where
  "get_live x t = (if x \<le> 0 \<or> x > MAX_ENTITY_INDEX then None else find_live x (thead t))"

definition get_stale :: "int \<Rightarrow> 'a itable \<Rightarrow> 'a node option" where
  "get_stale x t = (if x \<le> 0 \<or> x > MAX_ENTITY_INDEX then None else find_stale x (thead t))"

text \<open>
  The loops of the delete, stale and live functions: the entry wanted (\<open>Hit\<close>), an entry
  with the index in the other state (\<open>Clash\<close>), or neither.
\<close>

datatype scan = Absent | Clash | Hit

fun scan_delete :: "int \<Rightarrow> 'a node list \<Rightarrow> scan" where
  "scan_delete x [] = Absent"
| "scan_delete x (n # ns) =
     (if nidx n > 0 \<and> nidx n = x then Hit
      else if nidx n = - x then Clash else scan_delete x ns)"

fun scan_to_stale :: "int \<Rightarrow> 'a node list \<Rightarrow> scan" where
  "scan_to_stale x [] = Absent"
| "scan_to_stale x (n # ns) =
     (if nidx n < 0 \<and> nidx n = - x then Clash
      else if nidx n = x then Hit else scan_to_stale x ns)"

fun scan_to_live :: "int \<Rightarrow> 'a node list \<Rightarrow> scan" where
  "scan_to_live x [] = Absent"
| "scan_to_live x (n # ns) =
     (if nidx n > 0 \<and> nidx n = x then Clash
      else if nidx n = - x then Hit else scan_to_live x ns)"

text \<open>Unlinking the first node with an index. The tail pointer is left as it is.\<close>

fun drop_idx :: "int \<Rightarrow> 'a node list \<Rightarrow> 'a node list" where
  "drop_idx x [] = []"
| "drop_idx x (n # ns) = (if nidx n = x then ns else n # drop_idx x ns)"

definition unlink :: "int \<Rightarrow> 'a itable \<Rightarrow> 'a itable" where
  "unlink x t = t\<lparr>thead := drop_idx x (thead t), tsize := tsize t - 1\<rparr>"

fun set_idx :: "int \<Rightarrow> int \<Rightarrow> 'a node list \<Rightarrow> 'a node list" where
  "set_idx x y [] = []"
| "set_idx x y (n # ns) = (if nidx n = x then n\<lparr>nidx := y\<rparr> # ns else n # set_idx x y ns)"

definition reindex :: "int \<Rightarrow> int \<Rightarrow> 'a itable \<Rightarrow> 'a itable" where
  "reindex x y t = t\<lparr>thead := set_idx x y (thead t)\<rparr>"

text \<open>A write through a pointer to a node.\<close>

definition write_node :: "addr \<Rightarrow> ('a \<Rightarrow> 'a) \<Rightarrow> 'a itable \<Rightarrow> 'a itable" where
  "write_node a f t =
     t\<lparr>thead := map (\<lambda>n. if naddr n = a then n\<lparr>ndata := f (ndata n)\<rparr> else n) (thead t)\<rparr>"

text \<open>The iterator of the table helper: the first live entry, and the next one after a node.\<close>

fun first_live :: "'a node list \<Rightarrow> 'a node list" where
  "first_live [] = []"
| "first_live (n # ns) = (if nidx n > 0 then n # ns else first_live ns)"

fun next_live :: "'a node list \<Rightarrow> 'a node list" where
  "next_live [] = []"
| "next_live (n # ns) = first_live ns"

section \<open>Well-formedness and the directory a table stands for\<close>

definition twf :: "'a itable \<Rightarrow> bool" where
  "twf t \<longleftrightarrow>
     sorted_wrt (<) (map (\<lambda>n. \<bar>nidx n\<bar>) (thead t)) \<and>
     (\<forall>n \<in> set (thead t). 1 \<le> \<bar>nidx n\<bar> \<and> \<bar>nidx n\<bar> \<le> MAX_ENTITY_INDEX) \<and>
     distinct (map naddr (thead t)) \<and>
     tsize t = int (length (thead t)) \<and> tloose t = None"

definition tail_ok :: "'a itable \<Rightarrow> bool" where
  "tail_ok t \<longleftrightarrow> (thead t \<noteq> [] \<longrightarrow> ttail t = Some (naddr (last (thead t))))"

text \<open>What a table means: an index is absent, or live or stale with a payload.\<close>

definition directory :: "'a itable \<Rightarrow> int \<Rightarrow> (bool \<times> 'a) option" where
  "directory t i = map_of (map (\<lambda>n. (\<bar>nidx n\<bar>, (0 < nidx n, ndata n))) (thead t)) i"

definition live_set :: "'a itable \<Rightarrow> int set" where
  "live_set t = {i. 0 < i \<and> i \<in> nidx ` set (thead t)}"

definition stale_set :: "'a itable \<Rightarrow> int set" where
  "stale_set t = {i. 0 < i \<and> - i \<in> nidx ` set (thead t)}"

lemma sets_code [code]:
  "live_set t = set (filter (\<lambda>i. 0 < i) (map nidx (thead t)))"
  "stale_set t = uminus ` set (filter (\<lambda>i. i < 0) (map nidx (thead t)))"
proof -
  show "live_set t = set (filter (\<lambda>i. 0 < i) (map nidx (thead t)))" by (auto simp: live_set_def)
  show "stale_set t = uminus ` set (filter (\<lambda>i. i < 0) (map nidx (thead t)))"
  proof (rule set_eqI)
    fix i :: int
    have "i \<in> uminus ` S \<longleftrightarrow> - i \<in> S" for S by force
    then show "i \<in> stale_set t \<longleftrightarrow> i \<in> uminus ` set (filter (\<lambda>i. i < 0) (map nidx (thead t)))"
      by (auto simp: stale_set_def)
  qed
qed

section \<open>Lemmas: well-formed chains\<close>

lemma twf_empty [simp, wf_intros]: "twf empty_table"
  by (simp add: twf_def empty_table_def)

lemma tail_ok_empty [simp]: "tail_ok empty_table"
  by (simp add: tail_ok_def empty_table_def)

lemma twf_inj:
  "twf t \<Longrightarrow> n \<in> set (thead t) \<Longrightarrow> m \<in> set (thead t) \<Longrightarrow> \<bar>nidx n\<bar> = \<bar>nidx m\<bar> \<Longrightarrow> n = m"
  by (rule sorted_wrt_less_nth_unique [of "\<lambda>n. \<bar>nidx n\<bar>" "thead t"]) (auto simp: twf_def)

lemma twf_bounds:
  "twf t \<Longrightarrow> n \<in> set (thead t) \<Longrightarrow> 1 \<le> \<bar>nidx n\<bar> \<and> \<bar>nidx n\<bar> \<le> MAX_ENTITY_INDEX"
  by (simp add: twf_def)

lemma twf_c_abs [c_arith]: "twf t \<Longrightarrow> n \<in> set (thead t) \<Longrightarrow> c_abs (nidx n) = \<bar>nidx n\<bar>"
  by (simp add: c_abs_id twf_def)

lemma walk_below_split:
  "walk_below i ns = (p, r) \<Longrightarrow>
   ns = p @ r \<and> (\<forall>n \<in> set p. c_abs (nidx n) < i) \<and> (r \<noteq> [] \<longrightarrow> i \<le> c_abs (nidx (hd r)))"
  by (induction i ns arbitrary: p r rule: walk_below.induct)
    (auto split: if_splits prod.splits)

text \<open>Splicing a node with a fresh index into a well-formed chain.\<close>

lemma twf_splice:
  assumes "twf t" "thead t = p @ r" "naddr x \<notin> naddr ` set (thead t)"
    and "1 \<le> nidx x" "nidx x \<le> MAX_ENTITY_INDEX"
    and "\<forall>n \<in> set p. \<bar>nidx n\<bar> < nidx x" "\<forall>n \<in> set r. nidx x < \<bar>nidx n\<bar>"
  shows "twf (t\<lparr>thead := p @ x # r, ttail := a, tsize := tsize t + 1\<rparr>)"
  using assms by (auto simp: twf_def sorted_wrt_append)

lemma twf_above_hd:
  assumes "twf t" "thead t = p @ r" "r \<noteq> []" "i < \<bar>nidx (hd r)\<bar>"
  shows "\<forall>n \<in> set r. i < \<bar>nidx n\<bar>"
  using assms by (cases r) (auto simp: twf_def sorted_wrt_append)

lemma insert_at_Some:
  assumes wf: "twf t" and fresh: "naddr x \<notin> naddr ` set (thead t)"
    and le: "nidx x \<le> MAX_ENTITY_INDEX" and ins: "insert_at x t = Some t'"
  shows "twf t' \<and> set (thead t') = insert x (set (thead t)) \<and> nidx x > 0 \<and>
         nidx x \<notin> (\<lambda>n. \<bar>nidx n\<bar>) ` set (thead t) \<and> (tail_ok t \<longrightarrow> tail_ok t')"
proof -
  obtain p r where pr: "walk_below (nidx x) (thead t) = (p, r)" by fastforce
  from walk_below_split [OF pr] have sp: "thead t = p @ r"
    and p: "\<forall>n \<in> set p. c_abs (nidx n) < nidx x"
    and r: "r \<noteq> [] \<longrightarrow> nidx x \<le> c_abs (nidx (hd r))" by auto
  from ins have pos: "nidx x > 0" by (simp add: insert_at_def split: if_splits)
  have p': "\<forall>n \<in> set p. \<bar>nidx n\<bar> < nidx x"
    using p sp wf by (auto simp: twf_c_abs)
  have r': "\<forall>n \<in> set r. nidx x < \<bar>nidx n\<bar>"
  proof (cases "r = []")
    case False
    then have "hd r \<in> set (thead t)" using sp by simp
    moreover from ins pos pr False sp have "nidx x \<noteq> c_abs (nidx (hd r))"
      by (auto simp: insert_at_def split: if_splits)
    ultimately have "nidx x < \<bar>nidx (hd r)\<bar>" using r False wf twf_c_abs by fastforce
    with twf_above_hd [OF wf sp False] show ?thesis by blast
  qed simp
  from ins pos pr sp have t': "\<exists>a. t' = t\<lparr>thead := p @ x # r, ttail := a, tsize := tsize t + 1\<rparr> \<and>
      a = (if r = [] then Some (naddr x) else ttail t)"
    by (auto simp: insert_at_def split: if_splits)
  then obtain a where a: "t' = t\<lparr>thead := p @ x # r, ttail := a, tsize := tsize t + 1\<rparr>"
    "a = (if r = [] then Some (naddr x) else ttail t)" by blast
  have "twf t'"
    unfolding a(1) using wf sp fresh pos le p' r' by (intro twf_splice) auto
  moreover have "nidx x \<notin> (\<lambda>n. \<bar>nidx n\<bar>) ` set (thead t)" using p' r' sp by auto
  moreover have "tail_ok t \<longrightarrow> tail_ok t'" using a sp by (auto simp: tail_ok_def)
  ultimately show ?thesis using a sp pos by auto
qed

lemma insert_at_taken:
  assumes wf: "twf t" and pos: "nidx x > 0"
  shows "insert_at x t = None \<longleftrightarrow> nidx x \<in> (\<lambda>n. \<bar>nidx n\<bar>) ` set (thead t)"
proof -
  obtain p r where pr: "walk_below (nidx x) (thead t) = (p, r)" by fastforce
  from walk_below_split [OF pr] have sp: "thead t = p @ r"
    and p: "\<forall>n \<in> set p. c_abs (nidx n) < nidx x"
    and r: "r \<noteq> [] \<longrightarrow> nidx x \<le> c_abs (nidx (hd r))" by auto
  have "insert_at x t = None \<longleftrightarrow> r \<noteq> [] \<and> nidx x = c_abs (nidx (hd r))"
    using pos pr sp by (auto simp: insert_at_def)
  also have "\<dots> \<longleftrightarrow> nidx x \<in> (\<lambda>n. \<bar>nidx n\<bar>) ` set (thead t)"
  proof
    assume "r \<noteq> [] \<and> nidx x = c_abs (nidx (hd r))"
    then show "nidx x \<in> (\<lambda>n. \<bar>nidx n\<bar>) ` set (thead t)"
      using sp wf twf_c_abs [of t "hd r"] by force
  next
    assume "nidx x \<in> (\<lambda>n. \<bar>nidx n\<bar>) ` set (thead t)"
    then obtain n where n: "n \<in> set (thead t)" "nidx x = \<bar>nidx n\<bar>" by auto
    then have "n \<in> set r" using p sp wf by (auto simp: twf_c_abs)
    then obtain m rs where r_eq: "r = m # rs" by (cases r) auto
    have "nidx x \<le> \<bar>nidx m\<bar>" using r r_eq sp wf twf_c_abs [of t m] by simp
    with n \<open>n \<in> set r\<close> r_eq sp wf have "n = m"
      by (auto simp: twf_def sorted_wrt_append)
    with n r_eq sp wf twf_c_abs [of t m] show "r \<noteq> [] \<and> nidx x = c_abs (nidx (hd r))" by simp
  qed
  finally show ?thesis .
qed

text \<open>Filling the first gap: every index from the head up to the one chosen is taken.\<close>

lemma fill_gap_split:
  assumes "sorted_wrt (<) (map (\<lambda>n. \<bar>nidx n\<bar>) ns)" "ns \<noteq> []"
    and "\<forall>n \<in> set ns. 1 \<le> \<bar>nidx n\<bar> \<and> \<bar>nidx n\<bar> < MAX_ENTITY_INDEX"
    and "fill_gap x ns = (i, ms, e)"
  shows "\<exists>p r. ns = p @ r \<and> p \<noteq> [] \<and> ms = p @ x\<lparr>nidx := i\<rparr> # r \<and> i = \<bar>nidx (last p)\<bar> + 1 \<and>
           (r \<noteq> [] \<longrightarrow> i < \<bar>nidx (hd r)\<bar>) \<and> e = (r = []) \<and>
           (\<forall>j. \<bar>nidx (hd ns)\<bar> \<le> j \<and> j < i \<longrightarrow> j \<in> (\<lambda>n. \<bar>nidx n\<bar>) ` set p)"
  using assms
proof (induction x ns arbitrary: i ms e rule: fill_gap.induct)
  case (2 x n)
  then have "c_abs (nidx n) = \<bar>nidx n\<bar>" "int32 (\<bar>nidx n\<bar> + 1) = \<bar>nidx n\<bar> + 1"
    by (simp_all add: c_abs_id int32_id MAX_ENTITY_INDEX_def)
  with 2 show ?case
    by (intro exI [of _ "[n]"] exI [of _ "[]"]) (auto simp: Let_def)
next
  case (3 x n m ns)
  have nm: "c_abs (nidx n) = \<bar>nidx n\<bar>" "c_abs (nidx m) = \<bar>nidx m\<bar>"
    "int32 (\<bar>nidx n\<bar> + 1) = \<bar>nidx n\<bar> + 1"
    using "3.prems"(3) by (simp_all add: c_abs_id int32_id MAX_ENTITY_INDEX_def)
  show ?case
  proof (cases "c_abs (nidx m) - c_abs (nidx n) > 1")
    case True
    with "3.prems" nm show ?thesis
      by (intro exI [of _ "[n]"] exI [of _ "m # ns"]) (auto simp: Let_def)
  next
    case False
    obtain j ks f where fg: "fill_gap x (m # ns) = (j, ks, f)" by (metis prod_cases3)
    have "\<exists>p r. m # ns = p @ r \<and> p \<noteq> [] \<and> ks = p @ x\<lparr>nidx := j\<rparr> # r \<and> j = \<bar>nidx (last p)\<bar> + 1 \<and>
           (r \<noteq> [] \<longrightarrow> j < \<bar>nidx (hd r)\<bar>) \<and> f = (r = []) \<and>
           (\<forall>l. \<bar>nidx (hd (m # ns))\<bar> \<le> l \<and> l < j \<longrightarrow> l \<in> (\<lambda>n. \<bar>nidx n\<bar>) ` set p)"
      using "3.prems" False fg by (intro "3.IH") auto
    then obtain p r where *: "m # ns = p @ r" "p \<noteq> []" "ks = p @ x\<lparr>nidx := j\<rparr> # r"
      "j = \<bar>nidx (last p)\<bar> + 1" "r \<noteq> [] \<longrightarrow> j < \<bar>nidx (hd r)\<bar>" "f = (r = [])"
      "\<forall>l. \<bar>nidx m\<bar> \<le> l \<and> l < j \<longrightarrow> l \<in> (\<lambda>n. \<bar>nidx n\<bar>) ` set p"
      unfolding list.sel by blast
    have m: "\<bar>nidx m\<bar> = \<bar>nidx n\<bar> + 1" using False nm "3.prems"(1) by auto
    have "\<forall>l. \<bar>nidx n\<bar> \<le> l \<and> l < j \<longrightarrow> l \<in> (\<lambda>n. \<bar>nidx n\<bar>) ` set (n # p)"
    proof (intro allI impI)
      fix l assume l: "\<bar>nidx n\<bar> \<le> l \<and> l < j"
      show "l \<in> (\<lambda>n. \<bar>nidx n\<bar>) ` set (n # p)"
      proof (cases "l = \<bar>nidx n\<bar>")
        case False
        with l m have "\<bar>nidx m\<bar> \<le> l \<and> l < j" by simp
        with *(7) have "l \<in> (\<lambda>n. \<bar>nidx n\<bar>) ` set p" by blast
        then show ?thesis by simp
      qed simp
    qed
    moreover have "i = j" "ms = n # ks" "e = f" using False fg "3.prems"(4) by auto
    ultimately show ?thesis
      using *(1-6) by (intro exI [of _ "n # p"] exI [of _ r] conjI) simp_all
  qed
qed simp

lemma below_last:
  fixes f :: "'b \<Rightarrow> int"
  shows "sorted_wrt (<) (map f p) \<Longrightarrow> n \<in> set p \<Longrightarrow> f n \<le> f (last p)"
  by (induction p rule: rev_induct) (auto simp: sorted_wrt_append)

lemma append_at_tail_ok:
  assumes wf: "twf t" and tail: "tail_ok t" and ne: "thead t \<noteq> []"
    and room: "\<bar>nidx (last (thead t))\<bar> < MAX_ENTITY_INDEX"
  shows "append_at_tail x t =
     Some (\<bar>nidx (last (thead t))\<bar> + 1,
           t\<lparr>thead := thead t @ [x\<lparr>nidx := \<bar>nidx (last (thead t))\<bar> + 1\<rparr>],
             ttail := Some (naddr x), tsize := tsize t + 1\<rparr>)"
proof -
  let ?l = "last (thead t)"
  have d: "distinct (map naddr (thead t))" using wf by (simp add: twf_def)
  have tw: "takeWhile (\<lambda>m. naddr m \<noteq> naddr ?l) (thead t) = butlast (thead t)"
    using d ne by (rule takeWhile_neq_last)
  then have dw: "dropWhile (\<lambda>m. naddr m \<noteq> naddr ?l) (thead t) = [?l]"
    using takeWhile_dropWhile_id [of "\<lambda>m. naddr m \<noteq> naddr ?l" "thead t"] append_butlast_last_id [OF ne]
    by (metis same_append_eq)
  have "c_abs (nidx ?l) = \<bar>nidx ?l\<bar>" using wf ne by (simp add: twf_c_abs)
  moreover have "int32 (\<bar>nidx ?l\<bar> + 1) = \<bar>nidx ?l\<bar> + 1"
    using room by (simp add: int32_id MAX_ENTITY_INDEX_def)
  moreover have "butlast (thead t) @ [?l, y] = thead t @ [y]" for y
    using append_butlast_last_id [OF ne] by (metis append.assoc append_Cons append_Nil)
  ultimately show ?thesis
    using tail ne by (simp add: append_at_tail_def tail_ok_def tw dw Let_def)
qed

text \<open>
  Adding an entry in good circumstances: the tail pointer is right or not needed, no
  entry sits at the largest index, and the new node has a fresh address.
\<close>

definition room :: "'a itable \<Rightarrow> bool" where
  "room t \<longleftrightarrow> (tail_ok t \<or> tsize t \<le> LARGE_TABLE) \<and> (\<forall>n \<in> set (thead t). \<bar>nidx n\<bar> < MAX_ENTITY_INDEX)"

definition added :: "'a node \<Rightarrow> int \<Rightarrow> 'a itable \<Rightarrow> 'a itable \<Rightarrow> bool" where
  "added x i t t' \<longleftrightarrow>
     twf t' \<and> set (thead t') = insert (x\<lparr>nidx := i\<rparr>) (set (thead t)) \<and>
     1 \<le> i \<and> i \<le> MAX_ENTITY_INDEX \<and> i \<notin> (\<lambda>n. \<bar>nidx n\<bar>) ` set (thead t) \<and>
     (tail_ok t \<longrightarrow> tail_ok t')"

lemma fill_gap_added:
  assumes wf: "twf t" and fresh: "naddr x \<notin> naddr ` set (thead t)" and room: "room t"
    and fg: "fill_gap x (thead t) = (i, ns, e)"
  shows "added x i t (t\<lparr>thead := ns, ttail := (if e then Some (naddr x) else ttail t),
                        tsize := tsize t + 1\<rparr>)"
proof (cases "thead t = []")
  case True
  with fg wf show ?thesis
    by (auto simp: added_def twf_def tail_ok_def MAX_ENTITY_INDEX_def)
next
  case False
  have "\<forall>n \<in> set (thead t). 1 \<le> \<bar>nidx n\<bar> \<and> \<bar>nidx n\<bar> < MAX_ENTITY_INDEX"
    using wf room by (auto simp: twf_def room_def)
  with wf False fg obtain p r where sp: "thead t = p @ r" "p \<noteq> []" "ns = p @ x\<lparr>nidx := i\<rparr> # r"
    "i = \<bar>nidx (last p)\<bar> + 1" "r \<noteq> [] \<longrightarrow> i < \<bar>nidx (hd r)\<bar>" "e = (r = [])"
    using fill_gap_split [of "thead t" x i ns e] by (auto simp: twf_def)
  have p: "\<forall>n \<in> set p. \<bar>nidx n\<bar> < i"
    using wf sp below_last [of "\<lambda>n. \<bar>nidx n\<bar>" p] by (auto simp: twf_def sorted_wrt_append)
  have r: "\<forall>n \<in> set r. i < \<bar>nidx n\<bar>"
    using twf_above_hd [OF wf sp(1)] sp(5) by fastforce
  have "last p \<in> set (thead t)" using sp by simp
  then have i: "1 \<le> i" "i \<le> MAX_ENTITY_INDEX" using room sp(4) by (auto simp: room_def)
  have "twf (t\<lparr>thead := ns, ttail := (if e then Some (naddr x) else ttail t), tsize := tsize t + 1\<rparr>)"
    unfolding sp(3) using wf sp(1) fresh i p r by (intro twf_splice) auto
  moreover have "i \<notin> (\<lambda>n. \<bar>nidx n\<bar>) ` set (thead t)" using p r sp(1) by auto
  ultimately show ?thesis using sp i by (auto simp: added_def tail_ok_def)
qed

lemma append_added:
  assumes wf: "twf t" and fresh: "naddr x \<notin> naddr ` set (thead t)" and room: "room t"
    and large: "tsize t > LARGE_TABLE" and ap: "append_at_tail x t = Some (i, t')"
  shows "added x i t t'"
proof -
  have ne: "thead t \<noteq> []" using wf large by (auto simp: twf_def LARGE_TABLE_def)
  let ?l = "last (thead t)"
  have tail: "tail_ok t" using room large by (auto simp: room_def)
  have l: "\<bar>nidx ?l\<bar> < MAX_ENTITY_INDEX" using room ne by (simp add: room_def)
  from append_at_tail_ok [OF wf tail ne l, of x] ap
  have i: "i = \<bar>nidx ?l\<bar> + 1" and
    t': "t' = t\<lparr>thead := thead t @ x\<lparr>nidx := i\<rparr> # [], ttail := Some (naddr x), tsize := tsize t + 1\<rparr>"
    by auto
  have p: "\<forall>n \<in> set (thead t). \<bar>nidx n\<bar> < i"
    using wf i below_last [of "\<lambda>n. \<bar>nidx n\<bar>" "thead t"] by (auto simp: twf_def)
  have "1 \<le> i" "i \<le> MAX_ENTITY_INDEX" using i l by simp_all
  moreover from this have "twf t'" unfolding t' using wf fresh p by (intro twf_splice) auto
  moreover have "tail_ok t'" using t' by (simp add: tail_ok_def)
  ultimately show ?thesis using p t' by (auto simp: added_def)
qed

lemma add_to_table_added:
  assumes wf: "twf t" and fresh: "naddr x \<notin> naddr ` set (thead t)" and room: "room t"
    and le: "nidx x \<le> MAX_ENTITY_INDEX" and add: "add_to_table x t = Some (i, t')"
  shows "added x i t t'"
proof (cases "insert_at x t")
  case (Some u)
  with add have "i = nidx x" "t' = u" by (auto simp: add_to_table_def)
  with insert_at_Some [OF wf fresh le Some] le show ?thesis by (simp add: added_def)
next
  case None
  then show ?thesis
  proof (cases "tsize t > LARGE_TABLE")
    case True
    with None add append_added [OF wf fresh room] show ?thesis by (simp add: add_to_table_def)
  next
    case False
    with None add fill_gap_added [OF wf fresh room] show ?thesis
      by (auto simp: add_to_table_def split: prod.splits)
  qed
qed

lemma add_to_table_defined:
  assumes "twf t" "room t"
  shows "\<exists>i t'. add_to_table x t = Some (i, t')"
proof (cases "insert_at x t = None \<and> tsize t > LARGE_TABLE")
  case True
  then have ne: "thead t \<noteq> []" using assms by (auto simp: twf_def LARGE_TABLE_def)
  with True assms append_at_tail_ok [of t x] show ?thesis
    by (auto simp: add_to_table_def room_def)
next
  case False
  then show ?thesis by (auto simp: add_to_table_def split: option.splits prod.splits)
qed

lemma add_to_table_requested:
  assumes "twf t" "0 < nidx x" "nidx x \<notin> (\<lambda>n. \<bar>nidx n\<bar>) ` set (thead t)"
    and "add_to_table x t = Some (i, t')"
  shows "i = nidx x"
  using assms insert_at_taken [of t x] by (auto simp: add_to_table_def)

section \<open>Lemmas: searching and switching\<close>

text \<open>Distinct indices up to sign are all the searches need.\<close>

abbreviation uniq :: "'a node list \<Rightarrow> bool" where
  "uniq ns \<equiv> distinct (map (\<lambda>n. \<bar>nidx n\<bar>) ns)"

lemma twf_uniq: "twf t \<Longrightarrow> uniq (thead t)"
  by (simp add: twf_def strict_sorted_iff)

lemma find_live_iff:
  "uniq ns \<Longrightarrow> 0 < x \<Longrightarrow> find_live x ns = Some n \<longleftrightarrow> n \<in> set ns \<and> nidx n = x"
  by (induction x ns rule: find_live.induct) (auto simp: image_iff)

lemma find_stale_iff:
  "uniq ns \<Longrightarrow> 0 < x \<Longrightarrow> find_stale x ns = Some n \<longleftrightarrow> n \<in> set ns \<and> nidx n = - x"
  by (induction x ns rule: find_stale.induct) (auto simp: image_iff)

lemma get_live_iff:
  "twf t \<Longrightarrow> get_live x t = Some n \<longleftrightarrow> n \<in> set (thead t) \<and> nidx n = x \<and> 0 < x"
  using twf_bounds [of t n] by (auto simp: get_live_def find_live_iff twf_uniq)

lemma get_stale_iff:
  "twf t \<Longrightarrow> get_stale x t = Some n \<longleftrightarrow> n \<in> set (thead t) \<and> nidx n = - x \<and> 0 < x"
  using twf_bounds [of t n] by (auto simp: get_stale_def find_stale_iff twf_uniq)

lemma get_live_None: "twf t \<Longrightarrow> get_live x t = None \<longleftrightarrow> x \<notin> live_set t"
proof -
  assume "twf t"
  then have "(\<exists>n. get_live x t = Some n) \<longleftrightarrow> x \<in> live_set t"
    by (auto simp: get_live_iff live_set_def)
  then show ?thesis by auto
qed

lemma get_stale_None: "twf t \<Longrightarrow> get_stale x t = None \<longleftrightarrow> x \<notin> stale_set t"
proof -
  assume "twf t"
  then have "(\<exists>n. get_stale x t = Some n) \<longleftrightarrow> x \<in> stale_set t"
    by (auto simp: get_stale_iff stale_set_def image_iff) metis
  then show ?thesis by auto
qed

lemma live_stale_disjoint: "twf t \<Longrightarrow> live_set t \<inter> stale_set t = {}"
  using twf_inj [of t] by (fastforce simp: live_set_def stale_set_def)

lemma live_set_bounds: "twf t \<Longrightarrow> x \<in> live_set t \<Longrightarrow> 1 \<le> x \<and> x \<le> MAX_ENTITY_INDEX"
  using twf_bounds [of t] by (fastforce simp: live_set_def)

lemma stale_set_bounds: "twf t \<Longrightarrow> x \<in> stale_set t \<Longrightarrow> 1 \<le> x \<and> x \<le> MAX_ENTITY_INDEX"
  using twf_bounds [of t] by (fastforce simp: stale_set_def)

lemma scan_delete_eq:
  "uniq ns \<Longrightarrow> 0 < x \<Longrightarrow> scan_delete x ns =
     (if x \<in> nidx ` set ns then Hit else if - x \<in> nidx ` set ns then Clash else Absent)"
  by (induction x ns rule: scan_delete.induct) (force simp: image_iff)+

lemma scan_to_stale_eq:
  "uniq ns \<Longrightarrow> 0 < x \<Longrightarrow> scan_to_stale x ns =
     (if x \<in> nidx ` set ns then Hit else if - x \<in> nidx ` set ns then Clash else Absent)"
  by (induction x ns rule: scan_to_stale.induct) (force simp: image_iff)+

lemma scan_to_live_eq:
  "uniq ns \<Longrightarrow> 0 < x \<Longrightarrow> scan_to_live x ns =
     (if - x \<in> nidx ` set ns then Hit else if x \<in> nidx ` set ns then Clash else Absent)"
  by (induction x ns rule: scan_to_live.induct) (force simp: image_iff)+

lemma set_drop_idx:
  "uniq ns \<Longrightarrow> set (drop_idx x ns) = {n \<in> set ns. nidx n \<noteq> x}"
  by (induction x ns rule: drop_idx.induct) (auto simp: image_iff)

lemma drop_idx_filter: "uniq ns \<Longrightarrow> drop_idx x ns = filter (\<lambda>n. nidx n \<noteq> x) ns"
proof (induction x ns rule: drop_idx.induct)
  case (2 x n ns)
  then have "nidx n = x \<Longrightarrow> filter (\<lambda>m. nidx m \<noteq> x) ns = ns"
    by (auto simp: filter_id_conv image_iff)
  with 2 show ?case by auto
qed simp

lemma length_drop_idx: "x \<in> nidx ` set ns \<Longrightarrow> Suc (length (drop_idx x ns)) = length ns"
  by (induction x ns rule: drop_idx.induct) auto

lemma twf_unlink:
  assumes "twf t" "x \<in> nidx ` set (thead t)"
  shows "twf (unlink x t)"
proof -
  have u: "uniq (thead t)" using assms by (rule_tac twf_uniq)
  have "Suc (length (drop_idx x (thead t))) = length (thead t)"
    using assms(2) by (rule length_drop_idx)
  then have "tsize t - 1 = int (length (drop_idx x (thead t)))"
    using assms(1) by (simp add: twf_def)
  moreover have "sorted_wrt (<) (map (\<lambda>n. \<bar>nidx n\<bar>) (filter (\<lambda>n. nidx n \<noteq> x) (thead t)))"
    "distinct (map naddr (filter (\<lambda>n. nidx n \<noteq> x) (thead t)))"
    using assms(1) by (auto simp: twf_def sorted_wrt_map sorted_wrt_filter distinct_map_filter)
  ultimately show ?thesis
    using assms(1) by (auto simp: twf_def unlink_def drop_idx_filter [OF u])
qed

lemma map_abs_set_idx: "y = x \<or> y = - x \<Longrightarrow> map (\<lambda>n. \<bar>nidx n\<bar>) (set_idx x y ns) = map (\<lambda>n. \<bar>nidx n\<bar>) ns"
  by (induction x y ns rule: set_idx.induct) auto

lemma map_addr_set_idx: "map naddr (set_idx x y ns) = map naddr ns"
  by (induction x y ns rule: set_idx.induct) auto

lemma length_set_idx [simp]: "length (set_idx x y ns) = length ns"
  by (induction x y ns rule: set_idx.induct) auto

lemma set_idx_map: "uniq ns \<Longrightarrow> set_idx x y ns = map (\<lambda>n. if nidx n = x then n\<lparr>nidx := y\<rparr> else n) ns"
proof (induction x y ns rule: set_idx.induct)
  case (2 x y n ns)
  then have "nidx n = x \<Longrightarrow> map (\<lambda>n. if nidx n = x then n\<lparr>nidx := y\<rparr> else n) ns = ns"
    by (intro map_cong_on) (auto simp: image_iff)
  with 2 show ?case by auto
qed simp

lemma twf_reindex:
  assumes "twf t" "y = x \<or> y = - x"
  shows "twf (reindex x y t)"
proof -
  have "(\<lambda>n. \<bar>nidx n\<bar>) ` set (set_idx x y (thead t)) = (\<lambda>n. \<bar>nidx n\<bar>) ` set (thead t)"
    using arg_cong [OF map_abs_set_idx [OF assms(2), of "thead t"], of set] by (simp only: set_map)
  then have "\<forall>n \<in> set (set_idx x y (thead t)). 1 \<le> \<bar>nidx n\<bar> \<and> \<bar>nidx n\<bar> \<le> MAX_ENTITY_INDEX"
    using assms(1) unfolding twf_def by (metis (no_types, lifting) image_iff)
  with assms show ?thesis
    by (simp add: twf_def reindex_def map_abs_set_idx map_addr_set_idx)
qed

lemma idx_image:
  assumes "a \<in> nidx ` S"
  shows "nidx ` ((\<lambda>n. if nidx n = a then n\<lparr>nidx := b\<rparr> else n) ` S) = insert b (nidx ` S - {a})"
proof -
  have "nidx ` ((\<lambda>n. if nidx n = a then n\<lparr>nidx := b\<rparr> else n) ` S) =
      (\<lambda>i. if i = a then b else i) ` (nidx ` S)"
    unfolding image_image by (rule image_cong) auto
  also have "\<dots> = insert b (nidx ` S - {a})" using assms by auto
  finally show ?thesis .
qed

text \<open>What the switches do to the live and the stale indices.\<close>

lemma sets_unlink:
  assumes "twf t" "0 < x" "x \<in> live_set t"
  shows "live_set (unlink x t) = live_set t - {x}" "stale_set (unlink x t) = stale_set t"
  using assms set_drop_idx [OF twf_uniq [OF assms(1)], of x]
  by (auto simp: live_set_def stale_set_def unlink_def image_iff)

lemma sets_reindex_stale:
  assumes "twf t" "x \<in> live_set t"
  shows "live_set (reindex x (- x) t) = live_set t - {x}"
    "stale_set (reindex x (- x) t) = insert x (stale_set t)"
proof -
  have *: "set (set_idx x (- x) (thead t)) =
      (\<lambda>n. if nidx n = x then n\<lparr>nidx := - x\<rparr> else n) ` set (thead t)"
    using twf_uniq [OF assms(1)] by (simp add: set_idx_map)
  have idx: "nidx ` set (set_idx x (- x) (thead t)) = insert (- x) (nidx ` set (thead t) - {x})"
    using assms(2) unfolding * live_set_def by (intro idx_image) simp
  show "live_set (reindex x (- x) t) = live_set t - {x}"
    using assms(2) by (auto simp: live_set_def reindex_def idx)
  show "stale_set (reindex x (- x) t) = insert x (stale_set t)"
    using assms(2) by (auto simp: live_set_def stale_set_def reindex_def idx)
qed

lemma sets_reindex_live:
  assumes "twf t" "x \<in> stale_set t"
  shows "live_set (reindex (- x) x t) = insert x (live_set t)"
    "stale_set (reindex (- x) x t) = stale_set t - {x}"
proof -
  have *: "set (set_idx (- x) x (thead t)) =
      (\<lambda>n. if nidx n = - x then n\<lparr>nidx := x\<rparr> else n) ` set (thead t)"
    using twf_uniq [OF assms(1)] by (simp add: set_idx_map)
  have idx: "nidx ` set (set_idx (- x) x (thead t)) = insert x (nidx ` set (thead t) - {- x})"
    using assms(2) unfolding * stale_set_def by (intro idx_image) simp
  show "live_set (reindex (- x) x t) = insert x (live_set t)"
    using assms(2) by (auto simp: live_set_def stale_set_def reindex_def idx)
  show "stale_set (reindex (- x) x t) = stale_set t - {x}"
    using assms(2) by (auto simp: live_set_def stale_set_def reindex_def idx)
qed

lemma sets_added:
  assumes "added x i t t'"
  shows "live_set t' = insert i (live_set t)" "stale_set t' = stale_set t"
  using assms by (auto simp: added_def live_set_def stale_set_def)

lemma added_fresh:
  assumes "added x i t t'"
  shows "0 < i" "i \<noteq> 0" "i \<notin> live_set t" "i \<notin> stale_set t"
proof -
  have "1 \<le> i" "i \<notin> (\<lambda>n. \<bar>nidx n\<bar>) ` set (thead t)" using assms by (simp_all add: added_def)
  then show "0 < i" "i \<noteq> 0" "i \<notin> live_set t" "i \<notin> stale_set t"
    by (auto simp: live_set_def stale_set_def image_iff)
qed

lemma unknown_index:
  assumes "0 < i" "i \<notin> live_set t" "i \<notin> stale_set t"
  shows "i \<notin> (\<lambda>n. \<bar>nidx n\<bar>) ` set (thead t)"
proof
  assume "i \<in> (\<lambda>n. \<bar>nidx n\<bar>) ` set (thead t)"
  then obtain n where "n \<in> set (thead t)" "i = \<bar>nidx n\<bar>" by auto
  with assms show False by (cases "0 \<le> nidx n") (auto simp: live_set_def stale_set_def)
qed

section \<open>The directory contract\<close>

text \<open>
  What the rest of the module relies on: a table is a directory from indices to live or
  stale payloads; removing, retiring (making stale) and reviving (making live) an entry
  change that one index only; allocation hands out an index that was neither live nor
  stale.
\<close>

locale entity_directory =
  fixes invar :: "'t \<Rightarrow> bool"
    and dir :: "'t \<Rightarrow> int \<Rightarrow> (bool \<times> 'a) option"
    and live :: "int \<Rightarrow> 't \<Rightarrow> 'a option"
    and stale :: "int \<Rightarrow> 't \<Rightarrow> 'a option"
    and remove :: "int \<Rightarrow> 't \<Rightarrow> 't"
    and retire :: "int \<Rightarrow> 't \<Rightarrow> 't"
    and revive :: "int \<Rightarrow> 't \<Rightarrow> 't"
  assumes live_dir: "invar t \<Longrightarrow> live x t = Some d \<longleftrightarrow> 0 < x \<and> dir t x = Some (True, d)"
    and stale_dir: "invar t \<Longrightarrow> stale x t = Some d \<longleftrightarrow> 0 < x \<and> dir t x = Some (False, d)"
    and dir_remove: "invar t \<Longrightarrow> live x t = Some d \<Longrightarrow> dir (remove x t) = (dir t)(x := None)"
    and dir_retire: "invar t \<Longrightarrow> live x t = Some d \<Longrightarrow> dir (retire x t) = (dir t)(x \<mapsto> (False, d))"
    and dir_revive: "invar t \<Longrightarrow> stale x t = Some d \<Longrightarrow> dir (revive x t) = (dir t)(x \<mapsto> (True, d))"
    and invar_remove: "invar t \<Longrightarrow> live x t = Some d \<Longrightarrow> invar (remove x t)"
    and invar_retire: "invar t \<Longrightarrow> live x t = Some d \<Longrightarrow> invar (retire x t)"
    and invar_revive: "invar t \<Longrightarrow> stale x t = Some d \<Longrightarrow> invar (revive x t)"
begin

lemma not_live_and_stale: "invar t \<Longrightarrow> live x t = Some d \<Longrightarrow> stale x t = None"
  using stale_dir [of t x] by (cases "stale x t") (auto simp: live_dir)

lemma retired:
  assumes "invar t" "live x t = Some d"
  shows "live x (retire x t) = None \<and> stale x (retire x t) = Some d"
proof -
  have i: "invar (retire x t)" using assms by (rule invar_retire)
  have "0 < x" using assms by (simp add: live_dir)
  then have s: "stale x (retire x t) = Some d"
    using assms by (simp add: stale_dir [OF i] dir_retire)
  have "live x (retire x t) \<noteq> Some e" for e
    using assms by (simp add: live_dir [OF i] dir_retire)
  with s show ?thesis by (cases "live x (retire x t)") auto
qed

lemma revive_retire: "invar t \<Longrightarrow> live x t = Some d \<Longrightarrow> dir (revive x (retire x t)) = dir t"
  using retired [of t x d] dir_revive [of "retire x t" x d] dir_retire [of t x d]
    invar_retire [of t x d]
  by (auto simp: live_dir fun_eq_iff)

lemma removed:
  assumes "invar t" "live x t = Some d"
  shows "live x (remove x t) = None \<and> stale x (remove x t) = None"
proof -
  have i: "invar (remove x t)" using assms by (rule invar_remove)
  have "dir (remove x t) x = None" using assms by (simp add: dir_remove)
  then have "live x (remove x t) \<noteq> Some e" "stale x (remove x t) \<noteq> Some e" for e
    by (simp_all add: live_dir [OF i] stale_dir [OF i])
  then show ?thesis by (metis not_Some_eq)
qed

lemma others_kept:
  assumes "invar t" "live x t = Some d" "y \<noteq> x"
  shows "live y (remove x t) = live y t \<and> live y (retire x t) = live y t"
proof -
  have i: "invar (remove x t)" "invar (retire x t)"
    using assms by (auto intro: invar_remove invar_retire)
  have "live y (remove x t) = Some e \<longleftrightarrow> live y t = Some e"
    "live y (retire x t) = Some e \<longleftrightarrow> live y t = Some e" for e
    using assms by (simp_all add: live_dir [OF i(1)] live_dir [OF i(2)] live_dir [OF assms(1)]
        dir_remove dir_retire)
  then show ?thesis by (metis option.exhaust)
qed

end

locale growing_directory = entity_directory +
  fixes alloc :: "'n \<Rightarrow> 't \<Rightarrow> (int \<times> 't) option"
    and payload :: "'n \<Rightarrow> 'a"
    and fits :: "'n \<Rightarrow> 't \<Rightarrow> bool"
  assumes dir_alloc: "invar t \<Longrightarrow> fits n t \<Longrightarrow> alloc n t = Some (i, t') \<Longrightarrow>
      dir t i = None \<and> dir t' = (dir t)(i \<mapsto> (True, payload n))"
    and invar_alloc: "invar t \<Longrightarrow> fits n t \<Longrightarrow> alloc n t = Some (i, t') \<Longrightarrow> invar t' \<and> 0 < i"
    and alloc_defined: "invar t \<Longrightarrow> fits n t \<Longrightarrow> \<exists>i t'. alloc n t = Some (i, t')"
begin

lemma allocated:
  assumes "invar t" "fits n t" "alloc n t = Some (i, t')"
  shows "live i t' = Some (payload n) \<and> stale i t = None \<and> live i t = None"
proof -
  from assms have "live i t' = Some (payload n)"
    using dir_alloc [OF assms] invar_alloc [OF assms] by (simp add: live_dir)
  moreover have "stale i t \<noteq> Some d" "live i t \<noteq> Some d" for d
    using dir_alloc [OF assms] assms(1) by (simp_all add: stale_dir live_dir)
  ultimately show ?thesis by (metis not_Some_eq)
qed

lemma alloc_keeps:
  assumes "invar t" "fits n t" "alloc n t = Some (i, t')"
  shows "live x t = Some d \<Longrightarrow> live x t' = Some d"
    and "stale x t = Some d \<Longrightarrow> stale x t' = Some d"
  using dir_alloc [OF assms] invar_alloc [OF assms] assms(1)
  by (auto simp: live_dir stale_dir)

end

section \<open>The linked tables implement the contract\<close>

lemma directory_iff:
  assumes "twf t"
  shows "directory t i = Some (b, d) \<longleftrightarrow>
    (\<exists>n \<in> set (thead t). \<bar>nidx n\<bar> = i \<and> b = (0 < nidx n) \<and> d = ndata n)"
proof -
  have "distinct (map fst (map (\<lambda>n. (\<bar>nidx n\<bar>, (0 < nidx n, ndata n))) (thead t)))"
    using twf_uniq [OF assms] by (simp add: comp_def)
  then show ?thesis by (auto simp: directory_def map_of_eq_Some_iff)
qed

lemma directory_None:
  "directory t i = None \<longleftrightarrow> i \<notin> (\<lambda>n. \<bar>nidx n\<bar>) ` set (thead t)"
  by (auto simp: directory_def map_of_eq_None_iff image_iff)

lemma directory_eqI:
  assumes "\<And>i b d. directory t i = Some (b, d) \<longleftrightarrow> m i = Some (b, d)"
  shows "directory t = m"
proof
  fix i
  show "directory t i = m i"
  proof (cases "directory t i")
    case None
    with assms [of i] show ?thesis by (cases "m i") auto
  next
    case (Some p)
    with assms [of i "fst p" "snd p"] show ?thesis by simp
  qed
qed

lemma twf_idx_unique:
  "twf t \<Longrightarrow> n \<in> set (thead t) \<Longrightarrow> m \<in> set (thead t) \<Longrightarrow> \<bar>nidx m\<bar> = \<bar>nidx n\<bar> \<longleftrightarrow> m = n"
  using twf_inj by blast

lemma directory_unlink:
  assumes "twf t" "get_live x t = Some n"
  shows "directory (unlink x t) = (directory t)(x := None)"
proof (rule directory_eqI)
  fix i b d
  have n: "n \<in> set (thead t)" "nidx n = x" "0 < x" using assms by (simp_all add: get_live_iff)
  have w: "twf (unlink x t)" using assms(1) n by (intro twf_unlink) auto
  have s: "set (thead (unlink x t)) = {m \<in> set (thead t). nidx m \<noteq> x}"
    using twf_uniq [OF assms(1)] by (simp add: unlink_def set_drop_idx)
  have "nidx m \<noteq> x \<longleftrightarrow> \<bar>nidx m\<bar> \<noteq> x" if "m \<in> set (thead t)" for m
    using that n twf_idx_unique [OF assms(1) n(1) that] by auto
  then show "directory (unlink x t) i = Some (b, d) \<longleftrightarrow> ((directory t)(x := None)) i = Some (b, d)"
    unfolding directory_iff [OF w] s by (auto simp: directory_iff [OF assms(1)])
qed

lemma directory_reindex:
  assumes "twf t" "n \<in> set (thead t)" "nidx n = x" "x \<noteq> 0"
  shows "directory (reindex x (- x) t) = (directory t)(\<bar>x\<bar> \<mapsto> (x < 0, ndata n))"
proof (rule directory_eqI)
  fix i b d
  have w: "twf (reindex x (- x) t)" using assms(1) by (rule twf_reindex) simp
  have s: "set (thead (reindex x (- x) t)) =
      (\<lambda>m. if nidx m = x then m\<lparr>nidx := - x\<rparr> else m) ` set (thead t)"
    using twf_uniq [OF assms(1)] by (simp add: reindex_def set_idx_map)
  have u: "nidx m = x \<longleftrightarrow> m = n" "\<bar>nidx m\<bar> = \<bar>x\<bar> \<longleftrightarrow> m = n" if "m \<in> set (thead t)" for m
    using that assms twf_idx_unique [OF assms(1,2) that] by auto
  show "directory (reindex x (- x) t) i = Some (b, d) \<longleftrightarrow>
      ((directory t)(\<bar>x\<bar> \<mapsto> (x < 0, ndata n))) i = Some (b, d)"
  proof (cases "i = \<bar>x\<bar>")
    case True
    then show ?thesis
      unfolding directory_iff [OF w] s using assms u by (auto simp: image_iff)
  next
    case False
    then show ?thesis
      unfolding directory_iff [OF w] s fun_upd_other [OF False] directory_iff [OF assms(1)]
      using assms u by (auto simp: image_iff)
  qed
qed

lemma directory_added:
  assumes "twf t" "added x i t t'"
  shows "directory t i = None \<and> directory t' = (directory t)(i \<mapsto> (True, ndata x))"
proof
  have i: "1 \<le> i" "i \<notin> (\<lambda>n. \<bar>nidx n\<bar>) ` set (thead t)" and w: "twf t'"
    and s: "set (thead t') = insert (x\<lparr>nidx := i\<rparr>) (set (thead t))"
    using assms(2) by (auto simp: added_def)
  show "directory t i = None" using i(2) by (simp add: directory_None)
  show "directory t' = (directory t)(i \<mapsto> (True, ndata x))"
  proof (rule directory_eqI)
    fix j b d
    show "directory t' j = Some (b, d) \<longleftrightarrow> ((directory t)(i \<mapsto> (True, ndata x))) j = Some (b, d)"
      unfolding directory_iff [OF w] s using i by (auto simp: directory_iff [OF assms(1)])
  qed
qed

interpretation tbl: growing_directory twf directory
  "\<lambda>x t. map_option ndata (get_live x t)" "\<lambda>x t. map_option ndata (get_stale x t)"
  unlink "\<lambda>x. reindex x (- x)" "\<lambda>x. reindex (- x) x"
  add_to_table ndata
  "\<lambda>n t. room t \<and> naddr n \<notin> naddr ` set (thead t) \<and> nidx n \<le> MAX_ENTITY_INDEX"
proof unfold_locales
  fix t :: "'a itable" and x d
  assume w: "twf t"
  show "map_option ndata (get_live x t) = Some d \<longleftrightarrow> 0 < x \<and> directory t x = Some (True, d)"
    using w by (force simp: get_live_iff directory_iff)
  show "map_option ndata (get_stale x t) = Some d \<longleftrightarrow> 0 < x \<and> directory t x = Some (False, d)"
  proof -
    have "0 < x \<and> \<bar>i\<bar> = x \<and> \<not> 0 < i \<longleftrightarrow> 0 < x \<and> i = - x" for i :: int by auto
    then show ?thesis using w by (auto simp: get_stale_iff directory_iff)
  qed
next
  fix t :: "'a itable" and x d
  assume w: "twf t" and "map_option ndata (get_live x t) = Some d"
  then obtain n where n: "get_live x t = Some n" "ndata n = d" by auto
  then have m: "n \<in> set (thead t)" "nidx n = x" "0 < x" using w by (simp_all add: get_live_iff)
  show "directory (unlink x t) = (directory t)(x := None)" using w n(1) by (rule directory_unlink)
  show "directory (reindex x (- x) t) = (directory t)(x \<mapsto> (False, d))"
    using directory_reindex [OF w m(1,2)] m(3) n(2) by simp
  show "twf (unlink x t)" using w m by (intro twf_unlink) auto
  show "twf (reindex x (- x) t)" using w by (rule twf_reindex) simp
next
  fix t :: "'a itable" and x d
  assume w: "twf t" and "map_option ndata (get_stale x t) = Some d"
  then obtain n where n: "get_stale x t = Some n" "ndata n = d" by auto
  then have m: "n \<in> set (thead t)" "nidx n = - x" "0 < x" using w by (simp_all add: get_stale_iff)
  show "directory (reindex (- x) x t) = (directory t)(x \<mapsto> (True, d))"
    using directory_reindex [OF w m(1,2)] m(3) n(2) by simp
  show "twf (reindex (- x) x t)" using w by (rule twf_reindex) simp
next
  fix t :: "'a itable" and n :: "'a node" and i t'
  assume w: "twf t" and f: "room t \<and> naddr n \<notin> naddr ` set (thead t) \<and> nidx n \<le> MAX_ENTITY_INDEX"
    and a: "add_to_table n t = Some (i, t')"
  have ad: "added n i t t'" using w f a by (intro add_to_table_added) auto
  show "directory t i = None \<and> directory t' = (directory t)(i \<mapsto> (True, ndata n))"
    using w ad by (rule directory_added)
  show "twf t' \<and> 0 < i" using ad by (simp add: added_def)
next
  fix t :: "'a itable" and n :: "'a node"
  assume "twf t" "room t \<and> naddr n \<notin> naddr ` set (thead t) \<and> nidx n \<le> MAX_ENTITY_INDEX"
  then show "\<exists>i t'. add_to_table n t = Some (i, t')" by (intro add_to_table_defined) auto
qed

end
