(* ===== verification/Entity_State.thy ===== *)
theory Entity_State
  imports Last_Change Indexed_Table
begin

text \<open>
  The state of the entity-MIB module: the entry structures of the header files, the
  global variables of the six C files as one record, the initialisation of
  \<^verbatim>\<open>entity.c\<close>, and the lookups in the physical and the logical table that all components
  share. The three mapping tables are singly linked lists whose nodes own an array; an array
  is the list of its slots before the terminator, and \<open>None\<close> when the pointer is null.
\<close>

section \<open>Entry structures\<close>

text \<open>
  \<^verbatim>\<open>entPhysicalIndex\<close> and \<^verbatim>\<open>pNextEntry\<close> live in the table node
  (\<^verbatim>\<open>Indexed_Table\<close>); every other field is here. The same structure serves as the argument
  of the allocation function, where the pointers may be null.
\<close>

record entPhysicalEntry =
  entPhysicalDescr :: cstring
  entPhysicalVendorType :: "oid option"
  entPhysicalVendorTypeSize :: int
  entPhysicalContainedIn :: int
  entPhysicalClass :: int
  entPhysicalParentRelPos :: int
  entPhysicalName :: cstring
  entPhysicalHardwareRev :: cstring
  entPhysicalFirmwareRev :: cstring
  entPhysicalSoftwareRev :: cstring
  entPhysicalSerialNum :: cstring
  entPhysicalMfgName :: cstring
  entPhysicalModelName :: cstring
  entPhysicalAlias :: cstring
  entPhysicalAssetID :: cstring
  entPhysicalIsFRU :: int

record entLogicalEntry =
  entLogicalDescr :: cstring
  entLogicalType :: "oid option"
  entLogicalTypeSize :: int
  entLogicalCommunity :: cstring
  entLogicalTAddress :: cstring
  entLogicalTDomain :: "oid option"
  entLogicalTDomainSize :: int
  entLogicalContextEngineId :: cstring
  entLogicalContextName :: cstring

record physIndexAndChildIndex =
  cparent :: int
  childIndexes :: "int list option"

record entLPMappingTableEntry =
  lplogical :: int
  physicalIndexes :: "int list option"

record logicalAlias =
  entAliasLogicalIndexorZero :: int
  entAliasMapId :: "oid option"
  entAliasMapIdSize :: int

record entAliasMappingTableEntry =
  alphys :: int
  entlogicalAliases :: "logicalAlias list option"

section \<open>The global variables\<close>

record entity =
  gPhysicalTable :: "entPhysicalEntry itable"
  gLogicalTable :: "entLogicalEntry itable"
  gLPMappingTableHead :: "entLPMappingTableEntry list"
  gLPMappingTableSize :: int
  gAliasMappingTableHead :: "entAliasMappingTableEntry list"
  gAliasMappingTableSize :: int
  gPhyContainsTableHead :: "physIndexAndChildIndex list"
  gPhyContainsTableSize :: int
  lastChange :: last_change

definition configChanged :: "snmp_env \<Rightarrow> entity \<Rightarrow> entity" where
  "configChanged E s = s\<lparr>lastChange := lc_configChanged E (lastChange s)\<rparr>"

section \<open>Initialisation\<close>

definition init_entPhysicalTable :: "entity \<Rightarrow> entity" where
  "init_entPhysicalTable s =
     s\<lparr>gPhysicalTable := (gPhysicalTable s)\<lparr>ttail := None, thead := [], tsize := 0, tloose := None\<rparr>\<rparr>"

definition init_entLogicalTable :: "entity \<Rightarrow> entity" where
  "init_entLogicalTable s =
     s\<lparr>gLogicalTable := (gLogicalTable s)\<lparr>ttail := None, thead := [], tsize := 0, tloose := None\<rparr>\<rparr>"

definition init_entLPMappingTable :: "entity \<Rightarrow> entity" where
  "init_entLPMappingTable s = s\<lparr>gLPMappingTableSize := 0, gLPMappingTableHead := []\<rparr>"

definition init_entAliasMappingTable :: "entity \<Rightarrow> entity" where
  "init_entAliasMappingTable s = s\<lparr>gAliasMappingTableSize := 0, gAliasMappingTableHead := []\<rparr>"

definition init_entPhysicalContainsTable :: "entity \<Rightarrow> entity" where
  "init_entPhysicalContainsTable s = s\<lparr>gPhyContainsTableHead := [], gPhyContainsTableSize := 0\<rparr>"

definition init_entity :: "snmp_env \<Rightarrow> entity \<Rightarrow> entity" where
  "init_entity E s =
     (let s1 = init_entPhysicalTable s;
          s2 = init_entLogicalTable s1;
          s3 = init_entLPMappingTable s2;
          s4 = init_entAliasMappingTable s3;
          s5 = init_entPhysicalContainsTable s4
      in s5\<lparr>lastChange := init_entLastChangeTime E (lastChange s5)\<rparr>)"

section \<open>Lookups\<close>

definition getPhysicalTableEntry :: "int \<Rightarrow> entity \<Rightarrow> entPhysicalEntry node option" where
  "getPhysicalTableEntry x s = get_live x (gPhysicalTable s)"

definition getPhysicalTableStaleEntry :: "int \<Rightarrow> entity \<Rightarrow> entPhysicalEntry node option" where
  "getPhysicalTableStaleEntry x s = get_stale x (gPhysicalTable s)"

definition getLogicalTableEntry :: "int \<Rightarrow> entity \<Rightarrow> entLogicalEntry node option" where
  "getLogicalTableEntry x s = get_live x (gLogicalTable s)"

definition getLogicalTableStaleEntry :: "int \<Rightarrow> entity \<Rightarrow> entLogicalEntry node option" where
  "getLogicalTableStaleEntry x s = get_stale x (gLogicalTable s)"

text \<open>The index check all the deletion and insertion functions start with.\<close>

abbreviation bad_index :: "int \<Rightarrow> bool" where
  "bad_index x \<equiv> x \<le> 0 \<or> x > MAX_ENTITY_INDEX"

text \<open>Indices the tables know: live, and stale.\<close>

abbreviation live_phys :: "entity \<Rightarrow> int set" where
  "live_phys s \<equiv> live_set (gPhysicalTable s)"

abbreviation stale_phys :: "entity \<Rightarrow> int set" where
  "stale_phys s \<equiv> stale_set (gPhysicalTable s)"

abbreviation live_logi :: "entity \<Rightarrow> int set" where
  "live_logi s \<equiv> live_set (gLogicalTable s)"

abbreviation stale_logi :: "entity \<Rightarrow> int set" where
  "stale_logi s \<equiv> stale_set (gLogicalTable s)"

text \<open>
  The skeleton of the physical table: everything about it but the field
  \<^verbatim>\<open>entPhysicalContainedIn\<close>, which the containment bookkeeping writes.
\<close>

definition phys_skel ::
  "entity \<Rightarrow> (addr \<times> int \<times> entPhysicalEntry) list \<times> addr option \<times> int \<times> entPhysicalEntry node option" where
  "phys_skel s =
     (map (\<lambda>n. (naddr n, nidx n, (ndata n)\<lparr>entPhysicalContainedIn := 0\<rparr>))
        (thead (gPhysicalTable s)),
      ttail (gPhysicalTable s), tsize (gPhysicalTable s), tloose (gPhysicalTable s))"

definition tables_wf :: "entity \<Rightarrow> bool" where
  "tables_wf s \<longleftrightarrow> twf (gPhysicalTable s) \<and> twf (gLogicalTable s)"

section \<open>Lemmas\<close>

lemma configChanged_frame [simp, frame_simps]:
  "gPhysicalTable (configChanged E s) = gPhysicalTable s"
  "gLogicalTable (configChanged E s) = gLogicalTable s"
  "gLPMappingTableHead (configChanged E s) = gLPMappingTableHead s"
  "gLPMappingTableSize (configChanged E s) = gLPMappingTableSize s"
  "gAliasMappingTableHead (configChanged E s) = gAliasMappingTableHead s"
  "gAliasMappingTableSize (configChanged E s) = gAliasMappingTableSize s"
  "gPhyContainsTableHead (configChanged E s) = gPhyContainsTableHead s"
  "gPhyContainsTableSize (configChanged E s) = gPhyContainsTableSize s"
  by (simp_all add: configChanged_def)

lemma lookup_iff:
  assumes "tables_wf s"
  shows "getPhysicalTableEntry x s = Some n \<longleftrightarrow>
           n \<in> set (thead (gPhysicalTable s)) \<and> nidx n = x \<and> 0 < x"
    and "getLogicalTableEntry x s = Some m \<longleftrightarrow>
           m \<in> set (thead (gLogicalTable s)) \<and> nidx m = x \<and> 0 < x"
  using assms
  by (simp_all add: tables_wf_def getPhysicalTableEntry_def getLogicalTableEntry_def get_live_iff)

lemma lookup_None:
  assumes "tables_wf s"
  shows "getPhysicalTableEntry x s = None \<longleftrightarrow> x \<notin> live_phys s"
    and "getPhysicalTableStaleEntry x s = None \<longleftrightarrow> x \<notin> stale_phys s"
    and "getLogicalTableEntry x s = None \<longleftrightarrow> x \<notin> live_logi s"
    and "getLogicalTableStaleEntry x s = None \<longleftrightarrow> x \<notin> stale_logi s"
  using assms
  by (simp_all add: tables_wf_def getPhysicalTableEntry_def getPhysicalTableStaleEntry_def
      getLogicalTableEntry_def getLogicalTableStaleEntry_def get_live_None get_stale_None)

lemma lookup_Some_ex:
  assumes "tables_wf s"
  shows "x \<in> live_phys s \<Longrightarrow> \<exists>n. getPhysicalTableEntry x s = Some n"
    and "x \<in> live_logi s \<Longrightarrow> \<exists>m. getLogicalTableEntry x s = Some m"
  using lookup_None [OF assms, of x] by auto

lemma live_bounds:
  assumes "tables_wf s"
  shows "x \<in> live_phys s \<Longrightarrow> \<not> bad_index x" and "x \<in> live_logi s \<Longrightarrow> \<not> bad_index x"
  using assms live_set_bounds [of "gPhysicalTable s" x] live_set_bounds [of "gLogicalTable s" x]
  by (auto simp: tables_wf_def)

lemma live_not_stale:
  assumes "tables_wf s"
  shows "x \<in> live_phys s \<Longrightarrow> x \<notin> stale_phys s" and "x \<in> live_logi s \<Longrightarrow> x \<notin> stale_logi s"
  using assms live_stale_disjoint [of "gPhysicalTable s"] live_stale_disjoint [of "gLogicalTable s"]
  by (auto simp: tables_wf_def)

text \<open>States with the same skeleton agree on every index and on well-formedness.\<close>

lemma skel_eq_map:
  assumes "phys_skel s = phys_skel s'"
  shows "map nidx (thead (gPhysicalTable s)) = map nidx (thead (gPhysicalTable s'))"
    and "map naddr (thead (gPhysicalTable s)) = map naddr (thead (gPhysicalTable s'))"
proof -
  let ?f = "\<lambda>n. (naddr n, nidx n, (ndata n)\<lparr>entPhysicalContainedIn := 0\<rparr>)"
  have m: "map ?f (thead (gPhysicalTable s)) = map ?f (thead (gPhysicalTable s'))"
    using assms by (simp add: phys_skel_def)
  show "map nidx (thead (gPhysicalTable s)) = map nidx (thead (gPhysicalTable s'))"
    using arg_cong [OF m, of "map (\<lambda>(a, i, c). i)"] by (simp add: comp_def)
  show "map naddr (thead (gPhysicalTable s)) = map naddr (thead (gPhysicalTable s'))"
    using arg_cong [OF m, of "map (\<lambda>(a, i, c). a)"] by (simp add: comp_def)
qed

lemma skel_sets:
  assumes "phys_skel s = phys_skel s'"
  shows "live_phys s = live_phys s'" "stale_phys s = stale_phys s'"
proof -
  have "nidx ` set (thead (gPhysicalTable s)) = nidx ` set (thead (gPhysicalTable s'))"
    using arg_cong [OF skel_eq_map(1) [OF assms], of set] by simp
  then show "live_phys s = live_phys s'" "stale_phys s = stale_phys s'"
    by (simp_all add: live_set_def stale_set_def)
qed

lemma skel_twf:
  assumes "phys_skel s = phys_skel s'" "twf (gPhysicalTable s)"
  shows "twf (gPhysicalTable s')"
proof -
  let ?a = "thead (gPhysicalTable s)" and ?b = "thead (gPhysicalTable s')"
  have i: "map (\<lambda>n. \<bar>nidx n\<bar>) ?a = map (\<lambda>n. \<bar>nidx n\<bar>) ?b"
    using arg_cong [OF skel_eq_map(1) [OF assms(1)], of "map abs"] by (simp add: comp_def)
  then have "(\<lambda>n. \<bar>nidx n\<bar>) ` set ?a = (\<lambda>n. \<bar>nidx n\<bar>) ` set ?b"
    by (metis set_map)
  then have "\<forall>n \<in> set ?b. 1 \<le> \<bar>nidx n\<bar> \<and> \<bar>nidx n\<bar> \<le> MAX_ENTITY_INDEX"
    using assms(2) unfolding twf_def by (metis (no_types, lifting) image_iff)
  moreover have "length ?a = length ?b" "tsize (gPhysicalTable s) = tsize (gPhysicalTable s')"
    "tloose (gPhysicalTable s) = tloose (gPhysicalTable s')"
    using map_eq_imp_length_eq [OF i] assms(1) by (simp_all add: phys_skel_def)
  ultimately show ?thesis
    using assms(2) i skel_eq_map(2) [OF assms(1)] by (simp add: twf_def)
qed

lemma skel_data:
  assumes "phys_skel s = phys_skel s'" "n \<in> set (thead (gPhysicalTable s))"
  shows "\<exists>n' \<in> set (thead (gPhysicalTable s')). nidx n' = nidx n \<and>
           (ndata n')\<lparr>entPhysicalContainedIn := 0\<rparr> = (ndata n)\<lparr>entPhysicalContainedIn := 0\<rparr>"
proof -
  let ?f = "\<lambda>n. (naddr n, nidx n, (ndata n)\<lparr>entPhysicalContainedIn := 0\<rparr>)"
  have "?f n \<in> set (map ?f (thead (gPhysicalTable s)))" using assms(2) by auto
  also have "map ?f (thead (gPhysicalTable s)) = map ?f (thead (gPhysicalTable s'))"
    using assms(1) by (simp add: phys_skel_def)
  finally show ?thesis by auto
qed

lemma phys_skel_write [simp]:
  assumes "\<And>d. (f d)\<lparr>entPhysicalContainedIn := 0\<rparr> = d\<lparr>entPhysicalContainedIn := 0\<rparr>"
  shows "phys_skel (s\<lparr>gPhysicalTable := write_node a f (gPhysicalTable s)\<rparr>) = phys_skel s"
  using assms by (simp add: phys_skel_def write_node_def comp_def)

lemma phys_skel_frame [simp, frame_simps]:
  "phys_skel (configChanged E s) = phys_skel s"
  "phys_skel (s\<lparr>gPhyContainsTableHead := h, gPhyContainsTableSize := k\<rparr>) = phys_skel s"
  "phys_skel (s\<lparr>gPhyContainsTableHead := h\<rparr>) = phys_skel s"
  by (simp_all add: phys_skel_def)

end
