(* ===== verification/LP_Mapping.thy ===== *)
theory LP_Mapping
  imports Entity_State
begin

text \<open>
  The logical-to-physical mapping table (\<^verbatim>\<open>entityMib/entLPMappingTable.c\<close>): one node per
  logical index, owning an array of physical indices. A deleted pair is not removed from its
  array; its physical index is negated, and adding the pair again revives that slot.
\<close>

section \<open>Operations\<close>

text \<open>The search for a slot to use when the logical index already has a node.\<close>

datatype lp_slot = Slot_exists | Slot_revived "int list" | Slot_missing

fun lp_scan :: "int \<Rightarrow> int list \<Rightarrow> lp_slot" where
  "lp_scan p [] = Slot_missing"
| "lp_scan p (x # xs) =
     (if x = p then Slot_exists
      else if x = - p then Slot_revived (p # xs)
      else (case lp_scan p xs of Slot_revived ys \<Rightarrow> Slot_revived (x # ys) | r \<Rightarrow> r))"

definition lp_set :: "int \<Rightarrow> int list \<Rightarrow> entity \<Rightarrow> entity" where
  "lp_set l ps s =
     s\<lparr>gLPMappingTableHead :=
         upd_first (\<lambda>n. lplogical n = l) (\<lambda>n. n\<lparr>physicalIndexes := Some ps\<rparr>) (gLPMappingTableHead s)\<rparr>"

text \<open>
  \<open>None\<close> is the write through the null pointer an unchecked, failed \<^verbatim>\<open>realloc\<close> leaves.
\<close>

definition addLPMappingTableEntry ::
  "snmp_env \<Rightarrow> (nat \<Rightarrow> bool) \<Rightarrow> int \<Rightarrow> int \<Rightarrow> entity \<Rightarrow> (int \<times> entity) option" where
  "addLPMappingTableEntry E ok l p s =
     (if bad_index l \<or> bad_index p then Some (-1, s)
      else if getLogicalTableStaleEntry l s \<noteq> None \<or> getPhysicalTableStaleEntry p s \<noteq> None
      then Some (-2, s)
      else if getLogicalTableEntry l s = None \<or> getPhysicalTableEntry p s = None
      then Some (-1, s)
      else
        (case find (\<lambda>n. lplogical n = l) (gLPMappingTableHead s) of
           Some n \<Rightarrow>
             (case physicalIndexes n of
                None \<Rightarrow> if ok 0 then Some (0, configChanged E (lp_set l [p] s)) else Some (-1, s)
              | Some ps \<Rightarrow>
                  (case lp_scan p ps of
                     Slot_exists \<Rightarrow> Some (1, s)
                   | Slot_revived qs \<Rightarrow> Some (0, configChanged E (lp_set l qs s))
                   | Slot_missing \<Rightarrow>
                       if ok 0 then Some (0, configChanged E (lp_set l (ps @ [p]) s)) else None))
         | None \<Rightarrow>
             if \<not> ok 0 then Some (-1, s)
             else if \<not> ok 1 then Some (-1, s)
             else Some (0, configChanged E
               (s\<lparr>gLPMappingTableHead := gLPMappingTableHead s @
                    [\<lparr>lplogical = l, physicalIndexes = Some [p]\<rparr>],
                  gLPMappingTableSize := gLPMappingTableSize s + 1\<rparr>))))"

text \<open>Negating the first slot that holds a physical index.\<close>

fun lp_kill :: "int \<Rightarrow> int list \<Rightarrow> int list option" where
  "lp_kill p [] = None"
| "lp_kill p (x # xs) = (if x = p then Some (- p # xs) else map_option ((#) x) (lp_kill p xs))"

definition deleteLPMappingTableEntry :: "snmp_env \<Rightarrow> int \<Rightarrow> int \<Rightarrow> entity \<Rightarrow> int \<times> entity" where
  "deleteLPMappingTableEntry E l p s =
     (if bad_index l \<or> bad_index p then (-1, s)
      else if getLogicalTableStaleEntry l s \<noteq> None then (-2, s)
      else if getPhysicalTableStaleEntry p s \<noteq> None then (-2, s)
      else if getLogicalTableEntry l s = None then (-1, s)
      else if getPhysicalTableEntry p s = None then (-1, s)
      else
        (case find (\<lambda>n. lplogical n = l) (gLPMappingTableHead s) of
           None \<Rightarrow> (-1, s)
         | Some n \<Rightarrow>
             (case lp_kill p (slots (physicalIndexes n)) of
                None \<Rightarrow> (-1, s)
              | Some qs \<Rightarrow> (0, configChanged E (lp_set l qs s)))))"

text \<open>The live slots of a node that is being freed.\<close>

definition FreeLPMappingTableEntry :: "entLPMappingTableEntry \<Rightarrow> int" where
  "FreeLPMappingTableEntry n = int (length (filter (\<lambda>x. x > 0) (slots (physicalIndexes n))))"

fun lp_kill_all ::
  "int \<Rightarrow> entLPMappingTableEntry list \<Rightarrow> int \<times> entLPMappingTableEntry list" where
  "lp_kill_all p [] = (0, [])"
| "lp_kill_all p (n # ns) =
     (case lp_kill_all p ns of (k, ms) \<Rightarrow>
        (case lp_kill p (slots (physicalIndexes n)) of
           None \<Rightarrow> (k, n # ms)
         | Some qs \<Rightarrow> (k + 1, n\<lparr>physicalIndexes := Some qs\<rparr> # ms)))"

definition deleteLPMappingPhysicalIndex :: "snmp_env \<Rightarrow> int \<Rightarrow> entity \<Rightarrow> int \<times> entity" where
  "deleteLPMappingPhysicalIndex E p s =
     (if bad_index p then (-1, s)
      else if getPhysicalTableStaleEntry p s \<noteq> None then (-2, s)
      else if getPhysicalTableEntry p s = None then (-1, s)
      else
        (case lp_kill_all p (gLPMappingTableHead s) of (num, ns) \<Rightarrow>
           if num \<noteq> 0 then (num, configChanged E (s\<lparr>gLPMappingTableHead := ns\<rparr>))
           else (-1, s\<lparr>gLPMappingTableHead := ns\<rparr>)))"

definition deleteLPMappingLogicalIndex :: "snmp_env \<Rightarrow> int \<Rightarrow> entity \<Rightarrow> int \<times> entity" where
  "deleteLPMappingLogicalIndex E l s =
     (if bad_index l then (-1, s)
      else if getLogicalTableStaleEntry l s \<noteq> None then (-2, s)
      else if getLogicalTableEntry l s = None then (-1, s)
      else
        (case find (\<lambda>n. lplogical n > 0 \<and> lplogical n = l) (gLPMappingTableHead s) of
           None \<Rightarrow> (-1, s)
         | Some n \<Rightarrow>
             (FreeLPMappingTableEntry n,
              configChanged E
                (s\<lparr>gLPMappingTableHead :=
                     del_first (\<lambda>n. lplogical n > 0 \<and> lplogical n = l) (gLPMappingTableHead s),
                   gLPMappingTableSize := gLPMappingTableSize s - 1\<rparr>))))"

section \<open>Meaning and invariant\<close>

definition lp_rel :: "entity \<Rightarrow> (int \<times> int) set" where
  "lp_rel s = {(l, p). 0 < p \<and>
     (\<exists>n \<in> set (gLPMappingTableHead s). lplogical n = l \<and> p \<in> set (slots (physicalIndexes n)))}"

definition lp_wf :: "entity \<Rightarrow> bool" where
  "lp_wf s \<longleftrightarrow>
     distinct (map lplogical (gLPMappingTableHead s)) \<and>
     gLPMappingTableSize s = int (length (gLPMappingTableHead s)) \<and>
     (\<forall>n \<in> set (gLPMappingTableHead s). 0 < lplogical n \<and>
        0 \<notin> set (slots (physicalIndexes n)) \<and>
        distinct (map abs (slots (physicalIndexes n))))"

text \<open>What the operations of this file leave alone.\<close>

definition lp_only :: "entity \<Rightarrow> entity \<Rightarrow> bool" where
  "lp_only s s' \<longleftrightarrow>
     gPhysicalTable s' = gPhysicalTable s \<and> gLogicalTable s' = gLogicalTable s \<and>
     gAliasMappingTableHead s' = gAliasMappingTableHead s \<and>
     gAliasMappingTableSize s' = gAliasMappingTableSize s \<and>
     gPhyContainsTableHead s' = gPhyContainsTableHead s \<and>
     gPhyContainsTableSize s' = gPhyContainsTableSize s"

text \<open>The rows of the table, enumerated.\<close>

lemma lp_rel_code [code]:
  "lp_rel s = set (concat (map (\<lambda>n. map (Pair (lplogical n))
     (filter (\<lambda>p. 0 < p) (slots (physicalIndexes n)))) (gLPMappingTableHead s)))"
  by (auto simp: lp_rel_def)

section \<open>Lemmas\<close>

lemma lp_only_refl [simp]: "lp_only s s"
  by (simp add: lp_only_def)

lemma lp_set_frame [simp]: "lp_only s (configChanged E (lp_set l ps s))"
  by (simp add: lp_only_def lp_set_def)

lemma lp_scan_exists: "lp_scan p xs = Slot_exists \<Longrightarrow> p \<in> set xs"
  by (induction p xs rule: lp_scan.induct) (auto split: if_splits lp_slot.splits)

lemma lp_scan_missing: "lp_scan p xs = Slot_missing \<Longrightarrow> p \<notin> set xs \<and> - p \<notin> set xs"
  by (induction p xs rule: lp_scan.induct) (auto split: if_splits lp_slot.splits)

lemma lp_scan_revived:
  "lp_scan p xs = Slot_revived ys \<Longrightarrow>
   \<exists>us vs. xs = us @ (- p) # vs \<and> ys = us @ p # vs \<and> p \<notin> set us"
proof (induction p xs arbitrary: ys rule: lp_scan.induct)
  case (2 p x xs)
  show ?case
  proof (cases "x = p \<or> x = - p")
    case True
    with 2 show ?thesis by (auto split: if_splits intro: exI [of _ "[]"])
  next
    case False
    with "2.prems" obtain zs where zs: "lp_scan p xs = Slot_revived zs" "ys = x # zs"
      by (auto split: lp_slot.splits)
    with False "2.IH" obtain us vs where "xs = us @ (- p) # vs" "zs = us @ p # vs" "p \<notin> set us"
      by blast
    with zs False show ?thesis by (intro exI [of _ "x # us"] exI [of _ vs]) auto
  qed
qed simp

lemma lp_kill_None: "lp_kill p xs = None \<longleftrightarrow> p \<notin> set xs"
  by (induction p xs rule: lp_kill.induct) auto

lemma lp_kill_Some:
  "lp_kill p xs = Some ys \<Longrightarrow> \<exists>us vs. xs = us @ p # vs \<and> ys = us @ (- p) # vs \<and> p \<notin> set us"
proof (induction p xs arbitrary: ys rule: lp_kill.induct)
  case (2 p x xs)
  show ?case
  proof (cases "x = p")
    case True
    with 2 show ?thesis by (auto intro: exI [of _ "[]"])
  next
    case False
    with "2.prems" obtain zs where zs: "lp_kill p xs = Some zs" "ys = x # zs" by auto
    with False "2.IH" obtain us vs where "xs = us @ p # vs" "zs = us @ (- p) # vs" "p \<notin> set us"
      by blast
    with zs False show ?thesis by (intro exI [of _ "x # us"] exI [of _ vs]) auto
  qed
qed simp

text \<open>Negating or reviving one slot keeps a slot list well-formed and changes one index.\<close>

lemma slot_swap:
  assumes "distinct (map abs (us @ x # vs))" "0 \<notin> set (us @ x # vs)" "\<bar>y\<bar> = \<bar>x\<bar>"
  shows "distinct (map abs (us @ y # vs)) \<and> (0 :: int) \<notin> set (us @ y # vs)"
  using assms by auto

lemma slot_swap_pos:
  assumes "distinct (map abs (us @ x # vs))" "0 < (p :: int)" "x = p \<or> x = - p"
  shows "{q \<in> set (us @ - p # vs). 0 < q} = {q \<in> set (us @ x # vs). 0 < q} - {p}"
    and "{q \<in> set (us @ p # vs). 0 < q} = insert p {q \<in> set (us @ x # vs). 0 < q}"
  using assms by (auto simp: image_iff)

text \<open>The relation, slot list by slot list.\<close>

abbreviation pos_slots :: "entLPMappingTableEntry \<Rightarrow> int set" where
  "pos_slots n \<equiv> {q \<in> set (slots (physicalIndexes n)). 0 < q}"

lemma lp_rel_alt:
  "lp_rel s = {(l, p). \<exists>n \<in> set (gLPMappingTableHead s). lplogical n = l \<and> p \<in> pos_slots n}"
  by (auto simp: lp_rel_def)

lemma lp_set_wf:
  assumes "lp_wf s" "0 \<notin> set ps" "distinct (map abs ps)"
  shows "lp_wf (configChanged E (lp_set l ps s))"
proof -
  have d: "distinct (map lplogical (gLPMappingTableHead s))" using assms(1) by (simp add: lp_wf_def)
  let ?u = "upd_first (\<lambda>n. lplogical n = l) (\<lambda>n. n\<lparr>physicalIndexes := Some ps\<rparr>)
              (gLPMappingTableHead s)"
  have "map lplogical ?u = map lplogical (gLPMappingTableHead s)" by (rule map_upd_first) simp
  moreover have "\<forall>n \<in> set ?u. 0 < lplogical n \<and> 0 \<notin> set (slots (physicalIndexes n)) \<and>
      distinct (map abs (slots (physicalIndexes n)))"
    using assms in_upd_first [OF d] by (auto simp: lp_wf_def split: if_splits)
  ultimately show ?thesis using assms(1) d by (simp add: lp_wf_def lp_set_def)
qed

lemma lp_set_rel:
  assumes "lp_wf s" "find (\<lambda>n. lplogical n = l) (gLPMappingTableHead s) = Some n"
  shows "lp_rel (configChanged E (lp_set l ps s)) =
    {(l', p). l' \<noteq> l \<and> (l', p) \<in> lp_rel s} \<union> {(l, p) |p. p \<in> set ps \<and> 0 < p}"
proof -
  have d: "distinct (map lplogical (gLPMappingTableHead s))" using assms(1) by (simp add: lp_wf_def)
  have n: "n \<in> set (gLPMappingTableHead s)" "lplogical n = l" using find_Some_in [OF assms(2)] by auto
  have "(l', p) \<in> lp_rel (configChanged E (lp_set l ps s)) \<longleftrightarrow>
      (if l' = l then p \<in> set ps \<and> 0 < p else (l', p) \<in> lp_rel s)" for l' p
    unfolding lp_rel_def lp_set_def using n
    by (auto simp: bex_upd_first [OF d] split: if_splits)
  then show ?thesis by (auto split: if_splits)
qed

lemma lp_node_rel:
  assumes "lp_wf s" "find (\<lambda>n. lplogical n = l) (gLPMappingTableHead s) = Some n"
  shows "(l, p) \<in> lp_rel s \<longleftrightarrow> p \<in> pos_slots n"
proof -
  have "distinct (map lplogical (gLPMappingTableHead s))" using assms(1) by (simp add: lp_wf_def)
  then have "(\<exists>m \<in> set (gLPMappingTableHead s). lplogical m = l \<and> Q m) \<longleftrightarrow> Q n" for Q
    using find_Some_in [OF assms(2)] key_unique [of lplogical] by metis
  then show ?thesis by (simp add: lp_rel_alt)
qed

lemma lp_node_wf:
  "lp_wf s \<Longrightarrow> find P (gLPMappingTableHead s) = Some n \<Longrightarrow>
   0 \<notin> set (slots (physicalIndexes n)) \<and> distinct (map abs (slots (physicalIndexes n)))"
  using find_Some_in [of P "gLPMappingTableHead s" n] by (auto simp: lp_wf_def)

lemma lp_replace:
  assumes "lp_wf s" "find (\<lambda>n. lplogical n = l) (gLPMappingTableHead s) = Some n"
    and "0 \<notin> set ps" "distinct (map abs ps)" "{q \<in> set ps. 0 < q} = A"
  shows "lp_wf (configChanged E (lp_set l ps s)) \<and>
    lp_rel (configChanged E (lp_set l ps s)) = {(l', p) \<in> lp_rel s. l' \<noteq> l} \<union> {l} \<times> A"
  using lp_set_wf [OF assms(1,3,4)] lp_set_rel [OF assms(1,2), of E ps] assms(5) by auto

definition lp_keys :: "entity \<Rightarrow> int set" where
  "lp_keys s = lplogical ` set (gLPMappingTableHead s)"

lemma lp_keys_set [simp]: "lp_keys (configChanged E (lp_set l ps s)) = lp_keys s"
proof -
  have "map lplogical (upd_first (\<lambda>n. lplogical n = l) (\<lambda>n. n\<lparr>physicalIndexes := Some ps\<rparr>)
      (gLPMappingTableHead s)) = map lplogical (gLPMappingTableHead s)"
    by (rule map_upd_first) simp
  from arg_cong [OF this, of set] show ?thesis by (simp add: lp_keys_def lp_set_def)
qed

text \<open>Adding a pair: the four results, and what the state is after each.\<close>

definition lp_added :: "int \<Rightarrow> int \<Rightarrow> entity \<Rightarrow> int \<Rightarrow> entity \<Rightarrow> bool" where
  "lp_added l p s r s' \<longleftrightarrow>
     (r = 0 \<and> lp_wf s' \<and> lp_only s s' \<and> lp_rel s' = insert (l, p) (lp_rel s) \<and>
        (l, p) \<notin> lp_rel s \<and> lp_keys s' = insert l (lp_keys s)) \<or>
     (r = 1 \<and> s' = s \<and> (l, p) \<in> lp_rel s)"

lemma lp_new_node:
  assumes "lp_wf s" "0 < l" "0 < p" "find (\<lambda>n. lplogical n = l) (gLPMappingTableHead s) = None"
  shows "lp_added l p s 0 (configChanged E
           (s\<lparr>gLPMappingTableHead := gLPMappingTableHead s @ [\<lparr>lplogical = l, physicalIndexes = Some [p]\<rparr>],
              gLPMappingTableSize := gLPMappingTableSize s + 1\<rparr>))"
  using assms
  by (auto simp: lp_added_def lp_wf_def lp_only_def lp_rel_def lp_keys_def find_None_key)

lemma lp_use_node:
  assumes w: "lp_wf s" and f: "find (\<lambda>n. lplogical n = l) (gLPMappingTableHead s) = Some n"
    and ps: "0 \<notin> set ps" "distinct (map abs ps)" "{q \<in> set ps. 0 < q} = insert p (pos_slots n)"
    and new: "p \<notin> pos_slots n"
  shows "lp_added l p s 0 (configChanged E (lp_set l ps s))"
proof -
  have rel: "(l, q) \<in> lp_rel s \<longleftrightarrow> q \<in> pos_slots n" for q using w f by (rule lp_node_rel)
  have "lp_rel (configChanged E (lp_set l ps s)) =
      {(l', p) \<in> lp_rel s. l' \<noteq> l} \<union> {l} \<times> insert p (pos_slots n)"
    using lp_replace [OF w f ps] by simp
  also have "\<dots> = insert (l, p) (lp_rel s)"
    using rel by auto
  finally have "lp_rel (configChanged E (lp_set l ps s)) = insert (l, p) (lp_rel s)" .
  moreover have "l \<in> lp_keys s" using find_Some_in [OF f] by (auto simp: lp_keys_def)
  moreover have "(l, p) \<notin> lp_rel s" using new rel by simp
  ultimately show ?thesis
    using lp_replace [OF w f ps, of E] by (simp add: lp_added_def insert_absorb)
qed

text \<open>The guards pass exactly for two live indices.\<close>

lemma lp_guards:
  assumes t: "tables_wf s" and l: "l \<in> live_logi s" and p: "p \<in> live_phys s"
  shows "\<not> bad_index l" "\<not> bad_index p"
    "getLogicalTableStaleEntry l s = None" "getPhysicalTableStaleEntry p s = None"
    "getLogicalTableEntry l s \<noteq> None" "getPhysicalTableEntry p s \<noteq> None"
  using live_bounds [OF t] live_not_stale [OF t] l p by (auto simp: lookup_None [OF t])

lemma addLP_live:
  assumes "tables_wf s" "l \<in> live_logi s" "p \<in> live_phys s"
  shows "addLPMappingTableEntry E ok l p s =
    (case find (\<lambda>n. lplogical n = l) (gLPMappingTableHead s) of
       Some n \<Rightarrow>
         (case physicalIndexes n of
            None \<Rightarrow> if ok 0 then Some (0, configChanged E (lp_set l [p] s)) else Some (-1, s)
          | Some ps \<Rightarrow>
              (case lp_scan p ps of
                 Slot_exists \<Rightarrow> Some (1, s)
               | Slot_revived qs \<Rightarrow> Some (0, configChanged E (lp_set l qs s))
               | Slot_missing \<Rightarrow>
                   if ok 0 then Some (0, configChanged E (lp_set l (ps @ [p]) s)) else None))
     | None \<Rightarrow>
         if \<not> ok 0 then Some (-1, s)
         else if \<not> ok 1 then Some (-1, s)
         else Some (0, configChanged E
           (s\<lparr>gLPMappingTableHead := gLPMappingTableHead s @
                [\<lparr>lplogical = l, physicalIndexes = Some [p]\<rparr>],
              gLPMappingTableSize := gLPMappingTableSize s + 1\<rparr>)))"
  unfolding addLPMappingTableEntry_def using lp_guards [OF assms] by (simp only: if_False simp_thms)

lemma deleteLP_live:
  assumes "tables_wf s" "l \<in> live_logi s" "p \<in> live_phys s"
  shows "deleteLPMappingTableEntry E l p s =
    (case find (\<lambda>n. lplogical n = l) (gLPMappingTableHead s) of
       None \<Rightarrow> (-1, s)
     | Some n \<Rightarrow>
         (case lp_kill p (slots (physicalIndexes n)) of
            None \<Rightarrow> (-1, s)
          | Some qs \<Rightarrow> (0, configChanged E (lp_set l qs s))))"
  unfolding deleteLPMappingTableEntry_def using lp_guards [OF assms] by (simp only: if_False simp_thms)

lemma lp_not_live:
  assumes "tables_wf s" "\<not> (l \<in> live_logi s \<and> p \<in> live_phys s)"
  shows "\<exists>r < 0. addLPMappingTableEntry E ok l p s = Some (r, s)"
    and "\<exists>r < 0. deleteLPMappingTableEntry E l p s = (r, s)"
  using assms(2) lookup_None [OF assms(1)]
  by (auto simp: addLPMappingTableEntry_def deleteLPMappingTableEntry_def)

lemma addLP_effect:
  assumes t: "tables_wf s" and w: "lp_wf s" and r: "addLPMappingTableEntry E ok l p s = Some (r, s')"
  shows "(r < 0 \<and> s' = s) \<or> (l \<in> live_logi s \<and> p \<in> live_phys s \<and> lp_added l p s r s')"
proof (cases "l \<in> live_logi s \<and> p \<in> live_phys s")
  case False
  with r lp_not_live(1) [OF t False, of E ok] show ?thesis by auto
next
  case True
  then have L: "l \<in> live_logi s" "p \<in> live_phys s" by auto
  have pos: "0 < l" "0 < p" using lp_guards [OF t L] by simp_all
  note eq = r [unfolded addLP_live [OF t L]]
  show ?thesis
  proof (cases "find (\<lambda>n. lplogical n = l) (gLPMappingTableHead s)")
    case None
    with eq L lp_new_node [OF w pos None, of E] show ?thesis by (auto split: if_splits)
  next
    case (Some n)
    note f = Some and rel = lp_node_rel [OF w Some] and nw = lp_node_wf [OF w Some]
    show ?thesis
    proof (cases "physicalIndexes n")
      case None
      have "lp_added l p s 0 (configChanged E (lp_set l [p] s))"
        using pos None by (intro lp_use_node [OF w f]) auto
      with eq L f None show ?thesis by (auto split: if_splits)
    next
      case (Some ps)
      show ?thesis
      proof (cases "lp_scan p ps")
        case Slot_exists
        with pos rel [of p] Some have "(l, p) \<in> lp_rel s" by (auto dest: lp_scan_exists)
        with eq L f Some Slot_exists show ?thesis by (simp add: lp_added_def)
      next
        case (Slot_revived qs)
        then obtain us vs where uv: "ps = us @ (- p) # vs" "qs = us @ p # vs" "p \<notin> set us"
          by (auto dest: lp_scan_revived)
        have d: "distinct (map abs (us @ - p # vs))" "0 \<notin> set (us @ - p # vs)"
          using nw Some uv(1) by simp_all
        have "lp_added l p s 0 (configChanged E (lp_set l qs s))"
        proof (rule lp_use_node [OF w f])
          show "0 \<notin> set qs" "distinct (map abs qs)"
            using slot_swap [OF d, of p] uv(2) by simp_all
          show "{q \<in> set qs. 0 < q} = insert p (pos_slots n)"
            using slot_swap_pos(2) [OF d(1) pos(2)] uv Some by simp
          show "p \<notin> pos_slots n" using d(1) uv(1,3) Some pos by (auto simp: image_iff)
        qed
        with eq L f Some Slot_revived show ?thesis by simp
      next
        case Slot_missing
        then have "p \<notin> set ps" "- p \<notin> set ps" by (auto dest: lp_scan_missing)
        then have "lp_added l p s 0 (configChanged E (lp_set l (ps @ [p]) s))"
          using nw Some pos by (intro lp_use_node [OF w f]) (auto simp: abs_if split: if_splits)
        with eq L f Some Slot_missing show ?thesis by (auto split: if_splits)
      qed
    qed
  qed
qed

text \<open>Deleting a pair.\<close>

definition lp_deleted :: "int \<Rightarrow> int \<Rightarrow> entity \<Rightarrow> entity \<Rightarrow> bool" where
  "lp_deleted l p s s' \<longleftrightarrow> (l, p) \<in> lp_rel s \<and> lp_rel s' = lp_rel s - {(l, p)} \<and>
     lp_wf s' \<and> lp_only s s' \<and> lp_keys s' = lp_keys s"

lemma lp_kill_node:
  assumes w: "lp_wf s" and f: "find (\<lambda>n. lplogical n = l) (gLPMappingTableHead s) = Some n"
    and pos: "0 < p" and k: "lp_kill p (slots (physicalIndexes n)) = Some qs"
  shows "lp_deleted l p s (configChanged E (lp_set l qs s))"
proof -
  obtain us vs where uv: "slots (physicalIndexes n) = us @ p # vs" "qs = us @ (- p) # vs"
    using k by (auto dest: lp_kill_Some)
  have d: "distinct (map abs (us @ p # vs))" "0 \<notin> set (us @ p # vs)"
    using lp_node_wf [OF w f] uv(1) by simp_all
  have q: "{q \<in> set qs. 0 < q} = pos_slots n - {p}"
    using slot_swap_pos(1) [OF d(1) pos] uv by simp
  have "0 \<notin> set qs" "distinct (map abs qs)" using slot_swap [OF d, of "- p"] uv(2) by simp_all
  from lp_replace [OF w f this q, of E] lp_node_rel [OF w f] uv(1) pos show ?thesis
    by (auto simp: lp_deleted_def)
qed

lemma deleteLP_effect:
  assumes t: "tables_wf s" and w: "lp_wf s" and r: "deleteLPMappingTableEntry E l p s = (r, s')"
  shows "(r < 0 \<and> s' = s \<and> (l \<in> live_logi s \<and> p \<in> live_phys s \<longrightarrow> (l, p) \<notin> lp_rel s)) \<or>
    (r = 0 \<and> lp_deleted l p s s')"
proof (cases "l \<in> live_logi s \<and> p \<in> live_phys s")
  case False
  with r lp_not_live(2) [OF t False, of E] show ?thesis by auto
next
  case True
  then have L: "l \<in> live_logi s" "p \<in> live_phys s" by auto
  have pos: "0 < p" using lp_guards [OF t L] by simp
  note eq = r [unfolded deleteLP_live [OF t L]]
  show ?thesis
  proof (cases "find (\<lambda>n. lplogical n = l) (gLPMappingTableHead s)")
    case None
    then have "(l, p) \<notin> lp_rel s" by (auto simp: lp_rel_def find_None_key image_iff)
    with eq None show ?thesis by auto
  next
    case (Some n)
    show ?thesis
    proof (cases "lp_kill p (slots (physicalIndexes n))")
      case None
      with lp_node_rel [OF w Some] have "(l, p) \<notin> lp_rel s" by (simp add: lp_kill_None)
      with eq Some None show ?thesis by auto
    next
      case (Some qs)
      with eq \<open>find (\<lambda>n. lplogical n = l) (gLPMappingTableHead s) = Some n\<close>
        lp_kill_node [OF w _ pos, of l n qs E]
      show ?thesis by auto
    qed
  qed
qed

text \<open>Deleting every pair with a physical index, and with a logical index.\<close>

definition lp_killed :: "int \<Rightarrow> entLPMappingTableEntry \<Rightarrow> entLPMappingTableEntry" where
  "lp_killed p n = (case lp_kill p (slots (physicalIndexes n)) of None \<Rightarrow> n
                    | Some qs \<Rightarrow> n\<lparr>physicalIndexes := Some qs\<rparr>)"

lemma lp_kill_all_map:
  "lp_kill_all p ns = (int (length (filter (\<lambda>n. p \<in> set (slots (physicalIndexes n))) ns)),
     map (lp_killed p) ns)"
proof (induction p ns rule: lp_kill_all.induct)
  case (2 p n ns)
  show ?case
  proof (cases "lp_kill p (slots (physicalIndexes n))")
    case None
    then have "p \<notin> set (slots (physicalIndexes n))" by (simp add: lp_kill_None)
    with 2 None show ?thesis by (simp add: lp_killed_def)
  next
    case (Some qs)
    then have "p \<in> set (slots (physicalIndexes n))" by (metis lp_kill_None option.simps(3))
    with 2 Some show ?thesis by (simp add: lp_killed_def)
  qed
qed simp

lemma lplogical_killed [simp]: "lplogical (lp_killed p n) = lplogical n"
  by (simp add: lp_killed_def split: option.splits)

lemma lp_killed_slots:
  assumes "0 < p" "0 \<notin> set (slots (physicalIndexes n))" "distinct (map abs (slots (physicalIndexes n)))"
  shows "0 \<notin> set (slots (physicalIndexes (lp_killed p n))) \<and>
    distinct (map abs (slots (physicalIndexes (lp_killed p n)))) \<and>
    pos_slots (lp_killed p n) = pos_slots n - {p}"
proof (cases "lp_kill p (slots (physicalIndexes n))")
  case None
  then have "lp_killed p n = n" by (simp add: lp_killed_def)
  moreover have "p \<notin> set (slots (physicalIndexes n))" using None by (simp add: lp_kill_None)
  ultimately show ?thesis using assms by auto
next
  case (Some qs)
  then obtain us vs where uv: "slots (physicalIndexes n) = us @ p # vs" "qs = us @ (- p) # vs"
    by (auto dest: lp_kill_Some)
  then have d: "distinct (map abs (us @ p # vs))" "0 \<notin> set (us @ p # vs)" using assms by simp_all
  show ?thesis
    using slot_swap [OF d, of "- p"] slot_swap_pos(1) [OF d(1) assms(1)] uv Some
    by (simp add: lp_killed_def)
qed

lemma lp_kill_all_rel:
  assumes "lp_wf s" "0 < p"
  shows "lp_wf (s\<lparr>gLPMappingTableHead := map (lp_killed p) (gLPMappingTableHead s)\<rparr>) \<and>
    lp_rel (s\<lparr>gLPMappingTableHead := map (lp_killed p) (gLPMappingTableHead s)\<rparr>) =
      {(l, q) \<in> lp_rel s. q \<noteq> p}"
proof
  have k: "0 \<notin> set (slots (physicalIndexes (lp_killed p n))) \<and>
      distinct (map abs (slots (physicalIndexes (lp_killed p n)))) \<and>
      pos_slots (lp_killed p n) = pos_slots n - {p}" if "n \<in> set (gLPMappingTableHead s)" for n
    using that assms by (intro lp_killed_slots) (auto simp: lp_wf_def)
  show "lp_wf (s\<lparr>gLPMappingTableHead := map (lp_killed p) (gLPMappingTableHead s)\<rparr>)"
    using assms(1) k by (auto simp: lp_wf_def comp_def)
  have "(l, q) \<in> lp_rel (s\<lparr>gLPMappingTableHead := map (lp_killed p) (gLPMappingTableHead s)\<rparr>) \<longleftrightarrow>
      (\<exists>n \<in> set (gLPMappingTableHead s). lplogical n = l \<and> q \<in> pos_slots n - {p})" for l q
    unfolding lp_rel_alt using k by auto
  then show "lp_rel (s\<lparr>gLPMappingTableHead := map (lp_killed p) (gLPMappingTableHead s)\<rparr>) =
      {(l, q) \<in> lp_rel s. q \<noteq> p}"
    unfolding lp_rel_alt by auto
qed

lemma lp_count_phys:
  assumes "lp_wf s" "0 < p"
  shows "length (filter (\<lambda>n. p \<in> set (slots (physicalIndexes n))) (gLPMappingTableHead s)) =
    card {l. (l, p) \<in> lp_rel s}"
proof -
  let ?f = "filter (\<lambda>n. p \<in> set (slots (physicalIndexes n))) (gLPMappingTableHead s)"
  have "{l. (l, p) \<in> lp_rel s} = set (map lplogical ?f)" using assms(2) by (auto simp: lp_rel_def)
  moreover have "distinct (map lplogical ?f)" using assms(1) by (simp add: lp_wf_def distinct_map_filter)
  ultimately show ?thesis by (metis distinct_card length_map)
qed

lemma deleteLPPhysical_effect:
  assumes t: "tables_wf s" and w: "lp_wf s" and p: "p \<in> live_phys s"
    and r: "deleteLPMappingPhysicalIndex E p s = (r, s')"
  shows "lp_wf s' \<and> lp_only s s' \<and> lp_keys s' = lp_keys s \<and>
    lp_rel s' = {(l, q) \<in> lp_rel s. q \<noteq> p} \<and>
    r = (if \<exists>l. (l, p) \<in> lp_rel s then int (card {l. (l, p) \<in> lp_rel s}) else -1)"
proof -
  have g: "\<not> bad_index p" "getPhysicalTableStaleEntry p s = None" "getPhysicalTableEntry p s \<noteq> None"
    using p live_bounds [OF t] live_not_stale [OF t] by (auto simp: lookup_None [OF t])
  then have pos: "0 < p" by simp
  let ?s = "s\<lparr>gLPMappingTableHead := map (lp_killed p) (gLPMappingTableHead s)\<rparr>"
  let ?k = "int (card {l. (l, p) \<in> lp_rel s})"
  have res: "(r, s') = (if ?k \<noteq> 0 then (?k, configChanged E ?s) else (-1, ?s))"
    using r g unfolding deleteLPMappingPhysicalIndex_def lp_kill_all_map lp_count_phys [OF w pos]
    by (simp only: if_False simp_thms prod.case)
  have fin: "finite {l. (l, p) \<in> lp_rel s}"
    by (rule finite_subset [of _ "lplogical ` set (gLPMappingTableHead s)"]) (auto simp: lp_rel_def)
  then have k: "?k \<noteq> 0 \<longleftrightarrow> (\<exists>l. (l, p) \<in> lp_rel s)" by (auto simp: card_eq_0_iff)
  have "lp_only s ?s" "lp_only s (configChanged E ?s)" "lp_keys ?s = lp_keys s"
    "lp_keys (configChanged E ?s) = lp_keys s"
    by (simp_all add: lp_only_def lp_keys_def image_image)
  moreover have "lp_rel (configChanged E ?s) = lp_rel ?s" "lp_wf (configChanged E ?s) = lp_wf ?s"
    by (simp_all add: lp_rel_def lp_wf_def)
  ultimately show ?thesis
    using res lp_kill_all_rel [OF w pos] k by (auto split: if_splits)
qed

lemma deleteLPPhysical_not_live:
  assumes "tables_wf s" "p \<notin> live_phys s"
  shows "\<exists>r < 0. deleteLPMappingPhysicalIndex E p s = (r, s)"
  using assms(2) lookup_None [OF assms(1)] by (auto simp: deleteLPMappingPhysicalIndex_def)

lemma deleteLPLogical_effect:
  assumes t: "tables_wf s" and w: "lp_wf s" and l: "l \<in> live_logi s"
    and r: "deleteLPMappingLogicalIndex E l s = (r, s')"
  shows "lp_wf s' \<and> lp_only s s' \<and> lp_keys s' = lp_keys s - {l} \<and>
    lp_rel s' = {(k, q) \<in> lp_rel s. k \<noteq> l} \<and>
    r = (if l \<in> lp_keys s then int (card {q. (l, q) \<in> lp_rel s}) else -1)"
proof -
  have g: "\<not> bad_index l" "getLogicalTableStaleEntry l s = None" "getLogicalTableEntry l s \<noteq> None"
    using l live_bounds [OF t] live_not_stale [OF t] by (auto simp: lookup_None [OF t])
  then have P: "(\<lambda>n. lplogical n > 0 \<and> lplogical n = l) = (\<lambda>n. lplogical n = l)" by auto
  have res: "deleteLPMappingLogicalIndex E l s =
      (case find (\<lambda>n. lplogical n = l) (gLPMappingTableHead s) of
         None \<Rightarrow> (-1, s)
       | Some n \<Rightarrow>
           (FreeLPMappingTableEntry n,
            configChanged E
              (s\<lparr>gLPMappingTableHead := del_first (\<lambda>n. lplogical n = l) (gLPMappingTableHead s),
                 gLPMappingTableSize := gLPMappingTableSize s - 1\<rparr>)))"
    using g unfolding deleteLPMappingLogicalIndex_def P by (simp only: if_False simp_thms)
  have d: "distinct (map lplogical (gLPMappingTableHead s))" using w by (simp add: lp_wf_def)
  show ?thesis
  proof (cases "find (\<lambda>n. lplogical n = l) (gLPMappingTableHead s)")
    case None
    then have "l \<notin> lp_keys s" by (simp add: lp_keys_def find_None_key)
    moreover from this have "{(k, q) \<in> lp_rel s. k \<noteq> l} = lp_rel s"
      by (auto simp: lp_rel_def lp_keys_def)
    ultimately show ?thesis using r res None w by simp
  next
    case (Some n)
    let ?h = "filter (\<lambda>n. lplogical n \<noteq> l) (gLPMappingTableHead s)"
    let ?s = "configChanged E (s\<lparr>gLPMappingTableHead := ?h,
                gLPMappingTableSize := gLPMappingTableSize s - 1\<rparr>)"
    have r': "r = FreeLPMappingTableEntry n" "s' = ?s"
      using r res Some by (simp_all add: del_first_key [OF d])
    have "length (gLPMappingTableHead s) = Suc (length ?h)"
      using del_first_length [OF Some] by (simp add: del_first_key [OF d])
    then have "lp_wf ?s" using w d by (auto simp: lp_wf_def distinct_map_filter)
    moreover have "lp_only s ?s" by (simp add: lp_only_def)
    moreover have "lp_keys ?s = lp_keys s - {l}" by (auto simp: lp_keys_def)
    moreover have "lp_rel ?s = {(k, q) \<in> lp_rel s. k \<noteq> l}" by (auto simp: lp_rel_def)
    moreover have "l \<in> lp_keys s" using find_Some_in [OF Some] by (auto simp: lp_keys_def)
    moreover have "FreeLPMappingTableEntry n = int (card {q. (l, q) \<in> lp_rel s})"
    proof -
      have "{q. (l, q) \<in> lp_rel s} = set (filter (\<lambda>x. x > 0) (slots (physicalIndexes n)))"
        using lp_node_rel [OF w Some] by auto
      moreover have "distinct (slots (physicalIndexes n))"
        using lp_node_wf [OF w Some] by (auto simp: distinct_map)
      ultimately show ?thesis
        by (metis FreeLPMappingTableEntry_def distinct_card distinct_filter)
    qed
    ultimately show ?thesis using r' by simp
  qed
qed

lemma deleteLPLogical_not_live:
  assumes "tables_wf s" "l \<notin> live_logi s"
  shows "\<exists>r < 0. deleteLPMappingLogicalIndex E l s = (r, s)"
  using assms(2) lookup_None [OF assms(1)] by (auto simp: deleteLPMappingLogicalIndex_def)

end
