(* ===== verification/Alias_Mapping.thy ===== *)
theory Alias_Mapping
  imports Entity_State
begin

text \<open>
  The alias mapping table (\<^verbatim>\<open>entityMib/entAliasMappingTable.c\<close>): one node per physical
  index, owning an array of pairs of a logical index (or zero, for every logical entity)
  and an OID. The array ends at the first slot with a negative OID size; a deleted pair
  becomes a slot with logical index -1, no OID and size 0. Slots are never reused: the branch
  that would reuse one tests for a negative size inside the loop over slots with a
  non-negative one.
\<close>

section \<open>Operations\<close>

definition alias_set :: "int \<Rightarrow> logicalAlias list \<Rightarrow> entity \<Rightarrow> entity" where
  "alias_set p as s =
     s\<lparr>gAliasMappingTableHead :=
         upd_first (\<lambda>n. alphys n = p) (\<lambda>n. n\<lparr>entlogicalAliases := Some as\<rparr>)
           (gAliasMappingTableHead s)\<rparr>"

text \<open>
  The allocation and copy of the OID: the copy reads past the end of the caller's buffer
  when the size is too big (\<open>None\<close>), and a negative size is converted to a request that
  \<^verbatim>\<open>malloc\<close> cannot satisfy.
\<close>

datatype 'a copied = No_memory | Undefined | Copied 'a

definition copy_mapid :: "bool \<Rightarrow> oid \<Rightarrow> int \<Rightarrow> oid copied" where
  "copy_mapid ok m n =
     (if \<not> ok \<or> n < 0 then No_memory
      else (case memcpy_oid m n of None \<Rightarrow> Undefined | Some c \<Rightarrow> Copied c))"

definition addAliasMappingTableEntry ::
  "snmp_env \<Rightarrow> (nat \<Rightarrow> bool) \<Rightarrow> int \<Rightarrow> int \<Rightarrow> oid option \<Rightarrow> int \<Rightarrow> entity \<Rightarrow> (int \<times> entity) option"
where
  "addAliasMappingTableEntry E ok p l mapid sz s =
     (case mapid of
        None \<Rightarrow> Some (-1, s)
      | Some m \<Rightarrow>
          if bad_index p \<or> l < 0 \<or> l > MAX_ENTITY_INDEX then Some (-1, s)
          else if getPhysicalTableStaleEntry p s \<noteq> None then Some (-2, s)
          else if getLogicalTableStaleEntry l s \<noteq> None then Some (-2, s)
          else
            (case getPhysicalTableEntry p s of
               None \<Rightarrow> Some (-1, s)
             | Some physentry \<Rightarrow>
                 if entPhysicalClass (ndata physentry) \<noteq> 10 then Some (-1, s)
                 else if l \<noteq> 0 \<and> getLogicalTableEntry l s = None then Some (-1, s)
                 else
                   (case find (\<lambda>n. alphys n = p) (gAliasMappingTableHead s) of
                      Some n \<Rightarrow>
                        (case entlogicalAliases n of
                           None \<Rightarrow>
                             if \<not> ok 0 then Some (-1, s)
                             else
                               (case copy_mapid (ok 1) m sz of
                                  No_memory \<Rightarrow> Some (-1, s)
                                | Undefined \<Rightarrow> None
                                | Copied c \<Rightarrow> Some (0, configChanged E
                                    (alias_set p [\<lparr>entAliasLogicalIndexorZero = l, entAliasMapId = Some c,
                                                   entAliasMapIdSize = sz\<rparr>] s)))
                         | Some as \<Rightarrow>
                             if \<exists>a \<in> set as. entAliasLogicalIndexorZero a = l then Some (1, s)
                             else if \<not> ok 0 then None
                             else
                               (case copy_mapid (ok 1) m sz of
                                  No_memory \<Rightarrow> Some (-1, s)
                                | Undefined \<Rightarrow> None
                                | Copied c \<Rightarrow> Some (0, configChanged E
                                    (alias_set p (as @ [\<lparr>entAliasLogicalIndexorZero = l,
                                                         entAliasMapId = Some c,
                                                         entAliasMapIdSize = sz\<rparr>]) s))))
                    | None \<Rightarrow>
                        if \<not> ok 0 then Some (-1, s)
                        else if \<not> ok 1 then Some (-1, s)
                        else
                          (case copy_mapid (ok 2) m sz of
                             No_memory \<Rightarrow> Some (-1, s)
                           | Undefined \<Rightarrow> None
                           | Copied c \<Rightarrow> Some (0, configChanged E
                               (s\<lparr>gAliasMappingTableHead := gAliasMappingTableHead s @
                                    [\<lparr>alphys = p, entlogicalAliases =
                                        Some [\<lparr>entAliasLogicalIndexorZero = l, entAliasMapId = Some c,
                                               entAliasMapIdSize = sz\<rparr>]\<rparr>],
                                  gAliasMappingTableSize := gAliasMappingTableSize s + 1\<rparr>))))))"

text \<open>Clearing the first slot that holds a logical index.\<close>

definition alias_clear :: "logicalAlias \<Rightarrow> logicalAlias" where
  "alias_clear a =
     a\<lparr>entAliasLogicalIndexorZero := -1, entAliasMapId := None, entAliasMapIdSize := 0\<rparr>"

fun alias_kill :: "int \<Rightarrow> logicalAlias list \<Rightarrow> logicalAlias list option" where
  "alias_kill l [] = None"
| "alias_kill l (a # as) =
     (if entAliasLogicalIndexorZero a \<ge> 0 \<and> entAliasLogicalIndexorZero a = l
      then Some (alias_clear a # as) else map_option ((#) a) (alias_kill l as))"

definition deleteAliasMappingTableEntry :: "snmp_env \<Rightarrow> int \<Rightarrow> int \<Rightarrow> entity \<Rightarrow> int \<times> entity" where
  "deleteAliasMappingTableEntry E p l s =
     (if bad_index p \<or> l < 0 \<or> l > MAX_ENTITY_INDEX then (-1, s)
      else if getPhysicalTableStaleEntry p s \<noteq> None then (-2, s)
      else if getLogicalTableStaleEntry l s \<noteq> None then (-2, s)
      else
        (case find (\<lambda>n. alphys n > 0 \<and> alphys n = p) (gAliasMappingTableHead s) of
           None \<Rightarrow> (-1, s)
         | Some n \<Rightarrow>
             (case alias_kill l (slots (entlogicalAliases n)) of
                None \<Rightarrow> (-1, s)
              | Some as \<Rightarrow> (0, configChanged E (alias_set p as s)))))"

text \<open>The slots of a freed node that still held an OID.\<close>

definition FreeAliasMappingTableEntry :: "entAliasMappingTableEntry \<Rightarrow> int" where
  "FreeAliasMappingTableEntry n =
     int (length (filter (\<lambda>a. entAliasMapId a \<noteq> None) (slots (entlogicalAliases n))))"

definition deleteAliasMappingPhysicalIndex :: "snmp_env \<Rightarrow> int \<Rightarrow> entity \<Rightarrow> int \<times> entity" where
  "deleteAliasMappingPhysicalIndex E p s =
     (if bad_index p then (-1, s)
      else if getPhysicalTableStaleEntry p s \<noteq> None then (-2, s)
      else
        (case find (\<lambda>n. alphys n > 0 \<and> alphys n = p) (gAliasMappingTableHead s) of
           None \<Rightarrow> (-1, s)
         | Some n \<Rightarrow>
             (FreeAliasMappingTableEntry n,
              configChanged E
                (s\<lparr>gAliasMappingTableHead :=
                     del_first (\<lambda>n. alphys n > 0 \<and> alphys n = p) (gAliasMappingTableHead s),
                   gAliasMappingTableSize := gAliasMappingTableSize s - 1\<rparr>))))"

fun alias_kill_all ::
  "int \<Rightarrow> entAliasMappingTableEntry list \<Rightarrow> int \<times> entAliasMappingTableEntry list" where
  "alias_kill_all l [] = (0, [])"
| "alias_kill_all l (n # ns) =
     (case alias_kill_all l ns of (k, ms) \<Rightarrow>
        (if alphys n > 0 then
           (case alias_kill l (slots (entlogicalAliases n)) of
              None \<Rightarrow> (k, n # ms)
            | Some as \<Rightarrow> (k + 1, n\<lparr>entlogicalAliases := Some as\<rparr> # ms))
         else (k, n # ms)))"

definition deleteAliasMappingLogicalIndex :: "snmp_env \<Rightarrow> int \<Rightarrow> entity \<Rightarrow> int \<times> entity" where
  "deleteAliasMappingLogicalIndex E l s =
     (if bad_index l then (-1, s)
      else if getLogicalTableStaleEntry l s \<noteq> None then (-2, s)
      else
        (case alias_kill_all l (gAliasMappingTableHead s) of (nFound, ns) \<Rightarrow>
           if nFound \<noteq> 0 then (nFound, configChanged E (s\<lparr>gAliasMappingTableHead := ns\<rparr>))
           else (-1, s\<lparr>gAliasMappingTableHead := ns\<rparr>)))"

section \<open>Meaning and invariant\<close>

definition alias_live :: "logicalAlias list \<Rightarrow> (int \<times> oid) set" where
  "alias_live as = {(l, m). \<exists>a \<in> set as. entAliasLogicalIndexorZero a = l \<and> 0 \<le> l \<and>
                       entAliasMapId a = Some m}"

definition alias_slots :: "logicalAlias list \<Rightarrow> bool" where
  "alias_slots as \<longleftrightarrow>
     (\<forall>a \<in> set as. 0 \<le> entAliasMapIdSize a \<and>
        (0 \<le> entAliasLogicalIndexorZero a \<longleftrightarrow> entAliasMapId a \<noteq> None)) \<and>
     distinct (filter (\<lambda>l. 0 \<le> l) (map entAliasLogicalIndexorZero as))"

definition alias_rel :: "entity \<Rightarrow> (int \<times> int \<times> oid) set" where
  "alias_rel s = {(p, l, m). \<exists>n \<in> set (gAliasMappingTableHead s). alphys n = p \<and>
                     (l, m) \<in> alias_live (slots (entlogicalAliases n))}"

definition alias_wf :: "entity \<Rightarrow> bool" where
  "alias_wf s \<longleftrightarrow>
     distinct (map alphys (gAliasMappingTableHead s)) \<and>
     gAliasMappingTableSize s = int (length (gAliasMappingTableHead s)) \<and>
     (\<forall>n \<in> set (gAliasMappingTableHead s). 0 < alphys n \<and> alias_slots (slots (entlogicalAliases n)))"

definition alias_keys :: "entity \<Rightarrow> int set" where
  "alias_keys s = alphys ` set (gAliasMappingTableHead s)"

text \<open>What the operations of this file leave alone.\<close>

definition alias_only :: "entity \<Rightarrow> entity \<Rightarrow> bool" where
  "alias_only s s' \<longleftrightarrow>
     gPhysicalTable s' = gPhysicalTable s \<and> gLogicalTable s' = gLogicalTable s \<and>
     gLPMappingTableHead s' = gLPMappingTableHead s \<and>
     gLPMappingTableSize s' = gLPMappingTableSize s \<and>
     gPhyContainsTableHead s' = gPhyContainsTableHead s \<and>
     gPhyContainsTableSize s' = gPhyContainsTableSize s"

text \<open>The rows of the table, enumerated.\<close>

lemma alias_live_code [code]:
  "alias_live as = set (List.map_filter (\<lambda>a. if 0 \<le> entAliasLogicalIndexorZero a
     then map_option (Pair (entAliasLogicalIndexorZero a)) (entAliasMapId a) else None) as)"
  by (force simp: alias_live_def List.map_filter_def split: if_splits option.splits)

lemma alias_rel_code [code]:
  "alias_rel s = (\<Union>n \<in> set (gAliasMappingTableHead s).
     Pair (alphys n) ` alias_live (slots (entlogicalAliases n)))"
  by (auto simp: alias_rel_def)

section \<open>Lemmas on slot lists\<close>

lemma alias_only_refl [simp]: "alias_only s s"
  by (simp add: alias_only_def)

lemma alias_set_only [simp]: "alias_only s (configChanged E (alias_set p as s))"
  by (simp add: alias_only_def alias_set_def)

lemma alias_kill_None:
  "0 \<le> l \<Longrightarrow> alias_kill l as = None \<longleftrightarrow> l \<notin> entAliasLogicalIndexorZero ` set as"
  by (induction l as rule: alias_kill.induct) auto

lemma alias_kill_map:
  assumes "0 \<le> l" "distinct (filter (\<lambda>l. 0 \<le> l) (map entAliasLogicalIndexorZero as))"
    "alias_kill l as = Some qs"
  shows "qs = map (\<lambda>a. if entAliasLogicalIndexorZero a = l then alias_clear a else a) as"
  using assms
proof (induction l as arbitrary: qs rule: alias_kill.induct)
  case (2 l a as)
  show ?case
  proof (cases "entAliasLogicalIndexorZero a = l")
    case True
    with 2 have "map (\<lambda>a. if entAliasLogicalIndexorZero a = l then alias_clear a else a) as = as"
      by (intro map_cong_on) (auto simp: image_iff)
    with True 2 show ?thesis by auto
  next
    case False
    with "2.prems" obtain rs where "alias_kill l as = Some rs" "qs = a # rs" by auto
    with False 2 show ?thesis by (auto split: if_splits)
  qed
qed simp

lemma alias_clear_simps [simp]:
  "entAliasLogicalIndexorZero (alias_clear a) = -1" "entAliasMapId (alias_clear a) = None"
  "entAliasMapIdSize (alias_clear a) = 0"
  by (simp_all add: alias_clear_def)

lemma filter_map_clear:
  assumes "0 \<le> l"
  shows "filter (\<lambda>l. 0 \<le> l) (map entAliasLogicalIndexorZero
           (map (\<lambda>a. if entAliasLogicalIndexorZero a = l then alias_clear a else a) as)) =
         filter (\<lambda>k. k \<noteq> l) (filter (\<lambda>l. 0 \<le> l) (map entAliasLogicalIndexorZero as))"
  using assms by (induction as) auto

lemma alias_live_index:
  "alias_slots as \<Longrightarrow> 0 \<le> l \<Longrightarrow>
   (\<exists>m. (l, m) \<in> alias_live as) \<longleftrightarrow> (\<exists>a \<in> set as. entAliasLogicalIndexorZero a = l)"
  unfolding alias_live_def alias_slots_def by blast

lemma alias_kill_slots:
  assumes l: "0 \<le> l" and w: "alias_slots as" and k: "alias_kill l as = Some qs"
  shows "alias_slots qs \<and> alias_live qs = {(i, m) \<in> alias_live as. i \<noteq> l} \<and>
    (\<exists>m. (l, m) \<in> alias_live as)"
proof -
  have d: "distinct (filter (\<lambda>l. 0 \<le> l) (map entAliasLogicalIndexorZero as))"
    using w by (simp add: alias_slots_def)
  note q = alias_kill_map [OF l d k]
  have "alias_slots qs"
    unfolding q alias_slots_def filter_map_clear [OF l] using w distinct_filter [OF d]
    by (auto simp: alias_slots_def simp del: filter_filter)
  moreover have "alias_live qs = {(i, m) \<in> alias_live as. i \<noteq> l}"
    unfolding q alias_live_def using l by (auto split: if_splits)
  moreover have "l \<in> entAliasLogicalIndexorZero ` set as"
    using k alias_kill_None [OF l, of as] by auto
  then have "\<exists>m. (l, m) \<in> alias_live as" using alias_live_index [OF w l] by auto
  ultimately show ?thesis by blast
qed

lemma alias_live_unique:
  assumes "alias_slots as" "(l, m) \<in> alias_live as" "(l, m') \<in> alias_live as"
  shows "m = m'"
proof -
  have "distinct (filter (\<lambda>l. 0 \<le> l) (map entAliasLogicalIndexorZero as)) \<Longrightarrow>
      a \<in> set as \<Longrightarrow> b \<in> set as \<Longrightarrow> entAliasLogicalIndexorZero a = l \<Longrightarrow>
      entAliasLogicalIndexorZero b = l \<Longrightarrow> 0 \<le> l \<Longrightarrow> a = b" for a b
    by (induction as) (auto simp: image_iff split: if_splits)
  with assms show ?thesis unfolding alias_live_def alias_slots_def by fastforce
qed

lemma alias_slots_snoc:
  assumes "alias_slots as" "0 \<le> l" "0 \<le> k" "\<forall>a \<in> set as. entAliasLogicalIndexorZero a \<noteq> l"
  shows "alias_slots (as @ [\<lparr>entAliasLogicalIndexorZero = l, entAliasMapId = Some c,
           entAliasMapIdSize = k\<rparr>])"
    and "alias_live (as @ [\<lparr>entAliasLogicalIndexorZero = l, entAliasMapId = Some c,
           entAliasMapIdSize = k\<rparr>]) = insert (l, c) (alias_live as)"
  using assms by (auto simp: alias_slots_def alias_live_def)

lemma alias_live_count:
  assumes "alias_slots as"
  shows "length (filter (\<lambda>a. entAliasMapId a \<noteq> None) as) = card (fst ` alias_live as)"
proof -
  let ?f = "filter (\<lambda>l. 0 \<le> l) (map entAliasLogicalIndexorZero as)"
  have "filter (\<lambda>a. entAliasMapId a \<noteq> None) as = filter (\<lambda>a. 0 \<le> entAliasLogicalIndexorZero a) as"
    using assms by (intro filter_cong) (auto simp: alias_slots_def)
  then have "length (filter (\<lambda>a. entAliasMapId a \<noteq> None) as) = length ?f"
    by (simp add: filter_map comp_def)
  also have "\<dots> = card (set ?f)"
    using assms unfolding alias_slots_def by (intro distinct_card [symmetric]) simp
  also have "set ?f = fst ` alias_live as"
    using assms by (force simp: alias_slots_def alias_live_def image_iff)
  finally show ?thesis .
qed

section \<open>Lemmas on nodes\<close>

lemma alias_node:
  assumes "alias_wf s" "find (\<lambda>n. alphys n = p) (gAliasMappingTableHead s) = Some n"
  shows "alias_slots (slots (entlogicalAliases n))"
    and "(p, l, m) \<in> alias_rel s \<longleftrightarrow> (l, m) \<in> alias_live (slots (entlogicalAliases n))"
proof -
  have n: "n \<in> set (gAliasMappingTableHead s)" "alphys n = p" using find_Some_in [OF assms(2)] by auto
  show "alias_slots (slots (entlogicalAliases n))" using assms(1) n(1) by (simp add: alias_wf_def)
  have "distinct (map alphys (gAliasMappingTableHead s))" using assms(1) by (simp add: alias_wf_def)
  then have "(\<exists>m \<in> set (gAliasMappingTableHead s). alphys m = p \<and> Q m) \<longleftrightarrow> Q n" for Q
    using n key_unique [of alphys] by metis
  then show "(p, l, m) \<in> alias_rel s \<longleftrightarrow> (l, m) \<in> alias_live (slots (entlogicalAliases n))"
    by (simp add: alias_rel_def)
qed

lemma alias_no_node:
  "find (\<lambda>n. alphys n = p) (gAliasMappingTableHead s) = None \<Longrightarrow> (p, l, m) \<notin> alias_rel s"
  by (auto simp: alias_rel_def find_None_key image_iff)

lemma alias_replace:
  assumes w: "alias_wf s" and f: "find (\<lambda>n. alphys n = p) (gAliasMappingTableHead s) = Some n"
    and as: "alias_slots as"
  shows "alias_wf (configChanged E (alias_set p as s))"
    and "alias_rel (configChanged E (alias_set p as s)) =
      {(q, x) \<in> alias_rel s. q \<noteq> p} \<union> {p} \<times> alias_live as"
    and "alias_keys (configChanged E (alias_set p as s)) = alias_keys s"
proof -
  let ?u = "upd_first (\<lambda>n. alphys n = p) (\<lambda>n. n\<lparr>entlogicalAliases := Some as\<rparr>)
              (gAliasMappingTableHead s)"
  have d: "distinct (map alphys (gAliasMappingTableHead s))" using w by (simp add: alias_wf_def)
  have k: "map alphys ?u = map alphys (gAliasMappingTableHead s)" by (rule map_upd_first) simp
  have "\<forall>n \<in> set ?u. 0 < alphys n \<and> alias_slots (slots (entlogicalAliases n))"
    using w as in_upd_first [OF d] by (auto simp: alias_wf_def split: if_splits)
  with w d k show "alias_wf (configChanged E (alias_set p as s))"
    by (simp add: alias_wf_def alias_set_def)
  have n: "n \<in> set (gAliasMappingTableHead s)" "alphys n = p" using find_Some_in [OF f] by auto
  have "(q, l, m) \<in> alias_rel (configChanged E (alias_set p as s)) \<longleftrightarrow>
      (if q = p then (l, m) \<in> alias_live as else (q, l, m) \<in> alias_rel s)" for q l m
    unfolding alias_rel_def alias_set_def using n
    by (auto simp: bex_upd_first [OF d] split: if_splits)
  then show "alias_rel (configChanged E (alias_set p as s)) =
      {(q, x) \<in> alias_rel s. q \<noteq> p} \<union> {p} \<times> alias_live as"
    by (auto split: if_splits)
  from arg_cong [OF k, of set] show "alias_keys (configChanged E (alias_set p as s)) = alias_keys s"
    by (simp add: alias_keys_def alias_set_def)
qed

section \<open>Adding a pair\<close>

definition port_phys :: "int \<Rightarrow> entity \<Rightarrow> bool" where
  "port_phys p s \<longleftrightarrow>
     (\<exists>n \<in> set (thead (gPhysicalTable s)). nidx n = p \<and> entPhysicalClass (ndata n) = 10)"

definition alias_added :: "int \<Rightarrow> int \<Rightarrow> oid \<Rightarrow> entity \<Rightarrow> entity \<Rightarrow> bool" where
  "alias_added p l c s s' \<longleftrightarrow> alias_wf s' \<and> alias_only s s' \<and> (\<forall>m. (p, l, m) \<notin> alias_rel s) \<and>
     alias_rel s' = insert (p, l, c) (alias_rel s) \<and> alias_keys s' = insert p (alias_keys s)"

lemma alias_new_node:
  assumes "alias_wf s" "find (\<lambda>n. alphys n = p) (gAliasMappingTableHead s) = None"
    and "0 < p" "0 \<le> l" "0 \<le> sz"
  shows "alias_added p l c s (configChanged E
    (s\<lparr>gAliasMappingTableHead := gAliasMappingTableHead s @ [\<lparr>alphys = p, entlogicalAliases =
          Some [\<lparr>entAliasLogicalIndexorZero = l, entAliasMapId = Some c, entAliasMapIdSize = sz\<rparr>]\<rparr>],
       gAliasMappingTableSize := gAliasMappingTableSize s + 1\<rparr>))"
  using assms alias_no_node [OF assms(2)]
  by (auto simp: alias_added_def alias_wf_def alias_only_def alias_rel_def alias_keys_def
      find_None_key alias_slots_def alias_live_def)

lemma alias_use_node:
  assumes w: "alias_wf s" and f: "find (\<lambda>n. alphys n = p) (gAliasMappingTableHead s) = Some n"
    and sz: "0 \<le> l" "0 \<le> sz"
    and new: "\<forall>a \<in> set (slots (entlogicalAliases n)). entAliasLogicalIndexorZero a \<noteq> l"
  shows "alias_added p l c s (configChanged E (alias_set p (slots (entlogicalAliases n) @
    [\<lparr>entAliasLogicalIndexorZero = l, entAliasMapId = Some c, entAliasMapIdSize = sz\<rparr>]) s))"
proof -
  note nw = alias_node(1) [OF w f] and rel = alias_node(2) [OF w f]
  note sn = alias_slots_snoc [OF nw sz new, of c]
  have "p \<in> alias_keys s" using find_Some_in [OF f] by (auto simp: alias_keys_def)
  moreover have "(p, l, m) \<notin> alias_rel s" for m
    using rel alias_live_index [OF nw sz(1)] new by auto
  ultimately show ?thesis
    unfolding alias_added_def using alias_replace [OF w f sn(1), of E] sn(2) rel
    by (auto simp: insert_absorb)
qed

lemma copy_mapid_Copied:
  "copy_mapid b m n = Copied c \<longleftrightarrow> b \<and> 0 \<le> n \<and> memcpy_oid m n = Some c"
  by (auto simp: copy_mapid_def split: option.splits)

lemma alias_guards:
  assumes t: "tables_wf s" and g: "getPhysicalTableEntry p s = Some n" "l \<noteq> 0 \<longrightarrow> getLogicalTableEntry l s \<noteq> None"
    and c: "entPhysicalClass (ndata n) = 10"
  shows "p \<in> live_phys s" "port_phys p s" "l = 0 \<or> l \<in> live_logi s"
  using g c by (auto simp: lookup_iff(1) [OF t] lookup_None [OF t] port_phys_def live_set_def)

lemma addAlias_effect:
  assumes t: "tables_wf s" and w: "alias_wf s"
    and r: "addAliasMappingTableEntry E ok p l mapid sz s = Some (r, s')"
  shows "(r < 0 \<and> s' = s) \<or> (r = 1 \<and> s' = s \<and> (\<exists>m. (p, l, m) \<in> alias_rel s)) \<or>
    (r = 0 \<and> p \<in> live_phys s \<and> port_phys p s \<and> (l = 0 \<or> l \<in> live_logi s) \<and> 0 \<le> sz \<and>
     (\<exists>m c. mapid = Some m \<and> memcpy_oid m sz = Some c \<and> alias_added p l c s s'))"
proof (cases "r < 0 \<and> s' = s")
  case False
  then obtain m n where m: "mapid = Some m" and b: "0 < p" "0 \<le> l"
    and n: "getPhysicalTableEntry p s = Some n" "entPhysicalClass (ndata n) = 10"
      "l \<noteq> 0 \<longrightarrow> getLogicalTableEntry l s \<noteq> None"
    and g: "\<not> (bad_index p \<or> l < 0 \<or> l > MAX_ENTITY_INDEX)" "getPhysicalTableStaleEntry p s = None"
      "getLogicalTableStaleEntry l s = None"
    using r by (auto simp: addAliasMappingTableEntry_def split: option.splits if_splits)
  note ok = alias_guards [OF t n(1,3,2)]
  note eq = r [unfolded addAliasMappingTableEntry_def m option.case n(1)]
  show ?thesis
  proof (cases "find (\<lambda>n. alphys n = p) (gAliasMappingTableHead s)")
    case None
    then obtain c where "memcpy_oid m sz = Some c" "0 \<le> sz" "r = 0" "alias_added p l c s s'"
      using eq g n False b alias_new_node [OF w None b]
      by (auto simp: copy_mapid_Copied split: if_splits copied.splits)
    with ok m show ?thesis by blast
  next
    case (Some n')
    show ?thesis
    proof (cases "\<exists>a \<in> set (slots (entlogicalAliases n')). entAliasLogicalIndexorZero a = l")
      case True
      then have "r = 1 \<and> s' = s"
        using eq g n False Some by (auto split: if_splits copied.splits option.splits)
      moreover have "\<exists>m. (p, l, m) \<in> alias_rel s"
        using alias_live_index [OF alias_node(1) [OF w Some] b(2)] True alias_node(2) [OF w Some] by blast
      ultimately show ?thesis by blast
    next
      case new: False
      then obtain c where "memcpy_oid m sz = Some c" "0 \<le> sz" "r = 0" "alias_added p l c s s'"
        using eq g n False Some alias_use_node [OF w Some b(2)]
        by (auto simp: copy_mapid_Copied split: if_splits copied.splits option.splits)
      with ok m show ?thesis by blast
    qed
  qed
qed simp

section \<open>Deleting pairs\<close>

lemma alias_find_pos:
  "alias_wf s \<Longrightarrow> find (\<lambda>n. alphys n > 0 \<and> alphys n = p) (gAliasMappingTableHead s) =
     find (\<lambda>n. alphys n = p) (gAliasMappingTableHead s)"
  unfolding alias_wf_def by (intro find_cong) auto

lemma deleteAlias_effect:
  assumes w: "alias_wf s" and r: "deleteAliasMappingTableEntry E p l s = (r, s')"
  shows "(r < 0 \<and> s' = s \<and>
      (\<not> bad_index p \<and> l \<le> MAX_ENTITY_INDEX \<and> getPhysicalTableStaleEntry p s = None \<and>
       getLogicalTableStaleEntry l s = None \<longrightarrow> (\<forall>m. (p, l, m) \<notin> alias_rel s))) \<or>
    (r = 0 \<and> alias_wf s' \<and> alias_only s s' \<and> alias_keys s' = alias_keys s \<and>
     (\<exists>m. (p, l, m) \<in> alias_rel s) \<and> alias_rel s' = {(q, k, m) \<in> alias_rel s. (q, k) \<noteq> (p, l)})"
proof (cases "bad_index p \<or> l < 0 \<or> l > MAX_ENTITY_INDEX \<or> getPhysicalTableStaleEntry p s \<noteq> None \<or>
    getLogicalTableStaleEntry l s \<noteq> None")
  case True
  then show ?thesis
    using r by (auto simp: deleteAliasMappingTableEntry_def alias_rel_def alias_live_def
        split: if_splits)
next
  case False
  then have l: "0 \<le> l" by simp
  have eq: "(case find (\<lambda>n. alphys n = p) (gAliasMappingTableHead s) of
           None \<Rightarrow> (-1, s)
         | Some n \<Rightarrow>
             (case alias_kill l (slots (entlogicalAliases n)) of
                None \<Rightarrow> (-1, s)
              | Some as \<Rightarrow> (0, configChanged E (alias_set p as s)))) = (r, s')"
    using False r unfolding deleteAliasMappingTableEntry_def alias_find_pos [OF w] by simp
  show ?thesis
  proof (cases "find (\<lambda>n. alphys n = p) (gAliasMappingTableHead s)")
    case None
    with eq alias_no_node [OF None] show ?thesis by simp
  next
    case (Some n)
    note rel = alias_node(2) [OF w Some]
    show ?thesis
    proof (cases "alias_kill l (slots (entlogicalAliases n))")
      case None
      then have "\<forall>m. (p, l, m) \<notin> alias_rel s"
        using rel alias_kill_None [OF l] by (force simp: alias_live_def)
      with eq Some None show ?thesis by simp
    next
      case k: (Some as)
      note ks = alias_kill_slots [OF l alias_node(1) [OF w Some] k]
      have "alias_rel (configChanged E (alias_set p as s)) =
          {(q, k, m) \<in> alias_rel s. (q, k) \<noteq> (p, l)}"
        unfolding alias_replace(2) [OF w Some conjunct1 [OF ks]] using ks rel by auto
      with eq Some k ks rel alias_replace [OF w Some conjunct1 [OF ks], of E] show ?thesis by auto
    qed
  qed
qed

lemma deleteAliasPhysical_effect:
  assumes w: "alias_wf s" and p: "\<not> bad_index p" "getPhysicalTableStaleEntry p s = None"
    and r: "deleteAliasMappingPhysicalIndex E p s = (r, s')"
  shows "alias_wf s' \<and> alias_only s s' \<and> alias_keys s' = alias_keys s - {p} \<and>
    alias_rel s' = {(q, x) \<in> alias_rel s. q \<noteq> p} \<and>
    r = (if p \<in> alias_keys s then int (card {l. \<exists>m. (p, l, m) \<in> alias_rel s}) else -1)"
proof -
  have P: "(\<lambda>n. alphys n > 0 \<and> alphys n = p) = (\<lambda>n. alphys n = p)" using p by auto
  have d: "distinct (map alphys (gAliasMappingTableHead s))" using w by (simp add: alias_wf_def)
  have res: "deleteAliasMappingPhysicalIndex E p s =
      (case find (\<lambda>n. alphys n = p) (gAliasMappingTableHead s) of
         None \<Rightarrow> (-1, s)
       | Some n \<Rightarrow>
           (FreeAliasMappingTableEntry n,
            configChanged E
              (s\<lparr>gAliasMappingTableHead := filter (\<lambda>n. alphys n \<noteq> p) (gAliasMappingTableHead s),
                 gAliasMappingTableSize := gAliasMappingTableSize s - 1\<rparr>)))"
    using p unfolding deleteAliasMappingPhysicalIndex_def P del_first_key [OF d]
    by (simp only: if_False simp_thms)
  show ?thesis
  proof (cases "find (\<lambda>n. alphys n = p) (gAliasMappingTableHead s)")
    case None
    then have "p \<notin> alias_keys s" by (simp add: alias_keys_def find_None_key)
    with None r res w alias_no_node [OF None] show ?thesis by auto
  next
    case (Some n)
    let ?h = "filter (\<lambda>n. alphys n \<noteq> p) (gAliasMappingTableHead s)"
    let ?s = "configChanged E (s\<lparr>gAliasMappingTableHead := ?h,
                gAliasMappingTableSize := gAliasMappingTableSize s - 1\<rparr>)"
    have "length (gAliasMappingTableHead s) = Suc (length ?h)"
      using del_first_length [OF Some] by (simp add: del_first_key [OF d])
    then have "alias_wf ?s" using w d by (auto simp: alias_wf_def distinct_map_filter)
    moreover have "alias_only s ?s" by (simp add: alias_only_def)
    moreover have "alias_keys ?s = alias_keys s - {p}" by (auto simp: alias_keys_def)
    moreover have "alias_rel ?s = {(q, x) \<in> alias_rel s. q \<noteq> p}" by (auto simp: alias_rel_def)
    moreover have "p \<in> alias_keys s" using find_Some_in [OF Some] by (auto simp: alias_keys_def)
    moreover have "{l. \<exists>m. (p, l, m) \<in> alias_rel s} = fst ` alias_live (slots (entlogicalAliases n))"
      using alias_node(2) [OF w Some] by force
    then have "FreeAliasMappingTableEntry n = int (card {l. \<exists>m. (p, l, m) \<in> alias_rel s})"
      using alias_live_count [OF alias_node(1) [OF w Some]] by (simp add: FreeAliasMappingTableEntry_def)
    ultimately show ?thesis using r res Some by simp
  qed
qed

lemma deleteAliasPhysical_refused:
  assumes "\<not> (\<not> bad_index p \<and> getPhysicalTableStaleEntry p s = None)"
  shows "\<exists>r < 0. deleteAliasMappingPhysicalIndex E p s = (r, s)"
  using assms by (auto simp: deleteAliasMappingPhysicalIndex_def)

text \<open>Every pair with a logical index.\<close>

definition alias_killed :: "int \<Rightarrow> entAliasMappingTableEntry \<Rightarrow> entAliasMappingTableEntry" where
  "alias_killed l n = (case alias_kill l (slots (entlogicalAliases n)) of None \<Rightarrow> n
                       | Some as \<Rightarrow> n\<lparr>entlogicalAliases := Some as\<rparr>)"

lemma alphys_killed [simp]: "alphys (alias_killed l n) = alphys n"
  by (simp add: alias_killed_def split: option.splits)

lemma alias_kill_all_map:
  assumes "0 \<le> l" "\<forall>n \<in> set ns. 0 < alphys n"
  shows "alias_kill_all l ns =
    (int (length (filter (\<lambda>n. l \<in> entAliasLogicalIndexorZero ` set (slots (entlogicalAliases n))) ns)),
     map (alias_killed l) ns)"
  using assms
proof (induction l ns rule: alias_kill_all.induct)
  case (2 l n ns)
  note None_iff = alias_kill_None [OF "2.prems"(1), of "slots (entlogicalAliases n)"]
  show ?case
  proof (cases "alias_kill l (slots (entlogicalAliases n))")
    case None
    moreover from this have "l \<notin> entAliasLogicalIndexorZero ` set (slots (entlogicalAliases n))"
      using None_iff by simp
    ultimately show ?thesis using 2 by (simp add: alias_killed_def)
  next
    case (Some qs)
    moreover from this have "l \<in> entAliasLogicalIndexorZero ` set (slots (entlogicalAliases n))"
      using None_iff by auto
    ultimately show ?thesis using 2 by (simp add: alias_killed_def)
  qed
qed simp

lemma alias_killed_slots:
  assumes "0 \<le> l" "alias_slots (slots (entlogicalAliases n))"
  shows "alias_slots (slots (entlogicalAliases (alias_killed l n))) \<and>
    alias_live (slots (entlogicalAliases (alias_killed l n))) =
      {(i, m) \<in> alias_live (slots (entlogicalAliases n)). i \<noteq> l}"
proof (cases "alias_kill l (slots (entlogicalAliases n))")
  case None
  moreover from this have "l \<notin> entAliasLogicalIndexorZero ` set (slots (entlogicalAliases n))"
    using alias_kill_None [OF assms(1), of "slots (entlogicalAliases n)"] by simp
  then have "\<forall>m. (l, m) \<notin> alias_live (slots (entlogicalAliases n))" by (force simp: alias_live_def)
  ultimately show ?thesis using assms by (auto simp: alias_killed_def)
next
  case (Some qs)
  with alias_kill_slots [OF assms Some] show ?thesis by (simp add: alias_killed_def)
qed

lemma alias_kill_all_rel:
  assumes "alias_wf s" "0 \<le> l"
  shows "alias_wf (s\<lparr>gAliasMappingTableHead := map (alias_killed l) (gAliasMappingTableHead s)\<rparr>) \<and>
    alias_rel (s\<lparr>gAliasMappingTableHead := map (alias_killed l) (gAliasMappingTableHead s)\<rparr>) =
      {(p, k, m) \<in> alias_rel s. k \<noteq> l}"
proof -
  have k: "alias_slots (slots (entlogicalAliases (alias_killed l n))) \<and>
      alias_live (slots (entlogicalAliases (alias_killed l n))) =
        {(i, m) \<in> alias_live (slots (entlogicalAliases n)). i \<noteq> l}"
    if "n \<in> set (gAliasMappingTableHead s)" for n
    using that assms by (intro alias_killed_slots) (auto simp: alias_wf_def)
  then show ?thesis using assms(1) by (auto simp: alias_wf_def alias_rel_def comp_def)
qed

lemma alias_count_logi:
  assumes "alias_wf s" "0 \<le> l"
  shows "length (filter (\<lambda>n. l \<in> entAliasLogicalIndexorZero ` set (slots (entlogicalAliases n)))
           (gAliasMappingTableHead s)) = card {p. \<exists>m. (p, l, m) \<in> alias_rel s}"
proof -
  let ?f = "filter (\<lambda>n. l \<in> entAliasLogicalIndexorZero ` set (slots (entlogicalAliases n)))
              (gAliasMappingTableHead s)"
  have "l \<in> entAliasLogicalIndexorZero ` set (slots (entlogicalAliases n)) \<longleftrightarrow>
      (\<exists>m. (l, m) \<in> alias_live (slots (entlogicalAliases n)))"
    if "n \<in> set (gAliasMappingTableHead s)" for n
    using that assms alias_live_index [of "slots (entlogicalAliases n)" l] by (auto simp: alias_wf_def)
  then have "{n \<in> set (gAliasMappingTableHead s).
        l \<in> entAliasLogicalIndexorZero ` set (slots (entlogicalAliases n))} =
      {n \<in> set (gAliasMappingTableHead s). \<exists>m. (l, m) \<in> alias_live (slots (entlogicalAliases n))}"
    by blast
  then have "{p. \<exists>m. (p, l, m) \<in> alias_rel s} = set (map alphys ?f)"
    unfolding set_map set_filter by (auto simp: alias_rel_def)
  moreover have "distinct (map alphys ?f)" using assms(1) by (simp add: alias_wf_def distinct_map_filter)
  ultimately show ?thesis by (metis distinct_card length_map)
qed

lemma deleteAliasLogical_effect:
  assumes w: "alias_wf s" and l: "\<not> bad_index l" "getLogicalTableStaleEntry l s = None"
    and r: "deleteAliasMappingLogicalIndex E l s = (r, s')"
  shows "alias_wf s' \<and> alias_only s s' \<and> alias_keys s' = alias_keys s \<and>
    alias_rel s' = {(p, k, m) \<in> alias_rel s. k \<noteq> l} \<and>
    r = (if \<exists>p m. (p, l, m) \<in> alias_rel s then int (card {p. \<exists>m. (p, l, m) \<in> alias_rel s}) else -1)"
proof -
  have pos: "0 \<le> l" using l by simp
  have ap: "\<forall>n \<in> set (gAliasMappingTableHead s). 0 < alphys n" using w by (simp add: alias_wf_def)
  let ?s = "s\<lparr>gAliasMappingTableHead := map (alias_killed l) (gAliasMappingTableHead s)\<rparr>"
  let ?k = "int (card {p. \<exists>m. (p, l, m) \<in> alias_rel s})"
  have res: "(r, s') = (if ?k \<noteq> 0 then (?k, configChanged E ?s) else (-1, ?s))"
    using r l unfolding deleteAliasMappingLogicalIndex_def alias_kill_all_map [OF pos ap]
      alias_count_logi [OF w pos]
    by (simp only: if_False simp_thms prod.case)
  have "finite {p. \<exists>m. (p, l, m) \<in> alias_rel s}"
    by (rule finite_subset [of _ "alphys ` set (gAliasMappingTableHead s)"]) (auto simp: alias_rel_def)
  then have k: "?k \<noteq> 0 \<longleftrightarrow> (\<exists>p m. (p, l, m) \<in> alias_rel s)" by (auto simp: card_eq_0_iff)
  have "alias_only s ?s" "alias_only s (configChanged E ?s)" "alias_keys ?s = alias_keys s"
    "alias_keys (configChanged E ?s) = alias_keys s"
    by (simp_all add: alias_only_def alias_keys_def image_image)
  moreover have "alias_rel (configChanged E ?s) = alias_rel ?s" "alias_wf (configChanged E ?s) = alias_wf ?s"
    by (simp_all add: alias_rel_def alias_wf_def)
  ultimately show ?thesis
    using res alias_kill_all_rel [OF w pos] k by (auto split: if_splits)
qed

lemma deleteAliasLogical_refused:
  assumes "\<not> (\<not> bad_index l \<and> getLogicalTableStaleEntry l s = None)"
  shows "\<exists>r < 0. deleteAliasMappingLogicalIndex E l s = (r, s)"
  using assms by (auto simp: deleteAliasMappingLogicalIndex_def)

end
