(* ===== verification/Contains_Table.thy ===== *)
theory Contains_Table
  imports Entity_State
begin

text \<open>
  The containment table (\<^verbatim>\<open>entityMib/entPhysicalContainsTable.c\<close>, and
  \<^verbatim>\<open>getAllChildrenFromPhysicalContainedIn\<close> of \<^verbatim>\<open>entPhysicalTable.c\<close>): one node per
  parent, owning an array of child indices in which -1 marks a free slot. Beside the table,
  every physical entry has a field \<^verbatim>\<open>entPhysicalContainedIn\<close>, which the operations here
  keep at the lowest parent of the entry. The cycle check walks both relations; it does not
  return when they form a cycle that misses the index it looks for.

  The functions that build an array of children may run out of memory half-way, so they take
  the number of allocation requests made so far and return it updated.
\<close>

section \<open>Children\<close>

text \<open>A run of allocation requests that stops at the first failure.\<close>

fun allocs :: "(nat \<Rightarrow> bool) \<Rightarrow> nat \<Rightarrow> nat \<Rightarrow> bool \<times> nat" where
  "allocs ok k 0 = (True, k)"
| "allocs ok k (Suc n) = (if ok k then allocs ok (Suc k) n else (False, Suc k))"

definition getPhysicalContainsChildren ::
  "(nat \<Rightarrow> bool) \<Rightarrow> int \<Rightarrow> nat \<Rightarrow> entity \<Rightarrow> int list option \<times> nat" where
  "getPhysicalContainsChildren ok p k s =
     (if getPhysicalTableEntry p s = None then (None, k)
      else
        (case find (\<lambda>n. cparent n = p) (gPhyContainsTableHead s) of
           None \<Rightarrow> (None, k)
         | Some n \<Rightarrow>
             (let cs = filter (\<lambda>c. c > 0) (slots (childIndexes n)) in
              if cs = [] then (None, k)
              else (case allocs ok k (length cs + 1) of
                      (True, k') \<Rightarrow> (Some cs, k') | (False, k') \<Rightarrow> (None, k')))))"

text \<open>
  The scan for entries contained in a parent. The write position stays at 1 after the first
  match, so that each later match overwrites the one before.
\<close>

fun contained_loop ::
  "(nat \<Rightarrow> bool) \<Rightarrow> int \<Rightarrow> entPhysicalEntry node list \<Rightarrow> int list option \<Rightarrow> nat \<Rightarrow>
   int list option \<times> nat" where
  "contained_loop ok p [] child_list k = (child_list, k)"
| "contained_loop ok p (n # ns) child_list k =
     (if entPhysicalContainedIn (ndata n) = p then
        (if ok k then
           contained_loop ok p ns
             (Some (case child_list of None \<Rightarrow> [nidx n] | Some xs \<Rightarrow> take 1 xs @ [nidx n])) (Suc k)
         else (None, Suc k))
      else contained_loop ok p ns child_list k)"

definition getAllChildrenFromPhysicalContainedIn ::
  "(nat \<Rightarrow> bool) \<Rightarrow> int \<Rightarrow> nat \<Rightarrow> entity \<Rightarrow> int list option \<times> nat" where
  "getAllChildrenFromPhysicalContainedIn ok p k s =
     (if bad_index p then (None, k)
      else contained_loop ok p (thead (gPhysicalTable s)) None k)"

section \<open>The cycle check\<close>

fun any_child ::
  "(int \<Rightarrow> nat \<Rightarrow> (bool \<times> nat) option) \<Rightarrow> int list \<Rightarrow> nat \<Rightarrow> (bool \<times> nat) option" where
  "any_child f [] k = Some (False, k)"
| "any_child f (x # xs) k =
     Option.bind (f x k) (\<lambda>(ret, k'). if ret then Some (True, k') else any_child f xs k')"

lemma any_child_mono [partial_function_mono]:
  assumes "\<And>x k. mono_option (\<lambda>f. F f x k)"
  shows "mono_option (\<lambda>f. any_child (F f) xs k)"
proof (induction xs arbitrary: k)
  case Nil
  show ?case by (simp add: option.const_mono)
next
  case (Cons x xs)
  show ?case
    unfolding any_child.simps
  proof (rule bind_mono)
    show "mono_option (\<lambda>f. F f x k)" by (rule assms)
    show "mono_option (\<lambda>f. case y of (ret, k') \<Rightarrow> if ret then Some (True, k') else any_child (F f) xs k')"
      for y
    proof (cases y)
      case (Pair ret k')
      then show ?thesis using Cons.IH [of k'] by (cases ret) (simp_all add: option.const_mono)
    qed
  qed
qed

text \<open>\<open>None\<close> is a recursion that does not end.\<close>

partial_function (option) isRecursiveChild ::
  "(nat \<Rightarrow> bool) \<Rightarrow> entity \<Rightarrow> int \<Rightarrow> int \<Rightarrow> nat \<Rightarrow> (bool \<times> nat) option" where
  "isRecursiveChild ok s p c k =
     (if p = c then Some (True, k)
      else
        Option.bind
          (any_child (\<lambda>x. isRecursiveChild ok s x c)
             (slots (fst (getAllChildrenFromPhysicalContainedIn ok p k s)))
             (snd (getAllChildrenFromPhysicalContainedIn ok p k s)))
          (\<lambda>(ret, k1).
             if ret then Some (True, k1)
             else
               any_child (\<lambda>x. isRecursiveChild ok s x c)
                 (slots (fst (getPhysicalContainsChildren ok p k1 s)))
                 (snd (getPhysicalContainsChildren ok p k1 s))))"

declare isRecursiveChild.simps [code]

section \<open>Adding a pair\<close>

definition set_children :: "int \<Rightarrow> int list option \<Rightarrow> entity \<Rightarrow> entity" where
  "set_children p cs s =
     s\<lparr>gPhyContainsTableHead :=
         upd_first (\<lambda>n. cparent n = p) (\<lambda>n. n\<lparr>childIndexes := cs\<rparr>) (gPhyContainsTableHead s)\<rparr>"

definition set_contained :: "entPhysicalEntry node \<Rightarrow> int \<Rightarrow> entity \<Rightarrow> entity" where
  "set_contained n v s =
     s\<lparr>gPhysicalTable :=
         write_node (naddr n) (\<lambda>d. d\<lparr>entPhysicalContainedIn := v\<rparr>) (gPhysicalTable s)\<rparr>"

definition adopt :: "entPhysicalEntry node \<Rightarrow> int \<Rightarrow> entity \<Rightarrow> entity" where
  "adopt child p s =
     (if entPhysicalContainedIn (ndata child) = 0 \<or> entPhysicalContainedIn (ndata child) > p
      then set_contained child p s else s)"

text \<open>The last free slot takes the new child.\<close>

fun reuse_slot :: "int \<Rightarrow> int list \<Rightarrow> int list option" where
  "reuse_slot c [] = None"
| "reuse_slot c (x # xs) =
     (case reuse_slot c xs of
        Some ys \<Rightarrow> Some (x # ys)
      | None \<Rightarrow> if x = -1 then Some (c # xs) else None)"

definition addPhysicalContainsTableEntry ::
  "snmp_env \<Rightarrow> (nat \<Rightarrow> bool) \<Rightarrow> int \<Rightarrow> int \<Rightarrow> entity \<Rightarrow> (int \<times> entity) option" where
  "addPhysicalContainsTableEntry E ok p c s =
     (if p = c then Some (-1, s)
      else if bad_index p \<or> bad_index c then Some (-1, s)
      else if getPhysicalTableStaleEntry p s \<noteq> None then Some (-2, s)
      else if getPhysicalTableStaleEntry c s \<noteq> None then Some (-2, s)
      else
        (case (getPhysicalTableEntry p s, getPhysicalTableEntry c s) of
           (Some physentry, Some childentry) \<Rightarrow>
             (case isRecursiveChild ok s c p 0 of
                None \<Rightarrow> None
              | Some (True, k) \<Rightarrow> Some (-1, s)
              | Some (False, k) \<Rightarrow>
                  (case find (\<lambda>n. cparent n = p) (gPhyContainsTableHead s) of
                     Some n \<Rightarrow>
                       (case childIndexes n of
                          None \<Rightarrow>
                            if ok k
                            then Some (0, configChanged E (adopt childentry p (set_children p (Some [c]) s)))
                            else Some (-1, s)
                        | Some cs \<Rightarrow>
                            if c \<in> set cs then Some (1, s)
                            else
                              (case reuse_slot c cs of
                                 Some ds \<Rightarrow>
                                   Some (0, configChanged E (adopt childentry p (set_children p (Some ds) s)))
                               | None \<Rightarrow>
                                   if ok k
                                   then Some (0, configChanged E
                                     (adopt childentry p (set_children p (Some (cs @ [c])) s)))
                                   else Some (-1, set_children p None s)))
                   | None \<Rightarrow>
                       if \<not> ok k then Some (-1, s)
                       else if \<not> ok (Suc k) then Some (-1, s)
                       else Some (0, configChanged E (adopt childentry p
                         (s\<lparr>gPhyContainsTableHead := gPhyContainsTableHead s @
                              [\<lparr>cparent = p, childIndexes = Some [c]\<rparr>],
                            gPhyContainsTableSize := gPhyContainsTableSize s + 1\<rparr>)))))
         | _ \<Rightarrow> Some (-1, s)))"

section \<open>Deleting\<close>

text \<open>The lowest parent a child has left in the table, zero when there is none.\<close>

fun lowest_parent :: "int \<Rightarrow> physIndexAndChildIndex list \<Rightarrow> int \<Rightarrow> int" where
  "lowest_parent c [] low = low"
| "lowest_parent c (n # ns) low =
     lowest_parent c ns
       (if c \<in> set (slots (childIndexes n)) then
          (if low = 0 then cparent n else if low > cparent n then cparent n else low)
        else low)"

definition reset_contained :: "int \<Rightarrow> int \<Rightarrow> entity \<Rightarrow> entity" where
  "reset_contained p c s =
     (case getPhysicalTableEntry c s of
        None \<Rightarrow> s
      | Some physentry \<Rightarrow>
          if entPhysicalContainedIn (ndata physentry) = p
          then set_contained physentry (lowest_parent c (gPhyContainsTableHead s) 0) s
          else s)"

definition deletePhysicalContainsTableEntry :: "snmp_env \<Rightarrow> int \<Rightarrow> int \<Rightarrow> entity \<Rightarrow> int \<times> entity" where
  "deletePhysicalContainsTableEntry E p c s =
     (if bad_index p \<or> bad_index c then (-1, s)
      else if getPhysicalTableStaleEntry p s \<noteq> None then (-2, s)
      else if getPhysicalTableStaleEntry c s \<noteq> None then (-2, s)
      else
        (case find (\<lambda>n. cparent n = p) (gPhyContainsTableHead s) of
           None \<Rightarrow> (-1, s)
         | Some n \<Rightarrow>
             if c \<in> set (slots (childIndexes n)) then
               (0, configChanged E (reset_contained p c (set_children p
                     (map_option (map (\<lambda>x. if x = c then -1 else x)) (childIndexes n)) s)))
             else (-1, s)))"

text \<open>Its result, an error code, is ignored by the caller.\<close>

definition FreePhyContainsTableEntry :: "physIndexAndChildIndex option \<Rightarrow> int" where
  "FreePhyContainsTableEntry e = (case e of None \<Rightarrow> -1 | Some n \<Rightarrow> 0)"

definition deletePhysicalContainsParentIndex ::
  "snmp_env \<Rightarrow> (nat \<Rightarrow> bool) \<Rightarrow> int \<Rightarrow> entity \<Rightarrow> int \<times> entity" where
  "deletePhysicalContainsParentIndex E ok p s =
     (if bad_index p then (-1, s)
      else if getPhysicalTableStaleEntry p s \<noteq> None then (-2, s)
      else
        (case find (\<lambda>n. cparent n = p) (gPhyContainsTableHead s) of
           None \<Rightarrow> (-1, s)
         | Some n \<Rightarrow>
             (let children = slots (fst (getPhysicalContainsChildren ok p 0 s));
                  s1 = s\<lparr>gPhyContainsTableHead :=
                           del_first (\<lambda>n. cparent n = p) (gPhyContainsTableHead s),
                         gPhyContainsTableSize := gPhyContainsTableSize s - 1\<rparr>
              in (int (length (filter (\<lambda>c. c > 0) children)),
                  configChanged E (fold (reset_contained p) children s1)))))"

text \<open>
  The double loop over nodes and slots: the positions are those of the table at the start,
  since the inner calls only overwrite slots.
\<close>

definition slot_positions :: "physIndexAndChildIndex list \<Rightarrow> (nat \<times> nat) list" where
  "slot_positions ns =
     concat (map (\<lambda>i. map (Pair i) [0 ..< length (slots (childIndexes (ns ! i)))]) [0 ..< length ns])"

definition slot_at :: "entity \<Rightarrow> nat \<times> nat \<Rightarrow> int" where
  "slot_at s ij = slots (childIndexes (gPhyContainsTableHead s ! fst ij)) ! snd ij"

definition child_step :: "snmp_env \<Rightarrow> int \<Rightarrow> nat \<times> nat \<Rightarrow> int \<times> entity \<Rightarrow> int \<times> entity" where
  "child_step E c ij ns =
     (case ns of (num, s) \<Rightarrow>
        if slot_at s ij = c
        then (num + 1,
              snd (deletePhysicalContainsTableEntry E (cparent (gPhyContainsTableHead s ! fst ij)) c s))
        else (num, s))"

definition deletePhysicalContainsChildIndex :: "snmp_env \<Rightarrow> int \<Rightarrow> entity \<Rightarrow> int \<times> entity" where
  "deletePhysicalContainsChildIndex E c s =
     (if bad_index c then (-1, s)
      else if getPhysicalTableStaleEntry c s \<noteq> None then (-2, s)
      else
        (case fold (child_step E c) (slot_positions (gPhyContainsTableHead s)) (0, s) of (num, s') \<Rightarrow>
           if num \<noteq> 0 then (num, configChanged E s') else (-1, s')))"

section \<open>Meaning and invariants\<close>

definition cont_rel :: "entity \<Rightarrow> (int \<times> int) set" where
  "cont_rel s = {(p, c). 0 < c \<and>
     (\<exists>n \<in> set (gPhyContainsTableHead s). cparent n = p \<and> c \<in> set (slots (childIndexes n)))}"

definition child_slots :: "int list \<Rightarrow> bool" where
  "child_slots cs \<longleftrightarrow> (\<forall>c \<in> set cs. 0 < c \<or> c = -1) \<and> distinct (filter (\<lambda>c. 0 < c) cs)"

definition cont_wf :: "entity \<Rightarrow> bool" where
  "cont_wf s \<longleftrightarrow>
     distinct (map cparent (gPhyContainsTableHead s)) \<and>
     gPhyContainsTableSize s = int (length (gPhyContainsTableHead s)) \<and>
     (\<forall>n \<in> set (gPhyContainsTableHead s). 0 < cparent n \<and> child_slots (slots (childIndexes n)))"

definition cont_keys :: "entity \<Rightarrow> int set" where
  "cont_keys s = cparent ` set (gPhyContainsTableHead s)"

text \<open>The field \<^verbatim>\<open>entPhysicalContainedIn\<close> of a live entry.\<close>

definition parent_of :: "entity \<Rightarrow> int \<Rightarrow> int" where
  "parent_of s c = (case getPhysicalTableEntry c s of None \<Rightarrow> 0
                    | Some n \<Rightarrow> entPhysicalContainedIn (ndata n))"

text \<open>What the operations here leave alone.\<close>

definition cont_only :: "entity \<Rightarrow> entity \<Rightarrow> bool" where
  "cont_only s s' \<longleftrightarrow>
     phys_skel s' = phys_skel s \<and> gLogicalTable s' = gLogicalTable s \<and>
     gLPMappingTableHead s' = gLPMappingTableHead s \<and>
     gLPMappingTableSize s' = gLPMappingTableSize s \<and>
     gAliasMappingTableHead s' = gAliasMappingTableHead s \<and>
     gAliasMappingTableSize s' = gAliasMappingTableSize s"

text \<open>The rows of the table, enumerated.\<close>

lemma cont_rel_code [code]:
  "cont_rel s = set (concat (map (\<lambda>n. map (Pair (cparent n))
     (filter (\<lambda>c. 0 < c) (slots (childIndexes n)))) (gPhyContainsTableHead s)))"
  by (auto simp: cont_rel_def)

text \<open>Both relations the cycle check follows.\<close>

definition links :: "entity \<Rightarrow> (int \<times> int) set" where
  "links s = cont_rel s \<union>
     {(p, x). \<exists>n \<in> set (thead (gPhysicalTable s)). entPhysicalContainedIn (ndata n) = p \<and>
                 \<not> bad_index p \<and> nidx n = x}"

section \<open>Lemmas: the cycle check\<close>

lemma allocs_all: "\<forall>k. ok k \<Longrightarrow> allocs ok k n = (True, k + n)"
  by (induction n arbitrary: k) auto

lemma contains_children_rel:
  "x \<in> set (slots (fst (getPhysicalContainsChildren ok p k s))) \<Longrightarrow> (p, x) \<in> cont_rel s"
  by (auto simp: getPhysicalContainsChildren_def cont_rel_def Let_def
      split: option.splits prod.splits bool.splits if_splits dest!: find_Some_in)

lemma contains_children_all:
  assumes "\<forall>k. ok k" "cont_wf s" "getPhysicalTableEntry p s \<noteq> None" "(p, x) \<in> cont_rel s"
  shows "x \<in> set (slots (fst (getPhysicalContainsChildren ok p k s)))"
proof -
  note a = allocs_all [OF assms(1)]
  obtain n where n: "n \<in> set (gPhyContainsTableHead s)" "cparent n = p"
    "x \<in> set (slots (childIndexes n))" "0 < x"
    using assms(4) by (auto simp: cont_rel_def)
  have "find (\<lambda>n. cparent n = p) (gPhyContainsTableHead s) = Some n"
    using assms(2) n by (intro find_unique) (auto simp: cont_wf_def)
  moreover have "x \<in> set (filter (\<lambda>c. c > 0) (slots (childIndexes n)))" using n by simp
  moreover from this have "filter (\<lambda>c. c > 0) (slots (childIndexes n)) \<noteq> []" by (metis empty_iff empty_set)
  ultimately show ?thesis
    using assms(3) by (simp add: getPhysicalContainsChildren_def Let_def a del: allocs.simps)
qed

lemma contained_loop_in:
  "x \<in> set (slots (fst (contained_loop ok p ns cl k))) \<Longrightarrow>
   x \<in> set (slots cl) \<or> (\<exists>n \<in> set ns. entPhysicalContainedIn (ndata n) = p \<and> nidx n = x)"
proof (induction ok p ns cl k rule: contained_loop.induct)
  case (2 ok p n ns cl k)
  then show ?case by (fastforce split: if_splits option.splits dest: in_set_takeD)
qed simp

lemma contained_children_links:
  assumes "x \<in> set (slots (fst (getAllChildrenFromPhysicalContainedIn ok p k s)))"
  shows "(p, x) \<in> links s"
  using assms contained_loop_in [of x ok p "thead (gPhysicalTable s)" None k]
  by (auto simp: getAllChildrenFromPhysicalContainedIn_def links_def split: if_splits)

lemma any_child_True:
  "any_child f xs k = Some (True, k') \<Longrightarrow> \<exists>x \<in> set xs. \<exists>j j'. f x j = Some (True, j')"
proof (induction xs arbitrary: k)
  case (Cons x xs)
  from Cons.prems obtain r j where f: "f x k = Some (r, j)"
    and rest: "(if r then Some (True, j) else any_child f xs j) = Some (True, k')"
    by (auto simp: bind_eq_Some_conv)
  then show ?case using Cons.IH [of j] by (cases r) auto
qed simp

lemma any_child_False:
  "any_child f xs k = Some (False, k') \<Longrightarrow> \<forall>x \<in> set xs. \<exists>j j'. f x j = Some (False, j')"
proof (induction xs arbitrary: k)
  case (Cons x xs)
  from Cons.prems obtain r j where f: "f x k = Some (r, j)"
    and rest: "(if r then Some (True, j) else any_child f xs j) = Some (False, k')"
    by (auto simp: bind_eq_Some_conv)
  then show ?case using Cons.IH [of j] by (cases r) auto
qed simp

lemma any_child_defined:
  "(\<And>x j. x \<in> set xs \<Longrightarrow> \<exists>y. f x j = Some y) \<Longrightarrow> \<exists>y. any_child f xs k = Some y"
proof (induction xs arbitrary: k)
  case (Cons x xs)
  obtain r j where r: "f x k = Some (r, j)" using Cons.prems [of x k] by auto
  have "\<exists>y. any_child f xs j = Some y" using Cons by simp
  then obtain z where "any_child f xs j = Some z" by blast
  with r show ?case by (intro exI [of _ "if r then (True, j) else z"]) simp
qed auto

text \<open>Induction along a check that returned.\<close>

lemma isRecursiveChild_returned:
  assumes "isRecursiveChild ok s p c k = Some y"
    and refl: "P c True"
    and yes: "\<And>p x. (p, x) \<in> links s \<Longrightarrow> P x True \<Longrightarrow> P p True"
    and no: "\<And>p k k1. p \<noteq> c \<Longrightarrow>
      \<forall>x \<in> set (slots (fst (getAllChildrenFromPhysicalContainedIn ok p k s))). P x False \<Longrightarrow>
      \<forall>x \<in> set (slots (fst (getPhysicalContainsChildren ok p k1 s))). P x False \<Longrightarrow> P p False"
  shows "P p (fst y)"
proof -
  have "ok' = ok \<and> s' = s \<and> c' = c \<longrightarrow> P p' (fst y)"
    if "isRecursiveChild ok' s' p' c' k' = Some y" for ok' s' p' c' k' y
  proof (rule isRecursiveChild.raw_induct
      [OF _ that, of "\<lambda>ok' s' p' c' k' y. ok' = ok \<and> s' = s \<and> c' = c \<longrightarrow> P p' (fst y)"], goal_cases)
    case (1 f ok' s' p c' k y)
    note hyps = "1"(1) and prems = "1"(2)
    show ?case
    proof (intro impI, elim conjE)
      assume e: "ok' = ok" "s' = s" "c' = c"
      have IH: "f ok s x c j = Some z \<Longrightarrow> P x (fst z)" for x j z using hyps [of ok s x c j z] by simp
      show "P p (fst y)"
      proof (cases "p = c")
        case True
        then show ?thesis using prems e refl by auto
      next
        case False
        let ?l1 = "getAllChildrenFromPhysicalContainedIn ok p k s"
        let ?l2 = "\<lambda>k1. getPhysicalContainsChildren ok p k1 s"
        obtain r k1 where a: "any_child (\<lambda>x. f ok s x c) (slots (fst ?l1)) (snd ?l1) = Some (r, k1)"
          and b: "(if r then Some (True, k1)
                   else any_child (\<lambda>x. f ok s x c) (slots (fst (?l2 k1))) (snd (?l2 k1))) = Some y"
          using prems False e by (auto simp: bind_eq_Some_conv split: if_splits)
        consider (first) "r" | (second) k2 where "\<not> r"
            "any_child (\<lambda>x. f ok s x c) (slots (fst (?l2 k1))) (snd (?l2 k1)) = Some (True, k2)" "fst y"
          | (none) k2 where "\<not> r"
            "any_child (\<lambda>x. f ok s x c) (slots (fst (?l2 k1))) (snd (?l2 k1)) = Some (False, k2)" "\<not> fst y"
          using b by (cases r; cases y) auto
        then show ?thesis
        proof cases
          case first
          with a have "any_child (\<lambda>x. f ok s x c) (slots (fst ?l1)) (snd ?l1) = Some (True, k1)" by simp
          from any_child_True [OF this] obtain x j j' where
            x: "x \<in> set (slots (fst ?l1))" "f ok s x c j = Some (True, j')" by blast
          have "P p True" using yes [OF contained_children_links [OF x(1)]] IH [OF x(2)] by simp
          with first b show ?thesis by auto
        next
          case second
          from any_child_True [OF second(2)] obtain x j j' where
            x: "x \<in> set (slots (fst (?l2 k1)))" "f ok s x c j = Some (True, j')" by blast
          have "(p, x) \<in> links s" using contains_children_rel [OF x(1)] by (simp add: links_def)
          then have "P p True" using yes IH [OF x(2)] by simp
          with second show ?thesis by simp
        next
          case none
          from a none(1) have "any_child (\<lambda>x. f ok s x c) (slots (fst ?l1)) (snd ?l1) = Some (False, k1)"
            by simp
          from any_child_False [OF this] IH have "\<forall>x \<in> set (slots (fst ?l1)). P x False"
            by (metis fst_conv)
          moreover from any_child_False [OF none(2)] IH have "\<forall>x \<in> set (slots (fst (?l2 k1))). P x False"
            by (metis fst_conv)
          ultimately have "P p False" using no [OF False] by blast
          with none show ?thesis by simp
        qed
      qed
    qed
  qed
  from this [OF assms(1)] show ?thesis by simp
qed

text \<open>A positive answer is a chain of links; a negative one, with memory to spare, rules out
  every chain through the containment table.\<close>

lemma isRecursiveChild_sound:
  assumes "isRecursiveChild ok s p c k = Some (True, k')"
  shows "(p, c) \<in> (links s)\<^sup>*"
proof -
  have "True \<longrightarrow> (p, c) \<in> (links s)\<^sup>*"
    by (rule isRecursiveChild_returned [OF assms, of "\<lambda>p b. b \<longrightarrow> (p, c) \<in> (links s)\<^sup>*", simplified fst_conv])
      (auto intro: converse_rtrancl_into_rtrancl)
  then show ?thesis by simp
qed

lemma isRecursiveChild_complete:
  assumes "isRecursiveChild ok s p c k = Some (False, k')" "\<forall>k. ok k" "cont_wf s"
    and "\<forall>q x. (q, x) \<in> cont_rel s \<longrightarrow> getPhysicalTableEntry q s \<noteq> None"
  shows "(p, c) \<notin> (cont_rel s)\<^sup>*"
proof -
  have "\<not> False \<longrightarrow> (p, c) \<notin> (cont_rel s)\<^sup>*"
  proof (rule isRecursiveChild_returned
      [OF assms(1), of "\<lambda>p b. \<not> b \<longrightarrow> (p, c) \<notin> (cont_rel s)\<^sup>*", simplified fst_conv])
    fix p k1
    assume "p \<noteq> c" and n: "\<forall>x \<in> set (slots (fst (getPhysicalContainsChildren ok p k1 s))).
      \<not> False \<longrightarrow> (x, c) \<notin> (cont_rel s)\<^sup>*"
    have "(x, c) \<notin> (cont_rel s)\<^sup>*" if "(p, x) \<in> cont_rel s" for x
      using n contains_children_all [OF assms(2,3) _ that, of k1] assms(4) that by blast
    with \<open>p \<noteq> c\<close> show "\<not> False \<longrightarrow> (p, c) \<notin> (cont_rel s)\<^sup>*" by (meson converse_rtranclE)
  qed simp_all
  then show ?thesis by simp
qed

text \<open>Without a cycle of links the check returns.\<close>

lemma isRecursiveChild_terminates:
  assumes "wf ((links s)\<inverse>)"
  shows "\<exists>y. isRecursiveChild ok s p c k = Some y"
  using assms
proof (induction p arbitrary: k rule: wf_induct_rule)
  case (less p)
  let ?f = "\<lambda>x. isRecursiveChild ok s x c"
  have d: "\<exists>y. any_child ?f xs j = Some y" if "\<forall>x \<in> set xs. (p, x) \<in> links s" for xs j
    using that less by (intro any_child_defined) auto
  let ?l1 = "getAllChildrenFromPhysicalContainedIn ok p k s"
  obtain r k1 where a: "any_child ?f (slots (fst ?l1)) (snd ?l1) = Some (r, k1)"
    using d [of "slots (fst ?l1)" "snd ?l1"] contained_children_links by fastforce
  have "\<exists>y. any_child ?f (slots (fst (getPhysicalContainsChildren ok p k1 s)))
      (snd (getPhysicalContainsChildren ok p k1 s)) = Some y"
    using contains_children_rel by (intro d) (fastforce simp: links_def)
  with a show ?case by (subst isRecursiveChild.simps) auto
qed

text \<open>A set of entries each of which has its first contained entry in the set traps the check.\<close>

lemma isRecursiveChild_diverges:
  assumes "c \<notin> X" "p \<in> X"
    and first: "\<And>p k. p \<in> X \<Longrightarrow>
      \<exists>x xs. slots (fst (getAllChildrenFromPhysicalContainedIn ok p k s)) = x # xs \<and> x \<in> X"
  shows "isRecursiveChild ok s p c k = None"
proof (rule ccontr)
  assume "isRecursiveChild ok s p c k \<noteq> None"
  then obtain y where y: "isRecursiveChild ok s p c k = Some y" by auto
  have "ok' = ok \<and> s' = s \<and> c' = c \<longrightarrow> p' \<notin> X"
    if "isRecursiveChild ok' s' p' c' k' = Some y" for ok' s' p' c' k' y
  proof (rule isRecursiveChild.raw_induct
      [OF _ that, of "\<lambda>ok' s' p' c' k' y. ok' = ok \<and> s' = s \<and> c' = c \<longrightarrow> p' \<notin> X"], goal_cases)
    case (1 f ok' s' p c' k y)
    note hyps = "1"(1) and prems = "1"(2)
    show ?case
    proof (intro impI notI, elim conjE)
      assume e: "ok' = ok" "s' = s" "c' = c" and "p \<in> X"
      with first [of p k] obtain x xs where
        x: "slots (fst (getAllChildrenFromPhysicalContainedIn ok p k s)) = x # xs" "x \<in> X" by blast
      with prems e \<open>p \<in> X\<close> assms(1) have "\<exists>j z. f ok s x c j = Some z"
        by (auto simp: bind_eq_Some_conv split: if_splits)
      with hyps x show False by blast
    qed
  qed
  from this [OF y] assms(2) show False by simp
qed

section \<open>Lemmas: slots and nodes\<close>

lemma slots_map_option [simp]: "slots (map_option (map f) a) = map f (slots a)"
  by (cases a) simp_all

lemma reuse_slot_Some:
  "reuse_slot c cs = Some ds \<Longrightarrow> \<exists>us vs. cs = us @ (-1) # vs \<and> ds = us @ c # vs"
proof (induction c cs arbitrary: ds rule: reuse_slot.induct)
  case (2 c x xs)
  show ?case
  proof (cases "reuse_slot c xs")
    case None
    with 2 show ?thesis by (auto split: if_splits intro: exI [of _ "[]"])
  next
    case (Some ys)
    with "2.IH" obtain us vs where "xs = us @ (-1) # vs" "ys = us @ c # vs" by blast
    with Some "2.prems" show ?thesis by (intro exI [of _ "x # us"] exI [of _ vs]) auto
  qed
qed simp

abbreviation pos_children :: "int list \<Rightarrow> int set" where
  "pos_children cs \<equiv> {x \<in> set cs. 0 < x}"

lemma child_slots_add:
  assumes "child_slots cs" "0 < c" "c \<notin> set cs"
  shows "child_slots (cs @ [c])" "pos_children (cs @ [c]) = insert c (pos_children cs)"
    and "reuse_slot c cs = Some ds \<Longrightarrow> child_slots ds"
    and "reuse_slot c cs = Some ds \<Longrightarrow> pos_children ds = insert c (pos_children cs)"
  using assms by (auto simp: child_slots_def dest!: reuse_slot_Some)

lemma child_slots_kill:
  assumes "child_slots cs" "0 < c"
  shows "child_slots (map (\<lambda>x. if x = c then -1 else x) cs)"
    and "pos_children (map (\<lambda>x. if x = c then -1 else x) cs) = pos_children cs - {c}"
proof -
  have "filter (\<lambda>x. 0 < x) (map (\<lambda>x. if x = c then -1 else x) cs) =
      filter (\<lambda>x. x \<noteq> c) (filter (\<lambda>x. 0 < x) cs)"
    using assms(2) by (induction cs) auto
  moreover have "distinct (filter (\<lambda>x. x \<noteq> c) (filter (\<lambda>x. 0 < x) cs))"
    by (rule distinct_filter) (use assms(1) in \<open>simp add: child_slots_def\<close>)
  ultimately show "child_slots (map (\<lambda>x. if x = c then -1 else x) cs)"
    using assms by (auto simp: child_slots_def simp del: filter_filter)
  show "pos_children (map (\<lambda>x. if x = c then -1 else x) cs) = pos_children cs - {c}" by auto
qed

lemma cont_rel_alt:
  "cont_rel s = {(p, c). \<exists>n \<in> set (gPhyContainsTableHead s). cparent n = p \<and>
                     c \<in> pos_children (slots (childIndexes n))}"
  by (auto simp: cont_rel_def)

lemma cont_keys_rel: "(p, c) \<in> cont_rel s \<Longrightarrow> p \<in> cont_keys s"
  by (auto simp: cont_rel_def cont_keys_def)

lemma cont_node:
  assumes "cont_wf s" "find (\<lambda>n. cparent n = p) (gPhyContainsTableHead s) = Some n"
  shows "child_slots (slots (childIndexes n))" "0 < p" "p \<in> cont_keys s"
    and "(p, c) \<in> cont_rel s \<longleftrightarrow> c \<in> pos_children (slots (childIndexes n))"
proof -
  have n: "n \<in> set (gPhyContainsTableHead s)" "cparent n = p" using find_Some_in [OF assms(2)] by auto
  show "child_slots (slots (childIndexes n))" "0 < p" using assms(1) n by (auto simp: cont_wf_def)
  show "p \<in> cont_keys s" using n by (auto simp: cont_keys_def)
  have "distinct (map cparent (gPhyContainsTableHead s))" using assms(1) by (simp add: cont_wf_def)
  then have "(\<exists>m \<in> set (gPhyContainsTableHead s). cparent m = p \<and> Q m) \<longleftrightarrow> Q n" for Q
    using n key_unique [of cparent] by metis
  then show "(p, c) \<in> cont_rel s \<longleftrightarrow> c \<in> pos_children (slots (childIndexes n))"
    by (simp add: cont_rel_alt)
qed

lemma cont_no_node:
  "find (\<lambda>n. cparent n = p) (gPhyContainsTableHead s) = None \<longleftrightarrow> p \<notin> cont_keys s"
  by (simp add: find_None_key cont_keys_def)

lemma set_children_effect:
  assumes w: "cont_wf s" and f: "find (\<lambda>n. cparent n = p) (gPhyContainsTableHead s) = Some n"
    and cs: "child_slots (slots cs)"
  shows "cont_wf (set_children p cs s)" "cont_keys (set_children p cs s) = cont_keys s"
    and "cont_rel (set_children p cs s) =
      {(q, x) \<in> cont_rel s. q \<noteq> p} \<union> {p} \<times> pos_children (slots cs)"
proof -
  let ?u = "upd_first (\<lambda>n. cparent n = p) (\<lambda>n. n\<lparr>childIndexes := cs\<rparr>) (gPhyContainsTableHead s)"
  have d: "distinct (map cparent (gPhyContainsTableHead s))" using w by (simp add: cont_wf_def)
  have k: "map cparent ?u = map cparent (gPhyContainsTableHead s)" by (rule map_upd_first) simp
  have "\<forall>n \<in> set ?u. 0 < cparent n \<and> child_slots (slots (childIndexes n))"
    using w cs in_upd_first [OF d] by (auto simp: cont_wf_def split: if_splits)
  with w d k show "cont_wf (set_children p cs s)" by (simp add: cont_wf_def set_children_def)
  from arg_cong [OF k, of set] show "cont_keys (set_children p cs s) = cont_keys s"
    by (simp add: cont_keys_def set_children_def)
  have n: "n \<in> set (gPhyContainsTableHead s)" "cparent n = p" using find_Some_in [OF f] by auto
  have "(q, x) \<in> cont_rel (set_children p cs s) \<longleftrightarrow>
      (if q = p then x \<in> pos_children (slots cs) else (q, x) \<in> cont_rel s)" for q x
    unfolding cont_rel_alt set_children_def using n
    by (auto simp: bex_upd_first [OF d] split: if_splits)
  then show "cont_rel (set_children p cs s) =
      {(q, x) \<in> cont_rel s. q \<noteq> p} \<union> {p} \<times> pos_children (slots cs)"
    by (auto split: if_splits)
qed

section \<open>Lemmas: the parent field\<close>

lemma set_contained_frame [simp]:
  "gPhyContainsTableHead (set_contained n v s) = gPhyContainsTableHead s"
  "gPhyContainsTableSize (set_contained n v s) = gPhyContainsTableSize s"
  "gLogicalTable (set_contained n v s) = gLogicalTable s"
  "gLPMappingTableHead (set_contained n v s) = gLPMappingTableHead s"
  "gLPMappingTableSize (set_contained n v s) = gLPMappingTableSize s"
  "gAliasMappingTableHead (set_contained n v s) = gAliasMappingTableHead s"
  "gAliasMappingTableSize (set_contained n v s) = gAliasMappingTableSize s"
  "phys_skel (set_contained n v s) = phys_skel s"
  by (simp_all add: set_contained_def)

lemma skel_tables_wf:
  "phys_skel s' = phys_skel s \<Longrightarrow> gLogicalTable s' = gLogicalTable s \<Longrightarrow> tables_wf s \<Longrightarrow> tables_wf s'"
  using skel_twf [of s s'] by (simp add: tables_wf_def)

lemma parent_of_node:
  "tables_wf s \<Longrightarrow> n \<in> set (thead (gPhysicalTable s)) \<Longrightarrow> 0 < nidx n \<Longrightarrow>
   parent_of s (nidx n) = entPhysicalContainedIn (ndata n)"
  using lookup_iff(1) [of s "nidx n" n] by (simp add: parent_of_def)

lemma parent_of_absent: "tables_wf s \<Longrightarrow> x \<notin> live_phys s \<Longrightarrow> parent_of s x = 0"
  using lookup_None(1) [of s x] by (simp add: parent_of_def)

lemma parent_of_set_contained:
  assumes t: "tables_wf s" and n: "getPhysicalTableEntry c s = Some n"
  shows "parent_of (set_contained n v s) = (parent_of s)(c := v)"
proof
  fix x
  let ?s = "set_contained n v s"
  have t': "tables_wf ?s" using t by (intro skel_tables_wf [of ?s s]) simp_all
  have live: "live_phys ?s = live_phys s" using skel_sets(1) [of ?s s] by simp
  have c: "n \<in> set (thead (gPhysicalTable s))" "nidx n = c" "0 < c"
    using n lookup_iff(1) [OF t] by auto
  have a: "distinct (map naddr (thead (gPhysicalTable s)))" using t by (simp add: tables_wf_def twf_def)
  show "parent_of ?s x = ((parent_of s)(c := v)) x"
  proof (cases "x \<in> live_phys s")
    case False
    moreover have "c \<in> live_phys s" using c by (auto simp: live_set_def)
    ultimately show ?thesis using parent_of_absent [OF t'] parent_of_absent [OF t] live by auto
  next
    case True
    then obtain m where m: "m \<in> set (thead (gPhysicalTable s))" "nidx m = x" "0 < x"
      by (auto simp: live_set_def)
    let ?m = "if naddr m = naddr n then m\<lparr>ndata := (ndata m)\<lparr>entPhysicalContainedIn := v\<rparr>\<rparr> else m"
    have "?m \<in> set (thead (gPhysicalTable ?s))" using m(1) by (auto simp: set_contained_def write_node_def)
    moreover have "naddr m = naddr n \<longleftrightarrow> x = c"
      using key_unique [OF a m(1) c(1)] m c t twf_inj [of "gPhysicalTable s" m n]
      by (auto simp: tables_wf_def)
    ultimately show ?thesis
      using parent_of_node [OF t', of ?m] parent_of_node [OF t m(1)] m by (auto split: if_splits)
  qed
qed

lemma cont_frame_contained [simp]:
  "cont_rel (set_contained n v s) = cont_rel s" "cont_wf (set_contained n v s) = cont_wf s"
  "cont_keys (set_contained n v s) = cont_keys s"
  by (simp_all add: cont_rel_def cont_wf_def cont_keys_def)

lemma cont_frame_changed [simp]:
  "cont_rel (configChanged E s) = cont_rel s" "cont_wf (configChanged E s) = cont_wf s"
  "cont_keys (configChanged E s) = cont_keys s" "parent_of (configChanged E s) = parent_of s"
  by (simp_all add: cont_rel_def cont_wf_def cont_keys_def parent_of_def getPhysicalTableEntry_def
      fun_eq_iff)

lemma parent_of_contains [simp]:
  "parent_of (set_children p cs s) = parent_of s"
  "parent_of (s\<lparr>gPhyContainsTableHead := h, gPhyContainsTableSize := k\<rparr>) = parent_of s"
  by (simp_all add: set_children_def parent_of_def getPhysicalTableEntry_def fun_eq_iff)

lemma cont_only_refl [simp]: "cont_only s s"
  by (simp add: cont_only_def)

lemma cont_only_trans: "cont_only a b \<Longrightarrow> cont_only b c \<Longrightarrow> cont_only a c"
  by (simp add: cont_only_def)

lemma cont_only_simps [simp]:
  "cont_only s (configChanged E s') \<longleftrightarrow> cont_only s s'"
  "cont_only s (set_contained n v s') \<longleftrightarrow> cont_only s s'"
  "cont_only s (set_children p cs s') \<longleftrightarrow> cont_only s s'"
  "cont_only s (s'\<lparr>gPhyContainsTableHead := h, gPhyContainsTableSize := k\<rparr>) \<longleftrightarrow> cont_only s s'"
  by (simp_all add: cont_only_def set_children_def)

lemma cont_only_wf: "cont_only s s' \<Longrightarrow> tables_wf s \<Longrightarrow> tables_wf s'"
  using skel_tables_wf by (simp add: cont_only_def)

lemma cont_only_sets:
  "cont_only s s' \<Longrightarrow> live_phys s' = live_phys s" "cont_only s s' \<Longrightarrow> stale_phys s' = stale_phys s"
  "cont_only s s' \<Longrightarrow> live_logi s' = live_logi s" "cont_only s s' \<Longrightarrow> stale_logi s' = stale_logi s"
  using skel_sets [of s' s] by (simp_all add: cont_only_def)

section \<open>Adding a pair: the outcomes\<close>

definition cont_added :: "int \<Rightarrow> int \<Rightarrow> entity \<Rightarrow> entity \<Rightarrow> bool" where
  "cont_added p c s s' \<longleftrightarrow>
     cont_wf s' \<and> cont_only s s' \<and> (p, c) \<notin> cont_rel s \<and>
     cont_rel s' = insert (p, c) (cont_rel s) \<and> cont_keys s' = insert p (cont_keys s) \<and>
     parent_of s' = (parent_of s)(c := if parent_of s c = 0 \<or> p < parent_of s c then p
                                       else parent_of s c)"

text \<open>A failed \<^verbatim>\<open>realloc\<close> has replaced the array of the parent by a null pointer.\<close>

definition cont_dropped :: "int \<Rightarrow> entity \<Rightarrow> entity \<Rightarrow> bool" where
  "cont_dropped p s s' \<longleftrightarrow>
     cont_wf s' \<and> cont_only s s' \<and> cont_rel s' = {(q, x) \<in> cont_rel s. q \<noteq> p} \<and>
     cont_keys s' = cont_keys s \<and> parent_of s' = parent_of s"

lemma adopt_added:
  assumes t: "tables_wf s" and o: "cont_only s s1" "parent_of s1 = parent_of s"
    and c: "getPhysicalTableEntry c s = Some n" "getPhysicalTableEntry c s1 = Some n"
    and r: "(p, c) \<notin> cont_rel s" "cont_wf s1" "cont_rel s1 = insert (p, c) (cont_rel s)"
      "cont_keys s1 = insert p (cont_keys s)"
  shows "cont_added p c s (configChanged E (adopt n p s1))"
proof -
  have "parent_of s c = entPhysicalContainedIn (ndata n)" using c(1) by (simp add: parent_of_def)
  moreover have "tables_wf s1" using t o(1) by (rule cont_only_wf [rotated])
  ultimately show ?thesis
    using o r parent_of_set_contained [OF _ c(2)] by (auto simp: cont_added_def adopt_def)
qed

lemma addContains_node:
  assumes t: "tables_wf s" and w: "cont_wf s" and c: "getPhysicalTableEntry c s = Some e"
    and f: "find (\<lambda>n. cparent n = p) (gPhyContainsTableHead s) = Some n"
    and cs: "child_slots cs" "pos_children cs = insert c (pos_children (slots (childIndexes n)))"
    and new: "c \<notin> set (slots (childIndexes n))"
  shows "cont_added p c s (configChanged E (adopt e p (set_children p (Some cs) s)))"
proof -
  let ?s = "set_children p (Some cs) s"
  note node = cont_node [OF w f] and eff = set_children_effect [OF w f, of "Some cs"]
  have "{(q, x) \<in> cont_rel s. q \<noteq> p} \<union> {p} \<times> pos_children cs = insert (p, c) (cont_rel s)"
    using cs(2) node(4) by auto
  moreover have "(p, c) \<notin> cont_rel s" using node(4) new by simp
  moreover have "getPhysicalTableEntry c ?s = Some e"
    using c by (simp add: set_children_def getPhysicalTableEntry_def)
  ultimately show ?thesis
    using eff cs(1) node(3) by (intro adopt_added [OF t _ _ c]) (auto simp: insert_absorb)
qed

lemma addContains_new:
  assumes t: "tables_wf s" and w: "cont_wf s" and c: "getPhysicalTableEntry c s = Some e"
    and p: "0 < p" "0 < c" "find (\<lambda>n. cparent n = p) (gPhyContainsTableHead s) = None"
  shows "cont_added p c s (configChanged E (adopt e p
    (s\<lparr>gPhyContainsTableHead := gPhyContainsTableHead s @ [\<lparr>cparent = p, childIndexes = Some [c]\<rparr>],
       gPhyContainsTableSize := gPhyContainsTableSize s + 1\<rparr>)))"
proof (rule adopt_added [OF t _ _ c])
  let ?s = "s\<lparr>gPhyContainsTableHead := gPhyContainsTableHead s @ [\<lparr>cparent = p, childIndexes = Some [c]\<rparr>],
       gPhyContainsTableSize := gPhyContainsTableSize s + 1\<rparr>"
  show "cont_only s ?s" "parent_of ?s = parent_of s" by simp_all
  show "getPhysicalTableEntry c ?s = Some e" using c by (simp add: getPhysicalTableEntry_def)
  show "(p, c) \<notin> cont_rel s" using p(3) cont_keys_rel by (auto simp: cont_no_node)
  show "cont_wf ?s" using w p by (auto simp: cont_wf_def find_None_key child_slots_def)
  show "cont_rel ?s = insert (p, c) (cont_rel s)" using p by (auto simp: cont_rel_def)
  show "cont_keys ?s = insert p (cont_keys s)" by (auto simp: cont_keys_def)
qed

lemma addContains_guards:
  assumes t: "tables_wf s" and r: "addPhysicalContainsTableEntry E ok p c s = Some (r, s')"
    and ne: "\<not> (r < 0 \<and> s' = s)"
  obtains pe ce k where "p \<noteq> c" "\<not> bad_index p" "\<not> bad_index c" "p \<in> live_phys s" "c \<in> live_phys s"
    "getPhysicalTableEntry p s = Some pe" "getPhysicalTableEntry c s = Some ce"
    "getPhysicalTableStaleEntry p s = None" "getPhysicalTableStaleEntry c s = None"
    "isRecursiveChild ok s c p 0 = Some (False, k)"
proof -
  have *: "p \<noteq> c" "\<not> bad_index p" "\<not> bad_index c" "getPhysicalTableStaleEntry p s = None"
    "getPhysicalTableStaleEntry c s = None"
    "\<exists>pe. getPhysicalTableEntry p s = Some pe" "\<exists>ce. getPhysicalTableEntry c s = Some ce"
    "\<exists>k. isRecursiveChild ok s c p 0 = Some (False, k)"
    using r ne unfolding addPhysicalContainsTableEntry_def
    by (auto split: if_splits option.splits bool.splits prod.splits)
  moreover from this have "p \<in> live_phys s" "c \<in> live_phys s"
    using lookup_None(1) [OF t, of p] lookup_None(1) [OF t, of c] by auto
  ultimately have "p \<in> live_phys s" "c \<in> live_phys s" by blast+
  with * that show ?thesis by blast
qed

lemma addContains_effect:
  assumes t: "tables_wf s" and w: "cont_wf s"
    and r: "addPhysicalContainsTableEntry E ok p c s = Some (r, s')"
  shows "(r < 0 \<and> s' = s) \<or> (r = 1 \<and> s' = s \<and> (p, c) \<in> cont_rel s) \<or>
    (r = 0 \<and> p \<noteq> c \<and> p \<in> live_phys s \<and> c \<in> live_phys s \<and>
       (\<exists>k. isRecursiveChild ok s c p 0 = Some (False, k)) \<and> cont_added p c s s') \<or>
    (r = -1 \<and> (\<exists>k. \<not> ok k) \<and> cont_dropped p s s')"
proof (cases "r < 0 \<and> s' = s")
  case False
  obtain pe ce k where g: "p \<noteq> c" "\<not> bad_index p" "\<not> bad_index c" "p \<in> live_phys s" "c \<in> live_phys s"
    "getPhysicalTableEntry p s = Some pe" "getPhysicalTableEntry c s = Some ce"
    "getPhysicalTableStaleEntry p s = None" "getPhysicalTableStaleEntry c s = None"
    "isRecursiveChild ok s c p 0 = Some (False, k)"
    using addContains_guards [OF t r False] by blast
  have pos: "0 < p" "0 < c" using g by simp_all
  note eq = r [unfolded addPhysicalContainsTableEntry_def g prod.case option.case bool.case]
  show ?thesis
  proof (cases "find (\<lambda>n. cparent n = p) (gPhyContainsTableHead s)")
    case None
    then show ?thesis
      using eq g False addContains_new [OF t w g(7) pos None, of E]
      by (auto split: if_splits)
  next
    case (Some n)
    note cw = cont_node [OF w Some] and use = addContains_node [OF t w g(7) Some, of _ E]
    show ?thesis
    proof (cases "childIndexes n")
      case None
      then have "cont_added p c s (configChanged E (adopt ce p (set_children p (Some [c]) s)))"
        using pos by (intro use) (auto simp: child_slots_def)
      with eq g False Some None show ?thesis by (auto split: if_splits)
    next
      case cs: (Some cs)
      show ?thesis
      proof (cases "c \<in> set cs")
        case True
        with eq g Some cs cw(4) pos show ?thesis by simp
      next
        case new: False
        note add = child_slots_add [OF cw(1) pos(2), unfolded cs slots_simps, OF new]
        show ?thesis
        proof (cases "reuse_slot c cs")
          case None
          have "cont_added p c s (configChanged E (adopt ce p (set_children p (Some (cs @ [c])) s)))"
            using add(1,2) new cs by (intro use) simp_all
          moreover have "cont_dropped p s (set_children p None s)"
            using set_children_effect [OF w Some, of None]
            by (auto simp: cont_dropped_def child_slots_def)
          ultimately show ?thesis using eq g False Some cs None new by (auto split: if_splits)
        next
          case ds: (Some ds)
          have "cont_added p c s (configChanged E (adopt ce p (set_children p (Some ds) s)))"
            using add(3,4) [OF ds] new cs by (intro use) simp_all
          then show ?thesis using eq g False Some cs ds new by (auto split: if_splits)
        qed
      qed
    qed
  qed
qed simp

section \<open>Deleting: the outcomes\<close>

definition lowest_of :: "(int \<times> int) set \<Rightarrow> int \<Rightarrow> int" where
  "lowest_of R c = (if \<exists>q. (q, c) \<in> R then Min {q. (q, c) \<in> R} else 0)"

lemma Min_insert_min:
  "finite A \<Longrightarrow> Min (insert (min a b) A) = Min (insert a (insert b A))"
  for a :: int
  by (cases "A = {}") (simp_all add: min.assoc)

abbreviation parents_in :: "int \<Rightarrow> physIndexAndChildIndex list \<Rightarrow> int set" where
  "parents_in c ns \<equiv> cparent ` {n \<in> set ns. c \<in> set (slots (childIndexes n))}"

lemma parents_in_Cons:
  "parents_in c (n # ns) =
     (if c \<in> set (slots (childIndexes n)) then insert (cparent n) (parents_in c ns) else parents_in c ns)"
  by auto

lemma lowest_parent_pos:
  assumes "\<forall>n \<in> set ns. 0 < cparent n" "0 < low"
  shows "lowest_parent c ns low = Min (insert low (parents_in c ns))"
  using assms
proof (induction c ns low rule: lowest_parent.induct)
  case (2 c n ns low)
  have fin: "finite (parents_in c ns)" by simp
  show ?case
  proof (cases "c \<in> set (slots (childIndexes n))")
    case True
    then have "lowest_parent c (n # ns) low = lowest_parent c ns (min low (cparent n))"
      using "2.prems"(2) by (simp add: min_def)
    also have "\<dots> = Min (insert (min low (cparent n)) (parents_in c ns))"
      using 2 True by (auto simp: min_def split: if_splits)
    also have "\<dots> = Min (insert low (parents_in c (n # ns)))"
      unfolding parents_in_Cons using True Min_insert_min [OF fin] by simp
    finally show ?thesis .
  next
    case False
    then show ?thesis unfolding parents_in_Cons using 2 by simp
  qed
qed simp

lemma lowest_parent_zero:
  assumes "\<forall>n \<in> set ns. 0 < cparent n"
  shows "lowest_parent c ns 0 = (if parents_in c ns = {} then 0 else Min (parents_in c ns))"
  using assms
proof (induction ns)
  case (Cons n ns)
  then show ?case
    unfolding parents_in_Cons
    by (cases "c \<in> set (slots (childIndexes n))") (auto simp: lowest_parent_pos split: if_splits)
qed simp

lemma lowest_parent_rel:
  assumes "cont_wf s" "0 < c"
  shows "lowest_parent c (gPhyContainsTableHead s) 0 = lowest_of (cont_rel s) c"
proof -
  have p: "{q. (q, c) \<in> cont_rel s} = parents_in c (gPhyContainsTableHead s)"
    using assms(2) by (auto simp: cont_rel_def)
  have "\<forall>n \<in> set (gPhyContainsTableHead s). 0 < cparent n" using assms(1) by (simp add: cont_wf_def)
  from lowest_parent_zero [OF this] p show ?thesis
    unfolding lowest_of_def by (metis (mono_tags, lifting) Collect_empty_eq)
qed

lemma reset_contained_frame:
  assumes t: "tables_wf s" and w: "cont_wf s" and c: "0 < c"
  shows "cont_only s (reset_contained p c s)" "cont_wf (reset_contained p c s)"
    "gPhyContainsTableHead (reset_contained p c s) = gPhyContainsTableHead s"
    "gPhyContainsTableSize (reset_contained p c s) = gPhyContainsTableSize s"
    and "parent_of (reset_contained p c s) =
      (if c \<in> live_phys s \<and> parent_of s c = p
       then (parent_of s)(c := lowest_of (cont_rel s) c) else parent_of s)"
proof -
  show "cont_only s (reset_contained p c s)" "cont_wf (reset_contained p c s)"
    "gPhyContainsTableHead (reset_contained p c s) = gPhyContainsTableHead s"
    "gPhyContainsTableSize (reset_contained p c s) = gPhyContainsTableSize s"
    using w by (auto simp: reset_contained_def split: option.splits)
  show "parent_of (reset_contained p c s) =
      (if c \<in> live_phys s \<and> parent_of s c = p
       then (parent_of s)(c := lowest_of (cont_rel s) c) else parent_of s)"
  proof (cases "getPhysicalTableEntry c s")
    case None
    then show ?thesis using lookup_None(1) [OF t, of c] by (simp add: reset_contained_def)
  next
    case (Some n)
    then have "c \<in> live_phys s" "parent_of s c = entPhysicalContainedIn (ndata n)"
      using lookup_None(1) [OF t, of c] by (auto simp: parent_of_def)
    then show ?thesis
      using Some parent_of_set_contained [OF t Some] lowest_parent_rel [OF w c]
      by (auto simp: reset_contained_def)
  qed
qed

text \<open>The outcome of deleting one pair: the table loses it, and the child's field moves to
  the lowest parent that is left when it named the parent that went.\<close>

definition cont_deleted :: "int \<Rightarrow> int \<Rightarrow> entity \<Rightarrow> entity \<Rightarrow> bool" where
  "cont_deleted p c s s' \<longleftrightarrow>
     cont_wf s' \<and> cont_only s s' \<and> cont_keys s' = cont_keys s \<and> (p, c) \<in> cont_rel s \<and>
     cont_rel s' = cont_rel s - {(p, c)} \<and>
     parent_of s' = (if c \<in> live_phys s \<and> parent_of s c = p
                     then (parent_of s)(c := lowest_of (cont_rel s') c) else parent_of s) \<and>
     gPhyContainsTableHead s' =
       map (\<lambda>n. if cparent n = p
                then n\<lparr>childIndexes := map_option (map (\<lambda>x. if x = c then -1 else x)) (childIndexes n)\<rparr>
                else n) (gPhyContainsTableHead s)"

lemma deleteContains_effect:
  assumes t: "tables_wf s" and w: "cont_wf s"
    and r: "deletePhysicalContainsTableEntry E p c s = (r, s')"
  shows "(r < 0 \<and> s' = s \<and>
      (\<not> bad_index p \<and> \<not> bad_index c \<and> p \<notin> stale_phys s \<and> c \<notin> stale_phys s \<longrightarrow> (p, c) \<notin> cont_rel s)) \<or>
    (r = 0 \<and> cont_deleted p c s s')"
proof (cases "bad_index p \<or> bad_index c \<or> getPhysicalTableStaleEntry p s \<noteq> None \<or>
    getPhysicalTableStaleEntry c s \<noteq> None")
  case True
  with r lookup_None(2) [OF t] show ?thesis
    by (auto simp: deletePhysicalContainsTableEntry_def split: if_splits)
next
  case False
  then have pos: "0 < p" "0 < c" by simp_all
  show ?thesis
  proof (cases "find (\<lambda>n. cparent n = p) (gPhyContainsTableHead s)")
    case None
    then have "(p, c) \<notin> cont_rel s" using cont_no_node cont_keys_rel by blast
    with None False r show ?thesis by (auto simp: deletePhysicalContainsTableEntry_def)
  next
    case (Some n)
    note node = cont_node [OF w Some]
    show ?thesis
    proof (cases "c \<in> set (slots (childIndexes n))")
      case no: False
      with Some False r node(4) show ?thesis by (auto simp: deletePhysicalContainsTableEntry_def)
    next
      case yes: True
      let ?cs = "map_option (map (\<lambda>x. if x = c then -1 else x)) (childIndexes n)"
      let ?s = "set_children p ?cs s"
      note kill = child_slots_kill [OF node(1) pos(2)]
      have eff: "cont_wf ?s" "cont_keys ?s = cont_keys s" "cont_rel ?s = cont_rel s - {(p, c)}"
        using set_children_effect [OF w Some, of ?cs] kill node(4) by auto
      have t1: "tables_wf ?s" using t by (intro cont_only_wf [of s ?s]) simp_all
      have "live_phys ?s = live_phys s" by (simp add: set_children_def)
      note fr = reset_contained_frame [OF t1 eff(1) pos(2), of p, unfolded this]
      have d: "distinct (map cparent (gPhyContainsTableHead s))" using w by (simp add: cont_wf_def)
      have "gPhyContainsTableHead ?s =
          map (\<lambda>m. if cparent m = p then m\<lparr>childIndexes := ?cs\<rparr> else m) (gPhyContainsTableHead s)"
        by (simp add: set_children_def upd_first_key [OF d])
      also have "\<dots> = map (\<lambda>m. if cparent m = p
          then m\<lparr>childIndexes := map_option (map (\<lambda>x. if x = c then -1 else x)) (childIndexes m)\<rparr>
          else m) (gPhyContainsTableHead s)"
        using find_Some_in [OF Some] key_unique [OF d] by (intro map_cong) auto
      finally have h: "gPhyContainsTableHead ?s = \<dots>" .
      have "cont_rel (reset_contained p c ?s) = cont_rel ?s" "cont_keys (reset_contained p c ?s) = cont_keys ?s"
        using fr(3) by (simp_all add: cont_rel_def cont_keys_def)
      then have "cont_deleted p c s (configChanged E (reset_contained p c ?s))"
        using eff fr h yes node(4) pos cont_only_trans [of s ?s]
        by (auto simp: cont_deleted_def)
      moreover have "(r, s') = (0, configChanged E (reset_contained p c ?s))"
        using False yes Some r by (auto simp: deletePhysicalContainsTableEntry_def)
      ultimately show ?thesis by simp
    qed
  qed
qed

text \<open>Deleting a parent.\<close>

lemma fold_reset_contained:
  assumes "tables_wf s" "cont_wf s" "\<forall>x \<in> set xs. 0 < x" "distinct xs"
  shows "cont_only s (fold (reset_contained p) xs s) \<and> cont_wf (fold (reset_contained p) xs s) \<and>
    gPhyContainsTableHead (fold (reset_contained p) xs s) = gPhyContainsTableHead s \<and>
    (\<forall>x. parent_of (fold (reset_contained p) xs s) x =
      (if x \<in> set xs \<and> x \<in> live_phys s \<and> parent_of s x = p
       then lowest_of (cont_rel s) x else parent_of s x))"
  using assms
proof (induction xs arbitrary: s)
  case (Cons y ys)
  let ?s = "reset_contained p y s"
  note fr = reset_contained_frame [OF Cons.prems(1,2), of y p]
  have y: "0 < y" using Cons.prems by simp
  have t: "tables_wf ?s" using fr(1) [OF y] Cons.prems(1) by (rule cont_only_wf)
  have IH: "cont_only ?s (fold (reset_contained p) ys ?s) \<and> cont_wf (fold (reset_contained p) ys ?s) \<and>
    gPhyContainsTableHead (fold (reset_contained p) ys ?s) = gPhyContainsTableHead ?s \<and>
    (\<forall>x. parent_of (fold (reset_contained p) ys ?s) x =
      (if x \<in> set ys \<and> x \<in> live_phys ?s \<and> parent_of ?s x = p
       then lowest_of (cont_rel ?s) x else parent_of ?s x))"
    using Cons.prems fr y t by (intro Cons.IH) auto
  have l: "live_phys ?s = live_phys s" using fr(1) [OF y] by (rule cont_only_sets)
  have c: "cont_rel ?s = cont_rel s" using fr(3) [OF y] by (simp add: cont_rel_def)
  have "parent_of (fold (reset_contained p) ys ?s) x =
      (if x \<in> set (y # ys) \<and> x \<in> live_phys s \<and> parent_of s x = p
       then lowest_of (cont_rel s) x else parent_of s x)" for x
    using IH Cons.prems(4) unfolding l c fr(5) [OF y] by auto
  moreover have "cont_only s (fold (reset_contained p) ys ?s)"
    using cont_only_trans [OF fr(1) [OF y]] IH by blast
  ultimately show ?case using IH fr(3) [OF y] by simp
qed simp

definition parent_deleted :: "(nat \<Rightarrow> bool) \<Rightarrow> int \<Rightarrow> entity \<Rightarrow> entity \<Rightarrow> bool" where
  "parent_deleted ok p s s' \<longleftrightarrow>
     cont_wf s' \<and> cont_only s s' \<and> cont_keys s' = cont_keys s - {p} \<and>
     cont_rel s' = {(q, x) \<in> cont_rel s. q \<noteq> p} \<and>
     (\<forall>x. parent_of s' x =
        (if x \<in> set (slots (fst (getPhysicalContainsChildren ok p 0 s))) \<and> x \<in> live_phys s \<and> parent_of s x = p
         then lowest_of (cont_rel s') x else parent_of s x))"

lemma contains_children_distinct:
  "cont_wf s \<Longrightarrow> distinct (slots (fst (getPhysicalContainsChildren ok p k s)))"
  by (auto simp: getPhysicalContainsChildren_def Let_def cont_wf_def child_slots_def
      split: option.splits prod.splits bool.splits dest!: find_Some_in)

lemma contains_children_keys:
  "p \<notin> cont_keys s \<Longrightarrow> fst (getPhysicalContainsChildren ok p k s) = None"
  using cont_no_node [of p s] by (simp add: getPhysicalContainsChildren_def)

lemma deleteParent_effect:
  assumes t: "tables_wf s" and w: "cont_wf s" and p: "p \<in> live_phys s"
    and r: "deletePhysicalContainsParentIndex E ok p s = (r, s')"
  shows "parent_deleted ok p s s' \<and>
    r = (if p \<in> cont_keys s then int (length (slots (fst (getPhysicalContainsChildren ok p 0 s)))) else -1)"
proof -
  have g: "\<not> bad_index p" "getPhysicalTableStaleEntry p s = None"
    using p live_bounds [OF t] live_not_stale [OF t] by (auto simp: lookup_None [OF t])
  show ?thesis
  proof (cases "find (\<lambda>n. cparent n = p) (gPhyContainsTableHead s)")
    case None
    then have "p \<notin> cont_keys s" by (simp add: cont_no_node)
    moreover from this have "cont_rel s = {(q, x) \<in> cont_rel s. q \<noteq> p}" using cont_keys_rel by blast
    ultimately show ?thesis
      using None g r w by (auto simp: deletePhysicalContainsParentIndex_def parent_deleted_def
          contains_children_keys)
  next
    case (Some n)
    let ?cs = "slots (fst (getPhysicalContainsChildren ok p 0 s))"
    let ?h = "filter (\<lambda>n. cparent n \<noteq> p) (gPhyContainsTableHead s)"
    let ?s = "s\<lparr>gPhyContainsTableHead := ?h, gPhyContainsTableSize := gPhyContainsTableSize s - 1\<rparr>"
    have d: "distinct (map cparent (gPhyContainsTableHead s))" using w by (simp add: cont_wf_def)
    have pos: "\<forall>x \<in> set ?cs. 0 < x" using contains_children_rel by (fastforce simp: cont_rel_def)
    then have len: "filter (\<lambda>c. c > 0) ?cs = ?cs" by (simp add: filter_id_conv)
    have res: "r = int (length ?cs)" "s' = configChanged E (fold (reset_contained p) ?cs ?s)"
      using g Some r
      by (simp_all add: deletePhysicalContainsParentIndex_def Let_def del_first_key [OF d] len)
    have "length (gPhyContainsTableHead s) = Suc (length ?h)"
      using del_first_length [OF Some] by (simp add: del_first_key [OF d])
    then have w1: "cont_wf ?s" using w d by (auto simp: cont_wf_def distinct_map_filter)
    have o1: "cont_only s ?s" "live_phys ?s = live_phys s" by simp_all
    have t1: "tables_wf ?s" using o1(1) t by (rule cont_only_wf)
    have rel: "cont_rel ?s = {(q, x) \<in> cont_rel s. q \<noteq> p}" "cont_keys ?s = cont_keys s - {p}"
      by (auto simp: cont_rel_def cont_keys_def)
    note F = fold_reset_contained [OF t1 w1 pos contains_children_distinct [OF w], of p]
    have "cont_rel s' = cont_rel ?s" "cont_keys s' = cont_keys ?s"
      using F unfolding res(2) by (simp_all add: cont_rel_def cont_keys_def)
    then have "parent_deleted ok p s s'"
      unfolding parent_deleted_def using F rel cont_only_trans [OF o1(1)] o1(2)
      unfolding res(2) by simp
    then show ?thesis using res cont_node(3) [OF w Some] by simp
  qed
qed

lemma deleteParent_refused:
  assumes "\<not> (\<not> bad_index p \<and> getPhysicalTableStaleEntry p s = None)"
  shows "\<exists>r < 0. deletePhysicalContainsParentIndex E ok p s = (r, s)"
  using assms by (auto simp: deletePhysicalContainsParentIndex_def)

lemma deleteParent_no_node:
  assumes "p \<notin> cont_keys s"
  shows "\<exists>r < 0. deletePhysicalContainsParentIndex E ok p s = (r, s)"
  using assms cont_no_node [of p s] by (auto simp: deletePhysicalContainsParentIndex_def)

text \<open>
  Deleting a child: each visit of the double loop keeps the shape of the table and the
  pairs of the other children, and a visited slot no longer holds the child.
\<close>

definition child_kept :: "int \<Rightarrow> entity \<Rightarrow> entity \<Rightarrow> bool" where
  "child_kept c s s' \<longleftrightarrow>
     cont_wf s' \<and> cont_only s s' \<and>
     map cparent (gPhyContainsTableHead s') = map cparent (gPhyContainsTableHead s) \<and>
     map (\<lambda>n. length (slots (childIndexes n))) (gPhyContainsTableHead s') =
       map (\<lambda>n. length (slots (childIndexes n))) (gPhyContainsTableHead s) \<and>
     cont_rel s' \<subseteq> cont_rel s \<and> {(q, x) \<in> cont_rel s. x \<noteq> c} \<subseteq> cont_rel s' \<and>
     (\<forall>x. x \<noteq> c \<longrightarrow> parent_of s' x = parent_of s x) \<and>
     (\<forall>ij \<in> set (slot_positions (gPhyContainsTableHead s)). slot_at s ij \<noteq> c \<longrightarrow> slot_at s' ij \<noteq> c)"

lemma in_slot_positions:
  "(i, j) \<in> set (slot_positions ns) \<longleftrightarrow> i < length ns \<and> j < length (slots (childIndexes (ns ! i)))"
  by (force simp: slot_positions_def)

lemma slot_positions_cong:
  assumes "map (\<lambda>n. length (slots (childIndexes n))) ns = map (\<lambda>n. length (slots (childIndexes n))) ms"
  shows "set (slot_positions ns) = set (slot_positions ms)"
proof -
  have l: "length ns = length ms" using assms by (metis length_map)
  then have "length (slots (childIndexes (ns ! i))) = length (slots (childIndexes (ms ! i)))"
    if "i < length ns" for i
    using that assms by (metis (no_types, lifting) nth_map)
  with l show ?thesis by (auto simp: in_slot_positions)
qed

lemma child_kept_refl: "cont_wf s \<Longrightarrow> child_kept c s s"
  by (auto simp: child_kept_def)

lemma child_kept_trans:
  assumes "child_kept c s1 s2" "child_kept c s2 s3"
  shows "child_kept c s1 s3"
proof -
  have "set (slot_positions (gPhyContainsTableHead s2)) = set (slot_positions (gPhyContainsTableHead s1))"
    using assms(1) by (intro slot_positions_cong) (simp add: child_kept_def)
  with assms show ?thesis unfolding child_kept_def
    by (auto dest: cont_only_trans)
qed

lemma cont_deleted_kept:
  assumes w: "cont_wf s" and d: "cont_deleted p c s s'" and c: "0 < c"
  shows "child_kept c s s'"
    and "i < length (gPhyContainsTableHead s) \<Longrightarrow> cparent (gPhyContainsTableHead s ! i) = p \<Longrightarrow>
      j < length (slots (childIndexes (gPhyContainsTableHead s ! i))) \<Longrightarrow> slot_at s' (i, j) \<noteq> c"
proof -
  let ?f = "\<lambda>n. if cparent n = p
      then n\<lparr>childIndexes := map_option (map (\<lambda>x. if x = c then -1 else x)) (childIndexes n)\<rparr> else n"
  have h: "gPhyContainsTableHead s' = map ?f (gPhyContainsTableHead s)"
    using d by (simp add: cont_deleted_def)
  have at: "slot_at s' (i, j) = (if cparent (gPhyContainsTableHead s ! i) = p \<and> slot_at s (i, j) = c
      then -1 else slot_at s (i, j))"
    if "i < length (gPhyContainsTableHead s)"
      "j < length (slots (childIndexes (gPhyContainsTableHead s ! i)))" for i j
    using that by (auto simp: slot_at_def h)
  have "map cparent (gPhyContainsTableHead s') = map cparent (gPhyContainsTableHead s)"
    "map (\<lambda>n. length (slots (childIndexes n))) (gPhyContainsTableHead s') =
       map (\<lambda>n. length (slots (childIndexes n))) (gPhyContainsTableHead s)"
    unfolding h by (auto intro!: map_cong simp: comp_def)
  moreover have "slot_at s' (i, j) \<noteq> c"
    if "(i, j) \<in> set (slot_positions (gPhyContainsTableHead s))" "slot_at s (i, j) \<noteq> c" for i j
    using that at [of i j] c by (auto simp: in_slot_positions)
  ultimately show "child_kept c s s'" using d unfolding child_kept_def cont_deleted_def by auto
  show "i < length (gPhyContainsTableHead s) \<Longrightarrow> cparent (gPhyContainsTableHead s ! i) = p \<Longrightarrow>
      j < length (slots (childIndexes (gPhyContainsTableHead s ! i))) \<Longrightarrow> slot_at s' (i, j) \<noteq> c"
    using at [of i j] c by auto
qed

lemma child_kept_keys: "child_kept c s s' \<Longrightarrow> cont_keys s' = cont_keys s"
  unfolding child_kept_def cont_keys_def by (metis set_map)

lemma child_kept_positions:
  "child_kept c s s' \<Longrightarrow> set (slot_positions (gPhyContainsTableHead s')) =
     set (slot_positions (gPhyContainsTableHead s))"
  by (rule slot_positions_cong) (simp add: child_kept_def)

lemma child_step_kept:
  assumes t: "tables_wf s" and w: "cont_wf s" and c: "\<not> bad_index c" "c \<notin> stale_phys s"
    and ps: "\<forall>q \<in> cont_keys s. \<not> bad_index q \<and> q \<notin> stale_phys s"
    and ij: "ij \<in> set (slot_positions (gPhyContainsTableHead s))"
    and st: "child_step E c ij (num, s) = (num', s')"
  shows "child_kept c s s' \<and> slot_at s' ij \<noteq> c \<and>
    (if slot_at s ij = c then num' = num + 1 else num' = num \<and> s' = s)"
proof (cases "slot_at s ij = c")
  case False
  with st w show ?thesis by (auto simp: child_step_def child_kept_refl)
next
  case True
  obtain i j where e: "ij = (i, j)" by fastforce
  let ?n = "gPhyContainsTableHead s ! i"
  have i: "i < length (gPhyContainsTableHead s)" "j < length (slots (childIndexes ?n))"
    using ij e by (auto simp: in_slot_positions)
  have n: "?n \<in> set (gPhyContainsTableHead s)" using i(1) by simp
  have "c \<in> set (slots (childIndexes ?n))" using True i(2) e by (auto simp: slot_at_def)
  with n c have rel: "(cparent ?n, c) \<in> cont_rel s" by (auto simp: cont_rel_def)
  have "s' = snd (deletePhysicalContainsTableEntry E (cparent ?n) c s)" "num' = num + 1"
    using st True e by (simp_all add: child_step_def)
  moreover have "cont_deleted (cparent ?n) c s (snd (deletePhysicalContainsTableEntry E (cparent ?n) c s))"
    using deleteContains_effect [OF t w prod.collapse [symmetric], of E "cparent ?n" c] rel c ps
      cont_keys_rel [OF rel] by blast
  ultimately show ?thesis using cont_deleted_kept [OF w, of "cparent ?n" c s'] i e c True by auto
qed

lemma fold_child_step:
  assumes "tables_wf s" "cont_wf s" "\<not> bad_index c" "c \<notin> stale_phys s"
    and "\<forall>q \<in> cont_keys s. \<not> bad_index q \<and> q \<notin> stale_phys s"
    and "set ijs \<subseteq> set (slot_positions (gPhyContainsTableHead s))"
    and "fold (child_step E c) ijs (num, s) = (num', s')"
  shows "child_kept c s s' \<and> (\<forall>ij \<in> set ijs. slot_at s' ij \<noteq> c) \<and> num \<le> num' \<and>
    (num' = num \<longleftrightarrow> (\<forall>ij \<in> set ijs. slot_at s ij \<noteq> c))"
  using assms
proof (induction ijs arbitrary: num s)
  case Nil
  then show ?case by (auto simp: child_kept_refl)
next
  case (Cons ij ijs)
  obtain num1 s1 where st: "child_step E c ij (num, s) = (num1, s1)" by fastforce
  note K = child_step_kept [OF Cons.prems(1-5) _ st]
  have k: "child_kept c s s1" using K Cons.prems(6) by simp
  then have o: "cont_only s s1" "cont_wf s1" by (simp_all add: child_kept_def)
  have "child_kept c s1 s' \<and> (\<forall>ij \<in> set ijs. slot_at s' ij \<noteq> c) \<and> num1 \<le> num' \<and>
    (num' = num1 \<longleftrightarrow> (\<forall>ij \<in> set ijs. slot_at s1 ij \<noteq> c))"
  proof (rule Cons.IH [OF _ o(2)])
    show "tables_wf s1" using o(1) Cons.prems(1) by (rule cont_only_wf)
    show "fold (child_step E c) ijs (num1, s1) = (num', s')" using Cons.prems(7) st by simp
    show "set ijs \<subseteq> set (slot_positions (gPhyContainsTableHead s1))"
      using Cons.prems(6) child_kept_positions [OF k] by simp
  qed (use Cons.prems(3-5) cont_only_sets(2) [OF o(1)] child_kept_keys [OF k] in auto)
  moreover from this have "slot_at s' ij \<noteq> c"
    using K Cons.prems(6) child_kept_positions [OF k] by (auto simp: child_kept_def)
  ultimately show ?case
    using K Cons.prems(6) child_kept_trans [OF k] by (auto split: if_splits)
qed

lemma all_slots_rel:
  assumes "\<forall>ij \<in> set (slot_positions (gPhyContainsTableHead s)). slot_at s ij \<noteq> c"
  shows "(q, c) \<notin> cont_rel s"
proof
  assume "(q, c) \<in> cont_rel s"
  then obtain i j where "i < length (gPhyContainsTableHead s)"
    "j < length (slots (childIndexes (gPhyContainsTableHead s ! i)))"
    "slots (childIndexes (gPhyContainsTableHead s ! i)) ! j = c"
    by (auto simp: cont_rel_def in_set_conv_nth)
  then have "(i, j) \<in> set (slot_positions (gPhyContainsTableHead s))" "slot_at s (i, j) = c"
    by (auto simp: in_slot_positions slot_at_def)
  with assms show False by blast
qed

lemma slot_in_rel:
  assumes "ij \<in> set (slot_positions (gPhyContainsTableHead s))" "slot_at s ij = c" "0 < c"
  shows "\<exists>q. (q, c) \<in> cont_rel s"
proof -
  obtain i j where ij: "ij = (i, j)" by fastforce
  let ?n = "gPhyContainsTableHead s ! i"
  have "?n \<in> set (gPhyContainsTableHead s)" "c \<in> set (slots (childIndexes ?n))"
    using assms ij by (auto simp: in_slot_positions slot_at_def)
  then have "(cparent ?n, c) \<in> cont_rel s" using assms(3) by (auto simp: cont_rel_def)
  then show ?thesis ..
qed

definition child_deleted :: "int \<Rightarrow> entity \<Rightarrow> entity \<Rightarrow> bool" where
  "child_deleted c s s' \<longleftrightarrow>
     cont_wf s' \<and> cont_only s s' \<and> cont_keys s' = cont_keys s \<and>
     cont_rel s' = {(q, x) \<in> cont_rel s. x \<noteq> c} \<and> (\<forall>x. x \<noteq> c \<longrightarrow> parent_of s' x = parent_of s x)"

lemma deleteChild_effect:
  assumes t: "tables_wf s" and w: "cont_wf s" and c: "\<not> bad_index c" "c \<notin> stale_phys s"
    and ps: "\<forall>q \<in> cont_keys s. q \<in> live_phys s"
    and r: "deletePhysicalContainsChildIndex E c s = (r, s')"
  shows "child_deleted c s s' \<and> (if \<exists>q. (q, c) \<in> cont_rel s then 0 < r else r = -1)"
proof -
  have g: "\<not> bad_index c" "c \<notin> stale_phys s" "getPhysicalTableStaleEntry c s = None"
    using c by (auto simp: lookup_None [OF t])
  have ps': "\<forall>q \<in> cont_keys s. \<not> bad_index q \<and> q \<notin> stale_phys s"
    using ps live_bounds(1) [OF t] live_not_stale(1) [OF t] by blast
  let ?ps = "slot_positions (gPhyContainsTableHead s)"
  obtain num s1 where f: "fold (child_step E c) ?ps (0, s) = (num, s1)" by fastforce
  note F = fold_child_step [OF t w g(1,2) ps' subset_refl f]
  have k: "child_kept c s s1" using F by simp
  have none: "(q, c) \<notin> cont_rel s1" for q
    using F child_kept_positions [OF k] by (intro all_slots_rel) simp
  have del: "child_deleted c s s1"
    unfolding child_deleted_def using k child_kept_keys [OF k] none by (auto simp: child_kept_def)
  have num: "num \<noteq> 0 \<longleftrightarrow> (\<exists>q. (q, c) \<in> cont_rel s)"
  proof -
    have "(\<exists>ij \<in> set ?ps. slot_at s ij = c) \<longleftrightarrow> (\<exists>q. (q, c) \<in> cont_rel s)"
      using all_slots_rel [of s c] slot_in_rel [of _ s c] g(1) by force
    then show ?thesis using F by auto
  qed
  have "(r, s') = (if num \<noteq> 0 then (num, configChanged E s1) else (-1, s1))"
    using r g f by (auto simp: deletePhysicalContainsChildIndex_def)
  with del num F show ?thesis by (auto simp: child_deleted_def split: if_splits)
qed

lemma deleteChild_refused:
  assumes "tables_wf s" "\<not> (\<not> bad_index c \<and> c \<notin> stale_phys s)"
  shows "\<exists>r < 0. deletePhysicalContainsChildIndex E c s = (r, s)"
  using assms(2) lookup_None(2) [OF assms(1), of c] by (auto simp: deletePhysicalContainsChildIndex_def)

lemma lowest_of_bounds:
  assumes "cont_wf s" "(q, c) \<in> cont_rel s"
  shows "0 < lowest_of (cont_rel s) c" "lowest_of (cont_rel s) c \<le> q"
    "(lowest_of (cont_rel s) c, c) \<in> cont_rel s"
proof -
  let ?Q = "{q. (q, c) \<in> cont_rel s}"
  have fin: "finite ?Q"
    by (rule finite_subset [of _ "cont_keys s"]) (auto dest: cont_keys_rel simp: cont_keys_def)
  have l: "lowest_of (cont_rel s) c = Min ?Q" using assms(2) by (auto simp: lowest_of_def)
  have "Min ?Q \<in> ?Q" using fin assms(2) by (intro Min_in) auto
  then show m: "(lowest_of (cont_rel s) c, c) \<in> cont_rel s" unfolding l by simp
  show "lowest_of (cont_rel s) c \<le> q" unfolding l using fin assms(2) by (intro Min_le) auto
  show "0 < lowest_of (cont_rel s) c" using m assms(1) by (auto simp: cont_rel_def cont_wf_def)
qed

end
