(* ===== verification/Physical_Table.thy ===== *)
theory Physical_Table
  imports LP_Mapping Alias_Mapping Contains_Table
begin

text \<open>
  The physical entities (\<^verbatim>\<open>entityMib/entPhysicalTable.c\<close>): allocation with its checks
  and its twelve memory requests, insertion into the table, deletion and the stale/live
  switches. Deleting an entry, or making it stale, first removes its index from the alias,
  the logical-to-physical and the containment tables.
\<close>

section \<open>Allocation\<close>

text \<open>
  What the allocation does to the caller's structure before it checks anything: null
  pointers are replaced by the zero OID and by empty strings.
\<close>

definition phys_defaults :: "entPhysicalEntry \<Rightarrow> entPhysicalEntry" where
  "phys_defaults e =
     (let e1 = (if entPhysicalVendorType e = None
                then e\<lparr>entPhysicalVendorType := Some [0, 0], entPhysicalVendorTypeSize := 2 * sizeof_oid\<rparr>
                else e)
      in e1\<lparr>entPhysicalName := nonnull (entPhysicalName e1),
            entPhysicalHardwareRev := nonnull (entPhysicalHardwareRev e1),
            entPhysicalFirmwareRev := nonnull (entPhysicalFirmwareRev e1),
            entPhysicalSoftwareRev := nonnull (entPhysicalSoftwareRev e1),
            entPhysicalSerialNum := nonnull (entPhysicalSerialNum e1),
            entPhysicalMfgName := nonnull (entPhysicalMfgName e1),
            entPhysicalModelName := nonnull (entPhysicalModelName e1),
            entPhysicalAlias := nonnull (entPhysicalAlias e1),
            entPhysicalAssetID := nonnull (entPhysicalAssetID e1)\<rparr>)"

definition ENTPHYSICAL_CLASS_OTHER :: int where
  "ENTPHYSICAL_CLASS_OTHER = 1"

definition ENTPHYSICAL_CLASS_STACK :: int where
  "ENTPHYSICAL_CLASS_STACK = 11"

text \<open>The checks, in the order of the code; each failing one makes the call return -1.\<close>

definition phys_rejected :: "entPhysicalEntry \<Rightarrow> entity \<Rightarrow> bool" where
  "phys_rejected e s \<longleftrightarrow>
     (entPhysicalClass e < ENTPHYSICAL_CLASS_OTHER \<or> entPhysicalClass e > ENTPHYSICAL_CLASS_STACK) \<or>
     (entPhysicalParentRelPos e < -1 \<or> entPhysicalParentRelPos e > MAX_ENTITY_INDEX) \<or>
     (entPhysicalContainedIn e = 0 \<and> entPhysicalParentRelPos e \<noteq> -1) \<or>
     (entPhysicalParentRelPos e = -1 \<and> entPhysicalContainedIn e \<noteq> 0) \<or>
     (entPhysicalContainedIn e < 0 \<or> entPhysicalContainedIn e > MAX_ENTITY_INDEX) \<or>
     (entPhysicalContainedIn e \<noteq> 0 \<and> getPhysicalTableEntry (entPhysicalContainedIn e) s = None) \<or>
     longer_than (entPhysicalDescr e) 255 \<or> longer_than (entPhysicalName e) 255 \<or>
     longer_than (entPhysicalHardwareRev e) 255 \<or> longer_than (entPhysicalFirmwareRev e) 255 \<or>
     longer_than (entPhysicalSoftwareRev e) 255 \<or> longer_than (entPhysicalSerialNum e) 32 \<or>
     longer_than (entPhysicalMfgName e) 255 \<or> longer_than (entPhysicalModelName e) 255 \<or>
     longer_than (entPhysicalAlias e) 32 \<or> longer_than (entPhysicalAssetID e) 32 \<or>
     (entPhysicalIsFRU e < MIB_TRUE \<or> entPhysicalIsFRU e > MIB_FALSE)"

text \<open>
  The memory blocks of an entry in the order they are requested, and the blocks the code
  frees when the request for one of them fails.
\<close>

datatype phys_block =
  PB_entry | PB_Descr | PB_VendorType | PB_Name | PB_HardwareRev | PB_FirmwareRev | PB_SoftwareRev
| PB_SerialNum | PB_MfgName | PB_ModelName | PB_Alias | PB_AssetID

definition phys_blocks1 :: "phys_block list" where
  "phys_blocks1 = [PB_entry, PB_Descr, PB_VendorType]"

definition phys_blocks2 :: "phys_block list" where
  "phys_blocks2 = [PB_Name, PB_HardwareRev, PB_FirmwareRev, PB_SoftwareRev, PB_SerialNum, PB_MfgName,
     PB_ModelName, PB_Alias, PB_AssetID]"

fun phys_cleanup :: "phys_block \<Rightarrow> phys_block list" where
  "phys_cleanup PB_entry = []"
| "phys_cleanup PB_Descr = [PB_entry]"
| "phys_cleanup PB_VendorType = [PB_Descr, PB_entry]"
| "phys_cleanup PB_Name = [PB_VendorType, PB_Descr, PB_entry]"
| "phys_cleanup PB_HardwareRev = [PB_Name, PB_VendorType, PB_Descr, PB_entry]"
| "phys_cleanup PB_FirmwareRev = [PB_HardwareRev, PB_Name, PB_VendorType, PB_Descr, PB_entry]"
| "phys_cleanup PB_SoftwareRev =
     [PB_FirmwareRev, PB_HardwareRev, PB_Name, PB_VendorType, PB_Descr, PB_entry]"
| "phys_cleanup PB_SerialNum =
     [PB_SoftwareRev, PB_FirmwareRev, PB_HardwareRev, PB_Name, PB_VendorType, PB_Descr, PB_entry]"
| "phys_cleanup PB_MfgName =
     [PB_SerialNum, PB_SoftwareRev, PB_FirmwareRev, PB_HardwareRev, PB_Name, PB_VendorType, PB_Descr,
      PB_entry]"
| "phys_cleanup PB_ModelName =
     [PB_MfgName, PB_SerialNum, PB_SoftwareRev, PB_FirmwareRev, PB_HardwareRev, PB_Name,
      PB_VendorType, PB_Descr, PB_entry]"
| "phys_cleanup PB_Alias =
     [PB_ModelName, PB_MfgName, PB_SerialNum, PB_SoftwareRev, PB_FirmwareRev, PB_HardwareRev, PB_Name,
      PB_VendorType, PB_Descr, PB_entry]"
| "phys_cleanup PB_AssetID =
     [PB_Alias, PB_ModelName, PB_MfgName, PB_SerialNum, PB_SoftwareRev, PB_FirmwareRev,
      PB_HardwareRev, PB_Name, PB_VendorType, PB_Descr, PB_entry]"

text \<open>
  The request for the vendor type has the caller's size, which a negative value makes
  unsatisfiable.
\<close>

definition phys_got :: "(nat \<Rightarrow> bool) \<Rightarrow> entPhysicalEntry \<Rightarrow> phys_block \<Rightarrow> bool" where
  "phys_got ok e b =
     (case b of
        PB_entry \<Rightarrow> ok 0 | PB_Descr \<Rightarrow> ok 1
      | PB_VendorType \<Rightarrow> ok 2 \<and> 0 \<le> entPhysicalVendorTypeSize e
      | PB_Name \<Rightarrow> ok 3 | PB_HardwareRev \<Rightarrow> ok 4 | PB_FirmwareRev \<Rightarrow> ok 5 | PB_SoftwareRev \<Rightarrow> ok 6
      | PB_SerialNum \<Rightarrow> ok 7 | PB_MfgName \<Rightarrow> ok 8 | PB_ModelName \<Rightarrow> ok 9 | PB_Alias \<Rightarrow> ok 10
      | PB_AssetID \<Rightarrow> ok 11)"

definition build_phys ::
  "(nat \<Rightarrow> bool) \<Rightarrow> entPhysicalEntry \<Rightarrow> (phys_block, entPhysicalEntry) built" where
  "build_phys ok e =
     (case request_blocks phys_cleanup (phys_got ok e) phys_blocks1 [] of
        Inl leaked \<Rightarrow> Build_failed leaked
      | Inr held \<Rightarrow>
          (case memcpy_oid (slots (entPhysicalVendorType e)) (entPhysicalVendorTypeSize e) of
             None \<Rightarrow> Build_undefined
           | Some v \<Rightarrow>
               (case request_blocks phys_cleanup (phys_got ok e) phys_blocks2 held of
                  Inl leaked \<Rightarrow> Build_failed leaked
                | Inr _ \<Rightarrow> Built (e\<lparr>entPhysicalVendorType := Some v\<rparr>))))"

definition AddToPhysicalTable ::
  "snmp_env \<Rightarrow> entPhysicalEntry node \<Rightarrow> entity \<Rightarrow> (int \<times> entity) option" where
  "AddToPhysicalTable E x s =
     (case add_to_table x (gPhysicalTable s) of
        None \<Rightarrow> None
      | Some (i, t) \<Rightarrow> Some (i, configChanged E (s\<lparr>gPhysicalTable := t\<rparr>)))"

text \<open>\<open>a\<close> is the address the first request returns.\<close>

definition allocPhysicalEntry ::
  "snmp_env \<Rightarrow> (nat \<Rightarrow> bool) \<Rightarrow> addr \<Rightarrow> int \<Rightarrow> entPhysicalEntry \<Rightarrow> entity \<Rightarrow> (int \<times> entity) option" where
  "allocPhysicalEntry E ok a physidx newPhysEntry s =
     (if entPhysicalDescr newPhysEntry = None then Some (-1, s)
      else
        (let e = phys_defaults newPhysEntry in
         if physidx < 0 \<or> physidx > MAX_ENTITY_INDEX then Some (0, s)
         else if phys_rejected e s then Some (-1, s)
         else
           (case build_phys ok e of
              Build_failed leaked \<Rightarrow> Some (-1, s)
            | Build_undefined \<Rightarrow> None
            | Built e' \<Rightarrow> AddToPhysicalTable E \<lparr>naddr = a, nidx = physidx, ndata = e'\<rparr> s)))"

definition populate_entPhysicalEntry ::
  "entPhysicalEntry \<Rightarrow> cstring \<Rightarrow> oid option \<Rightarrow> int \<Rightarrow> int \<Rightarrow> int \<Rightarrow> int \<Rightarrow> cstring \<Rightarrow> cstring \<Rightarrow> cstring \<Rightarrow>
   cstring \<Rightarrow> cstring \<Rightarrow> cstring \<Rightarrow> cstring \<Rightarrow> cstring \<Rightarrow> cstring \<Rightarrow> int \<Rightarrow> entPhysicalEntry" where
  "populate_entPhysicalEntry phyStatic descr vendor vendorSize containedIn cls relPos name hwRev fwRev
     swRev serial mfg model al asset fru =
     phyStatic\<lparr>entPhysicalDescr := descr, entPhysicalVendorType := vendor,
       entPhysicalVendorTypeSize := vendorSize, entPhysicalContainedIn := containedIn,
       entPhysicalClass := cls, entPhysicalParentRelPos := relPos, entPhysicalName := name,
       entPhysicalHardwareRev := hwRev, entPhysicalFirmwareRev := fwRev,
       entPhysicalSoftwareRev := swRev, entPhysicalSerialNum := serial, entPhysicalMfgName := mfg,
       entPhysicalModelName := model, entPhysicalAlias := al, entPhysicalAssetID := asset,
       entPhysicalIsFRU := fru\<rparr>"

section \<open>Deletion and the stale/live switches\<close>

text \<open>The calls that clear an index out of the other tables.\<close>

definition phys_cascade :: "snmp_env \<Rightarrow> (nat \<Rightarrow> bool) \<Rightarrow> int \<Rightarrow> entity \<Rightarrow> entity" where
  "phys_cascade E ok x s =
     (let s1 = snd (deleteAliasMappingPhysicalIndex E x s);
          s2 = snd (deleteLPMappingPhysicalIndex E x s1);
          s3 = snd (deletePhysicalContainsParentIndex E ok x s2)
      in snd (deletePhysicalContainsChildIndex E x s3))"

text \<open>The blocks \<^verbatim>\<open>FreePhysicalEntry\<close> releases.\<close>

definition FreePhysicalEntry :: "phys_block list" where
  "FreePhysicalEntry = [PB_Descr, PB_VendorType, PB_Name, PB_HardwareRev, PB_FirmwareRev,
     PB_SoftwareRev, PB_SerialNum, PB_MfgName, PB_ModelName, PB_Alias, PB_AssetID, PB_entry]"

definition deletePhysicalTableEntry ::
  "snmp_env \<Rightarrow> (nat \<Rightarrow> bool) \<Rightarrow> int \<Rightarrow> entity \<Rightarrow> int \<times> entity" where
  "deletePhysicalTableEntry E ok x s =
     (if bad_index x then (-1, s)
      else
        (case scan_delete x (thead (gPhysicalTable s)) of
           Hit \<Rightarrow>
             (let s' = phys_cascade E ok x s
              in (0, configChanged E (s'\<lparr>gPhysicalTable := unlink x (gPhysicalTable s')\<rparr>)))
         | Clash \<Rightarrow> (-2, s)
         | Absent \<Rightarrow> (-1, s)))"

definition makePhysicalTableEntryStale ::
  "snmp_env \<Rightarrow> (nat \<Rightarrow> bool) \<Rightarrow> int \<Rightarrow> entity \<Rightarrow> int \<times> entity" where
  "makePhysicalTableEntryStale E ok x s =
     (if bad_index x then (-1, s)
      else
        (case scan_to_stale x (thead (gPhysicalTable s)) of
           Hit \<Rightarrow>
             (let s' = phys_cascade E ok x s
              in (0, configChanged E (s'\<lparr>gPhysicalTable := reindex x (- x) (gPhysicalTable s')\<rparr>)))
         | Clash \<Rightarrow> (-2, s)
         | Absent \<Rightarrow> (-1, s)))"

definition makePhysicalTableEntryLive :: "snmp_env \<Rightarrow> int \<Rightarrow> entity \<Rightarrow> int \<times> entity" where
  "makePhysicalTableEntryLive E x s =
     (if bad_index x then (-1, s)
      else
        (case scan_to_live x (thead (gPhysicalTable s)) of
           Hit \<Rightarrow> (0, configChanged E (s\<lparr>gPhysicalTable := reindex (- x) x (gPhysicalTable s)\<rparr>))
         | Clash \<Rightarrow> (-2, s)
         | Absent \<Rightarrow> (-1, s)))"

section \<open>Memory\<close>

lemma phys_cleanup_blocks1: "phys_blocks1 = us @ b # vs \<Longrightarrow> phys_cleanup b = rev us @ []"
  by (auto simp: phys_blocks1_def Cons_eq_append_conv)

lemma phys_cleanup_blocks2:
  "phys_blocks2 = us @ b # vs \<Longrightarrow> phys_cleanup b = rev us @ rev phys_blocks1"
  by (auto simp: phys_blocks1_def phys_blocks2_def Cons_eq_append_conv)

text \<open>
  Whichever of the twelve memory requests of an allocation fails, every block obtained
  before it has been freed when the call returns; and freeing an entry releases each of the
  blocks it was built from exactly once.
\<close>

theorem physical_no_leak:
  "(\<forall>leaked. build_phys ok e = Build_failed leaked \<longrightarrow> leaked = []) \<and>
   distinct FreePhysicalEntry \<and> set FreePhysicalEntry = set (phys_blocks1 @ phys_blocks2)"
proof -
  have "leaked = []" if "build_phys ok e = Build_failed leaked" for leaked
  proof (cases "request_blocks phys_cleanup (phys_got ok e) phys_blocks1 []")
    case (Inl l)
    moreover from Inl have "l = []"
      by (rule request_blocks_no_leak [rotated]) (rule phys_cleanup_blocks1)
    ultimately show ?thesis using that by (simp add: build_phys_def)
  next
    case (Inr held)
    then have h: "held = rev phys_blocks1" using request_blocks_held [of phys_cleanup] by fastforce
    from that Inr have "request_blocks phys_cleanup (phys_got ok e) phys_blocks2 held = Inl leaked"
      by (auto simp: build_phys_def split: option.splits sum.splits)
    then show ?thesis unfolding h
      by (rule request_blocks_no_leak [rotated]) (rule phys_cleanup_blocks2)
  qed
  then show ?thesis by (auto simp: FreePhysicalEntry_def phys_blocks1_def phys_blocks2_def)
qed

definition bare_phys :: entPhysicalEntry where
  "bare_phys = \<lparr>entPhysicalDescr = Some ''part'', entPhysicalVendorType = Some [0, 0],
     entPhysicalVendorTypeSize = 16, entPhysicalContainedIn = 0, entPhysicalClass = 3,
     entPhysicalParentRelPos = -1, entPhysicalName = Some [], entPhysicalHardwareRev = Some [],
     entPhysicalFirmwareRev = Some [], entPhysicalSoftwareRev = Some [], entPhysicalSerialNum = Some [],
     entPhysicalMfgName = Some [], entPhysicalModelName = Some [], entPhysicalAlias = Some [],
     entPhysicalAssetID = Some [], entPhysicalIsFRU = 2\<rparr>"

theorem physical_no_leak_witness:
  "\<exists>leaked. build_phys (\<lambda>k. k \<noteq> 5) bare_phys = Build_failed leaked \<and> leaked = []"
proof -
  have "case build_phys (\<lambda>k. k \<noteq> 5) bare_phys of Build_failed l \<Rightarrow> True | _ \<Rightarrow> False" by code_simp
  then obtain l where "build_phys (\<lambda>k. k \<noteq> 5) bare_phys = Build_failed l"
    by (auto split: built.splits)
  with physical_no_leak [of "\<lambda>k. k \<noteq> 5" bare_phys] show ?thesis by blast
qed

end
