(* ===== verification/Logical_Table.thy ===== *)
theory Logical_Table
  imports LP_Mapping Alias_Mapping
begin

text \<open>
  The logical entities (\<^verbatim>\<open>entityMib/entLogicalTable.c\<close>): the same table as for the
  physical ones, with its own checks. Deleting an entry, or making it stale, first removes its
  index from the alias and the logical-to-physical tables.
\<close>

section \<open>Allocation\<close>

text \<open>
  The caller's structure with the defaults filled in; \<open>None\<close> when a mandatory field is
  missing and the call returns -1.
\<close>

definition logi_defaults :: "entLogicalEntry \<Rightarrow> entLogicalEntry option" where
  "logi_defaults e =
     (if entLogicalDescr e = None then None
      else
        (let e1 = (if entLogicalType e = None
                   then e\<lparr>entLogicalType := Some [1, 3, 6, 1, 2, 1], entLogicalTypeSize := 6 * sizeof_oid\<rparr>
                   else e);
             e2 = e1\<lparr>entLogicalCommunity := nonnull (entLogicalCommunity e1)\<rparr>
         in
         if entLogicalTAddress e2 = None then None
         else if entLogicalTAddress e2 = Some [] then None
         else if entLogicalTDomain e2 = None then None
         else Some (e2\<lparr>entLogicalContextEngineId := nonnull (entLogicalContextEngineId e2),
                       entLogicalContextName := nonnull (entLogicalContextName e2)\<rparr>)))"

definition logi_rejected :: "entLogicalEntry \<Rightarrow> bool" where
  "logi_rejected e \<longleftrightarrow>
     longer_than (entLogicalDescr e) 255 \<or>
     longer_than (entLogicalCommunity e) 255 \<or>
     (\<not> longer_than (entLogicalTAddress e) 0 \<or> longer_than (entLogicalTAddress e) 255) \<or>
     longer_than (entLogicalContextEngineId e) 32 \<or>
     longer_than (entLogicalContextName e) 255"

datatype logi_block =
  LB_entry | LB_Descr | LB_Type | LB_Community | LB_TAddress | LB_TDomain | LB_ContextEngineId
| LB_ContextName

definition logi_blocks1 :: "logi_block list" where
  "logi_blocks1 = [LB_entry, LB_Descr, LB_Type]"

definition logi_blocks2 :: "logi_block list" where
  "logi_blocks2 = [LB_Community, LB_TAddress, LB_TDomain]"

definition logi_blocks3 :: "logi_block list" where
  "logi_blocks3 = [LB_ContextEngineId, LB_ContextName]"

fun logi_cleanup :: "logi_block \<Rightarrow> logi_block list" where
  "logi_cleanup LB_entry = []"
| "logi_cleanup LB_Descr = [LB_entry]"
| "logi_cleanup LB_Type = [LB_Descr, LB_entry]"
| "logi_cleanup LB_Community = [LB_Type, LB_Descr, LB_entry]"
| "logi_cleanup LB_TAddress = [LB_Community, LB_Type, LB_Descr, LB_entry]"
| "logi_cleanup LB_TDomain = [LB_TAddress, LB_Community, LB_Type, LB_Descr, LB_entry]"
| "logi_cleanup LB_ContextEngineId =
     [LB_TDomain, LB_TAddress, LB_Community, LB_Type, LB_Descr, LB_entry]"
| "logi_cleanup LB_ContextName =
     [LB_ContextEngineId, LB_TDomain, LB_TAddress, LB_Community, LB_Type, LB_Descr, LB_entry]"

definition logi_got :: "(nat \<Rightarrow> bool) \<Rightarrow> entLogicalEntry \<Rightarrow> logi_block \<Rightarrow> bool" where
  "logi_got ok e b =
     (case b of
        LB_entry \<Rightarrow> ok 0 | LB_Descr \<Rightarrow> ok 1
      | LB_Type \<Rightarrow> ok 2 \<and> 0 \<le> entLogicalTypeSize e
      | LB_Community \<Rightarrow> ok 3 | LB_TAddress \<Rightarrow> ok 4
      | LB_TDomain \<Rightarrow> entLogicalTDomain e \<noteq> None \<and> ok 5 \<and> 0 \<le> entLogicalTDomainSize e
      | LB_ContextEngineId \<Rightarrow> ok 6 | LB_ContextName \<Rightarrow> ok 7)"

definition build_logi ::
  "(nat \<Rightarrow> bool) \<Rightarrow> entLogicalEntry \<Rightarrow> (logi_block, entLogicalEntry) built" where
  "build_logi ok e =
     (case request_blocks logi_cleanup (logi_got ok e) logi_blocks1 [] of
        Inl leaked \<Rightarrow> Build_failed leaked
      | Inr held1 \<Rightarrow>
          (case memcpy_oid (slots (entLogicalType e)) (entLogicalTypeSize e) of
             None \<Rightarrow> Build_undefined
           | Some ty \<Rightarrow>
               (case request_blocks logi_cleanup (logi_got ok e) logi_blocks2 held1 of
                  Inl leaked \<Rightarrow> Build_failed leaked
                | Inr held2 \<Rightarrow>
                    (case memcpy_oid (slots (entLogicalTDomain e)) (entLogicalTDomainSize e) of
                       None \<Rightarrow> Build_undefined
                     | Some dm \<Rightarrow>
                         (case request_blocks logi_cleanup (logi_got ok e) logi_blocks3 held2 of
                            Inl leaked \<Rightarrow> Build_failed leaked
                          | Inr _ \<Rightarrow> Built (e\<lparr>entLogicalType := Some ty, entLogicalTDomain := Some dm\<rparr>))))))"

definition AddToLogicalTable ::
  "snmp_env \<Rightarrow> entLogicalEntry node \<Rightarrow> entity \<Rightarrow> (int \<times> entity) option" where
  "AddToLogicalTable E x s =
     (case add_to_table x (gLogicalTable s) of
        None \<Rightarrow> None
      | Some (i, t) \<Rightarrow> Some (i, configChanged E (s\<lparr>gLogicalTable := t\<rparr>)))"

definition allocLogicalEntry ::
  "snmp_env \<Rightarrow> (nat \<Rightarrow> bool) \<Rightarrow> addr \<Rightarrow> int \<Rightarrow> entLogicalEntry \<Rightarrow> entity \<Rightarrow> (int \<times> entity) option" where
  "allocLogicalEntry E ok a xLogicalIdx xnewLogicalEntry s =
     (case logi_defaults xnewLogicalEntry of
        None \<Rightarrow> Some (-1, s)
      | Some e \<Rightarrow>
          if xLogicalIdx < 0 \<or> xLogicalIdx > MAX_ENTITY_INDEX then Some (0, s)
          else if logi_rejected e then Some (-1, s)
          else
            (case build_logi ok e of
               Build_failed leaked \<Rightarrow> Some (-1, s)
             | Build_undefined \<Rightarrow> None
             | Built e' \<Rightarrow> AddToLogicalTable E \<lparr>naddr = a, nidx = xLogicalIdx, ndata = e'\<rparr> s))"

definition populate_entLogicalEntry ::
  "entLogicalEntry \<Rightarrow> cstring \<Rightarrow> oid option \<Rightarrow> int \<Rightarrow> cstring \<Rightarrow> cstring \<Rightarrow> oid option \<Rightarrow> int \<Rightarrow> cstring \<Rightarrow>
   cstring \<Rightarrow> entLogicalEntry" where
  "populate_entLogicalEntry xLogicalStatic descr ty tySize community taddress tdomain tdomainSize
     engineId contextName =
     xLogicalStatic\<lparr>entLogicalDescr := descr, entLogicalType := ty, entLogicalTypeSize := tySize,
       entLogicalCommunity := community, entLogicalTAddress := taddress,
       entLogicalTDomain := tdomain, entLogicalTDomainSize := tdomainSize,
       entLogicalContextEngineId := engineId, entLogicalContextName := contextName\<rparr>"

section \<open>Deletion and the stale/live switches\<close>

definition logi_cascade :: "snmp_env \<Rightarrow> int \<Rightarrow> entity \<Rightarrow> entity" where
  "logi_cascade E x s =
     (let s1 = snd (deleteAliasMappingLogicalIndex E x s)
      in snd (deleteLPMappingLogicalIndex E x s1))"

definition FreeLogicalEntry :: "logi_block list" where
  "FreeLogicalEntry = [LB_Descr, LB_Type, LB_Community, LB_TAddress, LB_TDomain,
     LB_ContextEngineId, LB_ContextName, LB_entry]"

definition deleteLogicalTableEntry :: "snmp_env \<Rightarrow> int \<Rightarrow> entity \<Rightarrow> int \<times> entity" where
  "deleteLogicalTableEntry E x s =
     (if bad_index x then (-1, s)
      else
        (case scan_delete x (thead (gLogicalTable s)) of
           Hit \<Rightarrow>
             (let s' = logi_cascade E x s
              in (0, configChanged E (s'\<lparr>gLogicalTable := unlink x (gLogicalTable s')\<rparr>)))
         | Clash \<Rightarrow> (-2, s)
         | Absent \<Rightarrow> (-1, s)))"

definition makeLogicalTableEntryStale :: "snmp_env \<Rightarrow> int \<Rightarrow> entity \<Rightarrow> int \<times> entity" where
  "makeLogicalTableEntryStale E x s =
     (if bad_index x then (-1, s)
      else
        (case scan_to_stale x (thead (gLogicalTable s)) of
           Hit \<Rightarrow>
             (let s' = logi_cascade E x s
              in (0, configChanged E (s'\<lparr>gLogicalTable := reindex x (- x) (gLogicalTable s')\<rparr>)))
         | Clash \<Rightarrow> (-2, s)
         | Absent \<Rightarrow> (-1, s)))"

definition makeLogicalTableEntryLive :: "snmp_env \<Rightarrow> int \<Rightarrow> entity \<Rightarrow> int \<times> entity" where
  "makeLogicalTableEntryLive E x s =
     (if bad_index x then (-1, s)
      else
        (case scan_to_live x (thead (gLogicalTable s)) of
           Hit \<Rightarrow> (0, configChanged E (s\<lparr>gLogicalTable := reindex (- x) x (gLogicalTable s)\<rparr>))
         | Clash \<Rightarrow> (-2, s)
         | Absent \<Rightarrow> (-1, s)))"

section \<open>Memory\<close>

lemma logi_cleanup_blocks1: "logi_blocks1 = us @ b # vs \<Longrightarrow> logi_cleanup b = rev us @ []"
  by (auto simp: logi_blocks1_def Cons_eq_append_conv)

lemma logi_cleanup_blocks2: "logi_blocks2 = us @ b # vs \<Longrightarrow> logi_cleanup b = rev us @ rev logi_blocks1"
  by (auto simp: logi_blocks1_def logi_blocks2_def Cons_eq_append_conv)

lemma logi_cleanup_blocks3:
  "logi_blocks3 = us @ b # vs \<Longrightarrow> logi_cleanup b = rev us @ rev logi_blocks2 @ rev logi_blocks1"
  by (auto simp: logi_blocks1_def logi_blocks2_def logi_blocks3_def Cons_eq_append_conv)

text \<open>
  Whichever of the eight memory requests of a logical allocation fails, every block
  obtained before it has been freed when the call returns; and freeing an entry releases each
  of the blocks it was built from exactly once.
\<close>

theorem logical_no_leak:
  "(\<forall>leaked. build_logi ok e = Build_failed leaked \<longrightarrow> leaked = []) \<and>
   distinct FreeLogicalEntry \<and> set FreeLogicalEntry = set (logi_blocks1 @ logi_blocks2 @ logi_blocks3)"
proof -
  let ?r = "request_blocks logi_cleanup (logi_got ok e)"
  have "leaked = []" if b: "build_logi ok e = Build_failed leaked" for leaked
  proof (cases "?r logi_blocks1 []")
    case (Inl l)
    moreover from Inl have "l = []"
      by (rule request_blocks_no_leak [rotated]) (rule logi_cleanup_blocks1)
    ultimately show ?thesis using b by (simp add: build_logi_def)
  next
    case 1: (Inr held)
    then have h: "held = rev logi_blocks1" using request_blocks_held [of logi_cleanup] by fastforce
    show ?thesis
    proof (cases "?r logi_blocks2 held")
      case (Inl l)
      with b 1 have "l = leaked" by (auto simp: build_logi_def split: option.splits)
      moreover from Inl have "l = []" unfolding h
        by (rule request_blocks_no_leak [rotated]) (rule logi_cleanup_blocks2)
      ultimately show ?thesis by simp
    next
      case 2: (Inr held2)
      then have h2: "held2 = rev logi_blocks2 @ rev logi_blocks1"
        using request_blocks_held [of logi_cleanup] h by fastforce
      from b 1 2 have "?r logi_blocks3 held2 = Inl leaked"
        by (auto simp: build_logi_def split: option.splits sum.splits)
      then show ?thesis unfolding h2
        by (rule request_blocks_no_leak [rotated]) (rule logi_cleanup_blocks3)
    qed
  qed
  then show ?thesis by (auto simp: FreeLogicalEntry_def logi_blocks1_def logi_blocks2_def logi_blocks3_def)
qed

definition bare_logi :: entLogicalEntry where
  "bare_logi = \<lparr>entLogicalDescr = Some ''agent'', entLogicalType = Some [1, 3], entLogicalTypeSize = 16,
     entLogicalCommunity = Some [], entLogicalTAddress = Some ''1'', entLogicalTDomain = Some [1, 3],
     entLogicalTDomainSize = 16, entLogicalContextEngineId = Some [], entLogicalContextName = Some []\<rparr>"

theorem logical_no_leak_witness:
  "\<exists>leaked. build_logi (\<lambda>k. k \<noteq> 6) bare_logi = Build_failed leaked \<and> leaked = []"
proof -
  have "case build_logi (\<lambda>k. k \<noteq> 6) bare_logi of Build_failed l \<Rightarrow> True | _ \<Rightarrow> False" by code_simp
  then obtain l where "build_logi (\<lambda>k. k \<noteq> 6) bare_logi = Build_failed l"
    by (auto split: built.splits)
  with logical_no_leak [of "\<lambda>k. k \<noteq> 6" bare_logi] show ?thesis by blast
qed

end
