(* ===== verification/Entity_Invariant.thy ===== *)
theory Entity_Invariant
  imports Physical_Table Logical_Table
begin

text \<open>
  The invariant that ties the five tables together: every table is well-formed, every
  index a mapping or containment row mentions belongs to a live entry, aliases hang off
  ports only, and the parent field of a contained entry is at most each of its parents in the
  containment table. Each operation of the module keeps it.
\<close>

section \<open>The invariant\<close>

definition lp_refs :: "entity \<Rightarrow> bool" where
  "lp_refs s \<longleftrightarrow> lp_wf s \<and> lp_keys s \<subseteq> live_logi s \<and> snd ` lp_rel s \<subseteq> live_phys s"

definition alias_refs :: "entity \<Rightarrow> bool" where
  "alias_refs s \<longleftrightarrow> alias_wf s \<and> alias_keys s \<subseteq> live_phys s \<and>
     (\<forall>(p, l, m) \<in> alias_rel s. port_phys p s \<and> (l = 0 \<or> l \<in> live_logi s))"

definition cont_refs :: "entity \<Rightarrow> bool" where
  "cont_refs s \<longleftrightarrow> cont_wf s \<and> cont_keys s \<subseteq> live_phys s \<and>
     (\<forall>(p, c) \<in> cont_rel s. p \<noteq> c \<and> c \<in> live_phys s \<and> parent_of s c \<noteq> 0 \<and> parent_of s c \<le> p)"

definition entity_inv :: "entity \<Rightarrow> bool" where
  "entity_inv s \<longleftrightarrow> tables_wf s \<and> lp_refs s \<and> alias_refs s \<and> cont_refs s"

lemma entity_invD:
  "entity_inv s \<Longrightarrow> tables_wf s" "entity_inv s \<Longrightarrow> lp_refs s" "entity_inv s \<Longrightarrow> alias_refs s"
  "entity_inv s \<Longrightarrow> cont_refs s" "entity_inv s \<Longrightarrow> lp_wf s" "entity_inv s \<Longrightarrow> alias_wf s"
  "entity_inv s \<Longrightarrow> cont_wf s"
  by (simp_all add: entity_inv_def lp_refs_def alias_refs_def cont_refs_def)

lemma lp_rel_keys: "(l, p) \<in> lp_rel s \<Longrightarrow> l \<in> lp_keys s"
  by (auto simp: lp_rel_def lp_keys_def)

lemma alias_rel_keys: "(p, l, m) \<in> alias_rel s \<Longrightarrow> p \<in> alias_keys s"
  by (auto simp: alias_rel_def alias_keys_def)

section \<open>Frames\<close>

lemma alias_frame:
  assumes "gAliasMappingTableHead s' = gAliasMappingTableHead s"
    "gAliasMappingTableSize s' = gAliasMappingTableSize s"
  shows "alias_rel s' = alias_rel s" "alias_keys s' = alias_keys s" "alias_wf s' = alias_wf s"
  using assms by (simp_all add: alias_rel_def alias_keys_def alias_wf_def)

lemma lp_frame:
  assumes "gLPMappingTableHead s' = gLPMappingTableHead s"
    "gLPMappingTableSize s' = gLPMappingTableSize s"
  shows "lp_rel s' = lp_rel s" "lp_keys s' = lp_keys s" "lp_wf s' = lp_wf s"
  using assms by (simp_all add: lp_rel_def lp_keys_def lp_wf_def)

lemma cont_frame:
  assumes "gPhyContainsTableHead s' = gPhyContainsTableHead s"
    "gPhyContainsTableSize s' = gPhyContainsTableSize s"
  shows "cont_rel s' = cont_rel s" "cont_keys s' = cont_keys s" "cont_wf s' = cont_wf s"
  using assms by (simp_all add: cont_rel_def cont_keys_def cont_wf_def)

lemma phys_frame:
  assumes "gPhysicalTable s' = gPhysicalTable s"
  shows "parent_of s' = parent_of s" "port_phys p s' = port_phys p s"
  using assms by (simp_all add: parent_of_def getPhysicalTableEntry_def port_phys_def fun_eq_iff)

lemma lp_only_inv:
  assumes "entity_inv s" "lp_only s s'" "lp_refs s'"
  shows "entity_inv s'"
proof -
  have e: "gPhysicalTable s' = gPhysicalTable s" "gLogicalTable s' = gLogicalTable s"
    "gAliasMappingTableHead s' = gAliasMappingTableHead s"
    "gAliasMappingTableSize s' = gAliasMappingTableSize s"
    "gPhyContainsTableHead s' = gPhyContainsTableHead s"
    "gPhyContainsTableSize s' = gPhyContainsTableSize s"
    using assms(2) by (simp_all add: lp_only_def)
  show ?thesis
    using assms(1,3) alias_frame [OF e(3,4)] cont_frame [OF e(5,6)] phys_frame [OF e(1)] e(1,2)
    by (simp add: entity_inv_def tables_wf_def alias_refs_def cont_refs_def)
qed

lemma alias_only_inv:
  assumes "entity_inv s" "alias_only s s'" "alias_refs s'"
  shows "entity_inv s'"
proof -
  have e: "gPhysicalTable s' = gPhysicalTable s" "gLogicalTable s' = gLogicalTable s"
    "gLPMappingTableHead s' = gLPMappingTableHead s"
    "gLPMappingTableSize s' = gLPMappingTableSize s"
    "gPhyContainsTableHead s' = gPhyContainsTableHead s"
    "gPhyContainsTableSize s' = gPhyContainsTableSize s"
    using assms(2) by (simp_all add: alias_only_def)
  show ?thesis
    using assms(1,3) lp_frame [OF e(3,4)] cont_frame [OF e(5,6)] phys_frame [OF e(1)] e(1,2)
    by (simp add: entity_inv_def tables_wf_def lp_refs_def cont_refs_def)
qed

lemma skel_port:
  assumes "phys_skel s' = phys_skel s" "port_phys p s"
  shows "port_phys p s'"
proof -
  obtain n where n: "n \<in> set (thead (gPhysicalTable s))" "nidx n = p" "entPhysicalClass (ndata n) = 10"
    using assms(2) by (auto simp: port_phys_def)
  obtain n' where n': "n' \<in> set (thead (gPhysicalTable s'))" "nidx n' = nidx n"
    "(ndata n')\<lparr>entPhysicalContainedIn := 0\<rparr> = (ndata n)\<lparr>entPhysicalContainedIn := 0\<rparr>"
    using skel_data [OF assms(1) [symmetric] n(1)] by blast
  have "entPhysicalClass (ndata n') = 10" using arg_cong [OF n'(3), of entPhysicalClass] n by simp
  with n n' show ?thesis by (auto simp: port_phys_def)
qed

lemma cont_only_inv:
  assumes "entity_inv s" "cont_only s s'" "cont_refs s'"
  shows "entity_inv s'"
proof -
  have e: "gLPMappingTableHead s' = gLPMappingTableHead s"
    "gLPMappingTableSize s' = gLPMappingTableSize s"
    "gAliasMappingTableHead s' = gAliasMappingTableHead s"
    "gAliasMappingTableSize s' = gAliasMappingTableSize s" "phys_skel s' = phys_skel s"
    using assms(2) by (simp_all add: cont_only_def)
  have "lp_refs s'"
    using assms(1) lp_frame [OF e(1,2)] cont_only_sets [OF assms(2)]
    by (simp add: entity_inv_def lp_refs_def)
  moreover have "alias_refs s'"
    using assms(1) alias_frame [OF e(3,4)] cont_only_sets [OF assms(2)] skel_port [OF e(5)]
    by (fastforce simp: entity_inv_def alias_refs_def)
  ultimately show ?thesis
    using assms cont_only_wf [OF assms(2)] by (simp add: entity_inv_def)
qed

section \<open>The logical-to-physical table\<close>

lemma addLP_inv:
  assumes i: "entity_inv s" and r: "addLPMappingTableEntry E ok l p s = Some (r, s')"
  shows "entity_inv s'"
proof (cases "s' = s")
  case False
  with addLP_effect [OF entity_invD(1) [OF i] entity_invD(5) [OF i] r]
  have e: "l \<in> live_logi s" "p \<in> live_phys s" "lp_wf s'" "lp_only s s'"
    "lp_rel s' = insert (l, p) (lp_rel s)" "lp_keys s' = insert l (lp_keys s)"
    by (auto simp: lp_added_def)
  then have "lp_refs s'" using entity_invD(2) [OF i] by (auto simp: lp_refs_def lp_only_def)
  with i e(4) show ?thesis by (rule lp_only_inv)
qed (use i in simp)

lemma deleteLP_inv:
  assumes i: "entity_inv s" and r: "deleteLPMappingTableEntry E l p s = (r, s')"
  shows "entity_inv s'"
proof (cases "s' = s")
  case False
  with deleteLP_effect [OF entity_invD(1) [OF i] entity_invD(5) [OF i] r] have e: "lp_deleted l p s s'" by auto
  then have "lp_refs s'"
    using entity_invD(2) [OF i] by (auto simp: lp_refs_def lp_only_def lp_deleted_def)
  with i e show ?thesis by (intro lp_only_inv [OF i]) (simp_all add: lp_deleted_def)
qed (use i in simp)

lemma deleteLPPhysical_inv:
  assumes i: "entity_inv s" and r: "deleteLPMappingPhysicalIndex E p s = (r, s')"
  shows "entity_inv s'"
proof (cases "p \<in> live_phys s")
  case True
  note e = deleteLPPhysical_effect [OF entity_invD(1) [OF i] entity_invD(5) [OF i] True r]
  then have "lp_refs s'" using entity_invD(2) [OF i] by (auto simp: lp_refs_def lp_only_def)
  with i e show ?thesis by (intro lp_only_inv [OF i]) simp_all
next
  case False
  with deleteLPPhysical_not_live [OF entity_invD(1) [OF i] False, of E] r i show ?thesis by auto
qed

lemma deleteLPLogical_inv:
  assumes i: "entity_inv s" and r: "deleteLPMappingLogicalIndex E l s = (r, s')"
  shows "entity_inv s'"
proof (cases "l \<in> live_logi s")
  case True
  note e = deleteLPLogical_effect [OF entity_invD(1) [OF i] entity_invD(5) [OF i] True r]
  then have "lp_refs s'" using entity_invD(2) [OF i] by (auto simp: lp_refs_def lp_only_def)
  with i e show ?thesis by (intro lp_only_inv [OF i]) simp_all
next
  case False
  with deleteLPLogical_not_live [OF entity_invD(1) [OF i] False, of E] r i show ?thesis by auto
qed

section \<open>The alias table\<close>

lemma alias_refs_shrink:
  assumes "alias_refs s" "alias_only s s'" "alias_wf s'" "alias_keys s' \<subseteq> alias_keys s"
    "alias_rel s' \<subseteq> alias_rel s"
  shows "alias_refs s'"
proof -
  have "gPhysicalTable s' = gPhysicalTable s" "gLogicalTable s' = gLogicalTable s"
    using assms(2) by (simp_all add: alias_only_def)
  with assms show ?thesis by (auto simp: alias_refs_def port_phys_def)
qed

lemma addAlias_inv:
  assumes i: "entity_inv s" and r: "addAliasMappingTableEntry E ok p l mapid sz s = Some (r, s')"
  shows "entity_inv s'"
proof (cases "s' = s")
  case False
  with addAlias_effect [OF entity_invD(1) [OF i] entity_invD(6) [OF i] r]
  obtain c where e: "p \<in> live_phys s" "port_phys p s" "l = 0 \<or> l \<in> live_logi s" "alias_wf s'"
    "alias_only s s'" "alias_rel s' = insert (p, l, c) (alias_rel s)"
    "alias_keys s' = insert p (alias_keys s)"
    by (auto simp: alias_added_def)
  have "gPhysicalTable s' = gPhysicalTable s" "gLogicalTable s' = gLogicalTable s"
    using e(5) by (simp_all add: alias_only_def)
  with e have "alias_refs s'" using entity_invD(3) [OF i] by (auto simp: alias_refs_def port_phys_def)
  with i e(5) show ?thesis by (rule alias_only_inv)
qed (use i in simp)

lemma deleteAlias_inv:
  assumes i: "entity_inv s" and r: "deleteAliasMappingTableEntry E p l s = (r, s')"
  shows "entity_inv s'"
proof (cases "s' = s")
  case False
  with deleteAlias_effect [OF entity_invD(6) [OF i] r]
  have e: "alias_wf s'" "alias_only s s'" "alias_keys s' = alias_keys s"
    "alias_rel s' = {(q, k, m) \<in> alias_rel s. (q, k) \<noteq> (p, l)}" by auto
  have "alias_refs s'"
    using e by (intro alias_refs_shrink [OF entity_invD(3) [OF i]]) auto
  with i e(2) show ?thesis by (rule alias_only_inv)
qed (use i in simp)

lemma deleteAliasPhysical_inv:
  assumes i: "entity_inv s" and r: "deleteAliasMappingPhysicalIndex E p s = (r, s')"
  shows "entity_inv s'"
proof (cases "\<not> bad_index p \<and> getPhysicalTableStaleEntry p s = None")
  case True
  note e = deleteAliasPhysical_effect [OF entity_invD(6) [OF i] conjunct1 [OF True] conjunct2 [OF True] r]
  then have "alias_refs s'"
    by (intro alias_refs_shrink [OF entity_invD(3) [OF i]]) auto
  with i e show ?thesis by (intro alias_only_inv [OF i]) simp_all
next
  case False
  with deleteAliasPhysical_refused [OF False, of E] r i show ?thesis by auto
qed

lemma deleteAliasLogical_inv:
  assumes i: "entity_inv s" and r: "deleteAliasMappingLogicalIndex E l s = (r, s')"
  shows "entity_inv s'"
proof (cases "\<not> bad_index l \<and> getLogicalTableStaleEntry l s = None")
  case True
  note e = deleteAliasLogical_effect [OF entity_invD(6) [OF i] conjunct1 [OF True] conjunct2 [OF True] r]
  then have "alias_refs s'"
    by (intro alias_refs_shrink [OF entity_invD(3) [OF i]]) auto
  with i e show ?thesis by (intro alias_only_inv [OF i]) simp_all
next
  case False
  with deleteAliasLogical_refused [OF False, of E] r i show ?thesis by auto
qed

section \<open>The containment table\<close>

lemma cont_refsI:
  assumes "cont_only s s'" "cont_wf s'" "cont_keys s' \<subseteq> live_phys s"
    "\<And>p c. (p, c) \<in> cont_rel s' \<Longrightarrow> p \<noteq> c \<and> c \<in> live_phys s \<and> parent_of s' c \<noteq> 0 \<and> parent_of s' c \<le> p"
  shows "cont_refs s'"
  using assms cont_only_sets(1) [OF assms(1)] by (auto simp: cont_refs_def)

lemma cont_refs_shrink:
  assumes C: "cont_refs s" and o: "cont_only s s'" and w: "cont_wf s'"
    and k: "cont_keys s' \<subseteq> cont_keys s" and sub: "cont_rel s' \<subseteq> cont_rel s"
    and par: "\<And>q x. (q, x) \<in> cont_rel s' \<Longrightarrow>
      parent_of s' x = parent_of s x \<or> parent_of s' x = lowest_of (cont_rel s') x"
  shows "cont_refs s'"
proof (rule cont_refsI [OF o w])
  show "cont_keys s' \<subseteq> live_phys s" using k C by (auto simp: cont_refs_def)
  fix q x
  assume q: "(q, x) \<in> cont_rel s'"
  then have "(q, x) \<in> cont_rel s" using sub by blast
  then have "q \<noteq> x" "x \<in> live_phys s" "parent_of s x \<noteq> 0" "parent_of s x \<le> q"
    using C by (auto simp: cont_refs_def)
  then show "q \<noteq> x \<and> x \<in> live_phys s \<and> parent_of s' x \<noteq> 0 \<and> parent_of s' x \<le> q"
    using par [OF q] lowest_of_bounds [OF w q] by (elim disjE) simp_all
qed

lemma addContains_inv:
  assumes i: "entity_inv s" and r: "addPhysicalContainsTableEntry E ok p c s = Some (r, s')"
  shows "entity_inv s'"
proof (cases "s' = s")
  case False
  note C = entity_invD(4) [OF i]
  consider (add) "p \<noteq> c" "p \<in> live_phys s" "c \<in> live_phys s" "cont_added p c s s'"
    | (drop) "cont_dropped p s s'"
    using False addContains_effect [OF entity_invD(1) [OF i] entity_invD(7) [OF i] r] by auto
  then show ?thesis
  proof cases
    case add
    then have "0 < p" using live_bounds(1) [OF entity_invD(1) [OF i]] by force
    have a: "cont_only s s'" "cont_wf s'" "cont_keys s' = insert p (cont_keys s)"
      "cont_rel s' = insert (p, c) (cont_rel s)"
      "\<And>x. parent_of s' x = (if x \<noteq> c then parent_of s x
         else if parent_of s c = 0 \<or> p < parent_of s c then p else parent_of s c)"
      using add(4) by (auto simp: cont_added_def)
    have "cont_refs s'"
    proof (rule cont_refsI [OF a(1,2)])
      show "cont_keys s' \<subseteq> live_phys s" using C add(2) a(3) by (auto simp: cont_refs_def)
      fix q x
      assume q: "(q, x) \<in> cont_rel s'"
      then consider "q = p" "x = c" | "(q, x) \<in> cont_rel s" using a(4) by auto
      then show "q \<noteq> x \<and> x \<in> live_phys s \<and> parent_of s' x \<noteq> 0 \<and> parent_of s' x \<le> q"
      proof cases
        case 1
        then show ?thesis using add(1,3) a(5) [of c] \<open>0 < p\<close> C by (auto simp: cont_refs_def)
      next
        case 2
        then have "q \<noteq> x" "x \<in> live_phys s" "parent_of s x \<noteq> 0" "parent_of s x \<le> q"
          using C by (auto simp: cont_refs_def)
        then show ?thesis using a(5) [of x] \<open>0 < p\<close> by auto
      qed
    qed
    with i add show ?thesis by (intro cont_only_inv [OF i]) (simp_all add: cont_added_def)
  next
    case drop
    then have "cont_refs s'"
      using C by (intro cont_refsI [of s]) (auto simp: cont_dropped_def cont_refs_def)
    with i drop show ?thesis by (intro cont_only_inv [OF i]) (simp_all add: cont_dropped_def)
  qed
qed (use i in simp)

lemma deleteContains_inv:
  assumes i: "entity_inv s" and r: "deletePhysicalContainsTableEntry E p c s = (r, s')"
  shows "entity_inv s'"
proof (cases "s' = s")
  case False
  note C = entity_invD(4) [OF i]
  have d: "cont_deleted p c s s'" using False deleteContains_effect [OF entity_invD(1) [OF i] entity_invD(7) [OF i] r] by auto
  then have "cont_refs s'"
    by (intro cont_refs_shrink [OF C]) (auto simp: cont_deleted_def)
  with i d show ?thesis by (intro cont_only_inv [OF i]) (simp_all add: cont_deleted_def)
qed (use i in simp)

lemma parent_deleted_inv:
  assumes i: "entity_inv s" and d: "parent_deleted ok p s s'"
  shows "entity_inv s'"
proof -
  have "cont_refs s'"
    using d by (intro cont_refs_shrink [OF entity_invD(4) [OF i]]) (auto simp: parent_deleted_def)
  with i d show ?thesis by (intro cont_only_inv [OF i]) (simp_all add: parent_deleted_def)
qed

lemma deleteParent_inv:
  assumes i: "entity_inv s" and r: "deletePhysicalContainsParentIndex E ok p s = (r, s')"
  shows "entity_inv s'"
proof (cases "p \<in> live_phys s")
  case True
  with deleteParent_effect [OF entity_invD(1) [OF i] entity_invD(7) [OF i] True r] i show ?thesis
    by (auto intro: parent_deleted_inv)
next
  case False
  then have "p \<notin> cont_keys s" using entity_invD(4) [OF i] by (auto simp: cont_refs_def)
  from deleteParent_no_node [OF this, of E ok] r i show ?thesis by auto
qed

lemma child_deleted_inv:
  assumes i: "entity_inv s" and d: "child_deleted c s s'"
  shows "entity_inv s'"
proof -
  have "cont_refs s'"
    using d by (intro cont_refs_shrink [OF entity_invD(4) [OF i]]) (auto simp: child_deleted_def)
  with i d show ?thesis by (intro cont_only_inv [OF i]) (simp_all add: child_deleted_def)
qed

lemma deleteChild_inv:
  assumes i: "entity_inv s" and r: "deletePhysicalContainsChildIndex E c s = (r, s')"
  shows "entity_inv s'"
proof (cases "\<not> bad_index c \<and> c \<notin> stale_phys s")
  case True
  have "\<forall>q \<in> cont_keys s. q \<in> live_phys s" using entity_invD(4) [OF i] by (auto simp: cont_refs_def)
  from deleteChild_effect [OF entity_invD(1) [OF i] entity_invD(7) [OF i] _ _ this r] True i show ?thesis
    by (auto intro: child_deleted_inv)
next
  case False
  with deleteChild_refused [OF entity_invD(1) [OF i] False, of E] r i show ?thesis by auto
qed

section \<open>The physical table\<close>

text \<open>
  A change of the physical table that keeps every live entry but one, which no other table
  mentions, keeps the invariant.
\<close>

definition phys_unused :: "int \<Rightarrow> entity \<Rightarrow> bool" where
  "phys_unused x s \<longleftrightarrow> x \<notin> alias_keys s \<and> x \<notin> snd ` lp_rel s \<and> x \<notin> cont_keys s \<and> x \<notin> snd ` cont_rel s"

lemma phys_table_change:
  assumes i: "entity_inv s" and t: "twf t" and u: "phys_unused x s"
    and keep: "\<And>n. n \<in> set (thead (gPhysicalTable s)) \<Longrightarrow> 0 < nidx n \<Longrightarrow> nidx n \<noteq> x \<Longrightarrow> n \<in> set (thead t)"
  shows "entity_inv (s\<lparr>gPhysicalTable := t\<rparr>)"
proof -
  let ?s = "s\<lparr>gPhysicalTable := t\<rparr>"
  have T: "tables_wf s" "tables_wf ?s" using i t by (auto simp: entity_inv_def tables_wf_def)
  have live: "y \<in> live_set t" if "y \<in> live_phys s" "y \<noteq> x" for y
    using that keep by (auto simp: live_set_def)
  have parent: "parent_of ?s y = parent_of s y" if y: "y \<in> live_phys s" "y \<noteq> x" for y
  proof -
    obtain n where n: "n \<in> set (thead (gPhysicalTable s))" "nidx n = y" "0 < y"
      using y(1) unfolding live_set_def by blast
    then have "n \<in> set (thead (gPhysicalTable ?s))" using keep y(2) by simp
    with n parent_of_node [OF T(1), of n] parent_of_node [OF T(2), of n] show ?thesis by simp
  qed
  have "lp_refs ?s"
  proof -
    have f: "lp_rel ?s = lp_rel s" "lp_keys ?s = lp_keys s" "lp_wf ?s = lp_wf s"
      by (rule lp_frame; simp)+
    have "snd ` lp_rel s \<subseteq> live_set t"
    proof
      fix p
      assume p: "p \<in> snd ` lp_rel s"
      then have "p \<in> live_phys s" "p \<noteq> x"
        using entity_invD(2) [OF i] u by (auto simp: lp_refs_def phys_unused_def)
      then show "p \<in> live_set t" by (rule live)
    qed
    then show ?thesis using entity_invD(2) [OF i] by (simp add: lp_refs_def f)
  qed
  moreover have "alias_refs ?s"
  proof -
    have f: "alias_rel ?s = alias_rel s" "alias_keys ?s = alias_keys s" "alias_wf ?s = alias_wf s"
      by (rule alias_frame; simp)+
    have "port_phys p ?s" if "port_phys p s" "p \<in> alias_keys s" for p
    proof -
      have "p \<noteq> x" "0 < p" using that u entity_invD(3) [OF i]
        by (auto simp: phys_unused_def alias_refs_def live_set_def)
      with that(1) keep show ?thesis by (force simp: port_phys_def)
    qed
    then show ?thesis
      using entity_invD(3) [OF i] u live alias_rel_keys
      by (fastforce simp: alias_refs_def f phys_unused_def)
  qed
  moreover have "cont_refs ?s"
  proof -
    have f: "cont_rel ?s = cont_rel s" "cont_keys ?s = cont_keys s" "cont_wf ?s = cont_wf s"
      by (rule cont_frame; simp)+
    have C: "cont_wf s" "cont_keys s \<subseteq> live_phys s"
      "\<And>p c. (p, c) \<in> cont_rel s \<Longrightarrow> p \<noteq> c \<and> c \<in> live_phys s \<and> parent_of s c \<noteq> 0 \<and> parent_of s c \<le> p"
      using entity_invD(4) [OF i] by (auto simp: cont_refs_def)
    have "c \<noteq> x" if "(p, c) \<in> cont_rel s" for p c using that u by (force simp: phys_unused_def)
    with C parent live u show ?thesis
      unfolding cont_refs_def f by (fastforce simp: phys_unused_def)
  qed
  ultimately show ?thesis using T by (simp add: entity_inv_def)
qed

text \<open>What the cascade of deletions leaves.\<close>

definition phys_cleared :: "int \<Rightarrow> entity \<Rightarrow> entity \<Rightarrow> bool" where
  "phys_cleared x s s' \<longleftrightarrow>
     entity_inv s' \<and> phys_unused x s' \<and>
     phys_skel s' = phys_skel s \<and> gLogicalTable s' = gLogicalTable s \<and>
     alias_rel s' = {(p, y) \<in> alias_rel s. p \<noteq> x} \<and>
     lp_rel s' = {(l, p) \<in> lp_rel s. p \<noteq> x} \<and> lp_keys s' = lp_keys s \<and>
     cont_rel s' = {(p, c) \<in> cont_rel s. p \<noteq> x \<and> c \<noteq> x}"

lemma phys_cascade_cleared:
  assumes i: "entity_inv s" and x: "x \<in> live_phys s"
  shows "phys_cleared x s (phys_cascade E ok x s)"
proof -
  obtain r1 s1 where s1: "deleteAliasMappingPhysicalIndex E x s = (r1, s1)" by fastforce
  obtain r2 s2 where s2: "deleteLPMappingPhysicalIndex E x s1 = (r2, s2)" by fastforce
  obtain r3 s3 where s3: "deletePhysicalContainsParentIndex E ok x s2 = (r3, s3)" by fastforce
  obtain r4 s4 where s4: "deletePhysicalContainsChildIndex E x s3 = (r4, s4)" by fastforce
  have c: "phys_cascade E ok x s = s4" by (simp add: phys_cascade_def s1 s2 s3 s4)
  note T = entity_invD(1) [OF i]
  have g: "\<not> bad_index x" "getPhysicalTableStaleEntry x s = None" "x \<notin> stale_phys s"
    using x live_bounds [OF T] live_not_stale [OF T] by (auto simp: lookup_None [OF T])
  note e1 = deleteAliasPhysical_effect [OF entity_invD(6) [OF i] g(1,2) s1]
  have i1: "entity_inv s1" using i s1 by (rule deleteAliasPhysical_inv)
  have x1: "x \<in> live_phys s1" using x e1 by (simp add: alias_only_def)
  note e2 = deleteLPPhysical_effect [OF entity_invD(1) [OF i1] entity_invD(5) [OF i1] x1 s2]
  have i2: "entity_inv s2" using i1 s2 by (rule deleteLPPhysical_inv)
  have x2: "x \<in> live_phys s2" using x1 e2 by (simp add: lp_only_def)
  note e3 = deleteParent_effect [OF entity_invD(1) [OF i2] entity_invD(7) [OF i2] x2 s3]
  have o3: "cont_only s2 s3" using e3 by (simp add: parent_deleted_def)
  have i3: "entity_inv s3" using i2 s3 by (rule deleteParent_inv)
  have st: "stale_phys s3 = stale_phys s"
    using cont_only_sets(2) [OF o3] e1 e2 by (simp add: lp_only_def alias_only_def)
  have k3: "\<forall>q \<in> cont_keys s3. q \<in> live_phys s3" using entity_invD(4) [OF i3] by (auto simp: cont_refs_def)
  have "x \<notin> stale_phys s3" using g(3) st by simp
  note e4 = deleteChild_effect [OF entity_invD(1) [OF i3] entity_invD(7) [OF i3] g(1) this k3 s4]
  have o4: "cont_only s3 s4" using e4 by (simp add: child_deleted_def)
  have i4: "entity_inv s4" using i3 s4 by (rule deleteChild_inv)
  have al: "alias_rel s4 = alias_rel s1" "alias_keys s4 = alias_keys s1"
    using o3 o4 e2 by (auto simp: cont_only_def lp_only_def intro!: alias_frame)
  have lp: "lp_rel s4 = lp_rel s2" "lp_keys s4 = lp_keys s2"
    using o3 o4 by (auto simp: cont_only_def intro!: lp_frame)
  have lp1: "lp_rel s1 = lp_rel s" "lp_keys s1 = lp_keys s"
    using e1 by (auto simp: alias_only_def intro!: lp_frame)
  have co: "cont_rel s2 = cont_rel s" "cont_keys s2 = cont_keys s"
    using e1 e2 by (auto simp: alias_only_def lp_only_def intro!: cont_frame)
  have rel: "cont_rel s4 = {(p, c) \<in> cont_rel s. p \<noteq> x \<and> c \<noteq> x}" "cont_keys s4 = cont_keys s - {x}"
    using e3 e4 co by (auto simp: parent_deleted_def child_deleted_def)
  have "phys_unused x s4"
    using al lp rel e1 e2 by (auto simp: phys_unused_def)
  moreover have "phys_skel s4 = phys_skel s" "gLogicalTable s4 = gLogicalTable s"
    using o3 o4 e1 e2 by (simp_all add: cont_only_def lp_only_def alias_only_def phys_skel_def)
  ultimately show ?thesis
    unfolding c phys_cleared_def using i4 al lp lp1 rel(1) e1 e2 by simp
qed

lemma bad_index_unknown: "twf t \<Longrightarrow> bad_index x \<Longrightarrow> x \<notin> live_set t \<and> x \<notin> stale_set t"
  using live_set_bounds [of t x] stale_set_bounds [of t x] by force

lemma scan_hit:
  assumes "twf t" "0 < x"
  shows "scan_delete x (thead t) = (if x \<in> live_set t then Hit else if x \<in> stale_set t then Clash else Absent)"
    "scan_to_stale x (thead t) = (if x \<in> live_set t then Hit else if x \<in> stale_set t then Clash else Absent)"
    "scan_to_live x (thead t) = (if x \<in> stale_set t then Hit else if x \<in> live_set t then Clash else Absent)"
  using twf_uniq [OF assms(1)] assms(2)
  by (simp_all add: scan_delete_eq scan_to_stale_eq scan_to_live_eq live_set_def stale_set_def)

text \<open>The two removals: what they return and what state they leave.\<close>

lemma deletePhysical_result:
  assumes i: "entity_inv s"
  shows "deletePhysicalTableEntry E ok x s =
    (if x \<in> live_phys s
     then (0, configChanged E ((phys_cascade E ok x s)\<lparr>gPhysicalTable :=
                unlink x (gPhysicalTable (phys_cascade E ok x s))\<rparr>))
     else if x \<in> stale_phys s then (-2, s) else (-1, s))"
proof (cases "bad_index x")
  case True
  then have "x \<notin> live_phys s" "x \<notin> stale_phys s"
    using entity_invD(1) [OF i] bad_index_unknown [of "gPhysicalTable s" x] by (simp_all add: tables_wf_def)
  with True show ?thesis by (auto simp: deletePhysicalTableEntry_def)
next
  case False
  then have "0 < x" by simp
  then show ?thesis
    using False scan_hit [of "gPhysicalTable s" x] entity_invD(1) [OF i]
    by (auto simp: deletePhysicalTableEntry_def Let_def tables_wf_def)
qed

lemma stalePhysical_result:
  assumes i: "entity_inv s"
  shows "makePhysicalTableEntryStale E ok x s =
    (if x \<in> live_phys s
     then (0, configChanged E ((phys_cascade E ok x s)\<lparr>gPhysicalTable :=
                reindex x (- x) (gPhysicalTable (phys_cascade E ok x s))\<rparr>))
     else if x \<in> stale_phys s then (-2, s) else (-1, s))"
proof (cases "bad_index x")
  case True
  then have "x \<notin> live_phys s" "x \<notin> stale_phys s"
    using entity_invD(1) [OF i] bad_index_unknown [of "gPhysicalTable s" x] by (simp_all add: tables_wf_def)
  with True show ?thesis by (auto simp: makePhysicalTableEntryStale_def)
next
  case False
  then have "0 < x" by simp
  then show ?thesis
    using False scan_hit [of "gPhysicalTable s" x] entity_invD(1) [OF i]
    by (auto simp: makePhysicalTableEntryStale_def Let_def tables_wf_def)
qed

lemma livePhysical_result:
  assumes t: "tables_wf s"
  shows "makePhysicalTableEntryLive E x s =
    (if x \<in> stale_phys s
     then (0, configChanged E (s\<lparr>gPhysicalTable := reindex (- x) x (gPhysicalTable s)\<rparr>))
     else if x \<in> live_phys s then (-2, s) else (-1, s))"
proof (cases "bad_index x")
  case True
  then have "x \<notin> live_phys s" "x \<notin> stale_phys s"
    using t bad_index_unknown [of "gPhysicalTable s" x] by (simp_all add: tables_wf_def)
  with True show ?thesis by (auto simp: makePhysicalTableEntryLive_def)
next
  case False
  then have "0 < x" by simp
  then show ?thesis
    using False scan_hit [of "gPhysicalTable s" x] t
    by (auto simp: makePhysicalTableEntryLive_def tables_wf_def)
qed

lemma configChanged_inv [simp]: "entity_inv (configChanged E s) = entity_inv s"
proof -
  have "lp_rel (configChanged E s) = lp_rel s" "lp_keys (configChanged E s) = lp_keys s"
    "lp_wf (configChanged E s) = lp_wf s" by (rule lp_frame; simp)+
  moreover have "alias_rel (configChanged E s) = alias_rel s" "alias_keys (configChanged E s) = alias_keys s"
    "alias_wf (configChanged E s) = alias_wf s" by (rule alias_frame; simp)+
  ultimately show ?thesis
    by (simp add: entity_inv_def lp_refs_def alias_refs_def cont_refs_def tables_wf_def port_phys_def)
qed

lemma cleared_tables:
  assumes "phys_cleared x s s'"
  shows "twf (gPhysicalTable s')" "live_phys s' = live_phys s" "stale_phys s' = stale_phys s"
  using assms skel_sets [of s' s] by (auto simp: phys_cleared_def entity_inv_def tables_wf_def)

lemma unlink_keeps:
  "twf t \<Longrightarrow> n \<in> set (thead t) \<Longrightarrow> nidx n \<noteq> x \<Longrightarrow> n \<in> set (thead (unlink x t))"
  using set_drop_idx [OF twf_uniq, of t x] by (simp add: unlink_def)

lemma reindex_keeps:
  "twf t \<Longrightarrow> n \<in> set (thead t) \<Longrightarrow> nidx n \<noteq> x \<Longrightarrow> n \<in> set (thead (reindex x y t))"
  using set_idx_map [OF twf_uniq, of t x y] by (force simp: reindex_def)

lemma deletePhysical_inv:
  assumes i: "entity_inv s" and r: "deletePhysicalTableEntry E ok x s = (r, s')"
  shows "entity_inv s'"
proof (cases "x \<in> live_phys s")
  case True
  let ?c = "phys_cascade E ok x s"
  have c: "phys_cleared x s ?c" using i True by (rule phys_cascade_cleared)
  note t = cleared_tables [OF c]
  have "x \<in> nidx ` set (thead (gPhysicalTable ?c))" using True t(2) by (auto simp: live_set_def)
  then have "entity_inv (?c\<lparr>gPhysicalTable := unlink x (gPhysicalTable ?c)\<rparr>)"
    using c t(1) unlink_keeps [OF t(1)]
    by (intro phys_table_change [of _ _ x] twf_unlink) (auto simp: phys_cleared_def)
  with True r deletePhysical_result [OF i] show ?thesis by auto
next
  case False
  with r i deletePhysical_result [OF i, of E ok x] show ?thesis by (auto split: if_splits)
qed

lemma stalePhysical_inv:
  assumes i: "entity_inv s" and r: "makePhysicalTableEntryStale E ok x s = (r, s')"
  shows "entity_inv s'"
proof (cases "x \<in> live_phys s")
  case True
  let ?c = "phys_cascade E ok x s"
  have c: "phys_cleared x s ?c" using i True by (rule phys_cascade_cleared)
  note t = cleared_tables [OF c]
  have "entity_inv (?c\<lparr>gPhysicalTable := reindex x (- x) (gPhysicalTable ?c)\<rparr>)"
    using c t(1) reindex_keeps [OF t(1)]
    by (intro phys_table_change [of _ _ x] twf_reindex) (auto simp: phys_cleared_def)
  with True r stalePhysical_result [OF i] show ?thesis by auto
next
  case False
  with r i stalePhysical_result [OF i, of E ok x] show ?thesis by (auto split: if_splits)
qed

text \<open>An index that is not live is used nowhere.\<close>

lemma not_live_unused:
  assumes i: "entity_inv s" and x: "x \<notin> live_phys s"
  shows "phys_unused x s"
  using entity_invD(2,3,4) [OF i] x
  by (auto simp: phys_unused_def lp_refs_def alias_refs_def cont_refs_def)

lemma livePhysical_inv:
  assumes i: "entity_inv s" and r: "makePhysicalTableEntryLive E x s = (r, s')"
  shows "entity_inv s'"
proof (cases "x \<in> stale_phys s")
  case True
  note T = entity_invD(1) [OF i]
  have t: "twf (gPhysicalTable s)" using T by (simp add: tables_wf_def)
  have "x \<notin> live_phys s" using True live_not_stale(1) [OF T] by blast
  then have u: "phys_unused x s" by (rule not_live_unused [OF i])
  have "0 < x" using True by (simp add: stale_set_def)
  then have "entity_inv (s\<lparr>gPhysicalTable := reindex (- x) x (gPhysicalTable s)\<rparr>)"
    using t u reindex_keeps [OF t, of _ "- x" x]
    by (intro phys_table_change [OF i, of _ x] twf_reindex) auto
  with True r livePhysical_result [OF T] show ?thesis by auto
next
  case False
  with r i livePhysical_result [OF entity_invD(1) [OF i], of E x] show ?thesis by (auto split: if_splits)
qed

lemma allocPhysical_added:
  assumes t: "tables_wf s" and fresh: "a \<notin> naddr ` set (thead (gPhysicalTable s))"
    and room: "room (gPhysicalTable s)"
    and r: "allocPhysicalEntry E ok a k e s = Some (r, s')"
  shows "(r \<le> 0 \<and> s' = s) \<or>
    (0 < r \<and> 0 \<le> k \<and> k \<le> MAX_ENTITY_INDEX \<and> entPhysicalDescr e \<noteq> None \<and> \<not> phys_rejected (phys_defaults e) s \<and>
     (\<exists>d t'. build_phys ok (phys_defaults e) = Built d \<and>
       add_to_table \<lparr>naddr = a, nidx = k, ndata = d\<rparr> (gPhysicalTable s) = Some (r, t') \<and>
       added \<lparr>naddr = a, nidx = k, ndata = d\<rparr> r (gPhysicalTable s) t' \<and>
       s' = configChanged E (s\<lparr>gPhysicalTable := t'\<rparr>)))"
proof (cases "r \<le> 0 \<and> s' = s")
  case False
  then obtain d where d: "build_phys ok (phys_defaults e) = Built d" and g: "entPhysicalDescr e \<noteq> None"
      "\<not> phys_rejected (phys_defaults e) s" "0 \<le> k" "k \<le> MAX_ENTITY_INDEX"
    and a: "AddToPhysicalTable E \<lparr>naddr = a, nidx = k, ndata = d\<rparr> s = Some (r, s')"
    using r by (auto simp: allocPhysicalEntry_def Let_def split: if_splits built.splits)
  let ?x = "\<lparr>naddr = a, nidx = k, ndata = d\<rparr>"
  from a obtain t' where t': "add_to_table ?x (gPhysicalTable s) = Some (r, t')"
    "s' = configChanged E (s\<lparr>gPhysicalTable := t'\<rparr>)"
    by (auto simp: AddToPhysicalTable_def split: option.splits)
  have "added ?x r (gPhysicalTable s) t'"
    using t fresh room g(4) t'(1) by (intro add_to_table_added) (auto simp: tables_wf_def)
  moreover from this have "0 < r" by (simp add: added_def)
  ultimately show ?thesis using g d t' by blast
qed simp

lemma allocPhysical_inv:
  assumes i: "entity_inv s" and fresh: "a \<notin> naddr ` set (thead (gPhysicalTable s))"
    and room: "room (gPhysicalTable s)" and r: "allocPhysicalEntry E ok a k e s = Some (r, s')"
  shows "entity_inv s'"
proof (cases "s' = s")
  case False
  with allocPhysical_added [OF entity_invD(1) [OF i] fresh room r] obtain x t'
    where ad: "added x r (gPhysicalTable s) t'" "s' = configChanged E (s\<lparr>gPhysicalTable := t'\<rparr>)"
    by blast
  have "0 \<notin> live_phys s" by (simp add: live_set_def)
  from not_live_unused [OF i this] ad(1) have "entity_inv (s\<lparr>gPhysicalTable := t'\<rparr>)"
    by (intro phys_table_change [OF i, of _ 0]) (auto simp: added_def)
  with ad(2) show ?thesis by simp
qed (use i in simp)

section \<open>The logical table\<close>

definition logi_unused :: "int \<Rightarrow> entity \<Rightarrow> bool" where
  "logi_unused x s \<longleftrightarrow> x \<notin> lp_keys s \<and> (\<forall>p m. (p, x, m) \<notin> alias_rel s)"

lemma logi_table_change:
  assumes i: "entity_inv s" and t: "twf t" and u: "logi_unused x s"
    and keep: "live_logi s - {x} \<subseteq> live_set t"
  shows "entity_inv (s\<lparr>gLogicalTable := t\<rparr>)"
proof -
  let ?s = "s\<lparr>gLogicalTable := t\<rparr>"
  have l: "lp_rel ?s = lp_rel s" "lp_keys ?s = lp_keys s" "lp_wf ?s = lp_wf s"
    by (rule lp_frame; simp)+
  have a: "alias_rel ?s = alias_rel s" "alias_keys ?s = alias_keys s" "alias_wf ?s = alias_wf s"
    by (rule alias_frame; simp)+
  have c: "cont_rel ?s = cont_rel s" "cont_keys ?s = cont_keys s" "cont_wf ?s = cont_wf s"
    by (rule cont_frame; simp)+
  have p: "parent_of ?s = parent_of s" "\<And>p. port_phys p ?s = port_phys p s"
    by (rule phys_frame; simp)+
  have "lp_refs ?s" using entity_invD(2) [OF i] u keep by (auto simp: lp_refs_def l logi_unused_def)
  moreover have "alias_refs ?s"
    using entity_invD(3) [OF i] u keep by (fastforce simp: alias_refs_def a p logi_unused_def)
  moreover have "cont_refs ?s" using entity_invD(4) [OF i] by (simp add: cont_refs_def c p)
  ultimately show ?thesis using i t by (simp add: entity_inv_def tables_wf_def)
qed

definition logi_cleared :: "int \<Rightarrow> entity \<Rightarrow> entity \<Rightarrow> bool" where
  "logi_cleared x s s' \<longleftrightarrow>
     entity_inv s' \<and> logi_unused x s' \<and>
     gPhysicalTable s' = gPhysicalTable s \<and> gLogicalTable s' = gLogicalTable s \<and>
     gPhyContainsTableHead s' = gPhyContainsTableHead s \<and>
     alias_rel s' = {(p, l, m) \<in> alias_rel s. l \<noteq> x} \<and>
     lp_rel s' = {(l, p) \<in> lp_rel s. l \<noteq> x}"

lemma logi_cascade_cleared:
  assumes i: "entity_inv s" and x: "x \<in> live_logi s"
  shows "logi_cleared x s (logi_cascade E x s)"
proof -
  obtain r1 s1 where s1: "deleteAliasMappingLogicalIndex E x s = (r1, s1)" by fastforce
  obtain r2 s2 where s2: "deleteLPMappingLogicalIndex E x s1 = (r2, s2)" by fastforce
  have c: "logi_cascade E x s = s2" by (simp add: logi_cascade_def s1 s2)
  note T = entity_invD(1) [OF i]
  have g: "\<not> bad_index x" "getLogicalTableStaleEntry x s = None"
    using x live_bounds [OF T] live_not_stale [OF T] by (auto simp: lookup_None [OF T])
  note e1 = deleteAliasLogical_effect [OF entity_invD(6) [OF i] g s1]
  have i1: "entity_inv s1" using i s1 by (rule deleteAliasLogical_inv)
  have x1: "x \<in> live_logi s1" using x e1 by (simp add: alias_only_def)
  note e2 = deleteLPLogical_effect [OF entity_invD(1) [OF i1] entity_invD(5) [OF i1] x1 s2]
  have i2: "entity_inv s2" using i1 s2 by (rule deleteLPLogical_inv)
  have al: "alias_rel s2 = alias_rel s1" using e2 by (auto simp: lp_only_def intro!: alias_frame)
  have lp: "lp_rel s1 = lp_rel s" using e1 by (auto simp: alias_only_def intro!: lp_frame)
  have "logi_unused x s2" using e1 e2 al by (auto simp: logi_unused_def)
  then show ?thesis
    unfolding c logi_cleared_def using i2 al lp e1 e2 by (auto simp: alias_only_def lp_only_def)
qed

lemma deleteLogical_result:
  assumes t: "tables_wf s"
  shows "deleteLogicalTableEntry E x s =
    (if x \<in> live_logi s
     then (0, configChanged E ((logi_cascade E x s)\<lparr>gLogicalTable :=
                unlink x (gLogicalTable (logi_cascade E x s))\<rparr>))
     else if x \<in> stale_logi s then (-2, s) else (-1, s))"
proof (cases "bad_index x")
  case True
  then show ?thesis
    using t bad_index_unknown [of "gLogicalTable s" x] by (auto simp: tables_wf_def deleteLogicalTableEntry_def)
next
  case False
  then show ?thesis
    using scan_hit [of "gLogicalTable s" x] t
    by (auto simp: deleteLogicalTableEntry_def Let_def tables_wf_def)
qed

lemma staleLogical_result:
  assumes t: "tables_wf s"
  shows "makeLogicalTableEntryStale E x s =
    (if x \<in> live_logi s
     then (0, configChanged E ((logi_cascade E x s)\<lparr>gLogicalTable :=
                reindex x (- x) (gLogicalTable (logi_cascade E x s))\<rparr>))
     else if x \<in> stale_logi s then (-2, s) else (-1, s))"
proof (cases "bad_index x")
  case True
  then show ?thesis
    using t bad_index_unknown [of "gLogicalTable s" x] by (auto simp: tables_wf_def makeLogicalTableEntryStale_def)
next
  case False
  then show ?thesis
    using scan_hit [of "gLogicalTable s" x] t
    by (auto simp: makeLogicalTableEntryStale_def Let_def tables_wf_def)
qed

lemma liveLogical_result:
  assumes t: "tables_wf s"
  shows "makeLogicalTableEntryLive E x s =
    (if x \<in> stale_logi s
     then (0, configChanged E (s\<lparr>gLogicalTable := reindex (- x) x (gLogicalTable s)\<rparr>))
     else if x \<in> live_logi s then (-2, s) else (-1, s))"
proof (cases "bad_index x")
  case True
  then show ?thesis
    using t bad_index_unknown [of "gLogicalTable s" x] by (auto simp: tables_wf_def makeLogicalTableEntryLive_def)
next
  case False
  then show ?thesis
    using scan_hit [of "gLogicalTable s" x] t
    by (auto simp: makeLogicalTableEntryLive_def tables_wf_def)
qed

lemma deleteLogical_inv:
  assumes i: "entity_inv s" and r: "deleteLogicalTableEntry E x s = (r, s')"
  shows "entity_inv s'"
proof (cases "x \<in> live_logi s")
  case True
  let ?c = "logi_cascade E x s"
  have c: "logi_cleared x s ?c" using i True by (rule logi_cascade_cleared)
  then have t: "twf (gLogicalTable ?c)" "gLogicalTable ?c = gLogicalTable s"
    by (auto simp: logi_cleared_def entity_inv_def tables_wf_def)
  have "0 < x" "x \<in> nidx ` set (thead (gLogicalTable s))" using True by (auto simp: live_set_def)
  then have "entity_inv (?c\<lparr>gLogicalTable := unlink x (gLogicalTable ?c)\<rparr>)"
    using c t True sets_unlink(1) [of "gLogicalTable s" x]
    by (intro logi_table_change [of _ _ x] twf_unlink) (auto simp: logi_cleared_def)
  with True r deleteLogical_result [OF entity_invD(1) [OF i]] show ?thesis by auto
next
  case False
  with r i deleteLogical_result [OF entity_invD(1) [OF i], of E x] show ?thesis by (auto split: if_splits)
qed

lemma staleLogical_inv:
  assumes i: "entity_inv s" and r: "makeLogicalTableEntryStale E x s = (r, s')"
  shows "entity_inv s'"
proof (cases "x \<in> live_logi s")
  case True
  let ?c = "logi_cascade E x s"
  have c: "logi_cleared x s ?c" using i True by (rule logi_cascade_cleared)
  then have t: "twf (gLogicalTable ?c)" "gLogicalTable ?c = gLogicalTable s"
    by (auto simp: logi_cleared_def entity_inv_def tables_wf_def)
  have "entity_inv (?c\<lparr>gLogicalTable := reindex x (- x) (gLogicalTable ?c)\<rparr>)"
    using c t True sets_reindex_stale(1) [of "gLogicalTable s" x]
    by (intro logi_table_change [of _ _ x] twf_reindex) (auto simp: logi_cleared_def)
  with True r staleLogical_result [OF entity_invD(1) [OF i]] show ?thesis by auto
next
  case False
  with r i staleLogical_result [OF entity_invD(1) [OF i], of E x] show ?thesis by (auto split: if_splits)
qed

lemma not_live_unused_logi:
  assumes i: "entity_inv s" and x: "x \<notin> live_logi s" "x \<noteq> 0"
  shows "logi_unused x s"
  using entity_invD(2,3) [OF i] x by (auto simp: logi_unused_def lp_refs_def alias_refs_def)

lemma liveLogical_inv:
  assumes i: "entity_inv s" and r: "makeLogicalTableEntryLive E x s = (r, s')"
  shows "entity_inv s'"
proof (cases "x \<in> stale_logi s")
  case True
  note T = entity_invD(1) [OF i]
  have t: "twf (gLogicalTable s)" using T by (simp add: tables_wf_def)
  have "x \<notin> live_logi s" "x \<noteq> 0" using True live_not_stale(2) [OF T] by (auto simp: stale_set_def)
  from not_live_unused_logi [OF i this]
  have "entity_inv (s\<lparr>gLogicalTable := reindex (- x) x (gLogicalTable s)\<rparr>)"
    using t sets_reindex_live(1) [OF t True]
    by (intro logi_table_change [OF i, of _ x] twf_reindex) auto
  with True r liveLogical_result [OF T] show ?thesis by auto
next
  case False
  with r i liveLogical_result [OF entity_invD(1) [OF i], of E x] show ?thesis by (auto split: if_splits)
qed

lemma allocLogical_added:
  assumes t: "tables_wf s" and fresh: "a \<notin> naddr ` set (thead (gLogicalTable s))"
    and room: "room (gLogicalTable s)"
    and r: "allocLogicalEntry E ok a k e s = Some (r, s')"
  shows "(r \<le> 0 \<and> s' = s) \<or>
    (0 < r \<and> 0 \<le> k \<and> k \<le> MAX_ENTITY_INDEX \<and>
     (\<exists>f d t'. logi_defaults e = Some f \<and> \<not> logi_rejected f \<and> build_logi ok f = Built d \<and>
       add_to_table \<lparr>naddr = a, nidx = k, ndata = d\<rparr> (gLogicalTable s) = Some (r, t') \<and>
       added \<lparr>naddr = a, nidx = k, ndata = d\<rparr> r (gLogicalTable s) t' \<and>
       s' = configChanged E (s\<lparr>gLogicalTable := t'\<rparr>)))"
proof (cases "r \<le> 0 \<and> s' = s")
  case False
  then obtain f d where d: "logi_defaults e = Some f" "\<not> logi_rejected f" "build_logi ok f = Built d"
      "0 \<le> k" "k \<le> MAX_ENTITY_INDEX"
    and a: "AddToLogicalTable E \<lparr>naddr = a, nidx = k, ndata = d\<rparr> s = Some (r, s')"
    using r by (auto simp: allocLogicalEntry_def split: if_splits built.splits option.splits)
  let ?x = "\<lparr>naddr = a, nidx = k, ndata = d\<rparr>"
  from a obtain t' where t': "add_to_table ?x (gLogicalTable s) = Some (r, t')"
    "s' = configChanged E (s\<lparr>gLogicalTable := t'\<rparr>)"
    by (auto simp: AddToLogicalTable_def split: option.splits)
  have "added ?x r (gLogicalTable s) t'"
    using t fresh room d(5) t'(1) by (intro add_to_table_added) (auto simp: tables_wf_def)
  moreover from this have "0 < r" by (simp add: added_def)
  ultimately show ?thesis using d t' by blast
qed simp

lemma allocLogical_inv:
  assumes i: "entity_inv s" and fresh: "a \<notin> naddr ` set (thead (gLogicalTable s))"
    and room: "room (gLogicalTable s)" and r: "allocLogicalEntry E ok a k e s = Some (r, s')"
  shows "entity_inv s'"
proof (cases "s' = s")
  case False
  with allocLogical_added [OF entity_invD(1) [OF i] fresh room r] obtain x t'
    where ad: "added x r (gLogicalTable s) t'" "s' = configChanged E (s\<lparr>gLogicalTable := t'\<rparr>)"
    by blast
  have "r \<notin> live_logi s" "r \<noteq> 0" using added_fresh [OF ad(1)] by simp_all
  from not_live_unused_logi [OF i this] ad(1) have "entity_inv (s\<lparr>gLogicalTable := t'\<rparr>)"
    using sets_added(1) [OF ad(1)] by (intro logi_table_change [OF i, of _ r]) (auto simp: added_def)
  with ad(2) show ?thesis by simp
qed (use i in simp)

end
