(* ===== verification/Entity_Runs.thy ===== *)
theory Entity_Runs
  imports Entity_Invariant
begin

text \<open>
  The module as its clients see it: the twenty calls of its interface and the alarm that
  the agent delivers, the states that sequences of them reach from initialisation, and the
  invariants of those states by rule induction.
\<close>

section \<open>Calls\<close>

datatype entity_call =
  Alloc_physical addr int entPhysicalEntry
| Delete_physical int | Stale_physical int | Live_physical int
| Alloc_logical addr int entLogicalEntry
| Delete_logical int | Stale_logical int | Live_logical int
| Add_lp int int | Delete_lp int int | Delete_lp_logical int | Delete_lp_physical int
| Add_alias int int "oid option" int | Delete_alias int int
| Delete_alias_physical int | Delete_alias_logical int
| Add_contains int int | Delete_contains int int | Delete_contains_parent int | Delete_contains_child int
| Alarm_fires

fun run_call :: "snmp_env \<Rightarrow> (nat \<Rightarrow> bool) \<Rightarrow> entity_call \<Rightarrow> entity \<Rightarrow> (int \<times> entity) option" where
  "run_call E ok (Alloc_physical a k e) s = allocPhysicalEntry E ok a k e s"
| "run_call E ok (Delete_physical x) s = Some (deletePhysicalTableEntry E ok x s)"
| "run_call E ok (Stale_physical x) s = Some (makePhysicalTableEntryStale E ok x s)"
| "run_call E ok (Live_physical x) s = Some (makePhysicalTableEntryLive E x s)"
| "run_call E ok (Alloc_logical a k e) s = allocLogicalEntry E ok a k e s"
| "run_call E ok (Delete_logical x) s = Some (deleteLogicalTableEntry E x s)"
| "run_call E ok (Stale_logical x) s = Some (makeLogicalTableEntryStale E x s)"
| "run_call E ok (Live_logical x) s = Some (makeLogicalTableEntryLive E x s)"
| "run_call E ok (Add_lp l p) s = addLPMappingTableEntry E ok l p s"
| "run_call E ok (Delete_lp l p) s = Some (deleteLPMappingTableEntry E l p s)"
| "run_call E ok (Delete_lp_logical l) s = Some (deleteLPMappingLogicalIndex E l s)"
| "run_call E ok (Delete_lp_physical p) s = Some (deleteLPMappingPhysicalIndex E p s)"
| "run_call E ok (Add_alias p l m n) s = addAliasMappingTableEntry E ok p l m n s"
| "run_call E ok (Delete_alias p l) s = Some (deleteAliasMappingTableEntry E p l s)"
| "run_call E ok (Delete_alias_physical p) s = Some (deleteAliasMappingPhysicalIndex E p s)"
| "run_call E ok (Delete_alias_logical l) s = Some (deleteAliasMappingLogicalIndex E l s)"
| "run_call E ok (Add_contains p c) s = addPhysicalContainsTableEntry E ok p c s"
| "run_call E ok (Delete_contains p c) s = Some (deletePhysicalContainsTableEntry E p c s)"
| "run_call E ok (Delete_contains_parent p) s = Some (deletePhysicalContainsParentIndex E ok p s)"
| "run_call E ok (Delete_contains_child c) s = Some (deletePhysicalContainsChildIndex E c s)"
| "run_call E ok Alarm_fires s = Some (0, s\<lparr>lastChange := alarm_entLastChangeTime E (lastChange s)\<rparr>)"

text \<open>
  What the allocator owes an allocation: an address that is not in use. The second
  condition leaves out the two situations in which the table code goes wrong: the
  largest index is in use, or the tail pointer dangles in a table of more than 200 entries.
\<close>

fun admissible :: "entity_call \<Rightarrow> entity \<Rightarrow> bool" where
  "admissible (Alloc_physical a k e) s \<longleftrightarrow>
     a \<notin> naddr ` set (thead (gPhysicalTable s)) \<and> room (gPhysicalTable s)"
| "admissible (Alloc_logical a k e) s \<longleftrightarrow>
     a \<notin> naddr ` set (thead (gLogicalTable s)) \<and> room (gLogicalTable s)"
| "admissible c s \<longleftrightarrow> True"

text \<open>The states reached when every allocation request is answered by a member of \<open>A\<close>.\<close>

inductive reachable :: "(nat \<Rightarrow> bool) set \<Rightarrow> entity \<Rightarrow> bool" for A where
  initialised: "reachable A (init_entity E s)"
| called: "reachable A s \<Longrightarrow> ok \<in> A \<Longrightarrow> admissible c s \<Longrightarrow> run_call E ok c s = Some (r, s') \<Longrightarrow>
    reachable A s'"

text \<open>A sequence of calls in which each returns.\<close>

fun run_calls :: "snmp_env \<Rightarrow> (nat \<Rightarrow> bool) \<Rightarrow> entity_call list \<Rightarrow> entity \<Rightarrow> (int list \<times> entity) option" where
  "run_calls E ok [] s = Some ([], s)"
| "run_calls E ok (c # cs) s =
     (if admissible c s then
        (case run_call E ok c s of
           None \<Rightarrow> None
         | Some (r, s') \<Rightarrow> map_option (\<lambda>(rs, u). (r # rs, u)) (run_calls E ok cs s'))
      else None)"

text \<open>
  A small machine to evaluate the model on: the globals as the program starts with them, a
  chassis, a port in it and a logical entity.
\<close>

definition static_entity :: entity where
  "static_entity = \<lparr>gPhysicalTable = empty_table, gLogicalTable = empty_table,
     gLPMappingTableHead = [], gLPMappingTableSize = 0, gAliasMappingTableHead = [],
     gAliasMappingTableSize = 0, gPhyContainsTableHead = [], gPhyContainsTableSize = 0,
     lastChange = lc_static\<rparr>"

definition demo_phys :: "int \<Rightarrow> int \<Rightarrow> int \<Rightarrow> entPhysicalEntry" where
  "demo_phys cls p pos = \<lparr>entPhysicalDescr = Some ''part'', entPhysicalVendorType = None,
     entPhysicalVendorTypeSize = 0, entPhysicalContainedIn = p, entPhysicalClass = cls,
     entPhysicalParentRelPos = pos, entPhysicalName = None, entPhysicalHardwareRev = None,
     entPhysicalFirmwareRev = None, entPhysicalSoftwareRev = None, entPhysicalSerialNum = None,
     entPhysicalMfgName = None, entPhysicalModelName = None, entPhysicalAlias = None,
     entPhysicalAssetID = None, entPhysicalIsFRU = MIB_FALSE\<rparr>"

definition demo_logi :: entLogicalEntry where
  "demo_logi = \<lparr>entLogicalDescr = Some ''agent'', entLogicalType = None, entLogicalTypeSize = 0,
     entLogicalCommunity = None, entLogicalTAddress = Some ''1'', entLogicalTDomain = Some [1, 3],
     entLogicalTDomainSize = 16, entLogicalContextEngineId = None, entLogicalContextName = None\<rparr>"

abbreviation demo :: snmp_env where
  "demo \<equiv> demo_env (\<lambda>n. int n)"

definition demo_calls :: "entity_call list" where
  "demo_calls = [Alloc_physical 1 0 (demo_phys 3 0 (-1)), Alloc_physical 2 0 (demo_phys 10 1 1),
     Alloc_logical 1 0 demo_logi, Add_lp 1 2, Add_alias 2 1 (Some [1, 3]) 16, Add_contains 1 2]"

definition after_calls :: "entity_call list \<Rightarrow> entity" where
  "after_calls cs = (case run_calls demo all_ok cs (init_entity demo static_entity) of
     None \<Rightarrow> static_entity | Some (rs, s) \<Rightarrow> s)"

section \<open>The invariant holds in every reachable state\<close>

lemma init_entity_inv: "entity_inv (init_entity E s)"
proof -
  let ?s = "init_entity E s"
  have e: "gPhysicalTable ?s = empty_table" "gLogicalTable ?s = empty_table"
    "gLPMappingTableHead ?s = []" "gLPMappingTableSize ?s = 0"
    "gAliasMappingTableHead ?s = []" "gAliasMappingTableSize ?s = 0"
    "gPhyContainsTableHead ?s = []" "gPhyContainsTableSize ?s = 0"
    by (simp_all add: init_entity_def init_entPhysicalTable_def init_entLogicalTable_def
        init_entLPMappingTable_def init_entAliasMappingTable_def init_entPhysicalContainsTable_def
        Let_def empty_table_def)
  then show ?thesis
    by (simp add: entity_inv_def tables_wf_def lp_refs_def lp_wf_def lp_keys_def lp_rel_def
        alias_refs_def alias_wf_def alias_keys_def alias_rel_def cont_refs_def cont_wf_def
        cont_keys_def cont_rel_def)
qed

lemma alarm_frame:
  "entity_inv (s\<lparr>lastChange := l\<rparr>) = entity_inv s" "cont_rel (s\<lparr>lastChange := l\<rparr>) = cont_rel s"
proof -
  let ?s = "s\<lparr>lastChange := l\<rparr>"
  have "lp_rel ?s = lp_rel s" "lp_keys ?s = lp_keys s" "lp_wf ?s = lp_wf s" by (rule lp_frame; simp)+
  moreover have "alias_rel ?s = alias_rel s" "alias_keys ?s = alias_keys s" "alias_wf ?s = alias_wf s"
    by (rule alias_frame; simp)+
  moreover show c: "cont_rel ?s = cont_rel s" by (rule cont_frame) simp_all
  moreover have "cont_keys ?s = cont_keys s" "cont_wf ?s = cont_wf s" by (rule cont_frame; simp)+
  moreover have "parent_of ?s = parent_of s" "\<And>p. port_phys p ?s = port_phys p s"
    by (rule phys_frame; simp)+
  ultimately show "entity_inv ?s = entity_inv s"
    by (simp add: entity_inv_def lp_refs_def alias_refs_def cont_refs_def tables_wf_def)
qed

lemmas call_invs =
  allocPhysical_inv deletePhysical_inv stalePhysical_inv livePhysical_inv
  allocLogical_inv deleteLogical_inv staleLogical_inv liveLogical_inv
  addLP_inv deleteLP_inv deleteLPLogical_inv deleteLPPhysical_inv
  addAlias_inv deleteAlias_inv deleteAliasPhysical_inv deleteAliasLogical_inv
  addContains_inv deleteContains_inv deleteParent_inv deleteChild_inv

lemma run_call_inv:
  assumes "entity_inv s" "admissible c s" "run_call E ok c s = Some (r, s')"
  shows "entity_inv s'"
proof (cases "c = Alarm_fires")
  case True
  with assms show ?thesis by (auto simp: alarm_frame)
next
  case False
  with assms show ?thesis by (cases c) (simp_all, (blast intro: call_invs)+)
qed

lemma reachable_inv: "reachable A s \<Longrightarrow> entity_inv s"
  by (induction rule: reachable.induct) (auto intro: init_entity_inv run_call_inv)

lemma run_calls_reachable:
  "reachable A s \<Longrightarrow> ok \<in> A \<Longrightarrow> run_calls E ok cs s = Some (rs, s') \<Longrightarrow> reachable A s'"
proof (induction cs arbitrary: s rs)
  case (Cons c cs)
  then obtain r s1 rs' where "admissible c s" "run_call E ok c s = Some (r, s1)"
    "run_calls E ok cs s1 = Some (rs', s')"
    by (auto split: if_splits option.splits)
  with Cons show ?case by (meson called)
qed simp

lemma after_calls_reachable:
  assumes "run_calls demo all_ok cs (init_entity demo static_entity) \<noteq> None" "all_ok \<in> A"
  shows "reachable A (after_calls cs)"
proof -
  obtain rs s where s: "run_calls demo all_ok cs (init_entity demo static_entity) = Some (rs, s)"
    using assms(1) by auto
  have "reachable A s" using initialised assms(2) s by (rule run_calls_reachable)
  with s show ?thesis by (simp add: after_calls_def)
qed

lemma demo_runs: "run_calls demo all_ok demo_calls (init_entity demo static_entity) \<noteq> None"
  by code_simp

lemma demo_reachable: "all_ok \<in> A \<Longrightarrow> reachable A (after_calls demo_calls)"
  using demo_runs by (rule after_calls_reachable)

section \<open>Which part of the state a call touches\<close>

lemma lp_calls_only:
  assumes i: "entity_inv s"
  shows "addLPMappingTableEntry E ok l p s = Some (r, s') \<Longrightarrow> lp_only s s'"
    and "deleteLPMappingTableEntry E l p s = (r, s') \<Longrightarrow> lp_only s s'"
    and "deleteLPMappingPhysicalIndex E p s = (r, s') \<Longrightarrow> lp_only s s'"
    and "deleteLPMappingLogicalIndex E l s = (r, s') \<Longrightarrow> lp_only s s'"
proof -
  note T = entity_invD(1) [OF i] and W = entity_invD(5) [OF i]
  show "addLPMappingTableEntry E ok l p s = Some (r, s') \<Longrightarrow> lp_only s s'"
    using addLP_effect [OF T W] by (fastforce simp: lp_added_def)
  show "deleteLPMappingTableEntry E l p s = (r, s') \<Longrightarrow> lp_only s s'"
    using deleteLP_effect [OF T W] by (fastforce simp: lp_deleted_def)
  show "deleteLPMappingPhysicalIndex E p s = (r, s') \<Longrightarrow> lp_only s s'"
    using deleteLPPhysical_effect [OF T W, of p E] deleteLPPhysical_not_live [OF T, of p E]
    by (cases "p \<in> live_phys s") auto
  show "deleteLPMappingLogicalIndex E l s = (r, s') \<Longrightarrow> lp_only s s'"
    using deleteLPLogical_effect [OF T W, of l E] deleteLPLogical_not_live [OF T, of l E]
    by (cases "l \<in> live_logi s") auto
qed

lemma alias_calls_only:
  assumes i: "entity_inv s"
  shows "addAliasMappingTableEntry E ok p l m n s = Some (r, s') \<Longrightarrow> alias_only s s'"
    and "deleteAliasMappingTableEntry E p l s = (r, s') \<Longrightarrow> alias_only s s'"
    and "deleteAliasMappingPhysicalIndex E p s = (r, s') \<Longrightarrow> alias_only s s'"
    and "deleteAliasMappingLogicalIndex E l s = (r, s') \<Longrightarrow> alias_only s s'"
proof -
  note T = entity_invD(1) [OF i] and W = entity_invD(6) [OF i]
  show "addAliasMappingTableEntry E ok p l m n s = Some (r, s') \<Longrightarrow> alias_only s s'"
    using addAlias_effect [OF T W] by (fastforce simp: alias_added_def)
  show "deleteAliasMappingTableEntry E p l s = (r, s') \<Longrightarrow> alias_only s s'"
    using deleteAlias_effect [OF W] by fastforce
  show "deleteAliasMappingPhysicalIndex E p s = (r, s') \<Longrightarrow> alias_only s s'"
    using deleteAliasPhysical_effect [OF W, of p E] deleteAliasPhysical_refused [of p s E]
    by (cases "\<not> bad_index p \<and> getPhysicalTableStaleEntry p s = None") auto
  show "deleteAliasMappingLogicalIndex E l s = (r, s') \<Longrightarrow> alias_only s s'"
    using deleteAliasLogical_effect [OF W, of l E] deleteAliasLogical_refused [of l s E]
    by (cases "\<not> bad_index l \<and> getLogicalTableStaleEntry l s = None") auto
qed

lemma cont_calls_only:
  assumes i: "entity_inv s"
  shows "addPhysicalContainsTableEntry E ok p c s = Some (r, s') \<Longrightarrow> cont_only s s'"
    and "deletePhysicalContainsTableEntry E p c s = (r, s') \<Longrightarrow> cont_only s s' \<and> cont_rel s' \<subseteq> cont_rel s"
    and "deletePhysicalContainsParentIndex E ok p s = (r, s') \<Longrightarrow> cont_only s s' \<and> cont_rel s' \<subseteq> cont_rel s"
    and "deletePhysicalContainsChildIndex E c s = (r, s') \<Longrightarrow> cont_only s s' \<and> cont_rel s' \<subseteq> cont_rel s"
proof -
  note T = entity_invD(1) [OF i] and W = entity_invD(7) [OF i]
  have K: "\<forall>q \<in> cont_keys s. q \<in> live_phys s" using entity_invD(4) [OF i] by (auto simp: cont_refs_def)
  show "addPhysicalContainsTableEntry E ok p c s = Some (r, s') \<Longrightarrow> cont_only s s'"
    using addContains_effect [OF T W] by (fastforce simp: cont_added_def cont_dropped_def)
  show "deletePhysicalContainsTableEntry E p c s = (r, s') \<Longrightarrow> cont_only s s' \<and> cont_rel s' \<subseteq> cont_rel s"
    using deleteContains_effect [OF T W] by (fastforce simp: cont_deleted_def)
  show "deletePhysicalContainsParentIndex E ok p s = (r, s') \<Longrightarrow> cont_only s s' \<and> cont_rel s' \<subseteq> cont_rel s"
    using deleteParent_effect [OF T W, of p E ok] deleteParent_no_node [of p s E ok] K
    by (cases "p \<in> live_phys s") (auto simp: parent_deleted_def)
  show "deletePhysicalContainsChildIndex E c s = (r, s') \<Longrightarrow> cont_only s s' \<and> cont_rel s' \<subseteq> cont_rel s"
    using deleteChild_effect [OF T W _ _ K, of c E] deleteChild_refused [OF T, of c E]
    by (cases "\<not> bad_index c \<and> c \<notin> stale_phys s") (auto simp: child_deleted_def)
qed

section \<open>No cycle in the containment table\<close>

lemma cascade_cont_rel:
  assumes "entity_inv s" "x \<in> live_phys s"
  shows "cont_rel ((phys_cascade E ok x s)\<lparr>gPhysicalTable := t\<rparr>) \<subseteq> cont_rel s"
proof -
  have "cont_rel ((phys_cascade E ok x s)\<lparr>gPhysicalTable := t\<rparr>) = cont_rel (phys_cascade E ok x s)"
    by (rule cont_frame) simp_all
  then show ?thesis using phys_cascade_cleared [OF assms, of E ok] by (auto simp: phys_cleared_def)
qed

lemma table_update_cont_rel [simp]:
  "cont_rel (s\<lparr>gPhysicalTable := t\<rparr>) = cont_rel s" "cont_rel (s\<lparr>gLogicalTable := u\<rparr>) = cont_rel s"
  by (rule cont_frame; simp)+

lemma lp_alias_only_cont_rel:
  "lp_only s s' \<Longrightarrow> cont_rel s' = cont_rel s" "alias_only s s' \<Longrightarrow> cont_rel s' = cont_rel s"
  by (rule cont_frame; simp add: lp_only_def alias_only_def)+

lemma logi_cascade_cont_rel:
  assumes "entity_inv s" "x \<in> live_logi s"
  shows "cont_rel (logi_cascade E x s) = cont_rel s"
  using logi_cascade_cleared [OF assms, of E] by (simp add: logi_cleared_def cont_rel_def)

lemma physical_calls_cont_rel:
  assumes i: "entity_inv s"
  shows "deletePhysicalTableEntry E ok x s = (r, s') \<Longrightarrow> cont_rel s' \<subseteq> cont_rel s"
    and "makePhysicalTableEntryStale E ok x s = (r, s') \<Longrightarrow> cont_rel s' \<subseteq> cont_rel s"
    and "makePhysicalTableEntryLive E x s = (r, s') \<Longrightarrow> cont_rel s' \<subseteq> cont_rel s"
proof -
  have c: "cont_rel (phys_cascade E ok x s) \<subseteq> cont_rel s" if "x \<in> live_phys s"
    using cascade_cont_rel [OF i that] by simp
  have "cont_rel (snd (deletePhysicalTableEntry E ok x s)) \<subseteq> cont_rel s"
    "cont_rel (snd (makePhysicalTableEntryStale E ok x s)) \<subseteq> cont_rel s"
    "cont_rel (snd (makePhysicalTableEntryLive E x s)) \<subseteq> cont_rel s"
    using c by (simp_all add: deletePhysical_result [OF i] stalePhysical_result [OF i]
        livePhysical_result [OF entity_invD(1) [OF i]])
  then show "deletePhysicalTableEntry E ok x s = (r, s') \<Longrightarrow> cont_rel s' \<subseteq> cont_rel s"
    "makePhysicalTableEntryStale E ok x s = (r, s') \<Longrightarrow> cont_rel s' \<subseteq> cont_rel s"
    "makePhysicalTableEntryLive E x s = (r, s') \<Longrightarrow> cont_rel s' \<subseteq> cont_rel s" by simp_all
qed

lemma logical_calls_cont_rel:
  assumes i: "entity_inv s"
  shows "deleteLogicalTableEntry E x s = (r, s') \<Longrightarrow> cont_rel s' \<subseteq> cont_rel s"
    and "makeLogicalTableEntryStale E x s = (r, s') \<Longrightarrow> cont_rel s' \<subseteq> cont_rel s"
    and "makeLogicalTableEntryLive E x s = (r, s') \<Longrightarrow> cont_rel s' \<subseteq> cont_rel s"
proof -
  note T = entity_invD(1) [OF i]
  have "cont_rel (snd (deleteLogicalTableEntry E x s)) \<subseteq> cont_rel s"
    "cont_rel (snd (makeLogicalTableEntryStale E x s)) \<subseteq> cont_rel s"
    "cont_rel (snd (makeLogicalTableEntryLive E x s)) \<subseteq> cont_rel s"
    using logi_cascade_cont_rel [OF i, of x E]
    by (simp_all add: deleteLogical_result [OF T] staleLogical_result [OF T] liveLogical_result [OF T])
  then show "deleteLogicalTableEntry E x s = (r, s') \<Longrightarrow> cont_rel s' \<subseteq> cont_rel s"
    "makeLogicalTableEntryStale E x s = (r, s') \<Longrightarrow> cont_rel s' \<subseteq> cont_rel s"
    "makeLogicalTableEntryLive E x s = (r, s') \<Longrightarrow> cont_rel s' \<subseteq> cont_rel s" by simp_all
qed

lemma alloc_calls_cont_rel:
  "allocPhysicalEntry E ok a k e s = Some (r, s') \<Longrightarrow> cont_rel s' \<subseteq> cont_rel s"
  "allocLogicalEntry E ok a k f s = Some (r, s') \<Longrightarrow> cont_rel s' \<subseteq> cont_rel s"
proof -
  show "allocPhysicalEntry E ok a k e s = Some (r, s') \<Longrightarrow> cont_rel s' \<subseteq> cont_rel s"
    by (simp add: allocPhysicalEntry_def AddToPhysicalTable_def Let_def
        split: if_splits built.splits option.splits prod.splits) auto
  show "allocLogicalEntry E ok a k f s = Some (r, s') \<Longrightarrow> cont_rel s' \<subseteq> cont_rel s"
    by (simp add: allocLogicalEntry_def AddToLogicalTable_def
        split: if_splits built.splits option.splits prod.splits) auto
qed

lemma run_call_cont_rel:
  assumes i: "entity_inv s" and r: "run_call E ok c s = Some (r, s')"
  shows "cont_rel s' \<subseteq> cont_rel s \<or>
    (\<exists>p q k. isRecursiveChild ok s q p 0 = Some (False, k) \<and> cont_rel s' = insert (p, q) (cont_rel s))"
proof -
  note shrinks = lp_calls_only [OF i, THEN lp_alias_only_cont_rel(1), THEN equalityD1]
    alias_calls_only [OF i, THEN lp_alias_only_cont_rel(2), THEN equalityD1]
    cont_calls_only(2-4) [OF i, THEN conjunct2] physical_calls_cont_rel [OF i]
    logical_calls_cont_rel [OF i] alloc_calls_cont_rel
  from r show ?thesis
  proof (cases c)
    case (Add_contains p q)
    with r addContains_effect [OF entity_invD(1) [OF i] entity_invD(7) [OF i], of E ok p q r s']
    show ?thesis by (auto simp: cont_added_def cont_dropped_def)
  next
    case Alarm_fires
    with r show ?thesis by (auto simp: alarm_frame)
  qed (simp_all, (rule disjI1, erule shrinks)+)
qed

lemma reachable_acyclic:
  assumes "reachable A s" "\<forall>ok \<in> A. \<forall>k. ok k"
  shows "acyclic (cont_rel s)"
  using assms
proof (induction rule: reachable.induct)
  case (initialised E s)
  have "cont_rel (init_entity E s) = {}"
    by (simp add: cont_rel_def init_entity_def init_entPhysicalContainsTable_def Let_def)
  then show ?case by (simp add: acyclic_def)
next
  case (called s ok c E r s')
  have i: "entity_inv s" using called.hyps(1) by (rule reachable_inv)
  have ac: "acyclic (cont_rel s)" using called by blast
  have ok: "\<forall>k. ok k" using called by blast
  from run_call_cont_rel [OF i called.hyps(4)] show ?case
  proof (elim disjE exE conjE)
    assume "cont_rel s' \<subseteq> cont_rel s"
    with ac show ?thesis by (rule acyclic_subset)
  next
    fix p q k
    assume n: "isRecursiveChild ok s q p 0 = Some (False, k)" "cont_rel s' = insert (p, q) (cont_rel s)"
    have "\<forall>a x. (a, x) \<in> cont_rel s \<longrightarrow> getPhysicalTableEntry a s \<noteq> None"
      using entity_invD(4) [OF i] cont_keys_rel lookup_None(1) [OF entity_invD(1) [OF i]]
      by (fastforce simp: cont_refs_def)
    from isRecursiveChild_complete [OF n(1) ok entity_invD(7) [OF i] this] ac n(2)
    show ?thesis by (simp add: acyclic_insert)
  qed
qed

section \<open>The stored entries respect the limits of the MIB\<close>

definition within :: "int \<Rightarrow> cstring \<Rightarrow> bool" where
  "within n x = (case x of None \<Rightarrow> False | Some y \<Rightarrow> strlen y \<le> n)"

definition oid_typed :: "oid option \<Rightarrow> int \<Rightarrow> bool" where
  "oid_typed v n = (case v of None \<Rightarrow> False | Some x \<Rightarrow> 0 \<le> n \<and> int (length x) = n div sizeof_oid)"

definition phys_typed :: "entPhysicalEntry \<Rightarrow> bool" where
  "phys_typed d \<longleftrightarrow>
     within 255 (entPhysicalDescr d) \<and> oid_typed (entPhysicalVendorType d) (entPhysicalVendorTypeSize d) \<and>
     1 \<le> entPhysicalClass d \<and> entPhysicalClass d \<le> 11 \<and>
     -1 \<le> entPhysicalParentRelPos d \<and> entPhysicalParentRelPos d \<le> MAX_ENTITY_INDEX \<and>
     within 255 (entPhysicalName d) \<and> within 255 (entPhysicalHardwareRev d) \<and>
     within 255 (entPhysicalFirmwareRev d) \<and> within 255 (entPhysicalSoftwareRev d) \<and>
     within 32 (entPhysicalSerialNum d) \<and> within 255 (entPhysicalMfgName d) \<and>
     within 255 (entPhysicalModelName d) \<and> within 32 (entPhysicalAlias d) \<and>
     within 32 (entPhysicalAssetID d) \<and>
     (entPhysicalIsFRU d = MIB_TRUE \<or> entPhysicalIsFRU d = MIB_FALSE)"

definition logi_typed :: "entLogicalEntry \<Rightarrow> bool" where
  "logi_typed d \<longleftrightarrow>
     within 255 (entLogicalDescr d) \<and> oid_typed (entLogicalType d) (entLogicalTypeSize d) \<and>
     within 255 (entLogicalCommunity d) \<and> within 255 (entLogicalTAddress d) \<and>
     entLogicalTAddress d \<noteq> Some [] \<and> oid_typed (entLogicalTDomain d) (entLogicalTDomainSize d) \<and>
     within 32 (entLogicalContextEngineId d) \<and> within 255 (entLogicalContextName d)"

definition entity_typed :: "entity \<Rightarrow> bool" where
  "entity_typed s \<longleftrightarrow>
     (\<forall>n \<in> set (thead (gPhysicalTable s)). phys_typed (ndata n)) \<and>
     (\<forall>m \<in> set (thead (gLogicalTable s)). logi_typed (ndata m))"

lemma within_longer: "x \<noteq> None \<Longrightarrow> \<not> longer_than x n \<Longrightarrow> within n x"
  by (auto simp: within_def longer_than_def)

lemma memcpy_oid_typed: "memcpy_oid x n = Some v \<Longrightarrow> oid_typed (Some v) n"
  by (auto simp: memcpy_oid_def oid_typed_def sizeof_oid_def split: if_splits)

lemma build_phys_Built:
  assumes "build_phys ok e = Built d"
  shows "\<exists>v. d = e\<lparr>entPhysicalVendorType := Some v\<rparr> \<and>
    memcpy_oid (slots (entPhysicalVendorType e)) (entPhysicalVendorTypeSize e) = Some v"
  using assms by (auto simp: build_phys_def split: sum.splits option.splits)

lemma build_logi_Built:
  assumes "build_logi ok e = Built d"
  shows "\<exists>v w. d = e\<lparr>entLogicalType := Some v, entLogicalTDomain := Some w\<rparr> \<and>
    memcpy_oid (slots (entLogicalType e)) (entLogicalTypeSize e) = Some v \<and>
    memcpy_oid (slots (entLogicalTDomain e)) (entLogicalTDomainSize e) = Some w"
  using assms by (auto simp: build_logi_def split: sum.splits option.splits)

lemma phys_defaults_nonnull:
  "entPhysicalDescr (phys_defaults e) = entPhysicalDescr e"
  "entPhysicalName (phys_defaults e) \<noteq> None" "entPhysicalHardwareRev (phys_defaults e) \<noteq> None"
  "entPhysicalFirmwareRev (phys_defaults e) \<noteq> None" "entPhysicalSoftwareRev (phys_defaults e) \<noteq> None"
  "entPhysicalSerialNum (phys_defaults e) \<noteq> None" "entPhysicalMfgName (phys_defaults e) \<noteq> None"
  "entPhysicalModelName (phys_defaults e) \<noteq> None" "entPhysicalAlias (phys_defaults e) \<noteq> None"
  "entPhysicalAssetID (phys_defaults e) \<noteq> None"
  by (simp_all add: phys_defaults_def Let_def)

lemma built_phys_typed:
  assumes d: "entPhysicalDescr e \<noteq> None" and r: "\<not> phys_rejected (phys_defaults e) s"
    and b: "build_phys ok (phys_defaults e) = Built d"
  shows "phys_typed d"
proof -
  let ?e = "phys_defaults e"
  obtain v where v: "d = ?e\<lparr>entPhysicalVendorType := Some v\<rparr>"
    "memcpy_oid (slots (entPhysicalVendorType ?e)) (entPhysicalVendorTypeSize ?e) = Some v"
    using build_phys_Built [OF b] by blast
  have "entPhysicalIsFRU ?e = 1 \<or> entPhysicalIsFRU ?e = 2"
    using r by (auto simp: phys_rejected_def MIB_TRUE_def MIB_FALSE_def)
  with r d phys_defaults_nonnull [of e] memcpy_oid_typed [OF v(2)] show ?thesis
    unfolding v(1) phys_typed_def phys_rejected_def ENTPHYSICAL_CLASS_OTHER_def
      ENTPHYSICAL_CLASS_STACK_def
    by (simp add: within_longer MIB_TRUE_def MIB_FALSE_def not_less)
qed

lemma built_logi_typed:
  assumes f: "logi_defaults e = Some f" and r: "\<not> logi_rejected f" and b: "build_logi ok f = Built d"
  shows "logi_typed d"
proof -
  obtain v w where d: "d = f\<lparr>entLogicalType := Some v, entLogicalTDomain := Some w\<rparr>"
    "memcpy_oid (slots (entLogicalType f)) (entLogicalTypeSize f) = Some v"
    "memcpy_oid (slots (entLogicalTDomain f)) (entLogicalTDomainSize f) = Some w"
    using build_logi_Built [OF b] by blast
  have n: "entLogicalDescr f \<noteq> None" "entLogicalCommunity f \<noteq> None" "entLogicalTAddress f \<noteq> None"
    "entLogicalTAddress f \<noteq> Some []" "entLogicalContextEngineId f \<noteq> None" "entLogicalContextName f \<noteq> None"
    using f by (auto simp: logi_defaults_def Let_def split: if_splits)
  show ?thesis
    using r n memcpy_oid_typed [OF d(2)] memcpy_oid_typed [OF d(3)]
    unfolding d(1) logi_typed_def logi_rejected_def by (simp add: within_longer)
qed

lemma phys_typed_contained: "phys_typed (d\<lparr>entPhysicalContainedIn := v\<rparr>) = phys_typed d"
  by (simp add: phys_typed_def)

lemma skel_typed:
  assumes "phys_skel s' = phys_skel s" "\<forall>n \<in> set (thead (gPhysicalTable s)). phys_typed (ndata n)"
  shows "\<forall>n \<in> set (thead (gPhysicalTable s')). phys_typed (ndata n)"
proof
  fix n
  assume "n \<in> set (thead (gPhysicalTable s'))"
  from skel_data [OF assms(1) this] obtain m where
    m: "m \<in> set (thead (gPhysicalTable s))"
      "(ndata m)\<lparr>entPhysicalContainedIn := 0\<rparr> = (ndata n)\<lparr>entPhysicalContainedIn := 0\<rparr>" by blast
  then have "phys_typed ((ndata n)\<lparr>entPhysicalContainedIn := 0\<rparr>)"
    using assms(2) phys_typed_contained by metis
  then show "phys_typed (ndata n)" by (simp add: phys_typed_contained)
qed

lemma typed_frame:
  assumes "entity_typed s"
  shows "lp_only s s' \<Longrightarrow> entity_typed s'" "alias_only s s' \<Longrightarrow> entity_typed s'"
    "cont_only s s' \<Longrightarrow> entity_typed s'"
  using assms skel_typed [of s' s] by (auto simp: entity_typed_def lp_only_def alias_only_def cont_only_def)

text \<open>The payloads of a table after a removal or a switch are payloads it had before.\<close>

lemma switch_payloads:
  assumes "twf t"
  shows "ndata ` set (thead (unlink x t)) \<subseteq> ndata ` set (thead t)"
    "ndata ` set (thead (reindex x y t)) \<subseteq> ndata ` set (thead t)"
  using set_drop_idx [OF twf_uniq [OF assms], of x] set_idx_map [OF twf_uniq [OF assms], of x y]
  by (auto simp: unlink_def reindex_def)

lemma typed_tables:
  assumes "entity_typed s"
  shows "ndata ` set (thead t) \<subseteq> ndata ` set (thead (gPhysicalTable s)) \<Longrightarrow>
      entity_typed (configChanged E (s\<lparr>gPhysicalTable := t\<rparr>))"
    "ndata ` set (thead u) \<subseteq> ndata ` set (thead (gLogicalTable s)) \<Longrightarrow>
      entity_typed (configChanged E (s\<lparr>gLogicalTable := u\<rparr>))"
proof -
  have all: "(\<forall>n \<in> S. P (ndata n)) \<longleftrightarrow> (\<forall>d \<in> ndata ` S. P d)" for S :: "'b node set" and P by blast
  show "ndata ` set (thead t) \<subseteq> ndata ` set (thead (gPhysicalTable s)) \<Longrightarrow>
      entity_typed (configChanged E (s\<lparr>gPhysicalTable := t\<rparr>))"
    "ndata ` set (thead u) \<subseteq> ndata ` set (thead (gLogicalTable s)) \<Longrightarrow>
      entity_typed (configChanged E (s\<lparr>gLogicalTable := u\<rparr>))"
    using assms unfolding entity_typed_def all by auto
qed

lemma cascade_typed:
  assumes "entity_inv s" "entity_typed s"
  shows "x \<in> live_phys s \<Longrightarrow> entity_typed (phys_cascade E ok x s)"
    "y \<in> live_logi s \<Longrightarrow> entity_typed (logi_cascade E y s)"
  using phys_cascade_cleared [OF assms(1), of x E ok] logi_cascade_cleared [OF assms(1), of y E]
    skel_typed [of "phys_cascade E ok x s" s] assms(2)
  by (auto simp: entity_typed_def phys_cleared_def logi_cleared_def)

lemma physical_calls_typed:
  assumes i: "entity_inv s" and ty: "entity_typed s"
  shows "entity_typed (snd (deletePhysicalTableEntry E ok x s))"
    "entity_typed (snd (makePhysicalTableEntryStale E ok x s))"
    "entity_typed (snd (makePhysicalTableEntryLive E x s))"
proof -
  note T = entity_invD(1) [OF i]
  have c: "twf (gPhysicalTable (phys_cascade E ok x s))" "entity_typed (phys_cascade E ok x s)"
    if "x \<in> live_phys s"
    using cleared_tables(1) [OF phys_cascade_cleared [OF i that]] cascade_typed(1) [OF i ty that] .
  have t: "twf (gPhysicalTable s)" using T by (simp add: tables_wf_def)
  have u: "x \<in> live_phys s \<Longrightarrow> entity_typed (configChanged E ((phys_cascade E ok x s)\<lparr>gPhysicalTable :=
      unlink x (gPhysicalTable (phys_cascade E ok x s))\<rparr>))"
    "x \<in> live_phys s \<Longrightarrow> entity_typed (configChanged E ((phys_cascade E ok x s)\<lparr>gPhysicalTable :=
      reindex x (- x) (gPhysicalTable (phys_cascade E ok x s))\<rparr>))"
    "entity_typed (configChanged E (s\<lparr>gPhysicalTable := reindex (- x) x (gPhysicalTable s)\<rparr>))"
    using c ty t by (auto intro!: typed_tables(1) switch_payloads)
  show "entity_typed (snd (deletePhysicalTableEntry E ok x s))"
    "entity_typed (snd (makePhysicalTableEntryStale E ok x s))"
    "entity_typed (snd (makePhysicalTableEntryLive E x s))"
    using ty u
    by (simp_all add: deletePhysical_result [OF i] stalePhysical_result [OF i] livePhysical_result [OF T])
qed

lemma logical_calls_typed:
  assumes i: "entity_inv s" and ty: "entity_typed s"
  shows "entity_typed (snd (deleteLogicalTableEntry E x s))"
    "entity_typed (snd (makeLogicalTableEntryStale E x s))"
    "entity_typed (snd (makeLogicalTableEntryLive E x s))"
proof -
  note T = entity_invD(1) [OF i]
  have c: "twf (gLogicalTable (logi_cascade E x s))" "entity_typed (logi_cascade E x s)"
    if "x \<in> live_logi s"
    using logi_cascade_cleared [OF i that, of E] cascade_typed(2) [OF i ty that, of E]
    by (auto simp: logi_cleared_def entity_inv_def tables_wf_def)
  have t: "twf (gLogicalTable s)" using T by (simp add: tables_wf_def)
  have u: "x \<in> live_logi s \<Longrightarrow> entity_typed (configChanged E ((logi_cascade E x s)\<lparr>gLogicalTable :=
      unlink x (gLogicalTable (logi_cascade E x s))\<rparr>))"
    "x \<in> live_logi s \<Longrightarrow> entity_typed (configChanged E ((logi_cascade E x s)\<lparr>gLogicalTable :=
      reindex x (- x) (gLogicalTable (logi_cascade E x s))\<rparr>))"
    "entity_typed (configChanged E (s\<lparr>gLogicalTable := reindex (- x) x (gLogicalTable s)\<rparr>))"
    using c ty t by (auto intro!: typed_tables(2) switch_payloads)
  show "entity_typed (snd (deleteLogicalTableEntry E x s))"
    "entity_typed (snd (makeLogicalTableEntryStale E x s))"
    "entity_typed (snd (makeLogicalTableEntryLive E x s))"
    using ty u
    by (simp_all add: deleteLogical_result [OF T] staleLogical_result [OF T] liveLogical_result [OF T])
qed

lemma alloc_calls_typed:
  assumes i: "entity_inv s" and ty: "entity_typed s"
  shows "admissible (Alloc_physical a k e) s \<Longrightarrow> allocPhysicalEntry E ok a k e s = Some (r, s') \<Longrightarrow> entity_typed s'"
    "admissible (Alloc_logical a k f) s \<Longrightarrow> allocLogicalEntry E ok a k f s = Some (r, s') \<Longrightarrow> entity_typed s'"
proof -
  note T = entity_invD(1) [OF i]
  show "admissible (Alloc_physical a k e) s \<Longrightarrow> allocPhysicalEntry E ok a k e s = Some (r, s') \<Longrightarrow> entity_typed s'"
    using ty allocPhysical_added [OF T, of a E ok k e r s'] built_phys_typed [of e s ok]
    by (auto simp: entity_typed_def added_def)
  show "admissible (Alloc_logical a k f) s \<Longrightarrow> allocLogicalEntry E ok a k f s = Some (r, s') \<Longrightarrow> entity_typed s'"
    using ty allocLogical_added [OF T, of a E ok k f r s'] built_logi_typed [of f _ ok]
    by (auto simp: entity_typed_def added_def)
qed

lemma run_call_typed:
  assumes i: "entity_inv s" and ty: "entity_typed s" and a: "admissible c s"
    and r: "run_call E ok c s = Some (r, s')"
  shows "entity_typed s'"
proof -
  have snd_eq: "entity_typed (snd y) \<Longrightarrow> y = (r, s') \<Longrightarrow> entity_typed s'" for y :: "int \<times> entity" by simp
  note kept = typed_frame(1) [OF ty lp_calls_only(1) [OF i]] typed_frame(1) [OF ty lp_calls_only(2) [OF i]]
    typed_frame(1) [OF ty lp_calls_only(3) [OF i]] typed_frame(1) [OF ty lp_calls_only(4) [OF i]]
    typed_frame(2) [OF ty alias_calls_only(1) [OF i]] typed_frame(2) [OF ty alias_calls_only(2) [OF i]]
    typed_frame(2) [OF ty alias_calls_only(3) [OF i]] typed_frame(2) [OF ty alias_calls_only(4) [OF i]]
    typed_frame(3) [OF ty cont_calls_only(1) [OF i]]
    typed_frame(3) [OF ty conjunct1 [OF cont_calls_only(2) [OF i]]]
    typed_frame(3) [OF ty conjunct1 [OF cont_calls_only(3) [OF i]]]
    typed_frame(3) [OF ty conjunct1 [OF cont_calls_only(4) [OF i]]]
    snd_eq [OF physical_calls_typed(1) [OF i ty]] snd_eq [OF physical_calls_typed(2) [OF i ty]]
    snd_eq [OF physical_calls_typed(3) [OF i ty]] snd_eq [OF logical_calls_typed(1) [OF i ty]]
    snd_eq [OF logical_calls_typed(2) [OF i ty]] snd_eq [OF logical_calls_typed(3) [OF i ty]]
  from r show ?thesis
  proof (cases c)
    case (Alloc_physical b k e)
    then show ?thesis using a r alloc_calls_typed(1) [OF i ty, of b k e E ok r s'] by simp
  next
    case (Alloc_logical b k e)
    then show ?thesis using a r alloc_calls_typed(2) [OF i ty, of b k e E ok r s'] by simp
  next
    case Alarm_fires
    with r ty show ?thesis by (auto simp: entity_typed_def)
  qed (simp_all, (erule kept)+)
qed

lemma reachable_typed: "reachable A s \<Longrightarrow> entity_typed s"
proof (induction rule: reachable.induct)
  case (initialised E s)
  then show ?case
    by (simp add: entity_typed_def init_entity_def init_entPhysicalTable_def init_entLogicalTable_def
        init_entLPMappingTable_def init_entAliasMappingTable_def init_entPhysicalContainsTable_def Let_def)
next
  case (called s ok c E r s')
  then show ?case by (meson reachable_inv run_call_typed)
qed

end
