(* ===== verification/Entity_Lifecycle.thy ===== *)
theory Entity_Lifecycle
  imports Entity_Runs
begin

text \<open>
  The life of an entry, stated on reachable states: allocation, deletion, and the switch
  between stale and live, with the rows of the other tables that go with each. The facts
  about a single table come from its interpretation of the directory contract.
\<close>

section \<open>Looking at a live or stale entry\<close>

text \<open>All fields of an entry but \<^verbatim>\<open>entPhysicalContainedIn\<close>.\<close>

definition phys_record :: "int \<Rightarrow> entity \<Rightarrow> entPhysicalEntry option" where
  "phys_record y s = map_option (\<lambda>n. (ndata n)\<lparr>entPhysicalContainedIn := 0\<rparr>) (getPhysicalTableEntry y s)"

definition phys_stale_record :: "int \<Rightarrow> entity \<Rightarrow> entPhysicalEntry option" where
  "phys_stale_record y s =
     map_option (\<lambda>n. (ndata n)\<lparr>entPhysicalContainedIn := 0\<rparr>) (getPhysicalTableStaleEntry y s)"

definition logi_record :: "int \<Rightarrow> entity \<Rightarrow> entLogicalEntry option" where
  "logi_record y s = map_option ndata (getLogicalTableEntry y s)"

definition logi_stale_record :: "int \<Rightarrow> entity \<Rightarrow> entLogicalEntry option" where
  "logi_stale_record y s = map_option ndata (getLogicalTableStaleEntry y s)"

lemma phys_record_alt:
  "phys_record y s = map_option (\<lambda>d. d\<lparr>entPhysicalContainedIn := 0\<rparr>) (map_option ndata (get_live y (gPhysicalTable s)))"
  "phys_stale_record y s = map_option (\<lambda>d. d\<lparr>entPhysicalContainedIn := 0\<rparr>) (map_option ndata (get_stale y (gPhysicalTable s)))"
  by (simp_all add: phys_record_def phys_stale_record_def getPhysicalTableEntry_def
      getPhysicalTableStaleEntry_def option.map_comp comp_def)

lemma logi_record_alt:
  "logi_record y s = map_option ndata (get_live y (gLogicalTable s))"
  "logi_stale_record y s = map_option ndata (get_stale y (gLogicalTable s))"
  by (simp_all add: logi_record_def logi_stale_record_def getLogicalTableEntry_def getLogicalTableStaleEntry_def)

lemma record_None:
  assumes "tables_wf s"
  shows "phys_record y s = None \<longleftrightarrow> y \<notin> live_phys s" "phys_stale_record y s = None \<longleftrightarrow> y \<notin> stale_phys s"
    "logi_record y s = None \<longleftrightarrow> y \<notin> live_logi s" "logi_stale_record y s = None \<longleftrightarrow> y \<notin> stale_logi s"
  by (simp_all add: phys_record_def phys_stale_record_def logi_record_def logi_stale_record_def
      lookup_None [OF assms])

text \<open>States with the same skeleton show the same records.\<close>

lemma skel_records:
  assumes t: "tables_wf s" "tables_wf s'" and k: "phys_skel s' = phys_skel s"
  shows "phys_record y s' = phys_record y s" "phys_stale_record y s' = phys_stale_record y s"
proof -
  have data: "get_live y (gPhysicalTable s) = Some n \<Longrightarrow>
      \<exists>m. get_live y (gPhysicalTable s') = Some m \<and>
        (ndata m)\<lparr>entPhysicalContainedIn := 0\<rparr> = (ndata n)\<lparr>entPhysicalContainedIn := 0\<rparr>"
    "get_stale y (gPhysicalTable s) = Some n \<Longrightarrow>
      \<exists>m. get_stale y (gPhysicalTable s') = Some m \<and>
        (ndata m)\<lparr>entPhysicalContainedIn := 0\<rparr> = (ndata n)\<lparr>entPhysicalContainedIn := 0\<rparr>" for n
    using skel_data [OF k [symmetric]] t
    by (simp_all add: tables_wf_def get_live_iff get_stale_iff) (metis (no_types, lifting))+
  show "phys_record y s' = phys_record y s"
  proof (cases "get_live y (gPhysicalTable s)")
    case None
    then show ?thesis
      using skel_sets(1) [OF k] record_None(1) [OF t(1), of y] record_None(1) [OF t(2), of y]
      by (simp add: phys_record_alt)
  next
    case (Some n)
    with data(1) [OF Some] show ?thesis by (auto simp: phys_record_alt)
  qed
  show "phys_stale_record y s' = phys_stale_record y s"
  proof (cases "get_stale y (gPhysicalTable s)")
    case None
    then show ?thesis
      using skel_sets(2) [OF k] record_None(2) [OF t(1), of y] record_None(2) [OF t(2), of y]
      by (simp add: phys_record_alt)
  next
    case (Some n)
    with data(2) [OF Some] show ?thesis by (auto simp: phys_record_alt)
  qed
qed

lemma record_frames [simp]:
  "phys_record y (configChanged E s) = phys_record y s"
  "phys_stale_record y (configChanged E s) = phys_stale_record y s"
  "logi_record y (configChanged E s) = logi_record y s"
  "logi_stale_record y (configChanged E s) = logi_stale_record y s"
  "logi_record y (s\<lparr>gPhysicalTable := t\<rparr>) = logi_record y s"
  "phys_record y (s\<lparr>gLogicalTable := u\<rparr>) = phys_record y s"
  by (simp_all add: phys_record_alt logi_record_alt)

text \<open>The rows of the three mapping tables after a change of the entity tables only.\<close>

lemma rows_frames [simp]:
  "lp_rel (configChanged E s) = lp_rel s" "alias_rel (configChanged E s) = alias_rel s"
  "lp_rel (s\<lparr>gPhysicalTable := t\<rparr>) = lp_rel s" "alias_rel (s\<lparr>gPhysicalTable := t\<rparr>) = alias_rel s"
  "lp_rel (s\<lparr>gLogicalTable := u\<rparr>) = lp_rel s" "alias_rel (s\<lparr>gLogicalTable := u\<rparr>) = alias_rel s"
  by (simp_all add: lp_rel_def alias_rel_def)

section \<open>Removing a physical entry\<close>

lemma record_live: "tables_wf s \<Longrightarrow> phys_record x s = Some d \<Longrightarrow> x \<in> live_phys s"
  "tables_wf s \<Longrightarrow> logi_record x s = Some l \<Longrightarrow> x \<in> live_logi s"
  using record_None [of s x] by auto

lemma get_live_ex: "twf t \<Longrightarrow> x \<in> live_set t \<Longrightarrow> \<exists>d. map_option ndata (get_live x t) = Some d"
  "twf t \<Longrightarrow> x \<in> stale_set t \<Longrightarrow> \<exists>d. map_option ndata (get_stale x t) = Some d"
  using get_live_None [of t x] get_stale_None [of t x] by auto

lemma stale_others_kept:
  assumes "twf t" "x \<in> live_set t" "y \<noteq> x"
  shows "map_option ndata (get_stale y (unlink x t)) = map_option ndata (get_stale y t)"
    "map_option ndata (get_stale y (reindex x (- x) t)) = map_option ndata (get_stale y t)"
proof -
  obtain d where d: "map_option ndata (get_live x t) = Some d" using get_live_ex(1) [OF assms(1,2)] by blast
  have "map_option ndata (get_stale y (unlink x t)) = Some e \<longleftrightarrow> map_option ndata (get_stale y t) = Some e"
    "map_option ndata (get_stale y (reindex x (- x) t)) = Some e \<longleftrightarrow> map_option ndata (get_stale y t) = Some e" for e
    using assms(3) tbl.stale_dir [OF tbl.invar_remove [OF assms(1) d]] tbl.stale_dir [OF assms(1)]
      tbl.stale_dir [OF tbl.invar_retire [OF assms(1) d]] tbl.dir_remove [OF assms(1) d]
      tbl.dir_retire [OF assms(1) d]
    by simp_all
  then show "map_option ndata (get_stale y (unlink x t)) = map_option ndata (get_stale y t)"
    "map_option ndata (get_stale y (reindex x (- x) t)) = map_option ndata (get_stale y t)"
    by (metis option.exhaust)+
qed

lemma cascade_records:
  assumes i: "entity_inv s" and x: "x \<in> live_phys s"
  shows "phys_record y (phys_cascade E ok x s) = phys_record y s"
    "phys_stale_record y (phys_cascade E ok x s) = phys_stale_record y s"
  using phys_cascade_cleared [OF i x, of E ok] skel_records [OF entity_invD(1) [OF i]]
  by (auto simp: phys_cleared_def entity_inv_def)

text \<open>
  C2. Deleting a live physical entry returns 0; afterwards the index is neither live nor
  stale, no row of the logical-to-physical, alias or containment tables mentions it, every other
  row is still there, and the other entries, live or stale, keep all their fields but
  \<^verbatim>\<open>entPhysicalContainedIn\<close>.
\<close>

theorem physical_deletion:
  assumes s: "reachable A s" and x: "phys_record x s = Some d"
    and r: "deletePhysicalTableEntry E ok x s = (r, s')"
  shows "r = 0 \<and> phys_record x s' = None \<and> phys_stale_record x s' = None \<and>
    lp_rel s' = {(l, p) \<in> lp_rel s. p \<noteq> x} \<and>
    alias_rel s' = {(p, l, m) \<in> alias_rel s. p \<noteq> x} \<and>
    cont_rel s' = {(p, c) \<in> cont_rel s. p \<noteq> x \<and> c \<noteq> x} \<and>
    (\<forall>y. y \<noteq> x \<longrightarrow> phys_record y s' = phys_record y s \<and> phys_stale_record y s' = phys_stale_record y s)"
proof -
  have i: "entity_inv s" using s by (rule reachable_inv)
  have l: "x \<in> live_phys s" using record_live(1) [OF entity_invD(1) [OF i] x] .
  let ?c = "phys_cascade E ok x s"
  note c = phys_cascade_cleared [OF i l, of E ok]
  note t = cleared_tables [OF c]
  obtain e where e: "map_option ndata (get_live x (gPhysicalTable ?c)) = Some e"
    using get_live_ex(1) [OF t(1)] t(2) l by blast
  have res: "r = 0" "s' = configChanged E (?c\<lparr>gPhysicalTable := unlink x (gPhysicalTable ?c)\<rparr>)"
    using r l deletePhysical_result [OF i, of E ok x] by auto
  have "phys_record x s' = None" "phys_stale_record x s' = None"
    using tbl.removed [OF t(1) e] unfolding res(2) by (simp_all add: phys_record_alt)
  moreover have "phys_record y s' = phys_record y s" "phys_stale_record y s' = phys_stale_record y s"
    if "y \<noteq> x" for y
    using tbl.others_kept [OF t(1) e that] stale_others_kept(1) [OF t(1) _ that] l t(2)
      cascade_records [OF i l, of y E ok] unfolding res(2) by (simp_all add: phys_record_alt)
  moreover have "lp_rel s' = lp_rel ?c" "alias_rel s' = alias_rel ?c" "cont_rel s' = cont_rel ?c"
    unfolding res(2) by simp_all
  ultimately show ?thesis using res(1) c by (auto simp: phys_cleared_def)
qed

theorem physical_deletion_witness:
  "lp_rel (after_calls demo_calls) = {(1, 2)} \<and> alias_rel (after_calls demo_calls) = {(2, 1, [1, 3])} \<and>
   cont_rel (after_calls demo_calls) = {(1, 2)} \<and>
   (case deletePhysicalTableEntry demo all_ok 2 (after_calls demo_calls) of (r, s') \<Rightarrow>
      r = 0 \<and> phys_record 2 s' = None \<and> lp_rel s' = {} \<and> alias_rel s' = {} \<and> cont_rel s' = {} \<and>
      phys_record 1 s' = phys_record 1 (after_calls demo_calls))"
proof -
  let ?s = "after_calls demo_calls"
  have rows: "lp_rel ?s = {(1, 2)}" "alias_rel ?s = {(2, 1, [1, 3])}" "cont_rel ?s = {(1, 2)}"
    by code_simp+
  have "phys_record 2 ?s \<noteq> None" by code_simp
  then obtain d where d: "phys_record 2 ?s = Some d" by auto
  obtain r s' where r: "deletePhysicalTableEntry demo all_ok 2 ?s = (r, s')" by fastforce
  from physical_deletion [OF demo_reachable [OF UNIV_I] d r] rows show ?thesis by (simp add: r)
qed

text \<open>
  Making a live physical entry stale returns 0, removes every row that mentions it, as
  a deletion does, and keeps its fields; making it live again returns 0 and brings the entry back
  with those fields, without its rows. The other entries keep their fields throughout.
\<close>

theorem physical_stale_live:
  assumes s: "reachable A s" and x: "phys_record x s = Some d"
    and r: "makePhysicalTableEntryStale E ok x s = (r, s')"
    and r': "makePhysicalTableEntryLive E' x s' = (r', s'')"
  shows "r = 0 \<and> phys_record x s' = None \<and> phys_stale_record x s' = Some d \<and>
    r' = 0 \<and> phys_record x s'' = Some d \<and> phys_stale_record x s'' = None \<and>
    lp_rel s'' = {(l, p) \<in> lp_rel s. p \<noteq> x} \<and>
    alias_rel s'' = {(p, l, m) \<in> alias_rel s. p \<noteq> x} \<and>
    cont_rel s'' = {(p, c) \<in> cont_rel s. p \<noteq> x \<and> c \<noteq> x} \<and>
    (\<forall>y. y \<noteq> x \<longrightarrow> phys_record y s' = phys_record y s)"
proof -
  have i: "entity_inv s" using s by (rule reachable_inv)
  have l: "x \<in> live_phys s" using record_live(1) [OF entity_invD(1) [OF i] x] .
  let ?c = "phys_cascade E ok x s"
  note c = phys_cascade_cleared [OF i l, of E ok]
  note t = cleared_tables [OF c]
  obtain e where e: "map_option ndata (get_live x (gPhysicalTable ?c)) = Some e"
    using get_live_ex(1) [OF t(1)] t(2) l by blast
  have d: "d = e\<lparr>entPhysicalContainedIn := 0\<rparr>"
  proof -
    have "phys_record x ?c = Some (e\<lparr>entPhysicalContainedIn := 0\<rparr>)"
      by (simp only: phys_record_alt e option.map)
    then show ?thesis using cascade_records(1) [OF i l, of x E ok] x by simp
  qed
  have res: "r = 0" "s' = configChanged E (?c\<lparr>gPhysicalTable := reindex x (- x) (gPhysicalTable ?c)\<rparr>)"
    using r l stalePhysical_result [OF i, of E ok x] by auto
  let ?t = "reindex x (- x) (gPhysicalTable ?c)"
  note rt = tbl.retired [OF t(1) e]
  have w: "twf ?t" using tbl.invar_retire [OF t(1) e] .
  have i': "entity_inv s'" using i r by (rule stalePhysical_inv)
  have a: "phys_record x s' = None" "phys_stale_record x s' = Some d"
    using rt d unfolding res(2) by (auto simp: phys_record_alt)
  have "x \<in> stale_phys s'" using a(2) record_None(2) [OF entity_invD(1) [OF i'], of x] by auto
  then have res': "r' = 0" "s'' = configChanged E' (s'\<lparr>gPhysicalTable := reindex (- x) x (gPhysicalTable s')\<rparr>)"
    using r' livePhysical_result [OF entity_invD(1) [OF i'], of E' x] by auto
  have g: "gPhysicalTable s' = ?t" unfolding res(2) by simp
  have bk: "directory (reindex (- x) x ?t) = directory (gPhysicalTable ?c)"
    using tbl.revive_retire [OF t(1) e] .
  have w': "twf (reindex (- x) x ?t)" using w by (rule twf_reindex) simp
  have ex: "directory (gPhysicalTable ?c) x = Some (True, e)" "0 < x"
    using tbl.live_dir [OF t(1)] e by auto
  have "map_option ndata (get_live x (reindex (- x) x ?t)) = Some e"
    using tbl.live_dir [OF w'] bk ex by auto
  moreover have "map_option ndata (get_stale x (reindex (- x) x ?t)) = None"
    using tbl.not_live_and_stale [OF w' calculation] .
  ultimately have b: "phys_record x s'' = Some d" "phys_stale_record x s'' = None"
    unfolding res'(2) phys_record_alt configChanged_frame d by (auto simp: g)
  have "phys_record y s' = phys_record y s" if "y \<noteq> x" for y
    using tbl.others_kept [OF t(1) e that] cascade_records [OF i l, of y E ok]
    unfolding res(2) by (simp add: phys_record_alt)
  moreover have "lp_rel s'' = lp_rel ?c" "alias_rel s'' = alias_rel ?c" "cont_rel s'' = cont_rel ?c"
    unfolding res'(2) res(2) by simp_all
  ultimately show ?thesis using res(1) res'(1) a b c by (auto simp: phys_cleared_def)
qed

theorem physical_stale_live_witness:
  "(case makePhysicalTableEntryStale demo all_ok 2 (after_calls demo_calls) of (r, s') \<Rightarrow>
    case makePhysicalTableEntryLive demo 2 s' of (r', s'') \<Rightarrow>
      r = 0 \<and> phys_record 2 s' = None \<and> r' = 0 \<and>
      phys_record 2 s'' = phys_record 2 (after_calls demo_calls) \<and> lp_rel s'' = {})"
proof -
  let ?s = "after_calls demo_calls"
  have rows: "lp_rel ?s = {(1, 2)}" by code_simp
  have "phys_record 2 ?s \<noteq> None" by code_simp
  then obtain d where d: "phys_record 2 ?s = Some d" by auto
  obtain r s' where r: "makePhysicalTableEntryStale demo all_ok 2 ?s = (r, s')" by fastforce
  obtain r' s'' where r': "makePhysicalTableEntryLive demo 2 s' = (r', s'')" by fastforce
  from physical_stale_live [OF demo_reachable [OF UNIV_I] d r r'] rows d show ?thesis
    by (simp add: r r')
qed

section \<open>Allocating a physical entry\<close>

lemma alloc_records:
  assumes t: "twf t" and f: "room t \<and> naddr n \<notin> naddr ` set (thead t) \<and> nidx n \<le> MAX_ENTITY_INDEX"
    and a: "add_to_table n t = Some (i, t')" and y: "y \<noteq> i"
  shows "map_option ndata (get_live y t') = map_option ndata (get_live y t)"
    "map_option ndata (get_stale y t') = map_option ndata (get_stale y t)"
proof -
  note D = tbl.dir_alloc [OF t f a] and I = tbl.invar_alloc [OF t f a]
  have "map_option ndata (get_live y t') = Some e \<longleftrightarrow> map_option ndata (get_live y t) = Some e"
    "map_option ndata (get_stale y t') = Some e \<longleftrightarrow> map_option ndata (get_stale y t) = Some e" for e
    using D I y tbl.live_dir [OF t] tbl.stale_dir [OF t] tbl.live_dir [of t'] tbl.stale_dir [of t']
    by simp_all
  then show "map_option ndata (get_live y t') = map_option ndata (get_live y t)"
    "map_option ndata (get_stale y t') = map_option ndata (get_stale y t)"
    by (metis option.exhaust)+
qed

text \<open>
  C8. Take an allocation in a physical table that has at most 200 entries or whose tail pointer
  is its last node, in which no entry has the largest index, with a new node whose address no
  entry of the table has. If it returns a positive number, it has stored the caller's entry, with
  the defaults filled in, under that number, which was neither live nor stale before and is the
  number asked for whenever that one was free; every other live or stale entry is as it was in all
  its fields and no row of the other tables has changed. If it returns anything else, it has
  changed nothing.
\<close>

theorem physical_allocation:
  assumes s: "reachable A s"
    and small: "tsize (gPhysicalTable s) \<le> LARGE_TABLE \<or> tail_ok (gPhysicalTable s)"
    and top: "\<forall>n \<in> set (thead (gPhysicalTable s)). \<bar>nidx n\<bar> < MAX_ENTITY_INDEX"
    and fresh: "a \<notin> naddr ` set (thead (gPhysicalTable s))"
    and r: "allocPhysicalEntry E ok a k e s = Some (r, s')"
  shows "(r \<le> 0 \<and> s' = s) \<or>
    (0 < r \<and> phys_record r s = None \<and> phys_stale_record r s = None \<and>
     (0 < k \<and> phys_record k s = None \<and> phys_stale_record k s = None \<longrightarrow> r = k) \<and>
     (\<exists>v. memcpy_oid (slots (entPhysicalVendorType (phys_defaults e)))
              (entPhysicalVendorTypeSize (phys_defaults e)) = Some v \<and>
        map_option ndata (getPhysicalTableEntry r s') =
          Some ((phys_defaults e)\<lparr>entPhysicalVendorType := Some v\<rparr>)) \<and>
     (\<forall>y. y \<noteq> r \<longrightarrow>
        map_option ndata (getPhysicalTableEntry y s') = map_option ndata (getPhysicalTableEntry y s) \<and>
        map_option ndata (getPhysicalTableStaleEntry y s') = map_option ndata (getPhysicalTableStaleEntry y s)) \<and>
     lp_rel s' = lp_rel s \<and> alias_rel s' = alias_rel s \<and> cont_rel s' = cont_rel s)"
proof -
  have i: "entity_inv s" using s by (rule reachable_inv)
  note T = entity_invD(1) [OF i]
  then have t: "twf (gPhysicalTable s)" by (simp add: tables_wf_def)
  have g: "a \<notin> naddr ` set (thead (gPhysicalTable s))" "room (gPhysicalTable s)"
    using fresh small top by (auto simp: room_def)
  show ?thesis
  proof (cases "r \<le> 0 \<and> s' = s")
    case False
    with allocPhysical_added [OF T g r] obtain d t' where b: "build_phys ok (phys_defaults e) = Built d"
      and ad: "add_to_table \<lparr>naddr = a, nidx = k, ndata = d\<rparr> (gPhysicalTable s) = Some (r, t')"
        "added \<lparr>naddr = a, nidx = k, ndata = d\<rparr> r (gPhysicalTable s) t'"
      and s': "s' = configChanged E (s\<lparr>gPhysicalTable := t'\<rparr>)" and k: "k \<le> MAX_ENTITY_INDEX" by blast
    let ?n = "\<lparr>naddr = a, nidx = k, ndata = d\<rparr>"
    have fit: "room (gPhysicalTable s) \<and> naddr ?n \<notin> naddr ` set (thead (gPhysicalTable s)) \<and>
        nidx ?n \<le> MAX_ENTITY_INDEX" using g k by simp
    note al = tbl.allocated [OF t fit ad(1)] and fr = added_fresh [OF ad(2)]
    have "phys_record r s = None" "phys_stale_record r s = None" using fr record_None [OF T] by auto
    moreover have "r = k" if "0 < k" "phys_record k s = None" "phys_stale_record k s = None"
    proof -
      have "k \<notin> (\<lambda>n. \<bar>nidx n\<bar>) ` set (thead (gPhysicalTable s))"
        using that record_None [OF T, of k] by (intro unknown_index) auto
      then show ?thesis using that(1) add_to_table_requested [OF t _ _ ad(1)] by simp
    qed
    moreover have "map_option ndata (getPhysicalTableEntry r s') = Some d"
      using al unfolding s' by (simp add: getPhysicalTableEntry_def)
    moreover have "map_option ndata (getPhysicalTableEntry y s') = map_option ndata (getPhysicalTableEntry y s)"
      "map_option ndata (getPhysicalTableStaleEntry y s') = map_option ndata (getPhysicalTableStaleEntry y s)"
      if "y \<noteq> r" for y
      using alloc_records [OF t fit ad(1) that] unfolding s'
      by (simp_all add: getPhysicalTableEntry_def getPhysicalTableStaleEntry_def)
    moreover have "lp_rel s' = lp_rel s" "alias_rel s' = alias_rel s" "cont_rel s' = cont_rel s"
      unfolding s' by simp_all
    ultimately show ?thesis using fr(1) build_phys_Built [OF b] by auto
  qed simp
qed

theorem physical_allocation_witness:
  "(case allocPhysicalEntry demo all_ok 9 5 (demo_phys 9 1 2) (after_calls demo_calls) of
      None \<Rightarrow> False
    | Some (r, s') \<Rightarrow> r = 5 \<and>
        map_option ndata (getPhysicalTableEntry 2 s') = map_option ndata (getPhysicalTableEntry 2 (after_calls demo_calls)) \<and>
        map_option ndata (getPhysicalTableEntry 5 s') =
          Some ((phys_defaults (demo_phys 9 1 2))\<lparr>entPhysicalVendorType := Some [0, 0]\<rparr>))"
proof -
  let ?s = "after_calls demo_calls"
  have adm: "tsize (gPhysicalTable ?s) \<le> LARGE_TABLE \<or> tail_ok (gPhysicalTable ?s)"
    "\<forall>n \<in> set (thead (gPhysicalTable ?s)). \<bar>nidx n\<bar> < MAX_ENTITY_INDEX"
    "9 \<notin> naddr ` set (thead (gPhysicalTable ?s))" by code_simp+
  have "map_option fst (allocPhysicalEntry demo all_ok 9 5 (demo_phys 9 1 2) ?s) = Some 5" by code_simp
  then obtain s' where r: "allocPhysicalEntry demo all_ok 9 5 (demo_phys 9 1 2) ?s = Some (5, s')" by auto
  have "memcpy_oid (slots (entPhysicalVendorType (phys_defaults (demo_phys 9 1 2))))
    (entPhysicalVendorTypeSize (phys_defaults (demo_phys 9 1 2))) = Some [0, 0]" by code_simp
  with physical_allocation [OF demo_reachable [OF UNIV_I] adm r] show ?thesis by (auto simp: r)
qed

text \<open>
  When the caller leaves the choice of the index to a table of at most 200 entries, the
  index handed out is the first gap above the lowest index in use: every number between that
  one and the new one is taken, live or stale, and the new one is not.
\<close>

theorem physical_first_gap:
  assumes s: "reachable A s" and adm: "admissible (Alloc_physical a 0 e) s"
    and n: "thead (gPhysicalTable s) = n # ns" "tsize (gPhysicalTable s) \<le> LARGE_TABLE"
    and r: "allocPhysicalEntry E ok a 0 e s = Some (r, s')" and pos: "0 < r"
  shows "\<bar>nidx n\<bar> < r \<and> phys_record r s = None \<and> phys_stale_record r s = None \<and>
    (\<forall>j. \<bar>nidx n\<bar> \<le> j \<and> j < r \<longrightarrow> phys_record j s \<noteq> None \<or> phys_stale_record j s \<noteq> None)"
proof -
  have i: "entity_inv s" using s by (rule reachable_inv)
  note T = entity_invD(1) [OF i]
  then have t: "twf (gPhysicalTable s)" by (simp add: tables_wf_def)
  have g: "a \<notin> naddr ` set (thead (gPhysicalTable s))" "room (gPhysicalTable s)" using adm by simp_all
  obtain d t' where ad: "add_to_table \<lparr>naddr = a, nidx = 0, ndata = d\<rparr> (gPhysicalTable s) = Some (r, t')"
    "added \<lparr>naddr = a, nidx = 0, ndata = d\<rparr> r (gPhysicalTable s) t'"
    using allocPhysical_added [OF T g r] pos by auto
  let ?x = "\<lparr>naddr = a, nidx = 0, ndata = d\<rparr> :: entPhysicalEntry node"
  obtain ms e' where fg: "fill_gap ?x (n # ns) = (r, ms, e')"
    using ad(1) n by (auto simp: add_to_table_def insert_at_def split: prod.splits)
  have "\<exists>p q. n # ns = p @ q \<and> p \<noteq> [] \<and> ms = p @ ?x\<lparr>nidx := r\<rparr> # q \<and> r = \<bar>nidx (last p)\<bar> + 1 \<and>
      (q \<noteq> [] \<longrightarrow> r < \<bar>nidx (hd q)\<bar>) \<and> e' = (q = []) \<and>
      (\<forall>j. \<bar>nidx (hd (n # ns))\<bar> \<le> j \<and> j < r \<longrightarrow> j \<in> (\<lambda>n. \<bar>nidx n\<bar>) ` set p)"
    using t g(2) n by (intro fill_gap_split [OF _ _ _ fg]) (auto simp: twf_def room_def)
  then obtain p q where pq: "n # ns = p @ q" "p \<noteq> []" "r = \<bar>nidx (last p)\<bar> + 1"
    "\<forall>j. \<bar>nidx n\<bar> \<le> j \<and> j < r \<longrightarrow> j \<in> (\<lambda>n. \<bar>nidx n\<bar>) ` set p"
    unfolding list.sel by blast
  have "n \<in> set p" using pq(1,2) by (cases p) auto
  then have "\<bar>nidx n\<bar> \<le> \<bar>nidx (last p)\<bar>"
    using t n pq(1,2) below_last [of "\<lambda>n. \<bar>nidx n\<bar>" p] by (auto simp: twf_def sorted_wrt_append)
  moreover have "phys_record j s \<noteq> None \<or> phys_stale_record j s \<noteq> None" if "\<bar>nidx n\<bar> \<le> j" "j < r" for j
  proof -
    have "j \<in> (\<lambda>n. \<bar>nidx n\<bar>) ` set (thead (gPhysicalTable s))" using pq(1,4) that n by auto
    moreover have "0 < j" using that(1) t n by (auto simp: twf_def)
    ultimately show ?thesis using record_None [OF T, of j] unknown_index [of j "gPhysicalTable s"] by blast
  qed
  ultimately show ?thesis using pq(3) added_fresh [OF ad(2)] record_None [OF T, of r] by auto
qed

theorem physical_first_gap_witness:
  "(case allocPhysicalEntry demo all_ok 9 0 (demo_phys 9 1 2) (after_calls demo_calls) of
      None \<Rightarrow> False
    | Some (r, s') \<Rightarrow> r = 3 \<and> (\<forall>j. 1 \<le> j \<and> j < 3 \<longrightarrow>
        phys_record j (after_calls demo_calls) \<noteq> None \<or> phys_stale_record j (after_calls demo_calls) \<noteq> None))"
proof -
  let ?s = "after_calls demo_calls"
  have adm: "admissible (Alloc_physical 9 0 (demo_phys 9 1 2)) ?s" by code_simp
  have "map_option fst (allocPhysicalEntry demo all_ok 9 0 (demo_phys 9 1 2) ?s) = Some 3" by code_simp
  then obtain s' where r: "allocPhysicalEntry demo all_ok 9 0 (demo_phys 9 1 2) ?s = Some (3, s')" by auto
  have l: "map nidx (thead (gPhysicalTable ?s)) = [1, 2]" "tsize (gPhysicalTable ?s) \<le> LARGE_TABLE"
    by code_simp+
  then obtain n ns where n: "thead (gPhysicalTable ?s) = n # ns" "nidx n = 1" by auto
  from physical_first_gap [OF demo_reachable [OF UNIV_I] adm n(1) l(2) r] n(2) show ?thesis by (simp add: r)
qed

section \<open>The logical entries\<close>

text \<open>
  Deleting a live logical entry returns 0, forgets the entry, removes exactly the
  logical-to-physical and alias rows that mention it, and leaves every other logical entry and
  the physical entries alone.
\<close>

theorem logical_deletion:
  assumes s: "reachable A s" and x: "logi_record x s = Some d"
    and r: "deleteLogicalTableEntry E x s = (r, s')"
  shows "r = 0 \<and> logi_record x s' = None \<and> logi_stale_record x s' = None \<and>
    lp_rel s' = {(l, p) \<in> lp_rel s. l \<noteq> x} \<and>
    alias_rel s' = {(p, l, m) \<in> alias_rel s. l \<noteq> x} \<and>
    cont_rel s' = cont_rel s \<and> gPhysicalTable s' = gPhysicalTable s \<and>
    (\<forall>y. y \<noteq> x \<longrightarrow> logi_record y s' = logi_record y s \<and> logi_stale_record y s' = logi_stale_record y s)"
proof -
  have i: "entity_inv s" using s by (rule reachable_inv)
  note T = entity_invD(1) [OF i]
  have l: "x \<in> live_logi s" using record_live(2) [OF T x] .
  let ?c = "logi_cascade E x s"
  note c = logi_cascade_cleared [OF i l, of E]
  have t: "twf (gLogicalTable s)" "gLogicalTable ?c = gLogicalTable s"
    using T c by (simp_all add: tables_wf_def logi_cleared_def)
  have e: "map_option ndata (get_live x (gLogicalTable s)) = Some d" using x by (simp add: logi_record_alt)
  have res: "r = 0" "s' = configChanged E (?c\<lparr>gLogicalTable := unlink x (gLogicalTable s)\<rparr>)"
    using r l t(2) deleteLogical_result [OF T, of E x] by auto
  have "logi_record x s' = None" "logi_stale_record x s' = None"
    using tbl.removed [OF t(1) e] unfolding res(2) by (simp_all add: logi_record_alt)
  moreover have "logi_record y s' = logi_record y s" "logi_stale_record y s' = logi_stale_record y s"
    if "y \<noteq> x" for y
    using tbl.others_kept [OF t(1) e that] stale_others_kept(1) [OF t(1) l that]
    unfolding res(2) by (simp_all add: logi_record_alt)
  moreover have "lp_rel s' = lp_rel ?c" "alias_rel s' = alias_rel ?c" "cont_rel s' = cont_rel ?c"
    "gPhysicalTable s' = gPhysicalTable ?c"
    unfolding res(2) by simp_all
  ultimately show ?thesis
    using res(1) c logi_cascade_cont_rel [OF i l, of E] by (auto simp: logi_cleared_def)
qed

theorem logical_deletion_witness:
  "(case deleteLogicalTableEntry demo 1 (after_calls demo_calls) of (r, s') \<Rightarrow>
      r = 0 \<and> logi_record 1 s' = None \<and> lp_rel s' = {} \<and> alias_rel s' = {} \<and> cont_rel s' = {(1, 2)})"
proof -
  let ?s = "after_calls demo_calls"
  have rows: "lp_rel ?s = {(1, 2)}" "alias_rel ?s = {(2, 1, [1, 3])}" "cont_rel ?s = {(1, 2)}"
    by code_simp+
  have "logi_record 1 ?s \<noteq> None" by code_simp
  then obtain d where d: "logi_record 1 ?s = Some d" by auto
  obtain r s' where r: "deleteLogicalTableEntry demo 1 ?s = (r, s')" by fastforce
  from logical_deletion [OF demo_reachable [OF UNIV_I] d r] rows show ?thesis by (simp add: r)
qed

end
