(* ===== verification/Entity_Rows.thy ===== *)
theory Entity_Rows
  imports Entity_Lifecycle
begin

text \<open>
  The rows of the mapping and containment tables, stated on reachable states: what adding
  and deleting a row returns and what it does to the table, error cases included.
\<close>

section \<open>Logical-to-physical rows\<close>

text \<open>The return code of an addition when memory is available.\<close>

definition lp_add_code :: "int \<Rightarrow> int \<Rightarrow> entity \<Rightarrow> int" where
  "lp_add_code l p s =
     (if bad_index l \<or> bad_index p then -1
      else if l \<in> stale_logi s \<or> p \<in> stale_phys s then -2
      else if l \<notin> live_logi s \<or> p \<notin> live_phys s then -1
      else if (l, p) \<in> lp_rel s then 1 else 0)"

lemma addLP_defined:
  assumes "\<forall>k. ok k"
  shows "addLPMappingTableEntry E ok l p s \<noteq> None"
  using assms by (auto simp: addLPMappingTableEntry_def split: option.splits lp_slot.splits)

text \<open>
  Adding a logical-to-physical row with memory available returns -1 for an index out of
  range or unknown, -2 when one of the two is stale, 1 when the row exists and 0 otherwise;
  the row is in the table afterwards exactly when the code is 0 or 1, and nothing else of
  the table changes.
\<close>

theorem lp_addition:
  assumes s: "reachable A s" and ok: "\<forall>k. ok k"
  shows "\<exists>s'. addLPMappingTableEntry E ok l p s = Some (lp_add_code l p s, s') \<and>
    lp_rel s' = (if 0 \<le> lp_add_code l p s then insert (l, p) (lp_rel s) else lp_rel s) \<and>
    alias_rel s' = alias_rel s \<and> cont_rel s' = cont_rel s \<and>
    gPhysicalTable s' = gPhysicalTable s \<and> gLogicalTable s' = gLogicalTable s"
proof -
  have i: "entity_inv s" using s by (rule reachable_inv)
  note T = entity_invD(1) [OF i] and W = entity_invD(5) [OF i]
  obtain r s' where r: "addLPMappingTableEntry E ok l p s = Some (r, s')"
    using addLP_defined [OF ok, of E l p s] by auto
  have o: "lp_only s s'" using lp_calls_only(1) [OF i r] .
  then have f: "alias_rel s' = alias_rel s" "cont_rel s' = cont_rel s"
    "gPhysicalTable s' = gPhysicalTable s" "gLogicalTable s' = gLogicalTable s"
    using lp_alias_only_cont_rel(1) [OF o] by (auto simp: lp_only_def alias_rel_def)
  show ?thesis
  proof (cases "l \<in> live_logi s \<and> p \<in> live_phys s")
    case True
    then have g: "\<not> bad_index l" "\<not> bad_index p" "l \<notin> stale_logi s" "p \<notin> stale_phys s"
      using live_bounds [OF T] live_not_stale [OF T] by auto
    have "0 \<le> fst (the (addLPMappingTableEntry E ok l p s))"
      unfolding addLP_live [OF T conjunct1 [OF True] conjunct2 [OF True]]
      by (simp add: ok split: option.split lp_slot.split)
    then have "0 \<le> r" using r by simp
    with addLP_effect [OF T W r] have "lp_added l p s r s'" by auto
    with g True have "r = lp_add_code l p s" "lp_rel s' = insert (l, p) (lp_rel s)"
      by (auto simp: lp_add_code_def lp_added_def)
    with r f \<open>0 \<le> r\<close> show ?thesis by auto
  next
    case False
    then have "r = lp_add_code l p s \<and> s' = s \<and> r < 0"
      using r lookup_None [OF T] by (auto simp: addLPMappingTableEntry_def lp_add_code_def split: if_splits)
    with r show ?thesis by auto
  qed
qed

theorem lp_addition_witness:
  "lp_add_code 1 1 (after_calls demo_calls) = 0 \<and>
   (\<exists>s'. addLPMappingTableEntry demo all_ok 1 1 (after_calls demo_calls) = Some (0, s') \<and>
     lp_rel s' = {(1, 1), (1, 2)})"
proof -
  have c: "lp_add_code 1 1 (after_calls demo_calls) = 0" by code_simp
  have rows: "lp_rel (after_calls demo_calls) = {(1, 2)}" by code_simp
  from lp_addition [OF demo_reachable [OF UNIV_I], of all_ok demo 1 1] c rows show ?thesis by auto
qed

text \<open>
  Deleting a row that was just added gives back the table as it was before; adding it
  again succeeds even when no memory is left, because the row's slot is kept and revived.
\<close>

theorem lp_add_delete_add:
  assumes s: "reachable A s" and new: "(l, p) \<notin> lp_rel s"
    and a: "addLPMappingTableEntry E ok l p s = Some (0, s1)"
  shows "\<exists>s2 s3. deleteLPMappingTableEntry E l p s1 = (0, s2) \<and> lp_rel s2 = lp_rel s \<and>
    addLPMappingTableEntry E (\<lambda>k. False) l p s2 = Some (0, s3) \<and> lp_rel s3 = insert (l, p) (lp_rel s)"
proof -
  have i: "entity_inv s" using s by (rule reachable_inv)
  have L: "l \<in> live_logi s" "p \<in> live_phys s" and A: "lp_added l p s 0 s1"
    using addLP_effect [OF entity_invD(1) [OF i] entity_invD(5) [OF i] a] by auto
  have i1: "entity_inv s1" using i a by (rule addLP_inv)
  have o1: "lp_only s s1" using lp_calls_only(1) [OF i a] .
  then have L1: "l \<in> live_logi s1" "p \<in> live_phys s1" using L by (simp_all add: lp_only_def)
  note T1 = entity_invD(1) [OF i1] and W1 = entity_invD(5) [OF i1]
  obtain r s2 where d: "deleteLPMappingTableEntry E l p s1 = (r, s2)" by fastforce
  have in1: "(l, p) \<in> lp_rel s1" using A by (auto simp: lp_added_def)
  have D: "r = 0" "lp_deleted l p s1 s2" using deleteLP_effect [OF T1 W1 d] L1 in1 by auto
  have rel2: "lp_rel s2 = lp_rel s" using D(2) A new by (auto simp: lp_deleted_def lp_added_def)
  have i2: "entity_inv s2" using i1 d by (rule deleteLP_inv)
  have o2: "lp_only s1 s2" using lp_calls_only(2) [OF i1 d] .
  then have L2: "l \<in> live_logi s2" "p \<in> live_phys s2" using L1 by (simp_all add: lp_only_def)
  have "0 < p" using live_bounds(1) [OF T1 L1(2)] by simp
  obtain n qs where n: "find (\<lambda>n. lplogical n = l) (gLPMappingTableHead s1) = Some n"
      "lp_kill p (slots (physicalIndexes n)) = Some qs" "s2 = configChanged E (lp_set l qs s1)"
    using d D(1) unfolding deleteLP_live [OF T1 L1] by (auto split: option.splits)
  from lp_kill_Some [OF n(2)] obtain us vs where uv: "slots (physicalIndexes n) = us @ p # vs"
    "qs = us @ - p # vs" by blast
  have dist: "distinct (map abs (us @ p # vs))" using lp_node_wf [OF W1 n(1)] uv(1) by simp
  have key: "distinct (map lplogical (gLPMappingTableHead s1))" using W1 by (simp add: lp_wf_def)
  have n2: "find (\<lambda>n. lplogical n = l) (gLPMappingTableHead s2) = Some (n\<lparr>physicalIndexes := Some qs\<rparr>)"
  proof (rule find_unique)
    show "distinct (map lplogical (gLPMappingTableHead s2))" using entity_invD(5) [OF i2] by (simp add: lp_wf_def)
    show "n\<lparr>physicalIndexes := Some qs\<rparr> \<in> set (gLPMappingTableHead s2)"
      using find_Some_in [OF n(1)] unfolding n(3) by (auto simp: lp_set_def in_upd_first [OF key])
    show "lplogical (n\<lparr>physicalIndexes := Some qs\<rparr>) = l" using find_Some_in [OF n(1)] by simp
  qed
  have "lp_scan p qs \<noteq> Slot_exists"
  proof -
    have "p \<notin> set us" "p \<notin> set vs" using dist \<open>0 < p\<close> by (auto simp: image_iff)
    then show ?thesis using lp_scan_exists [of p qs] uv(2) \<open>0 < p\<close> by auto
  qed
  moreover have "lp_scan p qs \<noteq> Slot_missing" using lp_scan_missing [of p qs] uv(2) by auto
  ultimately obtain zs where z: "lp_scan p qs = Slot_revived zs" by (cases "lp_scan p qs") auto
  let ?s3 = "configChanged E (lp_set l zs s2)"
  have a3: "addLPMappingTableEntry E (\<lambda>k. False) l p s2 = Some (0, ?s3)"
    unfolding addLP_live [OF entity_invD(1) [OF i2] L2] using n2 z by simp
  have "lp_rel ?s3 = insert (l, p) (lp_rel s2)"
    using addLP_effect [OF entity_invD(1) [OF i2] entity_invD(5) [OF i2] a3] by (auto simp: lp_added_def)
  with d D(1) rel2 a3 show ?thesis by auto
qed

theorem lp_add_delete_add_witness:
  "\<exists>s1 s2 s3. addLPMappingTableEntry demo all_ok 1 1 (after_calls demo_calls) = Some (0, s1) \<and>
     deleteLPMappingTableEntry demo 1 1 s1 = (0, s2) \<and> lp_rel s2 = {(1, 2)} \<and>
     addLPMappingTableEntry demo (\<lambda>k. False) 1 1 s2 = Some (0, s3) \<and> lp_rel s3 = {(1, 1), (1, 2)}"
proof -
  let ?s = "after_calls demo_calls"
  have rows: "lp_rel ?s = {(1, 2)}" by code_simp
  have "map_option fst (addLPMappingTableEntry demo all_ok 1 1 ?s) = Some 0" by code_simp
  then obtain s1 where a: "addLPMappingTableEntry demo all_ok 1 1 ?s = Some (0, s1)" by auto
  have "(1, 1) \<notin> lp_rel ?s" using rows by simp
  from lp_add_delete_add [OF demo_reachable [OF UNIV_I] this a] rows a show ?thesis by auto
qed

text \<open>
  Deleting by physical or by logical index removes exactly the rows of that index; the
  number returned is the number of rows removed, or -1 when no physical row, respectively no
  node of the logical index, was there.
\<close>

theorem lp_bulk_deletion:
  assumes s: "reachable A s" and L: "l \<in> live_logi s" "p \<in> live_phys s"
    and rp: "deleteLPMappingPhysicalIndex E p s = (rp, sp)"
    and rl: "deleteLPMappingLogicalIndex E l s = (rl, sl)"
  shows "lp_rel sp = {(k, q) \<in> lp_rel s. q \<noteq> p} \<and> lp_rel sl = {(k, q) \<in> lp_rel s. k \<noteq> l} \<and>
    rp = (if \<exists>k. (k, p) \<in> lp_rel s then int (card {k. (k, p) \<in> lp_rel s}) else -1) \<and>
    rl = (if l \<in> lp_keys s then int (card {q. (l, q) \<in> lp_rel s}) else -1)"
proof -
  have i: "entity_inv s" using s by (rule reachable_inv)
  note T = entity_invD(1) [OF i] and W = entity_invD(5) [OF i]
  from deleteLPPhysical_effect [OF T W L(2) rp] deleteLPLogical_effect [OF T W L(1) rl]
  show ?thesis by auto
qed

theorem lp_bulk_deletion_witness:
  "fst (deleteLPMappingPhysicalIndex demo 2 (after_calls demo_calls)) = 1 \<and>
   lp_rel (snd (deleteLPMappingPhysicalIndex demo 2 (after_calls demo_calls))) = {} \<and>
   fst (deleteLPMappingLogicalIndex demo 1 (after_calls demo_calls)) = 1"
proof -
  let ?s = "after_calls demo_calls"
  have rows: "lp_rel ?s = {(1, 2)}" "1 \<in> live_logi ?s" "2 \<in> live_phys ?s" "1 \<in> lp_keys ?s" by code_simp+
  from lp_bulk_deletion [OF demo_reachable [OF UNIV_I] rows(2,3) prod.collapse [symmetric] prod.collapse [symmetric], of demo]
    rows show ?thesis by (auto simp: Collect_conv_if)
qed

section \<open>Alias rows\<close>

text \<open>
  An alias row is added, with code 0, only for a live physical entry of class port and
  a logical index that is zero or live, it carries a copy of the caller's OID, and it is the
  only row of its pair; a pair that has a row keeps it and the call returns 1; every other
  code is negative and leaves the state unchanged.
\<close>

theorem alias_addition:
  assumes s: "reachable A s"
    and r: "addAliasMappingTableEntry E ok p l mapid sz s = Some (r, s')"
  shows "(r < 0 \<and> s' = s) \<or>
    (r = 1 \<and> s' = s \<and> (\<exists>m. (p, l, m) \<in> alias_rel s)) \<or>
    (r = 0 \<and> port_phys p s \<and> p \<in> live_phys s \<and> (l = 0 \<or> l \<in> live_logi s) \<and>
     (\<exists>m c. mapid = Some m \<and> memcpy_oid m sz = Some c \<and>
        alias_rel s' = insert (p, l, c) (alias_rel s) \<and> (\<forall>m'. (p, l, m') \<in> alias_rel s' \<longrightarrow> m' = c)) \<and>
     lp_rel s' = lp_rel s \<and> cont_rel s' = cont_rel s)"
proof -
  have i: "entity_inv s" using s by (rule reachable_inv)
  have o: "alias_only s s'" using alias_calls_only(1) [OF i r] .
  then have "lp_rel s' = lp_rel s" "cont_rel s' = cont_rel s"
    using lp_alias_only_cont_rel(2) [OF o] by (auto simp: alias_only_def lp_rel_def)
  then show ?thesis
    using addAlias_effect [OF entity_invD(1) [OF i] entity_invD(6) [OF i] r]
  proof (elim disjE)
    assume "r = 0 \<and> p \<in> live_phys s \<and> port_phys p s \<and> (l = 0 \<or> l \<in> live_logi s) \<and> 0 \<le> sz \<and>
      (\<exists>m c. mapid = Some m \<and> memcpy_oid m sz = Some c \<and> alias_added p l c s s')"
    then obtain m c where c: "mapid = Some m" "memcpy_oid m sz = Some c" "alias_added p l c s s'"
      and g: "r = 0" "p \<in> live_phys s" "port_phys p s" "l = 0 \<or> l \<in> live_logi s" by blast
    from c(3) have "alias_rel s' = insert (p, l, c) (alias_rel s)"
      "\<forall>m'. (p, l, m') \<in> alias_rel s' \<longrightarrow> m' = c" by (auto simp: alias_added_def)
    with c g \<open>lp_rel s' = lp_rel s\<close> \<open>cont_rel s' = cont_rel s\<close> show ?thesis by blast
  qed simp_all
qed

theorem alias_addition_witness:
  "\<exists>s'. addAliasMappingTableEntry demo all_ok 2 0 (Some [1, 3, 6]) 24 (after_calls demo_calls) = Some (0, s') \<and>
     alias_rel s' = {(2, 0, [1, 3, 6]), (2, 1, [1, 3])}"
proof -
  let ?s = "after_calls demo_calls"
  have rows: "alias_rel ?s = {(2, 1, [1, 3])}" "memcpy_oid [1, 3, 6] 24 = Some [1, 3, 6]" by code_simp+
  have "map_option fst (addAliasMappingTableEntry demo all_ok 2 0 (Some [1, 3, 6]) 24 ?s) = Some 0" by code_simp
  then obtain s' where r: "addAliasMappingTableEntry demo all_ok 2 0 (Some [1, 3, 6]) 24 ?s = Some (0, s')" by auto
  have "\<exists>m c. Some [1, 3, 6] = Some m \<and> memcpy_oid m 24 = Some c \<and> alias_rel s' = insert (2, 0, c) (alias_rel ?s)"
    using alias_addition [OF demo_reachable [OF UNIV_I] r]
    by (simp only: less_irrefl zero_neq_one simp_thms) blast
  then have "alias_rel s' = {(2, 0, [1, 3, 6]), (2, 1, [1, 3])}" using rows by auto
  with r show ?thesis by blast
qed

text \<open>
  Deleting alias rows by pair, by physical index and by logical index removes exactly
  the rows meant; the bulk deletions return the number of rows removed, and deleting by the
  logical index zero is refused.
\<close>

theorem alias_deletion:
  assumes s: "reachable A s" and p: "p \<in> live_phys s" and l: "l \<in> live_logi s"
    and row: "(p, l, m) \<in> alias_rel s"
    and r1: "deleteAliasMappingTableEntry E p l s = (r1, s1)"
    and r2: "deleteAliasMappingPhysicalIndex E p s = (r2, s2)"
    and r3: "deleteAliasMappingLogicalIndex E l s = (r3, s3)"
  shows "r1 = 0 \<and> alias_rel s1 = alias_rel s - {(p, l, m)} \<and>
    r2 = int (card {k. \<exists>m. (p, k, m) \<in> alias_rel s}) \<and> alias_rel s2 = {(q, k, m) \<in> alias_rel s. q \<noteq> p} \<and>
    r3 = int (card {q. \<exists>m. (q, l, m) \<in> alias_rel s}) \<and> alias_rel s3 = {(q, k, m) \<in> alias_rel s. k \<noteq> l} \<and>
    deleteAliasMappingLogicalIndex E 0 s = (-1, s)"
proof -
  have i: "entity_inv s" using s by (rule reachable_inv)
  note T = entity_invD(1) [OF i] and W = entity_invD(6) [OF i]
  have g: "\<not> bad_index p" "getPhysicalTableStaleEntry p s = None" "\<not> bad_index l" "getLogicalTableStaleEntry l s = None"
    using p l live_bounds [OF T] live_not_stale [OF T] by (auto simp: lookup_None [OF T])
  have uniq: "m' = m" if "(p, l, m') \<in> alias_rel s" for m'
  proof -
    obtain n where n: "n \<in> set (gAliasMappingTableHead s)" "alphys n = p" using row by (auto simp: alias_rel_def)
    have d: "distinct (map alphys (gAliasMappingTableHead s))" using W by (simp add: alias_wf_def)
    note N = alias_node [OF W find_unique [OF d n]]
    show ?thesis using alias_live_unique [OF N(1)] N(2) that row by blast
  qed
  have "r1 = 0 \<and> alias_rel s1 = {(q, k, m) \<in> alias_rel s. (q, k) \<noteq> (p, l)}"
    using deleteAlias_effect [OF W r1] row g r1 by (auto simp: deleteAliasMappingTableEntry_def)
  moreover have "{(q, k, m') \<in> alias_rel s. (q, k) \<noteq> (p, l)} = alias_rel s - {(p, l, m)}" using uniq by auto
  moreover have "p \<in> alias_keys s" using row by (rule alias_rel_keys)
  moreover have "deleteAliasMappingLogicalIndex E 0 s = (-1, s)" by (simp add: deleteAliasMappingLogicalIndex_def)
  ultimately show ?thesis
    using deleteAliasPhysical_effect [OF W g(1,2) r2] deleteAliasLogical_effect [OF W g(3,4) r3] row by auto
qed

theorem alias_deletion_witness:
  "fst (deleteAliasMappingTableEntry demo 2 1 (after_calls demo_calls)) = 0 \<and>
   alias_rel (snd (deleteAliasMappingTableEntry demo 2 1 (after_calls demo_calls))) = {} \<and>
   fst (deleteAliasMappingPhysicalIndex demo 2 (after_calls demo_calls)) = 1"
proof -
  let ?s = "after_calls demo_calls"
  have rows: "alias_rel ?s = {(2, 1, [1, 3])}" "2 \<in> live_phys ?s" "1 \<in> live_logi ?s" by code_simp+
  have "(2, 1, [1, 3]) \<in> alias_rel ?s" using rows by simp
  from alias_deletion [OF demo_reachable [OF UNIV_I] rows(2,3) this prod.collapse [symmetric]
      prod.collapse [symmetric] prod.collapse [symmetric], of demo] rows
  show ?thesis by (auto simp: Collect_conv_if)
qed

section \<open>Containment rows\<close>

lemma cont_only_rows: "cont_only s s' \<Longrightarrow> lp_rel s' = lp_rel s \<and> alias_rel s' = alias_rel s"
  by (simp add: cont_only_def lp_rel_def alias_rel_def)

lemma cont_parents_known:
  assumes "entity_inv s"
  shows "\<forall>q x. (q, x) \<in> cont_rel s \<longrightarrow> getPhysicalTableEntry q s \<noteq> None"
  using entity_invD(4) [OF assms] cont_keys_rel lookup_None(1) [OF entity_invD(1) [OF assms]]
  by (fastforce simp: cont_refs_def)

text \<open>With memory, a row between two different live entries is refused only by the cycle check.\<close>

lemma addContains_refused:
  assumes t: "tables_wf s" and ok: "\<forall>k. ok k" and g: "p \<noteq> c" "p \<in> live_phys s" "c \<in> live_phys s"
    and r: "addPhysicalContainsTableEntry E ok p c s = Some (r, s')" "r < 0"
  shows "(c, p) \<in> (links s)\<^sup>*"
proof -
  have "\<not> bad_index p" "\<not> bad_index c" "getPhysicalTableStaleEntry p s = None" "getPhysicalTableStaleEntry c s = None"
    using live_bounds(1) [OF t] live_not_stale(1) [OF t] lookup_None [OF t] g(2,3) by auto
  moreover obtain pe ce where "getPhysicalTableEntry p s = Some pe" "getPhysicalTableEntry c s = Some ce"
    using lookup_None(1) [OF t] g(2,3) by blast
  ultimately obtain k where "isRecursiveChild ok s c p 0 = Some (True, k)"
    using r ok g(1) by (auto simp: addPhysicalContainsTableEntry_def split: option.splits bool.splits if_splits)
  then show ?thesis by (rule isRecursiveChild_sound)
qed

text \<open>
  C11. In the states of C1 and with memory available, adding a containment row, when it returns, has
  one of three outcomes. Code 0: the row was
  not there, the two entries are different and live, the new child does not contain the new
  parent, directly or through other rows, and now the row is there and no other row has changed;
  the child's parent field becomes the new parent when it was zero or larger and stays as it is
  otherwise. Code 1: the row is there already and nothing has changed. A negative code: nothing has
  changed, and the two entries are the same, or one of them is not live, or a chain of rows and
  parent fields leads from the new child to the new parent. (The last case may also concern a row that
  exists: the cycle check comes before the search for the row, and it follows parent fields too.)
\<close>

theorem containment_addition:
  assumes s: "reachable A s" and ok: "\<forall>k. ok k"
    and r: "addPhysicalContainsTableEntry E ok p c s = Some (r, s')"
  shows "(r < 0 \<and> s' = s \<and> (p = c \<or> p \<notin> live_phys s \<or> c \<notin> live_phys s \<or> (c, p) \<in> (links s)\<^sup>*)) \<or>
    (r = 1 \<and> s' = s \<and> (p, c) \<in> cont_rel s) \<or>
    (r = 0 \<and> p \<noteq> c \<and> p \<in> live_phys s \<and> c \<in> live_phys s \<and> (p, c) \<notin> cont_rel s \<and> (c, p) \<notin> (cont_rel s)\<^sup>* \<and>
     cont_rel s' = insert (p, c) (cont_rel s) \<and> lp_rel s' = lp_rel s \<and> alias_rel s' = alias_rel s \<and>
     parent_of s' = (parent_of s)(c := if parent_of s c = 0 \<or> p < parent_of s c then p else parent_of s c))"
proof -
  have i: "entity_inv s" using s by (rule reachable_inv)
  show ?thesis
    using addContains_effect [OF entity_invD(1) [OF i] entity_invD(7) [OF i] r]
  proof (elim disjE)
    assume a: "r = 0 \<and> p \<noteq> c \<and> p \<in> live_phys s \<and> c \<in> live_phys s \<and>
       (\<exists>k. isRecursiveChild ok s c p 0 = Some (False, k)) \<and> cont_added p c s s'"
    then have "(c, p) \<notin> (cont_rel s)\<^sup>*"
      using isRecursiveChild_complete [OF _ ok entity_invD(7) [OF i] cont_parents_known [OF i]] by blast
    with a show ?thesis using cont_only_rows [of s s'] by (simp add: cont_added_def)
  next
    assume "r = -1 \<and> (\<exists>k. \<not> ok k) \<and> cont_dropped p s s'"
    with ok show ?thesis by blast
  next
    assume "r < 0 \<and> s' = s"
    then show ?thesis using addContains_refused [OF entity_invD(1) [OF i] ok _ _ _ r] by blast
  qed simp
qed

theorem containment_addition_witness:
  "\<exists>s s'. reachable {all_ok} s \<and> addPhysicalContainsTableEntry demo all_ok 1 3 s = Some (0, s') \<and>
     cont_rel s' = {(1, 3), (1, 2)} \<and> parent_of s 3 = 0 \<and> parent_of s' 3 = 1"
proof -
  let ?cs = "demo_calls @ [Alloc_physical 3 0 (demo_phys 3 0 (-1))]"
  let ?s = "after_calls ?cs"
  have "run_calls demo all_ok ?cs (init_entity demo static_entity) \<noteq> None" by code_simp
  then have reach: "reachable {all_ok} ?s" by (rule after_calls_reachable) simp
  have rows: "cont_rel ?s = {(1, 2)}" "parent_of ?s 3 = 0" by code_simp+
  have "map_option fst (addPhysicalContainsTableEntry demo all_ok 1 3 ?s) = Some 0" by code_simp
  then obtain s' where r: "addPhysicalContainsTableEntry demo all_ok 1 3 ?s = Some (0, s')" by auto
  have "cont_rel s' = insert (1, 3) (cont_rel ?s) \<and>
    parent_of s' = (parent_of ?s)(3 := if parent_of ?s 3 = 0 \<or> 1 < parent_of ?s 3 then 1 else parent_of ?s 3)"
    using containment_addition [OF reach _ r] by (simp only: less_irrefl zero_neq_one simp_thms all_ok_simp)
  then have "cont_rel s' = {(1, 3), (1, 2)}" "parent_of s' 3 = 1" using rows by simp_all
  with reach r rows show ?thesis by blast
qed

text \<open>
  Deleting a containment row of live entries returns 0 and removes that row only; the
  child's parent field, when it named the parent that went, moves to the lowest parent the
  child has left, and to zero when there is none.
\<close>

theorem containment_deletion:
  assumes s: "reachable A s" and row: "(p, c) \<in> cont_rel s"
    and r: "deletePhysicalContainsTableEntry E p c s = (r, s')"
  shows "r = 0 \<and> cont_rel s' = cont_rel s - {(p, c)} \<and> lp_rel s' = lp_rel s \<and> alias_rel s' = alias_rel s \<and>
    parent_of s' = (if parent_of s c = p
      then (parent_of s)(c := if \<exists>q. (q, c) \<in> cont_rel s' then Min {q. (q, c) \<in> cont_rel s'} else 0)
      else parent_of s)"
proof -
  have i: "entity_inv s" using s by (rule reachable_inv)
  note T = entity_invD(1) [OF i]
  have l: "p \<in> live_phys s" "c \<in> live_phys s"
    using entity_invD(4) [OF i] row cont_keys_rel [OF row] by (auto simp: cont_refs_def)
  then have "\<not> bad_index p" "\<not> bad_index c" "p \<notin> stale_phys s" "c \<notin> stale_phys s"
    using live_bounds(1) [OF T] live_not_stale(1) [OF T] by auto
  then have "r = 0" "cont_deleted p c s s'"
    using deleteContains_effect [OF T entity_invD(7) [OF i] r] row by auto
  then show ?thesis
    using l cont_only_rows [of s s'] unfolding cont_deleted_def lowest_of_def by simp
qed

theorem containment_deletion_witness:
  "fst (deletePhysicalContainsTableEntry demo 1 2 (after_calls demo_calls)) = 0 \<and>
   parent_of (after_calls demo_calls) 2 = 1 \<and>
   cont_rel (snd (deletePhysicalContainsTableEntry demo 1 2 (after_calls demo_calls))) = {} \<and>
   parent_of (snd (deletePhysicalContainsTableEntry demo 1 2 (after_calls demo_calls))) 2 = 0"
proof -
  let ?s = "after_calls demo_calls"
  have rows: "cont_rel ?s = {(1, 2)}" "parent_of ?s 2 = 1" by code_simp+
  then have "(1, 2) \<in> cont_rel ?s" by simp
  note th = containment_deletion [OF demo_reachable [OF UNIV_I] this prod.collapse [symmetric], of demo]
  then have "cont_rel (snd (deletePhysicalContainsTableEntry demo 1 2 ?s)) = {}" using rows by simp
  with th rows show ?thesis by simp
qed

text \<open>
  Deleting a live parent with memory available removes exactly the rows of that parent
  and returns how many there were, -1 when it has no node; every child whose parent field
  named it gets the lowest parent it has left, or zero. Deleting a live child removes
  exactly the rows of that child and touches no other entry's parent field.
\<close>

theorem containment_bulk_deletion:
  assumes s: "reachable A s" and ok: "\<forall>k. ok k" and x: "x \<in> live_phys s"
    and rp: "deletePhysicalContainsParentIndex E ok x s = (rp, sp)"
    and rc: "deletePhysicalContainsChildIndex E x s = (rc, sc)"
  shows "cont_rel sp = {(p, c) \<in> cont_rel s. p \<noteq> x} \<and>
    rp = (if x \<in> cont_keys s then int (card {c. (x, c) \<in> cont_rel s}) else -1) \<and>
    (\<forall>c. parent_of sp c = (if (x, c) \<in> cont_rel s \<and> parent_of s c = x
       then (if \<exists>q. (q, c) \<in> cont_rel sp then Min {q. (q, c) \<in> cont_rel sp} else 0) else parent_of s c)) \<and>
    cont_rel sc = {(p, c) \<in> cont_rel s. c \<noteq> x} \<and>
    (rc = -1 \<longleftrightarrow> (\<forall>p. (p, x) \<notin> cont_rel s)) \<and> (\<forall>c. c \<noteq> x \<longrightarrow> parent_of sc c = parent_of s c)"
proof -
  have i: "entity_inv s" using s by (rule reachable_inv)
  note T = entity_invD(1) [OF i] and W = entity_invD(7) [OF i]
  let ?cs = "slots (fst (getPhysicalContainsChildren ok x 0 s))"
  have kids: "set ?cs = {c. (x, c) \<in> cont_rel s}"
    using contains_children_rel [of _ ok x 0 s] contains_children_all [OF ok W, of x _ 0] x
      lookup_None(1) [OF T, of x] by blast
  have len: "length ?cs = card {c. (x, c) \<in> cont_rel s}"
    using distinct_card [OF contains_children_distinct [OF W, of ok x 0]] kids by simp
  have live: "c \<in> live_phys s" if "(x, c) \<in> cont_rel s" for c
    using that entity_invD(4) [OF i] by (auto simp: cont_refs_def)
  have K: "\<forall>q \<in> cont_keys s. q \<in> live_phys s" using entity_invD(4) [OF i] by (auto simp: cont_refs_def)
  have g: "\<not> bad_index x" "x \<notin> stale_phys s" using x live_bounds(1) [OF T] live_not_stale(1) [OF T] by auto
  note P = deleteParent_effect [OF T W x rp] and C = deleteChild_effect [OF T W g K rc]
  have "parent_of sp c = (if (x, c) \<in> cont_rel s \<and> parent_of s c = x
       then (if \<exists>q. (q, c) \<in> cont_rel sp then Min {q. (q, c) \<in> cont_rel sp} else 0) else parent_of s c)" for c
    using conjunct1 [OF P] live [of c] unfolding parent_deleted_def kids lowest_of_def by auto
  moreover have "cont_rel sp = {(p, c) \<in> cont_rel s. p \<noteq> x}"
    "rp = (if x \<in> cont_keys s then int (card {c. (x, c) \<in> cont_rel s}) else -1)"
    using P len by (auto simp: parent_deleted_def)
  moreover have "cont_rel sc = {(p, c) \<in> cont_rel s. c \<noteq> x}" "\<forall>c. c \<noteq> x \<longrightarrow> parent_of sc c = parent_of s c"
    "rc = -1 \<longleftrightarrow> (\<forall>p. (p, x) \<notin> cont_rel s)"
    using C by (auto simp: child_deleted_def split: if_splits)
  ultimately show ?thesis by blast
qed

theorem containment_bulk_deletion_witness:
  "fst (deletePhysicalContainsParentIndex demo all_ok 1 (after_calls demo_calls)) = 1 \<and>
   parent_of (snd (deletePhysicalContainsParentIndex demo all_ok 1 (after_calls demo_calls))) 2 = 0"
proof -
  let ?s = "after_calls demo_calls"
  have rows: "cont_rel ?s = {(1, 2)}" "parent_of ?s 2 = 1" "1 \<in> live_phys ?s" "1 \<in> cont_keys ?s" by code_simp+
  let ?p = "deletePhysicalContainsParentIndex demo all_ok 1 ?s"
  have ok: "\<forall>k. all_ok k" by simp
  note th = containment_bulk_deletion [OF demo_reachable [OF UNIV_I] ok rows(3) prod.collapse [symmetric]
      prod.collapse [symmetric], of demo]
  have "cont_rel (snd ?p) = {}" using conjunct1 [OF th] rows(1) by (auto simp del: all_ok_simp)
  moreover have "fst ?p = int (card {c. (1, c) \<in> cont_rel ?s})" using th rows(4) by (simp del: all_ok_simp)
  moreover have "{c. (1, c) \<in> cont_rel ?s} = {2}" using rows(1) by auto
  ultimately show ?thesis using th rows by (simp del: all_ok_simp)
qed

end
