(* ===== verification/Entity_Limits.thy ===== *)
theory Entity_Limits
  imports Entity_Rows
begin

text \<open>
  The limits of the module: the cycle check returns as long as the links it follows form no
  cycle, and what happens at the edges the code does not guard: the children that
  \<^verbatim>\<open>getAllChildrenFromPhysicalContainedIn\<close> loses, a cycle of parent fields that sends the
  check into an endless recursion, the dangling tail pointer of a large table and the index
  after the largest one.
\<close>

section \<open>The cycle check\<close>

lemma finite_links: "finite (links s)"
proof -
  have "links s \<subseteq> cont_rel s \<union>
      (\<lambda>n. (entPhysicalContainedIn (ndata n), nidx n)) ` set (thead (gPhysicalTable s))"
    by (auto simp: links_def)
  moreover have "finite (cont_rel s)" unfolding cont_rel_code by simp
  ultimately show ?thesis by (meson finite_UnI finite_imageI finite_set finite_subset)
qed

text \<open>
  C34. While the containment rows and the parent fields together form no cycle, the cycle
  check returns; its answer yes is a chain of rows and parent fields from the one entry to
  the other, and with memory available its answer no means that no chain of rows leads there.
\<close>

theorem cycle_check:
  assumes s: "reachable A s" and a: "acyclic (links s)"
  shows "\<exists>b k'. isRecursiveChild ok s p c k = Some (b, k') \<and>
    (b \<longrightarrow> (p, c) \<in> (links s)\<^sup>*) \<and> ((\<forall>k. ok k) \<and> \<not> b \<longrightarrow> (p, c) \<notin> (cont_rel s)\<^sup>*)"
proof -
  have i: "entity_inv s" using s by (rule reachable_inv)
  have "wf ((links s)\<inverse>)" using finite_links a by (rule finite_acyclic_wf_converse)
  from isRecursiveChild_terminates [OF this] obtain b k' where
    r: "isRecursiveChild ok s p c k = Some (b, k')" by (metis surj_pair)
  show ?thesis
  proof (intro exI conjI impI)
    show "isRecursiveChild ok s p c k = Some (b, k')" by (rule r)
    show "(p, c) \<in> (links s)\<^sup>*" if b using r that isRecursiveChild_sound by simp
    show "(p, c) \<notin> (cont_rel s)\<^sup>*" if "(\<forall>k. ok k) \<and> \<not> b"
      using r that isRecursiveChild_complete [OF _ _ entity_invD(7) [OF i] cont_parents_known [OF i]] by simp
  qed
qed

lemma demo_links: "links (after_calls demo_calls) \<subseteq> {(1, 2)}"
proof -
  have "cont_rel (after_calls demo_calls) = {(1, 2)}" by code_simp
  moreover have "map (\<lambda>n. (entPhysicalContainedIn (ndata n), nidx n))
      (thead (gPhysicalTable (after_calls demo_calls))) = [(0, 1), (1, 2)]" by code_simp
  then have "(\<lambda>n. (entPhysicalContainedIn (ndata n), nidx n)) ` set (thead (gPhysicalTable (after_calls demo_calls)))
      = {(0, 1), (1, 2)}" by (metis list.set_map list.simps(15) empty_set)
  then have "(entPhysicalContainedIn (ndata n), nidx n) \<in> {(0, 1), (1, 2)}"
    if "n \<in> set (thead (gPhysicalTable (after_calls demo_calls)))" for n using that by blast
  ultimately show ?thesis by (fastforce simp: links_def)
qed

theorem cycle_check_witness:
  "\<exists>b k'. isRecursiveChild all_ok (after_calls demo_calls) 2 1 0 = Some (b, k') \<and>
     (b \<longrightarrow> (2, 1) \<in> (links (after_calls demo_calls))\<^sup>*)"
proof -
  have "links (after_calls demo_calls) \<subseteq> {(x, y). x < y}" using demo_links by auto
  moreover have "acyclic {(x :: int, y). x < y}"
    using trancl_id [OF transI, of "{(x :: int, y). x < y}"] by (auto simp: acyclic_def)
  ultimately have "acyclic (links (after_calls demo_calls))" by (rule acyclic_subset [rotated])
  from cycle_check [OF demo_reachable [OF UNIV_I] this, of all_ok 2 1 0] show ?thesis by blast
qed

section \<open>The children that are lost\<close>

text \<open>The entries whose parent field names a given index, in table order.\<close>

definition contained_in :: "int \<Rightarrow> entity \<Rightarrow> int list" where
  "contained_in p s =
     map nidx (filter (\<lambda>n. entPhysicalContainedIn (ndata n) = p) (thead (gPhysicalTable s)))"

lemma contained_loop_Some:
  "xs \<noteq> [] \<Longrightarrow> fst (contained_loop (\<lambda>k. True) p ns (Some xs) k) =
    (case map nidx (filter (\<lambda>n. entPhysicalContainedIn (ndata n) = p) ns) of
       [] \<Rightarrow> Some xs | y # ys \<Rightarrow> Some (take 1 xs @ [last (y # ys)]))"
  by (induction ns arbitrary: xs k) (auto simp: Suc_le_eq split: list.splits)

lemma contained_loop_None:
  "fst (contained_loop (\<lambda>k. True) p ns None k) =
    (case map nidx (filter (\<lambda>n. entPhysicalContainedIn (ndata n) = p) ns) of
       [] \<Rightarrow> None | [x] \<Rightarrow> Some [x] | x # y # ys \<Rightarrow> Some [x, last (y # ys)])"
proof (induction ns arbitrary: k)
  case (Cons n ns)
  then show ?case by (auto simp: contained_loop_Some split: list.splits)
qed simp

lemma all_children:
  "fst (getAllChildrenFromPhysicalContainedIn all_ok p k s) =
   (if bad_index p then None
    else (case contained_in p s of
            [] \<Rightarrow> None | [x] \<Rightarrow> Some [x] | x # y # ys \<Rightarrow> Some [x, last (y # ys)]))"
proof -
  have a: "all_ok = (\<lambda>k. True)" by (rule ext) simp
  show ?thesis
    unfolding a getAllChildrenFromPhysicalContainedIn_def contained_in_def
    by (simp add: contained_loop_None)
qed

text \<open>
  Asked for all the entries whose parent field names an index, the function returns
  none, the only one, or the first and the last of them: every one in between is lost.
\<close>

theorem lost_children:
  "fst (getAllChildrenFromPhysicalContainedIn all_ok p k s) =
   (if bad_index p then None
    else (case contained_in p s of
            [] \<Rightarrow> None | [x] \<Rightarrow> Some [x] | x # y # ys \<Rightarrow> Some [x, last (y # ys)]))"
  by (rule all_children)

section \<open>An endless cycle check\<close>

text \<open>
  Entry 2 names entry 1 as its parent without a containment row, so deleting entry 1 leaves
  the field as it is; a new entry 1 that names entry 2 closes the cycle.
\<close>

definition endless_calls :: "entity_call list" where
  "endless_calls = [Alloc_physical 1 0 (demo_phys 3 0 (-1)), Alloc_physical 2 0 (demo_phys 9 1 1),
     Delete_physical 1, Alloc_physical 3 1 (demo_phys 9 2 1), Alloc_physical 4 0 (demo_phys 3 0 (-1))]"

text \<open>
  C35. Five successful calls lead to a state of three entries, all live, in which adding a
  containment row between two of them never returns.
\<close>

theorem endless_cycle_check:
  "\<exists>s. run_calls demo all_ok endless_calls (init_entity demo static_entity) = Some ([1, 2, 0, 1, 3], s) \<and>
     reachable {all_ok} s \<and> live_phys s = {1, 2, 3} \<and>
     addPhysicalContainsTableEntry demo all_ok 3 1 s = None"
proof -
  let ?s = "after_calls endless_calls"
  have run: "map_option fst (run_calls demo all_ok endless_calls (init_entity demo static_entity))
      = Some [1, 2, 0, 1, 3]" by code_simp
  then have s: "run_calls demo all_ok endless_calls (init_entity demo static_entity) = Some ([1, 2, 0, 1, 3], ?s)"
    by (auto simp: after_calls_def)
  have live: "live_phys ?s = {1, 2, 3}" by code_simp
  have kids: "contained_in 1 ?s = [2]" "contained_in 2 ?s = [1]" by code_simp+
  have "isRecursiveChild all_ok ?s 1 3 0 = None"
  proof (rule isRecursiveChild_diverges [of 3 "{1, 2}" 1 all_ok ?s 0])
    fix p k
    assume "p \<in> {1, 2 :: int}"
    then show "\<exists>x xs. slots (fst (getAllChildrenFromPhysicalContainedIn all_ok p k ?s)) = x # xs \<and> x \<in> {1, 2}"
      unfolding all_children using kids by (auto simp: MAX_ENTITY_INDEX_def)
  qed simp_all
  moreover have "getPhysicalTableEntry 3 ?s \<noteq> None" "getPhysicalTableEntry 1 ?s \<noteq> None"
    "getPhysicalTableStaleEntry 3 ?s = None" "getPhysicalTableStaleEntry 1 ?s = None" by code_simp+
  ultimately have "addPhysicalContainsTableEntry demo all_ok 3 1 ?s = None"
    by (auto simp: addPhysicalContainsTableEntry_def MAX_ENTITY_INDEX_def)
  moreover have "reachable {all_ok} ?s" by (rule after_calls_reachable) (simp_all add: s)
  ultimately show ?thesis using s live by blast
qed

section \<open>The edges of the table code\<close>

text \<open>
  C36. In a table of more than 201 entries, adding an entry under a free number of the
  code's choice right after the last entry was deleted reads a freed node; or, when the new
  node got the address of the freed one, the call reports a number but leaves the chain as
  it was: the new node is linked to itself, the number is one more than the index the caller
  asked for, and the recorded size no longer is the number of entries.
\<close>

theorem dangling_tail:
  assumes "twf t" "tail_ok t" "thead t = ns @ [n]" "tsize t > LARGE_TABLE + 1" "nidx x \<le> 0"
  shows "(naddr x \<noteq> naddr n \<longrightarrow> add_to_table x (unlink (nidx n) t) = None) \<and>
    (naddr x = naddr n \<longrightarrow> (\<exists>t'. add_to_table x (unlink (nidx n) t) = Some (int32 (c_abs (nidx x) + 1), t') \<and>
       thead t' = ns \<and> tsize t' = int (length ns) + 1 \<and> \<not> twf t'))"
proof -
  have u: "uniq (thead t)" using assms(1) by (rule twf_uniq)
  have "set (drop_idx (nidx n) (thead t)) = {m \<in> set (thead t). nidx m \<noteq> nidx n}" using u by (rule set_drop_idx)
  moreover have "naddr m \<noteq> naddr n" if "m \<in> set (thead t)" "nidx m \<noteq> nidx n" for m
    using that assms(1,3) by (auto simp: twf_def image_iff)
  ultimately have "\<forall>m \<in> set (drop_idx (nidx n) (thead t)). naddr m \<noteq> naddr n" by simp
  then have "dropWhile (\<lambda>m. naddr m \<noteq> naddr n) (drop_idx (nidx n) (thead t)) = []"
    by (simp only: dropWhile_eq_Nil_conv)
  moreover have "ttail t = Some (naddr n)" using assms(2,3) by (simp add: tail_ok_def)
  moreover have "tloose t = None" using assms(1) by (simp add: twf_def)
  ultimately have ap: "append_at_tail x (unlink (nidx n) t) =
      (if naddr n = naddr x
       then Some (int32 (c_abs (nidx x) + 1), (unlink (nidx n) t)\<lparr>ttail := Some (naddr x), tsize := tsize t,
              tloose := Some (x\<lparr>nidx := int32 (c_abs (nidx x) + 1)\<rparr>)\<rparr>)
       else None)"
    by (simp add: append_at_tail_def unlink_def Let_def del: dropWhile_eq_Nil_conv)
  have add: "add_to_table x (unlink (nidx n) t) = append_at_tail x (unlink (nidx n) t)"
    using assms(4,5) by (simp add: add_to_table_def insert_at_def) (simp add: unlink_def)
  have "drop_idx (nidx n) (ns @ [n]) = ns" if "\<forall>m \<in> set ns. nidx m \<noteq> nidx n"
    using that by (induction ns) auto
  moreover have "\<forall>m \<in> set ns. nidx m \<noteq> nidx n"
    using assms(1,3) by (fastforce simp: twf_def sorted_wrt_append)
  ultimately have d: "thead (unlink (nidx n) t) = ns" using assms(3) by (simp add: unlink_def)
  have sz: "tsize t = int (length ns) + 1" using assms(1,3) by (simp add: twf_def)
  show ?thesis unfolding add ap by (simp add: d sz twf_def)
qed

definition big_table :: "unit itable" where
  "big_table = \<lparr>thead = map (\<lambda>i. \<lparr>naddr = i, nidx = int i, ndata = ()\<rparr>) [1..<203],
     ttail = Some 202, tsize = 202, tloose = None\<rparr>"

theorem dangling_tail_witness: "add_to_table \<lparr>naddr = 7, nidx = 0, ndata = ()\<rparr> (unlink 202 big_table) = None"
proof -
  let ?f = "\<lambda>i. \<lparr>naddr = i, nidx = int i, ndata = ()\<rparr>"
  have "[1..<203] = [1..<202] @ [202 :: nat]" by (simp add: upt_Suc_append [of 1 202, simplified])
  then have l: "thead big_table = map ?f [1..<202] @ [?f 202]" by (simp add: big_table_def)
  have "twf big_table"
    by (simp add: twf_def big_table_def comp_def sorted_wrt_map MAX_ENTITY_INDEX_def distinct_map del: upt_Suc)
  moreover have "tail_ok big_table" using l by (simp add: tail_ok_def) (simp add: big_table_def)
  ultimately show ?thesis
    using dangling_tail [of big_table "map ?f [1..<202]" "?f 202" "\<lparr>naddr = 7, nidx = 0, ndata = ()\<rparr>"] l
    by (simp add: big_table_def LARGE_TABLE_def)
qed

text \<open>
  C37. With the largest index in use by the only entry, the number handed out for the next
  one wraps around to the smallest \<^verbatim>\<open>int\<close>, and the table is no longer well-formed.
\<close>

theorem index_overflow:
  assumes "thead t = [n]" "\<bar>nidx n\<bar> = MAX_ENTITY_INDEX" "tsize t = 1" "nidx x \<le> 0"
  shows "\<exists>t'. add_to_table x t = Some (-2147483648, t') \<and> \<not> twf t'"
proof -
  have "c_abs (nidx n) = MAX_ENTITY_INDEX" using assms(2) by (simp add: c_abs_id)
  then have i: "int32 (c_abs (nidx n) + 1) = -2147483648" by (simp add: MAX_ENTITY_INDEX_def int32_def)
  have "\<not> twf t'" if "x\<lparr>nidx := -2147483648\<rparr> \<in> set (thead t')" for t' :: "'a itable"
    using that by (fastforce simp: twf_def MAX_ENTITY_INDEX_def)
  with assms i show ?thesis
    by (simp add: add_to_table_def insert_at_def LARGE_TABLE_def)
qed

theorem index_overflow_witness:
  "\<exists>t'. add_to_table \<lparr>naddr = 2, nidx = 0, ndata = ()\<rparr>
     \<lparr>thead = [\<lparr>naddr = 1, nidx = 2147483647, ndata = ()\<rparr>], ttail = Some 1, tsize = 1, tloose = None\<rparr>
   = Some (-2147483648, t') \<and> \<not> twf t'"
  by (rule index_overflow [of _ "\<lparr>naddr = 1, nidx = 2147483647, ndata = ()\<rparr>"])
    (simp_all add: MAX_ENTITY_INDEX_def)

end
