(* ===== verification/Row_Iterators.thy ===== *)
theory Row_Iterators
  imports Entity_Runs
begin

text \<open>
  The data-point functions of the five tables, which the agent's table iterator calls to walk
  a table: \<^verbatim>\<open>get_first_data_point\<close> and \<^verbatim>\<open>get_next_data_point\<close> of
  \<^verbatim>\<open>entPhysicalTable.c\<close>, \<^verbatim>\<open>entLogicalTable.c\<close>, \<^verbatim>\<open>entLPMappingTable.c\<close>,
  \<^verbatim>\<open>entAliasMappingTable.c\<close> and \<^verbatim>\<open>entPhysicalContainsTable.c\<close>. A loop context, a pointer to a
  node of a chain, is the rest of the chain from that node on; a pointer into an array of
  slots is the rest of the array before its terminator, \<open>None\<close> when it is null. A function
  returns the loop context, the data context and the index values it puts into the request,
  or nothing.

  The contract of such a pair of functions is the locale \<open>row_iterator\<close>: they enumerate a
  list of rows. A client that calls the first function and then the second until it gets
  nothing has seen exactly these rows; the two interpretations say which rows those are.
\<close>

section \<open>Entity tables\<close>

type_synonym 'a entry_point = "'a node list \<times> addr \<times> int list"

definition entPhysicalTable_get_first_data_point :: "entity \<Rightarrow> entPhysicalEntry entry_point option" where
  "entPhysicalTable_get_first_data_point s =
     (case first_live (thead (gPhysicalTable s)) of
        [] \<Rightarrow> None | n # ns \<Rightarrow> Some (n # ns, naddr n, [nidx n]))"

definition entPhysicalTable_get_next_data_point ::
  "entPhysicalEntry node list \<Rightarrow> entPhysicalEntry entry_point option" where
  "entPhysicalTable_get_next_data_point my_loop_context =
     (case next_live my_loop_context of
        [] \<Rightarrow> None | n # ns \<Rightarrow> Some (n # ns, naddr n, [nidx n]))"

definition entLogicalTable_get_first_data_point :: "entity \<Rightarrow> entLogicalEntry entry_point option" where
  "entLogicalTable_get_first_data_point s =
     (case first_live (thead (gLogicalTable s)) of
        [] \<Rightarrow> None | n # ns \<Rightarrow> Some (n # ns, naddr n, [nidx n]))"

definition entLogicalTable_get_next_data_point ::
  "entLogicalEntry node list \<Rightarrow> entLogicalEntry entry_point option" where
  "entLogicalTable_get_next_data_point my_loop_context =
     (case next_live my_loop_context of
        [] \<Rightarrow> None | n # ns \<Rightarrow> Some (n # ns, naddr n, [nidx n]))"

section \<open>Mapping tables\<close>

text \<open>
  The three files hold the same nested loops over nodes and slots. \<open>stop\<close> is the test for
  the terminator, \<open>good\<close> the test for a slot in use; the pointer to the slot of the row
  found last is a static variable of the file, which \<open>get_next\<close> starts from.
\<close>

fun seek_slot :: "('b \<Rightarrow> bool) \<Rightarrow> ('b \<Rightarrow> bool) \<Rightarrow> 'b list \<Rightarrow> 'b list" where
  "seek_slot stop good [] = []"
| "seek_slot stop good (x # xs) =
     (if stop x then [] else if good x then x # xs else seek_slot stop good xs)"

fun seek_row ::
  "('n \<Rightarrow> int) \<Rightarrow> ('n \<Rightarrow> 'b list option) \<Rightarrow> ('b \<Rightarrow> bool) \<Rightarrow> ('b \<Rightarrow> bool) \<Rightarrow> 'n list \<Rightarrow> 'b list option \<Rightarrow>
   ('n list \<times> 'b list) option" where
  "seek_row key arr stop good [] cur = None"
| "seek_row key arr stop good (n # ns) cur =
     (case (if key n > 0 then seek_slot stop good (slots cur) else []) of
        y # ys \<Rightarrow> Some (n # ns, y # ys)
      | [] \<Rightarrow> seek_row key arr stop good ns (case ns of [] \<Rightarrow> cur | m # _ \<Rightarrow> arr m))"

definition head_slots :: "('n \<Rightarrow> 'b list option) \<Rightarrow> 'n list \<Rightarrow> 'b list option" where
  "head_slots arr ns = (case ns of [] \<Rightarrow> None | n # _ \<Rightarrow> arr n)"

text \<open>
  The data point of a row that was found, and the static pointer after the call: the slot
  found, or what it was before.
\<close>

type_synonym ('n, 'b) row_point = "'n list \<times> 'b list \<times> int list"

definition row_found ::
  "('n \<Rightarrow> int) \<Rightarrow> ('b \<Rightarrow> int) \<Rightarrow> ('n list \<times> 'b list) option \<Rightarrow> 'b list option \<Rightarrow>
   ('n, 'b) row_point option \<times> 'b list option" where
  "row_found key val r cur =
     (case r of None \<Rightarrow> (None, cur)
      | Some (ns, ys) \<Rightarrow> (Some (ns, ys, [key (hd ns), val (hd ys)]), Some ys))"

definition entLPMappingTable_get_first_data_point ::
  "int list option \<Rightarrow> entity \<Rightarrow> (entLPMappingTableEntry, int) row_point option \<times> int list option" where
  "entLPMappingTable_get_first_data_point tracker s =
     row_found lplogical id
       (seek_row lplogical physicalIndexes (\<lambda>x. x = 0) (\<lambda>x. x > 0) (gLPMappingTableHead s)
          (head_slots physicalIndexes (gLPMappingTableHead s))) tracker"

definition entLPMappingTable_get_next_data_point ::
  "entLPMappingTableEntry list \<Rightarrow> int list option \<Rightarrow>
   (entLPMappingTableEntry, int) row_point option \<times> int list option" where
  "entLPMappingTable_get_next_data_point my_loop_context tracker =
     row_found lplogical id
       (seek_row lplogical physicalIndexes (\<lambda>x. x = 0) (\<lambda>x. x > 0) my_loop_context
          (map_option tl tracker)) tracker"

definition entAliasMappingTable_get_first_data_point ::
  "logicalAlias list option \<Rightarrow> entity \<Rightarrow>
   (entAliasMappingTableEntry, logicalAlias) row_point option \<times> logicalAlias list option" where
  "entAliasMappingTable_get_first_data_point gCurAliasEntry s =
     row_found alphys entAliasLogicalIndexorZero
       (seek_row alphys entlogicalAliases (\<lambda>a. \<not> entAliasMapIdSize a \<ge> 0)
          (\<lambda>a. entAliasLogicalIndexorZero a \<ge> 0) (gAliasMappingTableHead s)
          (head_slots entlogicalAliases (gAliasMappingTableHead s))) None"

definition entAliasMappingTable_get_next_data_point ::
  "entAliasMappingTableEntry list \<Rightarrow> logicalAlias list option \<Rightarrow>
   (entAliasMappingTableEntry, logicalAlias) row_point option \<times> logicalAlias list option" where
  "entAliasMappingTable_get_next_data_point my_loop_context gCurAliasEntry =
     row_found alphys entAliasLogicalIndexorZero
       (seek_row alphys entlogicalAliases (\<lambda>a. \<not> entAliasMapIdSize a \<ge> 0)
          (\<lambda>a. entAliasLogicalIndexorZero a \<ge> 0) my_loop_context
          (map_option tl gCurAliasEntry)) gCurAliasEntry"

definition entPhysicalContainsTable_get_first_data_point ::
  "int list option \<Rightarrow> entity \<Rightarrow> (physIndexAndChildIndex, int) row_point option \<times> int list option" where
  "entPhysicalContainsTable_get_first_data_point zChildIndexesTracker s =
     row_found cparent id
       (seek_row cparent childIndexes (\<lambda>x. x = 0) (\<lambda>x. x > 0) (gPhyContainsTableHead s)
          (head_slots childIndexes (gPhyContainsTableHead s))) zChildIndexesTracker"

definition entPhysicalContainsTable_get_next_data_point ::
  "physIndexAndChildIndex list \<Rightarrow> int list option \<Rightarrow>
   (physIndexAndChildIndex, int) row_point option \<times> int list option" where
  "entPhysicalContainsTable_get_next_data_point my_loop_context zChildIndexesTracker =
     row_found cparent id
       (seek_row cparent childIndexes (\<lambda>x. x = 0) (\<lambda>x. x > 0) my_loop_context
          (map_option tl zChildIndexesTracker)) zChildIndexesTracker"

section \<open>The contract of an iterator\<close>

text \<open>A client's walk: at most \<open>k\<close> data points, \<open>None\<close> when there are more.\<close>

fun walk :: "('p \<Rightarrow> 'p option) \<Rightarrow> ('p \<Rightarrow> 'r) \<Rightarrow> nat \<Rightarrow> 'p option \<Rightarrow> 'r list option" where
  "walk nxt row k None = Some []"
| "walk nxt row 0 (Some p) = None"
| "walk nxt row (Suc k) (Some p) = map_option (Cons (row p)) (walk nxt row k (nxt p))"

locale row_iterator =
  fixes first :: "'s \<Rightarrow> 'p option"
    and nxt :: "'p \<Rightarrow> 'p option"
    and row :: "'p \<Rightarrow> 'r"
    and rows :: "'s \<Rightarrow> 'r list"
    and rest :: "'p \<Rightarrow> 'r list"
  assumes first_row: "rows s = (case first s of None \<Rightarrow> [] | Some p \<Rightarrow> row p # rest p)"
    and next_row: "rest p = (case nxt p of None \<Rightarrow> [] | Some q \<Rightarrow> row q # rest q)"
begin

lemma walk_rest:
  "length (case p of None \<Rightarrow> [] | Some q \<Rightarrow> row q # rest q) \<le> k \<Longrightarrow>
   walk nxt row k p = Some (case p of None \<Rightarrow> [] | Some q \<Rightarrow> row q # rest q)"
proof (induction k arbitrary: p)
  case 0
  then show ?case by (cases p) auto
next
  case (Suc k)
  show ?case
  proof (cases p)
    case (Some q)
    with Suc.prems have "length (rest q) \<le> k" by simp
    then have "length (case nxt q of None \<Rightarrow> [] | Some q \<Rightarrow> row q # rest q) \<le> k"
      by (simp only: next_row [symmetric])
    from Suc.IH [OF this] Some show ?thesis by (simp only: next_row [symmetric]) simp
  qed simp
qed

lemma walk_rows: "length (rows s) \<le> k \<Longrightarrow> walk nxt row k (first s) = Some (rows s)"
  using walk_rest [of "first s" k] by (simp only: first_row [symmetric])

lemma walk_short: "k < length (rows s) \<Longrightarrow> walk nxt row k (first s) = None"
proof -
  have "k < length (case p of None \<Rightarrow> [] | Some q \<Rightarrow> row q # rest q) \<Longrightarrow> walk nxt row k p = None" for p
  proof (induction k arbitrary: p)
    case 0
    then show ?case by (cases p) auto
  next
    case (Suc k)
    show ?case
    proof (cases p)
      case None
      with Suc.prems show ?thesis by simp
    next
      case (Some q)
      with Suc.prems have "k < length (rest q)" by simp
      then have "k < length (case nxt q of None \<Rightarrow> [] | Some q \<Rightarrow> row q # rest q)"
        by (simp only: next_row [symmetric])
      from Suc.IH [OF this] Some show ?thesis by simp
    qed
  qed
  from this [of "first s"] show "k < length (rows s) \<Longrightarrow> walk nxt row k (first s) = None"
    by (simp only: first_row [symmetric])
qed

end

section \<open>The entity tables are iterators\<close>

definition live_rows :: "'a node list \<Rightarrow> (addr \<times> int list) list" where
  "live_rows ns = map (\<lambda>n. (naddr n, [nidx n])) (filter (\<lambda>n. 0 < nidx n) ns)"

lemma first_live_rows:
  "live_rows ns = (case first_live ns of [] \<Rightarrow> [] | n # ms \<Rightarrow> (naddr n, [nidx n]) # live_rows ms)"
  by (induction ns) (auto simp: live_rows_def)

lemma next_live_tl: "next_live ns = first_live (tl ns)"
  by (cases ns) simp_all

interpretation phys_it: row_iterator entPhysicalTable_get_first_data_point
  "\<lambda>p. entPhysicalTable_get_next_data_point (fst p)" snd
  "\<lambda>s. live_rows (thead (gPhysicalTable s))" "\<lambda>p. live_rows (tl (fst p))"
proof unfold_locales
  show "live_rows (thead (gPhysicalTable s)) = (case entPhysicalTable_get_first_data_point s of
      None \<Rightarrow> [] | Some p \<Rightarrow> snd p # live_rows (tl (fst p)))" for s
    by (subst first_live_rows) (simp add: entPhysicalTable_get_first_data_point_def split: list.splits)
  show "live_rows (tl (fst p)) = (case entPhysicalTable_get_next_data_point (fst p) of
      None \<Rightarrow> [] | Some q \<Rightarrow> snd q # live_rows (tl (fst q)))" for p :: "entPhysicalEntry entry_point"
    by (subst first_live_rows)
      (simp add: entPhysicalTable_get_next_data_point_def next_live_tl split: list.splits)
qed

interpretation logi_it: row_iterator entLogicalTable_get_first_data_point
  "\<lambda>p. entLogicalTable_get_next_data_point (fst p)" snd
  "\<lambda>s. live_rows (thead (gLogicalTable s))" "\<lambda>p. live_rows (tl (fst p))"
proof unfold_locales
  show "live_rows (thead (gLogicalTable s)) = (case entLogicalTable_get_first_data_point s of
      None \<Rightarrow> [] | Some p \<Rightarrow> snd p # live_rows (tl (fst p)))" for s
    by (subst first_live_rows) (simp add: entLogicalTable_get_first_data_point_def split: list.splits)
  show "live_rows (tl (fst p)) = (case entLogicalTable_get_next_data_point (fst p) of
      None \<Rightarrow> [] | Some q \<Rightarrow> snd q # live_rows (tl (fst q)))" for p :: "entLogicalEntry entry_point"
    by (subst first_live_rows)
      (simp add: entLogicalTable_get_next_data_point_def next_live_tl split: list.splits)
qed

section \<open>The mapping tables are iterators\<close>

text \<open>The rows from a position on: the slots left in a node, then the nodes after it.\<close>

definition slot_rows ::
  "('n \<Rightarrow> int) \<Rightarrow> ('b \<Rightarrow> int) \<Rightarrow> ('b \<Rightarrow> bool) \<Rightarrow> ('b \<Rightarrow> bool) \<Rightarrow> 'n \<Rightarrow> 'b list \<Rightarrow> ('b \<times> int list) list" where
  "slot_rows key val stop good n ys =
     (if key n > 0 then map (\<lambda>y. (y, [key n, val y])) (filter good (takeWhile (\<lambda>y. \<not> stop y) ys)) else [])"

definition pos_rows ::
  "('n \<Rightarrow> int) \<Rightarrow> ('n \<Rightarrow> 'b list option) \<Rightarrow> ('b \<Rightarrow> int) \<Rightarrow> ('b \<Rightarrow> bool) \<Rightarrow> ('b \<Rightarrow> bool) \<Rightarrow>
   'n list \<Rightarrow> 'b list option \<Rightarrow> ('b \<times> int list) list" where
  "pos_rows key arr val stop good ns cur =
     (case ns of [] \<Rightarrow> []
      | n # ms \<Rightarrow> slot_rows key val stop good n (slots cur) @
          concat (map (\<lambda>m. slot_rows key val stop good m (slots (arr m))) ms))"

lemma seek_slot_rows:
  "filter good (takeWhile (\<lambda>y. \<not> stop y) ys) =
   (case seek_slot stop good ys of [] \<Rightarrow> [] | z # zs \<Rightarrow> z # filter good (takeWhile (\<lambda>y. \<not> stop y) zs))"
  by (induction ys) auto

lemma seek_row_rows:
  "pos_rows key arr val stop good ns cur =
   (case seek_row key arr stop good ns cur of
      None \<Rightarrow> []
    | Some (ms, ys) \<Rightarrow> (hd ys, [key (hd ms), val (hd ys)]) # pos_rows key arr val stop good ms (Some (tl ys)))"
proof (induction ns arbitrary: cur)
  case (Cons n ns)
  let ?seek = "if key n > 0 then seek_slot stop good (slots cur) else []"
  have rows: "slot_rows key val stop good n (slots cur) =
      (case ?seek of [] \<Rightarrow> [] | z # zs \<Rightarrow> (z, [key n, val z]) # slot_rows key val stop good n zs)"
    using seek_slot_rows [of good stop "slots cur"] by (auto simp: slot_rows_def split: list.splits)
  show ?case
  proof (cases ?seek)
    case Nil
    then have "pos_rows key arr val stop good (n # ns) cur =
        pos_rows key arr val stop good ns (case ns of [] \<Rightarrow> cur | m # _ \<Rightarrow> arr m)"
      using rows by (cases ns) (simp_all add: pos_rows_def)
    with Nil Cons.IH show ?thesis by simp
  next
    case (Cons y ys)
    with rows show ?thesis by (simp add: pos_rows_def)
  qed
qed (simp add: pos_rows_def)

text \<open>A call's result as a position: the data point and the static pointer.\<close>

definition position :: "'d option \<times> 't \<Rightarrow> ('d \<times> 't) option" where
  "position r = map_option (\<lambda>d. (d, snd r)) (fst r)"

definition row_of :: "('n, 'b) row_point \<times> 'b list option \<Rightarrow> 'b \<times> int list" where
  "row_of p = (case p of ((ns, ys, ix), cur) \<Rightarrow> (hd ys, ix))"

lemma position_rows:
  "pos_rows key arr val stop good ns cur =
   (case position (row_found key val (seek_row key arr stop good ns cur) old) of
      None \<Rightarrow> []
    | Some p \<Rightarrow> row_of p # pos_rows key arr val stop good (fst (fst p)) (map_option tl (snd p)))"
  by (subst seek_row_rows) (auto simp: position_def row_found_def row_of_def split: option.splits)

abbreviation lp_pos_rows where
  "lp_pos_rows \<equiv> pos_rows lplogical physicalIndexes id (\<lambda>x. x = 0) (\<lambda>x. x > 0)"

abbreviation alias_pos_rows where
  "alias_pos_rows \<equiv> pos_rows alphys entlogicalAliases entAliasLogicalIndexorZero
     (\<lambda>a. \<not> entAliasMapIdSize a \<ge> 0) (\<lambda>a. entAliasLogicalIndexorZero a \<ge> 0)"

abbreviation cont_pos_rows where
  "cont_pos_rows \<equiv> pos_rows cparent childIndexes id (\<lambda>x. x = 0) (\<lambda>x. x > 0)"

interpretation lp_it: row_iterator "\<lambda>s. position (entLPMappingTable_get_first_data_point tr s)"
  "\<lambda>p. position (entLPMappingTable_get_next_data_point (fst (fst p)) (snd p))" row_of
  "\<lambda>s. lp_pos_rows (gLPMappingTableHead s) (head_slots physicalIndexes (gLPMappingTableHead s))"
  "\<lambda>p. lp_pos_rows (fst (fst p)) (map_option tl (snd p))" for tr
  by unfold_locales (simp only: entLPMappingTable_get_first_data_point_def
      entLPMappingTable_get_next_data_point_def, rule position_rows)+

interpretation alias_it: row_iterator "\<lambda>s. position (entAliasMappingTable_get_first_data_point tr s)"
  "\<lambda>p. position (entAliasMappingTable_get_next_data_point (fst (fst p)) (snd p))" row_of
  "\<lambda>s. alias_pos_rows (gAliasMappingTableHead s) (head_slots entlogicalAliases (gAliasMappingTableHead s))"
  "\<lambda>p. alias_pos_rows (fst (fst p)) (map_option tl (snd p))" for tr
  by unfold_locales (simp only: entAliasMappingTable_get_first_data_point_def
      entAliasMappingTable_get_next_data_point_def, rule position_rows)+

interpretation cont_it: row_iterator "\<lambda>s. position (entPhysicalContainsTable_get_first_data_point tr s)"
  "\<lambda>p. position (entPhysicalContainsTable_get_next_data_point (fst (fst p)) (snd p))" row_of
  "\<lambda>s. cont_pos_rows (gPhyContainsTableHead s) (head_slots childIndexes (gPhyContainsTableHead s))"
  "\<lambda>p. cont_pos_rows (fst (fst p)) (map_option tl (snd p))" for tr
  by unfold_locales (simp only: entPhysicalContainsTable_get_first_data_point_def
      entPhysicalContainsTable_get_next_data_point_def, rule position_rows)+

section \<open>Walking a table\<close>

definition walk_phys :: "nat \<Rightarrow> entity \<Rightarrow> (addr \<times> int list) list option" where
  "walk_phys k s = walk (\<lambda>p. entPhysicalTable_get_next_data_point (fst p)) snd k
     (entPhysicalTable_get_first_data_point s)"

definition walk_logi :: "nat \<Rightarrow> entity \<Rightarrow> (addr \<times> int list) list option" where
  "walk_logi k s = walk (\<lambda>p. entLogicalTable_get_next_data_point (fst p)) snd k
     (entLogicalTable_get_first_data_point s)"

definition walk_lp :: "nat \<Rightarrow> int list option \<Rightarrow> entity \<Rightarrow> (int \<times> int list) list option" where
  "walk_lp k tr s = walk (\<lambda>p. position (entLPMappingTable_get_next_data_point (fst (fst p)) (snd p))) row_of k
     (position (entLPMappingTable_get_first_data_point tr s))"

definition walk_alias :: "nat \<Rightarrow> logicalAlias list option \<Rightarrow> entity \<Rightarrow> (logicalAlias \<times> int list) list option" where
  "walk_alias k tr s = walk (\<lambda>p. position (entAliasMappingTable_get_next_data_point (fst (fst p)) (snd p))) row_of k
     (position (entAliasMappingTable_get_first_data_point tr s))"

definition walk_cont :: "nat \<Rightarrow> int list option \<Rightarrow> entity \<Rightarrow> (int \<times> int list) list option" where
  "walk_cont k tr s = walk (\<lambda>p. position (entPhysicalContainsTable_get_next_data_point (fst (fst p)) (snd p))) row_of k
     (position (entPhysicalContainsTable_get_first_data_point tr s))"

lemma live_rows_twf:
  assumes "twf t"
  shows "sorted_wrt (<) (map (\<lambda>r. hd (snd r)) (live_rows (thead t)))"
    "(a, ix) \<in> set (live_rows (thead t)) \<longleftrightarrow> (\<exists>n. get_live (hd ix) t = Some n \<and> naddr n = a \<and> ix = [nidx n])"
    "length (live_rows (thead t)) \<le> nat (tsize t)"
proof -
  have "sorted_wrt (<) (map nidx (filter (\<lambda>n. 0 < nidx n) ns))"
    if "sorted_wrt (<) (map (\<lambda>n. \<bar>nidx n\<bar>) ns)" for ns :: "'a node list"
    using that by (induction ns) auto
  with assms show "sorted_wrt (<) (map (\<lambda>r. hd (snd r)) (live_rows (thead t)))"
    by (simp add: live_rows_def twf_def comp_def)
  show "(a, ix) \<in> set (live_rows (thead t)) \<longleftrightarrow> (\<exists>n. get_live (hd ix) t = Some n \<and> naddr n = a \<and> ix = [nidx n])"
    using get_live_iff [OF assms] by (auto simp: live_rows_def)
  show "length (live_rows (thead t)) \<le> nat (tsize t)"
    using assms by (simp add: live_rows_def twf_def)
qed

text \<open>When every node is in use and no slot is a terminator, the rows are the slots in use.\<close>

definition plain_rows ::
  "('n \<Rightarrow> int) \<Rightarrow> ('n \<Rightarrow> 'b list option) \<Rightarrow> ('b \<Rightarrow> int) \<Rightarrow> ('b \<Rightarrow> bool) \<Rightarrow> 'n list \<Rightarrow> ('b \<times> int list) list" where
  "plain_rows key arr val good ns =
     concat (map (\<lambda>n. map (\<lambda>y. (y, [key n, val y])) (filter good (slots (arr n)))) ns)"

lemma pos_rows_plain:
  assumes "\<And>n. n \<in> set ns \<Longrightarrow> 0 < key n" "\<And>n y. n \<in> set ns \<Longrightarrow> y \<in> set (slots (arr n)) \<Longrightarrow> \<not> stop y"
  shows "pos_rows key arr val stop good ns (head_slots arr ns) = plain_rows key arr val good ns"
proof -
  have "takeWhile (\<lambda>y. \<not> stop y) (slots (arr n)) = slots (arr n)" if "n \<in> set ns" for n
    using assms(2) that by (subst takeWhile_eq_all_conv) blast
  then have "map (\<lambda>n. slot_rows key val stop good n (slots (arr n))) ns =
      map (\<lambda>n. map (\<lambda>y. (y, [key n, val y])) (filter good (slots (arr n)))) ns"
    using assms(1) by (intro map_cong refl) (simp only: slot_rows_def if_True)
  moreover have "pos_rows key arr val stop good ns (head_slots arr ns) =
      concat (map (\<lambda>n. slot_rows key val stop good n (slots (arr n))) ns)"
    by (cases ns) (simp_all add: pos_rows_def head_slots_def)
  ultimately show ?thesis by (simp only: plain_rows_def)
qed

lemma in_plain_rows:
  "(y, ix) \<in> set (plain_rows key arr val good ns) \<longleftrightarrow>
   (\<exists>n \<in> set ns. y \<in> set (slots (arr n)) \<and> good y \<and> ix = [key n, val y])"
  by (auto simp: plain_rows_def)

lemma plain_rows_distinct:
  assumes "distinct (map key ns)" "\<And>n. n \<in> set ns \<Longrightarrow> distinct (map val (filter good (slots (arr n))))"
  shows "distinct (map snd (plain_rows key arr val good ns))"
  using assms
proof (induction ns)
  case (Cons n ns)
  let ?r = "map (\<lambda>y. (y, [key n, val y])) (filter good (slots (arr n)))"
  have "map snd ?r = map (\<lambda>v. [key n, v]) (map val (filter good (slots (arr n))))" by simp
  then have "distinct (map snd ?r)" using Cons.prems(2) [of n] by (simp only: distinct_map) (auto simp: inj_on_def)
  moreover have "snd ` set ?r \<inter> snd ` set (plain_rows key arr val good ns) = {}"
    using Cons.prems(1) by (auto simp: plain_rows_def)
  moreover have "distinct (map snd (plain_rows key arr val good ns))" using Cons by simp
  moreover have "plain_rows key arr val good (n # ns) = ?r @ plain_rows key arr val good ns"
    by (simp add: plain_rows_def)
  ultimately show ?case by (simp only: map_append distinct_append set_map)
qed (simp add: plain_rows_def)

lemma rows_card:
  assumes "distinct (map snd rs)" "snd ` set rs = f ` R" "inj_on f R"
  shows "length rs = card R"
proof -
  have "length rs = card (set (map snd rs))" using distinct_card [OF assms(1)] by simp
  also have "\<dots> = card (f ` R)" using assms(2) by simp
  finally show ?thesis using assms(3) by (simp add: card_image)
qed

lemma pair_list_inj: "inj_on (\<lambda>(a, b). [a, b]) R"
  by (auto simp: inj_on_def)

lemma pair_list_image: "snd ` (\<lambda>(a, b). (b, [a, b])) ` R = (\<lambda>(a, b). [a, b]) ` R"
  unfolding image_image by (rule image_cong) auto

lemma lp_rows:
  assumes w: "lp_wf s"
  defines "R \<equiv> lp_pos_rows (gLPMappingTableHead s) (head_slots physicalIndexes (gLPMappingTableHead s))"
  shows "distinct (map snd R)" "set R = (\<lambda>(l, p). (p, [l, p])) ` lp_rel s"
proof -
  have R: "R = plain_rows lplogical physicalIndexes id (\<lambda>x. 0 < x) (gLPMappingTableHead s)"
    unfolding R_def using w by (intro pos_rows_plain) (auto simp: lp_wf_def)
  show "distinct (map snd R)" unfolding R
    using w by (intro plain_rows_distinct) (auto simp: lp_wf_def distinct_map)
  show "set R = (\<lambda>(l, p). (p, [l, p])) ` lp_rel s"
    unfolding set_eq_iff R by (auto simp: in_plain_rows lp_rel_def)
qed

lemma cont_rows:
  assumes w: "cont_wf s"
  defines "R \<equiv> cont_pos_rows (gPhyContainsTableHead s) (head_slots childIndexes (gPhyContainsTableHead s))"
  shows "distinct (map snd R)" "set R = (\<lambda>(p, c). (c, [p, c])) ` cont_rel s"
proof -
  have R: "R = plain_rows cparent childIndexes id (\<lambda>x. 0 < x) (gPhyContainsTableHead s)"
    unfolding R_def using w by (intro pos_rows_plain) (fastforce simp: cont_wf_def child_slots_def)+
  show "distinct (map snd R)" unfolding R
    using w by (intro plain_rows_distinct) (auto simp: cont_wf_def child_slots_def)
  show "set R = (\<lambda>(p, c). (c, [p, c])) ` cont_rel s"
    unfolding set_eq_iff R by (auto simp: in_plain_rows cont_rel_def)
qed

lemma alias_rows:
  assumes w: "alias_wf s"
  defines "R \<equiv> alias_pos_rows (gAliasMappingTableHead s) (head_slots entlogicalAliases (gAliasMappingTableHead s))"
  shows "distinct (map snd R)"
    "\<And>p l m. (p, l, m) \<in> alias_rel s \<longleftrightarrow> (\<exists>a. (a, [p, l]) \<in> set R \<and> entAliasMapId a = Some m)"
    "snd ` set R = (\<lambda>(p, l). [p, l]) ` {(p, l). \<exists>m. (p, l, m) \<in> alias_rel s}"
proof -
  have R: "R = plain_rows alphys entlogicalAliases entAliasLogicalIndexorZero
      (\<lambda>a. entAliasLogicalIndexorZero a \<ge> 0) (gAliasMappingTableHead s)"
    unfolding R_def using w by (intro pos_rows_plain) (auto simp: alias_wf_def alias_slots_def)
  show "distinct (map snd R)" unfolding R
    using w by (intro plain_rows_distinct) (auto simp: alias_wf_def alias_slots_def filter_map comp_def)
  show rel: "(p, l, m) \<in> alias_rel s \<longleftrightarrow> (\<exists>a. (a, [p, l]) \<in> set R \<and> entAliasMapId a = Some m)" for p l m
    unfolding R in_plain_rows by (auto simp: alias_rel_def alias_live_def)
  have id: "\<exists>m. entAliasMapId a = Some m" if "(a, ix) \<in> set R" for a ix
    using that w unfolding R in_plain_rows by (auto simp: alias_wf_def alias_slots_def)
  have two: "\<exists>p l. ix = [p, l]" if "(a, ix) \<in> set R" for a ix using that unfolding R in_plain_rows by blast
  have "ix \<in> snd ` set R \<longleftrightarrow> (\<exists>p l m. (p, l, m) \<in> alias_rel s \<and> ix = [p, l])" for ix
    unfolding rel using id two by (metis (no_types, lifting) image_iff prod.collapse snd_conv)
  then show "snd ` set R = (\<lambda>(p, l). [p, l]) ` {(p, l). \<exists>m. (p, l, m) \<in> alias_rel s}"
    unfolding set_eq_iff by (force simp: image_iff)
qed

text \<open>
  Walking the physical or the logical table visits the live entries, each once and in
  increasing order of their indices, and no stale one; the data context of each step is the
  entry with that index. The walk is over after at most as many steps as the table has entries.
\<close>

theorem entity_walk:
  assumes s: "reachable A s" and k: "nat (tsize (gPhysicalTable s)) \<le> k" "nat (tsize (gLogicalTable s)) \<le> k"
  shows "\<exists>ps ls. walk_phys k s = Some ps \<and> walk_logi k s = Some ls \<and>
    sorted_wrt (<) (map (\<lambda>r. hd (snd r)) ps) \<and> sorted_wrt (<) (map (\<lambda>r. hd (snd r)) ls) \<and>
    (\<forall>a i. (a, [i]) \<in> set ps \<longleftrightarrow> map_option naddr (getPhysicalTableEntry i s) = Some a) \<and>
    (\<forall>a i. (a, [i]) \<in> set ls \<longleftrightarrow> map_option naddr (getLogicalTableEntry i s) = Some a)"
proof -
  have "tables_wf s" using reachable_inv [OF s] by (rule entity_invD)
  then have t: "twf (gPhysicalTable s)" "twf (gLogicalTable s)" by (simp_all add: tables_wf_def)
  note P = live_rows_twf [OF t(1)] and L = live_rows_twf [OF t(2)]
  have "walk_phys k s = Some (live_rows (thead (gPhysicalTable s)))"
    unfolding walk_phys_def using P(3) k(1) by (intro phys_it.walk_rows) simp
  moreover have "walk_logi k s = Some (live_rows (thead (gLogicalTable s)))"
    unfolding walk_logi_def using L(3) k(2) by (intro logi_it.walk_rows) simp
  moreover have "(a, [i]) \<in> set (live_rows (thead (gPhysicalTable s))) \<longleftrightarrow>
      map_option naddr (getPhysicalTableEntry i s) = Some a" for a i
    using P(2) [of a "[i]"] get_live_iff [OF t(1), of i] by (auto simp: getPhysicalTableEntry_def)
  moreover have "(a, [i]) \<in> set (live_rows (thead (gLogicalTable s))) \<longleftrightarrow>
      map_option naddr (getLogicalTableEntry i s) = Some a" for a i
    using L(2) [of a "[i]"] get_live_iff [OF t(2), of i] by (auto simp: getLogicalTableEntry_def)
  ultimately show ?thesis using P(1) L(1) by blast
qed

theorem entity_walk_witness:
  "\<exists>ps. walk_phys 2 (after_calls demo_calls) = Some ps \<and> (1, [1]) \<in> set ps \<and> (2, [2]) \<in> set ps"
proof -
  let ?s = "after_calls demo_calls"
  have k: "nat (tsize (gPhysicalTable ?s)) \<le> 2" "nat (tsize (gLogicalTable ?s)) \<le> 2" by code_simp+
  have "map_option naddr (getPhysicalTableEntry 1 ?s) = Some 1" "map_option naddr (getPhysicalTableEntry 2 ?s) = Some 2"
    by code_simp+
  with entity_walk [OF demo_reachable [OF UNIV_I] k] show ?thesis by blast
qed

text \<open>
  Walking the logical-to-physical or the containment table visits every row of the
  table exactly once, whatever the static pointer was before, and is over after exactly as
  many steps as there are rows; the data context of a step is the row's last index.
\<close>

theorem mapping_walk:
  assumes s: "reachable A s"
  shows "\<exists>ls cs. walk_lp (card (lp_rel s)) tr s = Some ls \<and> walk_cont (card (cont_rel s)) tr s = Some cs \<and>
    distinct (map snd ls) \<and> set ls = (\<lambda>(l, p). (p, [l, p])) ` lp_rel s \<and> length ls = card (lp_rel s) \<and>
    distinct (map snd cs) \<and> set cs = (\<lambda>(p, c). (c, [p, c])) ` cont_rel s \<and> length cs = card (cont_rel s)"
proof -
  have i: "entity_inv s" using s by (rule reachable_inv)
  let ?l = "lp_pos_rows (gLPMappingTableHead s) (head_slots physicalIndexes (gLPMappingTableHead s))"
  let ?c = "cont_pos_rows (gPhyContainsTableHead s) (head_slots childIndexes (gPhyContainsTableHead s))"
  note L = lp_rows [OF entity_invD(5) [OF i]] and C = cont_rows [OF entity_invD(7) [OF i]]
  have l: "length ?l = card (lp_rel s)"
    using L(1) by (rule rows_card [OF _ _ pair_list_inj]) (simp only: L(2) pair_list_image)
  have c: "length ?c = card (cont_rel s)"
    using C(1) by (rule rows_card [OF _ _ pair_list_inj]) (simp only: C(2) pair_list_image)
  have "walk_lp (card (lp_rel s)) tr s = Some ?l"
    unfolding walk_lp_def by (rule lp_it.walk_rows) (simp add: l)
  moreover have "walk_cont (card (cont_rel s)) tr s = Some ?c"
    unfolding walk_cont_def by (rule cont_it.walk_rows) (simp add: c)
  ultimately show ?thesis using L C l c by blast
qed

theorem mapping_walk_witness:
  "\<exists>ls. walk_lp 1 None (after_calls demo_calls) = Some ls \<and> set ls = {(2, [1, 2])}"
proof -
  have "lp_rel (after_calls demo_calls) = {(1, 2)}" by code_simp
  with mapping_walk [OF demo_reachable [OF UNIV_I], of None] show ?thesis by auto
qed

text \<open>
  Walking the alias table visits each pair of a physical index and a logical index that
  has an alias exactly once; the data context is the slot that holds the pair's OID.
\<close>

theorem alias_walk:
  assumes s: "reachable A s"
  shows "\<exists>rs. walk_alias (card {(p, l). \<exists>m. (p, l, m) \<in> alias_rel s}) tr s = Some rs \<and>
    distinct (map snd rs) \<and> snd ` set rs = {[p, l] |p l. \<exists>m. (p, l, m) \<in> alias_rel s} \<and>
    (\<forall>p l m. (p, l, m) \<in> alias_rel s \<longleftrightarrow> (\<exists>a. (a, [p, l]) \<in> set rs \<and> entAliasMapId a = Some m))"
proof -
  have i: "entity_inv s" using s by (rule reachable_inv)
  let ?P = "{(p, l). \<exists>m. (p, l, m) \<in> alias_rel s}"
  let ?r = "alias_pos_rows (gAliasMappingTableHead s) (head_slots entlogicalAliases (gAliasMappingTableHead s))"
  note R = alias_rows [OF entity_invD(6) [OF i]]
  have c: "length ?r = card ?P"
    using R(1,3) pair_list_inj by (rule rows_card)
  have "walk_alias (card ?P) tr s = Some ?r"
    unfolding walk_alias_def by (rule alias_it.walk_rows) (simp only: c)
  moreover have "(\<lambda>(p, l). [p, l]) ` ?P = {[p, l] |p l. \<exists>m. (p, l, m) \<in> alias_rel s}" by auto
  ultimately show ?thesis using R by (intro exI [of _ ?r]) simp
qed

theorem alias_walk_witness:
  "\<exists>rs. walk_alias 1 None (after_calls demo_calls) = Some rs \<and> snd ` set rs = {[2, 1]}"
proof -
  have "alias_rel (after_calls demo_calls) = {(2, 1, [1, 3])}" by code_simp
  then have "{(p, l). \<exists>m. (p, l, m) \<in> alias_rel (after_calls demo_calls)} = {(2, 1)}"
    "{[p, l] |p l. \<exists>m. (p, l, m) \<in> alias_rel (after_calls demo_calls)} = {[2, 1]}" by auto
  with alias_walk [OF demo_reachable [OF UNIV_I], of None] show ?thesis by auto
qed

end
