(* ===== verification/Snmp_Handlers.thy ===== *)
theory Snmp_Handlers
  imports Row_Iterators
begin

text \<open>
  The request handlers the agent calls for the five tables and for \<^verbatim>\<open>entLastChangeTime\<close>, and
  the registrations that announce the tables to it. The agent library is not part of the
  sources: what a handler reads from it (the row the iterator found, the column, the value to
  set, the data attached to a request) are the fields of a request, and what a handler tells
  it is recorded as a list of calls per request. A handler returns \<open>None\<close> where the C code
  reads through a null or dangling pointer.
\<close>

section \<open>Requests and replies\<close>

datatype agent_mode =
  MODE_GET | MODE_SET_RESERVE1 | MODE_SET_RESERVE2 | MODE_SET_ACTION | MODE_SET_COMMIT
| MODE_SET_FREE | MODE_SET_UNDO | Mode_other

datatype snmp_status =
  SNMP_ERR_NOERROR | SNMP_ERR_GENERR | SNMP_ERR_WRONGTYPE | SNMP_ERR_WRONGLENGTH
| SNMP_ERR_RESOURCEUNAVAILABLE | SNMP_ERR_NOTWRITABLE | SNMP_NOSUCHINSTANCE

datatype asn_value =
  ASN_OCTET_STR string | ASN_OBJECT_ID oid | ASN_INTEGER int | ASN_TIMETICKS nat

text \<open>The calls: \<^verbatim>\<open>snmp_set_var_typed_value\<close>, \<^verbatim>\<open>netsnmp_set_request_error\<close>,
  \<^verbatim>\<open>netsnmp_request_add_list_data\<close> and \<^verbatim>\<open>snmp_log\<close>.\<close>

datatype agent_call =
  Set_value asn_value | Set_error snmp_status | Add_list_data string cstring | Log_err

text \<open>
  \<open>iterator_context\<close> is what \<^verbatim>\<open>netsnmp_extract_iterator_context\<close> returns, \<open>colnum\<close> the
  column of \<^verbatim>\<open>netsnmp_extract_table_info\<close> unless that is null, \<open>list_data\<close> what
  \<^verbatim>\<open>netsnmp_request_get_list_data\<close> returns for a name; the \<open>var\<close> fields are the type, the
  bytes and the length of the request's variable.
\<close>

record 'c request =
  processed :: int
  iterator_context :: "'c option"
  colnum :: "int option"
  var_octet_str :: bool
  var_string :: cstring
  var_len :: nat
  list_data :: "string \<Rightarrow> cstring"

definition set_octets :: "cstring \<Rightarrow> agent_call option" where
  "set_octets x = map_option (\<lambda>y. Set_value (ASN_OCTET_STR y)) x"

text \<open>
  An OID is passed by the number of its bytes; a buffer of \<open>n\<close> bytes holds
  \<open>n div sizeof_oid\<close> whole identifiers.
\<close>

definition set_oid :: "oid option \<Rightarrow> int \<Rightarrow> agent_call option" where
  "set_oid x n = (case x of None \<Rightarrow> None
                  | Some y \<Rightarrow> if 0 \<le> n \<and> n div sizeof_oid \<le> int (length y)
                      then Some (Set_value (ASN_OBJECT_ID (take (nat (n div sizeof_oid)) y))) else None)"

definition set_integer :: "int \<Rightarrow> agent_call option" where
  "set_integer x = Some (Set_value (ASN_INTEGER x))"

text \<open>The entry a context pointer of an entity table points to; \<open>None\<close> when it dangles.\<close>

definition entry_at :: "addr option \<Rightarrow> 'a itable \<Rightarrow> 'a node option option" where
  "entry_at c t = (case c of None \<Rightarrow> Some None
                   | Some a \<Rightarrow> map_option Some (find (\<lambda>n. naddr n = a) (thead t)))"

definition no_row :: "'a node option \<Rightarrow> bool" where
  "no_row e = (case e of None \<Rightarrow> True | Some n \<Rightarrow> nidx n \<le> 0)"

section \<open>Registrations\<close>

record registration =
  reg_name :: string
  reg_oid :: oid
  reg_writable :: bool
  reg_indexes :: nat
  min_column :: int
  max_column :: int

text \<open>What is handed to \<^verbatim>\<open>netsnmp_register_table_iterator\<close>, unless one of the three blocks is missing.\<close>

definition initialize_table_entPhysicalTable :: "(nat \<Rightarrow> bool) \<Rightarrow> registration option" where
  "initialize_table_entPhysicalTable ok =
     (if \<not> ok 2 \<or> \<not> ok 0 \<or> \<not> ok 1 then None
      else Some \<lparr>reg_name = ''entPhysicalTable'', reg_oid = [1, 3, 6, 1, 2, 1, 47, 1, 1, 1],
                 reg_writable = False, reg_indexes = 1, min_column = 2, max_column = 16\<rparr>)"

definition initialize_table_entLogicalTable :: "(nat \<Rightarrow> bool) \<Rightarrow> registration option" where
  "initialize_table_entLogicalTable ok =
     (if \<not> ok 2 \<or> \<not> ok 0 \<or> \<not> ok 1 then None
      else Some \<lparr>reg_name = ''entLogicalTable'', reg_oid = [1, 3, 6, 1, 2, 1, 47, 1, 2, 1],
                 reg_writable = False, reg_indexes = 1, min_column = 2, max_column = 8\<rparr>)"

definition initialize_table_entLPMappingTable :: "(nat \<Rightarrow> bool) \<Rightarrow> registration option" where
  "initialize_table_entLPMappingTable ok =
     (if \<not> ok 2 \<or> \<not> ok 0 \<or> \<not> ok 1 then None
      else Some \<lparr>reg_name = ''entLPMappingTable'', reg_oid = [1, 3, 6, 1, 2, 1, 47, 1, 3, 1],
                 reg_writable = False, reg_indexes = 2, min_column = 1, max_column = 1\<rparr>)"

definition initialize_table_entAliasMappingTable :: "(nat \<Rightarrow> bool) \<Rightarrow> registration option" where
  "initialize_table_entAliasMappingTable ok =
     (if \<not> ok 2 \<or> \<not> ok 0 \<or> \<not> ok 1 then None
      else Some \<lparr>reg_name = ''entAliasMappingTable'', reg_oid = [1, 3, 6, 1, 2, 1, 47, 1, 3, 2],
                 reg_writable = False, reg_indexes = 2, min_column = 2, max_column = 2\<rparr>)"

definition initialize_table_entPhysicalContainsTable :: "(nat \<Rightarrow> bool) \<Rightarrow> registration option" where
  "initialize_table_entPhysicalContainsTable ok =
     (if \<not> ok 2 \<or> \<not> ok 0 \<or> \<not> ok 1 then None
      else Some \<lparr>reg_name = ''entPhysicalContainsTable'', reg_oid = [1, 3, 6, 1, 2, 1, 47, 1, 3, 3],
                 reg_writable = False, reg_indexes = 2, min_column = 1, max_column = 1\<rparr>)"

lemmas registration_defs =
  initialize_table_entPhysicalTable_def initialize_table_entLogicalTable_def
  initialize_table_entLPMappingTable_def initialize_table_entAliasMappingTable_def
  initialize_table_entPhysicalContainsTable_def

section \<open>Read-only tables\<close>

text \<open>
  Four of the handlers are the same loop: a request that was processed already or has no
  table information is skipped, a missing row is an error for a GET, a GET calls the switch
  over the columns, and every other mode is logged. \<open>lookup\<close> follows the context pointer,
  \<open>Some None\<close> being a missing row.
\<close>

fun read_handler ::
  "('c option \<Rightarrow> 'e option option) \<Rightarrow> ('e \<Rightarrow> int \<Rightarrow> agent_call option) \<Rightarrow> agent_mode \<Rightarrow> 'c request list \<Rightarrow>
   (snmp_status \<times> agent_call list list) option" where
  "read_handler lookup column m [] = Some (SNMP_ERR_NOERROR, [])"
| "read_handler lookup column m (r # rs) =
     Option.bind
       (if processed r \<noteq> 0 then Some []
        else
          (case lookup (iterator_context r) of
             None \<Rightarrow> None
           | Some e \<Rightarrow>
               if e = None \<and> m = MODE_GET then Some [Set_error SNMP_NOSUCHINSTANCE]
               else
                 (case colnum r of
                    None \<Rightarrow> Some []
                  | Some c \<Rightarrow>
                      if m = MODE_GET
                      then (case e of None \<Rightarrow> None | Some x \<Rightarrow> map_option (\<lambda>v. [v]) (column x c))
                      else Some [Log_err])))
       (\<lambda>cs. map_option (\<lambda>(code, css). (code, cs # css)) (read_handler lookup column m rs))"

subsection \<open>Logical table\<close>

definition COLUMN_ENTLOGICALDESCR :: int where "COLUMN_ENTLOGICALDESCR = 2"
definition COLUMN_ENTLOGICALTYPE :: int where "COLUMN_ENTLOGICALTYPE = 3"
definition COLUMN_ENTLOGICALCOMMUNITY :: int where "COLUMN_ENTLOGICALCOMMUNITY = 4"
definition COLUMN_ENTLOGICALTADDRESS :: int where "COLUMN_ENTLOGICALTADDRESS = 5"
definition COLUMN_ENTLOGICALTDOMAIN :: int where "COLUMN_ENTLOGICALTDOMAIN = 6"
definition COLUMN_ENTLOGICALCONTEXTENGINEID :: int where "COLUMN_ENTLOGICALCONTEXTENGINEID = 7"
definition COLUMN_ENTLOGICALCONTEXTNAME :: int where "COLUMN_ENTLOGICALCONTEXTNAME = 8"

lemmas logical_columns = COLUMN_ENTLOGICALDESCR_def COLUMN_ENTLOGICALTYPE_def
  COLUMN_ENTLOGICALCOMMUNITY_def COLUMN_ENTLOGICALTADDRESS_def COLUMN_ENTLOGICALTDOMAIN_def
  COLUMN_ENTLOGICALCONTEXTENGINEID_def COLUMN_ENTLOGICALCONTEXTNAME_def

definition logical_column :: "entLogicalEntry node \<Rightarrow> int \<Rightarrow> agent_call option" where
  "logical_column n c =
     (let e = ndata n in
      if c = COLUMN_ENTLOGICALDESCR then set_octets (entLogicalDescr e)
      else if c = COLUMN_ENTLOGICALTYPE then set_oid (entLogicalType e) (entLogicalTypeSize e)
      else if c = COLUMN_ENTLOGICALCOMMUNITY then set_octets (entLogicalCommunity e)
      else if c = COLUMN_ENTLOGICALTADDRESS then set_octets (entLogicalTAddress e)
      else if c = COLUMN_ENTLOGICALTDOMAIN then set_oid (entLogicalTDomain e) (entLogicalTDomainSize e)
      else if c = COLUMN_ENTLOGICALCONTEXTENGINEID then set_octets (entLogicalContextEngineId e)
      else if c = COLUMN_ENTLOGICALCONTEXTNAME then set_octets (entLogicalContextName e)
      else Some Log_err)"

definition logical_row :: "entity \<Rightarrow> addr option \<Rightarrow> entLogicalEntry node option option" where
  "logical_row s c =
     map_option (\<lambda>e. if no_row e then None else e) (entry_at c (gLogicalTable s))"

definition entLogicalTable_handler ::
  "entity \<Rightarrow> agent_mode \<Rightarrow> addr request list \<Rightarrow> (snmp_status \<times> agent_call list list) option" where
  "entLogicalTable_handler s m rs = read_handler (logical_row s) logical_column m rs"

subsection \<open>Mapping tables\<close>

text \<open>The context is a pointer to a slot, given by the contents of the slot.\<close>

definition COLUMN_ENTLPPHYSICALINDEX :: int where "COLUMN_ENTLPPHYSICALINDEX = 1"
definition COLUMN_ENTALIASMAPPINGIDENTIFIER :: int where "COLUMN_ENTALIASMAPPINGIDENTIFIER = 2"
definition COLUMN_ENTPHYSICALCHILDINDEX :: int where "COLUMN_ENTPHYSICALCHILDINDEX = 1"

definition entLPMappingTable_handler ::
  "agent_mode \<Rightarrow> int request list \<Rightarrow> (snmp_status \<times> agent_call list list) option" where
  "entLPMappingTable_handler m rs =
     read_handler Some
       (\<lambda>idx c. if c = COLUMN_ENTLPPHYSICALINDEX then set_integer idx else Some Log_err) m rs"

definition entAliasMappingTable_handler ::
  "agent_mode \<Rightarrow> logicalAlias request list \<Rightarrow> (snmp_status \<times> agent_call list list) option" where
  "entAliasMappingTable_handler m rs =
     read_handler Some
       (\<lambda>a c. if c = COLUMN_ENTALIASMAPPINGIDENTIFIER
              then set_oid (entAliasMapId a) (entAliasMapIdSize a) else Some Log_err) m rs"

definition entPhysicalContainsTable_handler ::
  "agent_mode \<Rightarrow> int request list \<Rightarrow> (snmp_status \<times> agent_call list list) option" where
  "entPhysicalContainsTable_handler m rs =
     read_handler Some
       (\<lambda>idx c. if c = COLUMN_ENTPHYSICALCHILDINDEX then set_integer idx else Some Log_err) m rs"

subsection \<open>The time of the last change\<close>

definition get_entLastChangeTime ::
  "snmp_env \<Rightarrow> agent_mode \<Rightarrow> last_change \<Rightarrow> snmp_status \<times> agent_call list" where
  "get_entLastChangeTime E m l =
     (case m of
        MODE_GET \<Rightarrow> (SNMP_ERR_NOERROR, [Set_value (ASN_TIMETICKS (entLastChangeTime_TimeTicks E l))])
      | _ \<Rightarrow> (SNMP_ERR_GENERR, []))"

section \<open>The physical table\<close>

definition COLUMN_ENTPHYSICALDESCR :: int where "COLUMN_ENTPHYSICALDESCR = 2"
definition COLUMN_ENTPHYSICALVENDORTYPE :: int where "COLUMN_ENTPHYSICALVENDORTYPE = 3"
definition COLUMN_ENTPHYSICALCONTAINEDIN :: int where "COLUMN_ENTPHYSICALCONTAINEDIN = 4"
definition COLUMN_ENTPHYSICALCLASS :: int where "COLUMN_ENTPHYSICALCLASS = 5"
definition COLUMN_ENTPHYSICALPARENTRELPOS :: int where "COLUMN_ENTPHYSICALPARENTRELPOS = 6"
definition COLUMN_ENTPHYSICALNAME :: int where "COLUMN_ENTPHYSICALNAME = 7"
definition COLUMN_ENTPHYSICALHARDWAREREV :: int where "COLUMN_ENTPHYSICALHARDWAREREV = 8"
definition COLUMN_ENTPHYSICALFIRMWAREREV :: int where "COLUMN_ENTPHYSICALFIRMWAREREV = 9"
definition COLUMN_ENTPHYSICALSOFTWAREREV :: int where "COLUMN_ENTPHYSICALSOFTWAREREV = 10"
definition COLUMN_ENTPHYSICALSERIALNUM :: int where "COLUMN_ENTPHYSICALSERIALNUM = 11"
definition COLUMN_ENTPHYSICALMFGNAME :: int where "COLUMN_ENTPHYSICALMFGNAME = 12"
definition COLUMN_ENTPHYSICALMODELNAME :: int where "COLUMN_ENTPHYSICALMODELNAME = 13"
definition COLUMN_ENTPHYSICALALIAS :: int where "COLUMN_ENTPHYSICALALIAS = 14"
definition COLUMN_ENTPHYSICALASSETID :: int where "COLUMN_ENTPHYSICALASSETID = 15"
definition COLUMN_ENTPHYSICALISFRU :: int where "COLUMN_ENTPHYSICALISFRU = 16"

lemmas physical_columns =
  COLUMN_ENTPHYSICALDESCR_def COLUMN_ENTPHYSICALVENDORTYPE_def COLUMN_ENTPHYSICALCONTAINEDIN_def
  COLUMN_ENTPHYSICALCLASS_def COLUMN_ENTPHYSICALPARENTRELPOS_def COLUMN_ENTPHYSICALNAME_def
  COLUMN_ENTPHYSICALHARDWAREREV_def COLUMN_ENTPHYSICALFIRMWAREREV_def COLUMN_ENTPHYSICALSOFTWAREREV_def
  COLUMN_ENTPHYSICALSERIALNUM_def COLUMN_ENTPHYSICALMFGNAME_def COLUMN_ENTPHYSICALMODELNAME_def
  COLUMN_ENTPHYSICALALIAS_def COLUMN_ENTPHYSICALASSETID_def COLUMN_ENTPHYSICALISFRU_def

definition phys_get :: "entPhysicalEntry \<Rightarrow> int \<Rightarrow> agent_call option" where
  "phys_get e c =
     (if c = COLUMN_ENTPHYSICALDESCR then set_octets (entPhysicalDescr e)
      else if c = COLUMN_ENTPHYSICALVENDORTYPE then set_oid (entPhysicalVendorType e) (entPhysicalVendorTypeSize e)
      else if c = COLUMN_ENTPHYSICALCONTAINEDIN then set_integer (entPhysicalContainedIn e)
      else if c = COLUMN_ENTPHYSICALCLASS then set_integer (entPhysicalClass e)
      else if c = COLUMN_ENTPHYSICALPARENTRELPOS then set_integer (entPhysicalParentRelPos e)
      else if c = COLUMN_ENTPHYSICALNAME then set_octets (entPhysicalName e)
      else if c = COLUMN_ENTPHYSICALHARDWAREREV then set_octets (entPhysicalHardwareRev e)
      else if c = COLUMN_ENTPHYSICALFIRMWAREREV then set_octets (entPhysicalFirmwareRev e)
      else if c = COLUMN_ENTPHYSICALSOFTWAREREV then set_octets (entPhysicalSoftwareRev e)
      else if c = COLUMN_ENTPHYSICALSERIALNUM then set_octets (entPhysicalSerialNum e)
      else if c = COLUMN_ENTPHYSICALMFGNAME then set_octets (entPhysicalMfgName e)
      else if c = COLUMN_ENTPHYSICALMODELNAME then set_octets (entPhysicalModelName e)
      else if c = COLUMN_ENTPHYSICALALIAS then set_octets (entPhysicalAlias e)
      else if c = COLUMN_ENTPHYSICALASSETID then set_octets (entPhysicalAssetID e)
      else if c = COLUMN_ENTPHYSICALISFRU then set_integer (entPhysicalIsFRU e)
      else Some Log_err)"

text \<open>
  Three columns can be set; the code handles each in the same way, with its own field and
  its own name for the old value it attaches to the request.
\<close>

datatype writable = Serial_num | Alias_name | Asset_id

definition writable_column :: "int \<Rightarrow> writable option" where
  "writable_column c =
     (if c = COLUMN_ENTPHYSICALSERIALNUM then Some Serial_num
      else if c = COLUMN_ENTPHYSICALALIAS then Some Alias_name
      else if c = COLUMN_ENTPHYSICALASSETID then Some Asset_id else None)"

fun cache_name :: "writable \<Rightarrow> string" where
  "cache_name Serial_num = ''entphyserialnum_cache''"
| "cache_name Alias_name = ''entphyalias_cache''"
| "cache_name Asset_id = ''entphyassetid_cache''"

fun writable_get :: "writable \<Rightarrow> entPhysicalEntry \<Rightarrow> cstring" where
  "writable_get Serial_num e = entPhysicalSerialNum e"
| "writable_get Alias_name e = entPhysicalAlias e"
| "writable_get Asset_id e = entPhysicalAssetID e"

fun writable_set :: "writable \<Rightarrow> cstring \<Rightarrow> entPhysicalEntry \<Rightarrow> entPhysicalEntry" where
  "writable_set Serial_num x e = e\<lparr>entPhysicalSerialNum := x\<rparr>"
| "writable_set Alias_name x e = e\<lparr>entPhysicalAlias := x\<rparr>"
| "writable_set Asset_id x e = e\<lparr>entPhysicalAssetID := x\<rparr>"

text \<open>The checks of the first phase; a code is an early return from the handler.\<close>

definition phys_reserve1 :: "addr request \<Rightarrow> int \<Rightarrow> snmp_status option \<times> agent_call list" where
  "phys_reserve1 r c =
     (case writable_column c of
        None \<Rightarrow> (None, [Set_error SNMP_ERR_NOTWRITABLE])
      | Some w \<Rightarrow>
          if \<not> var_octet_str r then (Some SNMP_ERR_WRONGTYPE, [Set_error SNMP_ERR_WRONGTYPE])
          else if var_string r \<noteq> None \<and> var_len r > 32
          then (Some SNMP_ERR_WRONGLENGTH, [Set_error SNMP_ERR_WRONGLENGTH])
          else (None, []))"

text \<open>The second phase attaches a copy of the old value. The copy of a null pointer is undefined.\<close>

definition phys_reserve2 :: "bool \<Rightarrow> entPhysicalEntry node option \<Rightarrow> int \<Rightarrow> agent_call list option" where
  "phys_reserve2 mem e c =
     (case writable_column c of
        None \<Rightarrow> Some [Set_error SNMP_ERR_NOTWRITABLE]
      | Some w \<Rightarrow>
          Option.bind e (\<lambda>n. Option.bind (writable_get w (ndata n)) (\<lambda>x.
            if mem then Some [Add_list_data (cache_name w) (Some x)]
            else Some [Set_error SNMP_ERR_RESOURCEUNAVAILABLE, Add_list_data (cache_name w) None])))"

text \<open>\<^verbatim>\<open>strncpy\<close> of the variable's bytes, which are not terminated, into a block one byte longer.\<close>

definition var_text :: "addr request \<Rightarrow> cstring" where
  "var_text r =
     (case var_string r of
        None \<Rightarrow> if var_len r = 0 then Some [] else None
      | Some bs \<Rightarrow> if var_len r \<le> length bs
          then Some (takeWhile (\<lambda>b. b \<noteq> CHR 0x00) (take (var_len r) bs)) else None)"

definition phys_action ::
  "bool \<Rightarrow> addr request \<Rightarrow> entPhysicalEntry node option \<Rightarrow> int \<Rightarrow> entity \<Rightarrow> (agent_call list \<times> entity) option" where
  "phys_action mem r e c s =
     (case writable_column c of
        None \<Rightarrow> Some ([Set_error SNMP_ERR_NOTWRITABLE], s)
      | Some w \<Rightarrow>
          Option.bind e (\<lambda>n.
            if mem
            then Option.bind (var_text r) (\<lambda>v.
              Some ([], s\<lparr>gPhysicalTable := write_node (naddr n) (writable_set w (Some v)) (gPhysicalTable s)\<rparr>))
            else
              Some ([Set_error SNMP_ERR_RESOURCEUNAVAILABLE],
                s\<lparr>gPhysicalTable := write_node (naddr n) (writable_set w None) (gPhysicalTable s)\<rparr>)))"

definition phys_undo ::
  "bool \<Rightarrow> addr request \<Rightarrow> entPhysicalEntry node option \<Rightarrow> int \<Rightarrow> entity \<Rightarrow> (agent_call list \<times> entity) option" where
  "phys_undo mem r e c s =
     (case writable_column c of
        None \<Rightarrow> Some ([Set_error SNMP_ERR_NOTWRITABLE], s)
      | Some w \<Rightarrow>
          Option.bind e (\<lambda>n. Option.bind (list_data r (cache_name w)) (\<lambda>old.
            Some ([], s\<lparr>gPhysicalTable :=
              write_node (naddr n) (writable_set w (if mem then Some old else None)) (gPhysicalTable s)\<rparr>))))"

text \<open>The commit and free phases: nothing to do for the three columns.\<close>

definition phys_finish :: "int \<Rightarrow> agent_call list" where
  "phys_finish c = (case writable_column c of None \<Rightarrow> [Set_error SNMP_ERR_NOTWRITABLE] | Some w \<Rightarrow> [])"

text \<open>
  One request: the code of an early return, the calls, the number of memory requests made
  so far and the state.
\<close>

definition phys_request ::
  "(nat \<Rightarrow> bool) \<Rightarrow> agent_mode \<Rightarrow> addr request \<Rightarrow> nat \<Rightarrow> entity \<Rightarrow>
   (snmp_status option \<times> agent_call list \<times> nat \<times> entity) option" where
  "phys_request ok m r k s =
     (if processed r \<noteq> 0 then Some (None, [], k, s)
      else
        Option.bind (entry_at (iterator_context r) (gPhysicalTable s)) (\<lambda>e.
          if no_row e \<and> m = MODE_GET then Some (None, [Set_error SNMP_NOSUCHINSTANCE], k, s)
          else
            (case colnum r of
               None \<Rightarrow> Some (None, [], k, s)
             | Some c \<Rightarrow>
                 (case m of
                    MODE_GET \<Rightarrow>
                      Option.bind e (\<lambda>n. map_option (\<lambda>v. (None, [v], k, s)) (phys_get (ndata n) c))
                  | MODE_SET_RESERVE1 \<Rightarrow> (case phys_reserve1 r c of (ret, cs) \<Rightarrow> Some (ret, cs, k, s))
                  | MODE_SET_RESERVE2 \<Rightarrow> map_option (\<lambda>cs. (None, cs, Suc k, s)) (phys_reserve2 (ok k) e c)
                  | MODE_SET_ACTION \<Rightarrow> map_option (\<lambda>(cs, s'). (None, cs, Suc k, s')) (phys_action (ok k) r e c s)
                  | MODE_SET_COMMIT \<Rightarrow> Some (None, phys_finish c, k, s)
                  | MODE_SET_FREE \<Rightarrow> Some (None, phys_finish c, k, s)
                  | MODE_SET_UNDO \<Rightarrow> map_option (\<lambda>(cs, s'). (None, cs, Suc k, s')) (phys_undo (ok k) r e c s)
                  | Mode_other \<Rightarrow> Some (None, [Log_err], k, s)))))"

fun entPhysicalTable_handler ::
  "(nat \<Rightarrow> bool) \<Rightarrow> agent_mode \<Rightarrow> addr request list \<Rightarrow> nat \<Rightarrow> entity \<Rightarrow>
   (snmp_status \<times> agent_call list list \<times> entity) option" where
  "entPhysicalTable_handler ok m [] k s = Some (SNMP_ERR_NOERROR, [], s)"
| "entPhysicalTable_handler ok m (r # rs) k s =
     (case phys_request ok m r k s of
        None \<Rightarrow> None
      | Some (Some code, cs, k', s') \<Rightarrow> Some (code, [cs], s')
      | Some (None, cs, k', s') \<Rightarrow>
          map_option (\<lambda>(code, css, s''). (code, cs # css, s'')) (entPhysicalTable_handler ok m rs k' s'))"

end
