(* ===== verification/Entity_Requests.thy ===== *)
theory Entity_Requests
  imports Snmp_Handlers
begin

text \<open>
  What a manager sees of the module: a GET of any registered column of a live row is answered
  with a value of the column's syntax, a row the walk has visited is answered with the data
  of that row, and a SET of one of the three writable columns changes exactly that field and
  can be undone.
\<close>

section \<open>Columns and their syntax\<close>

text \<open>The syntax the MIB gives the columns of \<^verbatim>\<open>entPhysicalTable\<close> and \<^verbatim>\<open>entLogicalTable\<close>.\<close>

definition phys_syntax :: "int \<Rightarrow> asn_value \<Rightarrow> bool" where
  "phys_syntax c v =
     (case v of
        ASN_OCTET_STR x \<Rightarrow> (c \<in> {2, 7, 8, 9, 10, 12, 13} \<and> strlen x \<le> 255) \<or> (c \<in> {11, 14, 15} \<and> strlen x \<le> 32)
      | ASN_OBJECT_ID x \<Rightarrow> c = 3
      | ASN_INTEGER i \<Rightarrow> c = 4 \<or> (c = 5 \<and> 1 \<le> i \<and> i \<le> 11) \<or> (c = 6 \<and> -1 \<le> i \<and> i \<le> MAX_ENTITY_INDEX) \<or>
          (c = 16 \<and> (i = MIB_TRUE \<or> i = MIB_FALSE))
      | ASN_TIMETICKS t \<Rightarrow> False)"

definition logi_syntax :: "int \<Rightarrow> asn_value \<Rightarrow> bool" where
  "logi_syntax c v =
     (case v of
        ASN_OCTET_STR x \<Rightarrow> (c \<in> {2, 4, 8} \<and> strlen x \<le> 255) \<or>
          (c = 5 \<and> 1 \<le> strlen x \<and> strlen x \<le> 255) \<or> (c = 7 \<and> strlen x \<le> 32)
      | ASN_OBJECT_ID x \<Rightarrow> c = 3 \<or> c = 6
      | _ \<Rightarrow> False)"

text \<open>A request for a column of a registered table, on the live entry the walk has found.\<close>

definition phys_asks :: "registration \<Rightarrow> entity \<Rightarrow> addr request \<Rightarrow> bool" where
  "phys_asks reg s r \<longleftrightarrow> processed r = 0 \<and>
     (\<exists>c. colnum r = Some c \<and> min_column reg \<le> c \<and> c \<le> max_column reg) \<and>
     (\<exists>i n. getPhysicalTableEntry i s = Some n \<and> iterator_context r = Some (naddr n))"

definition logi_asks :: "registration \<Rightarrow> entity \<Rightarrow> addr request \<Rightarrow> bool" where
  "logi_asks reg s r \<longleftrightarrow> processed r = 0 \<and>
     (\<exists>c. colnum r = Some c \<and> min_column reg \<le> c \<and> c \<le> max_column reg) \<and>
     (\<exists>i n. getLogicalTableEntry i s = Some n \<and> iterator_context r = Some (naddr n))"

lemma within_Some: "within n x \<longleftrightarrow> (\<exists>y. x = Some y \<and> strlen y \<le> n)"
  by (auto simp: within_def split: option.splits)

lemma set_oid_typed: "oid_typed x n \<Longrightarrow> \<exists>y. set_oid x n = Some (Set_value (ASN_OBJECT_ID y))"
  by (auto simp: oid_typed_def set_oid_def split: option.splits)

lemma phys_get_typed:
  assumes d: "phys_typed e" and c: "2 \<le> c" "c \<le> 16"
  shows "\<exists>v. phys_get e c = Some (Set_value v) \<and> phys_syntax c v"
proof -
  have "c \<in> {2, 3, 4, 5, 6, 7, 8, 9, 10, 11, 12, 13, 14, 15, 16}"
    using c by (simp only: insert_iff empty_iff) presburger
  then show ?thesis
    using d set_oid_typed [of "entPhysicalVendorType e" "entPhysicalVendorTypeSize e"]
    unfolding phys_typed_def
    by (elim insertE conjE)
      (auto simp: phys_get_def physical_columns within_Some set_octets_def set_integer_def phys_syntax_def)
qed

lemma logical_column_typed:
  assumes d: "logi_typed (ndata n)" and c: "2 \<le> c" "c \<le> 8"
  shows "\<exists>v. logical_column n c = Some (Set_value v) \<and> logi_syntax c v"
proof -
  have "c \<in> {2, 3, 4, 5, 6, 7, 8}" using c by (simp only: insert_iff empty_iff) presburger
  then show ?thesis
    using d set_oid_typed [of "entLogicalType (ndata n)" "entLogicalTypeSize (ndata n)"]
      set_oid_typed [of "entLogicalTDomain (ndata n)" "entLogicalTDomainSize (ndata n)"]
    unfolding logi_typed_def
    by (elim insertE conjE)
      (auto simp: logical_column_def logical_columns within_Some set_octets_def logi_syntax_def Let_def
        strlen_def Suc_le_eq)
qed

lemma entry_at_live:
  assumes "twf t" "get_live i t = Some n"
  shows "entry_at (Some (naddr n)) t = Some (Some n)" "\<not> no_row (Some n)"
proof -
  have n: "n \<in> set (thead t)" "0 < nidx n" using assms by (auto simp: get_live_iff)
  then show "\<not> no_row (Some n)" by (simp add: no_row_def)
  have "distinct (map naddr (thead t))" using assms(1) by (simp add: twf_def)
  from find_unique [OF this n(1) refl] show "entry_at (Some (naddr n)) t = Some (Some n)"
    by (simp add: entry_at_def)
qed

section \<open>GET\<close>

text \<open>
  A GET of any columns between the registered bounds on live physical entries returns
  no error, changes nothing, and answers each request with exactly one value, of the syntax
  the MIB gives the column.
\<close>

theorem physical_get:
  assumes s: "reachable A s" and reg: "initialize_table_entPhysicalTable mem = Some reg"
    and rs: "\<forall>r \<in> set rs. phys_asks reg s r"
  shows "\<exists>css. entPhysicalTable_handler ok MODE_GET rs k s = Some (SNMP_ERR_NOERROR, css, s) \<and>
    list_all2 (\<lambda>r cs. \<exists>c v. colnum r = Some c \<and> cs = [Set_value v] \<and> phys_syntax c v) rs css"
  using rs
proof (induction rs)
  case (Cons r rs)
  have t: "twf (gPhysicalTable s)" using entity_invD(1) [OF reachable_inv [OF s]] by (simp add: tables_wf_def)
  obtain i n c where r: "processed r = 0" "colnum r = Some c" "2 \<le> c" "c \<le> 16"
    "get_live i (gPhysicalTable s) = Some n" "iterator_context r = Some (naddr n)"
    using Cons.prems reg
    by (auto simp: phys_asks_def getPhysicalTableEntry_def initialize_table_entPhysicalTable_def split: if_splits)
  have "phys_typed (ndata n)"
    using reachable_typed [OF s] r(5) by (auto simp: entity_typed_def get_live_iff [OF t])
  from phys_get_typed [OF this r(3,4)] obtain v where
    v: "phys_get (ndata n) c = Some (Set_value v)" "phys_syntax c v" by blast
  have "phys_request ok MODE_GET r k s = Some (None, [Set_value v], k, s)"
    using r v(1) entry_at_live [OF t r(5)] by (simp add: phys_request_def)
  moreover obtain css where "entPhysicalTable_handler ok MODE_GET rs k s = Some (SNMP_ERR_NOERROR, css, s)"
    "list_all2 (\<lambda>r cs. \<exists>c v. colnum r = Some c \<and> cs = [Set_value v] \<and> phys_syntax c v) rs css"
    using Cons by auto
  ultimately show ?case using r(2) v(2) by (intro exI [of _ "[Set_value v] # css"]) simp
qed simp

definition get_request :: "'c \<Rightarrow> int \<Rightarrow> 'c request" where
  "get_request a c = \<lparr>processed = 0, iterator_context = Some a, colnum = Some c, var_octet_str = False,
     var_string = None, var_len = 0, list_data = (\<lambda>x. None)\<rparr>"

lemma get_request_asks:
  "getPhysicalTableEntry i s = Some n \<Longrightarrow> naddr n = a \<Longrightarrow> min_column reg \<le> c \<Longrightarrow> c \<le> max_column reg \<Longrightarrow>
   phys_asks reg s (get_request a c)"
  "getLogicalTableEntry i s = Some m \<Longrightarrow> naddr m = a \<Longrightarrow> min_column reg \<le> c \<Longrightarrow> c \<le> max_column reg \<Longrightarrow>
   logi_asks reg s (get_request a c)"
  by (auto simp: phys_asks_def logi_asks_def get_request_def)

theorem physical_get_witness:
  "\<exists>css. entPhysicalTable_handler all_ok MODE_GET [get_request 2 5, get_request 1 11] 0 (after_calls demo_calls) =
     Some (SNMP_ERR_NOERROR, css, after_calls demo_calls) \<and> length css = 2"
proof -
  let ?s = "after_calls demo_calls"
  obtain reg where reg: "initialize_table_entPhysicalTable all_ok = Some reg" "min_column reg = 2" "max_column reg = 16"
    by (auto simp: initialize_table_entPhysicalTable_def)
  have "map_option naddr (getPhysicalTableEntry 1 ?s) = Some 1" "map_option naddr (getPhysicalTableEntry 2 ?s) = Some 2"
    by code_simp+
  then obtain m n where "getPhysicalTableEntry 1 ?s = Some m" "naddr m = 1"
    "getPhysicalTableEntry 2 ?s = Some n" "naddr n = 2" by auto
  then have "\<forall>r \<in> set [get_request 2 5, get_request 1 11]. phys_asks reg ?s r"
    using reg(2,3) get_request_asks(1) by simp
  from physical_get [OF demo_reachable [OF UNIV_I] reg(1) this, of all_ok 0] show ?thesis
    by (auto dest: list_all2_lengthD)
qed

text \<open>
  A GET of any columns between the registered bounds on live logical entries returns no
  error and answers each request with exactly one value of the column's syntax; a row that
  is stale or does not exist is reported as \<^verbatim>\<open>SNMP_NOSUCHINSTANCE\<close>.
\<close>

theorem logical_get:
  assumes s: "reachable A s" and reg: "initialize_table_entLogicalTable mem = Some reg"
    and rs: "\<forall>r \<in> set rs. logi_asks reg s r \<or>
      (processed r = 0 \<and> (iterator_context r = None \<or>
         (\<exists>i n. getLogicalTableStaleEntry i s = Some n \<and> iterator_context r = Some (naddr n))))"
  shows "\<exists>css. entLogicalTable_handler s MODE_GET rs = Some (SNMP_ERR_NOERROR, css) \<and>
    list_all2 (\<lambda>r cs. if logi_asks reg s r
      then \<exists>c v. colnum r = Some c \<and> cs = [Set_value v] \<and> logi_syntax c v
      else cs = [Set_error SNMP_NOSUCHINSTANCE]) rs css"
  using rs
proof (induction rs)
  case (Cons r rs)
  have t: "twf (gLogicalTable s)" using entity_invD(1) [OF reachable_inv [OF s]] by (simp add: tables_wf_def)
  obtain css where IH: "read_handler (logical_row s) logical_column MODE_GET rs = Some (SNMP_ERR_NOERROR, css)"
    "list_all2 (\<lambda>r cs. if logi_asks reg s r
      then \<exists>c v. colnum r = Some c \<and> cs = [Set_value v] \<and> logi_syntax c v
      else cs = [Set_error SNMP_NOSUCHINSTANCE]) rs css"
    using Cons by (auto simp: entLogicalTable_handler_def)
  show ?case
  proof (cases "logi_asks reg s r")
    case True
    then obtain i n c where r: "processed r = 0" "colnum r = Some c" "2 \<le> c" "c \<le> 8"
      "get_live i (gLogicalTable s) = Some n" "iterator_context r = Some (naddr n)"
      using reg
      by (auto simp: logi_asks_def getLogicalTableEntry_def initialize_table_entLogicalTable_def split: if_splits)
    have "logi_typed (ndata n)"
      using reachable_typed [OF s] r(5) by (auto simp: entity_typed_def get_live_iff [OF t])
    from logical_column_typed [OF this r(3,4)] obtain v where
      v: "logical_column n c = Some (Set_value v)" "logi_syntax c v" by blast
    with True IH r entry_at_live [OF t r(5)] show ?thesis
      by (intro exI [of _ "[Set_value v] # css"]) (simp add: entLogicalTable_handler_def logical_row_def)
  next
    case False
    with Cons.prems have p: "processed r = 0" and m: "iterator_context r = None \<or>
       (\<exists>i n. get_stale i (gLogicalTable s) = Some n \<and> iterator_context r = Some (naddr n))"
      by (auto simp: getLogicalTableStaleEntry_def)
    have "logical_row s (iterator_context r) = Some None" using m
    proof (elim disjE exE conjE)
      fix i n
      assume n: "get_stale i (gLogicalTable s) = Some n" "iterator_context r = Some (naddr n)"
      then have "n \<in> set (thead (gLogicalTable s))" "nidx n \<le> 0" by (auto simp: get_stale_iff [OF t])
      moreover have "distinct (map naddr (thead (gLogicalTable s)))" using t by (simp add: twf_def)
      ultimately show ?thesis using n(2) find_unique [of naddr _ n]
        by (simp add: logical_row_def entry_at_def no_row_def)
    qed (simp add: logical_row_def entry_at_def no_row_def)
    with False IH p show ?thesis
      by (intro exI [of _ "[Set_error SNMP_NOSUCHINSTANCE] # css"]) (simp add: entLogicalTable_handler_def)
  qed
qed (simp add: entLogicalTable_handler_def)

theorem logical_get_witness:
  "\<exists>css. entLogicalTable_handler (after_calls demo_calls) MODE_GET [get_request 1 5] = Some (SNMP_ERR_NOERROR, css) \<and>
     length css = 1"
proof -
  let ?s = "after_calls demo_calls"
  obtain reg where reg: "initialize_table_entLogicalTable all_ok = Some reg" "min_column reg = 2" "max_column reg = 8"
    by (auto simp: initialize_table_entLogicalTable_def)
  have "map_option naddr (getLogicalTableEntry 1 ?s) = Some 1" by code_simp
  then obtain m where "getLogicalTableEntry 1 ?s = Some m" "naddr m = 1" by auto
  then have "logi_asks reg ?s (get_request 1 5)" using reg(2,3) get_request_asks(2) by simp
  then have "\<forall>r \<in> set [get_request 1 5]. logi_asks reg ?s r \<or>
      (processed r = 0 \<and> (iterator_context r = None \<or>
         (\<exists>i n. getLogicalTableStaleEntry i ?s = Some n \<and> iterator_context r = Some (naddr n))))" by simp
  from logical_get [OF demo_reachable [OF UNIV_I] reg(1) this] show ?thesis
    by (auto dest: list_all2_lengthD)
qed

section \<open>Rows of the mapping tables\<close>

lemma read_one:
  assumes "processed r = 0" "iterator_context r = Some x" "colnum r = Some c" "column x c = Some v"
  shows "read_handler Some column MODE_GET [r] = Some (SNMP_ERR_NOERROR, [[v]])"
  using assms by simp

text \<open>
  Every step of a walk over the logical-to-physical or the containment table gives a
  context on which a GET of the registered column returns the physical, respectively the
  child index of a row; and every row of the two tables is answered this way.
\<close>

theorem mapping_get:
  assumes s: "reachable A s"
    and l: "initialize_table_entLPMappingTable mem = Some lreg" "min_column lreg \<le> cl" "cl \<le> max_column lreg"
    and c: "initialize_table_entPhysicalContainsTable mem = Some preg" "min_column preg \<le> cc" "cc \<le> max_column preg"
  shows "\<exists>ls cs. walk_lp (card (lp_rel s)) tr s = Some ls \<and> walk_cont (card (cont_rel s)) tr s = Some cs \<and>
    (\<forall>(x, ix) \<in> set ls. \<exists>k. ix = [k, x] \<and> (k, x) \<in> lp_rel s \<and>
       entLPMappingTable_handler MODE_GET [get_request x cl] = Some (SNMP_ERR_NOERROR, [[Set_value (ASN_INTEGER x)]])) \<and>
    (\<forall>(x, ix) \<in> set cs. \<exists>p. ix = [p, x] \<and> (p, x) \<in> cont_rel s \<and>
       entPhysicalContainsTable_handler MODE_GET [get_request x cc] =
         Some (SNMP_ERR_NOERROR, [[Set_value (ASN_INTEGER x)]])) \<and>
    (\<forall>(k, x) \<in> lp_rel s. (x, [k, x]) \<in> set ls) \<and> (\<forall>(p, x) \<in> cont_rel s. (x, [p, x]) \<in> set cs)"
proof -
  have i: "entity_inv s" using s by (rule reachable_inv)
  let ?l = "lp_pos_rows (gLPMappingTableHead s) (head_slots physicalIndexes (gLPMappingTableHead s))"
  let ?c = "cont_pos_rows (gPhyContainsTableHead s) (head_slots childIndexes (gPhyContainsTableHead s))"
  note L = lp_rows [OF entity_invD(5) [OF i]] and C = cont_rows [OF entity_invD(7) [OF i]]
  have "cl = 1" "cc = 1" using l c by (auto simp: registration_defs split: if_splits)
  then have get: "entLPMappingTable_handler MODE_GET [get_request x cl] = Some (SNMP_ERR_NOERROR, [[Set_value (ASN_INTEGER x)]])"
    "entPhysicalContainsTable_handler MODE_GET [get_request x cc] =
       Some (SNMP_ERR_NOERROR, [[Set_value (ASN_INTEGER x)]])" for x
    by (simp_all add: entLPMappingTable_handler_def entPhysicalContainsTable_handler_def get_request_def
        COLUMN_ENTLPPHYSICALINDEX_def COLUMN_ENTPHYSICALCHILDINDEX_def set_integer_def)
  have "walk_lp (card (lp_rel s)) tr s = Some ?l" "walk_cont (card (cont_rel s)) tr s = Some ?c"
    unfolding walk_lp_def walk_cont_def
    by (rule lp_it.walk_rows cont_it.walk_rows; simp add: rows_card [OF _ _ pair_list_inj] L C pair_list_image)+
  moreover have "\<forall>(x, ix) \<in> set ?l. \<exists>k. ix = [k, x] \<and> (k, x) \<in> lp_rel s"
    "\<forall>(x, ix) \<in> set ?c. \<exists>p. ix = [p, x] \<and> (p, x) \<in> cont_rel s"
    "\<forall>(k, x) \<in> lp_rel s. (x, [k, x]) \<in> set ?l" "\<forall>(p, x) \<in> cont_rel s. (x, [p, x]) \<in> set ?c"
    unfolding L(2) C(2) by (auto simp: image_iff) force+
  ultimately show ?thesis
    unfolding get by (intro exI [of _ ?l] exI [of _ ?c]) simp
qed

theorem mapping_get_witness:
  "\<exists>ls. walk_lp 1 None (after_calls demo_calls) = Some ls \<and> (2, [1, 2]) \<in> set ls \<and>
     entLPMappingTable_handler MODE_GET [get_request 2 1] = Some (SNMP_ERR_NOERROR, [[Set_value (ASN_INTEGER 2)]])"
proof -
  have rows: "lp_rel (after_calls demo_calls) = {(1, 2)}" by code_simp
  obtain lreg preg where reg: "initialize_table_entLPMappingTable all_ok = Some lreg" "min_column lreg \<le> 1"
    "1 \<le> max_column lreg" "initialize_table_entPhysicalContainsTable all_ok = Some preg"
    "min_column preg \<le> 1" "1 \<le> max_column preg" by (auto simp: registration_defs)
  from mapping_get [OF demo_reachable [OF UNIV_I] reg, of None] rows show ?thesis by fastforce
qed

section \<open>SET and UNDO\<close>

lemma write_node_keys [simp]:
  "map nidx (thead (write_node a f t)) = map nidx (thead t)"
  "map naddr (thead (write_node a f t)) = map naddr (thead t)"
  "tsize (write_node a f t) = tsize t"
  "tloose (write_node a f t) = tloose t"
  by (simp_all add: write_node_def)

lemma write_node_twf: "twf (write_node a f t) = twf t"
proof -
  have "map (\<lambda>n. \<bar>nidx n\<bar>) ns = map abs (map nidx ns)" "length ns = length (map nidx ns)"
    "(\<forall>n \<in> set ns. 1 \<le> \<bar>nidx n\<bar> \<and> \<bar>nidx n\<bar> \<le> b) \<longleftrightarrow> (\<forall>i \<in> set (map nidx ns). 1 \<le> \<bar>i\<bar> \<and> \<bar>i\<bar> \<le> b)"
    for ns :: "'a node list" and b by simp_all
  note keys = this
  show ?thesis unfolding twf_def keys write_node_keys ..
qed

lemma write_node_sets: "live_set (write_node a f t) = live_set t"
  unfolding live_set_def set_map [symmetric] write_node_keys ..

lemma write_node_live:
  assumes t: "twf t" and n: "get_live i t = Some n"
  shows "get_live i (write_node (naddr n) f t) = Some (n\<lparr>ndata := f (ndata n)\<rparr>)"
proof -
  have w: "twf (write_node (naddr n) f t)" using t by (simp add: write_node_twf)
  show ?thesis using n unfolding get_live_iff [OF w] get_live_iff [OF t] by (auto simp: write_node_def)
qed

lemma write_node_again:
  assumes t: "twf t" and n: "n \<in> set (thead t)" and f: "g (f (ndata n)) = ndata n"
  shows "write_node (naddr n) g (write_node (naddr n) f t) = t"
proof -
  have "m = n" if "m \<in> set (thead t)" "naddr m = naddr n" for m
    using that n t by (auto simp: twf_def intro: key_unique)
  then have "map (\<lambda>m. if naddr m = naddr n then m\<lparr>ndata := g (f (ndata m))\<rparr> else m) (thead t) = thead t"
    using f by (intro map_cong_on) (metis node.surjective node.update_convs(3) old.unit.exhaust)
  then show ?thesis by (simp add: write_node_def comp_def if_distrib cong: if_cong)
qed

lemma writable_undo: "writable_get w e = x \<Longrightarrow> writable_set w x (writable_set w y e) = e"
  by (cases w) auto

lemma writable_field: "writable_get w (writable_set w x e) = x"
  by (cases w) auto

lemma writable_typed: "phys_typed e \<Longrightarrow> within 32 x \<Longrightarrow> phys_typed (writable_set w x e)"
  "phys_typed e \<Longrightarrow> within 32 (writable_get w e)"
  by (cases w; simp add: phys_typed_def)+

text \<open>
  When the first phase of a SET accepts a value for a writable column of a live entry,
  the value has at most 32 bytes, and with memory available the second phase attaches a copy
  of the old value to the request, the action phase stores the text of the new value in that
  field and keeps every entry within its limits, and the undo phase, given back what was
  attached, restores the state exactly.
\<close>

theorem physical_set_undo:
  assumes s: "reachable A s" and n: "getPhysicalTableEntry i s = Some n"
    and r: "processed r = 0" "iterator_context r = Some (naddr n)" "colnum r = Some c" "writable_column c = Some w"
    and v: "var_string r = Some bs" "var_len r \<le> length bs"
    and acc: "entPhysicalTable_handler ok MODE_SET_RESERVE1 [r] k s = Some (SNMP_ERR_NOERROR, css, s0)"
  shows "s0 = s \<and> css = [[]] \<and> var_len r \<le> 32 \<and>
    (\<exists>old s1. writable_get w (ndata n) = Some old \<and>
       entPhysicalTable_handler all_ok MODE_SET_RESERVE2 [r] k s =
         Some (SNMP_ERR_NOERROR, [[Add_list_data (cache_name w) (Some old)]], s) \<and>
       entPhysicalTable_handler all_ok MODE_SET_ACTION [r] k s = Some (SNMP_ERR_NOERROR, [[]], s1) \<and>
       map_option (\<lambda>m. writable_get w (ndata m)) (getPhysicalTableEntry i s1) =
         Some (Some (takeWhile (\<lambda>b. b \<noteq> CHR 0x00) (take (var_len r) bs))) \<and>
       entity_typed s1 \<and> live_phys s1 = live_phys s \<and>
       (\<forall>f. f (cache_name w) = Some old \<longrightarrow>
          entPhysicalTable_handler all_ok MODE_SET_UNDO [r\<lparr>list_data := f\<rparr>] k s1 = Some (SNMP_ERR_NOERROR, [[]], s)))"
proof -
  have t: "twf (gPhysicalTable s)" using entity_invD(1) [OF reachable_inv [OF s]] by (simp add: tables_wf_def)
  have g: "get_live i (gPhysicalTable s) = Some n" using n by (simp add: getPhysicalTableEntry_def)
  then have mem: "n \<in> set (thead (gPhysicalTable s))" "0 < nidx n" by (auto simp: get_live_iff [OF t])
  note at = entry_at_live(1) [OF t g]
  have ty: "entity_typed s" using s by (rule reachable_typed)
  then have d: "phys_typed (ndata n)" using mem by (auto simp: entity_typed_def)
  obtain old where old: "writable_get w (ndata n) = Some old"
    using writable_typed(2) [OF d, of w] by (auto simp: within_Some)
  have first: "s0 = s" "css = [[]]" "var_len r \<le> 32"
    using acc r at v(1) by (auto simp: phys_request_def phys_reserve1_def split: if_splits)
  let ?v = "takeWhile (\<lambda>b. b \<noteq> CHR 0x00) (take (var_len r) bs)"
  let ?t1 = "write_node (naddr n) (writable_set w (Some ?v)) (gPhysicalTable s)"
  let ?s1 = "s\<lparr>gPhysicalTable := ?t1\<rparr>"
  have g1: "get_live i ?t1 = Some (n\<lparr>ndata := writable_set w (Some ?v) (ndata n)\<rparr>)"
    using t g by (rule write_node_live)
  have t1: "twf ?t1" using t by (simp add: write_node_twf)
  have "length ?v \<le> 32" using first(3) length_takeWhile_le [of "\<lambda>b. b \<noteq> CHR 0x00" "take (var_len r) bs"] by simp
  then have "within 32 (Some ?v)" by (simp add: within_def strlen_def)
  then have "entity_typed ?s1" using ty writable_typed(1) by (auto simp: entity_typed_def write_node_def)
  moreover have "live_phys ?s1 = live_phys s" by (simp add: write_node_sets)
  moreover have "entPhysicalTable_handler all_ok MODE_SET_UNDO [r\<lparr>list_data := f\<rparr>] k ?s1 = Some (SNMP_ERR_NOERROR, [[]], s)"
    if "f (cache_name w) = Some old" for f
    using that r entry_at_live(1) [OF t1 g1] write_node_again [OF t mem(1), of "writable_set w (Some old)"]
      writable_undo [OF old] by (simp add: phys_request_def phys_undo_def)
  ultimately show ?thesis
    using first old g1 r at v
    by (intro conjI exI [of _ old] exI [of _ ?s1])
      (auto simp: phys_request_def phys_reserve2_def phys_action_def var_text_def getPhysicalTableEntry_def writable_field)
qed

definition set_request :: "addr \<Rightarrow> int \<Rightarrow> string \<Rightarrow> addr request" where
  "set_request a c v = \<lparr>processed = 0, iterator_context = Some a, colnum = Some c, var_octet_str = True,
     var_string = Some v, var_len = length v, list_data = (\<lambda>x. None)\<rparr>"

theorem physical_set_undo_witness:
  "\<exists>s1. entPhysicalTable_handler all_ok MODE_SET_ACTION [set_request 2 14 ''eth0''] 0 (after_calls demo_calls) =
       Some (SNMP_ERR_NOERROR, [[]], s1) \<and>
     map_option (\<lambda>m. entPhysicalAlias (ndata m)) (getPhysicalTableEntry 2 s1) = Some (Some ''eth0'')"
proof -
  let ?s = "after_calls demo_calls" and ?r = "set_request 2 14 ''eth0''"
  have "map_option naddr (getPhysicalTableEntry 2 ?s) = Some 2" by code_simp
  then obtain n where n: "getPhysicalTableEntry 2 ?s = Some n" "naddr n = 2" by auto
  have r: "processed ?r = 0" "iterator_context ?r = Some (naddr n)" "colnum ?r = Some 14"
    "writable_column 14 = Some Alias_name" "var_string ?r = Some ''eth0''" "var_len ?r \<le> length ''eth0''"
    using n(2) by (simp_all add: set_request_def writable_column_def physical_columns)
  have t: "twf (gPhysicalTable ?s)"
    using entity_invD(1) [OF reachable_inv [OF demo_reachable [OF UNIV_I]]] by (simp add: tables_wf_def)
  have "entPhysicalTable_handler all_ok MODE_SET_RESERVE1 [?r] 0 ?s = Some (SNMP_ERR_NOERROR, [[]], ?s)"
    using r entry_at_live(1) [OF t n(1) [unfolded getPhysicalTableEntry_def]]
    by (simp add: phys_request_def phys_reserve1_def set_request_def)
  from physical_set_undo [OF demo_reachable [OF UNIV_I] n(1) r this] show ?thesis
    by (auto simp: set_request_def)
qed

end
