(* ===== verification/Seq_Order.thy ===== *)
theory Seq_Order
  imports Main "HOL-Library.Word"
begin

text \<open>
  Replay and sequence checking of GSS-API tokens
  (\<^verbatim>\<open>components/krb5/Solaris/util_ordering.c\<close>). A queue of the last twenty sequence numbers,
  held in a circular array as differences from the first one, decides whether a token is
  expected, early, late, too old or a repetition. Sequence numbers are 64 or 32 bits wide and
  compared modulo their width by the function \<open>after\<close>.

  \<open>window\<close> reads the array from the oldest number to the newest. The first group of lemmas shows that
  \<open>queue_insert\<close> inserts into that list and forgets its head when it is full. The second reads
  \<open>after\<close> as a comparison of differences and relates the numbers on the wire to the unbounded numbers they
  stand for.
\<close>

unbundle bit_operations_syntax

type_synonym u64 = "64 word"

section \<open>The queue\<close>

definition QUEUE_LENGTH :: nat where
  "QUEUE_LENGTH = 20"

text \<open>The start and the length stay between 0 and 20, so they are natural numbers here.\<close>

record queue =
  do_replay :: "32 word"
  do_sequence :: "32 word"
  qstart :: nat
  qlength :: nat
  firstnum :: u64
  elem :: "u64 list"
  qmask :: u64

definition QELEM :: "queue \<Rightarrow> nat \<Rightarrow> u64" where
  "QELEM q i = elem q ! (i mod QUEUE_LENGTH)"

text \<open>Whether one number comes after another in a circular range.\<close>

definition after :: "u64 \<Rightarrow> u64 \<Rightarrow> u64 \<Rightarrow> bool" where
  "after n1 n2 msk =
     (if n1 = n2 then False
      else
        (let half = 1 + drop_bit 1 msk;
             (diff, bigger) = (if n1 > n2 then (n1 - n2, True) else (n2 - n1, False))
         in if diff < half then bigger else \<not> n1 AND half \<noteq> 0))"

text \<open>Moving the elements after a position up by one slot, from the last one down.\<close>

fun move_up :: "nat \<Rightarrow> nat \<Rightarrow> u64 list \<Rightarrow> u64 list" where
  "move_up a i es =
     (if i > a
      then move_up a (i - 1) (es[(i + 1) mod QUEUE_LENGTH := es ! (i mod QUEUE_LENGTH)])
      else es)"

declare move_up.simps [simp del]

definition queue_insert :: "queue \<Rightarrow> nat \<Rightarrow> u64 \<Rightarrow> queue" where
  "queue_insert q a seqnum =
     (let es = move_up a (qstart q + qlength q - 1) (elem q);
          q1 = q\<lparr>elem := es[(a + 1) mod QUEUE_LENGTH := seqnum]\<rparr>
      in if qlength q1 = QUEUE_LENGTH
         then (let s = qstart q1 + 1 in q1\<lparr>qstart := (if s = QUEUE_LENGTH then 0 else s)\<rparr>)
         else q1\<lparr>qlength := qlength q1 + 1\<rparr>)"

text \<open>The new queue, unless memory runs out; the bytes of the structure start out as \<^verbatim>\<open>0xfe\<close>.\<close>

definition g_order_init :: "bool \<Rightarrow> u64 \<Rightarrow> 32 word \<Rightarrow> 32 word \<Rightarrow> 32 word \<Rightarrow> queue option" where
  "g_order_init mem seqnum replay sequence wide_nums =
     (if \<not> mem then None
      else
        (let m = (if wide_nums \<noteq> 0 then NOT 0 else 0xffffffff)
         in Some \<lparr>do_replay = replay, do_sequence = sequence, qstart = 0, qlength = 1, firstnum = seqnum,
              elem = (replicate QUEUE_LENGTH 0xfefefefefefefefe)[0 := (0 - 1) AND m], qmask = m\<rparr>))"

datatype gss_status =
  GSS_S_COMPLETE | GSS_S_GAP_TOKEN | GSS_S_OLD_TOKEN | GSS_S_UNSEQ_TOKEN | GSS_S_DUPLICATE_TOKEN
| GSS_S_FAILURE

definition replay_only :: "queue \<Rightarrow> bool" where
  "replay_only q \<longleftrightarrow> do_replay q \<noteq> 0 \<and> do_sequence q = 0"

text \<open>The search for a duplicate or for the slot a late number belongs into.\<close>

fun order_scan :: "queue \<Rightarrow> u64 \<Rightarrow> nat \<Rightarrow> nat \<Rightarrow> gss_status \<times> queue" where
  "order_scan q seqnum i 0 = (GSS_S_FAILURE, q)"
| "order_scan q seqnum i (Suc n) =
     (if seqnum = QELEM q i then (GSS_S_DUPLICATE_TOKEN, q)
      else if after seqnum (QELEM q i) (qmask q) \<and> after (QELEM q (i + 1)) seqnum (qmask q)
      then (if replay_only q then GSS_S_COMPLETE else GSS_S_UNSEQ_TOKEN, queue_insert q i seqnum)
      else order_scan q seqnum (i + 1) n)"

definition g_order_check :: "queue \<Rightarrow> u64 \<Rightarrow> gss_status \<times> queue" where
  "g_order_check q num =
     (if do_replay q = 0 \<and> do_sequence q = 0 then (GSS_S_COMPLETE, q)
      else
        (let seqnum = (num - firstnum q) AND qmask q;
             last = qstart q + qlength q - 1;
             expected = (QELEM q last + 1) AND qmask q
         in if seqnum = expected then (GSS_S_COMPLETE, queue_insert q last seqnum)
            else if after seqnum expected (qmask q)
            then (if replay_only q then GSS_S_COMPLETE else GSS_S_GAP_TOKEN, queue_insert q last seqnum)
            else if after (QELEM q (qstart q)) seqnum (qmask q)
            then (if replay_only q then GSS_S_OLD_TOKEN else GSS_S_UNSEQ_TOKEN, q)
            else if seqnum = QELEM q last then (GSS_S_DUPLICATE_TOKEN, q)
            else order_scan q seqnum (qstart q) (qlength q - 1)))"

definition g_queue_firstnum :: "queue \<Rightarrow> u64" where
  "g_queue_firstnum q = firstnum q"

text \<open>The caller's handle after the queue has been freed.\<close>

definition g_order_free :: "queue option \<Rightarrow> queue option" where
  "g_order_free vqueue = None"

section \<open>The circular array as a list\<close>

definition queue_wf :: "queue \<Rightarrow> bool" where
  "queue_wf q \<longleftrightarrow> length (elem q) = QUEUE_LENGTH \<and> qstart q < QUEUE_LENGTH \<and>
     1 \<le> qlength q \<and> qlength q \<le> QUEUE_LENGTH"

definition window :: "queue \<Rightarrow> u64 list" where
  "window q = map (\<lambda>j. QELEM q (qstart q + j)) [0 ..< qlength q]"

lemma window_nth [simp]: "j < qlength q \<Longrightarrow> window q ! j = QELEM q (qstart q + j)"
  by (simp add: window_def)

lemma length_window [simp]: "length (window q) = qlength q"
  by (simp add: window_def)

lemma mod_neq: "x < y \<Longrightarrow> y - x < QUEUE_LENGTH \<Longrightarrow> x mod QUEUE_LENGTH \<noteq> y mod QUEUE_LENGTH"
  using mod_eq_dvd_iff_nat [of x y QUEUE_LENGTH] by (auto dest!: dvd_imp_le)

lemma move_up_length [simp]: "length (move_up a i es) = length es"
  by (induction a i es rule: move_up.induct) (subst move_up.simps, simp)

lemma move_up_nth:
  assumes "length es = QUEUE_LENGTH" "i \<le> a + 19"
  shows "(a < j \<longrightarrow> j \<le> i \<longrightarrow> move_up a i es ! ((j + 1) mod QUEUE_LENGTH) = es ! (j mod QUEUE_LENGTH)) \<and>
    (p < QUEUE_LENGTH \<longrightarrow> (\<forall>j. a < j \<and> j \<le> i \<longrightarrow> p \<noteq> (j + 1) mod QUEUE_LENGTH) \<longrightarrow> move_up a i es ! p = es ! p)"
  using assms
proof (induction a i es arbitrary: j p rule: move_up.induct)
  case (1 a i es)
  let ?es = "es[(i + 1) mod QUEUE_LENGTH := es ! (i mod QUEUE_LENGTH)]"
  show ?case
  proof (cases "i > a")
    case False
    then show ?thesis by (subst move_up.simps, subst (2) move_up.simps) auto
  next
    case True
    have IH: "(a < j \<longrightarrow> j \<le> i - 1 \<longrightarrow> move_up a (i - 1) ?es ! ((j + 1) mod QUEUE_LENGTH) = ?es ! (j mod QUEUE_LENGTH)) \<and>
      (p < QUEUE_LENGTH \<longrightarrow> (\<forall>j. a < j \<and> j \<le> i - 1 \<longrightarrow> p \<noteq> (j + 1) mod QUEUE_LENGTH) \<longrightarrow>
        move_up a (i - 1) ?es ! p = ?es ! p)" for j p
      using "1.IH" [OF True, of j p] "1.prems" True by auto
    have up: "move_up a i es = move_up a (i - 1) ?es" using True by (subst move_up.simps) simp
    have Q: "QUEUE_LENGTH = 20" by (simp add: QUEUE_LENGTH_def)
    have ne: "j mod QUEUE_LENGTH \<noteq> (i + 1) mod QUEUE_LENGTH" if "a < j" "j \<le> i" for j
      using that "1.prems"(2) by (intro mod_neq) (simp_all add: Q)
    have ne1: "(j + 1) mod QUEUE_LENGTH \<noteq> (i + 1) mod QUEUE_LENGTH" if "a < j" "j < i" for j
      using that "1.prems"(2) by (intro mod_neq) (simp_all add: Q)
    have lst: "?es ! ((i + 1) mod QUEUE_LENGTH) = es ! (i mod QUEUE_LENGTH)"
      by (rule nth_list_update_eq) (simp add: "1.prems"(1) Q)
    have "\<forall>j. a < j \<and> j \<le> i - 1 \<longrightarrow> (i + 1) mod QUEUE_LENGTH \<noteq> (j + 1) mod QUEUE_LENGTH"
    proof (intro allI impI)
      fix j
      assume "a < j \<and> j \<le> i - 1"
      then have "a < j" "j < i" using True by auto
      then show "(i + 1) mod QUEUE_LENGTH \<noteq> (j + 1) mod QUEUE_LENGTH" using ne1 by metis
    qed
    then have top: "move_up a (i - 1) ?es ! ((i + 1) mod QUEUE_LENGTH) = es ! (i mod QUEUE_LENGTH)"
      using IH [of 0 "(i + 1) mod QUEUE_LENGTH"] lst by (simp add: Q)
    show ?thesis
      unfolding up
    proof (intro conjI impI)
      assume j: "a < j" "j \<le> i"
      show "move_up a (i - 1) ?es ! ((j + 1) mod QUEUE_LENGTH) = es ! (j mod QUEUE_LENGTH)"
      proof (cases "j = i")
        case False
        then have "j \<le> i - 1" using j by simp
        then have "move_up a (i - 1) ?es ! ((j + 1) mod QUEUE_LENGTH) = ?es ! (j mod QUEUE_LENGTH)"
          using IH [of j 0] j by blast
        then show ?thesis using nth_list_update_neq [OF not_sym [OF ne [OF j]]] by metis
      qed (use top in simp)
    next
      assume p: "p < QUEUE_LENGTH" "\<forall>j. a < j \<and> j \<le> i \<longrightarrow> p \<noteq> (j + 1) mod QUEUE_LENGTH"
      then have "p \<noteq> (i + 1) mod QUEUE_LENGTH" using True by blast
      moreover have "move_up a (i - 1) ?es ! p = ?es ! p" using IH [of 0 p] p True by auto
      ultimately show "move_up a (i - 1) ?es ! p = es ! p" by simp
    qed
  qed
qed

text \<open>What the array holds after an insertion behind the \<open>k\<close>-th number of the window.\<close>

definition slide :: "'a list \<Rightarrow> nat \<Rightarrow> 'a \<Rightarrow> 'a list" where
  "slide w k x = take (Suc k) w @ x # drop (Suc k) w"

lemma length_slide [simp]: "k < length w \<Longrightarrow> length (slide w k x) = Suc (length w)"
  by (simp add: slide_def)

lemma slide_nth:
  "k < length w \<Longrightarrow> j \<le> length w \<Longrightarrow>
    slide w k x ! j = (if j \<le> k then w ! j else if j = Suc k then x else w ! (j - 1))"
  by (auto simp: slide_def nth_append min_def nth_Cons' not_le intro!: arg_cong [where f = "(!) w"])

lemma queue_insert_elem:
  assumes wf: "queue_wf q" and k: "k < qlength q"
    and j: "j \<le> qlength q" "qlength q < QUEUE_LENGTH \<or> 1 \<le> j"
  shows "elem (queue_insert q (qstart q + k) x) ! ((qstart q + j) mod QUEUE_LENGTH) = slide (window q) k x ! j"
proof -
  let ?a = "qstart q + k" and ?i = "qstart q + qlength q - 1"
  let ?m = "move_up ?a ?i (elem q)"
  have Q: "QUEUE_LENGTH = 20" by (simp add: QUEUE_LENGTH_def)
  have len: "length (elem q) = QUEUE_LENGTH" "length ?m = QUEUE_LENGTH" and l: "1 \<le> qlength q" "qlength q \<le> 20"
    using wf by (simp_all add: queue_wf_def Q)
  have i: "?i \<le> ?a + 19" using l by simp
  have el: "elem (queue_insert q ?a x) = ?m[(?a + 1) mod QUEUE_LENGTH := x]"
    by (simp add: queue_insert_def Let_def)
  consider "j \<le> k" | "j = k + 1" | "k + 1 < j" by linarith
  then show ?thesis
  proof cases
    case 1
    have ne: "(qstart q + j) mod QUEUE_LENGTH \<noteq> (m + 1) mod QUEUE_LENGTH" if "?a \<le> m" "m \<le> ?i" for m
      using that 1 j l k by (intro mod_neq) (auto simp: Q)
    have "?m ! ((qstart q + j) mod QUEUE_LENGTH) = elem q ! ((qstart q + j) mod QUEUE_LENGTH)"
      using move_up_nth [OF len(1) i, of 0 "(qstart q + j) mod QUEUE_LENGTH"] ne by (auto simp: Q)
    moreover have "(qstart q + j) mod QUEUE_LENGTH \<noteq> (?a + 1) mod QUEUE_LENGTH"
      using k by (intro ne) auto
    ultimately show ?thesis using 1 k by (simp add: el slide_nth QELEM_def)
  next
    case 2
    have "elem (queue_insert q ?a x) ! ((?a + 1) mod QUEUE_LENGTH) = x"
      unfolding el using len(1) by (intro nth_list_update_eq) (simp add: Q)
    then show ?thesis using 2 k by (simp add: slide_nth)
  next
    case 3
    let ?n = "qstart q + j - 1"
    have n: "?a < ?n" "?n \<le> ?i" "?n + 1 = qstart q + j" using 3 j by auto
    have "(?a + 1) mod QUEUE_LENGTH \<noteq> (?n + 1) mod QUEUE_LENGTH"
      using n l 3 j by (intro mod_neq) (auto simp: Q)
    moreover have "?m ! ((?n + 1) mod QUEUE_LENGTH) = elem q ! (?n mod QUEUE_LENGTH)"
      using move_up_nth [OF len(1) i, of ?n 0] n by blast
    moreover have "?n = qstart q + (j - 1)" using 3 by simp
    ultimately show ?thesis using 3 j k n(3) by (simp add: el slide_nth QELEM_def)
  qed
qed

lemma queue_insert_wf: "queue_wf q \<Longrightarrow> queue_wf (queue_insert q a x)"
  by (auto simp: queue_insert_def Let_def queue_wf_def QUEUE_LENGTH_def)

lemma queue_insert_fields [simp]:
  "do_replay (queue_insert q a x) = do_replay q" "do_sequence (queue_insert q a x) = do_sequence q"
  "firstnum (queue_insert q a x) = firstnum q" "qmask (queue_insert q a x) = qmask q"
  by (simp_all add: queue_insert_def Let_def)

lemma queue_insert_window:
  assumes wf: "queue_wf q" and k: "k < qlength q"
  shows "window (queue_insert q (qstart q + k) x) =
    (if qlength q = QUEUE_LENGTH then tl (slide (window q) k x) else slide (window q) k x)"
proof -
  let ?q = "queue_insert q (qstart q + k) x"
  have Q: "QUEUE_LENGTH = 20" by (simp add: QUEUE_LENGTH_def)
  show ?thesis
  proof (cases "qlength q = QUEUE_LENGTH")
    case True
    have s: "qstart ?q = (qstart q + 1) mod QUEUE_LENGTH" and l: "qlength ?q = QUEUE_LENGTH"
      using wf True by (auto simp: queue_insert_def Let_def queue_wf_def Q)
    have "QELEM ?q (qstart ?q + j) = slide (window q) k x ! Suc j" if "j < QUEUE_LENGTH" for j
      using queue_insert_elem [OF wf k, of "Suc j" x] that True by (simp add: QELEM_def s mod_simps)
    then show ?thesis using True k by (intro nth_equalityI) (simp_all add: l nth_tl)
  next
    case False
    then have ll: "qlength q < QUEUE_LENGTH" using wf by (simp add: queue_wf_def)
    have s: "qstart ?q = qstart q" and l: "qlength ?q = Suc (qlength q)"
      using False by (auto simp: queue_insert_def Let_def)
    have "QELEM ?q (qstart ?q + j) = slide (window q) k x ! j" if "j \<le> qlength q" for j
      using queue_insert_elem [OF wf k, of j x] that ll by (simp add: QELEM_def s)
    then show ?thesis using False k by (intro nth_equalityI) (simp_all add: l)
  qed
qed

section \<open>Circular comparison\<close>

text \<open>
  For numbers of \<open>n\<close> bits \<open>after\<close> looks at their difference modulo \<open>2 ^ n\<close>. It is total, and it orders
  the images \<open>wire n a\<close> of unbounded numbers \<open>a\<close> as the numbers themselves as long as these lie less
  than half the range apart.
\<close>

lemma upper_half:
  fixes v :: u64
  assumes "uint v < 2 * 2 ^ k" "k < 64"
  shows "v AND push_bit k 1 \<noteq> 0 \<longleftrightarrow> 2 ^ k \<le> uint v"
proof -
  have "v AND push_bit k 1 \<noteq> 0 \<longleftrightarrow> bit v k" by (simp only: bit_iff_and_push_bit_not_eq_0)
  also have "\<dots> \<longleftrightarrow> bit (uint v) k" using assms(2) by (simp add: bit_uint_iff)
  also have "\<dots> \<longleftrightarrow> odd (uint v div 2 ^ k)" by (rule bit_iff_odd)
  also have "uint v div 2 ^ k = (if 2 ^ k \<le> uint v then 1 else 0)"
  proof (cases "2 ^ k \<le> uint v")
    case True
    then have "(uint v - 2 ^ k) div 2 ^ k = 0" using assms(1) by simp
    then show ?thesis using True div_add_self2 [of "2 ^ k" "uint v - 2 ^ k"] by simp
  qed simp
  finally show ?thesis by simp
qed

definition seq_width :: "nat \<Rightarrow> bool" where
  "seq_width n \<longleftrightarrow> n = 32 \<or> n = 64"

lemma mask_half:
  assumes "seq_width n"
  shows "1 + drop_bit 1 (mask n :: u64) = push_bit (n - 1) 1" "uint (mask n :: u64) = 2 ^ n - 1"
    "uint (push_bit (n - 1) 1 :: u64) = 2 ^ (n - 1)"
  using assms by (auto simp: seq_width_def mask_eq_exp_minus_1 )

lemma after_iff:
  assumes n: "seq_width n" and le: "uint x < 2 ^ n" "uint y < 2 ^ n"
  shows "after x y (mask n) \<longleftrightarrow>
    (let d = (uint x - uint y) mod 2 ^ n in 0 < d \<and> d < 2 ^ (n - 1) \<or> d = 2 ^ (n - 1) \<and> uint x < 2 ^ (n - 1))"
proof -
  obtain k where k: "n = Suc k" "k < 64" using n by (auto simp: seq_width_def)
  let ?h = "(2::int) ^ k"
  have h: "1 \<le> ?h" "(2::int) ^ n = 2 * ?h" by (simp_all add: k)
  have up: "x AND push_bit k 1 \<noteq> 0 \<longleftrightarrow> ?h \<le> uint x" using le k by (intro upper_half) simp_all
  have diff: "x - y < push_bit k 1 \<longleftrightarrow> uint x - uint y < ?h" if "y < x"
    using mask_half [OF n] that uint_sub_lem [of y x] by (simp add: word_less_def k)
  have diff': "y - x < push_bit k 1 \<longleftrightarrow> uint y - uint x < ?h" if "x < y"
    using mask_half [OF n] that uint_sub_lem [of x y] by (simp add: word_less_def k)
  consider "x = y" | "y < x" | "x < y" by (rule linorder_cases)
  then show ?thesis
  proof cases
    case 1 then show ?thesis by (simp add: after_def)
  next
    case 2
    then have lt: "uint y < uint x" by (simp add: word_less_def)
    then have m: "(uint x - uint y) mod 2 ^ n = uint x - uint y"
      using le uint_ge_0 [of y] by (intro mod_pos_pos_trivial) linarith+
    have sub: "uint x - uint y < ?h \<or> ?h \<le> uint x" using uint_ge_0 [of y] by linarith
    show ?thesis unfolding Let_def m using 2 lt diff [OF 2] up le h mask_half(1) [OF n] sub
      by (auto simp: after_def Let_def k simp del: push_bit_of_1)
  next
    case 3
    then have lt: "uint x < uint y" by (simp add: word_less_def)
    have sub: "uint y - uint x < 2 ^ n" using le uint_ge_0 [of x] by linarith
    have m: "(uint x - uint y) mod 2 ^ n = uint x - uint y + 2 ^ n"
      using mod_pos_pos_trivial [of "uint x - uint y + 2 ^ n" "2 ^ n"] lt sub by simp
    show ?thesis unfolding Let_def m using 3 lt sub diff' [OF 3] up le h mask_half(1) [OF n]
      by (auto simp: after_def Let_def k simp del: push_bit_of_1)
  qed
qed

lemma after_total:
  assumes "seq_width n" "uint x < 2 ^ n" "uint y < 2 ^ n" "x \<noteq> y" "\<not> after x y (mask n)"
  shows "after y x (mask n)"
proof -
  let ?d = "(uint x - uint y) mod 2 ^ n"
  obtain k where k: "n = Suc k" using assms(1) by (auto simp: seq_width_def)
  have nz: "?d \<noteq> 0"
  proof
    assume "?d = 0"
    then have "uint x mod 2 ^ n = uint y mod 2 ^ n" by (simp add: mod_eq_dvd_iff dvd_eq_mod_eq_0)
    then have "uint x = uint y" using assms(2,3) by simp
    then show False using assms(4) word_uint_eqI by blast
  qed
  have r: "(uint y - uint x) mod 2 ^ n = 2 ^ n - ?d"
    using zmod_zminus1_eq_if [of "uint x - uint y" "2 ^ n"] nz by simp
  have "0 \<le> ?d" "?d < 2 ^ n" by simp_all
  then have "0 < ?d" "?d < 2 ^ n" using nz by linarith+
  moreover have "uint y < 2 ^ (n - 1)" if "?d = 2 ^ (n - 1)" "2 ^ (n - 1) \<le> uint x"
  proof -
    have "(uint x - 2 ^ k) mod 2 ^ n = (uint x - ?d) mod 2 ^ n" using that by (simp add: k)
    also have "\<dots> = uint y" using assms(3) uint_ge_0 [of y] by (simp add: mod_simps)
    finally have "uint y = uint x - 2 ^ k" using that assms(2) k by simp
    then show ?thesis using assms(2) k by simp
  qed
  ultimately show ?thesis
    using assms(5) unfolding after_iff [OF assms(1-3)] after_iff [OF assms(1,3,2)] Let_def r
    by (auto simp: k)
qed

definition wire :: "nat \<Rightarrow> int \<Rightarrow> u64" where
  "wire n a = word_of_int (a mod 2 ^ n)"

lemma uint_wire: "seq_width n \<Longrightarrow> uint (wire n a) = a mod 2 ^ n"
  by (auto simp: wire_def seq_width_def uint_word_of_int)

lemma wire_less: "seq_width n \<Longrightarrow> uint (wire n a) < 2 ^ n"
  by (simp add: uint_wire)

lemma and_mask_wire: "seq_width n \<Longrightarrow> v AND mask n = wire n (uint v)"
proof (rule word_uint_eqI)
  assume n: "seq_width n"
  have "uint (take_bit n v) = take_bit n (uint v)" by (rule unsigned_take_bit_eq)
  then show "uint (v AND mask n) = uint (wire n (uint v))"
    by (simp add: uint_wire [OF n] take_bit_eq_mod flip: take_bit_eq_mask)
qed

lemma wire_cong: "a mod 2 ^ n = b mod 2 ^ n \<Longrightarrow> wire n a = wire n b"
  by (simp add: wire_def)

lemma uint_mod_width: "seq_width n \<Longrightarrow> (k mod 18446744073709551616) mod 2 ^ n = (k::int) mod 2 ^ n"
  by (auto simp: seq_width_def mod_mod_cancel)

lemma relative_number: "seq_width n \<Longrightarrow> (wire n (f + a) - wire n f) AND mask n = wire n a"
  by (subst and_mask_wire, assumption, rule wire_cong)
    (simp add: uint_word_ariths uint_wire uint_mod_width mod_simps)

lemma expected_number: "seq_width n \<Longrightarrow> (wire n a + 1) AND mask n = wire n (a + 1)"
  by (subst and_mask_wire, assumption, rule wire_cong)
    (simp add: uint_word_ariths uint_wire uint_mod_width mod_simps)

lemma wire_eq_iff:
  assumes "seq_width n" "a - b < 2 ^ n" "b - a < 2 ^ n"
  shows "wire n a = wire n b \<longleftrightarrow> a = b"
proof
  assume "wire n a = wire n b"
  then have "(a - b) mod 2 ^ n = 0" using uint_wire [OF assms(1)] by (metis mod_eq_dvd_iff dvd_eq_mod_eq_0)
  then have "2 ^ n dvd \<bar>a - b\<bar>" by (simp add: dvd_eq_mod_eq_0 [symmetric])
  moreover have "\<bar>a - b\<bar> < 2 ^ n" using assms(2,3) by linarith
  ultimately show "a = b" using zdvd_imp_le [of "2 ^ n" "\<bar>a - b\<bar>"] by fastforce
qed simp

lemma after_wire:
  assumes "seq_width n" "a - b < 2 ^ (n - 1)" "b - a < 2 ^ (n - 1)"
  shows "after (wire n a) (wire n b) (mask n) \<longleftrightarrow> b < a"
proof -
  let ?d = "(uint (wire n a) - uint (wire n b)) mod 2 ^ n"
  obtain k where k: "n = Suc k" using assms(1) by (auto simp: seq_width_def)
  have "?d = (if b \<le> a then a - b else a - b + 2 ^ n)"
  proof (cases "b \<le> a")
    case True
    then show ?thesis using assms by (simp add: uint_wire mod_simps k)
  next
    case False
    then show ?thesis using assms mod_pos_pos_trivial [of "a - b + 2 ^ n" "2 ^ n"]
      by (simp add: uint_wire mod_simps k)
  qed
  then show ?thesis
    using assms(2,3) unfolding after_iff [OF assms(1) wire_less wire_less, OF assms(1,1)] Let_def
    by (auto simp: k)
qed

end
