(* ===== verification/Seq_Refinement.thy ===== *)
theory Seq_Refinement
  imports Seq_Order
begin

text \<open>
  What the replay and sequence check of \<^verbatim>\<open>components/krb5/Solaris/util_ordering.c\<close> promises. \<open>order_spec\<close> states it
  on sorted lists of unbounded numbers; \<open>order_check_refines\<close> shows that the circular array of
  words implements it as long as the numbers stay within half the range of each other. The locale
  \<open>replay_filter\<close> says why such a filter refuses repetitions. That the check always reaches a decision, and that
  tokens in order always pass, holds without the bound on the range.
\<close>

section \<open>The specification on sorted lists\<close>

definition trim :: "int list \<Rightarrow> int list" where
  "trim w = (if QUEUE_LENGTH < length w then tl w else w)"

definition order_spec :: "bool \<Rightarrow> int list \<Rightarrow> int \<Rightarrow> gss_status \<times> int list" where
  "order_spec ro w a =
     (if a = last w + 1 then (GSS_S_COMPLETE, trim (w @ [a]))
      else if a > last w + 1 then (if ro then GSS_S_COMPLETE else GSS_S_GAP_TOKEN, trim (w @ [a]))
      else if a < hd w then (if ro then GSS_S_OLD_TOKEN else GSS_S_UNSEQ_TOKEN, w)
      else if a \<in> set w then (GSS_S_DUPLICATE_TOKEN, w)
      else (if ro then GSS_S_COMPLETE else GSS_S_UNSEQ_TOKEN, trim (insort a w)))"

definition represents :: "nat \<Rightarrow> queue \<Rightarrow> int list \<Rightarrow> bool" where
  "represents n q w \<longleftrightarrow> seq_width n \<and> queue_wf q \<and> qmask q = mask n \<and> window q = map (wire n) w \<and>
     sorted_wrt (<) w"

definition near :: "nat \<Rightarrow> int list \<Rightarrow> int \<Rightarrow> bool" where
  "near n w a \<longleftrightarrow> a - hd w < 2 ^ (n - 1) \<and> last w + 1 - a < 2 ^ (n - 1)"

lemma slide_map: "slide (map f w) k (f x) = map f (slide w k x)"
  by (simp add: slide_def take_map drop_map)

lemma slide_last: "w \<noteq> [] \<Longrightarrow> slide w (length w - 1) x = w @ [x]"
  by (simp add: slide_def)

lemma represents_length: "represents n q w \<Longrightarrow> qlength q = length w"
  unfolding represents_def by (metis length_map length_window)

lemma represents_nonempty: "represents n q w \<Longrightarrow> w \<noteq> []"
  by (metis represents_def queue_wf_def represents_length list.size(3) not_one_le_zero)

lemma represents_elem:
  assumes "represents n q w" "j < length w"
  shows "QELEM q (qstart q + j) = wire n (w ! j)"
proof -
  have "window q ! j = QELEM q (qstart q + j)" using assms represents_length by (intro window_nth) simp
  moreover have "window q = map (wire n) w" using assms by (simp add: represents_def)
  ultimately show ?thesis using assms by simp
qed

text \<open>The place of a number in a sorted list.\<close>

lemma sorted_below:
  assumes "sorted_wrt (<) w" "k < length w" "w ! k < (a::int)" "x \<in> set (take (Suc k) w)"
  shows "x < a"
proof -
  obtain i where "i < Suc k" "x = w ! i" using assms(2,4) by (auto simp: in_set_conv_nth)
  moreover have "i < k \<Longrightarrow> w ! i < w ! k" using assms(1,2) by (simp add: sorted_wrt_iff_nth_less)
  ultimately show ?thesis using assms(3) by (auto simp: less_Suc_eq)
qed

lemma sorted_above:
  assumes "sorted_wrt (<) w" "Suc k = length w \<or> (a::int) < w ! Suc k" "y \<in> set (drop (Suc k) w)"
  shows "a < y"
proof -
  obtain i where "i < length w - Suc k" "y = w ! (Suc k + i)" using assms(3) by (auto simp: in_set_conv_nth)
  then have i: "Suc k + i < length w" "y = w ! (Suc k + i)" by auto
  moreover have "0 < i \<Longrightarrow> w ! Suc k < w ! (Suc k + i)" using assms(1) i by (simp add: sorted_wrt_iff_nth_less)
  ultimately show ?thesis using assms(2) by (cases i) auto
qed

lemma sorted_slide:
  assumes "sorted_wrt (<) w" "k < length w" "w ! k < (a::int)" "Suc k = length w \<or> a < w ! Suc k"
  shows "sorted_wrt (<) (slide w k a)"
  using sorted_below [OF assms(1-3)] sorted_above [OF assms(1,4)] assms(1)
  by (auto simp: slide_def sorted_wrt_append sorted_wrt_take sorted_wrt_drop intro: less_trans)

lemma insort_between:
  "(\<forall>x\<in>set xs. x < a) \<Longrightarrow> (\<forall>y\<in>set ys. (a::int) < y) \<Longrightarrow> insort a (xs @ ys) = xs @ a # ys"
  by (induction xs) (auto intro!: insort_is_Cons order.strict_implies_order)

lemma slide_insort:
  assumes "sorted_wrt (<) w" "Suc k < length w" "w ! k < (a::int)" "a < w ! Suc k"
  shows "slide w k a = insort a w"
proof -
  have "insort a (take (Suc k) w @ drop (Suc k) w) = take (Suc k) w @ a # drop (Suc k) w"
    using assms sorted_below [of w k a] sorted_above [of w k a] by (intro insort_between) auto
  then show ?thesis by (simp add: slide_def)
qed

lemma trim_sorted: "sorted_wrt (<) w \<Longrightarrow> sorted_wrt (<) (trim w)"
  by (cases w) (auto simp: trim_def)

lemma represents_insert:
  assumes r: "represents n q w" and k: "k < length w" "w ! k < a" "Suc k = length w \<or> a < w ! Suc k"
  shows "represents n (queue_insert q (qstart q + k) (wire n a)) (trim (slide w k a))"
proof -
  have l: "qlength q = length w" using r by (rule represents_length)
  have "length w \<le> QUEUE_LENGTH" using r by (simp add: represents_def queue_wf_def l)
  moreover have "window q = map (wire n) w" using r by (simp add: represents_def)
  ultimately have "window (queue_insert q (qstart q + k) (wire n a)) = map (wire n) (trim (slide w k a))"
    using r k queue_insert_window [of q k "wire n a"]
    by (auto simp: represents_def l slide_map trim_def map_tl)
  then show ?thesis
    using r k sorted_slide [of w k a] by (simp add: represents_def queue_insert_wf trim_sorted)
qed

lemma sorted_ends:
  assumes "sorted_wrt (<) w" "j < length w"
  shows "hd w \<le> w ! j" "w ! j \<le> (last w :: int)"
proof -
  have ne: "w \<noteq> []" "length w - 1 < length w" using assms(2) by auto
  show "hd w \<le> w ! j"
    using sorted_wrt_nth_less [OF assms(1), of 0 j] assms(2) ne by (cases "j = 0") (auto simp: hd_conv_nth)
  show "w ! j \<le> last w"
    using sorted_wrt_nth_less [OF assms(1) _ ne(2), of j] assms(2) ne(1)
    by (cases "j < length w - 1"; cases "j = length w - 1") (auto simp: last_conv_nth)
qed

lemma near_elem:
  assumes "near n w a" "sorted_wrt (<) w" "j < length w"
  shows "a - w ! j < 2 ^ (n - 1)" "w ! j - a < 2 ^ (n - 1)"
  using assms(1) sorted_ends [OF assms(2,3)] by (auto simp: near_def)

lemma represents_compare:
  assumes r: "represents n q w" and nr: "near n w a" and j: "j < length w"
  shows "wire n a = QELEM q (qstart q + j) \<longleftrightarrow> a = w ! j"
    "after (wire n a) (QELEM q (qstart q + j)) (qmask q) \<longleftrightarrow> w ! j < a"
    "after (QELEM q (qstart q + j)) (wire n a) (qmask q) \<longleftrightarrow> a < w ! j"
proof -
  have n: "seq_width n" "qmask q = mask n" "sorted_wrt (<) w" using r by (simp_all add: represents_def)
  have h: "(2::int) ^ (n - 1) < 2 ^ n" using n(1) by (auto simp: seq_width_def)
  note d = near_elem [OF nr n(3) j] 
  show "wire n a = QELEM q (qstart q + j) \<longleftrightarrow> a = w ! j"
    unfolding represents_elem [OF r j] using d h by (intro wire_eq_iff n) linarith+
  show "after (wire n a) (QELEM q (qstart q + j)) (qmask q) \<longleftrightarrow> w ! j < a"
    "after (QELEM q (qstart q + j)) (wire n a) (qmask q) \<longleftrightarrow> a < w ! j"
    unfolding represents_elem [OF r j] n(2) using d n(1) by (simp_all add: after_wire)
qed

lemma order_scan_refines:
  assumes r: "represents n q w" and nr: "near n w a"
  shows "k + m = length w - 1 \<Longrightarrow> k < length w \<Longrightarrow> w ! k \<le> a \<Longrightarrow> a < last w \<Longrightarrow>
    fst (order_scan q (wire n a) (qstart q + k) m) =
      (if a \<in> set w then GSS_S_DUPLICATE_TOKEN else if replay_only q then GSS_S_COMPLETE else GSS_S_UNSEQ_TOKEN) \<and>
    represents n (snd (order_scan q (wire n a) (qstart q + k) m)) (if a \<in> set w then w else trim (insort a w))"
proof (induction m arbitrary: k)
  case 0
  then have "last w = w ! k" by (subst last_conv_nth) auto
  then show ?case using 0 by simp
next
  case (Suc m)
  have srt: "sorted_wrt (<) w" using r by (simp add: represents_def)
  have k1: "Suc k < length w" using Suc.prems by simp
  note cmp = represents_compare [OF r nr Suc.prems(2)] represents_compare [OF r nr k1, simplified]
  consider "a = w ! k" | "w ! k < a" "a < w ! Suc k" | "w ! Suc k \<le> a" using Suc.prems by linarith
  then show ?case
  proof cases
    case 1
    then show ?thesis using r cmp(1) Suc.prems(2) by simp
  next
    case 2
    have "a \<notin> set w"
      using sorted_below [OF srt Suc.prems(2) 2(1)] sorted_above [OF srt, of k a] 2(2)
      by (metis append_take_drop_id Un_iff set_append less_irrefl)
    moreover have "represents n (queue_insert q (qstart q + k) (wire n a)) (trim (insort a w))"
      using represents_insert [OF r Suc.prems(2) 2(1)] 2 slide_insort [OF srt k1 2] by simp
    ultimately show ?thesis using 2 cmp by simp
  next
    case 3
    then have "order_scan q (wire n a) (qstart q + k) (Suc m) = order_scan q (wire n a) (qstart q + Suc k) m"
      if "a \<noteq> w ! k" using cmp that by simp
    moreover have "a \<noteq> w ! k" using 3 sorted_wrt_nth_less [OF srt lessI k1] by simp
    ultimately show ?thesis using Suc.IH [of "Suc k"] Suc.prems 3 k1 by simp
  qed
qed

lemma order_check_refines:
  assumes r: "represents n q w" and nr: "near n w a" and f: "firstnum q = wire n f"
    and on: "do_replay q \<noteq> 0 \<or> do_sequence q \<noteq> 0"
  shows "fst (g_order_check q (wire n (f + a))) = fst (order_spec (replay_only q) w a)"
    "represents n (snd (g_order_check q (wire n (f + a)))) (snd (order_spec (replay_only q) w a))"
proof -
  let ?last = "qstart q + qlength q - 1" and ?c = "g_order_check q (wire n (f + a))"
  have n: "seq_width n" "qmask q = mask n" "sorted_wrt (<) w" using r by (simp_all add: represents_def)
  have ne: "w \<noteq> []" and l: "length w - 1 < length w" "0 < length w"
    using represents_nonempty [OF r] by simp_all
  have last: "?last = qstart q + (length w - 1)" "last w = w ! (length w - 1)" "hd w = w ! 0"
    using represents_length [OF r] ne l by (simp_all add: last_conv_nth hd_conv_nth Suc_leI)
  have rel: "(wire n (f + a) - firstnum q) AND qmask q = wire n a"
    unfolding f n(2) by (rule relative_number) (rule n)
  have ex: "(QELEM q ?last + 1) AND qmask q = wire n (last w + 1)"
    unfolding last(1) represents_elem [OF r l(1)] n(2) last(2) by (rule expected_number) (rule n)
  have d: "a - (last w + 1) < 2 ^ (n - 1)" "last w + 1 - a < 2 ^ (n - 1)"
    using nr near_elem [OF nr n(3) l(1)] by (auto simp: near_def last)
  have h: "(2::int) ^ (n - 1) < 2 ^ n" using n(1) by (auto simp: seq_width_def)
  have e1: "wire n a = wire n (last w + 1) \<longleftrightarrow> a = last w + 1"
    using d h by (intro wire_eq_iff n) linarith+
  have e2: "after (wire n a) (wire n (last w + 1)) (qmask q) \<longleftrightarrow> last w + 1 < a"
    unfolding n(2) using d by (intro after_wire n)
  have c1: "wire n a = QELEM q ?last \<longleftrightarrow> a = last w"
    unfolding last(1,2) by (rule represents_compare [OF r nr l(1)])
  have c2: "after (QELEM q (qstart q)) (wire n a) (qmask q) \<longleftrightarrow> a < hd w"
    using represents_compare(3) [OF r nr l(2)] by (simp add: last(3))
  have chk: "?c = (let s = wire n a in
     if a = last w + 1 then (GSS_S_COMPLETE, queue_insert q ?last s)
     else if last w + 1 < a then (if replay_only q then GSS_S_COMPLETE else GSS_S_GAP_TOKEN, queue_insert q ?last s)
     else if a < hd w then (if replay_only q then GSS_S_OLD_TOKEN else GSS_S_UNSEQ_TOKEN, q)
     else if a = last w then (GSS_S_DUPLICATE_TOKEN, q)
     else order_scan q s (qstart q) (qlength q - 1))"
    unfolding g_order_check_def Let_def rel ex e1 e2 c1 c2 using on by auto
  have ins: "represents n (queue_insert q ?last (wire n a)) (trim (w @ [a]))" if "last w < a"
    using represents_insert [OF r l(1), of a] that slide_last [OF ne, of a] last ne by simp
  have lw: "last w \<in> set w" using ne by simp
  consider "last w < a" | "a < hd w" "a < last w" | "a = last w" | "hd w \<le> a" "a < last w"
    by linarith
  then have "fst ?c = fst (order_spec (replay_only q) w a) \<and> represents n (snd ?c) (snd (order_spec (replay_only q) w a))"
  proof cases
    case 1
    then show ?thesis using ins [OF 1] unfolding chk order_spec_def Let_def by auto
  next
    case 2
    then show ?thesis using r unfolding chk order_spec_def Let_def by simp
  next
    case 3
    then have "\<not> a < hd w" using sorted_ends(1) [OF n(3) l(1)] last by simp
    then show ?thesis using 3 r lw unfolding chk order_spec_def Let_def by simp
  next
    case 4
    then show ?thesis
      using order_scan_refines [OF r nr, of 0 "qlength q - 1"] represents_length [OF r] l last
      unfolding chk order_spec_def Let_def by (simp split: if_splits)
  qed
  then show "fst ?c = fst (order_spec (replay_only q) w a)"
    "represents n (snd ?c) (snd (order_spec (replay_only q) w a))" by simp_all
qed

text \<open>The only change a check makes is one insertion behind a number of the window.\<close>

lemma order_scan_snd:
  "k + m < qlength q \<Longrightarrow> snd (order_scan q s (qstart q + k) m) = q \<or>
    (\<exists>j<qlength q. snd (order_scan q s (qstart q + k) m) = queue_insert q (qstart q + j) s)"
proof (induction m arbitrary: k)
  case (Suc m)
  then have "\<exists>j<qlength q. queue_insert q (qstart q + k) s = queue_insert q (qstart q + j) s" by (intro exI [of _ k]) simp
  then show ?case using Suc.IH [of "Suc k"] Suc.prems by (simp split: if_split)
qed simp

lemma order_check_snd:
  assumes "queue_wf q"
  shows "snd (g_order_check q num) = q \<or> (\<exists>j<qlength q.
    snd (g_order_check q num) = queue_insert q (qstart q + j) ((num - firstnum q) AND qmask q))"
proof -
  have l: "qlength q - 1 < qlength q" "qstart q + qlength q - 1 = qstart q + (qlength q - 1)"
    using assms by (auto simp: queue_wf_def)
  then show ?thesis
    using order_scan_snd [of 0 "qlength q - 1" q "(num - firstnum q) AND qmask q"]
    unfolding g_order_check_def Let_def l(2)
    by (simp only: if_distrib [of snd] snd_conv add_0 add_0_right split: if_split) blast
qed

section \<open>Streams of tokens\<close>

fun run_all :: "('s \<Rightarrow> 'a \<Rightarrow> 'r \<times> 's) \<Rightarrow> 's \<Rightarrow> 'a list \<Rightarrow> 'r list" where
  "run_all step s [] = []"
| "run_all step s (x # xs) = (let (r, s') = step s x in r # run_all step s' xs)"

abbreviation check_all :: "queue \<Rightarrow> u64 list \<Rightarrow> gss_status list" where
  "check_all \<equiv> run_all g_order_check"

abbreviation spec_all :: "bool \<Rightarrow> int list \<Rightarrow> int list \<Rightarrow> gss_status list" where
  "spec_all ro \<equiv> run_all (order_spec ro)"

fun near_all :: "nat \<Rightarrow> bool \<Rightarrow> int list \<Rightarrow> int list \<Rightarrow> bool" where
  "near_all n ro w [] = True"
| "near_all n ro w (a # as) = (near n w a \<and> near_all n ro (snd (order_spec ro w a)) as)"

lemma check_all_refines:
  "represents n q w \<Longrightarrow> near_all n (replay_only q) w as \<Longrightarrow> firstnum q = wire n f \<Longrightarrow>
    do_replay q \<noteq> 0 \<or> do_sequence q \<noteq> 0 \<Longrightarrow>
    check_all q (map (\<lambda>a. wire n (f + a)) as) = spec_all (replay_only q) w as"
proof (induction as arbitrary: q w)
  case (Cons a as)
  let ?q = "snd (g_order_check q (wire n (f + a)))" and ?w = "snd (order_spec (replay_only q) w a)"
  have wf: "queue_wf q" using Cons.prems(1) by (simp add: represents_def)
  have same: "firstnum ?q = firstnum q" "do_replay ?q = do_replay q" "do_sequence ?q = do_sequence q"
    using order_check_snd [OF wf, of "wire n (f + a)"] by auto
  have ro: "replay_only ?q = replay_only q" by (simp add: replay_only_def same)
  have step: "fst (g_order_check q (wire n (f + a))) = fst (order_spec (replay_only q) w a)" "represents n ?q ?w"
    using Cons.prems by (auto intro!: order_check_refines)
  have "check_all ?q (map (\<lambda>a. wire n (f + a)) as) = spec_all (replay_only ?q) ?w as"
    using Cons.prems step(2) by (intro Cons.IH) (auto simp: ro same)
  then show ?case using step(1) by (simp add: case_prod_unfold Let_def ro)
qed simp

definition seq_bits :: "32 word \<Rightarrow> nat" where
  "seq_bits wide_nums = (if wide_nums \<noteq> 0 then 64 else 32)"

lemma init_represents:
  assumes "g_order_init True (wire (seq_bits wide_nums) f) replay sequence wide_nums = Some q"
  shows "represents (seq_bits wide_nums) q [- 1]" "firstnum q = wire (seq_bits wide_nums) f"
    "do_replay q = replay" "do_sequence q = sequence"
proof -
  show "firstnum q = wire (seq_bits wide_nums) f" "do_replay q = replay" "do_sequence q = sequence"
    using assms by (auto simp: g_order_init_def Let_def)
  show "represents (seq_bits wide_nums) q [- 1]"
    using assms by (auto simp: g_order_init_def Let_def represents_def seq_width_def seq_bits_def queue_wf_def
      QUEUE_LENGTH_def window_def QELEM_def wire_def mask_eq_exp_minus_1)
qed

section \<open>Every check decides\<close>

lemma after_asym:
  assumes "seq_width n" "uint x < 2 ^ n" "uint y < 2 ^ n" "after x y (mask n)"
  shows "\<not> after y x (mask n)"
proof
  assume yx: "after y x (mask n)"
  let ?d = "(uint x - uint y) mod 2 ^ n"
  obtain k where k: "n = Suc k" using assms(1) by (auto simp: seq_width_def)
  have xy: "0 < ?d \<and> ?d < 2 ^ k \<or> ?d = 2 ^ k \<and> uint x < 2 ^ k"
    using assms(4) unfolding after_iff [OF assms(1-3)] Let_def by (simp add: k)
  then have r: "(uint y - uint x) mod 2 ^ n = 2 ^ n - ?d"
    using zmod_zminus1_eq_if [of "uint x - uint y" "2 ^ n"] by auto
  have "?d = 2 ^ k" "uint x < 2 ^ k" "uint y < 2 ^ k"
    using xy yx unfolding after_iff [OF assms(1,3,2)] Let_def r by (auto simp: k)
  moreover have lim: "uint x - uint y < 2 ^ n" "uint y - uint x < 2 ^ n"
    using assms(2,3) uint_ge_0 [of x] uint_ge_0 [of y] by linarith+
  have "?d = uint x - uint y \<or> ?d = uint x - uint y + 2 ^ n"
    using mod_pos_pos_trivial [of "uint x - uint y" "2 ^ n"] mod_pos_pos_trivial [of "uint x - uint y + 2 ^ n" "2 ^ n"]
      lim by (cases "uint y \<le> uint x") auto
  ultimately show False using uint_ge_0 [of x] uint_ge_0 [of y] unfolding k power_Suc by linarith
qed

lemma after_pred:
  assumes n: "seq_width n" and e: "uint e < 2 ^ n" "uint s < 2 ^ n" "e \<noteq> s"
    and a: "after ((e + 1) AND mask n) s (mask n)"
  shows "after e s (mask n)"
proof -
  let ?d = "(uint ((e + 1) AND mask n) - uint s) mod 2 ^ n" and ?d' = "(uint e - uint s) mod 2 ^ n"
  obtain k where k: "n = Suc k" using n by (auto simp: seq_width_def)
  have u: "uint ((e + 1) AND mask n) = (uint e + 1) mod 2 ^ n"
    by (simp add: and_mask_wire [OF n] uint_wire [OF n] uint_word_ariths uint_mod_width [OF n])
  then have d: "0 < ?d" "?d \<le> 2 ^ k"
    using a n e unfolding after_iff [OF n wire_less [OF n, of "uint (e + 1)", folded and_mask_wire [OF n]] e(2)] Let_def
    by (auto simp: k)
  have "?d' = (?d - 1) mod 2 ^ n" unfolding u by (simp add: mod_simps)
  also have "\<dots> = ?d - 1" using d by (intro mod_pos_pos_trivial) (auto simp: k)
  finally have "?d' < 2 ^ k" "0 \<le> ?d'" using d by auto
  moreover have "?d' \<noteq> 0"
  proof
    assume "?d' = 0"
    then have "uint e mod 2 ^ n = uint s mod 2 ^ n" by (simp add: mod_eq_dvd_iff dvd_eq_mod_eq_0)
    then show False using e word_uint_eqI [of e s] by simp
  qed
  ultimately have "0 < ?d'" "?d' < 2 ^ k" by linarith+
  then show ?thesis unfolding after_iff [OF n e(1,2)] Let_def by (simp add: k)
qed

definition queue_ok :: "nat \<Rightarrow> queue \<Rightarrow> bool" where
  "queue_ok n q \<longleftrightarrow> seq_width n \<and> queue_wf q \<and> qmask q = mask n \<and> (\<forall>x\<in>set (window q). uint x < 2 ^ n)"

lemma queue_ok_elem: "queue_ok n q \<Longrightarrow> j < qlength q \<Longrightarrow> uint (QELEM q (qstart q + j)) < 2 ^ n"
  using nth_mem [of j "window q"] by (simp add: queue_ok_def)

lemma set_slide: "set (slide w k x) = insert x (set w)"
  unfolding slide_def by (metis append_take_drop_id set_append list.simps(15) Un_insert_right)

lemma set_tl: "set (tl w) \<subseteq> set w"
  by (cases w) auto

lemma queue_ok_check:
  assumes "queue_ok n q"
  shows "queue_ok n (snd (g_order_check q num))"
proof -
  let ?s = "(num - firstnum q) AND qmask q"
  have wf: "queue_wf q" and n: "seq_width n" "qmask q = mask n" using assms by (simp_all add: queue_ok_def)
  have s: "uint ?s < 2 ^ n" by (simp add: n and_mask_wire wire_less)
  have "queue_ok n (queue_insert q (qstart q + j) ?s)" if "j < qlength q" for j
  proof -
    have "set (window (queue_insert q (qstart q + j) ?s)) \<subseteq> insert ?s (set (window q))"
      unfolding queue_insert_window [OF wf that] using set_tl [of "slide (window q) j ?s"] set_slide [of "window q" j ?s]
      by auto
    then show ?thesis using assms s by (auto simp: queue_ok_def queue_insert_wf)
  qed
  then show ?thesis using order_check_snd [OF wf, of num] assms by auto
qed

lemma order_scan_decides:
  assumes ok: "queue_ok n q" and s: "uint s < 2 ^ n" and last: "after (QELEM q (qstart q + (qlength q - 1))) s (qmask q)"
  shows "k + m = qlength q - 1 \<Longrightarrow> s = QELEM q (qstart q + k) \<or> after s (QELEM q (qstart q + k)) (qmask q) \<Longrightarrow>
    fst (order_scan q s (qstart q + k) m) \<noteq> GSS_S_FAILURE"
proof (induction m arbitrary: k)
  case 0
  let ?e = "QELEM q (qstart q + (qlength q - 1))"
  have n: "seq_width n" "qmask q = mask n" "qlength q - 1 < qlength q"
    using ok by (auto simp: queue_ok_def queue_wf_def)
  have "s \<noteq> ?e" "\<not> after s ?e (mask n)"
    using last after_asym [OF n(1) queue_ok_elem [OF ok n(3)] s] by (auto simp: n after_def)
  then show ?case using 0 by (auto simp: n)
next
  case (Suc m)
  let ?e = "QELEM q (qstart q + Suc k)"
  have n: "seq_width n" "qmask q = mask n" using ok by (simp_all add: queue_ok_def)
  have "s = ?e \<or> after s ?e (mask n) \<or> after ?e s (mask n)"
    using after_total [OF n(1) s queue_ok_elem [OF ok, of "Suc k"]] Suc.prems by fastforce
  then show ?case using Suc.IH [of "Suc k"] Suc.prems by (auto simp: n)
qed

lemma order_check_decides:
  assumes ok: "queue_ok n q"
  shows "fst (g_order_check q num) \<noteq> GSS_S_FAILURE"
proof -
  let ?s = "(num - firstnum q) AND qmask q" and ?e = "QELEM q (qstart q + qlength q - 1)"
  have n: "seq_width n" "qmask q = mask n" "qlength q - 1 < qlength q" "0 < qlength q"
    and l: "qstart q + qlength q - 1 = qstart q + (qlength q - 1)"
    using ok by (auto simp: queue_ok_def queue_wf_def)
  have s: "uint ?s < 2 ^ n" by (simp add: n and_mask_wire wire_less)
  have e: "uint ?e < 2 ^ n" "uint (QELEM q (qstart q)) < 2 ^ n"
    unfolding l using queue_ok_elem [OF ok n(3)] queue_ok_elem [OF ok n(4)] by simp_all
  have ex: "uint ((?e + 1) AND mask n) < 2 ^ n" by (simp add: n and_mask_wire wire_less)
  have "fst (order_scan q ?s (qstart q) (qlength q - 1)) \<noteq> GSS_S_FAILURE"
    if "?s \<noteq> (?e + 1) AND qmask q" "\<not> after ?s ((?e + 1) AND qmask q) (qmask q)"
      "\<not> after (QELEM q (qstart q)) ?s (qmask q)" "?s \<noteq> ?e"
  proof -
    have "after ((?e + 1) AND mask n) ?s (mask n)" using after_total [OF n(1) s ex] that(1,2) by (simp add: n)
    then have "after ?e ?s (mask n)" using that(4) by (intro after_pred [OF n(1) e(1) s]) auto
    moreover have "?s = QELEM q (qstart q) \<or> after ?s (QELEM q (qstart q)) (mask n)"
      using after_total [OF n(1) e(2) s] that(3) unfolding n by metis
    ultimately show ?thesis using order_scan_decides [OF ok s, of 0 "qlength q - 1"] unfolding n l by simp
  qed
  then show ?thesis unfolding g_order_check_def Let_def by auto
qed

lemma check_all_decides: "queue_ok n q \<Longrightarrow> GSS_S_FAILURE \<notin> set (check_all q nums)"
proof (induction nums arbitrary: q)
  case (Cons x xs)
  then show ?case
    using order_check_decides [OF Cons.prems, of x] Cons.IH [OF queue_ok_check [OF Cons.prems, of x]]
    by (auto simp: case_prod_unfold Let_def)
qed simp

section \<open>Replays\<close>

text \<open>A number the window covers is in it or older than all of it.\<close>

definition covers :: "int list \<Rightarrow> int \<Rightarrow> bool" where
  "covers w b \<longleftrightarrow> b \<in> set w \<or> b < hd w"

definition spec_wf :: "int list \<Rightarrow> bool" where
  "spec_wf w \<longleftrightarrow> sorted_wrt (<) w \<and> w \<noteq> []"

lemma trim_covers: "spec_wf w \<Longrightarrow> covers w b \<Longrightarrow> covers (trim w) b"
proof (cases w)
  case (Cons x xs)
  assume "spec_wf w" "covers w b"
  then show ?thesis using Cons by (cases xs) (auto simp: trim_def covers_def spec_wf_def QUEUE_LENGTH_def)
qed (simp add: spec_wf_def)

lemma trim_wf: "spec_wf w \<Longrightarrow> spec_wf (trim w)"
  by (cases w; cases "tl w") (auto simp: trim_def spec_wf_def QUEUE_LENGTH_def)

lemma sorted_last: "sorted_wrt (<) w \<Longrightarrow> x \<in> set w \<Longrightarrow> x \<le> (last w :: int)"
  by (auto simp: in_set_conv_nth sorted_ends)

lemma append_wf: "spec_wf w \<Longrightarrow> last w < a \<Longrightarrow> spec_wf (w @ [a])"
  by (auto simp: spec_wf_def sorted_wrt_append dest: sorted_last)

lemma insort_wf: "spec_wf w \<Longrightarrow> a \<notin> set w \<Longrightarrow> spec_wf (insort a w)"
  by (auto simp: spec_wf_def strict_sorted_iff sorted_insort distinct_insort)

lemma insort_hd: "w \<noteq> [] \<Longrightarrow> hd w < a \<Longrightarrow> hd (insort a w) = (hd w :: int)"
  by (cases w) auto

lemma order_spec_step:
  assumes wf: "spec_wf w"
  shows "spec_wf (snd (order_spec ro w a)) \<and> covers (snd (order_spec ro w a)) a \<and>
    (\<forall>b. covers w b \<longrightarrow> covers (snd (order_spec ro w a)) b)"
proof -
  have ne: "w \<noteq> []" using wf by (simp add: spec_wf_def)
  consider "last w < a" | "a < hd w" | "a \<in> set w" | "\<not> last w < a" "hd w \<le> a" "a \<notin> set w" by linarith
  then show ?thesis
  proof cases
    case 1
    then have w': "snd (order_spec ro w a) = trim (w @ [a])" by (auto simp: order_spec_def)
    have "covers (w @ [a]) a" "covers w b \<Longrightarrow> covers (w @ [a]) b" for b using ne by (auto simp: covers_def)
    then show ?thesis unfolding w' using trim_covers trim_wf append_wf [OF wf 1] by blast
  next
    case 2
    then have "\<not> last w < a" using wf sorted_ends(1) [of w "length w - 1"] ne by (simp add: spec_wf_def last_conv_nth)
    then have "snd (order_spec ro w a) = w" using 2 by (auto simp: order_spec_def)
    then show ?thesis using 2 wf by (simp add: covers_def)
  next
    case 3
    then have "\<not> last w < a" using wf sorted_last [of w a] by (simp add: spec_wf_def)
    then have "snd (order_spec ro w a) = w" using 3 by (auto simp: order_spec_def)
    then show ?thesis using 3 wf by (simp add: covers_def)
  next
    case 4
    then have w': "snd (order_spec ro w a) = trim (insort a w)" by (auto simp: order_spec_def)
    have "hd w \<in> set w" using ne by simp
    then have "hd w < a" using 4 by (cases "a = hd w") auto
    then have "hd (insort a w) = hd w" using ne by (rule insort_hd [rotated])
    then have "covers (insort a w) a" "covers w b \<Longrightarrow> covers (insort a w) b" for b
      by (auto simp: covers_def set_insort_key)
    then show ?thesis unfolding w' using trim_covers trim_wf insort_wf [OF wf 4(3)] by blast
  qed
qed

definition refused :: "bool \<Rightarrow> gss_status set" where
  "refused ro = {GSS_S_DUPLICATE_TOKEN, if ro then GSS_S_OLD_TOKEN else GSS_S_UNSEQ_TOKEN}"

lemma covered_refused:
  assumes "spec_wf w" "covers w a"
  shows "fst (order_spec ro w a) \<in> refused ro"
proof -
  have "hd w \<le> last w" using assms(1) sorted_ends(1) [of w "length w - 1"] by (auto simp: spec_wf_def last_conv_nth)
  moreover have "a \<in> set w \<Longrightarrow> a \<le> last w" using assms(1) sorted_last by (simp add: spec_wf_def)
  ultimately have "a \<le> last w" using assms(2) by (auto simp: covers_def)
  then show ?thesis using assms(2) by (auto simp: order_spec_def refused_def covers_def)
qed

text \<open>
  What replay protection asks of a filter: after a token has been seen it is covered, what is covered stays
  covered, and a covered token is refused. Then a repetition is refused at any later time.
\<close>

locale replay_filter =
  fixes step :: "'s \<Rightarrow> 'a \<Rightarrow> 'r \<times> 's"
    and ok :: "'s \<Rightarrow> bool"
    and covered :: "'s \<Rightarrow> 'a \<Rightarrow> bool"
    and refusal :: "'r set"
  assumes step_ok: "ok s \<Longrightarrow> ok (snd (step s x))"
    and step_covered: "ok s \<Longrightarrow> covered (snd (step s x)) x"
    and step_keeps: "ok s \<Longrightarrow> covered s y \<Longrightarrow> covered (snd (step s x)) y"
    and covered_refusal: "ok s \<Longrightarrow> covered s x \<Longrightarrow> fst (step s x) \<in> refusal"
begin

lemma run_covered:
  "ok s \<Longrightarrow> j < length xs \<Longrightarrow> covered s (xs ! j) \<Longrightarrow> run_all step s xs ! j \<in> refusal"
proof (induction xs arbitrary: s j)
  case (Cons x xs)
  then show ?case
    by (cases j) (auto simp: case_prod_unfold Let_def covered_refusal step_ok step_keeps)
qed simp

lemma run_repeat:
  "ok s \<Longrightarrow> i < j \<Longrightarrow> j < length xs \<Longrightarrow> xs ! i = xs ! j \<Longrightarrow> run_all step s xs ! j \<in> refusal"
proof (induction xs arbitrary: s i j)
  case (Cons x xs)
  obtain j' where j: "j = Suc j'" using Cons.prems(2) by (cases j) auto
  have "run_all step (snd (step s x)) xs ! j' \<in> refusal"
  proof (cases i)
    case 0
    then show ?thesis using Cons.prems j step_covered [of s x] by (intro run_covered) (auto simp: step_ok)
  next
    case (Suc i')
    then show ?thesis using Cons.prems j by (intro Cons.IH [of _ i']) (auto simp: step_ok)
  qed
  then show ?case by (simp add: case_prod_unfold Let_def j)
qed simp

end

interpretation ord: replay_filter "order_spec ro" spec_wf covers "refused ro" for ro
  using order_spec_step covered_refused by unfold_locales blast+

section \<open>Tokens in order\<close>

lemma order_check_next:
  assumes n: "seq_width n" and q: "queue_wf q" "qmask q = mask n" "last (window q) = wire n (k - 1)"
    "firstnum q = wire n f"
  shows "fst (g_order_check q (wire n (f + k))) = GSS_S_COMPLETE"
    "do_replay q \<noteq> 0 \<or> do_sequence q \<noteq> 0 \<Longrightarrow> last (window (snd (g_order_check q (wire n (f + k))))) = wire n k"
proof -
  let ?l = "qlength q - 1"
  have l: "?l < qlength q" "qstart q + qlength q - 1 = qstart q + ?l" using q(1) by (auto simp: queue_wf_def)
  have ne: "window q \<noteq> []" using l(1) by (metis length_window list.size(3) not_less_zero)
  have "QELEM q (qstart q + ?l) = window q ! ?l" using l(1) by (rule window_nth [symmetric])
  also have "\<dots> = wire n (k - 1)" using q(3) last_conv_nth [OF ne] by simp
  finally have ex: "(QELEM q (qstart q + ?l) + 1) AND qmask q = wire n k"
    using expected_number [OF n, of "k - 1"] q(2) by simp
  have rel: "(wire n (f + k) - firstnum q) AND qmask q = wire n k" unfolding q(2,4) by (rule relative_number [OF n])
  show "fst (g_order_check q (wire n (f + k))) = GSS_S_COMPLETE"
    unfolding g_order_check_def Let_def l(2) ex rel by simp
  assume on: "do_replay q \<noteq> 0 \<or> do_sequence q \<noteq> 0"
  then have "snd (g_order_check q (wire n (f + k))) = queue_insert q (qstart q + ?l) (wire n k)"
    unfolding g_order_check_def Let_def l(2) ex rel by auto
  moreover have "slide (window q) ?l (wire n k) = window q @ [wire n k]"
    using slide_last [OF ne, of "wire n k"] by simp
  ultimately show "last (window (snd (g_order_check q (wire n (f + k))))) = wire n k"
    using queue_insert_window [OF q(1) l(1), of "wire n k"] l(1) by (auto simp: ne)
qed

lemma in_order_run:
  "seq_width n \<Longrightarrow> queue_wf q \<Longrightarrow> qmask q = mask n \<Longrightarrow> last (window q) = wire n (int k - 1) \<Longrightarrow>
    firstnum q = wire n f \<Longrightarrow>
    check_all q (map (\<lambda>i. wire n (f + int i)) [k ..< k + m]) = replicate m GSS_S_COMPLETE"
proof (induction m arbitrary: q k)
  case (Suc m)
  let ?c = "g_order_check q (wire n (f + int k))"
  have f: "fst ?c = GSS_S_COMPLETE" using Suc.prems by (intro order_check_next(1))
  have "check_all (snd ?c) (map (\<lambda>i. wire n (f + int i)) [Suc k ..< Suc k + m]) = replicate m GSS_S_COMPLETE"
  proof (cases "do_replay q = 0 \<and> do_sequence q = 0")
    case True
    have off: "check_all q' nums = replicate (length nums) GSS_S_COMPLETE"
      if "do_replay q' = 0" "do_sequence q' = 0" for q' nums
      using that by (induction nums) (auto simp: g_order_check_def)
    have "snd ?c = q" using True by (simp add: g_order_check_def)
    then show ?thesis using off True by simp
  next
    case False
    have "queue_wf (snd ?c)" "qmask (snd ?c) = qmask q" "firstnum (snd ?c) = firstnum q"
      using order_check_snd [OF Suc.prems(2), of "wire n (f + int k)"] Suc.prems(2) by (auto simp: queue_insert_wf)
    then show ?thesis using Suc.prems False order_check_next(2) [of n q "int k" f] by (intro Suc.IH) auto
  qed
  then show ?case using f by (simp add: upt_conv_Cons case_prod_unfold Let_def del: upt_Suc)
qed simp

section \<open>Properties\<close>

definition seq_numbers :: "32 word \<Rightarrow> int \<Rightarrow> int list \<Rightarrow> u64 list" where
  "seq_numbers wide_nums f as = map (\<lambda>a. wire (seq_bits wide_nums) (f + a)) as"

text \<open>
  C5. Refinement: a context that numbers its tokens without bound and sends the numbers modulo the width
  of its sequence numbers is told exactly what the specification on sorted lists of unbounded
  numbers says, wrapped or not, for every order of arrival in which no token is half the range away from
  the numbers remembered when it arrives.
\<close>

theorem order_check_refinement:
  assumes "g_order_init True (wire (seq_bits wide_nums) f) replay sequence wide_nums = Some q"
    and "replay \<noteq> 0 \<or> sequence \<noteq> 0"
    and "near_all (seq_bits wide_nums) (replay \<noteq> 0 \<and> sequence = 0) [- 1] as"
  shows "check_all q (seq_numbers wide_nums f as) = spec_all (replay \<noteq> 0 \<and> sequence = 0) [- 1] as"
proof -
  note i = init_represents [OF assms(1)]
  have "replay_only q = (replay \<noteq> 0 \<and> sequence = 0)" by (simp add: replay_only_def i)
  then show ?thesis using check_all_refines [OF i(1), of as f] assms(2,3) i by (simp add: seq_numbers_def)
qed

theorem order_check_refinement_witness:
  "check_all (the (g_order_init True (wire 32 4294967294) 1 1 0)) (seq_numbers 0 4294967294 [0, 1, 4, 2, 2, 3, 5]) =
    [GSS_S_COMPLETE, GSS_S_COMPLETE, GSS_S_GAP_TOKEN, GSS_S_UNSEQ_TOKEN, GSS_S_DUPLICATE_TOKEN,
     GSS_S_UNSEQ_TOKEN, GSS_S_COMPLETE]"
proof -
  let ?as = "[0, 1, 4, 2, 2, 3, 5] :: int list"
  have n: "seq_bits 0 = 32" by (simp add: seq_bits_def)
  obtain q where q: "g_order_init True (wire 32 4294967294) 1 1 0 = Some q"
    by (simp add: g_order_init_def Let_def)
  have near: "near_all 32 ((1::32 word) \<noteq> 0 \<and> (1::32 word) = 0) [- 1] ?as" by code_simp
  have "check_all q (seq_numbers 0 4294967294 ?as) = spec_all ((1::32 word) \<noteq> 0 \<and> (1::32 word) = 0) [- 1] ?as"
    using q near by (intro order_check_refinement) (simp_all add: n)
  also have "\<dots> = [GSS_S_COMPLETE, GSS_S_COMPLETE, GSS_S_GAP_TOKEN, GSS_S_UNSEQ_TOKEN, GSS_S_DUPLICATE_TOKEN,
     GSS_S_UNSEQ_TOKEN, GSS_S_COMPLETE]" by code_simp
  finally show ?thesis by (simp add: q)
qed

text \<open>
  C6. Safety: let replay detection or sequencing be on, and let every token of the stream, when it
  arrives, be less than half the range of the sequence numbers above the oldest number the queue
  remembers and less than half the range below the number it expects next (\<open>near_all\<close>; the
  numbers are counted without wrapping). Then a token that repeats the number of any earlier token is never
  accepted again: it is reported as a duplicate, or as old, or as out of sequence when the context
  also checks the sequence. Without the condition on the distance it may be accepted: with replay detection
  alone and 32-bit numbers, 0, \<open>2 ^ 31 - 1\<close> and \<open>2 ^ 32 - 2\<close> are followed by a second 0 that is accepted.
\<close>

theorem repeated_token_refused:
  assumes "g_order_init True (wire (seq_bits wide_nums) f) replay sequence wide_nums = Some q"
    and "replay \<noteq> 0 \<or> sequence \<noteq> 0"
    and "near_all (seq_bits wide_nums) (replay \<noteq> 0 \<and> sequence = 0) [- 1] as"
    and "i < j" "j < length as" "as ! i = as ! j"
  shows "check_all q (seq_numbers wide_nums f as) ! j \<in>
    {GSS_S_DUPLICATE_TOKEN, if replay \<noteq> 0 \<and> sequence = 0 then GSS_S_OLD_TOKEN else GSS_S_UNSEQ_TOKEN}"
proof -
  note i = init_represents [OF assms(1)]
  have "replay_only q = (replay \<noteq> 0 \<and> sequence = 0)" by (simp add: replay_only_def i)
  then have "check_all q (seq_numbers wide_nums f as) = spec_all (replay \<noteq> 0 \<and> sequence = 0) [- 1] as"
    using check_all_refines [OF i(1), of as f] assms(2,3) i by (simp add: seq_numbers_def)
  then show ?thesis using ord.run_repeat [of "[- 1]" i j as] assms(4-6) by (simp add: spec_wf_def refused_def)
qed

theorem repeated_token_refused_witness:
  "check_all (the (g_order_init True (wire 64 7) 1 0 1)) (seq_numbers 1 7 [0, 3, 1, 0]) ! 3 \<in>
    {GSS_S_DUPLICATE_TOKEN, GSS_S_OLD_TOKEN}"
proof -
  have n: "seq_bits 1 = 64" by (simp add: seq_bits_def)
  obtain q where q: "g_order_init True (wire 64 7) 1 0 1 = Some q" by (simp add: g_order_init_def Let_def)
  have "near_all 64 ((1::32 word) \<noteq> 0 \<and> (0::32 word) = 0) [- 1] [0, 3, 1, 0]" by code_simp
  then show ?thesis using repeated_token_refused [of 1 7 1 0 q "[0, 3, 1, 0]" 0 3] q by (simp add: n)
qed

text \<open>
  C12. Liveness: tokens that arrive in order are all accepted, however many there are and whichever
  checks are on, past every wrap of the sequence number.
\<close>

theorem in_order_tokens_complete:
  assumes "g_order_init True (wire (seq_bits wide_nums) f) replay sequence wide_nums = Some q"
  shows "check_all q (seq_numbers wide_nums f (map int [0 ..< m])) = replicate m GSS_S_COMPLETE"
proof -
  note i = init_represents [OF assms]
  have "window q = [wire (seq_bits wide_nums) (- 1)]" using i(1) by (simp add: represents_def)
  then show ?thesis
    using in_order_run [of "seq_bits wide_nums" q 0 f m] i by (simp add: represents_def seq_numbers_def comp_def)
qed

theorem in_order_tokens_complete_witness:
  "check_all (the (g_order_init True (wire 32 4294967290) 1 1 0)) (seq_numbers 0 4294967290 (map int [0 ..< 100])) =
    replicate 100 GSS_S_COMPLETE"
proof -
  obtain q where q: "g_order_init True (wire 32 4294967290) 1 1 0 = Some q" by (simp add: g_order_init_def Let_def)
  then show ?thesis using in_order_tokens_complete [of 0 4294967290 1 1 q 100] by (simp add: seq_bits_def)
qed

text \<open>
  C13. Every token is decided: whatever numbers arrive, in range or not, the final
  \<^verbatim>\<open>this should never happen\<close> of the check is not reached.
\<close>

theorem order_check_never_fails:
  assumes "g_order_init True seqnum replay sequence wide_nums = Some q"
  shows "GSS_S_FAILURE \<notin> set (check_all q nums)"
proof (rule check_all_decides)
  show "queue_ok (seq_bits wide_nums) q"
    using assms by (auto simp: g_order_init_def Let_def queue_ok_def seq_width_def seq_bits_def queue_wf_def
      QUEUE_LENGTH_def window_def QELEM_def mask_eq_exp_minus_1 unsigned_minus_1_eq_mask)
qed

theorem order_check_never_fails_witness:
  "GSS_S_FAILURE \<notin> set (check_all (the (g_order_init True 5 1 1 0)) [5, 6, 2147483660, 4294967295, 0, 5, 6])"
proof -
  obtain q where q: "g_order_init True 5 1 1 0 = Some q" by (simp add: g_order_init_def Let_def)
  then show ?thesis using order_check_never_fails [OF q] by (simp only: option.sel not_False_eq_True)
qed

end
