(* ===== verification/Seq_Export.thy ===== *)
theory Seq_Export
  imports Seq_Order
begin

text \<open>
  The queue of sequence numbers as bytes: the routines with which the serialization of a security context
  writes the queue of \<^verbatim>\<open>components/krb5/Solaris/util_ordering.c\<close> into a buffer and reads it back.
\<close>

section \<open>The serialized queue\<close>

type_synonym byte = "8 word"

text \<open>
  The bytes of a scalar in memory, and of the structure: four \<^verbatim>\<open>int\<close>s, then the 64-bit members, with no
  padding. The flag says whether the machine stores the most significant byte first.
\<close>

fun le_bytes :: "nat \<Rightarrow> nat \<Rightarrow> byte list" where
  "le_bytes 0 v = []"
| "le_bytes (Suc k) v = word_of_nat v # le_bytes k (v div 256)"

fun le_value :: "byte list \<Rightarrow> nat" where
  "le_value [] = 0"
| "le_value (b # bs) = unat b + 256 * le_value bs"

definition put :: "bool \<Rightarrow> nat \<Rightarrow> nat \<Rightarrow> byte list" where
  "put big k v = (if big then rev (le_bytes k v) else le_bytes k v)"

definition get :: "bool \<Rightarrow> nat \<Rightarrow> nat \<Rightarrow> byte list \<Rightarrow> nat" where
  "get big off k bs = (let b = take k (drop off bs) in le_value (if big then rev b else b))"

definition sizeof_queue :: nat where
  "sizeof_queue = 192"

definition queue_image :: "bool \<Rightarrow> queue \<Rightarrow> byte list" where
  "queue_image big q =
     put big 4 (unat (do_replay q)) @ put big 4 (unat (do_sequence q)) @ put big 4 (qstart q) @ put big 4 (qlength q) @
     put big 8 (unat (firstnum q)) @ concat (map (\<lambda>x. put big 8 (unat x)) (elem q)) @ put big 8 (unat (qmask q))"

definition queue_of_image :: "bool \<Rightarrow> byte list \<Rightarrow> queue" where
  "queue_of_image big bs =
     \<lparr>do_replay = word_of_nat (get big 0 4 bs), do_sequence = word_of_nat (get big 4 4 bs),
      qstart = get big 8 4 bs, qlength = get big 12 4 bs, firstnum = word_of_nat (get big 16 8 bs),
      elem = map (\<lambda>i. word_of_nat (get big (24 + 8 * i) 8 bs)) [0 ..< QUEUE_LENGTH],
      qmask = word_of_nat (get big (24 + 8 * QUEUE_LENGTH) 8 bs)\<rparr>"

datatype errno = ENOMEM | EINVAL

text \<open>A buffer is the memory it points into, the position and the number of bytes left.\<close>

type_synonym buffer = "byte list \<times> nat \<times> nat"

definition g_queue_size :: "nat \<Rightarrow> nat" where
  "g_queue_size sizep = sizep + sizeof_queue"

definition g_queue_externalize :: "bool \<Rightarrow> queue \<Rightarrow> buffer \<Rightarrow> errno + buffer" where
  "g_queue_externalize big q = (\<lambda>(bytes, pos, lenremain).
     if lenremain < sizeof_queue then Inl ENOMEM
     else Inr (take pos bytes @ queue_image big q @ drop (pos + sizeof_queue) bytes, pos + sizeof_queue,
       lenremain - sizeof_queue))"

definition g_queue_internalize :: "bool \<Rightarrow> bool \<Rightarrow> buffer \<Rightarrow> errno + (queue \<times> buffer)" where
  "g_queue_internalize mem big = (\<lambda>(bytes, pos, lenremain).
     if lenremain < sizeof_queue then Inl EINVAL
     else if \<not> mem then Inl ENOMEM
     else Inr (queue_of_image big (take sizeof_queue (drop pos bytes)), bytes, pos + sizeof_queue,
       lenremain - sizeof_queue))"

lemma length_le_bytes [simp]: "length (le_bytes k v) = k"
  by (induction k arbitrary: v) auto

lemma length_put [simp]: "length (put big k v) = k"
  by (simp add: put_def)

lemma le_value_bytes: "le_value (le_bytes k v) = v mod 256 ^ k"
  by (induction k arbitrary: v) (simp_all add: unat_of_nat mod_mult2_eq)

lemma get_put:
  assumes "take k (drop off bs) = put big k v" "v < 256 ^ k"
  shows "get big off k bs = v"
  using assms by (simp add: get_def put_def Let_def le_value_bytes)

lemma length_chunks: "\<forall>x\<in>set xs. length (g x) = m \<Longrightarrow> length (concat (map g xs)) = m * length xs"
  by (induction xs) auto

lemma drop_chunks:
  "\<forall>x\<in>set xs. length (g x) = m \<Longrightarrow> i < length xs \<Longrightarrow>
    drop (m * i) (concat (map g xs) @ rest) = g (xs ! i) @ concat (map g (drop (Suc i) xs)) @ rest"
proof (induction xs arbitrary: i)
  case (Cons x xs)
  then show ?case by (cases i) (auto simp: drop_append)
qed simp

lemma queue_image_roundtrip:
  assumes "queue_wf q"
  shows "queue_of_image big (queue_image big q) = q" "length (queue_image big q) = sizeof_queue"
proof -
  let ?img = "queue_image big q" and ?f = "\<lambda>x::u64. put big 8 (unat x)"
  have el: "length (elem q) = 20" and b: "qstart q < 20" "qlength q \<le> 20"
    using assms by (simp_all add: queue_wf_def QUEUE_LENGTH_def)
  have lc: "length (concat (map ?f (elem q))) = 160" using length_chunks [of "elem q" ?f 8] el by simp
  show "length ?img = sizeof_queue" by (simp add: queue_image_def lc sizeof_queue_def)
  have w4: "unat (x :: 32 word) < 256 ^ 4" for x using unsigned_less [of x, where 'a = nat] by simp
  have w8: "unat (x :: u64) < 256 ^ 8" for x using unsigned_less [of x, where 'a = nat] by simp
  have f: "get big 0 4 ?img = unat (do_replay q)" "get big 4 4 ?img = unat (do_sequence q)"
    "get big 8 4 ?img = qstart q" "get big 12 4 ?img = qlength q" "get big 16 8 ?img = unat (firstnum q)"
    using b by (auto intro!: get_put simp: queue_image_def w4 [simplified] w8 [simplified])
  have m: "get big (24 + 8 * QUEUE_LENGTH) 8 ?img = unat (qmask q)"
    by (rule get_put) (simp_all add: queue_image_def w8 [simplified] lc QUEUE_LENGTH_def)
  have e: "get big (24 + 8 * i) 8 ?img = unat (elem q ! i)" if "i < 20" for i
  proof -
    have "drop (24 + 8 * i) ?img = drop (8 * i) (concat (map ?f (elem q)) @ put big 8 (unat (qmask q)))"
      by (simp add: queue_image_def drop_append)
    also have "\<dots> = ?f (elem q ! i) @ concat (map ?f (drop (Suc i) (elem q))) @ put big 8 (unat (qmask q))"
      using that el by (intro drop_chunks) simp_all
    finally show ?thesis by (intro get_put w8) simp
  qed
  have "map (\<lambda>i. word_of_nat (get big (24 + 8 * i) 8 ?img)) [0 ..< QUEUE_LENGTH] = elem q"
    using el by (intro nth_equalityI) (simp_all add: QUEUE_LENGTH_def e)
  then show "queue_of_image big ?img = q" by (simp add: queue_of_image_def f m)
qed

text \<open>
  C33. Round trip: a queue written into a buffer with room for it is read back unchanged, on machines of
  either byte order, both sides advance by the size of the structure, and the rest of
  the buffer keeps its bytes.
\<close>

theorem queue_export_import:
  assumes "queue_wf q" "sizeof_queue \<le> lenremain" "pos + lenremain \<le> length bytes"
  shows "\<exists>bytes'. g_queue_externalize big q (bytes, pos, lenremain) =
      Inr (bytes', pos + sizeof_queue, lenremain - sizeof_queue) \<and>
    g_queue_internalize True big (bytes', pos, lenremain) =
      Inr (q, bytes', pos + sizeof_queue, lenremain - sizeof_queue) \<and>
    length bytes' = length bytes \<and> take pos bytes' = take pos bytes \<and>
    drop (pos + sizeof_queue) bytes' = drop (pos + sizeof_queue) bytes"
  using assms queue_image_roundtrip [OF assms(1), of big]
  by (simp add: g_queue_externalize_def g_queue_internalize_def)

theorem queue_export_import_witness:
  "\<exists>bytes'. g_queue_externalize True (the (g_order_init True 5 1 1 0)) (replicate 200 0, 4, 196) =
      Inr (bytes', 4 + sizeof_queue, 196 - sizeof_queue) \<and>
    g_queue_internalize True True (bytes', 4, 196) =
      Inr (the (g_order_init True 5 1 1 0), bytes', 4 + sizeof_queue, 196 - sizeof_queue)"
proof -
  let ?q = "the (g_order_init True 5 1 1 0)"
  have wf: "queue_wf ?q" by (simp add: g_order_init_def Let_def queue_wf_def QUEUE_LENGTH_def)
  show ?thesis
    using queue_export_import [OF wf, of 196 4 "replicate 200 0" True] by (auto simp: sizeof_queue_def)
qed

end
