(* ===== verification/Cxa_Finalize.thy ===== *)
theory Cxa_Finalize
  imports Main "HOL-Library.Monad_Syntax"
begin

text \<open>
  Exit handlers of C++ objects (\<^verbatim>\<open>components/llvm-21/cxa_finalize/cxa_finalize.c\<close>; the copy under
  \<^verbatim>\<open>llvm-13\<close> is the same). Handlers are registered into a growing array; the callback that \<^verbatim>\<open>atexit\<close>
  runs and the finalization of a shared object call them and mark them as done.

  Arrays are blocks of a store, because the loops keep a pointer into the array while a handler
  may register another one and so replace the array. The handlers themselves are a parameter that
  transforms the state. \<open>None\<close> stands for a deadlock on the mutex, an access outside a block or to a cell that was
  never written, and a loop that does not end. Counters are natural numbers with the wrap of \<^verbatim>\<open>uint32_t\<close> written out.
\<close>

section \<open>State\<close>

definition CXA_FUNC_CALLBACK :: nat where "CXA_FUNC_CALLBACK = 0"
definition CXA_FUNC_DONE :: nat where "CXA_FUNC_DONE = 1"
definition CXA_ATEXIT_CHUNK :: nat where "CXA_ATEXIT_CHUNK = 64"
definition DSO_TYPE_DESTRUCTOR :: nat where "DSO_TYPE_DESTRUCTOR = 1"
definition DSO_SCOPE_LOCAL :: nat where "DSO_SCOPE_LOCAL = 4"
definition DSO_SCOPE_GLOBAL :: nat where "DSO_SCOPE_GLOBAL = 8"

lemmas cxa_consts = CXA_FUNC_CALLBACK_def CXA_FUNC_DONE_def CXA_ATEXIT_CHUNK_def DSO_TYPE_DESTRUCTOR_def
  DSO_SCOPE_LOCAL_def DSO_SCOPE_GLOBAL_def

text \<open>Pointers to functions, arguments and objects are numbers, 0 being the null pointer.\<close>

record cxxabi_atexit =
  cxa_func :: nat
  etype :: nat
  dso_type :: nat
  dso_scope :: nat
  cxa_arg :: nat
  cxa_dso :: nat

text \<open>The static variables, the store of blocks, the calls to the system so far and the handlers called so far.\<close>

record cxa =
  blocks :: "nat \<Rightarrow> cxxabi_atexit option list option"
  nallocs :: nat
  natexits :: nat
  list_ptr :: "nat option"
  list_size :: nat
  list_nelem :: nat
  mtx :: bool
  registered :: nat
  initialized :: nat
  called :: "(nat \<times> nat) list"

definition cxa_start :: cxa where
  "cxa_start = \<lparr>blocks = (\<lambda>b. None), nallocs = 0, natexits = 0, list_ptr = None, list_size = 0, list_nelem = 0,
     mtx = False, registered = 0, initialized = 0, called = []\<rparr>"

text \<open>Whether the n-th allocation succeeds, and what the n-th call of \<^verbatim>\<open>atexit\<close> returns.\<close>

record cxa_system =
  malloc_ok :: "nat \<Rightarrow> bool"
  atexit_ret :: "nat \<Rightarrow> int"

type_synonym handler = "nat \<Rightarrow> nat \<Rightarrow> cxa \<Rightarrow> cxa option"

definition uint32 :: "nat \<Rightarrow> nat" where
  "uint32 n = nat (int n mod 4294967296)"

definition lock :: "cxa \<Rightarrow> cxa option" where
  "lock s = (if mtx s then None else Some (s\<lparr>mtx := True\<rparr>))"

definition unlock :: "cxa \<Rightarrow> cxa" where
  "unlock s = s\<lparr>mtx := False\<rparr>"

definition read_cell :: "cxa \<Rightarrow> nat \<Rightarrow> int \<Rightarrow> cxxabi_atexit option" where
  "read_cell s b i =
     (case blocks s b of
        None \<Rightarrow> None
      | Some cs \<Rightarrow> if 0 \<le> i \<and> nat i < length cs then cs ! nat i else None)"

definition write_cell :: "cxa \<Rightarrow> nat \<Rightarrow> int \<Rightarrow> cxxabi_atexit \<Rightarrow> cxa option" where
  "write_cell s b i e =
     (case blocks s b of
        None \<Rightarrow> None
      | Some cs \<Rightarrow>
          if 0 \<le> i \<and> nat i < length cs then Some (s\<lparr>blocks := (blocks s)(b \<mapsto> cs[nat i := Some e])\<rparr>) else None)"

definition cxa_malloc :: "cxa_system \<Rightarrow> nat \<Rightarrow> cxa \<Rightarrow> nat option \<times> cxa" where
  "cxa_malloc E n s =
     (if malloc_ok E (nallocs s)
      then (Some (nallocs s), s\<lparr>blocks := (blocks s)(nallocs s \<mapsto> replicate n None), nallocs := nallocs s + 1\<rparr>)
      else (None, s\<lparr>nallocs := nallocs s + 1\<rparr>))"

definition cxa_free :: "nat option \<Rightarrow> cxa \<Rightarrow> cxa" where
  "cxa_free p s = (case p of None \<Rightarrow> s | Some b \<Rightarrow> s\<lparr>blocks := (blocks s)(b := None)\<rparr>)"

section \<open>Registration\<close>

definition init_cxxabi_list :: "cxa_system \<Rightarrow> cxa \<Rightarrow> int \<times> cxa" where
  "init_cxxabi_list E s =
     (case cxa_malloc E CXA_ATEXIT_CHUNK s of
        (None, s1) \<Rightarrow> (- 1, s1)
      | (Some p, s1) \<Rightarrow> (0, s1\<lparr>list_ptr := Some p\<rparr>))"

fun copy_cells :: "nat option \<Rightarrow> nat \<Rightarrow> nat \<Rightarrow> nat \<Rightarrow> cxa \<Rightarrow> cxa option" where
  "copy_cells old p i 0 s = Some s"
| "copy_cells old p i (Suc n) s =
     (case old of
        None \<Rightarrow> None
      | Some l \<Rightarrow>
          do { e \<leftarrow> read_cell s l (int i);
               s1 \<leftarrow> write_cell s p (int i) e;
               copy_cells old p (i + 1) n s1 })"

definition resize_cxxabi_list :: "cxa_system \<Rightarrow> nat option \<Rightarrow> nat \<Rightarrow> nat \<Rightarrow> cxa \<Rightarrow> (nat option \<times> cxa) option" where
  "resize_cxxabi_list E oldlist nelem newsize s =
     (case cxa_malloc E newsize s of
        (None, s1) \<Rightarrow> Some (None, s1)
      | (Some p, s1) \<Rightarrow> do { s2 \<leftarrow> copy_cells oldlist p 0 nelem s1; Some (Some p, s2) })"

definition drop_list :: "cxa \<Rightarrow> cxa" where
  "drop_list s = (cxa_free (list_ptr s) s)\<lparr>list_ptr := None, list_size := 0, list_nelem := 0\<rparr>"

definition ensure_list :: "cxa_system \<Rightarrow> cxa \<Rightarrow> int \<times> cxa" where
  "ensure_list E s =
     (if initialized s = 0
      then (let (ret, s1) = init_cxxabi_list E (s\<lparr>list_nelem := 0\<rparr>)
            in if ret = - 1 then (ret, s1) else (ret, s1\<lparr>list_size := CXA_ATEXIT_CHUNK, initialized := 1\<rparr>))
      else (0, s))"

definition ensure_room :: "cxa_system \<Rightarrow> cxa \<Rightarrow> (int \<times> cxa) option" where
  "ensure_room E s =
     (if list_nelem s = list_size s
      then (let newsize = uint32 (list_size s * 2)
            in do { (p, s1) \<leftarrow> resize_cxxabi_list E (list_ptr s) (list_nelem s) newsize s;
                    Some (case p of
                            None \<Rightarrow> (- 1, drop_list s1)
                          | Some b \<Rightarrow> (0, s1\<lparr>list_ptr := Some b, list_size := newsize\<rparr>)) })
      else Some (0, s))"

definition ensure_atexit :: "cxa_system \<Rightarrow> cxa \<Rightarrow> int \<times> cxa" where
  "ensure_atexit E s =
     (let (ret, s1) =
        (if registered s = 0
         then (let r = atexit_ret E (natexits s)
               in (r, s\<lparr>natexits := natexits s + 1, registered := (if r = 0 then 1 else 0)\<rparr>))
         else (0, s))
      in (ret, if registered s1 \<noteq> 1 then drop_list s1 else s1))"

definition store_entry :: "cxxabi_atexit \<Rightarrow> cxa \<Rightarrow> cxa option" where
  "store_entry c s =
     (case list_ptr s of
        None \<Rightarrow> None
      | Some b \<Rightarrow>
          do { s1 \<leftarrow> write_cell s b (int (list_nelem s)) c;
               Some (s1\<lparr>list_nelem := uint32 (list_nelem s1 + 1)\<rparr>) })"

definition register_with_atexit :: "cxa_system \<Rightarrow> cxxabi_atexit option \<Rightarrow> cxa \<Rightarrow> (int \<times> cxa) option" where
  "register_with_atexit E cxa s =
     (case cxa of
        None \<Rightarrow> Some (- 1, s)
      | Some c \<Rightarrow>
          do { s0 \<leftarrow> lock s;
               let (r1, s1) = ensure_list E s0;
               if r1 = - 1 then Some (r1, unlock s1)
               else do { (r2, s2) \<leftarrow> ensure_room E s1;
                         if r2 = - 1 then Some (r2, unlock s2)
                         else (let (r3, s3) = ensure_atexit E s2
                               in if registered s3 \<noteq> 1 then Some (r3, unlock s3)
                                  else do { s4 \<leftarrow> store_entry c s3; Some (r3, unlock s4) }) } })"

definition cxa_entry :: "nat \<Rightarrow> nat \<Rightarrow> nat \<Rightarrow> cxxabi_atexit" where
  "cxa_entry destructor arg dso =
     \<lparr>cxa_func = destructor, etype = CXA_FUNC_CALLBACK, dso_type = DSO_TYPE_DESTRUCTOR,
      dso_scope = DSO_SCOPE_GLOBAL, cxa_arg = arg, cxa_dso = dso\<rparr>"

definition cxa_atexit :: "cxa_system \<Rightarrow> nat \<Rightarrow> nat \<Rightarrow> nat \<Rightarrow> cxa \<Rightarrow> (int \<times> cxa) option" where
  "cxa_atexit E destructor arg dso s = register_with_atexit E (Some (cxa_entry destructor arg dso)) s"

section \<open>Running the handlers\<close>

definition invoke :: "handler \<Rightarrow> nat \<Rightarrow> int \<Rightarrow> cxa \<Rightarrow> cxa option" where
  "invoke h b p s =
     do { e \<leftarrow> read_cell s b p;
          h (cxa_func e) (cxa_arg e) (s\<lparr>called := called s @ [(cxa_func e, cxa_arg e)]\<rparr>) }"

text \<open>One pass of the callback, over the handlers of one scope, from the newest down.\<close>

fun scope_pass :: "handler \<Rightarrow> nat \<Rightarrow> nat \<Rightarrow> nat \<Rightarrow> int \<Rightarrow> cxa \<Rightarrow> cxa option" where
  "scope_pass h scope b 0 p s = Some s"
| "scope_pass h scope b (Suc i) p s =
     do { e \<leftarrow> read_cell s b p;
          s2 \<leftarrow> (if etype e = CXA_FUNC_CALLBACK \<and> dso_scope e = scope
                then do { s1 \<leftarrow> write_cell s b p (e\<lparr>etype := CXA_FUNC_DONE\<rparr>); invoke h b p s1 }
                else Some s);
          scope_pass h scope b i (p - 1) s2 }"

text \<open>The number of turns is an \<^verbatim>\<open>int\<close>, negative when the count has its highest bit set.\<close>

definition int_turns :: "nat \<Rightarrow> nat" where
  "int_turns n = (if int n < 2147483648 then n else 0)"

text \<open>The pointer tested against the null pointer already has the offset of the last element added.\<close>

definition cxa_atexit_callback :: "handler \<Rightarrow> cxa \<Rightarrow> cxa option" where
  "cxa_atexit_callback h s =
     (case list_ptr s of
        None \<Rightarrow> if list_nelem s = 1 \<or> int_turns (list_nelem s) = 0 then Some s else None
      | Some b \<Rightarrow>
          (let e = int (list_nelem s) - 1
           in do { s1 \<leftarrow> scope_pass h DSO_SCOPE_LOCAL b (int_turns (list_nelem s)) e s;
                   scope_pass h DSO_SCOPE_GLOBAL b (int_turns (list_nelem s1)) e s1 }))"

fun finalize_pass :: "handler \<Rightarrow> nat \<Rightarrow> nat \<Rightarrow> int \<Rightarrow> cxa \<Rightarrow> cxa option" where
  "finalize_pass h b 0 p s = Some s"
| "finalize_pass h b (Suc i) p s =
     do { e \<leftarrow> read_cell s b p;
          if etype e = CXA_FUNC_DONE then finalize_pass h b i (p - 1) s
          else do { s1 \<leftarrow> write_cell s b p (e\<lparr>etype := CXA_FUNC_DONE\<rparr>);
                    s2 \<leftarrow> (if etype e = CXA_FUNC_CALLBACK then invoke h b p (unlock s1) else Some (unlock s1));
                    s3 \<leftarrow> lock s2;
                    finalize_pass h b i (p - 1) s3 } }"

definition finalize_entry :: "handler \<Rightarrow> nat \<Rightarrow> nat \<Rightarrow> nat \<Rightarrow> cxa \<Rightarrow> cxa option" where
  "finalize_entry h dso b p s =
     do { e \<leftarrow> read_cell s b (int p);
          if cxa_dso e = dso
          then do { s0 \<leftarrow> lock s;
                    s1 \<leftarrow> write_cell s0 b (int p) (e\<lparr>etype := CXA_FUNC_DONE\<rparr>);
                    if etype e = CXA_FUNC_CALLBACK then invoke h b (int p) (unlock s1) else Some (unlock s1) }
          else Some s }"

text \<open>The number of elements is read again after each handler, so handlers that keep registering keep the loop going.\<close>

partial_function (option) dso_pass :: "handler \<Rightarrow> nat \<Rightarrow> nat \<Rightarrow> nat \<Rightarrow> nat \<Rightarrow> cxa \<Rightarrow> cxa option" where
  "dso_pass h dso b p i s =
     do { s1 \<leftarrow> finalize_entry h dso b p s;
          if uint32 (i + 1) < list_nelem s1 then dso_pass h dso b (p + 1) (uint32 (i + 1)) s1 else Some s1 }"

definition cxa_finalize :: "handler \<Rightarrow> nat \<Rightarrow> cxa \<Rightarrow> (int \<times> cxa) option" where
  "cxa_finalize h dso s =
     do { s0 \<leftarrow> lock s;
          if initialized s0 = 0 then Some (- 1, unlock s0)
          else (case list_ptr s0 of
                  None \<Rightarrow> Some (- 1, unlock s0)
                | Some b \<Rightarrow>
                    (let s1 = unlock s0
                     in if dso = 0
                        then do { s2 \<leftarrow> lock s1;
                                  s3 \<leftarrow> finalize_pass h b (list_nelem s2) (int (list_nelem s1) - 1) s2;
                                  Some (0, unlock s3) }
                        else do { s2 \<leftarrow> dso_pass h dso b 0 0 s1; Some (0, s2) })) }"

definition do_cleanup :: "handler \<Rightarrow> nat \<Rightarrow> cxa \<Rightarrow> cxa option" where
  "do_cleanup h dso_handle s = map_option snd (cxa_finalize h dso_handle s)"

section \<open>The array as a list of entries\<close>

definition cells :: "cxxabi_atexit list \<Rightarrow> cxxabi_atexit option list \<Rightarrow> cxxabi_atexit option list" where
  "cells es rest = map Some es @ rest"

lemma read_cells: "blocks s b = Some (cells es rest) \<Longrightarrow> i < length es \<Longrightarrow> read_cell s b (int i) = Some (es ! i)"
  by (simp add: read_cell_def cells_def nth_append)

lemma write_cells:
  "blocks s b = Some (cells es rest) \<Longrightarrow> i < length es \<Longrightarrow>
    write_cell s b (int i) e = Some (s\<lparr>blocks := (blocks s)(b \<mapsto> cells (es[i := e]) rest)\<rparr>)"
  by (simp add: write_cell_def cells_def list_update_append map_update)

lemma write_next_cell:
  "blocks s b = Some (cells es (c # rest)) \<Longrightarrow>
    write_cell s b (int (length es)) e = Some (s\<lparr>blocks := (blocks s)(b \<mapsto> cells (es @ [e]) rest)\<rparr>)"
  by (simp add: write_cell_def cells_def list_update_append)

lemma uint32_id: "n < 2 ^ 32 \<Longrightarrow> uint32 n = n"
  by (simp add: uint32_def)

text \<open>The list holds the entries \<open>es\<close>, in a block of its own with at least one cell.\<close>

definition holds :: "cxa \<Rightarrow> nat \<Rightarrow> cxxabi_atexit list \<Rightarrow> cxxabi_atexit option list \<Rightarrow> bool" where
  "holds s b es rest \<longleftrightarrow> list_ptr s = Some b \<and> b < nallocs s \<and> blocks s b = Some (cells es rest) \<and>
     list_nelem s = length es \<and> list_size s = length es + length rest \<and> 0 < list_size s \<and>
     initialized s = 1 \<and> registered s = 1"

lemma copy_cells_all:
  "blocks s l = Some (cells es rest) \<Longrightarrow> l \<noteq> p \<Longrightarrow> i + n = length es \<Longrightarrow> length es \<le> m \<Longrightarrow>
    blocks s p = Some (cells (take i es) (replicate (m - i) None)) \<Longrightarrow>
    copy_cells (Some l) p i n s = Some (s\<lparr>blocks := (blocks s)(p \<mapsto> cells es (replicate (m - length es) None))\<rparr>)"
proof (induction n arbitrary: i s)
  case 0
  then show ?case by (simp add: fun_upd_idem)
next
  case (Suc n)
  let ?s = "s\<lparr>blocks := (blocks s)(p \<mapsto> cells (take (Suc i) es) (replicate (m - Suc i) None))\<rparr>"
  have r: "replicate (m - i) None = None # replicate (m - Suc i) None"
    using Suc.prems by (simp add: Suc_diff_Suc flip: replicate_Suc)
  have len: "length (take i es) = i" "take (Suc i) es = take i es @ [es ! i]"
    using Suc.prems by (simp_all add: take_Suc_conv_app_nth)
  have "write_cell s p (int i) (es ! i) = Some ?s"
    using write_next_cell [OF Suc.prems(5) [unfolded r], of "es ! i"] unfolding len .
  moreover have "copy_cells (Some l) p (i + 1) n ?s =
      Some (?s\<lparr>blocks := (blocks ?s)(p \<mapsto> cells es (replicate (m - length es) None))\<rparr>)"
    using Suc.prems by (intro Suc.IH) auto
  ultimately show ?case using Suc.prems by (simp add: read_cells) (simp add: fun_upd_def)
qed

text \<open>A system that grants every request.\<close>

definition generous :: "cxa_system \<Rightarrow> bool" where
  "generous E \<longleftrightarrow> (\<forall>n. malloc_ok E n) \<and> (\<forall>n. atexit_ret E n = 0)"

text \<open>With room for it, the entry becomes the last one.\<close>

lemma store_next:
  assumes "holds s b es (x # rest)" "length es < 2 ^ 31"
  shows "\<exists>s'. store_entry c s = Some s' \<and> holds s' b (es @ [c]) rest \<and> called s' = called s \<and> mtx s' = mtx s \<and>
    (\<forall>b'. b' \<noteq> b \<longrightarrow> blocks s' b' = blocks s b')"
  using assms write_next_cell [of s b es x rest c] by (auto simp: holds_def store_entry_def uint32_id)

lemma room_made:
  assumes h: "holds s b es rest" and E: "generous E" and lim: "length es < 2 ^ 31"
  shows "\<exists>s' b' x rest'. ensure_room E s = Some (0, s') \<and> holds s' b' es (x # rest') \<and> called s' = called s \<and>
    mtx s' = mtx s \<and> (rest = [] \<longrightarrow> b' \<noteq> b \<and> blocks s' b = blocks s b)"
proof (cases rest)
  case (Cons x rest')
  then show ?thesis using h by (auto simp: ensure_room_def holds_def)
next
  case Nil
  let ?m = "list_size s * 2" and ?p = "nallocs s"
  let ?s = "s\<lparr>blocks := (blocks s)(?p \<mapsto> replicate ?m None), nallocs := ?p + 1\<rparr>"
  have len: "length es = list_size s" "0 < length es" using h Nil by (auto simp: holds_def)
  have "copy_cells (Some b) ?p 0 (length es) ?s =
      Some (?s\<lparr>blocks := (blocks ?s)(?p \<mapsto> cells es (replicate (?m - length es) None))\<rparr>)"
    using h len by (intro copy_cells_all [where rest = rest]) (auto simp: holds_def cells_def)
  moreover have "uint32 ?m = ?m" using len lim by (simp add: uint32_id)
  ultimately have e: "ensure_room E s = Some (0, ?s\<lparr>blocks := (blocks ?s)(?p \<mapsto> cells es (replicate (?m - length es) None)),
      list_ptr := Some ?p, list_size := ?m\<rparr>)"
    using h Nil len E by (simp add: ensure_room_def resize_cxxabi_list_def cxa_malloc_def generous_def holds_def)
  have r: "replicate (?m - length es) None = None # replicate (length es - 1) None"
    using len by (cases "length es") (auto simp: len(1) [symmetric])
  have "holds (?s\<lparr>blocks := (blocks ?s)(?p \<mapsto> cells es (None # replicate (length es - 1) None)),
      list_ptr := Some ?p, list_size := ?m\<rparr>) ?p es (None # replicate (length es - 1) None)"
    using h len by (simp add: holds_def)
  moreover have "?p \<noteq> b" using h by (auto simp: holds_def)
  ultimately show ?thesis using e [unfolded r] by fastforce
qed

lemma holds_mtx [simp]: "holds (s\<lparr>mtx := x\<rparr>) b es rest = holds s b es rest"
  by (simp add: holds_def)

definition registered_list :: "cxa \<Rightarrow> cxxabi_atexit list \<Rightarrow> bool" where
  "registered_list s es \<longleftrightarrow> \<not> mtx s \<and> (\<exists>b rest. holds s b es rest)"

lemma registered_listI: "\<not> mtx s \<Longrightarrow> holds s b es rest \<Longrightarrow> registered_list s es"
  by (auto simp: registered_list_def)

lemma register_tail:
  assumes "holds s b es (x # rest)" "length es < 2 ^ 31"
  shows "\<exists>s'. do { s4 \<leftarrow> store_entry c s; Some (0, unlock s4) } = Some (0 :: int, s') \<and> \<not> mtx s' \<and>
    holds s' b (es @ [c]) rest \<and> called s' = called s \<and> (\<forall>b'. b' \<noteq> b \<longrightarrow> blocks s' b' = blocks s b')"
  using store_next [OF assms, of c] by (auto simp: unlock_def)

lemma register_holds:
  assumes h: "holds s b es rest" "\<not> mtx s" and E: "generous E" and lim: "length es < 2 ^ 31"
  shows "\<exists>s' b' rest'. register_with_atexit E (Some c) s = Some (0, s') \<and> \<not> mtx s' \<and> holds s' b' (es @ [c]) rest' \<and>
    called s' = called s \<and> (rest = [] \<longrightarrow> b' \<noteq> b \<and> blocks s' b = blocks s b)"
proof -
  let ?s = "s\<lparr>mtx := True\<rparr>"
  have h': "holds ?s b es rest" using h by simp
  obtain s2 b2 x rest2 where rm: "ensure_room E ?s = Some (0, s2)" "holds s2 b2 es (x # rest2)" "called s2 = called s"
    "rest = [] \<longrightarrow> b2 \<noteq> b \<and> blocks s2 b = blocks s b"
    using room_made [OF h' E lim] by auto
  have "ensure_list E ?s = (0, ?s)" "ensure_atexit E s2 = (0, s2)" "registered s2 = 1"
    using h' rm(2) by (auto simp: ensure_list_def ensure_atexit_def holds_def)
  then have "register_with_atexit E (Some c) s = do { s4 \<leftarrow> store_entry c s2; Some (0, unlock s4) }"
    using rm(1) h(2) by (simp add: register_with_atexit_def lock_def)
  moreover obtain s' where "do { s4 \<leftarrow> store_entry c s2; Some (0, unlock s4) } = Some (0 :: int, s')" "\<not> mtx s'"
    "holds s' b2 (es @ [c]) rest2" "called s' = called s2" "\<forall>b'. b' \<noteq> b2 \<longrightarrow> blocks s' b' = blocks s2 b'"
    using register_tail [OF rm(2) lim, of c] by blast
  ultimately show ?thesis using rm(3,4) by (intro exI [of _ s'] exI [of _ b2] exI [of _ rest2]) auto
qed

lemma register_next:
  assumes r: "registered_list s es" and E: "generous E" and lim: "length es < 2 ^ 31"
  shows "\<exists>s'. register_with_atexit E (Some c) s = Some (0, s') \<and> registered_list s' (es @ [c]) \<and> called s' = called s"
  using r register_holds [OF _ _ E lim, of s _ _ c] by (fastforce simp: registered_list_def)

lemma register_first:
  assumes E: "generous E" and s: "initialized s = 0" "registered s = 0" "\<not> mtx s"
  shows "\<exists>s'. register_with_atexit E (Some c) s = Some (0, s') \<and> registered_list s' [c] \<and> called s' = called s"
proof -
  let ?p = "nallocs s"
  let ?s1 = "s\<lparr>mtx := True, list_nelem := 0, blocks := (blocks s)(?p \<mapsto> replicate 64 None), nallocs := ?p + 1,
    list_ptr := Some ?p, list_size := 64, initialized := 1\<rparr>"
  let ?s3 = "?s1\<lparr>natexits := natexits s + 1, registered := 1\<rparr>"
  have "ensure_list E (s\<lparr>mtx := True\<rparr>) = (0, ?s1)"
    using E s by (simp add: ensure_list_def init_cxxabi_list_def cxa_malloc_def generous_def cxa_consts)
  moreover have "ensure_room E ?s1 = Some (0, ?s1)" by (simp add: ensure_room_def)
  moreover have "ensure_atexit E ?s1 = (0, ?s3)" using E s by (simp add: ensure_atexit_def generous_def)
  moreover have "holds ?s3 ?p [] (None # replicate 63 None)"
    by (simp add: holds_def cells_def numeral_eq_Suc)
  ultimately show ?thesis
    using register_tail [of ?s3 ?p "[]" None "replicate 63 None" c] s
    by (auto simp: register_with_atexit_def lock_def registered_list_def)
qed

section \<open>The passes over the array\<close>

definition mark :: "(cxxabi_atexit \<Rightarrow> bool) \<Rightarrow> cxxabi_atexit \<Rightarrow> cxxabi_atexit" where
  "mark P e = (if P e then e\<lparr>etype := CXA_FUNC_DONE\<rparr> else e)"

definition calls :: "(cxxabi_atexit \<Rightarrow> bool) \<Rightarrow> cxxabi_atexit list \<Rightarrow> (nat \<times> nat) list" where
  "calls P es = map (\<lambda>e. (cxa_func e, cxa_arg e)) (filter P es)"

lemma calls_simps [simp]:
  "calls P [] = []" "calls P (xs @ ys) = calls P xs @ calls P ys"
  "calls P (e # es) = (if P e then (cxa_func e, cxa_arg e) # calls P es else calls P es)"
  by (simp_all add: calls_def)

definition quiet :: "handler \<Rightarrow> bool" where
  "quiet h \<longleftrightarrow> (\<forall>f a s. h f a s = Some s)"

definition in_scope :: "nat \<Rightarrow> cxxabi_atexit \<Rightarrow> bool" where
  "in_scope scope e \<longleftrightarrow> etype e = CXA_FUNC_CALLBACK \<and> dso_scope e = scope"

definition unfinished :: "cxxabi_atexit \<Rightarrow> bool" where
  "unfinished e \<longleftrightarrow> etype e = CXA_FUNC_CALLBACK"

definition of_dso :: "nat \<Rightarrow> cxxabi_atexit \<Rightarrow> bool" where
  "of_dso d e \<longleftrightarrow> etype e = CXA_FUNC_CALLBACK \<and> cxa_dso e = d"

text \<open>It is enough that the handlers still to be called leave the state alone.\<close>

definition quiet_on :: "(cxxabi_atexit \<Rightarrow> bool) \<Rightarrow> handler \<Rightarrow> cxxabi_atexit list \<Rightarrow> bool" where
  "quiet_on P h es \<longleftrightarrow> (\<forall>e\<in>set es. P e \<longrightarrow> etype e = CXA_FUNC_CALLBACK \<and> (\<forall>s. h (cxa_func e) (cxa_arg e) s = Some s))"

lemma quiet_on_nth:
  "quiet_on P h es \<Longrightarrow> i < length es \<Longrightarrow> P (es ! i) \<Longrightarrow> \<forall>s. h (cxa_func (es ! i)) (cxa_arg (es ! i)) s = Some s"
  using nth_mem by (auto simp: quiet_on_def)

lemma quiet_quiet_on:
  "quiet h \<Longrightarrow> quiet_on (in_scope sc) h es" "quiet h \<Longrightarrow> quiet_on unfinished h es" "quiet h \<Longrightarrow> quiet_on (of_dso d) h es"
  by (auto simp: quiet_def quiet_on_def in_scope_def unfinished_def of_dso_def)

lemma live_mark:
  "in_scope sc (mark P e) \<Longrightarrow> mark P e = e" "unfinished (mark P e) \<Longrightarrow> mark P e = e" "of_dso d (mark P e) \<Longrightarrow> mark P e = e"
  by (auto simp: mark_def in_scope_def unfinished_def of_dso_def cxa_consts split: if_splits)

lemma quiet_on_mark:
  assumes "\<And>e. Q (mark P e) \<Longrightarrow> mark P e = e" "quiet_on Q h es"
  shows "quiet_on Q h (es[i := mark P (es ! i)])" "quiet_on Q h (map (mark P) es)"
proof -
  show "quiet_on Q h (es[i := mark P (es ! i)])"
  proof (cases "i < length es")
    case True
    then show ?thesis using assms(2) assms(1) [of "es ! i"] nth_mem [OF True]
      by (auto simp: quiet_on_def dest!: set_update_subset_insert [THEN subsetD])
  qed (use assms(2) in \<open>simp add: list_update_beyond\<close>)
  show "quiet_on Q h (map (mark P) es)" using assms by (fastforce simp: quiet_on_def)
qed

lemmas quiet_on_marks = quiet_on_mark [OF live_mark(1)] quiet_on_mark [OF live_mark(2)] quiet_on_mark [OF live_mark(3)]

text \<open>The state after the entries at some positions have been visited.\<close>

definition visited :: "nat \<Rightarrow> cxxabi_atexit list \<Rightarrow> cxxabi_atexit option list \<Rightarrow> (nat \<times> nat) list \<Rightarrow> cxa \<Rightarrow> cxa" where
  "visited b es rest cl s = s\<lparr>blocks := (blocks s)(b \<mapsto> cells es rest), called := called s @ cl\<rparr>"

lemma visited_simps [simp]:
  "blocks (visited b es rest cl s) b = Some (cells es rest)" "mtx (visited b es rest cl s) = mtx s"
  "list_nelem (visited b es rest cl s) = list_nelem s"
  "visited b es' rest cl' (visited b es rest cl s) = visited b es' rest (cl @ cl') s"
  by (simp_all add: visited_def)

lemma visited_same: "blocks s b = Some (cells es rest) \<Longrightarrow> visited b es rest [] s = s"
  by (simp add: visited_def fun_upd_idem)

lemma mark_take_Suc:
  "i < length es \<Longrightarrow>
    map (mark P) (take i (es[i := mark P (es ! i)])) @ drop i (es[i := mark P (es ! i)]) =
    map (mark P) (take (Suc i) es) @ drop (Suc i) es"
  by (simp add: take_Suc_conv_app_nth drop_update_swap flip: Cons_nth_drop_Suc)

lemma calls_take_Suc:
  "i < length es \<Longrightarrow> calls P [es ! i] @ calls P (rev (take i (es[i := e]))) = calls P (rev (take (Suc i) es))"
  by (simp add: take_Suc_conv_app_nth)

lemma marked_invoke:
  assumes "\<forall>s. h (cxa_func (es ! i)) (cxa_arg (es ! i)) s = Some s" "blocks s b = Some (cells es rest)" "i < length es"
  shows "do { s1 \<leftarrow> write_cell s b (int i) ((es ! i)\<lparr>etype := CXA_FUNC_DONE\<rparr>); invoke h b (int i) s1 } =
    Some (visited b (es[i := (es ! i)\<lparr>etype := CXA_FUNC_DONE\<rparr>]) rest [(cxa_func (es ! i), cxa_arg (es ! i))] s)"
  using assms by (simp add: write_cells invoke_def read_cells visited_def)

lemma scope_pass_run:
  "quiet_on (in_scope sc) h (take i es) \<Longrightarrow> blocks s b = Some (cells es rest) \<Longrightarrow> i \<le> length es \<Longrightarrow>
    scope_pass h sc b i (int i - 1) s =
      Some (visited b (map (mark (in_scope sc)) (take i es) @ drop i es) rest (calls (in_scope sc) (rev (take i es))) s)"
proof (induction i arbitrary: s es)
  case 0
  then show ?case by (simp add: visited_same)
next
  case (Suc i)
  let ?e = "es ! i" and ?es = "es[i := mark (in_scope sc) (es ! i)]"
  let ?s = "visited b ?es rest (calls (in_scope sc) [?e]) s"
  have i: "i < length es" "int (Suc i) - 1 = int i" using Suc.prems by auto
  have q: "in_scope sc ?e \<Longrightarrow> \<forall>s. h (cxa_func ?e) (cxa_arg ?e) s = Some s"
    using quiet_on_nth [OF Suc.prems(1), of i] i(1) by simp
  have v: "(if etype ?e = CXA_FUNC_CALLBACK \<and> dso_scope ?e = sc
      then do { s1 \<leftarrow> write_cell s b (int i) (?e\<lparr>etype := CXA_FUNC_DONE\<rparr>); invoke h b (int i) s1 } else Some s) = Some ?s"
    using i marked_invoke [where h = h, OF q Suc.prems(2) i(1)] visited_same [OF Suc.prems(2)]
    by (simp add: in_scope_def mark_def)
  have "scope_pass h sc b i (int i - 1) ?s = Some (visited b (map (mark (in_scope sc)) (take i ?es) @ drop i ?es) rest
      (calls (in_scope sc) (rev (take i ?es))) ?s)"
    using i Suc.prems(1) by (intro Suc.IH) (auto simp: quiet_on_def take_Suc_conv_app_nth)
  then show ?case
    unfolding scope_pass.simps i(2) read_cells [OF Suc.prems(2) i(1)] Option.bind_lunit v visited_simps
      mark_take_Suc [OF i(1)] calls_take_Suc [OF i(1)] .
qed

definition known_types :: "cxxabi_atexit list \<Rightarrow> bool" where
  "known_types es \<longleftrightarrow> (\<forall>e\<in>set es. etype e = CXA_FUNC_CALLBACK \<or> etype e = CXA_FUNC_DONE)"

lemma known_types_nth: "known_types es \<Longrightarrow> i < length es \<Longrightarrow> etype (es ! i) = CXA_FUNC_CALLBACK \<or> etype (es ! i) = CXA_FUNC_DONE"
  using nth_mem by (auto simp: known_types_def)

lemma known_types_mark: "known_types es \<Longrightarrow> i < length es \<Longrightarrow> known_types (es[i := mark P (es ! i)])"
  using known_types_nth [of es i]
  by (auto simp: known_types_def mark_def dest!: set_update_subset_insert [THEN subsetD])

lemma marked_invoke_unlocked:
  assumes "\<forall>s. h (cxa_func (es ! i)) (cxa_arg (es ! i)) s = Some s" "blocks s b = Some (cells es rest)" "i < length es"
  shows "do { s1 \<leftarrow> write_cell s b (int i) ((es ! i)\<lparr>etype := CXA_FUNC_DONE\<rparr>); invoke h b (int i) (unlock s1) } =
    Some (unlock (visited b (es[i := (es ! i)\<lparr>etype := CXA_FUNC_DONE\<rparr>]) rest [(cxa_func (es ! i), cxa_arg (es ! i))] s))"
  using assms by (simp add: write_cells invoke_def read_cells visited_def unlock_def)

lemma mtx_same [simp]: "mtx s \<Longrightarrow> s\<lparr>mtx := True\<rparr> = s" "\<not> mtx s \<Longrightarrow> s\<lparr>mtx := False\<rparr> = s"
  by (cases s; simp)+

lemma lock_unlock: "mtx s \<Longrightarrow> lock (unlock s) = Some s"
  by (simp add: lock_def unlock_def)

lemma finalize_pass_run:
  "blocks s b = Some (cells es rest) \<Longrightarrow> i \<le> length es \<Longrightarrow> mtx s \<Longrightarrow> known_types es \<Longrightarrow> quiet_on unfinished h es \<Longrightarrow>
    finalize_pass h b i (int i - 1) s =
      Some (visited b (map (mark unfinished) (take i es) @ drop i es) rest (calls unfinished (rev (take i es))) s)"
proof (induction i arbitrary: s es)
  case 0
  then show ?case by (simp add: visited_same)
next
  case (Suc i)
  let ?e = "es ! i" and ?es = "es[i := mark unfinished (es ! i)]"
  let ?s = "visited b ?es rest (calls unfinished [?e]) s"
  have i: "i < length es" "int (Suc i) - 1 = int i" using Suc.prems by auto
  have ty: "etype ?e = CXA_FUNC_CALLBACK \<or> etype ?e = CXA_FUNC_DONE"
    using Suc.prems(4) i(1) by (rule known_types_nth)
  have "finalize_pass h b i (int i - 1) ?s = Some (visited b (map (mark unfinished) (take i ?es) @ drop i ?es) rest
      (calls unfinished (rev (take i ?es))) ?s)"
    using i Suc.prems(3-5) by (intro Suc.IH) (simp_all add: known_types_mark quiet_on_marks)
  then have IH: "finalize_pass h b i (int i - 1) ?s =
      Some (visited b (map (mark unfinished) (take (Suc i) es) @ drop (Suc i) es) rest (calls unfinished (rev (take (Suc i) es))) s)"
    unfolding visited_simps mark_take_Suc [OF i(1)] calls_take_Suc [OF i(1)] .
  show ?case
  proof (cases "etype ?e = CXA_FUNC_DONE")
    case True
    then have "?s = s" using visited_same [OF Suc.prems(1)] by (simp add: mark_def unfinished_def cxa_consts)
    then show ?thesis using IH True unfolding finalize_pass.simps i(2) read_cells [OF Suc.prems(1) i(1)] Option.bind_lunit by simp
  next
    case False
    then have cb: "etype ?e = CXA_FUNC_CALLBACK" using ty by simp
    have u: "unfinished ?e" using cb by (simp add: unfinished_def)
    note q = quiet_on_nth [OF Suc.prems(5) i(1) u]
    have s: "?s = visited b (es[i := ?e\<lparr>etype := CXA_FUNC_DONE\<rparr>]) rest [(cxa_func ?e, cxa_arg ?e)] s"
      using u by (simp add: mark_def)
    have step: "do { s1 \<leftarrow> write_cell s b (int i) (?e\<lparr>etype := CXA_FUNC_DONE\<rparr>); s2 \<leftarrow> invoke h b (int i) (unlock s1);
        s3 \<leftarrow> lock s2; g s3 } = g ?s" for g :: "cxa \<Rightarrow> cxa option"
    proof -
      have "do { s1 \<leftarrow> write_cell s b (int i) (?e\<lparr>etype := CXA_FUNC_DONE\<rparr>); s2 \<leftarrow> invoke h b (int i) (unlock s1);
        s3 \<leftarrow> lock s2; g s3 } =
        do { s2 \<leftarrow> do { s1 \<leftarrow> write_cell s b (int i) (?e\<lparr>etype := CXA_FUNC_DONE\<rparr>); invoke h b (int i) (unlock s1) };
          s3 \<leftarrow> lock s2; g s3 }" by simp
      also have "\<dots> = g ?s" unfolding marked_invoke_unlocked [where h = h, OF q Suc.prems(1) i(1)] s [symmetric] Option.bind_lunit
        using Suc.prems(3) by (simp add: lock_unlock)
      finally show ?thesis .
    qed
    show ?thesis
      using step [of "finalize_pass h b i (int i - 1)"] IH False cb
      unfolding finalize_pass.simps i(2) read_cells [OF Suc.prems(1) i(1)] Option.bind_lunit by simp
  qed
qed

lemma done_again: "etype e = CXA_FUNC_DONE \<Longrightarrow> e\<lparr>etype := CXA_FUNC_DONE\<rparr> = e"
  by (cases e) simp

lemma finalize_entry_run:
  assumes q: "quiet_on (of_dso d) h es" and b: "blocks s b = Some (cells es rest)" "i < length es" "\<not> mtx s"
    and ty: "etype (es ! i) = CXA_FUNC_CALLBACK \<or> etype (es ! i) = CXA_FUNC_DONE"
  shows "finalize_entry h d b i s = Some (visited b (es[i := mark (of_dso d) (es ! i)]) rest (calls (of_dso d) [es ! i]) s)"
proof -
  let ?e = "es ! i" and ?s = "s\<lparr>mtx := True\<rparr>"
  have b': "blocks ?s b = Some (cells es rest)" using b by simp
  have un: "unlock (visited b es' rest cl ?s) = visited b es' rest cl s" for es' cl
    using b(3) by (cases s) (simp add: unlock_def visited_def)
  consider "cxa_dso ?e \<noteq> d" | "cxa_dso ?e = d" "etype ?e = CXA_FUNC_DONE" | "cxa_dso ?e = d" "etype ?e = CXA_FUNC_CALLBACK"
    using ty by blast
  then show ?thesis
  proof cases
    case 1
    then show ?thesis
      using b visited_same [OF b(1)] by (simp add: finalize_entry_def read_cells mark_def of_dso_def)
  next
    case 2
    then have "write_cell ?s b (int i) (?e\<lparr>etype := CXA_FUNC_DONE\<rparr>) = Some (visited b es rest [] ?s)"
      using b write_cells [OF b' b(2), of ?e] by (simp add: done_again visited_def)
    then show ?thesis
      using b 2 un by (simp add: finalize_entry_def read_cells mark_def of_dso_def lock_def cxa_consts)
  next
    case 3
    then have o: "of_dso d ?e" by (simp add: of_dso_def)
    show ?thesis
      using 3 b marked_invoke_unlocked [where h = h, OF quiet_on_nth [OF q b(2) o] b' b(2)] un
      by (simp add: finalize_entry_def read_cells mark_def of_dso_def lock_def)
  qed
qed

lemma dso_pass_run:
  "blocks s b = Some (cells es rest) \<Longrightarrow> i < length es \<Longrightarrow> list_nelem s = length es \<Longrightarrow> length es < 2 ^ 31 \<Longrightarrow>
    \<not> mtx s \<Longrightarrow> known_types es \<Longrightarrow> quiet_on (of_dso d) h es \<Longrightarrow> dso_pass h d b i i s =
      Some (visited b (take i es @ map (mark (of_dso d)) (drop i es)) rest (calls (of_dso d) (drop i es)) s)"
proof (induction "length es - i" arbitrary: i es s)
  case 0
  then show ?case by simp
next
  case (Suc n)
  let ?es = "es[i := mark (of_dso d) (es ! i)]" and ?c = "calls (of_dso d) [es ! i]"
  let ?s = "visited b ?es rest ?c s"
  have d: "drop i es = es ! i # drop (Suc i) es" using Suc.prems by (simp add: Cons_nth_drop_Suc)
  have c: "?c @ calls (of_dso d) (drop (Suc i) es) = calls (of_dso d) (drop i es)" unfolding d by simp
  have fe: "finalize_entry h d b i s = Some ?s"
    using Suc.prems by (intro finalize_entry_run known_types_nth)
  have t: "take (Suc i) ?es = take i es @ [mark (of_dso d) (es ! i)]"
    using Suc.prems by (simp add: take_Suc_conv_app_nth)
  have u: "uint32 (i + 1) = i + 1" using Suc.prems by (simp add: uint32_id)
  have fin: "take (Suc i) ?es @ map (mark (of_dso d)) (drop (Suc i) es) = take i es @ map (mark (of_dso d)) (drop i es)"
    unfolding t d by simp
  show ?case
  proof (cases "i + 1 < length es")
    case True
    have "dso_pass h d b (Suc i) (Suc i) ?s = Some (visited b (take (Suc i) ?es @ map (mark (of_dso d)) (drop (Suc i) ?es)) rest
        (calls (of_dso d) (drop (Suc i) ?es)) ?s)"
      using Suc.prems Suc.hyps(2) True by (intro Suc.hyps(1)) (auto simp: known_types_mark quiet_on_marks)
    then have "dso_pass h d b (Suc i) (Suc i) ?s =
        Some (visited b (take i es @ map (mark (of_dso d)) (drop i es)) rest (calls (of_dso d) (drop i es)) s)"
      unfolding visited_simps drop_update_cancel [OF lessI] c fin .
    then show ?thesis using Suc.prems True fe u by (subst dso_pass.simps) simp
  next
    case False
    then have l: "drop (Suc i) es = []" "Suc i = length es" using Suc.prems by auto
    then have "?s = visited b (take i es @ map (mark (of_dso d)) (drop i es)) rest (calls (of_dso d) (drop i es)) s"
      using fin c t Suc.prems by (simp add: l)
    then show ?thesis using Suc.prems False fe u by (subst dso_pass.simps) simp
  qed
qed

end
