(* ===== verification/Cxa_Runs.thy ===== *)
theory Cxa_Runs
  imports Cxa_Finalize
begin

text \<open>
  Whole runs of the exit handlers of \<^verbatim>\<open>components/llvm-21/cxa_finalize/cxa_finalize.c\<close>: registrations from the
  start of the process followed by the callback of \<^verbatim>\<open>atexit\<close> and by finalizations. While handlers leave
  the list alone each of them runs exactly once; the last section shows what happens after an
  allocation has failed and when a handler registers another one into a full array.
\<close>

section \<open>Whole runs\<close>

lemma holds_visited:
  "holds s b es rest \<Longrightarrow> length es' = length es \<Longrightarrow> holds (visited b es' rest cl s) b es' rest"
  by (auto simp: holds_def visited_def)

lemma registered_list_visited:
  "\<not> mtx s \<Longrightarrow> holds s b es rest \<Longrightarrow> length es' = length es \<Longrightarrow> registered_list (visited b es' rest cl s) es'"
  using holds_visited [of s b es rest es' cl] by (auto simp: registered_list_def)

lemma called_visited [simp]: "called (visited b es rest cl s) = called s @ cl"
  by (simp add: visited_def)

lemma callback_run:
  assumes q: "quiet_on (in_scope DSO_SCOPE_LOCAL) h es" "quiet_on (in_scope DSO_SCOPE_GLOBAL) h es"
    and r: "registered_list s es" and lim: "length es < 2 ^ 31"
  defines "es1 \<equiv> map (mark (in_scope DSO_SCOPE_LOCAL)) es"
  shows "\<exists>s'. cxa_atexit_callback h s = Some s' \<and> registered_list s' (map (mark (in_scope DSO_SCOPE_GLOBAL)) es1) \<and>
    called s' = called s @ calls (in_scope DSO_SCOPE_LOCAL) (rev es) @ calls (in_scope DSO_SCOPE_GLOBAL) (rev es1)"
proof -
  obtain b rest where h: "holds s b es rest" and m: "\<not> mtx s" using r by (auto simp: registered_list_def)
  have b: "list_ptr s = Some b" "blocks s b = Some (cells es rest)" "list_nelem s = length es" using h by (simp_all add: holds_def)
  have t: "int_turns (length es) = length es" using lim by (simp add: int_turns_def)
  let ?s1 = "visited b es1 rest (calls (in_scope DSO_SCOPE_LOCAL) (rev es)) s"
  have p1: "scope_pass h DSO_SCOPE_LOCAL b (length es) (int (length es) - 1) s = Some ?s1"
    using scope_pass_run [of _ h "length es" es s b rest] q b by (simp add: es1_def)
  have "length es1 = length es" "quiet_on (in_scope DSO_SCOPE_GLOBAL) h es1"
    using q by (auto simp: es1_def quiet_on_marks)
  then have p2: "scope_pass h DSO_SCOPE_GLOBAL b (length es) (int (length es) - 1) ?s1 =
    Some (visited b (map (mark (in_scope DSO_SCOPE_GLOBAL)) es1) rest (calls (in_scope DSO_SCOPE_GLOBAL) (rev es1)) ?s1)"
    using scope_pass_run [of _ h "length es1" es1 ?s1 b rest] by simp
  have "cxa_atexit_callback h s =
      Some (visited b (map (mark (in_scope DSO_SCOPE_GLOBAL)) es1) rest (calls (in_scope DSO_SCOPE_GLOBAL) (rev es1)) ?s1)"
    using p1 p2 b t by (simp add: cxa_atexit_callback_def)
  then show ?thesis
    using registered_list_visited [OF m h, of "map (mark (in_scope DSO_SCOPE_GLOBAL)) es1"] by (simp add: es1_def)
qed

lemma finalize_run:
  fixes d :: nat
  assumes q: "quiet_on (if d = 0 then unfinished else of_dso d) h es" and r: "registered_list s es" and lim: "0 < length es" "length es < 2 ^ 31" and kt: "known_types es"
  defines "P \<equiv> if d = 0 then unfinished else of_dso d"
  shows "\<exists>s'. cxa_finalize h d s = Some (0, s') \<and> registered_list s' (map (mark P) es) \<and>
    called s' = called s @ calls P (if d = 0 then rev es else es)"
proof -
  obtain b rest where h: "holds s b es rest" and m: "\<not> mtx s" using r by (auto simp: registered_list_def)
  have b: "list_ptr s = Some b" "blocks s b = Some (cells es rest)" "list_nelem s = length es" "initialized s = 1"
    using h by (simp_all add: holds_def)
  have un: "unlock (s\<lparr>mtx := True\<rparr>) = s" "lock s = Some (s\<lparr>mtx := True\<rparr>)" using m by (simp_all add: unlock_def lock_def)
  have unv: "unlock (visited b es' rest cl (s\<lparr>mtx := True\<rparr>)) = visited b es' rest cl s" for es' cl
    using m by (cases s) (simp add: unlock_def visited_def)
  have "cxa_finalize h d s = Some (0, visited b (map (mark P) es) rest (calls P (if d = 0 then rev es else es)) s)"
  proof (cases "d = 0")
    case True
    have "finalize_pass h b (length es) (int (length es) - 1) (s\<lparr>mtx := True\<rparr>) =
        Some (visited b (map (mark unfinished) es) rest (calls unfinished (rev es)) (s\<lparr>mtx := True\<rparr>))"
      using finalize_pass_run [of "s\<lparr>mtx := True\<rparr>" b es rest "length es"] b kt q True by simp
    then show ?thesis using True b un unv by (simp add: cxa_finalize_def P_def)
  next
    case False
    have "dso_pass h d b 0 0 s = Some (visited b (map (mark (of_dso d)) es) rest (calls (of_dso d) es) s)"
      using dso_pass_run [of s b es rest 0 d h] b lim kt m q False by simp
    then show ?thesis using False b un by (simp add: cxa_finalize_def P_def)
  qed
  then show ?thesis using registered_list_visited [OF m h, of "map (mark P) es"] by simp
qed

lemma quiet_finalize: "quiet h \<Longrightarrow> quiet_on (if d = 0 then unfinished else of_dso d) h es"
  by (simp add: quiet_quiet_on)

type_synonym exit_entry = "nat \<times> nat \<times> nat"

fun register_all :: "cxa_system \<Rightarrow> exit_entry list \<Rightarrow> cxa \<Rightarrow> (int list \<times> cxa) option" where
  "register_all E [] s = Some ([], s)"
| "register_all E ((f, a, d) # rs) s =
     do { (r, s1) \<leftarrow> cxa_atexit E f a d s; (codes, s2) \<leftarrow> register_all E rs s1; Some (r # codes, s2) }"

definition entry_of :: "exit_entry \<Rightarrow> cxxabi_atexit" where
  "entry_of = (\<lambda>(f, a, d). cxa_entry f a d)"

definition call_of :: "exit_entry \<Rightarrow> nat \<times> nat" where
  "call_of = (\<lambda>(f, a, d). (f, a))"

definition dso_of :: "exit_entry \<Rightarrow> nat" where
  "dso_of = (\<lambda>(f, a, d). d)"

lemma register_all_next:
  "generous E \<Longrightarrow> registered_list s es \<Longrightarrow> length es + length rs < 2 ^ 31 \<Longrightarrow>
    \<exists>s'. register_all E rs s = Some (replicate (length rs) 0, s') \<and> registered_list s' (es @ map entry_of rs) \<and>
      called s' = called s"
proof (induction rs arbitrary: s es)
  case (Cons r rs)
  obtain f a d where r: "r = (f, a, d)" by (cases r)
  obtain s1 where s1: "register_with_atexit E (Some (cxa_entry f a d)) s = Some (0, s1)"
    "registered_list s1 (es @ [cxa_entry f a d])" "called s1 = called s"
    using register_next [OF Cons.prems(2,1)] Cons.prems(3) by auto
  then show ?case
    using Cons.IH [OF Cons.prems(1) s1(2)] Cons.prems(3) by (auto simp: r cxa_atexit_def entry_of_def)
qed simp

lemma register_all_start:
  assumes "generous E" "length rs < 2 ^ 31" "rs \<noteq> []"
  shows "\<exists>s. register_all E rs cxa_start = Some (replicate (length rs) 0, s) \<and> registered_list s (map entry_of rs) \<and> called s = []"
proof -
  obtain f a d rs' where r: "rs = (f, a, d) # rs'" using assms(3) by (cases rs) auto
  obtain s1 where s1: "register_with_atexit E (Some (cxa_entry f a d)) cxa_start = Some (0, s1)"
    "registered_list s1 [cxa_entry f a d]" "called s1 = []"
    using register_first [OF assms(1), of cxa_start] by (auto simp: cxa_start_def)
  then show ?thesis
    using register_all_next [OF assms(1) s1(2), of rs'] assms(2) by (auto simp: r cxa_atexit_def entry_of_def)
qed

lemma entries_calls:
  "calls (in_scope DSO_SCOPE_LOCAL) (map entry_of rs) = []"
  "calls (in_scope DSO_SCOPE_GLOBAL) (map entry_of rs) = map call_of rs"
  "calls (of_dso d) (map entry_of rs) = map call_of (filter (\<lambda>r. dso_of r = d) rs)"
  by (induction rs) (auto simp: entry_of_def cxa_entry_def call_of_def dso_of_def in_scope_def of_dso_def cxa_consts split_beta)

lemma mark_local: "map (mark (in_scope DSO_SCOPE_LOCAL)) (map (mark (of_dso d)) (map entry_of rs)) = map (mark (of_dso d)) (map entry_of rs)"
  "map (mark (in_scope DSO_SCOPE_LOCAL)) (map entry_of rs) = map entry_of rs"
  by (auto simp: mark_def entry_of_def cxa_entry_def in_scope_def cxa_consts split_beta)

lemma done_calls:
  assumes "\<forall>e\<in>set es. etype e = CXA_FUNC_DONE"
  shows "calls unfinished es = []" "calls (of_dso d) es = []" "calls unfinished (rev es) = []" "known_types es"
  using assms by (auto simp: calls_def unfinished_def of_dso_def known_types_def cxa_consts)

lemma all_marked: "e \<in> set (map (mark (in_scope DSO_SCOPE_GLOBAL)) (map entry_of rs)) \<Longrightarrow> etype e = CXA_FUNC_DONE"
  by (auto simp: mark_def entry_of_def cxa_entry_def in_scope_def cxa_consts split_beta)

text \<open>
  C7. Exit handlers run once, the last registered first, provided that the handlers return and neither
  register further handlers nor finalize anything themselves (\<open>quiet\<close>: a handler leaves the state of
  this module as it is; a handler that registers another during the run can make handlers run twice,
  see \<open>registering_handler_calls_twice\<close>): from the start of the process, any number of registrations below
  \<open>2 ^ 31\<close> succeeds when memory lasts and \<^verbatim>\<open>atexit\<close> accepts the callback, the callback run at exit calls every handler in
  reverse order of registration, and no finalization after it, of one object or of all, calls any of
  them again.
\<close>

theorem exit_handlers_once:
  assumes E: "generous E" and q: "quiet h" and rs: "rs \<noteq> []" "length rs < 2 ^ 31"
  shows "\<exists>s1 s2. register_all E rs cxa_start = Some (replicate (length rs) 0, s1) \<and>
    cxa_atexit_callback h s1 = Some s2 \<and> called s2 = rev (map call_of rs) \<and>
    (\<forall>d. \<exists>s3. cxa_finalize h d s2 = Some (0, s3) \<and> called s3 = called s2)"
proof -
  obtain s1 where s1: "register_all E rs cxa_start = Some (replicate (length rs) 0, s1)"
    "registered_list s1 (map entry_of rs)" "called s1 = []"
    using register_all_start [OF E rs(2,1)] by blast
  let ?es = "map (mark (in_scope DSO_SCOPE_GLOBAL)) (map entry_of rs)"
  have "calls P (rev (map entry_of rs)) = rev (calls P (map entry_of rs))" for P
    by (simp add: calls_def rev_map rev_filter)
  then obtain s2 where s2: "cxa_atexit_callback h s1 = Some s2" "registered_list s2 ?es"
    "called s2 = rev (map call_of rs)"
    using callback_run [OF quiet_quiet_on(1) [OF q] quiet_quiet_on(1) [OF q] s1(2)] rs(2) s1(3) unfolding mark_local by (auto simp: entries_calls)
  have dn: "\<forall>e\<in>set ?es. etype e = CXA_FUNC_DONE" using all_marked by blast
  have "\<exists>s3. cxa_finalize h d s2 = Some (0, s3) \<and> called s3 = called s2" for d
    using finalize_run [OF quiet_finalize [OF q] s2(2) _ _ done_calls(4) [OF dn], of d] rs done_calls [OF dn] by auto
  then show ?thesis using s1 s2 by blast
qed

theorem exit_handlers_once_witness:
  "\<exists>s1 s2. register_all \<lparr>malloc_ok = \<lambda>n. True, atexit_ret = \<lambda>n. 0\<rparr> [(10, 1, 7), (20, 2, 8), (10, 3, 7)] cxa_start =
      Some ([0, 0, 0], s1) \<and>
    cxa_atexit_callback (\<lambda>f a s. Some s) s1 = Some s2 \<and> called s2 = [(10, 3), (20, 2), (10, 1)] \<and>
    (\<forall>d. \<exists>s3. cxa_finalize (\<lambda>f a s. Some s) d s2 = Some (0, s3) \<and> called s3 = called s2)"
  using exit_handlers_once [of "\<lparr>malloc_ok = \<lambda>n. True, atexit_ret = \<lambda>n. 0\<rparr>" "\<lambda>f a s. Some s" "[(10, 1, 7), (20, 2, 8), (10, 3, 7)]"]
  by (simp add: generous_def quiet_def call_of_def numeral_3_eq_3 del: register_all.simps)

text \<open>
  C32. Provided that the handlers return and neither register further handlers nor finalize anything
  themselves (\<open>quiet\<close>), that memory lasts, that \<^verbatim>\<open>atexit\<close> accepts the callback and that fewer
  than \<open>2 ^ 31\<close> handlers are registered from the start of the process: finalizing one shared object calls
  exactly the handlers registered for it, in the order of their registration, and leaves the others for
  the callback at exit, which calls only those, the last registered first.
\<close>

theorem dso_finalization:
  assumes E: "generous E" and q: "quiet h" and rs: "rs \<noteq> []" "length rs < 2 ^ 31" and d: "d \<noteq> 0"
  shows "\<exists>s1 s2 s3. register_all E rs cxa_start = Some (replicate (length rs) 0, s1) \<and>
    cxa_finalize h d s1 = Some (0, s2) \<and> called s2 = map call_of (filter (\<lambda>r. dso_of r = d) rs) \<and>
    cxa_atexit_callback h s2 = Some s3 \<and>
    called s3 = called s2 @ rev (map call_of (filter (\<lambda>r. dso_of r \<noteq> d) rs))"
proof -
  obtain s1 where s1: "register_all E rs cxa_start = Some (replicate (length rs) 0, s1)"
    "registered_list s1 (map entry_of rs)" "called s1 = []"
    using register_all_start [OF E rs(2,1)] by blast
  let ?es = "map (mark (of_dso d)) (map entry_of rs)"
  have "known_types (map entry_of rs)" by (auto simp: known_types_def entry_of_def cxa_entry_def split_beta)
  then obtain s2 where s2: "cxa_finalize h d s1 = Some (0, s2)" "registered_list s2 ?es"
    "called s2 = map call_of (filter (\<lambda>r. dso_of r = d) rs)"
    using finalize_run [OF quiet_finalize [OF q] s1(2), of d] rs d s1(3) by (auto simp: entries_calls)
  have loc: "calls (in_scope DSO_SCOPE_LOCAL) (rev ?es) = []"
    by (auto simp: calls_def filter_empty_conv mark_def entry_of_def cxa_entry_def in_scope_def cxa_consts split_beta)
  have "calls (in_scope DSO_SCOPE_GLOBAL) ?es = map call_of (filter (\<lambda>r. dso_of r \<noteq> d) rs)"
    by (induction rs) (auto simp: mark_def entry_of_def cxa_entry_def call_of_def dso_of_def in_scope_def of_dso_def
      cxa_consts split_beta)
  moreover have "calls (in_scope DSO_SCOPE_GLOBAL) (rev ?es) = rev (calls (in_scope DSO_SCOPE_GLOBAL) ?es)"
    by (simp add: calls_def rev_map rev_filter)
  ultimately show ?thesis
    using callback_run [OF quiet_quiet_on(1) [OF q] quiet_quiet_on(1) [OF q] s2(2)] rs(2) loc s1(1) s2 unfolding mark_local by auto
qed

theorem dso_finalization_witness:
  "\<exists>s1 s2 s3. register_all \<lparr>malloc_ok = \<lambda>n. True, atexit_ret = \<lambda>n. 0\<rparr> [(10, 1, 7), (20, 2, 8), (10, 3, 7)] cxa_start =
      Some ([0, 0, 0], s1) \<and>
    cxa_finalize (\<lambda>f a s. Some s) 7 s1 = Some (0, s2) \<and> called s2 = [(10, 1), (10, 3)] \<and>
    cxa_atexit_callback (\<lambda>f a s. Some s) s2 = Some s3 \<and> called s3 = called s2 @ [(20, 2)]"
  using dso_finalization [of "\<lparr>malloc_ok = \<lambda>n. True, atexit_ret = \<lambda>n. 0\<rparr>" "\<lambda>f a s. Some s"
    "[(10, 1, 7), (20, 2, 8), (10, 3, 7)]" 7]
  by (simp add: generous_def quiet_def call_of_def dso_of_def numeral_3_eq_3 del: register_all.simps)

section \<open>Failed allocations and handlers that register\<close>

lemma failed_growth_overflows:
  assumes h: "holds s b es []" "\<not> mtx s" and E: "\<not> malloc_ok E (nallocs s)" "malloc_ok E (nallocs s + 1)"
  shows "\<exists>s'. register_with_atexit E (Some c) s = Some (- 1, s') \<and> register_with_atexit E (Some c') s' = None"
  using assms by (auto simp: register_with_atexit_def holds_def lock_def unlock_def ensure_list_def ensure_room_def
    resize_cxxabi_list_def cxa_malloc_def drop_list_def cxa_free_def uint32_def ensure_atexit_def store_entry_def
    write_cell_def Let_def)

lemma holds_visited_other: "b' \<noteq> b \<Longrightarrow> holds (visited b es rest cl s) b' es' rest' = holds s b' es' rest'"
  by (simp add: holds_def visited_def)

text \<open>
  The array is full and the newest handler registers another one: the loop goes on in the old array, the
  copies in the new array are never marked, and a later finalization calls all the older handlers again.
\<close>

lemma registering_handler_calls_twice:
  assumes E: "generous E" and h: "holds s b (es @ [e]) []" "\<not> mtx s" and lim: "length es < 2 ^ 31 - 2"
    and es: "\<forall>x\<in>set (es @ [e]). etype x = CXA_FUNC_CALLBACK \<and> dso_scope x = DSO_SCOPE_GLOBAL \<and> cxa_dso x = d" and d: "d \<noteq> 0"
    and old: "quiet_on unfinished hn es" and new: "\<forall>t. hn f a t = Some t"
    and re: "\<forall>t. hn (cxa_func e) (cxa_arg e) t = map_option snd (cxa_atexit E f a d t)"
  shows "\<exists>s1 s2. cxa_atexit_callback hn s = Some s1 \<and> called s1 = called s @ rev (calls unfinished (es @ [e])) \<and>
    cxa_finalize hn d s1 = Some (0, s2) \<and> called s2 = called s1 @ calls unfinished es @ [(f, a)]"
proof -
  let ?G = "in_scope DSO_SCOPE_GLOBAL" and ?n = "length es" and ?e = "e\<lparr>etype := CXA_FUNC_DONE\<rparr>"
  let ?c = "cxa_entry f a d" and ?call = "(cxa_func e, cxa_arg e)"
  have b: "list_ptr s = Some b" "blocks s b = Some (cells (es @ [e]) [])" "list_nelem s = Suc ?n"
    using h(1) by (simp_all add: holds_def)
  have turns: "int_turns (Suc ?n) = Suc ?n" using lim by (simp add: int_turns_def)
  have noloc: "x \<in> set (es @ [e]) \<Longrightarrow> \<not> in_scope DSO_SCOPE_LOCAL x" for x
    using es by (auto simp: in_scope_def cxa_consts)
  have "scope_pass hn DSO_SCOPE_LOCAL b (Suc ?n) (int (Suc ?n) - 1) s = Some (visited b
      (map (mark (in_scope DSO_SCOPE_LOCAL)) (es @ [e])) [] (calls (in_scope DSO_SCOPE_LOCAL) (rev (es @ [e]))) s)"
    using scope_pass_run [of DSO_SCOPE_LOCAL hn "Suc ?n" "es @ [e]" s b "[]"] b noloc by (simp add: quiet_on_def)
  moreover have "map (mark (in_scope DSO_SCOPE_LOCAL)) (es @ [e]) = es @ [e]" "calls (in_scope DSO_SCOPE_LOCAL) (rev (es @ [e])) = []"
    using noloc by (auto simp: mark_def calls_def filter_empty_conv intro!: map_idI)
  ultimately have p1: "scope_pass hn DSO_SCOPE_LOCAL b (Suc ?n) (int ?n) s = Some s"
    by (simp add: visited_same [OF b(2)])
  let ?t = "visited b (es @ [?e]) [] [?call] s"
  obtain t1 b1 r1 where t1: "register_with_atexit E (Some ?c) ?t = Some (0, t1)" "\<not> mtx t1" "holds t1 b1 ((es @ [?e]) @ [?c]) r1"
    "called t1 = called ?t" "b1 \<noteq> b" "blocks t1 b = blocks ?t b"
    using register_holds [OF holds_visited [OF h(1)] _ E, of "es @ [?e]" "[?call]" ?c] h(2) lim by auto
  have inv: "do { s1 \<leftarrow> write_cell s b (int ?n) ?e; invoke hn b (int ?n) s1 } = Some t1"
    using b t1(1) re write_cells [OF b(2), of ?n ?e]
    by (simp add: invoke_def read_cells [where es = "es @ [?e]"] list_update_append cxa_atexit_def visited_def)
  let ?s1 = "visited b (map (mark ?G) es @ [?e]) [] (calls ?G (rev es)) t1"
  have qG: "quiet_on ?G hn es" using old es by (auto simp: quiet_on_def in_scope_def unfinished_def)
  have rest: "scope_pass hn DSO_SCOPE_GLOBAL b ?n (int ?n - 1) t1 = Some ?s1"
    using scope_pass_run [of DSO_SCOPE_GLOBAL hn ?n "es @ [?e]" t1 b "[]"] qG t1(6) by simp
  have p2: "scope_pass hn DSO_SCOPE_GLOBAL b (Suc ?n) (int ?n) s = Some ?s1"
    using rest inv es read_cells [OF b(2), of ?n] by (simp add: in_scope_def)
  have cb: "cxa_atexit_callback hn s = Some ?s1"
    using p1 p2 b turns by (simp add: cxa_atexit_callback_def Let_def del: scope_pass.simps)
  have GU: "calls ?G xs = calls unfinished xs" if "set xs \<subseteq> set es" for xs
    using that es by (auto simp: calls_def in_scope_def unfinished_def intro!: arg_cong [where f = "map _"] filter_cong)
  have rl: "registered_list ?s1 ((es @ [?e]) @ [?c])"
    using t1(2) by (intro registered_listI [OF _ holds_visited_other [OF t1(5), THEN iffD2, OF t1(3)]]) simp
  have qd: "quiet_on (of_dso d) hn ((es @ [?e]) @ [?c])"
    using old new es by (auto simp: quiet_on_def of_dso_def unfinished_def cxa_entry_def cxa_consts)
  have kt: "known_types ((es @ [?e]) @ [?c])" using es by (auto simp: known_types_def cxa_entry_def)
  obtain s2 where s2: "cxa_finalize hn d ?s1 = Some (0, s2)" "called s2 = called ?s1 @ calls (of_dso d) ((es @ [?e]) @ [?c])"
    using finalize_run [OF _ rl, of d hn] qd kt lim d by auto
  have "calls (of_dso d) ((es @ [?e]) @ [?c]) = calls unfinished es @ [(f, a)]"
    using es by (auto simp: calls_def of_dso_def unfinished_def cxa_entry_def cxa_consts intro!: arg_cong [where f = "map _"] filter_cong)
  moreover have "called ?s1 = called s @ rev (calls unfinished (es @ [e]))"
    using t1(4) es GU [of "rev es"] by (simp add: unfinished_def) (simp add: calls_def rev_map rev_filter)
  ultimately show ?thesis using cb s2 by auto
qed

end
