(* ===== verification/Fbc_Names.thy ===== *)
theory Fbc_Names
  imports Main "HOL-Library.List_Lexorder"
begin

text \<open>
  Names in the configuration of frame buffers (\<^verbatim>\<open>components/x11/app/gfx-utils/sun-src/fbconf_xorg\<close>): the look-up
  of command-line keywords (\<^verbatim>\<open>fbc/fbc_keywds.c\<close>), the comparison of names in a configuration file
  (\<^verbatim>\<open>xf86/scan.c\<close>) and of names of video modes (\<^verbatim>\<open>fbc/fbc_res.c\<close>). Strings are lists of characters without a null
  character, the C library functions are those of the C locale, and \<^verbatim>\<open>char\<close> is signed.
\<close>

section \<open>Characters and strings of C\<close>

definition cval :: "char \<Rightarrow> int" where
  "cval c = (let n = of_char c in if n < 128 then n else n - 256)"

definition lower :: "int \<Rightarrow> int" where
  "lower n = (if 65 \<le> n \<and> n \<le> 90 then n + 32 else n)"

definition upper :: "int \<Rightarrow> int" where
  "upper n = (if 97 \<le> n \<and> n \<le> 122 then n - 32 else n)"

definition isdigit :: "char \<Rightarrow> bool" where
  "isdigit c \<longleftrightarrow> 48 \<le> cval c \<and> cval c \<le> 57"

definition ispunct :: "char \<Rightarrow> bool" where
  "ispunct c \<longleftrightarrow> (let n = cval c in 33 \<le> n \<and> n \<le> 47 \<or> 58 \<le> n \<and> n \<le> 64 \<or> 91 \<le> n \<and> n \<le> 96 \<or> 123 \<le> n \<and> n \<le> 126)"

abbreviation low :: "char \<Rightarrow> int" where
  "low c \<equiv> lower (cval c)"

text \<open>The first difference between two strings, in lower case, the end counting as a null character.\<close>

fun strcasecmp :: "string \<Rightarrow> string \<Rightarrow> int" where
  "strcasecmp [] [] = 0"
| "strcasecmp [] (d # ds) = 0 - low d"
| "strcasecmp (c # cs) [] = low c"
| "strcasecmp (c # cs) (d # ds) = (if low c = low d then strcasecmp cs ds else low c - low d)"

definition strncasecmp :: "string \<Rightarrow> string \<Rightarrow> nat \<Rightarrow> int" where
  "strncasecmp s t n = strcasecmp (take n s) (take n t)"

fun strrchr :: "string \<Rightarrow> char \<Rightarrow> string option" where
  "strrchr [] c = None"
| "strrchr (d # ds) c =
     (case strrchr ds c of Some r \<Rightarrow> Some r | None \<Rightarrow> if d = c then Some (d # ds) else None)"

definition c_string :: "string \<Rightarrow> bool" where
  "c_string s \<longleftrightarrow> (\<forall>c\<in>set s. c \<noteq> CHR 0x00)"

text \<open>A call returns, exits the program, or does what C does not define: reads through a null pointer, writes past a buffer.\<close>

datatype 'a fbc_run = Returned 'a | Exited | Undefined

definition run_bind :: "'a fbc_run \<Rightarrow> ('a \<Rightarrow> 'b fbc_run) \<Rightarrow> 'b fbc_run" where
  "run_bind r f = (case r of Returned x \<Rightarrow> f x | Exited \<Rightarrow> Exited | Undefined \<Rightarrow> Undefined)"

definition defined :: "'a option \<Rightarrow> 'a fbc_run" where
  "defined r = (case r of None \<Rightarrow> Undefined | Some x \<Rightarrow> Returned x)"

lemma run_bind_simps [simp]:
  "run_bind (Returned x) f = f x" "run_bind Exited f = Exited" "run_bind Undefined f = Undefined"
  by (simp_all add: run_bind_def)

lemma defined_simps [simp]: "defined None = Undefined" "defined (Some x) = Returned x"
  by (simp_all add: defined_def)

lemma run_bind_Returned: "run_bind r f = Returned y \<longleftrightarrow> (\<exists>x. r = Returned x \<and> f x = Returned y)"
  by (cases r) simp_all

lemma defined_Returned: "defined r = Returned y \<longleftrightarrow> r = Some y"
  by (cases r) simp_all

lemma find_append: "find P (xs @ ys) = (case find P xs of None \<Rightarrow> find P ys | Some x \<Rightarrow> Some x)"
  by (induction xs) auto

section \<open>Keywords\<close>

datatype fbc_error =
  FBC_SUCCESS | FBC_ERR_NOMEM | FBC_ERR_PATH_LEN | FBC_ERR_NAME_LEN | FBC_ERR_READLINK | FBC_ERR_STAT | FBC_ERR_OPEN
| FBC_ERR_IOCTL | FBC_ERR_SEEK | FBC_ERR_READ | FBC_ERR_ACCESS | FBC_ERR_RENAME | FBC_ERR_KWD_INVALID
| FBC_ERR_KWD_AMBIGUOUS | FBC_ERR_OPT_CONFLICT | FBC_ERR_GAMMA_VALUE | FBC_ERR_GAMMA_COUNT | FBC_ERR_GAMMA_PACK
| FBC_ERR_GENERAL

definition keywd_matches :: "string \<Rightarrow> string \<Rightarrow> bool" where
  "keywd_matches keywd entry \<longleftrightarrow> length keywd \<le> length entry \<and> strncasecmp keywd entry (length keywd) = 0"

text \<open>A table is the list of its keywords; the entry found is given by its position.\<close>

fun keywd_loop :: "string list \<Rightarrow> nat \<Rightarrow> string \<Rightarrow> fbc_error \<Rightarrow> nat option \<Rightarrow> fbc_error \<times> nat option" where
  "keywd_loop [] i keywd error_code match_ent = (error_code, match_ent)"
| "keywd_loop (entry # table) i keywd error_code match_ent =
     (if keywd_matches keywd entry
      then (let code = (if match_ent \<noteq> None then FBC_ERR_KWD_AMBIGUOUS else FBC_SUCCESS)
            in if length keywd = length entry then (FBC_SUCCESS, Some i)
               else keywd_loop table (i + 1) keywd code (Some i))
      else keywd_loop table (i + 1) keywd error_code match_ent)"

definition fbc_search_keywds :: "string list \<Rightarrow> string \<Rightarrow> fbc_error \<times> nat option" where
  "fbc_search_keywds keywd_table keywd = keywd_loop keywd_table 0 keywd FBC_ERR_KWD_INVALID None"

definition fbc_print_matching_keywds :: "string list \<Rightarrow> string \<Rightarrow> string list" where
  "fbc_print_matching_keywds keywd_table keywd = filter (keywd_matches keywd) keywd_table"

section \<open>Names in configuration files\<close>

definition separator :: "char \<Rightarrow> bool" where
  "separator c \<longleftrightarrow> c = CHR ''_'' \<or> c = CHR '' '' \<or> c = CHR 0x09"

text \<open>The result of the comparison and, where the second name is a prefix of the first, what is left of that.\<close>

function name_loop :: "string \<Rightarrow> string \<Rightarrow> int \<times> string option" where
  "name_loop s1 s2 =
     (let r1 = dropWhile separator s1; r2 = dropWhile separator s2
      in case r2 of
           [] \<Rightarrow> (0, Some r1)
         | d # ds \<Rightarrow>
             (case r1 of
                [] \<Rightarrow> (0 - low d, None)
              | c # cs \<Rightarrow> if low c = low d then name_loop cs ds else (low c - low d, None)))"
  by pat_completeness auto
termination
  by (relation "measure (\<lambda>(s1, s2). length s2)") (auto dest!: arg_cong [where f = length] split: list.splits,
    metis Suc_le_lessD length_dropWhile_le)

declare name_loop.simps [simp del]

definition xf86nameCompareResumable :: "string option \<Rightarrow> string option \<Rightarrow> int \<times> string option" where
  "xf86nameCompareResumable s1 s2 =
     (case s1 of
        None \<Rightarrow> (case s2 of None \<Rightarrow> (0, None) | Some b \<Rightarrow> (- 1, None))
      | Some a \<Rightarrow> (case s2 of None \<Rightarrow> (1, None) | Some b \<Rightarrow> name_loop a b))"

text \<open>When both names are null pointers the code reads through a null pointer.\<close>

definition xf86nameCompare :: "string option \<Rightarrow> string option \<Rightarrow> int option" where
  "xf86nameCompare s1 s2 =
     (let (result, s1resume) = xf86nameCompareResumable s1 s2
      in if result = 0
         then (case s1resume of None \<Rightarrow> None | Some [] \<Rightarrow> Some 0 | Some (c # cs) \<Rightarrow> Some (cval c))
         else Some result)"

text \<open>Options: a known Boolean option may be negated by a prefix "No".\<close>

fun bool_loop :: "string list \<Rightarrow> int \<Rightarrow> string \<Rightarrow> int" where
  "bool_loop [] i opt_name = - 1"
| "bool_loop (name # names) i opt_name =
     (if xf86nameCompare (Some name) (Some opt_name) = Some 0 then i
      else
        (let rest = (case snd (xf86nameCompareResumable (Some opt_name) (Some ''No'')) of None \<Rightarrow> opt_name | Some r \<Rightarrow> r)
         in if xf86nameCompare (Some name) (Some rest) = Some 0 then i else bool_loop names (i + 1) opt_name))"

definition xf86lookupBoolOption :: "string list \<Rightarrow> string \<Rightarrow> int" where
  "xf86lookupBoolOption bool_option_names opt_name = bool_loop bool_option_names 0 opt_name"

definition xf86optionNameCompare :: "string list \<Rightarrow> string \<Rightarrow> string \<Rightarrow> int option" where
  "xf86optionNameCompare bool_option_names s1 s2 =
     (let i = xf86lookupBoolOption bool_option_names s1
      in if i \<noteq> - 1 \<and> i = xf86lookupBoolOption bool_option_names s2 then Some 0
         else xf86nameCompare (Some s1) (Some s2))"

section \<open>Names of video modes\<close>

text \<open>The name is scanned with the character before the current position, a punctuation mark to begin with.\<close>

fun attr_scan :: "char \<Rightarrow> string \<Rightarrow> string \<Rightarrow> bool" where
  "attr_scan prev_char resname attr =
     (if length resname < length attr then False
      else if ispunct prev_char \<and> (case drop (length attr) resname of [] \<Rightarrow> True | c # cs \<Rightarrow> ispunct c) \<and>
        strncasecmp resname attr (length attr) = 0 then True
      else (case resname of [] \<Rightarrow> False | c # cs \<Rightarrow> attr_scan c cs attr))"

declare attr_scan.simps [simp del]

definition fbc_resname_attr_str :: "string \<Rightarrow> string \<Rightarrow> bool" where
  "fbc_resname_attr_str resname attr = attr_scan (CHR ''_'') resname attr"

definition fbc_resname_attr_chr :: "string \<Rightarrow> char \<Rightarrow> bool" where
  "fbc_resname_attr_chr resname attr \<longleftrightarrow> resname \<noteq> [] \<and> upper (cval (last resname)) = cval attr"

definition fbc_resname_stereo :: "string \<Rightarrow> bool" where
  "fbc_resname_stereo resname \<longleftrightarrow> fbc_resname_attr_str resname ''STEREO'' \<or> fbc_resname_attr_chr resname (CHR ''S'')"

definition fbc_resname_digital :: "string \<Rightarrow> bool" where
  "fbc_resname_digital resname \<longleftrightarrow> fbc_resname_attr_str resname ''DIG''"

definition fbc_resname_cmp :: "string \<Rightarrow> string \<Rightarrow> int" where
  "fbc_resname_cmp full_resname resname =
     (if strcasecmp full_resname resname = 0 then 0
      else if resname \<noteq> [] \<and> isdigit (hd resname)
      then (case strrchr full_resname (CHR ''_'') of
              Some r \<Rightarrow> strcasecmp (tl r) resname
            | None \<Rightarrow> 1)
      else 1)"

section \<open>Equality up to case\<close>

lemma cval_0: "cval c = 0 \<longleftrightarrow> c = CHR 0x00"
proof -
  have "of_char c < (256 :: int)" using pos_mod_bound [of "256 :: int" "of_char c"] by simp
  then have "cval c = 0 \<longleftrightarrow> of_char c = (of_char (CHR 0x00) :: int)" by (auto simp: cval_def Let_def)
  then show ?thesis by (simp only: of_char_eq_iff)
qed

lemma low_sign: "low c = 0 \<longleftrightarrow> cval c = 0" "0 < low c \<longleftrightarrow> 0 < cval c"
  by (auto simp: lower_def)

lemma strcasecmp_0: "c_string s \<Longrightarrow> c_string t \<Longrightarrow> strcasecmp s t = 0 \<longleftrightarrow> map low s = map low t"
  by (induction s t rule: strcasecmp.induct) (auto simp: c_string_def low_sign cval_0)

lemma c_string_simps [simp]:
  "c_string []" "c_string (c # s) \<longleftrightarrow> c \<noteq> CHR 0x00 \<and> c_string s" "c_string (s @ t) \<longleftrightarrow> c_string s \<and> c_string t"
  by (auto simp: c_string_def)

lemma c_string_take_drop [simp]: "c_string s \<Longrightarrow> c_string (take n s)" "c_string s \<Longrightarrow> c_string (drop n s)"
  by (auto simp: c_string_def dest: in_set_takeD in_set_dropD)

lemma keywd_matches_prefix:
  assumes "c_string k" "c_string e"
  shows "keywd_matches k e \<longleftrightarrow> (\<exists>r. map low e = map low k @ r)"
proof -
  have "keywd_matches k e \<longleftrightarrow> length k \<le> length e \<and> map low k = map low (take (length k) e)"
    using assms by (simp add: keywd_matches_def strncasecmp_def strcasecmp_0)
  also have "\<dots> \<longleftrightarrow> (\<exists>r. map low e = map low k @ r)"
  proof
    assume "length k \<le> length e \<and> map low k = map low (take (length k) e)"
    then show "\<exists>r. map low e = map low k @ r" by (metis append_take_drop_id map_append)
  next
    assume "\<exists>r. map low e = map low k @ r"
    then obtain r where r: "map low e = map low k @ r" by blast
    then have "length (map low e) = length (map low k @ r)" by simp
    then show "length k \<le> length e \<and> map low k = map low (take (length k) e)"
      using arg_cong [OF r, of "take (length k)"] by (simp add: take_map)
  qed
  finally show ?thesis .
qed

section \<open>Keyword look-up\<close>

text \<open>The positions of the entries of a table that satisfy a predicate.\<close>

definition positions :: "('a \<Rightarrow> bool) \<Rightarrow> 'a list \<Rightarrow> nat list" where
  "positions P xs = filter (\<lambda>i. P (xs ! i)) [0 ..< length xs]"

lemma positions_Nil [simp]: "positions P [] = []"
  by (simp add: positions_def)

lemma positions_Cons [simp]: "positions P (x # xs) = (if P x then [0] else []) @ map Suc (positions P xs)"
  by (simp add: positions_def upt_rec [of 0] map_Suc_upt [symmetric] filter_map comp_def del: upt_Suc)

definition keywd_equal :: "string \<Rightarrow> string \<Rightarrow> bool" where
  "keywd_equal keywd entry \<longleftrightarrow> map low keywd = map low entry"

lemma keywd_exact:
  assumes "c_string k" "c_string e"
  shows "keywd_equal k e \<longleftrightarrow> keywd_matches k e \<and> length k = length e"
  using assms by (auto simp: keywd_equal_def keywd_matches_prefix dest: map_eq_imp_length_eq)
    (metis append_Nil2 append_eq_append_conv length_map)

text \<open>What a look-up should answer, from the entries that match and those that are equal.\<close>

definition keywd_answer :: "nat list \<Rightarrow> nat list \<Rightarrow> fbc_error \<times> nat option" where
  "keywd_answer exact partly =
     (case exact of
        i # is \<Rightarrow> (FBC_SUCCESS, Some i)
      | [] \<Rightarrow> (case partly of
                [] \<Rightarrow> (FBC_ERR_KWD_INVALID, None)
              | [i] \<Rightarrow> (FBC_SUCCESS, Some i)
              | i # j # js \<Rightarrow> (FBC_ERR_KWD_AMBIGUOUS, Some (last (j # js)))))"

lemma keywd_loop_answer:
  assumes "c_string k" "\<forall>e\<in>set table. c_string e"
    and "(code, found) = keywd_answer [] before"
  shows "keywd_loop table i k code found =
    keywd_answer (map ((+) i) (positions (keywd_equal k) table)) (before @ map ((+) i) (positions (keywd_matches k) table))"
  using assms(2,3)
proof (induction table arbitrary: i code found before)
  case Nil
  then show ?case by simp
next
  case (Cons e table)
  have sh: "map ((+) i) (map Suc ps) = map ((+) (i + 1)) ps" for ps by simp
  have ce: "c_string e" using Cons.prems(1) by simp
  show ?case
  proof (cases "keywd_matches k e")
    case False
    then have "\<not> keywd_equal k e" using keywd_exact [OF assms(1) ce] by simp
    then show ?thesis using False Cons.IH [of code found before "i + 1"] Cons.prems by (simp add: comp_def)
  next
    case True
    show ?thesis
    proof (cases "length k = length e")
      case eq: True
      then have "keywd_equal k e" using True keywd_exact [OF assms(1) ce] by simp
      then show ?thesis using True eq by (simp add: keywd_answer_def)
    next
      case ne: False
      then have nk: "\<not> keywd_equal k e" using keywd_exact [OF assms(1) ce] by simp
      have "((if found \<noteq> None then FBC_ERR_KWD_AMBIGUOUS else FBC_SUCCESS), Some i) = keywd_answer [] (before @ [i])"
        using Cons.prems(2) by (auto simp: keywd_answer_def split: list.splits)
      then show ?thesis using True ne nk Cons.prems(1) Cons.IH [of _ "Some i" "before @ [i]" "i + 1"]
        by (simp add: comp_def)
    qed
  qed
qed

text \<open>
  Looking a keyword up finds the first entry of the table that equals it up to case; failing that, the
  only entry of which it is an abbreviation. The keyword is reported as ambiguous exactly when it
  abbreviates several entries and equals none, and as invalid exactly when it abbreviates none; the entries
  listed to the user are the ones it abbreviates.
\<close>

theorem keyword_lookup:
  assumes "c_string keywd" "\<forall>entry\<in>set table. c_string entry"
  shows "fbc_search_keywds table keywd =
      keywd_answer (positions (\<lambda>entry. map low keywd = map low entry) table)
        (positions (\<lambda>entry. \<exists>r. map low entry = map low keywd @ r) table) \<and>
    set (fbc_print_matching_keywds table keywd) = {entry \<in> set table. \<exists>r. map low entry = map low keywd @ r}"
proof
  have eq: "positions (keywd_matches keywd) table = positions (\<lambda>entry. \<exists>r. map low entry = map low keywd @ r) table"
    using assms keywd_matches_prefix [OF assms(1)] by (auto simp: positions_def intro!: filter_cong)
  have ex: "positions (keywd_equal keywd) table = positions (\<lambda>entry. map low keywd = map low entry) table"
    by (simp add: keywd_equal_def [abs_def])
  have id: "map ((+) 0) ps = ps" for ps :: "nat list" by (induction ps) auto
  have "(FBC_ERR_KWD_INVALID, None) = keywd_answer [] []" by (simp add: keywd_answer_def)
  from keywd_loop_answer [OF assms this, of 0]
  show "fbc_search_keywds table keywd =
      keywd_answer (positions (\<lambda>entry. map low keywd = map low entry) table)
        (positions (\<lambda>entry. \<exists>r. map low entry = map low keywd @ r) table)"
    unfolding fbc_search_keywds_def eq ex id by simp
  show "set (fbc_print_matching_keywds table keywd) = {entry \<in> set table. \<exists>r. map low entry = map low keywd @ r}"
    using assms keywd_matches_prefix [OF assms(1)] by (auto simp: fbc_print_matching_keywds_def)
qed

theorem keyword_lookup_witness:
  "fbc_search_keywds [''defaults'', ''depth'', ''dev'', ''device''] ''De'' = (FBC_ERR_KWD_AMBIGUOUS, Some 3) \<and>
   fbc_search_keywds [''defaults'', ''depth'', ''dev'', ''device''] ''DEV'' = (FBC_SUCCESS, Some 2) \<and>
   fbc_search_keywds [''defaults'', ''depth'', ''dev'', ''device''] ''dep'' =
     keywd_answer (positions (\<lambda>entry. map low ''dep'' = map low entry) [''defaults'', ''depth'', ''dev'', ''device''])
       (positions (\<lambda>entry. \<exists>r. map low entry = map low ''dep'' @ r) [''defaults'', ''depth'', ''dev'', ''device''])"
proof -
  let ?t = "[''defaults'', ''depth'', ''dev'', ''device'']"
  have "c_string ''dep''" "\<forall>entry\<in>set ?t. c_string entry" by simp_all
  from keyword_lookup [OF this]
  have "fbc_search_keywds ?t ''dep'' =
      keywd_answer (positions (\<lambda>entry. map low ''dep'' = map low entry) ?t)
        (positions (\<lambda>entry. \<exists>r. map low entry = map low ''dep'' @ r) ?t)" by blast
  moreover have "fbc_search_keywds ?t ''De'' = (FBC_ERR_KWD_AMBIGUOUS, Some 3)" by code_simp
  moreover have "fbc_search_keywds ?t ''DEV'' = (FBC_SUCCESS, Some 2)" by code_simp
  ultimately show ?thesis by blast
qed

section \<open>The order of names\<close>

text \<open>A name without separators and case, closed by a null character.\<close>

definition norm_name :: "string \<Rightarrow> int list" where
  "norm_name s = map low (filter (\<lambda>c. \<not> separator c) s) @ [0]"

lemma norm_dropWhile: "norm_name (dropWhile separator s) = norm_name s"
  by (induction s) (auto simp: norm_name_def)

lemma norm_Cons: "\<not> separator c \<Longrightarrow> norm_name (c # s) = low c # norm_name s"
  by (simp add: norm_name_def)

lemma dropWhile_head: "dropWhile P xs = y # ys \<Longrightarrow> \<not> P y"
  by (metis hd_dropWhile list.sel(1) list.distinct(1))

lemma c_string_dropWhile: "c_string s \<Longrightarrow> c_string (dropWhile P s)"
  by (auto simp: c_string_def dest: set_dropWhileD)

text \<open>The sign of a comparison agrees with an order on two lists.\<close>

definition agrees :: "int \<Rightarrow> int list \<Rightarrow> int list \<Rightarrow> bool" where
  "agrees r xs ys \<longleftrightarrow> (r < 0 \<longleftrightarrow> xs < ys) \<and> (r = 0 \<longleftrightarrow> xs = ys)"

definition name_order :: "string \<Rightarrow> string \<Rightarrow> int" where
  "name_order s t =
     (case name_loop s t of
        (r, Some []) \<Rightarrow> r
      | (r, Some (c # cs)) \<Rightarrow> if r = 0 then cval c else r
      | (r, None) \<Rightarrow> r)"

lemma name_loop_0: "c_string s \<Longrightarrow> c_string t \<Longrightarrow> name_loop s t = (r, None) \<Longrightarrow> r \<noteq> 0"
proof (induction s t arbitrary: r rule: name_loop.induct)
  case (1 s1 s2)
  have cs: "c_string (dropWhile separator s1)" "c_string (dropWhile separator s2)"
    using "1.prems"(1,2) by (simp_all add: c_string_dropWhile)
  show ?case
    using "1.prems"(3) cs "1.IH" [OF refl refl]
    by (subst (asm) name_loop.simps) (auto simp: Let_def low_sign cval_0 split: list.splits if_splits)
qed

lemma nameCompare_order: "c_string s \<Longrightarrow> c_string t \<Longrightarrow> xf86nameCompare (Some s) (Some t) = Some (name_order s t)"
  using name_loop_0 [of s t]
  by (auto simp: xf86nameCompare_def xf86nameCompareResumable_def name_order_def split: option.splits list.splits prod.splits)

lemma name_order_agrees: "c_string s \<Longrightarrow> c_string t \<Longrightarrow> agrees (name_order s t) (norm_name s) (norm_name t)"
proof (induction s t rule: name_loop.induct)
  case (1 s t)
  let ?s = "dropWhile separator s" and ?t = "dropWhile separator t"
  have cs: "c_string ?s" "c_string ?t" using "1.prems" by (simp_all add: c_string_dropWhile)
  have n: "norm_name s = norm_name ?s" "norm_name t = norm_name ?t" by (simp_all add: norm_dropWhile)
  show ?case
  proof (cases ?t)
    case t: Nil
    show ?thesis
    proof (cases ?s)
      case Nil
      then have "name_order s t = 0"
        using t by (simp add: name_order_def name_loop.simps [of s t] del: dropWhile_eq_Nil_conv)
      then show ?thesis unfolding n Nil t by (simp add: agrees_def)
    next
      case (Cons c cs')
      then have "\<not> separator c" "c \<noteq> CHR 0x00" using cs by (auto dest: dropWhile_head)
      moreover have "name_order s t = cval c"
        using t Cons by (simp add: name_order_def name_loop.simps [of s t] del: dropWhile_eq_Nil_conv)
      moreover have "cval c < 0 \<longleftrightarrow> low c < 0" by (auto simp: lower_def)
      ultimately show ?thesis unfolding n Cons t
        by (auto simp: agrees_def norm_Cons low_sign cval_0 norm_name_def)
    qed
  next
    case t: (Cons d ds)
    then have d: "\<not> separator d" "d \<noteq> CHR 0x00" using cs by (auto dest: dropWhile_head)
    show ?thesis
    proof (cases ?s)
      case Nil
      then have "name_order s t = 0 - low d"
        using t by (simp add: name_order_def name_loop.simps [of s t] del: dropWhile_eq_Nil_conv)
      then show ?thesis using d unfolding n Nil t
        by (auto simp: agrees_def norm_Cons low_sign cval_0 norm_name_def)
    next
      case (Cons c cs')
      then have c: "\<not> separator c" using cs by (auto dest: dropWhile_head)
      show ?thesis
      proof (cases "low c = low d")
        case True
        then have "name_order s t = name_order cs' ds"
          using t Cons by (simp add: name_order_def name_loop.simps [of s t])
        then show ?thesis
          using "1.IH" [OF refl refl t Cons True] cs t Cons True c d unfolding n by (simp add: agrees_def norm_Cons)
      next
        case False
        then have "name_order s t = low c - low d"
          using t Cons by (simp add: name_order_def name_loop.simps [of s t])
        then show ?thesis using t Cons False c d unfolding n by (auto simp: agrees_def norm_Cons)
      qed
    qed
  qed
qed

section \<open>Attributes and abbreviations of video modes\<close>

definition attr_here :: "char \<Rightarrow> string \<Rightarrow> string \<Rightarrow> bool" where
  "attr_here prev s attr \<longleftrightarrow> length attr \<le> length s \<and> ispunct prev \<and>
     (case drop (length attr) s of [] \<Rightarrow> True | d # ds \<Rightarrow> ispunct d) \<and> strncasecmp s attr (length attr) = 0"

lemma attr_here_iff:
  assumes "c_string attr" "c_string s"
  shows "attr_here prev s attr \<longleftrightarrow>
    (\<exists>m b. s = m @ b \<and> map low m = map low attr \<and> ispunct prev \<and> (b = [] \<or> ispunct (hd b)))"
proof
  assume h: "attr_here prev s attr"
  then have "map low (take (length attr) s) = map low attr"
    using assms strcasecmp_0 [of "take (length attr) s" attr] by (simp add: attr_here_def strncasecmp_def)
  moreover have "drop (length attr) s = [] \<or> ispunct (hd (drop (length attr) s))"
    using h unfolding attr_here_def by (cases "drop (length attr) s") simp_all
  ultimately show "\<exists>m b. s = m @ b \<and> map low m = map low attr \<and> ispunct prev \<and> (b = [] \<or> ispunct (hd b))"
    using h append_take_drop_id [of "length attr" s] unfolding attr_here_def by metis
next
  assume "\<exists>m b. s = m @ b \<and> map low m = map low attr \<and> ispunct prev \<and> (b = [] \<or> ispunct (hd b))"
  then obtain m b where m: "s = m @ b" "map low m = map low attr" "ispunct prev" "b = [] \<or> ispunct (hd b)" by blast
  then have "length m = length attr" "c_string m" using assms(2) by (auto dest: map_eq_imp_length_eq)
  then show "attr_here prev s attr"
    using m assms by (auto simp: attr_here_def strncasecmp_def strcasecmp_0 split: list.splits)
qed

lemma infix_Cons:
  "(\<exists>a m b. c # cs = a @ m @ b \<and> P m \<and> Q (last (p # a)) \<and> R b) \<longleftrightarrow>
    (\<exists>m b. c # cs = m @ b \<and> P m \<and> Q p \<and> R b) \<or> (\<exists>a m b. cs = a @ m @ b \<and> P m \<and> Q (last (c # a)) \<and> R b)"
  (is "?all \<longleftrightarrow> ?now \<or> ?later")
proof
  assume ?all
  then obtain a m b where a: "c # cs = a @ m @ b" "P m" "Q (last (p # a))" "R b" by blast
  show "?now \<or> ?later"
  proof (cases a)
    case Nil
    then show ?thesis using a by auto
  next
    case (Cons x a')
    then have "cs = a' @ m @ b \<and> P m \<and> Q (last (c # a')) \<and> R b" using a by auto
    then show ?thesis by blast
  qed
next
  assume "?now \<or> ?later"
  then show ?all
  proof
    assume ?now
    then show ?all by (metis append_Nil last.simps)
  next
    assume ?later
    then obtain a m b where "cs = a @ m @ b" "P m" "Q (last (c # a))" "R b" by blast
    then show ?all by (intro exI [of _ "c # a"] exI [of _ m] exI [of _ b]) simp
  qed
qed

lemma attr_scan_iff:
  assumes "c_string attr"
  shows "c_string s \<Longrightarrow> attr_scan prev s attr \<longleftrightarrow> (\<exists>a m b. s = a @ m @ b \<and> map low m = map low attr \<and>
    ispunct (last (prev # a)) \<and> (b = [] \<or> ispunct (hd b)))"
proof (induction s arbitrary: prev)
  case Nil
  show ?case by (subst attr_scan.simps) (auto simp: strncasecmp_def)
next
  case (Cons c cs)
  have "attr_scan prev (c # cs) attr \<longleftrightarrow> attr_here prev (c # cs) attr \<or> length attr \<le> length (c # cs) \<and> attr_scan c cs attr"
    by (subst attr_scan.simps) (auto simp: attr_here_def)
  moreover note attr_here_iff [OF assms Cons.prems, of prev]
  moreover have "length attr \<le> length (c # cs) \<and> attr_scan c cs attr \<longleftrightarrow>
    (\<exists>a m b. cs = a @ m @ b \<and> map low m = map low attr \<and> ispunct (last (c # a)) \<and> (b = [] \<or> ispunct (hd b)))"
    (is "_ \<longleftrightarrow> ?later")
  proof -
    have "length attr \<le> length (c # cs)" if later: ?later
    proof -
      obtain a m b where e: "cs = a @ m @ b" "map low m = map low attr" using later by blast
      have "length m = length attr" using arg_cong [OF e(2), of length] by simp
      then show ?thesis by (simp add: e(1))
    qed
    moreover have "attr_scan c cs attr \<longleftrightarrow> ?later" using Cons.IH [of c] Cons.prems by simp
    ultimately show ?thesis by blast
  qed
  moreover note infix_Cons [of c cs "\<lambda>m. map low m = map low attr" ispunct prev "\<lambda>b. b = [] \<or> ispunct (hd b)"]
  ultimately show ?case by blast
qed

lemma strrchr_None: "strrchr s c = None \<longleftrightarrow> c \<notin> set s"
  by (induction s) (auto split: option.splits)

lemma strrchr_Some: "strrchr s c = Some r \<longleftrightarrow> (\<exists>p q. s = p @ c # q \<and> c \<notin> set q \<and> r = c # q)"
proof (induction s)
  case (Cons d s)
  show ?case
  proof (cases "strrchr s c")
    case None
    then have n: "c \<notin> set s" by (simp add: strrchr_None)
    then have "d # s = p @ c # q \<longleftrightarrow> p = [] \<and> d = c \<and> s = q" for p q by (cases p) auto
    then show ?thesis using None n by auto
  next
    case (Some x)
    then have c: "c \<in> set s" using strrchr_None [of s c] by auto
    have "(\<exists>p q. d # s = p @ c # q \<and> c \<notin> set q \<and> r = c # q) \<longleftrightarrow> (\<exists>p q. s = p @ c # q \<and> c \<notin> set q \<and> r = c # q)"
      using c by (auto simp: Cons_eq_append_conv intro: exI [of _ "d # _"]) 
    then show ?thesis using Some Cons.IH by simp
  qed
qed simp


text \<open>
  The name of a video mode has an attribute exactly when the attribute occurs in it, up to case, set
  off by punctuation or by the ends of the name; and a name given by the user stands for a full name
  exactly when the two are equal up to case, or when it begins with a digit and is what follows the last
  underscore of the full name.
\<close>

theorem mode_names:
  assumes "c_string full" "c_string name"
  shows "(fbc_resname_attr_str full name \<longleftrightarrow>
      (\<exists>a m b. full = a @ m @ b \<and> map low m = map low name \<and>
        (a = [] \<or> ispunct (last a)) \<and> (b = [] \<or> ispunct (hd b)))) \<and>
    (fbc_resname_cmp full name = 0 \<longleftrightarrow>
      map low full = map low name \<or>
      name \<noteq> [] \<and> isdigit (hd name) \<and>
        (\<exists>p r. full = p @ CHR ''_'' # r \<and> CHR ''_'' \<notin> set r \<and> map low r = map low name))"
proof
  have p: "ispunct (last (CHR ''_'' # a)) \<longleftrightarrow> a = [] \<or> ispunct (last a)" for a
    by (simp add: ispunct_def cval_def)
  show "fbc_resname_attr_str full name \<longleftrightarrow> (\<exists>a m b. full = a @ m @ b \<and> map low m = map low name \<and>
      (a = [] \<or> ispunct (last a)) \<and> (b = [] \<or> ispunct (hd b)))"
    unfolding fbc_resname_attr_str_def attr_scan_iff [OF assms(2,1)] p ..
  have t: "(\<exists>p r. full = p @ CHR ''_'' # r \<and> CHR ''_'' \<notin> set r \<and> map low r = map low name) \<longleftrightarrow>
    (\<exists>r. strrchr full (CHR ''_'') = Some r \<and> map low (tl r) = map low name)"
    unfolding strrchr_Some by force
  have "strcasecmp (tl r) name = 0 \<longleftrightarrow> map low (tl r) = map low name" if "strrchr full (CHR ''_'') = Some r" for r
    using that assms by (intro strcasecmp_0) (auto simp: strrchr_Some)
  then show "fbc_resname_cmp full name = 0 \<longleftrightarrow> map low full = map low name \<or> name \<noteq> [] \<and> isdigit (hd name) \<and>
      (\<exists>p r. full = p @ CHR ''_'' # r \<and> CHR ''_'' \<notin> set r \<and> map low r = map low name)"
    unfolding t fbc_resname_cmp_def strcasecmp_0 [OF assms, symmetric]
    by (cases "strrchr full (CHR ''_'')") auto
qed

theorem mode_names_witness:
  "fbc_resname_cmp ''SUNW_STD_1280x1024x76'' ''1280X1024x76'' = 0 \<and> fbc_resname_attr_str ''SUNW_Stereo-1280'' ''STEREO''"
proof
  have "c_string ''SUNW_STD_1280x1024x76''" "c_string ''1280X1024x76''" by simp_all
  note cmp = mode_names [OF this, THEN conjunct2]
  have "isdigit (hd ''1280X1024x76'')" "map low ''1280x1024x76'' = map low ''1280X1024x76''" by code_simp+
  moreover have "''SUNW_STD_1280x1024x76'' = ''SUNW_STD'' @ CHR ''_'' # ''1280x1024x76''" "CHR ''_'' \<notin> set ''1280x1024x76''"
    by simp_all
  ultimately show "fbc_resname_cmp ''SUNW_STD_1280x1024x76'' ''1280X1024x76'' = 0" unfolding cmp by blast
  have "c_string ''SUNW_Stereo-1280''" "c_string ''STEREO''" by simp_all
  note str = mode_names [OF this, THEN conjunct1]
  have "map low ''Stereo'' = map low ''STEREO''" "ispunct (last ''SUNW_'')" "ispunct (hd ''-1280'')" by code_simp+
  moreover have "''SUNW_Stereo-1280'' = ''SUNW_'' @ ''Stereo'' @ ''-1280''" by simp
  ultimately show "fbc_resname_attr_str ''SUNW_Stereo-1280'' ''STEREO''" unfolding str by blast
qed

end
