(* ===== verification/Fbc_Mode_List.thy ===== *)
theory Fbc_Mode_List
  imports Entity_Prelude Fbc_Names "HOL-Library.Product_Lexorder"
begin

text \<open>
  The list of video modes that a Monitor section of the configuration makes available
  (\<^verbatim>\<open>components/x11/app/gfx-utils/sun-src/fbconf_xorg/fbc/fbc_mode_list.c\<close>). Modes are inserted one by one into a list
  that is kept in the order in which \<^verbatim>\<open>-res ?\<close> displays them, and exact duplicates are dropped.
  \<open>mode_key\<close> is that order as a tuple; the loop of the insertion is shown to be an insertion by this key.
\<close>

section \<open>Modes and their insertion\<close>

record mode_line =
  ml_identifier :: "string option"
  ml_clock :: int
  ml_hdisplay :: int
  ml_hsyncstart :: int
  ml_hsyncend :: int
  ml_htotal :: int
  ml_vdisplay :: int
  ml_vsyncstart :: int
  ml_vsyncend :: int
  ml_vtotal :: int
  ml_vscan :: int
  ml_flags :: int
  ml_hskew :: int

definition total_pixels :: "mode_line \<Rightarrow> int" where
  "total_pixels m = ml_htotal m * ml_vtotal m"

text \<open>Division of C, for a positive divisor.\<close>

definition c_div :: "int \<Rightarrow> int \<Rightarrow> int" where
  "c_div a b = (if a < 0 then - ((- a) div b) else a div b)"

definition vert_frequency :: "mode_line \<Rightarrow> int" where
  "vert_frequency m = int32 (c_div (ml_clock m * 1000) (total_pixels m))"

datatype verdict = Break | Continue | Duplicate

definition descending :: "int \<Rightarrow> int \<Rightarrow> verdict \<Rightarrow> verdict" where
  "descending new old rest = (if new > old then Break else if new < old then Continue else rest)"

definition ascending_name :: "int \<Rightarrow> verdict \<Rightarrow> verdict" where
  "ascending_name name_comp rest = (if name_comp < 0 then Break else if name_comp > 0 then Continue else rest)"

definition compare_timings :: "mode_line \<Rightarrow> mode_line \<Rightarrow> verdict" where
  "compare_timings new old =
     descending (ml_htotal new) (ml_htotal old)
     (descending (ml_vtotal new) (ml_vtotal old)
     (descending (ml_clock new) (ml_clock old)
     (descending (ml_hsyncstart new) (ml_hsyncstart old)
     (descending (ml_hsyncend new) (ml_hsyncend old)
     (descending (ml_vsyncstart new) (ml_vsyncstart old)
     (descending (ml_vsyncend new) (ml_vsyncend old)
     (descending (ml_vscan new) (ml_vscan old)
     (descending (ml_hskew new) (ml_hskew old)
     (descending (ml_flags new) (ml_flags old) Duplicate)))))))))"

text \<open>One turn of the loop; the names are only compared when the display sizes and frequencies are equal.\<close>

definition compare_modes :: "mode_line \<Rightarrow> mode_line \<Rightarrow> verdict option" where
  "compare_modes new old =
     (if ml_hdisplay new = ml_hdisplay old \<and> ml_vdisplay new = ml_vdisplay old \<and>
         vert_frequency new = vert_frequency old
      then (case xf86nameCompare (ml_identifier new) (ml_identifier old) of
              None \<Rightarrow> None
            | Some name_comp \<Rightarrow> Some (ascending_name name_comp (compare_timings new old)))
      else Some (descending (ml_hdisplay new) (ml_hdisplay old)
        (descending (ml_vdisplay new) (ml_vdisplay old)
        (descending (vert_frequency new) (vert_frequency old) Duplicate))))"

fun insert_loop :: "bool \<Rightarrow> mode_line \<Rightarrow> mode_line list \<Rightarrow> mode_line list fbc_run" where
  "insert_loop mem new [] = (if mem then Returned [new] else Exited)"
| "insert_loop mem new (old # rest) =
     (case compare_modes new old of
        None \<Rightarrow> Undefined
      | Some Break \<Rightarrow> if mem then Returned (new # old # rest) else Exited
      | Some Continue \<Rightarrow>
          (case insert_loop mem new rest of
             Returned l \<Rightarrow> Returned (old # l)
           | Exited \<Rightarrow> Exited
           | Undefined \<Rightarrow> Undefined)
      | Some Duplicate \<Rightarrow> Returned (old # rest))"

definition fbc_insert_mode_in_list :: "bool \<Rightarrow> mode_line list \<Rightarrow> mode_line \<Rightarrow> mode_line list fbc_run" where
  "fbc_insert_mode_in_list mem mode_list new =
     (if total_pixels new \<le> 0 then Returned mode_list else insert_loop mem new mode_list)"

text \<open>The n-th insertion of a run finds memory or not.\<close>

fun fbc_append_mode_list_to_list ::
  "(nat \<Rightarrow> bool) \<Rightarrow> nat \<Rightarrow> mode_line list \<Rightarrow> mode_line list \<Rightarrow> mode_line list fbc_run" where
  "fbc_append_mode_list_to_list mem n mode_list [] = Returned mode_list"
| "fbc_append_mode_list_to_list mem n mode_list (m # ms) =
     (case fbc_insert_mode_in_list (mem n) mode_list m of
        Returned l \<Rightarrow> fbc_append_mode_list_to_list mem (n + 1) l ms
      | Exited \<Rightarrow> Exited
      | Undefined \<Rightarrow> Undefined)"

fun append_sections :: "(nat \<Rightarrow> bool) \<Rightarrow> nat \<Rightarrow> mode_line list \<Rightarrow> mode_line list list \<Rightarrow> mode_line list fbc_run" where
  "append_sections mem n mode_list [] = Returned mode_list"
| "append_sections mem n mode_list (ms # mss) =
     (case fbc_append_mode_list_to_list mem n mode_list ms of
        Returned l \<Rightarrow> append_sections mem (n + length ms) l mss
      | Exited \<Rightarrow> Exited
      | Undefined \<Rightarrow> Undefined)"

section \<open>The order as a key\<close>

type_synonym mode_order =
  "int \<times> int \<times> int \<times> int list \<times> int \<times> int \<times> int \<times> int \<times> int \<times> int \<times> int \<times> int \<times> int \<times> int"

definition mode_key :: "mode_line \<Rightarrow> mode_order" where
  "mode_key m =
     (- ml_hdisplay m, - ml_vdisplay m, - vert_frequency m,
      (case ml_identifier m of None \<Rightarrow> [] | Some s \<Rightarrow> norm_name s),
      - ml_htotal m, - ml_vtotal m, - ml_clock m, - ml_hsyncstart m, - ml_hsyncend m, - ml_vsyncstart m,
      - ml_vsyncend m, - ml_vscan m, - ml_hskew m, - ml_flags m)"

definition decides :: "verdict \<Rightarrow> 'a :: linorder \<Rightarrow> 'a \<Rightarrow> bool" where
  "decides v x y \<longleftrightarrow> (v = Break \<longleftrightarrow> x < y) \<and> (v = Duplicate \<longleftrightarrow> x = y)"

lemma decides_descending: "decides v x y \<Longrightarrow> decides (descending a b v) (- a, x) (- b, y)"
  by (auto simp: decides_def descending_def)

lemma decides_last: "decides (descending a b Duplicate) (- a) (- b)"
  by (auto simp: decides_def descending_def)

lemma decides_name: "agrees c xs ys \<Longrightarrow> decides v x y \<Longrightarrow> decides (ascending_name c v) (xs, x) (ys, y)"
  by (auto simp: decides_def ascending_name_def agrees_def)

lemma decides_equal: "decides v x y \<Longrightarrow> decides v (a, x) (a, y)"
  by (auto simp: decides_def)

lemma decides_unequal: "a \<noteq> b \<Longrightarrow> decides (descending a b v) (- a, x) (- b, y)"
  by (auto simp: decides_def descending_def)

definition named :: "mode_line \<Rightarrow> bool" where
  "named m \<longleftrightarrow> (\<exists>s. ml_identifier m = Some s \<and> c_string s)"

lemma compare_modes_key:
  assumes "named new" "named old"
  shows "\<exists>v. compare_modes new old = Some v \<and> decides v (mode_key new) (mode_key old)"
proof -
  obtain s t where s: "ml_identifier new = Some s" "c_string s" and t: "ml_identifier old = Some t" "c_string t"
    using assms by (auto simp: named_def)
  have name: "xf86nameCompare (Some s) (Some t) = Some (name_order s t)" "agrees (name_order s t) (norm_name s) (norm_name t)"
    using s t by (simp_all add: nameCompare_order name_order_agrees)
  show ?thesis
  proof (cases "ml_hdisplay new = ml_hdisplay old \<and> ml_vdisplay new = ml_vdisplay old \<and> vert_frequency new = vert_frequency old")
    case True
    have "decides (ascending_name (name_order s t) (compare_timings new old)) (mode_key new) (mode_key old)"
      unfolding mode_key_def compare_timings_def using True s t name(2)
      by (simp add: decides_equal decides_name decides_descending decides_last)
    then show ?thesis using True s t name(1) by (simp add: compare_modes_def)
  next
    case False
    then have "decides (descending (ml_hdisplay new) (ml_hdisplay old) (descending (ml_vdisplay new) (ml_vdisplay old)
        (descending (vert_frequency new) (vert_frequency old) Duplicate))) (mode_key new) (mode_key old)"
      unfolding mode_key_def by (auto simp: decides_def descending_def)
    then show ?thesis using False by (auto simp: compare_modes_def)
  qed
qed

section \<open>The list\<close>

abbreviation by_key :: "mode_line list \<Rightarrow> bool" where
  "by_key \<equiv> sorted_wrt (\<lambda>a b. mode_key a < mode_key b)"

lemma insert_loop_key:
  "named new \<Longrightarrow> \<forall>m\<in>set l. named m \<Longrightarrow> by_key l \<Longrightarrow>
    insert_loop True new l = Returned (insort_insert_key mode_key new l)"
proof (induction l)
  case Nil
  then show ?case by (simp add: insort_insert_key_def)
next
  case (Cons old rest)
  obtain v where v: "compare_modes new old = Some v" "decides v (mode_key new) (mode_key old)"
    using compare_modes_key [of new old] Cons.prems by auto
  have IH: "insert_loop True new rest = Returned (insort_insert_key mode_key new rest)" using Cons by simp
  show ?case
  proof (cases v)
    case Break
    then have lt: "mode_key new < mode_key old" using v(2) by (simp add: decides_def)
    then have "mode_key new \<notin> mode_key ` set (old # rest)" using Cons.prems(3) by force
    then show ?thesis using v(1) Break less_imp_le [OF lt] by (simp add: insort_insert_key_def)
  next
    case Duplicate
    then have "mode_key new = mode_key old" using v(2) by (simp add: decides_def)
    then show ?thesis using v(1) Duplicate by (simp add: insort_insert_key_def)
  next
    case Continue
    then have "mode_key old < mode_key new" using v(2) by (auto simp: decides_def not_less_iff_gr_or_eq)
    then show ?thesis using v(1) Continue IH by (auto simp: insort_insert_key_def)
  qed
qed

definition visible :: "mode_line list \<Rightarrow> mode_line set" where
  "visible ms = {m \<in> set ms. 0 < total_pixels m}"

text \<open>What a list of modes has to be after the modes \<open>ms\<close> have been given.\<close>

definition lists_modes :: "mode_line list \<Rightarrow> mode_line list \<Rightarrow> bool" where
  "lists_modes l ms \<longleftrightarrow> by_key l \<and> set l \<subseteq> visible ms \<and> mode_key ` set l = mode_key ` visible ms"

lemma by_key_insort: "by_key l \<Longrightarrow> by_key (insort_insert_key mode_key m l)"
proof (cases "mode_key m \<in> mode_key ` set l")
  case False
  assume "by_key l"
  then show ?thesis using False
    by (induction l) (force simp: insort_insert_key_def set_insort_key)+
qed (simp add: insort_insert_key_def)

lemma insert_lists:
  assumes l: "lists_modes l ms" and n: "named m" "\<forall>m\<in>set ms. named m"
  shows "\<exists>l'. fbc_insert_mode_in_list True l m = Returned l' \<and> lists_modes l' (ms @ [m])"
proof (cases "total_pixels m \<le> 0")
  case True
  then have "visible (ms @ [m]) = visible ms" by (auto simp: visible_def)
  then show ?thesis using l True by (simp add: fbc_insert_mode_in_list_def lists_modes_def)
next
  case False
  have "\<forall>x\<in>set l. named x" using l n(2) by (auto simp: lists_modes_def visible_def)
  then have i: "fbc_insert_mode_in_list True l m = Returned (insort_insert_key mode_key m l)"
    using False l n(1) by (simp add: fbc_insert_mode_in_list_def insert_loop_key lists_modes_def)
  have v: "visible (ms @ [m]) = insert m (visible ms)" using False by (auto simp: visible_def)
  have "lists_modes (insort_insert_key mode_key m l) (ms @ [m])"
    using l by_key_insort [of l m] unfolding lists_modes_def v
    by (cases "mode_key m \<in> mode_key ` set l") (auto simp: insort_insert_key_def set_insort_key)
  then show ?thesis using i by blast
qed

lemma append_lists:
  "lists_modes l ms \<Longrightarrow> \<forall>m\<in>set (ms @ new). named m \<Longrightarrow>
    \<exists>l'. fbc_append_mode_list_to_list (\<lambda>k. True) n l new = Returned l' \<and> lists_modes l' (ms @ new)"
proof (induction new arbitrary: l ms n)
  case (Cons m new)
  obtain l' where l': "fbc_insert_mode_in_list True l m = Returned l'" "lists_modes l' (ms @ [m])"
    using insert_lists [OF Cons.prems(1), of m] Cons.prems(2) by auto
  then show ?case using Cons.IH [OF l'(2), of "n + 1"] Cons.prems by auto
qed auto

lemma sections_lists:
  "lists_modes l ms \<Longrightarrow> \<forall>m\<in>set (ms @ concat mss). named m \<Longrightarrow>
    \<exists>l'. append_sections (\<lambda>k. True) n l mss = Returned l' \<and> lists_modes l' (ms @ concat mss)"
proof (induction mss arbitrary: l ms n)
  case (Cons new mss)
  obtain l' where l': "fbc_append_mode_list_to_list (\<lambda>k. True) n l new = Returned l'" "lists_modes l' (ms @ new)"
    using append_lists [OF Cons.prems(1), of new n] Cons.prems(2) by auto
  then show ?case using Cons.IH [OF l'(2), of "n + length new"] Cons.prems by auto
qed auto

lemma lists_modes_inj:
  assumes "lists_modes l ms"
  shows "inj_on mode_key (set l)"
proof -
  have "by_key l" using assms by (simp add: lists_modes_def)
  then have "distinct (map mode_key l)" by (induction l) auto
  then show ?thesis by (simp add: distinct_map)
qed

end
