(* ===== verification/Fbc_Fields.thy ===== *)
theory Fbc_Fields
  imports Fbc_Names
begin

text \<open>
  The layout of configuration lines (\<^verbatim>\<open>components/x11/app/gfx-utils/sun-src/fbconf_xorg\<close>): \<^verbatim>\<open>fbc/fbc_fields.c\<close> measures the
  whitespace around the first text of an existing line, and \<^verbatim>\<open>xf86/fields.c\<close> prints texts into whitespace of
  that kind, so that the columns of the original are kept. The whitespace strings live in a buffer of 1024
  characters; \<open>None\<close> is a write past its end.
\<close>

section \<open>Measuring\<close>

definition XF86_TAB_WIDTH :: nat where
  "XF86_TAB_WIDTH = 8"

definition FBC_WSPACE_FIELDS :: nat where
  "FBC_WSPACE_FIELDS = 2"

definition xf86whitespace_0 :: "string list" where
  "xf86whitespace_0 = [[], '' '', '' '']"

definition xf86whitespace_1 :: "string list" where
  "xf86whitespace_1 = [[CHR 0x09], [CHR 0x09, CHR 0x09], '' '']"

definition xf86whitespace_2 :: "string list" where
  "xf86whitespace_2 = [[CHR 0x09, CHR 0x09], [CHR 0x09, CHR 0x09], '' '']"

text \<open>A pointer to whitespace: null, to a string constant, or to a position of the buffer.\<close>

datatype wspace_ptr = Null_ptr | Constant string | In_buf nat

record wspace =
  wspace_ptrs :: "wspace_ptr list"
  whitespace_buf :: string

definition wspace_buf_len :: nat where
  "wspace_buf_len = 1024"

definition wspace_text :: "wspace \<Rightarrow> wspace_ptr \<Rightarrow> string option" where
  "wspace_text w p =
     (case p of
        Null_ptr \<Rightarrow> None
      | Constant s \<Rightarrow> Some s
      | In_buf n \<Rightarrow> Some (takeWhile (\<lambda>c. c \<noteq> CHR 0x00) (drop n (whitespace_buf w))))"

text \<open>The strings of the array up to the null pointer.\<close>

definition wspace_list :: "wspace \<Rightarrow> string list" where
  "wspace_list w = map the (takeWhile (\<lambda>t. t \<noteq> None) (map (wspace_text w) (wspace_ptrs w)))"

definition space_tab :: "char \<Rightarrow> bool" where
  "space_tab c \<longleftrightarrow> c = CHR 0x09 \<or> c = CHR '' ''"

definition char_column :: "nat \<Rightarrow> char \<Rightarrow> nat" where
  "char_column column c = (if c = CHR 0x09 then (column div XF86_TAB_WIDTH + 1) * XF86_TAB_WIDTH else column + 1)"

definition field_text :: "char \<Rightarrow> bool" where
  "field_text c \<longleftrightarrow> \<not> space_tab c \<and> c \<noteq> CHR 0x0A"

definition write_buf :: "string \<Rightarrow> nat \<Rightarrow> string \<Rightarrow> string option" where
  "write_buf buf off s =
     (if off + length s \<le> wspace_buf_len then Some (take off buf @ s @ drop (off + length s) buf) else None)"

text \<open>One turn per field; \<open>off\<close> is the position up to which the buffer is used.\<close>

fun measure_loop :: "nat list \<Rightarrow> string \<Rightarrow> nat \<Rightarrow> char \<Rightarrow> nat \<Rightarrow> nat \<Rightarrow> wspace \<Rightarrow> wspace option" where
  "measure_loop [] line column wspace_char wspace_count off w =
     Some (w\<lparr>wspace_ptrs := (wspace_ptrs w)[FBC_WSPACE_FIELDS := Null_ptr]\<rparr>)"
| "measure_loop (field # more_fields) line column wspace_char wspace_count off w =
     (let sp = takeWhile space_tab line; rest = dropWhile space_tab line; column1 = foldl char_column column sp
      in if rest \<noteq> [] \<and> hd rest = CHR ''#'' \<and> field = 0 then Some w
         else if wspace_count + length sp + 1 > wspace_buf_len
         then measure_loop more_fields rest column1 wspace_char wspace_count off
           (w\<lparr>wspace_ptrs := (wspace_ptrs w)[field := Constant (xf86whitespace_1 ! field)]\<rparr>)
         else
           (case write_buf (whitespace_buf w) off (replicate wspace_count wspace_char @ sp @ [CHR 0x00]) of
              None \<Rightarrow> None
            | Some buf \<Rightarrow>
                (let w1 = w\<lparr>wspace_ptrs := (wspace_ptrs w)[field := In_buf off], whitespace_buf := buf\<rparr>;
                     off1 = off + wspace_count + length sp + 1;
                     text = takeWhile field_text rest; rest1 = dropWhile field_text rest;
                     column2 = column1 + length text
                 in if rest1 \<noteq> [] \<and> hd rest1 = CHR 0x09
                    then measure_loop more_fields rest1 column2 (CHR 0x09)
                      (column2 div XF86_TAB_WIDTH - (column2 - length text) div XF86_TAB_WIDTH) off1 w1
                    else measure_loop more_fields rest1 column2 (CHR '' '') (length text) off1 w1)))"

definition fbc_measure_whitespace :: "string \<Rightarrow> wspace \<Rightarrow> wspace option" where
  "fbc_measure_whitespace configBuf w = measure_loop [0 ..< FBC_WSPACE_FIELDS] configBuf 0 (CHR '' '') 0 0 w"

section \<open>Printing\<close>

text \<open>The whitespace that is not displaced by text up to column \<open>cur_col\<close>, and the column after it.\<close>

fun scan_wspace :: "string \<Rightarrow> string \<Rightarrow> nat \<Rightarrow> nat \<Rightarrow> string \<times> nat" where
  "scan_wspace wspace [] field_col cur_col = (wspace, field_col)"
| "scan_wspace wspace (c # cs) field_col cur_col =
     scan_wspace (if field_col \<le> cur_col then c # cs else wspace) cs
       (field_col + (if c = CHR 0x09 then XF86_TAB_WIDTH - field_col mod XF86_TAB_WIDTH else 1)) cur_col"

fun print_loop :: "nat \<Rightarrow> nat \<Rightarrow> nat \<Rightarrow> string \<Rightarrow> string list \<Rightarrow> string list \<Rightarrow> string" where
  "print_loop field field_col cur_col text [] args = []"
| "print_loop field field_col cur_col text (ws # wss) args =
     (let cur = cur_col + length text;
          (wspace, col) = scan_wspace ws ws field_col cur;
          (out, cur1) = (if field > 0 \<and> col \<le> cur then ('' '', cur + 1) else (wspace, col))
      in text @ out @
         (case args of [] \<Rightarrow> [] | arg # args1 \<Rightarrow> print_loop (field + 1) col cur1 arg wss args1))"

definition xf86printFields :: "string list \<Rightarrow> string list \<Rightarrow> string" where
  "xf86printFields whitespace args = print_loop 0 0 0 [] whitespace args"

section \<open>Columns\<close>

lemma scan_char: "field_col + (if c = CHR 0x09 then XF86_TAB_WIDTH - field_col mod XF86_TAB_WIDTH else 1) = char_column field_col c"
proof -
  have "field_col + (8 - field_col mod 8) = (field_col div 8 + 1) * 8"
    by presburger
  then show ?thesis by (simp add: char_column_def XF86_TAB_WIDTH_def)
qed

lemma column_grows: "column < char_column column c"
  unfolding scan_char [symmetric] XF86_TAB_WIDTH_def using mod_less_divisor [of 8 column] by auto

lemma columns_grow: "column \<le> foldl char_column column s"
proof (induction s arbitrary: column)
  case (Cons c s)
  have "column < char_column column c" by (rule column_grows)
  also have "\<dots> \<le> foldl char_column (char_column column c) s" by (rule Cons.IH)
  finally show ?case by simp
qed simp

text \<open>Past the column \<open>cur_col\<close> nothing is displaced any more.\<close>

lemma scan_past: "cur_col < field_col \<Longrightarrow> scan_wspace ws s field_col cur_col = (ws, foldl char_column field_col s)"
proof (induction s arbitrary: field_col)
  case (Cons c s)
  then show ?case using column_grows [of field_col c] by (simp add: scan_char)
qed simp

lemma scan_displaced:
  "s \<noteq> [] \<Longrightarrow> foldl char_column field_col pre \<le> cur_col \<Longrightarrow> cur_col < char_column (foldl char_column field_col pre) (hd s) \<Longrightarrow>
    scan_wspace ws (pre @ s) field_col cur_col = (s, foldl char_column field_col (pre @ s))"
proof (induction pre arbitrary: field_col ws)
  case Nil
  then obtain c cs where "s = c # cs" by (cases s) auto
  then show ?case using Nil scan_past [of cur_col "char_column field_col c" "c # cs" cs] by (simp add: scan_char)
next
  case (Cons c pre)
  have "field_col \<le> cur_col" using columns_grow [of field_col "c # pre"] Cons.prems(2) by simp
  then show ?case using Cons.IH [of "char_column field_col c" "c # pre @ s"] Cons.prems by (simp add: scan_char)
qed

lemma spaces_column: "foldl char_column column (replicate n (CHR '' '')) = column + n"
  by (induction n arbitrary: column) (auto simp: char_column_def)

lemma tabs_column: "foldl char_column column (replicate n (CHR 0x09)) = (if n = 0 then column else (column div XF86_TAB_WIDTH + n) * XF86_TAB_WIDTH)"
proof (induction n arbitrary: column)
  case (Suc n)
  then show ?case by (auto simp: char_column_def XF86_TAB_WIDTH_def)
qed simp

lemma scan_aligned:
  "field_col \<le> cur_col \<Longrightarrow> cur_col < foldl char_column field_col s \<Longrightarrow>
    \<exists>rest. scan_wspace ws s field_col cur_col = (rest, foldl char_column field_col s) \<and>
      foldl char_column cur_col rest = foldl char_column field_col s"
proof (induction s arbitrary: field_col ws)
  case (Cons c s)
  show ?case
  proof (cases "char_column field_col c \<le> cur_col")
    case True
    then show ?thesis using Cons by (simp add: scan_char)
  next
    case False
    then have "char_column cur_col c = char_column field_col c"
      using Cons.prems(1) by (auto simp: char_column_def XF86_TAB_WIDTH_def)
    then show ?thesis using False Cons.prems scan_past [of cur_col "char_column field_col c" "c # s" s] by (simp add: scan_char)
  qed
qed simp

section \<open>Measuring and printing together\<close>

text \<open>A line: whitespace, a text, whitespace and whatever follows.\<close>

definition config_line :: "string \<Rightarrow> string \<Rightarrow> string \<Rightarrow> string \<Rightarrow> bool" where
  "config_line ws0 t ws1 rest \<longleftrightarrow>
     list_all space_tab ws0 \<and> t \<noteq> [] \<and> hd t \<noteq> CHR ''#'' \<and> list_all field_text t \<and>
     ws1 \<noteq> [] \<and> list_all space_tab ws1 \<and> (rest = [] \<or> \<not> space_tab (hd rest))"

text \<open>The whitespace that stands for the text in the second field.\<close>

definition stand_in :: "nat \<Rightarrow> string \<Rightarrow> string \<Rightarrow> string" where
  "stand_in column t ws1 =
     (if hd ws1 = CHR 0x09
      then replicate ((column + length t) div XF86_TAB_WIDTH - column div XF86_TAB_WIDTH) (CHR 0x09)
      else replicate (length t) (CHR '' ''))"

definition wspace_ok :: "wspace \<Rightarrow> bool" where
  "wspace_ok w \<longleftrightarrow> length (wspace_ptrs w) = FBC_WSPACE_FIELDS + 1 \<and> length (whitespace_buf w) = wspace_buf_len"

lemma take_drop_while:
  assumes "list_all P xs" "ys = [] \<or> \<not> P (hd ys)"
  shows "takeWhile P (xs @ ys) = xs" "dropWhile P (xs @ ys) = ys"
  using assms by (induction xs) (cases ys; auto)+

lemma column_fields: "list_all (\<lambda>c. c \<noteq> CHR 0x09) t \<Longrightarrow> foldl char_column column t = column + length t"
  by (induction t arbitrary: column) (auto simp: char_column_def)

lemma config_line_parts:
  assumes "config_line ws0 t ws1 rest"
  shows "takeWhile space_tab (ws0 @ t @ ws1 @ rest) = ws0" "dropWhile space_tab (ws0 @ t @ ws1 @ rest) = t @ ws1 @ rest"
    "takeWhile field_text (t @ ws1 @ rest) = t" "dropWhile field_text (t @ ws1 @ rest) = ws1 @ rest"
    "takeWhile space_tab (ws1 @ rest) = ws1" "dropWhile space_tab (ws1 @ rest) = rest"
    "hd (t @ ws1 @ rest) \<noteq> CHR ''#''" "hd (ws1 @ rest) = hd ws1"
proof -
  have t: "t @ ws1 @ rest = [] \<or> \<not> space_tab (hd (t @ ws1 @ rest))" "ws1 @ rest = [] \<or> \<not> field_text (hd (ws1 @ rest))"
    "hd (t @ ws1 @ rest) \<noteq> CHR ''#''"
    using assms by (cases t; cases ws1; auto simp: config_line_def field_text_def)+
  then show "takeWhile space_tab (ws0 @ t @ ws1 @ rest) = ws0" "dropWhile space_tab (ws0 @ t @ ws1 @ rest) = t @ ws1 @ rest"
    "takeWhile field_text (t @ ws1 @ rest) = t" "dropWhile field_text (t @ ws1 @ rest) = ws1 @ rest"
    "takeWhile space_tab (ws1 @ rest) = ws1" "dropWhile space_tab (ws1 @ rest) = rest"
    "hd (t @ ws1 @ rest) \<noteq> CHR ''#''" "hd (ws1 @ rest) = hd ws1"
    using assms take_drop_while [of space_tab ws0 "t @ ws1 @ rest"] take_drop_while [of field_text t "ws1 @ rest"]
      take_drop_while [of space_tab ws1 rest]
    by (auto simp: config_line_def)
qed

lemma measure_second:
  assumes "wspace_count + length (takeWhile space_tab line) < wspace_buf_len"
  shows "measure_loop [1] line column wspace_char wspace_count off \<lparr>wspace_ptrs = [p0, p1, p2], whitespace_buf = b\<rparr> =
    map_option (\<lambda>b1. \<lparr>wspace_ptrs = [p0, In_buf off, Null_ptr], whitespace_buf = b1\<rparr>)
      (write_buf b off (replicate wspace_count wspace_char @ takeWhile space_tab line @ [CHR 0x00]))"
  using assms by (simp add: Let_def FBC_WSPACE_FIELDS_def split: option.split)

text \<open>Both fields fit into the buffer taken alone; what happens is decided by their sum.\<close>

lemma measure_line:
  assumes l: "config_line ws0 t ws1 rest" and w: "wspace_ok w"
    and col: "column = foldl char_column 0 ws0" and s: "s1 = stand_in column t ws1 @ ws1"
    and fit: "length ws0 < wspace_buf_len" "length s1 < wspace_buf_len"
  shows "fbc_measure_whitespace (ws0 @ t @ ws1 @ rest) w =
    (if length ws0 + 1 + length s1 + 1 \<le> wspace_buf_len
     then Some \<lparr>wspace_ptrs = [In_buf 0, In_buf (length ws0 + 1), Null_ptr],
       whitespace_buf = ws0 @ [CHR 0x00] @ s1 @ [CHR 0x00] @ drop (length ws0 + length s1 + 2) (whitespace_buf w)\<rparr>
     else None)"
proof -
  note p = config_line_parts [OF l]
  obtain p0 p1 p2 b where wr: "w = \<lparr>wspace_ptrs = [p0, p1, p2], whitespace_buf = b\<rparr>"
    using w by (cases w) (auto simp: wspace_ok_def FBC_WSPACE_FIELDS_def numeral_2_eq_2 length_Suc_conv)
  define wc n where "wc = (if hd ws1 = CHR 0x09 then CHR 0x09 else CHR '' '')"
    and "n = length (stand_in column t ws1)"
  have pre: "stand_in column t ws1 = replicate n wc"
    "n = (if hd ws1 = CHR 0x09 then (column + length t) div XF86_TAB_WIDTH - column div XF86_TAB_WIDTH else length t)"
    by (auto simp: n_def wc_def stand_in_def)
  let ?b = "ws0 @ CHR 0x00 # drop (length ws0 + 1) b"
  have t: "t \<noteq> []" "ws1 @ rest \<noteq> []" using l by (auto simp: config_line_def)
  have wb: "write_buf b 0 (ws0 @ [CHR 0x00]) = Some ?b"
    using fit(1) by (simp add: write_buf_def)
  have "fbc_measure_whitespace (ws0 @ t @ ws1 @ rest) w =
      measure_loop [1] (ws1 @ rest) (column + length t) wc n (length ws0 + 1) \<lparr>wspace_ptrs = [In_buf 0, p1, p2], whitespace_buf = ?b\<rparr>"
    using fit(1) t wb p col unfolding wr
    by (simp add: fbc_measure_whitespace_def FBC_WSPACE_FIELDS_def upt_rec Let_def wc_def pre(2) del: measure_loop.simps)
      (simp add: Let_def)
  also have "\<dots> = map_option (\<lambda>b1. \<lparr>wspace_ptrs = [In_buf 0, In_buf (length ws0 + 1), Null_ptr], whitespace_buf = b1\<rparr>)
      (write_buf ?b (length ws0 + 1) (s1 @ [CHR 0x00]))"
    using measure_second [of n "ws1 @ rest"] fit(2) s pre(1) by (simp add: p del: measure_loop.simps)
  finally show ?thesis unfolding wr by (auto simp: write_buf_def add.commute)
qed

lemma blank_no_nul: "list_all space_tab s \<Longrightarrow> takeWhile (\<lambda>c. c \<noteq> CHR 0x00) (s @ CHR 0x00 # r) = s"
  by (induction s) (auto simp: space_tab_def)

lemma stand_in_blank: "list_all space_tab (stand_in column t ws1)"
  by (auto simp: stand_in_def space_tab_def list_all_iff)

lemma wspace_list_two:
  assumes "list_all space_tab a" "list_all space_tab b"
  shows "wspace_list \<lparr>wspace_ptrs = [In_buf 0, In_buf (length a + 1), Null_ptr],
    whitespace_buf = a @ [CHR 0x00] @ b @ [CHR 0x00] @ r\<rparr> = [a, b]"
  using blank_no_nul [OF assms(1)] blank_no_nul [OF assms(2)] by (simp add: wspace_list_def wspace_text_def)

lemma print_two:
  assumes "list_all space_tab ws0"
  shows "xf86printFields [ws0, ws] [t] =
    (let column = foldl char_column 0 ws0; (s, col) = scan_wspace ws ws column (column + length t)
     in ws0 @ t @ (if col \<le> column + length t then '' '' else s))"
proof -
  have "scan_wspace ws0 ws0 0 0 = (ws0, foldl char_column 0 ws0)"
  proof (cases ws0)
    case (Cons c cs)
    then show ?thesis using scan_displaced [of ws0 0 "[]" 0 ws0] column_grows [of 0 c] by simp
  qed simp
  then show ?thesis by (simp add: xf86printFields_def Let_def split: prod.splits)
qed

lemma stand_in_column:
  assumes "ws1 \<noteq> []" "list_all space_tab ws1"
  shows "foldl char_column column (stand_in column t ws1) \<le> column + length t"
    "column + length t < char_column (foldl char_column column (stand_in column t ws1)) (hd ws1)"
proof -
  let ?c = "foldl char_column column (stand_in column t ws1)"
  have "?c \<le> column + length t \<and> column + length t < char_column ?c (hd ws1)"
  proof (cases "hd ws1 = CHR 0x09")
    case True
    define k where "k = (column + length t) div XF86_TAB_WIDTH - column div XF86_TAB_WIDTH"
    have "column div XF86_TAB_WIDTH + k = (column + length t) div XF86_TAB_WIDTH"
      using div_le_mono [of column "column + length t" XF86_TAB_WIDTH] by (simp add: k_def)
    moreover have "?c = (if k = 0 then column else (column div XF86_TAB_WIDTH + k) * XF86_TAB_WIDTH)"
      using True tabs_column [of column k] by (simp add: stand_in_def k_def)
    ultimately have "?c div XF86_TAB_WIDTH = (column + length t) div XF86_TAB_WIDTH" "?c \<le> column + length t"
      by (auto simp: XF86_TAB_WIDTH_def)
    then show ?thesis using True by (auto simp: char_column_def XF86_TAB_WIDTH_def)
  next
    case False
    then show ?thesis by (simp add: stand_in_def spaces_column char_column_def)
  qed
  then show "?c \<le> column + length t" "column + length t < char_column ?c (hd ws1)" by auto
qed

text \<open>
  C29. Measuring a line and printing with the result keeps its layout: printing the same text gives the line back up
  to its second text, whatever mixture of spaces and tabs it has, and printing a shorter or longer text that
  still leaves room puts the second text into the column it had. The line is not a comment, and its
  whitespace together fits into the buffer.
\<close>

theorem layout_is_kept:
  assumes "config_line ws0 t ws1 rest" "wspace_ok w"
    and "length ws0 + length (stand_in (foldl char_column 0 ws0) t ws1) + length ws1 + 2 \<le> wspace_buf_len"
  shows "\<exists>w'. fbc_measure_whitespace (ws0 @ t @ ws1 @ rest) w = Some w' \<and>
    xf86printFields (wspace_list w') [t] = ws0 @ t @ ws1 \<and>
    (\<forall>u. list_all field_text u \<and> foldl char_column 0 (ws0 @ u) < foldl char_column 0 (ws0 @ t @ ws1) \<longrightarrow>
      foldl char_column 0 (xf86printFields (wspace_list w') [u]) = foldl char_column 0 (ws0 @ t @ ws1))"
proof -
  let ?c = "foldl char_column 0 ws0" and ?s1 = "stand_in (foldl char_column 0 ws0) t ws1 @ ws1"
  have b: "list_all space_tab ws0" "ws1 \<noteq> []" "list_all space_tab ws1" "list_all field_text t"
    using assms(1) by (auto simp: config_line_def)
  have s1: "list_all space_tab ?s1" using b(3) stand_in_blank [of ?c t ws1] by simp
  have nt: "foldl char_column ?c u = ?c + length u" if "list_all field_text u" for u
    using that by (intro column_fields) (auto simp: list_all_iff field_text_def space_tab_def)
  obtain w' where w': "fbc_measure_whitespace (ws0 @ t @ ws1 @ rest) w = Some w'" "wspace_list w' = [ws0, ?s1]"
    using measure_line [OF assms(1,2) refl refl] assms(3) wspace_list_two [OF b(1) s1] by auto
  note sc = stand_in_column [OF b(2,3), of ?c t]
  have sp: "scan_wspace ?s1 ?s1 ?c (?c + length t) = (ws1, foldl char_column ?c ?s1)"
    using scan_displaced [OF b(2) sc] .
  have "?c + length t < char_column (foldl char_column ?c (stand_in ?c t ws1)) (hd ws1)" by (rule sc(2))
  also have "\<dots> \<le> foldl char_column ?c ?s1"
    using columns_grow [of _ "tl ws1"] b(2) by (cases ws1) auto
  finally have gt: "?c + length t < foldl char_column ?c ?s1" .
  have p: "xf86printFields [ws0, ?s1] [t] = ws0 @ t @ ws1" using sp gt by (simp add: print_two [OF b(1)])
  have stop: "foldl char_column 0 (ws0 @ t @ ws1) = foldl char_column ?c ?s1"
    using scan_aligned [of ?c "?c + length t" ?s1 ?s1] gt sp nt [OF b(4)] by (simp del: foldl_append) simp
  have "foldl char_column 0 (xf86printFields [ws0, ?s1] [u]) = foldl char_column ?c ?s1"
    if u: "list_all field_text u" and lt: "foldl char_column 0 (ws0 @ u) < foldl char_column ?c ?s1" for u
  proof -
    have "?c + length u < foldl char_column ?c ?s1" using lt nt [OF u] by simp
    then obtain r where "scan_wspace ?s1 ?s1 ?c (?c + length u) = (r, foldl char_column ?c ?s1)"
      "foldl char_column (?c + length u) r = foldl char_column ?c ?s1" "?c + length u < foldl char_column ?c ?s1"
      using scan_aligned [of ?c "?c + length u" ?s1 ?s1] by auto
    then show ?thesis using nt [OF u] by (simp add: print_two [OF b(1)])
  qed
  then show ?thesis using w' p unfolding stop by auto
qed

theorem layout_is_kept_witness:
  "\<exists>w'. fbc_measure_whitespace ([CHR 0x09] @ ''DefaultDepth'' @ ''  '' @ ''24'') \<lparr>wspace_ptrs = [Null_ptr, Null_ptr, Null_ptr],
      whitespace_buf = replicate 1024 (CHR 0x00)\<rparr> = Some w' \<and>
    xf86printFields (wspace_list w') [''DefaultDepth''] = [CHR 0x09] @ ''DefaultDepth'' @ ''  '' \<and>
    foldl char_column 0 (xf86printFields (wspace_list w') [''Option'']) = 22"
proof -
  let ?w = "\<lparr>wspace_ptrs = [Null_ptr, Null_ptr, Null_ptr], whitespace_buf = replicate 1024 (CHR 0x00)\<rparr>"
  have "config_line [CHR 0x09] ''DefaultDepth'' ''  '' ''24''" "wspace_ok ?w"
    "length [CHR 0x09] + length (stand_in (foldl char_column 0 [CHR 0x09]) ''DefaultDepth'' ''  '') + length ''  '' + 2 \<le> wspace_buf_len"
    by (simp_all add: config_line_def space_tab_def field_text_def wspace_ok_def FBC_WSPACE_FIELDS_def wspace_buf_len_def stand_in_def)
  from layout_is_kept [OF this] obtain w' where w': "fbc_measure_whitespace ([CHR 0x09] @ ''DefaultDepth'' @ ''  '' @ ''24'') ?w = Some w'"
    "xf86printFields (wspace_list w') [''DefaultDepth''] = [CHR 0x09] @ ''DefaultDepth'' @ ''  ''"
    "\<forall>u. list_all field_text u \<and> foldl char_column 0 ([CHR 0x09] @ u) < foldl char_column 0 ([CHR 0x09] @ ''DefaultDepth'' @ ''  '') \<longrightarrow>
      foldl char_column 0 (xf86printFields (wspace_list w') [u]) = foldl char_column 0 ([CHR 0x09] @ ''DefaultDepth'' @ ''  '')"
    by blast
  have f: "list_all field_text ''Option''" "foldl char_column 0 ([CHR 0x09] @ ''DefaultDepth'' @ ''  '') = 22"
    "foldl char_column 0 ([CHR 0x09] @ ''Option'') = 14"
    by (simp_all add: field_text_def space_tab_def char_column_def XF86_TAB_WIDTH_def)
  have "foldl char_column 0 (xf86printFields (wspace_list w') [''Option'']) = 22"
    using w'(3) [rule_format, of "''Option''"] unfolding f by (simp add: field_text_def space_tab_def)
  with w'(1,2) show ?thesis by blast
qed

text \<open>
  C39. The check that keeps the whitespace within its buffer looks at one field at a time. When both fields pass it
  but their whitespace together does not fit, measuring writes past the end of the buffer; otherwise it
  succeeds.
\<close>

theorem whitespace_overflow:
  assumes "config_line ws0 t ws1 rest" "wspace_ok w"
    and "length ws0 + 1 \<le> wspace_buf_len"
    and "length (stand_in (foldl char_column 0 ws0) t ws1) + length ws1 + 1 \<le> wspace_buf_len"
  shows "fbc_measure_whitespace (ws0 @ t @ ws1 @ rest) w = None \<longleftrightarrow>
    length ws0 + length (stand_in (foldl char_column 0 ws0) t ws1) + length ws1 + 2 > wspace_buf_len"
  using measure_line [OF assms(1,2) refl refl] assms(3,4) by auto

theorem whitespace_overflow_witness:
  "fbc_measure_whitespace (replicate 600 (CHR '' '') @ ''Depth'' @ replicate 600 (CHR '' '') @ ''24'') \<lparr>wspace_ptrs = [Null_ptr, Null_ptr, Null_ptr],
      whitespace_buf = replicate 1024 (CHR 0x00)\<rparr> = None"
proof -
  let ?w = "\<lparr>wspace_ptrs = [Null_ptr, Null_ptr, Null_ptr], whitespace_buf = replicate 1024 (CHR 0x00)\<rparr>"
  let ?s = "replicate 600 (CHR '' '')"
  have "config_line ?s ''Depth'' ?s ''24''" "wspace_ok ?w" "length ?s + 1 \<le> wspace_buf_len"
    "length (stand_in (foldl char_column 0 ?s) ''Depth'' ?s) + length ?s + 1 \<le> wspace_buf_len"
    by (simp_all add: config_line_def space_tab_def field_text_def wspace_ok_def FBC_WSPACE_FIELDS_def wspace_buf_len_def stand_in_def list_all_iff hd_replicate)
  from whitespace_overflow [OF this] show ?thesis by (simp add: wspace_buf_len_def stand_in_def hd_replicate)
qed

section \<open>Lines that fit\<close>

text \<open>A line that leaves room for two null characters is measured without leaving the buffer.\<close>

lemma write_buf_fits:
  "length buf = wspace_buf_len \<Longrightarrow> off + length s \<le> wspace_buf_len \<Longrightarrow> \<exists>b. write_buf buf off s = Some b \<and> length b = wspace_buf_len"
  by (simp add: write_buf_def)

lemma tab_count: "(c + t) div XF86_TAB_WIDTH - c div XF86_TAB_WIDTH \<le> t"
proof -
  have "(c + t) div XF86_TAB_WIDTH \<le> (c + XF86_TAB_WIDTH * t) div XF86_TAB_WIDTH"
    by (intro div_le_mono) (simp add: XF86_TAB_WIDTH_def)
  also have "\<dots> = c div XF86_TAB_WIDTH + t" by (simp add: XF86_TAB_WIDTH_def)
  finally show ?thesis by simp
qed

lemma measure_loop_fits:
  "wspace_ok w \<Longrightarrow> off + wspace_count + length line + length fs \<le> wspace_buf_len \<Longrightarrow>
    \<exists>w'. measure_loop fs line column wspace_char wspace_count off w = Some w' \<and> wspace_ok w'"
proof (induction fs arbitrary: line column wspace_char wspace_count off w)
  case Nil
  then show ?case by (simp add: wspace_ok_def)
next
  case (Cons field fs)
  let ?sp = "takeWhile space_tab line" and ?rest = "dropWhile space_tab line"
  let ?text = "takeWhile field_text ?rest" and ?rest1 = "dropWhile field_text ?rest"
  have "length line = length ?sp + length ?rest" "length ?rest = length ?text + length ?rest1"
    by (metis length_append takeWhile_dropWhile_id)+
  then have len: "length line = length ?sp + length ?text + length ?rest1" by simp
  have fit: "off + wspace_count + length ?sp + 1 \<le> wspace_buf_len" using Cons.prems(2) len by simp
  obtain b where b: "write_buf (whitespace_buf w) off (replicate wspace_count wspace_char @ ?sp @ [CHR 0x00]) = Some b"
    "length b = wspace_buf_len"
    using write_buf_fits [of "whitespace_buf w" off] Cons.prems(1) fit by (force simp: wspace_ok_def)
  let ?w = "w\<lparr>wspace_ptrs := (wspace_ptrs w)[field := In_buf off], whitespace_buf := b\<rparr>"
  have w1: "wspace_ok ?w" using Cons.prems(1) b(2) by (simp add: wspace_ok_def)
  let ?off = "off + wspace_count + length ?sp + 1"
  have "\<exists>w'. measure_loop fs ?rest1 col c k ?off ?w = Some w' \<and> wspace_ok w'" if "k \<le> length ?text" for col c k
    using that Cons.prems(2) len by (intro Cons.IH [OF w1]) simp
  then show ?case using b(1) fit Cons.prems(1) tab_count by (simp add: Let_def)
qed

lemma measure_fits:
  assumes "wspace_ok w" "length line + 2 \<le> wspace_buf_len"
  shows "\<exists>w'. fbc_measure_whitespace line w = Some w' \<and> wspace_ok w'"
  unfolding fbc_measure_whitespace_def using assms by (intro measure_loop_fits) (auto simp: FBC_WSPACE_FIELDS_def)

end
