(* ===== verification/Fbc_Mode_Text.thy ===== *)
theory Fbc_Mode_Text
  imports Fbc_Mode_List Fbc_Fields
begin

text \<open>
  The text of video modes in a configuration file (\<^verbatim>\<open>components/x11/app/gfx-utils/sun-src/fbconf_xorg/xf86/Monitor.c\<close>). Numbers
  are written in decimal; the clock, an integer in kHz, is written in MHz with four digits after the point, of
  which the last is 0.
\<close>

unbundle bit_operations_syntax

section \<open>Numbers\<close>

definition digit_char :: "nat \<Rightarrow> char" where
  "digit_char n = char_of (48 + n)"

fun show_nat :: "nat \<Rightarrow> string" where
  "show_nat n = (if n < 10 then [digit_char n] else show_nat (n div 10) @ [digit_char (n mod 10)])"

declare show_nat.simps [simp del]

definition show_int :: "int \<Rightarrow> string" where
  "show_int i = (if i < 0 then CHR ''-'' # show_nat (nat (- i)) else show_nat (nat i))"

definition show_clock :: "int \<Rightarrow> string" where
  "show_clock k =
     (if k < 0 then ''-'' else []) @ show_nat (nat \<bar>k\<bar> div 1000) @ ''.'' @
     [digit_char (nat \<bar>k\<bar> div 100 mod 10), digit_char (nat \<bar>k\<bar> div 10 mod 10), digit_char (nat \<bar>k\<bar> mod 10)] @ ''0''"

section \<open>The lines of a mode\<close>

abbreviation NL :: string where
  "NL \<equiv> [CHR 0x0A]"

abbreviation quoted :: "string \<Rightarrow> string" where
  "quoted s \<equiv> [CHR 0x22] @ s @ [CHR 0x22]"

definition XF86CONF_HSKEW :: int where "XF86CONF_HSKEW = 0x0200"
definition XF86CONF_VSCAN :: int where "XF86CONF_VSCAN = 0x1000"

definition modeFlagTab :: "(int \<times> string) list" where
  "modeFlagTab = [(0x0010, ''Interlace''), (0x0020, ''DoubleScan''), (0x0001, ''+HSync''), (0x0002, ''-HSync''),
     (0x0004, ''+VSync''), (0x0008, ''-VSync''), (0x0040, ''Composite''), (0x0080, ''+CSync''), (0x0100, ''-CSync''),
     (0x0800, ''Custom''), (0x0400, ''BCast'')]"

definition xf86printMxxxSectionModeDotClock :: "mode_line \<Rightarrow> string list \<Rightarrow> string" where
  "xf86printMxxxSectionModeDotClock m whitespace = xf86printFields whitespace [''DotClock''] @ show_clock (ml_clock m) @ NL"

definition four_numbers :: "int \<Rightarrow> int \<Rightarrow> int \<Rightarrow> int \<Rightarrow> string" where
  "four_numbers a b c d = show_int a @ '' '' @ show_int b @ '' '' @ show_int c @ '' '' @ show_int d @ NL"

definition xf86printMxxxSectionModeHTimings :: "mode_line \<Rightarrow> string list \<Rightarrow> string" where
  "xf86printMxxxSectionModeHTimings m whitespace =
     xf86printFields whitespace [''HTimings''] @ four_numbers (ml_hdisplay m) (ml_hsyncstart m) (ml_hsyncend m) (ml_htotal m)"

definition xf86printMxxxSectionModeVTimings :: "mode_line \<Rightarrow> string list \<Rightarrow> string" where
  "xf86printMxxxSectionModeVTimings m whitespace =
     xf86printFields whitespace [''VTimings''] @ four_numbers (ml_vdisplay m) (ml_vsyncstart m) (ml_vsyncend m) (ml_vtotal m)"

fun flag_loop :: "(int \<times> string) list \<Rightarrow> int \<Rightarrow> string list \<Rightarrow> bool \<Rightarrow> string" where
  "flag_loop [] flags whitespace have_flags = (if have_flags then NL else [])"
| "flag_loop ((m, name) # tab) flags whitespace have_flags =
     (if flags AND m \<noteq> 0
      then (if have_flags then '' '' else xf86printFields whitespace [''Flags'']) @ quoted name @ flag_loop tab flags whitespace True
      else flag_loop tab flags whitespace have_flags)"

definition xf86printMxxxSectionModeFlags :: "mode_line \<Rightarrow> string list \<Rightarrow> string" where
  "xf86printMxxxSectionModeFlags m whitespace = flag_loop modeFlagTab (ml_flags m) whitespace False"

definition xf86printMxxxSectionModeHSkew :: "mode_line \<Rightarrow> string list \<Rightarrow> string" where
  "xf86printMxxxSectionModeHSkew m whitespace = xf86printFields whitespace [''HSkew''] @ '' '' @ show_int (ml_hskew m) @ NL"

definition xf86printMxxxSectionModeVScan :: "mode_line \<Rightarrow> string list \<Rightarrow> string" where
  "xf86printMxxxSectionModeVScan m whitespace = xf86printFields whitespace [''VScan''] @ '' '' @ show_int (ml_vscan m) @ NL"

text \<open>A null pointer for the name is read through.\<close>

definition xf86printMxxxSectionMode :: "mode_line \<Rightarrow> string list \<Rightarrow> string list \<Rightarrow> string option" where
  "xf86printMxxxSectionMode m whitespace_a whitespace_b =
     (case ml_identifier m of
        None \<Rightarrow> None
      | Some name \<Rightarrow> Some
          (xf86printFields whitespace_a [''Mode''] @ quoted name @ NL @
           xf86printMxxxSectionModeDotClock m whitespace_b @
           xf86printMxxxSectionModeHTimings m whitespace_b @
           xf86printMxxxSectionModeVTimings m whitespace_b @
           xf86printMxxxSectionModeFlags m whitespace_b @
           (if ml_flags m AND XF86CONF_HSKEW \<noteq> 0 then xf86printMxxxSectionModeHSkew m whitespace_b else []) @
           (if ml_flags m AND XF86CONF_VSCAN \<noteq> 0 then xf86printMxxxSectionModeVScan m whitespace_b else []) @
           xf86printFields whitespace_a [''EndMode'' @ NL]))"

end
