(* ===== verification/Fbc_Line_ER.thy ===== *)
theory Fbc_Line_ER
  imports Fbc_Names "HOL-Library.Monad_Syntax" "HOL-Library.Sublist"
begin

text \<open>
  The lines of a configuration file (\<^verbatim>\<open>components/x11/app/gfx-utils/sun-src/fbconf_xorg/fbc/fbc_line_er.c\<close>): a doubly
  linked list that records, in the order of the file, where each line stands and whether it has been inserted,
  modified or deleted. The elements live in a store; a pointer is an address or null. \<open>None\<close> as the
  result of an operation is an access through a null pointer or to an element that does not exist.

  \<open>dll\<close> relates the store to the list of addresses; the locale \<open>line_sequence\<close> states what the editing functions
  promise about that list, and the interpretation \<open>er\<close> discharges it for them.
\<close>

section \<open>Elements and the list\<close>

datatype line_stat = FBC_LINE_ORIGINAL | FBC_LINE_INSERTED | FBC_LINE_MODIFIED | FBC_LINE_DELETED

text \<open>A print function turns the internal representation of a line and the whitespace to use into text.\<close>

record 'i line_elem =
  next_ptr :: "nat option"
  prev_ptr :: "nat option"
  config_stream_in :: "nat option"
  line_pos :: int
  ir_ptr :: "'i option"
  print_fn :: "('i option \<Rightarrow> string list \<Rightarrow> string) option"
  status :: line_stat
  indent_level :: nat

record 'i line_list =
  elems :: "nat \<rightharpoonup> 'i line_elem"
  head_ptr :: "nat option"
  tail_ptr :: "nat option"

definition FBC_INDENT_0 :: nat where "FBC_INDENT_0 = 0"
definition FBC_INDENT_1 :: nat where "FBC_INDENT_1 = 1"
definition FBC_INDENT_2 :: nat where "FBC_INDENT_2 = 2"
definition FBC_INDENT_ENTRY :: nat where "FBC_INDENT_ENTRY = 3"

definition fbc_line_ER_list :: "'i line_list" where
  "fbc_line_ER_list = \<lparr>elems = Map.empty, head_ptr = None, tail_ptr = None\<rparr>"

text \<open>An assignment to fields of the element at an address.\<close>

definition update_elem :: "nat \<Rightarrow> ('i line_elem \<Rightarrow> 'i line_elem) \<Rightarrow> 'i line_list \<Rightarrow> 'i line_list option" where
  "update_elem a f s = (case elems s a of None \<Rightarrow> None | Some e \<Rightarrow> Some (s\<lparr>elems := (elems s)(a \<mapsto> f e)\<rparr>))"

definition fbc_ER_list_first :: "'i line_list \<Rightarrow> nat option" where
  "fbc_ER_list_first s = head_ptr s"

definition fbc_get_current_line_ER :: "'i line_list \<Rightarrow> nat option" where
  "fbc_get_current_line_ER s = tail_ptr s"

definition fbc_list_append :: "nat \<Rightarrow> 'i line_list \<Rightarrow> 'i line_list option" where
  "fbc_list_append element s =
     do { s1 \<leftarrow> update_elem element (\<lambda>e. e\<lparr>next_ptr := None, prev_ptr := tail_ptr s\<rparr>) s;
          s2 \<leftarrow> (case tail_ptr s of
                   None \<Rightarrow> Some (s1\<lparr>head_ptr := Some element\<rparr>)
                 | Some t \<Rightarrow> update_elem t (\<lambda>e. e\<lparr>next_ptr := Some element\<rparr>) s1);
          Some (s2\<lparr>tail_ptr := Some element\<rparr>) }"

definition fbc_list_insert_prev :: "nat \<Rightarrow> nat \<Rightarrow> 'i line_list \<Rightarrow> 'i line_list option" where
  "fbc_list_insert_prev next_line_er new_line_er s =
     do { next \<leftarrow> elems s next_line_er;
          s1 \<leftarrow> update_elem new_line_er (\<lambda>e. e\<lparr>next_ptr := Some next_line_er, prev_ptr := prev_ptr next\<rparr>) s;
          s2 \<leftarrow> update_elem next_line_er (\<lambda>e. e\<lparr>prev_ptr := Some new_line_er\<rparr>) s1;
          if head_ptr s2 = Some next_line_er then Some (s2\<lparr>head_ptr := Some new_line_er\<rparr>)
          else
            do { new \<leftarrow> elems s2 new_line_er;
                 p \<leftarrow> prev_ptr new;
                 update_elem p (\<lambda>e. e\<lparr>next_ptr := Some new_line_er\<rparr>) s2 } }"

text \<open>Freeing an element takes it out of the store; the loop follows the pointers it reads.\<close>

partial_function (option) free_loop :: "nat option \<Rightarrow> 'i line_list \<Rightarrow> 'i line_list option" where
  "free_loop cur s =
     (case cur of
        None \<Rightarrow> Some s
      | Some a \<Rightarrow> do { e \<leftarrow> elems s a; free_loop (next_ptr e) (s\<lparr>elems := (elems s)(a := None)\<rparr>) })"

definition fbc_list_free :: "'i line_list \<Rightarrow> 'i line_list option" where
  "fbc_list_free s =
     do { s1 \<leftarrow> free_loop (head_ptr s) s; Some (s1\<lparr>head_ptr := None, tail_ptr := None\<rparr>) }"

section \<open>Editing\<close>

text \<open>
  The address that \<^verbatim>\<open>malloc\<close> returns, or null, is an argument. The element it returns has unspecified
  contents, here that of \<open>raw\<close>.
\<close>

definition fbc_save_line_location ::
  "nat option \<Rightarrow> 'i line_elem \<Rightarrow> nat option \<Rightarrow> int \<Rightarrow> 'i line_list \<Rightarrow> 'i line_list fbc_run" where
  "fbc_save_line_location new raw stream pos s =
     (if pos < 0 then Exited
      else case new of
        None \<Rightarrow> Exited
      | Some a \<Rightarrow>
          (case fbc_list_append a (s\<lparr>elems := (elems s)(a \<mapsto> raw\<lparr>config_stream_in := stream, line_pos := pos,
             ir_ptr := None, print_fn := None, status := FBC_LINE_ORIGINAL\<rparr>)\<rparr>) of
             None \<Rightarrow> Undefined
           | Some s1 \<Rightarrow> Returned s1))"

definition fbc_link_line_ER ::
  "nat option \<Rightarrow> 'i option \<Rightarrow> ('i option \<Rightarrow> string list \<Rightarrow> string) option \<Rightarrow> nat \<Rightarrow> 'i line_list \<Rightarrow> 'i line_list option" where
  "fbc_link_line_ER er_ptr ir fn indent s =
     do { a \<leftarrow> er_ptr; update_elem a (\<lambda>e. e\<lparr>ir_ptr := ir, print_fn := fn, indent_level := indent\<rparr>) s }"

definition fbc_insert_line_ER ::
  "nat option \<Rightarrow> 'i line_elem \<Rightarrow> nat option \<Rightarrow> 'i option \<Rightarrow> ('i option \<Rightarrow> string list \<Rightarrow> string) option \<Rightarrow> nat \<Rightarrow>
    'i line_list \<Rightarrow> (nat option \<times> 'i line_list) option" where
  "fbc_insert_line_ER new raw next_line_er ir fn indent s =
     (case new of
        None \<Rightarrow> Some (None, s)
      | Some a \<Rightarrow>
          let s1 = s\<lparr>elems := (elems s)(a \<mapsto> raw\<lparr>config_stream_in := None, line_pos := - 1, ir_ptr := ir, print_fn := fn,
                 status := FBC_LINE_INSERTED, indent_level := indent\<rparr>)\<rparr>
          in case next_line_er of
               None \<Rightarrow> do { s2 \<leftarrow> fbc_list_append a s1; Some (Some a, s2) }
             | Some n \<Rightarrow>
                 do { next \<leftarrow> elems s1 n;
                      s2 \<leftarrow> (if indent = FBC_INDENT_ENTRY
                             then update_elem a (\<lambda>e. e\<lparr>indent_level := (indent_level next + 1) mod 256\<rparr>) s1
                             else Some s1);
                      s3 \<leftarrow> fbc_list_insert_prev n a s2;
                      Some (Some a, s3) })"

definition fbc_modify_line_ER :: "nat option \<Rightarrow> 'i line_list \<Rightarrow> 'i line_list option" where
  "fbc_modify_line_ER line_er s = do { a \<leftarrow> line_er; update_elem a (\<lambda>e. e\<lparr>status := FBC_LINE_MODIFIED\<rparr>) s }"

text \<open>The variable that holds the pointer to the line is an argument and a result.\<close>

definition fbc_edit_line_ER ::
  "nat option \<Rightarrow> 'i line_elem \<Rightarrow> nat option \<Rightarrow> nat option \<Rightarrow> 'i option \<Rightarrow> ('i option \<Rightarrow> string list \<Rightarrow> string) option \<Rightarrow> nat \<Rightarrow>
    'i line_list \<Rightarrow> (nat option \<times> 'i line_list) option" where
  "fbc_edit_line_ER new raw line_er next_line_er ir fn indent s =
     (if line_er = None then fbc_insert_line_ER new raw next_line_er ir fn indent s
      else do { s1 \<leftarrow> fbc_modify_line_ER line_er s; Some (line_er, s1) })"

definition fbc_delete_line_ER :: "nat option \<Rightarrow> 'i line_list \<Rightarrow> 'i line_list option" where
  "fbc_delete_line_ER line_er s =
     (case line_er of
        None \<Rightarrow> Some s
      | Some a \<Rightarrow> update_elem a (\<lambda>e. e\<lparr>ir_ptr := None, status := FBC_LINE_DELETED\<rparr>) s)"

section \<open>Closing\<close>

text \<open>The streams that \<^verbatim>\<open>fclose\<close> is called with, in this order; \<open>cur\<close> is the one closed last.\<close>

partial_function (option) close_loop :: "nat option \<Rightarrow> nat option \<Rightarrow> 'i line_list \<Rightarrow> nat option list option" where
  "close_loop line_er cur s =
     (case line_er of
        None \<Rightarrow> Some []
      | Some a \<Rightarrow>
          do { e \<leftarrow> elems s a;
               if status e \<noteq> FBC_LINE_INSERTED \<and> cur \<noteq> config_stream_in e
               then do { cs \<leftarrow> close_loop (next_ptr e) (config_stream_in e) s; Some (config_stream_in e # cs) }
               else close_loop (next_ptr e) cur s })"

definition fbc_close_down_config :: "'i line_list \<Rightarrow> (nat option list \<times> 'i line_list) option" where
  "fbc_close_down_config s =
     do { cs \<leftarrow> close_loop (head_ptr s) None s;
          s1 \<leftarrow> fbc_list_free s;
          Some (cs, s1) }"

section \<open>The store as a list\<close>

definition first :: "'a option \<Rightarrow> 'a list \<Rightarrow> 'a option" where
  "first n xs = (case xs of [] \<Rightarrow> n | x # ys \<Rightarrow> Some x)"

definition final :: "'a option \<Rightarrow> 'a list \<Rightarrow> 'a option" where
  "final p xs = (if xs = [] then p else Some (last xs))"

lemma first_final [simp]:
  "first n [] = n" "first n (x # xs) = Some x" "first n (xs @ ys) = first (first n ys) xs"
  "final p [] = p" "final p (x # xs) = final (Some x) xs" "final p (xs @ ys) = final (final p xs) ys"
  by (auto simp: first_def final_def split: list.splits)

text \<open>The elements \<open>xs\<close> are linked in this order, between the pointers \<open>p\<close> and \<open>n\<close>.\<close>

fun links :: "(nat \<rightharpoonup> 'i line_elem) \<Rightarrow> nat option \<Rightarrow> nat list \<Rightarrow> nat option \<Rightarrow> bool" where
  "links h p [] n \<longleftrightarrow> True"
| "links h p (x # xs) n \<longleftrightarrow>
     (\<exists>e. h x = Some e \<and> prev_ptr e = p \<and> next_ptr e = first n xs) \<and> links h (Some x) xs n"

lemma links_append [simp]: "links h p (xs @ ys) n \<longleftrightarrow> links h p xs (first n ys) \<and> links h (final p xs) ys n"
  by (induction xs arbitrary: p) auto

definition pointers :: "'i line_elem option \<Rightarrow> (nat option \<times> nat option) option" where
  "pointers = map_option (\<lambda>e. (prev_ptr e, next_ptr e))"

lemma links_cong: "\<forall>x\<in>set xs. pointers (h x) = pointers (h' x) \<Longrightarrow> links h p xs n \<longleftrightarrow> links h' p xs n"
proof (induction xs arbitrary: p)
  case (Cons x xs)
  then show ?case by (cases "h x"; cases "h' x") (auto simp: pointers_def)
qed simp

lemma links_upd [simp]: "a \<notin> set xs \<Longrightarrow> links (h(a := v)) p xs n \<longleftrightarrow> links h p xs n"
  by (rule links_cong) auto

lemma links_elem: "links h p xs n \<Longrightarrow> x \<in> set xs \<Longrightarrow> \<exists>e. h x = Some e"
  by (induction xs arbitrary: p) auto

definition dll :: "'i line_list \<Rightarrow> nat list \<Rightarrow> bool" where
  "dll s xs \<longleftrightarrow> distinct xs \<and> links (elems s) None xs None \<and> head_ptr s = first None xs \<and> tail_ptr s = final None xs"

lemma dll_empty [simp]: "dll fbc_line_ER_list []"
  by (simp add: dll_def fbc_line_ER_list_def)

text \<open>What an element holds besides the pointers.\<close>

definition line_data :: "'i line_list \<Rightarrow> nat \<Rightarrow> 'i line_elem option" where
  "line_data s a = map_option (\<lambda>e. e\<lparr>next_ptr := None, prev_ptr := None\<rparr>) (elems s a)"

lemma append_dll:
  assumes d: "dll s xs" and a: "a \<notin> set xs" "elems s a = Some e"
  shows "\<exists>s'. fbc_list_append a s = Some s' \<and> dll s' (xs @ [a]) \<and> line_data s' = line_data s"
proof (cases xs rule: rev_cases)
  case Nil
  then show ?thesis using assms
    by (auto simp: fbc_list_append_def update_elem_def dll_def line_data_def fun_eq_iff)
next
  case (snoc ys t)
  then obtain et where t: "elems s t = Some et" "prev_ptr et = final None ys" "next_ptr et = None"
    using d by (auto simp: dll_def)
  have ne: "t \<noteq> a" "t \<notin> set ys" "a \<notin> set ys" using snoc d a by (auto simp: dll_def)
  have l: "links (elems s) None ys (Some t)" "tail_ptr s = Some t" using d snoc by (auto simp: dll_def)
  then show ?thesis using d snoc t ne a
    by (auto simp: fbc_list_append_def update_elem_def dll_def line_data_def fun_eq_iff)
qed

lemma insert_prev_dll:
  assumes d: "dll s (ys @ n # zs)" and a: "a \<notin> set (ys @ n # zs)" "elems s a = Some e"
  shows "\<exists>s'. fbc_list_insert_prev n a s = Some s' \<and> dll s' (ys @ a # n # zs) \<and> line_data s' = line_data s"
proof -
  obtain en where n: "elems s n = Some en" "prev_ptr en = final None ys" "next_ptr en = first None zs"
    using d by (auto simp: dll_def)
  have ne: "n \<noteq> a" "n \<notin> set ys" "n \<notin> set zs" "a \<notin> set ys" "a \<notin> set zs" using d a by (auto simp: dll_def)
  show ?thesis
  proof (cases ys rule: rev_cases)
    case Nil
    then show ?thesis using d a n ne
      by (auto simp: fbc_list_insert_prev_def update_elem_def dll_def line_data_def fun_eq_iff)
  next
    case (snoc us p)
    then obtain ep where p: "elems s p = Some ep" "prev_ptr ep = final None us" "next_ptr ep = Some n"
      using d by (auto simp: dll_def)
    have "distinct (us @ p # n # zs)" using d snoc by (simp add: dll_def)
    then have ne': "p \<noteq> a" "p \<noteq> n" "n \<noteq> p" "a \<noteq> p" "a \<noteq> n" "p \<notin> set us" "p \<notin> set zs" "a \<notin> set us" "n \<notin> set us"
      using snoc a(1) by auto
    have "head_ptr s = first (Some p) us" using d snoc by (simp add: dll_def)
    then have hd: "head_ptr s \<noteq> Some n" using ne'(2,9) by (cases us) auto
    let ?h = "(elems s)(a \<mapsto> e\<lparr>next_ptr := Some n, prev_ptr := Some p\<rparr>, n \<mapsto> en\<lparr>prev_ptr := Some a\<rparr>, p \<mapsto> ep\<lparr>next_ptr := Some a\<rparr>)"
    have f: "prev_ptr en = Some p" using n(2) snoc by simp
    have "fbc_list_insert_prev n a s = Some (s\<lparr>elems := ?h\<rparr>)"
      using n(1) p(1) a(2) ne' hd f by (simp add: fbc_list_insert_prev_def update_elem_def)
    moreover have "dll (s\<lparr>elems := ?h\<rparr>) (ys @ a # n # zs)"
      using d snoc n p ne ne' by (simp add: dll_def)
    moreover have "line_data (s\<lparr>elems := ?h\<rparr>) = line_data s" using n(1) p(1) a(2) by (simp add: line_data_def fun_eq_iff)
    ultimately show ?thesis by blast
  qed
qed

lemma update_data_dll:
  assumes d: "dll s xs" and a: "elems s a = Some e" and p: "\<And>e. prev_ptr (f e) = prev_ptr e" "\<And>e. next_ptr (f e) = next_ptr e"
  shows "\<exists>s'. update_elem a f s = Some s' \<and> dll s' xs \<and> elems s' = (elems s)(a \<mapsto> f e)"
proof -
  have "links ((elems s)(a \<mapsto> f e)) q xs n \<longleftrightarrow> links (elems s) q xs n" for q n
    by (rule links_cong) (auto simp: pointers_def a p)
  then show ?thesis using d a by (auto simp: update_elem_def dll_def)
qed

section \<open>Edits of a sequence\<close>

text \<open>A run of edits, and that each edit is allowed where it is made.\<close>

fun edits :: "('e \<Rightarrow> 's \<Rightarrow> 's option) \<Rightarrow> 'e list \<Rightarrow> 's \<Rightarrow> 's option" where
  "edits edit [] s = Some s"
| "edits edit (e # es) s = (case edit e s of None \<Rightarrow> None | Some s' \<Rightarrow> edits edit es s')"

fun all_allowed :: "('e \<Rightarrow> 's \<Rightarrow> 'a list \<Rightarrow> bool) \<Rightarrow> ('e \<Rightarrow> 's \<Rightarrow> 's option) \<Rightarrow> ('e \<Rightarrow> 'a list \<Rightarrow> 'a list) \<Rightarrow> 'e list \<Rightarrow> 's \<Rightarrow> 'a list \<Rightarrow> bool" where
  "all_allowed ok edit place [] s xs \<longleftrightarrow> True"
| "all_allowed ok edit place (e # es) s xs \<longleftrightarrow>
     ok e s xs \<and> (case edit e s of None \<Rightarrow> True | Some s' \<Rightarrow> all_allowed ok edit place es s' (place e xs))"

text \<open>
  A provider of an editable sequence: its states represent lists, an edit that is allowed succeeds and changes the
  list as \<open>place\<close> says, which never removes or moves an element, and the position of an element, as well
  as the contents of an element that the edit does not name, stay as they are.
\<close>

locale line_sequence =
  fixes represents :: "'s \<Rightarrow> 'a list \<Rightarrow> bool"
    and allowed :: "'e \<Rightarrow> 's \<Rightarrow> 'a list \<Rightarrow> bool"
    and edit :: "'e \<Rightarrow> 's \<Rightarrow> 's option"
    and place :: "'e \<Rightarrow> 'a list \<Rightarrow> 'a list"
    and target :: "'e \<Rightarrow> 'a option"
    and position :: "'s \<Rightarrow> 'a \<Rightarrow> 'p"
    and contents :: "'s \<Rightarrow> 'a \<Rightarrow> 'c"
  assumes edit_place: "represents s xs \<Longrightarrow> allowed e s xs \<Longrightarrow> \<exists>s'. edit e s = Some s' \<and> represents s' (place e xs)"
    and place_subseq: "subseq xs (place e xs)"
    and edit_position: "represents s xs \<Longrightarrow> allowed e s xs \<Longrightarrow> edit e s = Some s' \<Longrightarrow> a \<in> set xs \<Longrightarrow> position s' a = position s a"
    and edit_contents: "represents s xs \<Longrightarrow> allowed e s xs \<Longrightarrow> edit e s = Some s' \<Longrightarrow> a \<in> set xs \<Longrightarrow> target e \<noteq> Some a \<Longrightarrow>
      contents s' a = contents s a"
begin

lemma edits_subseq: "subseq xs (fold place es xs)"
proof (induction es arbitrary: xs)
  case (Cons e es)
  then show ?case using place_subseq subseq_order.order_trans by fastforce
qed simp

lemma edits_refine:
  "represents s xs \<Longrightarrow> all_allowed allowed edit place es s xs \<Longrightarrow>
    \<exists>s'. edits edit es s = Some s' \<and> represents s' (fold place es xs) \<and>
      (\<forall>a\<in>set xs. position s' a = position s a \<and> ((\<forall>e\<in>set es. target e \<noteq> Some a) \<longrightarrow> contents s' a = contents s a))"
proof (induction es arbitrary: s xs)
  case (Cons e es)
  obtain s1 where s1: "edit e s = Some s1" "represents s1 (place e xs)"
    using edit_place [of s xs e] Cons.prems by auto
  have sub: "a \<in> set (place e xs)" if "a \<in> set xs" for a using list_emb_set [OF place_subseq that] by blast
  obtain s' where "edits edit es s1 = Some s'" "represents s' (fold place es (place e xs))"
    "\<forall>a\<in>set (place e xs). position s' a = position s1 a \<and> ((\<forall>e\<in>set es. target e \<noteq> Some a) \<longrightarrow> contents s' a = contents s1 a)"
    using Cons.IH [OF s1(2)] Cons.prems s1(1) by auto
  moreover have "position s1 a = position s a" "target e \<noteq> Some a \<Longrightarrow> contents s1 a = contents s a" if "a \<in> set xs" for a
    using edit_position [OF Cons.prems(1) _ s1(1) that] edit_contents [OF Cons.prems(1) _ s1(1) that] Cons.prems(2) by simp_all
  ultimately show ?case using s1(1) sub by auto
qed simp

end

section \<open>The editing functions\<close>

text \<open>Calls of the functions, with the address that an allocation returns and the contents found there.\<close>

datatype 'i line_edit =
  Save_location nat "'i line_elem" "nat option" int
| Link_line nat "'i option" "('i option \<Rightarrow> string list \<Rightarrow> string) option" nat
| Edit_line "nat option" "'i line_elem" "nat option" "nat option" "'i option" "('i option \<Rightarrow> string list \<Rightarrow> string) option" nat
| Delete_line "nat option"

fun apply_edit :: "'i line_edit \<Rightarrow> 'i line_list \<Rightarrow> 'i line_list option" where
  "apply_edit (Save_location a raw stream pos) s =
     (case fbc_save_line_location (Some a) raw stream pos s of Returned s' \<Rightarrow> Some s' | Exited \<Rightarrow> None | Undefined \<Rightarrow> None)"
| "apply_edit (Link_line a ir fn indent) s = fbc_link_line_ER (Some a) ir fn indent s"
| "apply_edit (Edit_line new raw line next ir fn indent) s =
     map_option snd (fbc_edit_line_ER new raw line next ir fn indent s)"
| "apply_edit (Delete_line line) s = fbc_delete_line_ER line s"

definition before :: "nat option \<Rightarrow> nat \<Rightarrow> nat list \<Rightarrow> nat list" where
  "before next a xs =
     (case next of None \<Rightarrow> xs @ [a] | Some n \<Rightarrow> takeWhile (\<lambda>x. x \<noteq> n) xs @ a # dropWhile (\<lambda>x. x \<noteq> n) xs)"

fun place_edit :: "'i line_edit \<Rightarrow> nat list \<Rightarrow> nat list" where
  "place_edit (Save_location a raw stream pos) xs = xs @ [a]"
| "place_edit (Edit_line new raw line next ir fn indent) xs =
     (case (line, new) of (None, Some a) \<Rightarrow> before next a xs | _ \<Rightarrow> xs)"
| "place_edit e xs = xs"

fun edit_target :: "'i line_edit \<Rightarrow> nat option" where
  "edit_target (Save_location a raw stream pos) = None"
| "edit_target (Link_line a ir fn indent) = Some a"
| "edit_target (Edit_line new raw line next ir fn indent) = line"
| "edit_target (Delete_line line) = line"

text \<open>Allocation returns an address that is not in use, and the lines named are in the list.\<close>

fun edit_allowed :: "'i line_edit \<Rightarrow> 'i line_list \<Rightarrow> nat list \<Rightarrow> bool" where
  "edit_allowed (Save_location a raw stream pos) s xs \<longleftrightarrow> a \<notin> set xs \<and> 0 \<le> pos"
| "edit_allowed (Link_line a ir fn indent) s xs \<longleftrightarrow> a \<in> set xs"
| "edit_allowed (Edit_line new raw line next ir fn indent) s xs \<longleftrightarrow>
     (case line of
        None \<Rightarrow> (\<forall>a. new = Some a \<longrightarrow> a \<notin> set xs) \<and> (\<forall>n. next = Some n \<longrightarrow> n \<in> set xs)
      | Some l \<Rightarrow> l \<in> set xs)"
| "edit_allowed (Delete_line line) s xs \<longleftrightarrow> (\<forall>l. line = Some l \<longrightarrow> l \<in> set xs)"

definition place_in_file :: "'i line_list \<Rightarrow> nat \<Rightarrow> (nat option \<times> int) option" where
  "place_in_file s a = map_option (\<lambda>e. (config_stream_in e, line_pos e)) (elems s a)"

lemma place_data: "line_data s' a = line_data s a \<Longrightarrow> place_in_file s' a = place_in_file s a"
  by (cases "elems s a"; cases "elems s' a") (auto simp: line_data_def place_in_file_def dest: arg_cong [where f = config_stream_in]
      arg_cong [where f = line_pos])

lemma dll_new: "dll s xs \<Longrightarrow> a \<notin> set xs \<Longrightarrow> dll (s\<lparr>elems := (elems s)(a \<mapsto> e)\<rparr>) xs"
  by (simp add: dll_def)

lemma dll_elem: "dll s xs \<Longrightarrow> a \<in> set xs \<Longrightarrow> \<exists>e. elems s a = Some e"
  unfolding dll_def by (blast intro: links_elem)

text \<open>What every edit does: the list as placed, other lines unchanged, the place in the file of every line unchanged.\<close>

definition edited :: "'i line_list \<Rightarrow> nat list \<Rightarrow> nat option \<Rightarrow> 'i line_list \<Rightarrow> nat list \<Rightarrow> bool" where
  "edited s xs target s' xs' \<longleftrightarrow> dll s' xs' \<and>
     (\<forall>a\<in>set xs. place_in_file s' a = place_in_file s a \<and> (target \<noteq> Some a \<longrightarrow> line_data s' a = line_data s a))"

lemma edited_update:
  assumes d: "dll s xs" and a: "a \<in> set xs"
    and p: "\<And>e. prev_ptr (f e) = prev_ptr e" "\<And>e. next_ptr (f e) = next_ptr e"
      "\<And>e. config_stream_in (f e) = config_stream_in e" "\<And>e. line_pos (f e) = line_pos e"
  shows "\<exists>s'. update_elem a f s = Some s' \<and> edited s xs (Some a) s' xs"
proof -
  obtain e where e: "elems s a = Some e" using dll_elem [OF d a] by blast
  then show ?thesis using update_data_dll [OF d e, of f] p by (auto simp: edited_def place_in_file_def line_data_def)
qed

lemma edited_new:
  assumes "line_data s' = line_data (s\<lparr>elems := (elems s)(a \<mapsto> e)\<rparr>)" "a \<notin> set xs" "dll s' xs'"
  shows "edited s xs t s' xs'"
proof -
  have "line_data s' b = line_data s b" if "b \<in> set xs" for b
    using assms that by (auto simp: line_data_def)
  then show ?thesis using assms(3) place_data by (auto simp: edited_def)
qed

lemma insert_line_edited:
  assumes d: "dll s xs" and a: "a \<notin> set xs" and n: "\<forall>n. next = Some n \<longrightarrow> n \<in> set xs"
  shows "\<exists>s'. fbc_insert_line_ER (Some a) raw next ir fn indent s = Some (Some a, s') \<and> edited s xs t s' (before next a xs)"
proof -
  let ?e = "raw\<lparr>config_stream_in := None, line_pos := - 1, ir_ptr := ir, print_fn := fn,
    status := FBC_LINE_INSERTED, indent_level := indent\<rparr>"
  let ?s = "s\<lparr>elems := (elems s)(a \<mapsto> ?e)\<rparr>"
  have d1: "dll ?s xs" using dll_new [OF d a] .
  show ?thesis
  proof (cases "next")
    case None
    obtain s' where s': "fbc_list_append a ?s = Some s'" "dll s' (xs @ [a])" "line_data s' = line_data ?s"
      using append_dll [OF d1 a] by auto
    then show ?thesis using None edited_new [OF s'(3) a s'(2)] by (simp add: fbc_insert_line_ER_def before_def Let_def)
  next
    case (Some m)
    then have m: "m \<in> set xs" "m \<noteq> a" using n a by auto
    let ?ys = "takeWhile (\<lambda>x. x \<noteq> m) xs" and ?zs = "tl (dropWhile (\<lambda>x. x \<noteq> m) xs)"
    have "dropWhile (\<lambda>x. x \<noteq> m) xs \<noteq> []" using m by simp
    moreover from this have "hd (dropWhile (\<lambda>x. x \<noteq> m) xs) = m" using hd_dropWhile by blast
    ultimately have dw: "dropWhile (\<lambda>x. x \<noteq> m) xs = m # ?zs" by (metis list.collapse)
    then have xs: "xs = ?ys @ m # ?zs" by (metis takeWhile_dropWhile_id)
    obtain em where em: "elems s m = Some em" using dll_elem [OF d m(1)] by blast
    define e2 where "e2 = (if indent = FBC_INDENT_ENTRY then ?e\<lparr>indent_level := (indent_level em + 1) mod 256\<rparr> else ?e)"
    let ?s2 = "s\<lparr>elems := (elems s)(a \<mapsto> e2)\<rparr>"
    have "dll ?s2 (?ys @ m # ?zs)" using dll_new [OF d a] xs by metis
    then obtain s' where s': "fbc_list_insert_prev m a ?s2 = Some s'" "dll s' (?ys @ a # m # ?zs)" "line_data s' = line_data ?s2"
      using insert_prev_dll [of ?s2 ?ys m ?zs a e2] a xs by auto
    moreover have "before (Some m) a xs = ?ys @ a # m # ?zs" using dw by (simp add: before_def)
    ultimately show ?thesis using Some em m(2) edited_new [OF s'(3) a s'(2)]
      by (auto simp: fbc_insert_line_ER_def Let_def e2_def update_elem_def split: if_splits)
  qed
qed

lemma apply_edit_edited:
  assumes "dll s xs" "edit_allowed e s xs"
  shows "\<exists>s'. apply_edit e s = Some s' \<and> edited s xs (edit_target e) s' (place_edit e xs)"
proof (cases e)
  case (Save_location a raw stream pos)
  let ?s = "s\<lparr>elems := (elems s)(a \<mapsto> raw\<lparr>config_stream_in := stream, line_pos := pos,
    ir_ptr := None, print_fn := None, status := FBC_LINE_ORIGINAL\<rparr>)\<rparr>"
  have a: "a \<notin> set xs" "0 \<le> pos" using assms(2) Save_location by auto
  obtain s' where s': "fbc_list_append a ?s = Some s'" "dll s' (xs @ [a])" "line_data s' = line_data ?s"
    using append_dll [OF dll_new [OF assms(1) a(1)] a(1)] by auto
  then show ?thesis using Save_location a edited_new [OF s'(3) a(1) s'(2)] by (auto simp: fbc_save_line_location_def)
next
  case (Link_line a ir fn indent)
  then show ?thesis using assms edited_update [OF assms(1), of a] by (simp add: fbc_link_line_ER_def)
next
  case (Edit_line new raw line nx ir fn indent)
  show ?thesis
  proof (cases line)
    case (Some l)
    then show ?thesis using Edit_line assms edited_update [OF assms(1), of l "\<lambda>e. e\<lparr>status := FBC_LINE_MODIFIED\<rparr>"]
      by (auto simp: fbc_edit_line_ER_def fbc_modify_line_ER_def)
  next
    case l: None
    show ?thesis
    proof (cases new)
      case None
      then show ?thesis using l Edit_line assms(1) by (simp add: fbc_edit_line_ER_def fbc_insert_line_ER_def edited_def)
    next
      case (Some a)
      then have "a \<notin> set xs" "\<forall>n. nx = Some n \<longrightarrow> n \<in> set xs" using l Edit_line assms(2) by auto
      from insert_line_edited [OF assms(1) this, of raw ir fn indent None] show ?thesis
        using l Some Edit_line by (auto simp: fbc_edit_line_ER_def)
    qed
  qed
next
  case (Delete_line line)
  then show ?thesis
    using assms edited_update [OF assms(1), of _ "\<lambda>e. e\<lparr>ir_ptr := None, status := FBC_LINE_DELETED\<rparr>"]
    by (cases line) (auto simp: fbc_delete_line_ER_def edited_def)
qed

lemma before_at: "n \<notin> set ys \<Longrightarrow> before (Some n) a (ys @ n # zs) = ys @ a # n # zs"
  by (induction ys) (auto simp: before_def)

lemma before_subseq: "subseq xs (before next a xs)"
proof (cases "next")
  case (Some n)
  have "subseq (takeWhile (\<lambda>x. x \<noteq> n) xs @ dropWhile (\<lambda>x. x \<noteq> n) xs) (takeWhile (\<lambda>x. x \<noteq> n) xs @ a # dropWhile (\<lambda>x. x \<noteq> n) xs)"
    by (intro list_emb_append_mono) auto
  then show ?thesis using Some by (simp add: before_def)
qed (simp add: before_def subseq_rev_drop_many)

interpretation er: line_sequence dll edit_allowed apply_edit place_edit edit_target place_in_file line_data
proof
  fix s :: "'a line_list" and e :: "'a line_edit" and xs s' a
  assume h: "dll s xs" "edit_allowed e s xs"
  obtain s1 where s1: "apply_edit e s = Some s1" "edited s xs (edit_target e) s1 (place_edit e xs)"
    using apply_edit_edited [OF h] by blast
  then show "\<exists>s'. apply_edit e s = Some s' \<and> dll s' (place_edit e xs)" by (auto simp: edited_def)
  assume "apply_edit e s = Some s'" "a \<in> set xs"
  then show "place_in_file s' a = place_in_file s a" "edit_target e \<noteq> Some a \<Longrightarrow> line_data s' a = line_data s a"
    using s1 by (auto simp: edited_def)
next
  fix xs and e :: "'a line_edit"
  show "subseq xs (place_edit e xs)"
    by (cases e) (auto simp: before_subseq split: option.splits)
qed

text \<open>
  C28. Whatever lines are recorded, linked, inserted, modified and deleted, and whether or not memory runs out for
  inserted lines, the doubly linked list stays well formed and holds the lines in the order the
  edits describe: the lines present before keep their order and their place in the configuration file, a new line
  stands at the end or just before the line it was inserted before, and a line that no edit names
  keeps its status and everything else it holds.
\<close>

theorem line_edits_keep_order:
  assumes "dll s xs" "all_allowed edit_allowed apply_edit place_edit es s xs"
  shows "\<exists>s'. edits apply_edit es s = Some s' \<and> dll s' (fold place_edit es xs) \<and> subseq xs (fold place_edit es xs) \<and>
    (\<forall>a\<in>set xs. place_in_file s' a = place_in_file s a \<and>
      ((\<forall>e\<in>set es. edit_target e \<noteq> Some a) \<longrightarrow> line_data s' a = line_data s a))"
  using er.edits_refine [OF assms] er.edits_subseq by blast

definition raw_line :: "unit line_elem" where
  "raw_line = \<lparr>next_ptr = None, prev_ptr = None, config_stream_in = None, line_pos = 0, ir_ptr = None, print_fn = None,
     status = FBC_LINE_ORIGINAL, indent_level = 0\<rparr>"

lemmas edit_defs = fbc_save_line_location_def fbc_edit_line_ER_def fbc_insert_line_ER_def fbc_modify_line_ER_def
  fbc_delete_line_ER_def fbc_link_line_ER_def fbc_list_append_def fbc_list_insert_prev_def update_elem_def

theorem line_edits_keep_order_witness:
  "\<exists>s'. edits apply_edit [Save_location 1 raw_line (Some 0) 0, Save_location 2 raw_line (Some 0) 9,
      Edit_line (Some 3) raw_line None (Some 2) None None 1, Delete_line (Some 3)] fbc_line_ER_list = Some s' \<and>
    dll s' [1, 3, 2]"
proof -
  let ?es = "[Save_location 1 raw_line (Some 0) 0, Save_location 2 raw_line (Some 0) 9,
      Edit_line (Some 3) raw_line None (Some 2) None None 1, Delete_line (Some 3)]"
  have "all_allowed edit_allowed apply_edit place_edit ?es fbc_line_ER_list []"
    by (simp add: edit_defs fbc_line_ER_list_def before_def Let_def)
  moreover have "fold place_edit ?es [] = [1, 3, 2]" by (simp add: before_def)
  ultimately show ?thesis using line_edits_keep_order [OF dll_empty, of ?es] by auto
qed

section \<open>Closing the files\<close>

definition line_at :: "'i line_list \<Rightarrow> nat \<Rightarrow> 'i line_elem" where
  "line_at s a = the (elems s a)"

text \<open>The streams of the lines that are not marked as inserted.\<close>

definition line_streams :: "'i line_list \<Rightarrow> nat list \<Rightarrow> nat option list" where
  "line_streams s xs = map (\<lambda>a. config_stream_in (line_at s a)) (filter (\<lambda>a. status (line_at s a) \<noteq> FBC_LINE_INSERTED) xs)"

lemma close_loop_links:
  "links (elems s) p xs None \<Longrightarrow> close_loop (first None xs) cur s = Some (tl (remdups_adj (cur # line_streams s xs)))"
proof (induction xs arbitrary: p cur)
  case Nil
  then show ?case by (simp add: close_loop.simps line_streams_def)
next
  case (Cons x xs)
  then obtain e where e: "elems s x = Some e" "next_ptr e = first None xs" by auto
  have IH: "close_loop (next_ptr e) c s = Some (tl (remdups_adj (c # line_streams s xs)))" for c
    using Cons.IH [of "Some x" c] Cons.prems e(2) by auto
  have c: "remdups_adj (c # ss) = c # tl (remdups_adj (c # ss))" for c :: "nat option" and ss
    by (cases ss) auto
  show ?case
  proof (cases "status e \<noteq> FBC_LINE_INSERTED \<and> cur \<noteq> config_stream_in e")
    case True
    then show ?thesis using e IH c [of "config_stream_in e" "line_streams s xs"]
      by (simp add: close_loop.simps [of "Some x"] line_streams_def line_at_def)
  next
    case False
    then show ?thesis using e IH by (auto simp: close_loop.simps [of "Some x"] line_streams_def line_at_def)
  qed
qed

lemma free_loop_links:
  "links (elems s) p xs None \<Longrightarrow> distinct xs \<Longrightarrow>
    free_loop (first None xs) s = Some (s\<lparr>elems := (\<lambda>a. if a \<in> set xs then None else elems s a)\<rparr>)"
proof (induction xs arbitrary: s p)
  case Nil
  then show ?case by (simp add: free_loop.simps)
next
  case (Cons x xs)
  then obtain e where e: "elems s x = Some e" "next_ptr e = first None xs" by auto
  let ?s = "s\<lparr>elems := (elems s)(x := None)\<rparr>"
  have "links (elems s) (Some x) xs None" "x \<notin> set xs" "distinct xs" using Cons.prems by auto
  then have "links (elems ?s) (Some x) xs None" using links_upd [of x xs "elems s" None] by simp
  from Cons.IH [OF this \<open>distinct xs\<close>]
  have "free_loop (first None xs) ?s = Some (?s\<lparr>elems := (\<lambda>a. if a \<in> set xs then None else elems ?s a)\<rparr>)" .
  moreover have "(\<lambda>a. if a \<in> set xs then None else elems ?s a) = (\<lambda>a. if a \<in> set (x # xs) then None else elems s a)"
    by auto
  ultimately show ?case using e by (simp add: free_loop.simps [of "Some x"])
qed

lemma close_down_dll:
  assumes "dll s xs"
  shows "\<exists>s'. fbc_close_down_config s = Some (tl (remdups_adj (None # line_streams s xs)), s') \<and> dll s' [] \<and>
    elems s' = (\<lambda>a. if a \<in> set xs then None else elems s a)"
  using assms close_loop_links [of s None xs None] free_loop_links [of s None xs]
  by (simp add: fbc_close_down_config_def fbc_list_free_def dll_def)

lemma remdups_adj_blocks:
  "distinct (c # map fst bs) \<Longrightarrow> \<forall>(f, k)\<in>set bs. 0 < k \<Longrightarrow>
    remdups_adj (c # concat (map (\<lambda>(f, k). replicate k f) bs)) = c # map fst bs"
proof (induction bs arbitrary: c)
  case (Cons b bs)
  obtain f k where b: "b = (f, Suc k)" using Cons.prems by (cases b) (auto simp: gr0_conv_Suc)
  have "remdups_adj (replicate (Suc j) f @ ss) = remdups_adj (f # ss)" for j ss
    by (induction j) auto
  from this [of k] show ?case using Cons.prems Cons.IH [of f] unfolding b by simp
qed simp

text \<open>
  Closing down after a run in which the lines of every file read are still together, and in which lines that
  were inserted have neither been modified nor deleted afterwards, closes every file exactly once, in the
  order of reading, and frees every line.
\<close>

theorem close_down_once:
  assumes "dll s xs" "line_streams s xs = concat (map (\<lambda>(f, k). replicate k (Some f)) files)"
    and "distinct (map fst files)" "\<forall>(f, k)\<in>set files. 0 < k"
  shows "\<exists>s'. fbc_close_down_config s = Some (map (\<lambda>(f, k). Some f) files, s') \<and> dll s' [] \<and> (\<forall>a\<in>set xs. elems s' a = None)"
proof -
  let ?bs = "map (\<lambda>(f, k). (Some f, k)) files"
  have "map fst ?bs = map Some (map fst files)" by (simp add: split_def)
  then have "distinct (None # map fst ?bs)" using assms(3) by (auto simp: distinct_map inj_on_def split_def)
  moreover have "\<forall>(f, k)\<in>set ?bs. 0 < k" using assms(4) by auto
  moreover have "line_streams s xs = concat (map (\<lambda>(f, k). replicate k f) ?bs)" using assms(2) by (simp add: comp_def split_def)
  ultimately have "tl (remdups_adj (None # line_streams s xs)) = map (\<lambda>(f, k). Some f) files"
    using remdups_adj_blocks [of None ?bs] by (simp add: comp_def split_def)
  then show ?thesis using close_down_dll [OF assms(1)] by auto
qed

theorem close_down_once_witness:
  "\<exists>s s'. edits apply_edit [Save_location 1 raw_line (Some 0) 0, Save_location 2 raw_line (Some 0) 9,
      Save_location 4 raw_line (Some 1) 0, Edit_line (Some 3) raw_line None (Some 2) None None 1] fbc_line_ER_list = Some s \<and>
    fbc_close_down_config s = Some ([Some 0, Some 1], s')"
proof -
  let ?es = "[Save_location 1 raw_line (Some 0) 0, Save_location 2 raw_line (Some 0) 9,
      Save_location 4 raw_line (Some 1) 0, Edit_line (Some 3) raw_line None (Some 2) None None 1]"
  have a: "all_allowed edit_allowed apply_edit place_edit ?es fbc_line_ER_list []"
    by (simp add: edit_defs fbc_line_ER_list_def before_def Let_def)
  have p: "fold place_edit ?es [] = [1, 3, 2, 4]" by (simp add: before_def)
  obtain s where s: "edits apply_edit ?es fbc_line_ER_list = Some s" "dll s [1, 3, 2, 4]"
    using er.edits_refine [OF dll_empty a] unfolding p by blast
  have "line_streams (the (edits apply_edit ?es fbc_line_ER_list)) [1, 3, 2, 4] =
      concat (map (\<lambda>(f, k). replicate k (Some f)) [(0, 2), (1, 1)])" by code_simp
  then have "line_streams s [1, 3, 2, 4] = concat (map (\<lambda>(f, k). replicate k (Some f)) [(0, 2), (1, 1)])"
    unfolding s(1) option.sel .
  then show ?thesis using s close_down_once [OF s(2), of "[(0, 2), (1, 1)]"] by auto
qed

text \<open>
  C38. When a line is inserted between two lines of a file and deleted again, closing down calls \<^verbatim>\<open>fclose\<close> with a null
  pointer and then with a stream that it has closed before.
\<close>

theorem deleted_insertion_closes_twice:
  assumes d: "dll s (ys @ n # zs)" and ys: "ys \<noteq> []" and a: "a \<notin> set (ys @ n # zs)"
    and f: "\<forall>l\<in>set (ys @ n # zs). config_stream_in (line_at s l) = Some f \<and> status (line_at s l) = FBC_LINE_ORIGINAL"
    and s1: "fbc_insert_line_ER (Some a) raw (Some n) ir fn indent s = Some (Some a, s1)"
    and s2: "fbc_delete_line_ER (Some a) s1 = Some s2"
  shows "\<exists>s3. fbc_close_down_config s2 = Some ([Some f, None, Some f], s3)"
proof -
  let ?xs = "ys @ n # zs"
  have n: "n \<notin> set ys" "a \<noteq> n" using d a by (auto simp: dll_def)
  have bf: "before (Some n) a ?xs = ys @ a # n # zs"
    using n before_at by simp
  obtain s1' where s1': "fbc_insert_line_ER (Some a) raw (Some n) ir fn indent s = Some (Some a, s1')"
    "edited s ?xs None s1' (ys @ a # n # zs)"
    using insert_line_edited [OF d a, of "Some n" raw ir fn indent None] unfolding bf by auto
  have e1: "edited s ?xs None s1 (ys @ a # n # zs)" using s1 s1' by simp
  then have d1: "dll s1 (ys @ a # n # zs)" by (simp add: edited_def)
  obtain s2' where "fbc_delete_line_ER (Some a) s1 = Some s2'" "edited s1 (ys @ a # n # zs) (Some a) s2' (ys @ a # n # zs)"
    using edited_update [OF d1, of a "\<lambda>e. e\<lparr>ir_ptr := None, status := FBC_LINE_DELETED\<rparr>"] by (auto simp: fbc_delete_line_ER_def)
  then have e2: "edited s1 (ys @ a # n # zs) (Some a) s2 (ys @ a # n # zs)" using s2 by simp
  have keep: "line_data s2 l = line_data s l" if "l \<in> set ?xs" for l
    using e1 e2 that a by (auto simp: edited_def)
  have st: "config_stream_in (line_at s2 l) = Some f \<and> status (line_at s2 l) = FBC_LINE_ORIGINAL" if l: "l \<in> set ?xs" for l
  proof -
    obtain e where e: "elems s l = Some e" using dll_elem [OF d l] by blast
    then obtain e' where e': "elems s2 l = Some e'" "e'\<lparr>next_ptr := None, prev_ptr := None\<rparr> = e\<lparr>next_ptr := None, prev_ptr := None\<rparr>"
      using keep [OF l] by (auto simp: line_data_def)
    have "config_stream_in e' = config_stream_in e" "status e' = status e"
      using arg_cong [OF e'(2), of config_stream_in] arg_cong [OF e'(2), of status] by simp_all
    then show ?thesis using bspec [OF f l] e e'(1) by (simp add: line_at_def)
  qed
  obtain ea where "elems s1 a = Some ea" using dll_elem [OF d1, of a] by auto
  moreover have "config_stream_in (line_at s1 a) = None"
    using s1 n a by (auto simp: edit_defs line_at_def Let_def split: option.splits if_splits Option.bind_splits)
  ultimately have an: "config_stream_in (line_at s2 a) = None" "status (line_at s2 a) = FBC_LINE_DELETED"
    using s2 by (auto simp: fbc_delete_line_ER_def update_elem_def line_at_def)
  have "line_streams s2 zs' = replicate (length zs') (Some f)" if "set zs' \<subseteq> set ?xs" for zs'
    using that st by (induction zs') (auto simp: line_streams_def)
  from this [of ys] this [of "n # zs"]
  have "line_streams s2 ys = replicate (length ys) (Some f)" "line_streams s2 (n # zs) = replicate (length (n # zs)) (Some f)"
    by auto
  moreover have "line_streams s2 (ys @ a # n # zs) = line_streams s2 ys @ None # line_streams s2 (n # zs)"
    using an by (simp add: line_streams_def)
  ultimately have ls: "line_streams s2 (ys @ a # n # zs) = replicate (length ys) (Some f) @ None # replicate (length (n # zs)) (Some f)"
    by simp
  obtain k where k: "length ys = Suc k" using ys by (cases ys) auto
  have r: "remdups_adj (Some f # replicate j (Some f) @ ss) = remdups_adj (Some f # ss)" for j ss by (induction j) auto
  have "tl (remdups_adj (None # line_streams s2 (ys @ a # n # zs))) = [Some f, None, Some f]"
    unfolding ls k using r [of k "None # Some f # replicate (length zs) (Some f)"] r [of "length zs" "[]"] by simp
  then show ?thesis using close_down_dll [of s2 "ys @ a # n # zs"] e2 by (auto simp: edited_def)
qed

theorem deleted_insertion_closes_twice_witness:
  "\<exists>s s1 s2 s3. edits apply_edit [Save_location 1 raw_line (Some 0) 0, Save_location 2 raw_line (Some 0) 9] fbc_line_ER_list = Some s \<and>
    fbc_insert_line_ER (Some 3) raw_line (Some 2) None None 1 s = Some (Some 3, s1) \<and>
    fbc_delete_line_ER (Some 3) s1 = Some s2 \<and>
    fbc_close_down_config s2 = Some ([Some 0, None, Some 0], s3)"
proof -
  let ?es = "[Save_location 1 raw_line (Some 0) 0, Save_location 2 raw_line (Some 0) 9]"
  have a: "all_allowed edit_allowed apply_edit place_edit ?es fbc_line_ER_list []"
    by (simp add: edit_defs fbc_line_ER_list_def)
  obtain s where s: "edits apply_edit ?es fbc_line_ER_list = Some s" "dll s [1, 2]"
    using er.edits_refine [OF dll_empty a] by auto
  have "\<forall>l\<in>set [1, 2]. config_stream_in (line_at (the (edits apply_edit ?es fbc_line_ER_list)) l) = Some 0 \<and>
      status (line_at (the (edits apply_edit ?es fbc_line_ER_list)) l) = FBC_LINE_ORIGINAL" by code_simp
  then have f: "\<forall>l\<in>set ([1] @ 2 # []). config_stream_in (line_at s l) = Some 0 \<and> status (line_at s l) = FBC_LINE_ORIGINAL"
    unfolding s(1) option.sel by simp
  obtain s1 where s1: "fbc_insert_line_ER (Some 3) raw_line (Some 2) None None 1 s = Some (Some 3, s1)" "dll s1 [1, 3, 2]"
    using insert_line_edited [OF s(2), of 3 "Some 2" raw_line None None 1 None] by (auto simp: edited_def before_def)
  obtain s2 where s2: "fbc_delete_line_ER (Some 3) s1 = Some s2"
    using edited_update [OF s1(2), of 3 "\<lambda>e. e\<lparr>ir_ptr := None, status := FBC_LINE_DELETED\<rparr>"] by (auto simp: fbc_delete_line_ER_def)
  from deleted_insertion_closes_twice [OF _ _ _ f s1(1) s2] s(1,2) s1(1) s2 show ?thesis by auto
qed

end
