(* ===== verification/Fbc_Modes.thy ===== *)
theory Fbc_Modes
  imports Fbc_Mode_Text Fbc_Line_ER
begin

text \<open>
  Modes sections of the configuration (\<^verbatim>\<open>components/x11/app/gfx-utils/sun-src/fbconf_xorg\<close>, \<^verbatim>\<open>fbc/fbc_Modes.c\<close>,
  \<^verbatim>\<open>fbc/fbc_Monitor.c\<close>, \<^verbatim>\<open>fbc/fbc_append_config.c\<close>, \<^verbatim>\<open>fbc/fbc_mode_list.c\<close>): the section of predefined modes is read from a
  supplementary file, entered into the Monitor section, trimmed to the mode chosen, and taken out of the lines to be
  written. A UseModes entry points to its Modes section by the position of that in the configuration.

  What the supplementary file contributes when it is parsed, and the outcomes of memory requests, are parameters.
\<close>

section \<open>The configuration\<close>

record modes_section =
  modes_identifier :: "string option"
  modes_modelines :: "mode_line list"
  begin_line_er :: "nat option"
  end_line_er :: "nat option"

record modes_link =
  ml_modes_str :: "string option"
  ml_modes :: nat
  link_line_er :: "nat option"

record monitor_section =
  mon_identifier :: "string option"
  mon_modeline_lst :: "mode_line list"
  mon_modes_sect_lst :: "modes_link list"
  mon_usemodes_line_er :: "nat option"
  mon_end_line_er :: "nat option"

text \<open>The internal representation of a line: that of a UseModes entry, or any other.\<close>

datatype ir_data = Use_modes modes_link | Other_entry nat

text \<open>The sections in question, the active Monitor section, the lines, and the number of memory requests made.\<close>

record config =
  conf_modes_lst :: "modes_section list"
  conf_monitor :: monitor_section
  conf_lines :: "ir_data line_list"
  requests :: nat

record env =
  mem_ok :: "nat \<Rightarrow> bool"
  mem_addr :: "nat \<Rightarrow> nat"
  mem_raw :: "ir_data line_elem"

text \<open>The file is missing, cannot be parsed, or adds Modes sections and leaves these lines.\<close>

datatype supplement = No_file | Bad_file | Loaded "modes_section list" "ir_data line_list"

definition xf86printMonitorSectionUseModes :: "ir_data option \<Rightarrow> string list \<Rightarrow> string" where
  "xf86printMonitorSectionUseModes ir whitespace =
     xf86printFields whitespace [''UseModes''] @
     quoted (case ir of Some (Use_modes l) \<Rightarrow> the (ml_modes_str l) | _ \<Rightarrow> []) @ NL"

text \<open>The position of the first section or UseModes entry of that name.\<close>

fun find_name :: "string \<Rightarrow> string option list \<Rightarrow> nat \<Rightarrow> nat option" where
  "find_name ident [] i = None"
| "find_name ident (name # names) i =
     (if xf86nameCompare (Some ident) name = Some 0 then Some i else find_name ident names (i + 1))"

definition xf86findModes :: "string \<Rightarrow> string option list \<Rightarrow> nat option" where
  "xf86findModes ident names = find_name ident names 0"

abbreviation section_names :: "config \<Rightarrow> string option list" where
  "section_names s \<equiv> map modes_identifier (conf_modes_lst s)"

abbreviation link_names :: "config \<Rightarrow> string option list" where
  "link_names s \<equiv> map ml_modes_str (mon_modes_sect_lst (conf_monitor s))"

definition name_buf_len :: nat where
  "name_buf_len = 80"

section \<open>UseModes entries\<close>

definition request :: "env \<Rightarrow> config \<Rightarrow> nat option \<times> config" where
  "request env s = (if mem_ok env (requests s) then Some (mem_addr env (requests s)) else None, s\<lparr>requests := requests s + 1\<rparr>)"

definition add_link :: "modes_link \<Rightarrow> config \<Rightarrow> config" where
  "add_link l s = s\<lparr>conf_monitor := (conf_monitor s)\<lparr>mon_modes_sect_lst := mon_modes_sect_lst (conf_monitor s) @ [l]\<rparr>\<rparr>"

definition set_usemodes_line :: "nat option \<Rightarrow> config \<Rightarrow> config" where
  "set_usemodes_line l s = s\<lparr>conf_monitor := (conf_monitor s)\<lparr>mon_usemodes_line_er := l\<rparr>\<rparr>"

text \<open>The entry of the particular monitor, with its line.\<close>

definition insert_monitor_entry :: "env \<Rightarrow> nat \<Rightarrow> string \<Rightarrow> config \<Rightarrow> (fbc_error \<times> config) fbc_run" where
  "insert_monitor_entry env sectn usemodes_name s =
     (case xf86findModes usemodes_name (link_names s) of
        Some i \<Rightarrow> Returned (FBC_SUCCESS, set_usemodes_line (link_line_er (mon_modes_sect_lst (conf_monitor s) ! i)) s)
      | None \<Rightarrow>
          (case request env s of
             (None, s1) \<Rightarrow> Returned (FBC_ERR_NOMEM, s1)
           | (Some p, s1) \<Rightarrow>
               (case request env s1 of
                  (q, s2) \<Rightarrow>
                    (case request env s2 of
                       (new, s3) \<Rightarrow>
                         (let l = \<lparr>ml_modes_str = (if q = None then None else Some usemodes_name), ml_modes = sectn, link_line_er = None\<rparr>
                          in case fbc_insert_line_ER new (mem_raw env) (mon_end_line_er (conf_monitor s3)) (Some (Use_modes l))
                               (Some xf86printMonitorSectionUseModes) FBC_INDENT_1 (conf_lines s3) of
                               None \<Rightarrow> Undefined
                             | Some (line, lines) \<Rightarrow>
                                 Returned (FBC_SUCCESS, set_usemodes_line line
                                   (add_link (l\<lparr>link_line_er := line\<rparr>) (s3\<lparr>conf_lines := lines\<rparr>))))))))"

definition fbc_insert_UseModes_entry :: "env \<Rightarrow> nat \<Rightarrow> config \<Rightarrow> (fbc_error \<times> config) fbc_run" where
  "fbc_insert_UseModes_entry env sectn s =
     (case request env s of
        (None, s1) \<Rightarrow> Returned (FBC_ERR_NOMEM, s1)
      | (Some p, s1) \<Rightarrow>
          (case request env s1 of
             (None, s2) \<Rightarrow> Returned (FBC_ERR_NOMEM, s2)
           | (Some q, s2) \<Rightarrow>
               (let name = modes_identifier (conf_modes_lst s2 ! sectn);
                    s3 = add_link \<lparr>ml_modes_str = name, ml_modes = sectn, link_line_er = None\<rparr> s2
                in case (name, mon_identifier (conf_monitor s3)) of
                     (Some a, Some b) \<Rightarrow>
                       if length a + length b + 2 > name_buf_len then Undefined
                       else insert_monitor_entry env sectn (a @ ''_'' @ b) s3
                   | _ \<Rightarrow> Undefined)))"

section \<open>The predefined modes\<close>

definition fbc_append_config :: "(string \<Rightarrow> ir_data line_list \<Rightarrow> supplement) \<Rightarrow> string \<Rightarrow> config \<Rightarrow> (fbc_error \<times> config) fbc_run" where
  "fbc_append_config read_supplement name s =
     (case read_supplement name (conf_lines s) of
        No_file \<Rightarrow> Returned (FBC_ERR_OPEN, s)
      | Bad_file \<Rightarrow> Exited
      | Loaded sections lines \<Rightarrow>
          Returned (FBC_SUCCESS, s\<lparr>conf_modes_lst := conf_modes_lst s @ sections, conf_lines := lines\<rparr>))"

definition enter_modes :: "env \<Rightarrow> nat \<Rightarrow> config \<Rightarrow> config fbc_run" where
  "enter_modes env sectn s =
     (if xf86findModes ''SunModes'' (link_names s) \<noteq> None then Returned s
      else case fbc_insert_UseModes_entry env sectn s of
             Returned (code, s1) \<Rightarrow> Returned s1
           | Exited \<Rightarrow> Exited
           | Undefined \<Rightarrow> Undefined)"

text \<open>
  The loop over the files to try; it ends with the first one that is found. A file without the section leads to an
  error message that takes a character for a string.
\<close>

fun modes_loop :: "env \<Rightarrow> (string \<Rightarrow> ir_data line_list \<Rightarrow> supplement) \<Rightarrow> string list \<Rightarrow> config \<Rightarrow> config fbc_run" where
  "modes_loop env read_supplement [] s = Returned s"
| "modes_loop env read_supplement (name # names) s =
     (case fbc_append_config read_supplement name s of
        Exited \<Rightarrow> Exited
      | Undefined \<Rightarrow> Undefined
      | Returned (code, s1) \<Rightarrow>
          if code \<noteq> FBC_SUCCESS then modes_loop env read_supplement names s1
          else case xf86findModes ''SunModes'' (section_names s1) of
                 None \<Rightarrow> Undefined
               | Some sectn \<Rightarrow> enter_modes env sectn s1)"

definition fbc_append_Modes_sections ::
  "env \<Rightarrow> (string \<Rightarrow> ir_data line_list \<Rightarrow> supplement) \<Rightarrow> string \<Rightarrow> config \<Rightarrow> config fbc_run" where
  "fbc_append_Modes_sections env read_supplement device_type s =
     (if length device_type + length ''SunModes'' + 1 > name_buf_len then Undefined
      else case xf86findModes ''SunModes'' (section_names s) of
             Some sectn \<Rightarrow> enter_modes env sectn s
           | None \<Rightarrow> modes_loop env read_supplement [device_type @ ''SunModes'', ''SunModes''] s)"

text \<open>The modes of a Monitor section: its own and those of the sections it uses.\<close>

definition monitor_modes :: "config \<Rightarrow> mode_line list list" where
  "monitor_modes s = mon_modeline_lst (conf_monitor s) #
     map (\<lambda>l. modes_modelines (conf_modes_lst s ! ml_modes l)) (mon_modes_sect_lst (conf_monitor s))"

text \<open>\<open>has_monitor\<close> says that the pointer to the Monitor section is not null.\<close>

definition fbc_get_mode_list ::
  "env \<Rightarrow> (string \<Rightarrow> ir_data line_list \<Rightarrow> supplement) \<Rightarrow> (nat \<Rightarrow> bool) \<Rightarrow> bool \<Rightarrow> string \<Rightarrow> config \<Rightarrow> (mode_line list \<times> config) fbc_run" where
  "fbc_get_mode_list env read_supplement mem has_monitor device_type s =
     (if \<not> has_monitor then Returned ([], s)
      else case fbc_append_Modes_sections env read_supplement device_type s of
        Exited \<Rightarrow> Exited
      | Undefined \<Rightarrow> Undefined
      | Returned s1 \<Rightarrow>
          (case append_sections mem 0 [] (monitor_modes s1) of
             Returned l \<Rightarrow> Returned (l, s1)
           | Exited \<Rightarrow> Exited
           | Undefined \<Rightarrow> Undefined))"

section \<open>Trimming\<close>

text \<open>The last mode of that name is kept, alone.\<close>

fun trim_loop :: "string \<Rightarrow> mode_line list \<Rightarrow> mode_line option \<Rightarrow> mode_line option" where
  "trim_loop name [] found = found"
| "trim_loop name (m # ms) found =
     trim_loop name ms (if xf86nameCompare (Some name) (ml_identifier m) = Some 0 then Some m else found)"

definition fbc_trim_Modes_sections :: "string \<Rightarrow> config \<Rightarrow> bool \<times> config" where
  "fbc_trim_Modes_sections name s =
     (case xf86findModes ''SunModes'' (section_names s) of
        None \<Rightarrow> (False, s)
      | Some i \<Rightarrow>
          (let sectn = conf_modes_lst s ! i; found = trim_loop name (modes_modelines sectn) None
           in (found \<noteq> None,
               s\<lparr>conf_modes_lst := (conf_modes_lst s)[i := sectn\<lparr>modes_modelines := (case found of None \<Rightarrow> [] | Some m \<Rightarrow> [m])\<rparr>]\<rparr>)))"

partial_function (option) delete_lines :: "nat option \<Rightarrow> nat option \<Rightarrow> 'i line_list \<Rightarrow> 'i line_list option" where
  "delete_lines line stop s =
     (if line = stop then (if stop = None then Some s else fbc_delete_line_ER line s)
      else
        (case line of
           None \<Rightarrow> None
         | Some a \<Rightarrow>
             (case fbc_delete_line_ER line s of
                None \<Rightarrow> None
              | Some s1 \<Rightarrow> (case elems s1 a of None \<Rightarrow> None | Some e \<Rightarrow> delete_lines (next_ptr e) stop s1))))"

definition monitor_modes_name :: "config \<Rightarrow> string option" where
  "monitor_modes_name s =
     (case mon_identifier (conf_monitor s) of
        None \<Rightarrow> None
      | Some b \<Rightarrow> if length ''SunModes_'' + length b + 1 > name_buf_len then None else Some (''SunModes_'' @ b))"

definition fbc_remove_monitor_sunmodes_section_ER :: "config \<Rightarrow> config option" where
  "fbc_remove_monitor_sunmodes_section_ER s =
     (case monitor_modes_name s of
        None \<Rightarrow> None
      | Some name \<Rightarrow>
          (case xf86findModes name (section_names s) of
             None \<Rightarrow> Some s
           | Some i \<Rightarrow>
               (let sectn = conf_modes_lst s ! i
                in case delete_lines (begin_line_er sectn) (end_line_er sectn) (conf_lines s) of
                     None \<Rightarrow> None
                   | Some lines \<Rightarrow> Some (s\<lparr>conf_lines := lines\<rparr>))))"

definition fbc_remove_monitor_usemodes_entry_ER :: "config \<Rightarrow> config option" where
  "fbc_remove_monitor_usemodes_entry_ER s =
     (case monitor_modes_name s of
        None \<Rightarrow> None
      | Some name \<Rightarrow>
          (case xf86findModes name (link_names s) of
             None \<Rightarrow> Some s
           | Some i \<Rightarrow>
               (case fbc_delete_line_ER (link_line_er (mon_modes_sect_lst (conf_monitor s) ! i)) (conf_lines s) of
                  None \<Rightarrow> None
                | Some lines \<Rightarrow> Some (s\<lparr>conf_lines := lines\<rparr>))))"

section \<open>Names\<close>

lemma nameCompare_0: "c_string a \<Longrightarrow> c_string b \<Longrightarrow> xf86nameCompare (Some a) (Some b) = Some 0 \<longleftrightarrow> norm_name a = norm_name b"
  using name_order_agrees [of a b] by (simp add: nameCompare_order agrees_def)

lemma find_name_append:
  "find_name x (as @ bs) i = (case find_name x as i of None \<Rightarrow> find_name x bs (i + length as) | Some j \<Rightarrow> Some j)"
  by (induction as arbitrary: i) (auto split: option.splits)

lemma find_name_Some:
  "find_name x names i = Some j \<Longrightarrow> i \<le> j \<and> j < i + length names \<and> xf86nameCompare (Some x) (names ! (j - i)) = Some 0"
proof (induction names arbitrary: i)
  case (Cons y ys)
  show ?case
  proof (cases "xf86nameCompare (Some x) y = Some 0")
    case False
    then have "find_name x ys (i + 1) = Some j" using Cons.prems by simp
    from Cons.IH [OF this] show ?thesis by (auto simp: nth_Cons split: nat.splits) (metis Suc_diff_Suc diff_Suc_eq_diff_pred less_eq_Suc_le nat.inject)
  qed (use Cons.prems in auto)
qed simp

lemma findModes_Some: "xf86findModes x names = Some j \<Longrightarrow> j < length names \<and> xf86nameCompare (Some x) (names ! j) = Some 0"
  using find_name_Some [of x names 0 j] by (simp add: xf86findModes_def)

section \<open>The list of modes\<close>

text \<open>
  C31. The modes available to a Monitor section, its own and those of the Modes sections it uses, the predefined ones
  included, are listed in strictly increasing order of the key, that is by width, height and frequency from
  the highest down, then by name: each mode with a positive number of pixels is represented by exactly one
  element that agrees with it in all its timings and in its name up to case and separators, and
  nothing else is listed.
\<close>

theorem mode_list_ordered:
  assumes "fbc_append_Modes_sections env read_supplement device_type s = Returned s1"
    and "all = concat (monitor_modes s1)" "\<forall>m\<in>set all. named m"
  shows "\<exists>l. fbc_get_mode_list env read_supplement (\<lambda>k. True) True device_type s = Returned (l, s1) \<and>
    sorted_wrt (\<lambda>a b. mode_key a < mode_key b) l \<and>
    set l \<subseteq> {m \<in> set all. 0 < total_pixels m} \<and>
    (\<forall>m\<in>set all. 0 < total_pixels m \<longrightarrow> (\<exists>!x. x \<in> set l \<and> mode_key x = mode_key m))"
proof -
  have "lists_modes [] []" by (simp add: lists_modes_def visible_def)
  from sections_lists [OF this, of "monitor_modes s1" 0]
  obtain l where l: "append_sections (\<lambda>k. True) 0 [] (monitor_modes s1) = Returned l" "lists_modes l all"
    using assms(2,3) by auto
  have "\<exists>!x. x \<in> set l \<and> mode_key x = mode_key m" if "m \<in> set all" "0 < total_pixels m" for m
  proof -
    have "mode_key m \<in> mode_key ` set l" using l(2) that by (auto simp: lists_modes_def visible_def)
    then obtain x where "x \<in> set l" "mode_key x = mode_key m" by force
    then show ?thesis using lists_modes_inj [OF l(2)] by (metis inj_onD)
  qed
  moreover have "fbc_get_mode_list env read_supplement (\<lambda>k. True) True device_type s = Returned (l, s1)"
    using assms(1) l(1) by (simp add: fbc_get_mode_list_def)
  ultimately show ?thesis using l(2) by (auto simp: lists_modes_def visible_def)
qed

definition sample_mode :: "string \<Rightarrow> int \<Rightarrow> int \<Rightarrow> int \<Rightarrow> mode_line" where
  "sample_mode name clock h v =
     \<lparr>ml_identifier = Some name, ml_clock = clock, ml_hdisplay = h, ml_hsyncstart = h, ml_hsyncend = h, ml_htotal = h,
      ml_vdisplay = v, ml_vsyncstart = v, ml_vsyncend = v, ml_vtotal = v, ml_vscan = 0, ml_flags = 0, ml_hskew = 0\<rparr>"

text \<open>A configuration with one Monitor section that already uses the predefined modes.\<close>

definition sample_sections :: "modes_section list" where
  "sample_sections = [\<lparr>modes_identifier = Some ''SunModes'',
     modes_modelines = [sample_mode ''VESA_STD_1280x1024x60'' 78643 1280 1024, sample_mode ''none'' 1 0 0,
       sample_mode ''vesa std 1280x1024x60'' 78643 1280 1024], begin_line_er = None, end_line_er = None\<rparr>]"

definition sample_config :: config where
  "sample_config = \<lparr>conf_modes_lst = sample_sections,
     conf_monitor = \<lparr>mon_identifier = Some ''Monitor0'', mon_modeline_lst = [sample_mode ''SUNW_STD_1152x900x66'' 68428 1152 900],
       mon_modes_sect_lst = [\<lparr>ml_modes_str = Some ''SunModes'', ml_modes = 0, link_line_er = None\<rparr>],
       mon_usemodes_line_er = None, mon_end_line_er = None\<rparr>,
     conf_lines = fbc_line_ER_list, requests = 0\<rparr>"

definition sample_env :: env where
  "sample_env = \<lparr>mem_ok = (\<lambda>k. True), mem_addr = (\<lambda>k. 10 + k),
     mem_raw = \<lparr>next_ptr = None, prev_ptr = None, config_stream_in = None, line_pos = 0, ir_ptr = None, print_fn = None,
       status = FBC_LINE_ORIGINAL, indent_level = 0\<rparr>\<rparr>"

lemmas sample_defs = sample_config_def sample_sections_def sample_env_def sample_mode_def

lemma sample_names: "xf86nameCompare (Some ''SunModes'') (Some ''SunModes'') = Some 0"
  by (subst nameCompare_0) simp_all

lemma sample_append: "fbc_append_Modes_sections sample_env f ''ast'' sample_config = Returned sample_config"
  by (simp add: fbc_append_Modes_sections_def name_buf_len_def xf86findModes_def enter_modes_def sample_config_def sample_sections_def sample_names)

theorem mode_list_ordered_witness:
  "\<exists>l. fbc_get_mode_list sample_env (\<lambda>name lines. No_file) (\<lambda>k. True) True ''ast'' sample_config = Returned (l, sample_config) \<and>
    sorted_wrt (\<lambda>a b. mode_key a < mode_key b) l"
proof -
  have "\<forall>m\<in>set (concat (monitor_modes sample_config)). named m"
    by (simp add: monitor_modes_def sample_defs named_def)
  with mode_list_ordered [OF sample_append refl] show ?thesis by blast
qed

section \<open>Trimming\<close>

definition same_name :: "string \<Rightarrow> mode_line \<Rightarrow> bool" where
  "same_name name m \<longleftrightarrow> xf86nameCompare (Some name) (ml_identifier m) = Some 0"

lemma trim_loop_last:
  "trim_loop name ms found = (if filter (same_name name) ms = [] then found else Some (last (filter (same_name name) ms)))"
  by (induction ms arbitrary: found) (auto simp: same_name_def)

lemma trim_modes:
  assumes "xf86findModes ''SunModes'' (section_names s) = Some i"
    and "ms = filter (same_name name) (modes_modelines (conf_modes_lst s ! i))"
  shows "fbc_trim_Modes_sections name s = (ms \<noteq> [], s\<lparr>conf_modes_lst := (conf_modes_lst s)
    [i := (conf_modes_lst s ! i)\<lparr>modes_modelines := (if ms = [] then [] else [last ms])\<rparr>]\<rparr>)"
  using assms by (simp add: fbc_trim_Modes_sections_def trim_loop_last Let_def)

section \<open>Deleting lines\<close>

text \<open>Lines marked as deleted; nothing else about the list changes.\<close>

definition deleted :: "'i line_elem \<Rightarrow> 'i line_elem" where
  "deleted e = e\<lparr>ir_ptr := None, status := FBC_LINE_DELETED\<rparr>"

lemma deleted_simps [simp]: "prev_ptr (deleted e) = prev_ptr e" "next_ptr (deleted e) = next_ptr e"
  "config_stream_in (deleted e) = config_stream_in e" "line_pos (deleted e) = line_pos e"
  by (simp_all add: deleted_def)

definition mark_deleted :: "nat list \<Rightarrow> 'i line_list \<Rightarrow> 'i line_list" where
  "mark_deleted xs s = s\<lparr>elems := (\<lambda>a. if a \<in> set xs then map_option deleted (elems s a) else elems s a)\<rparr>"

lemma mark_deleted_Nil [simp]: "mark_deleted [] s = s"
  by (simp add: mark_deleted_def)

lemma mark_deleted_step: "x \<notin> set xs \<Longrightarrow> mark_deleted xs (mark_deleted [x] s) = mark_deleted (x # xs) s"
  by (auto simp: mark_deleted_def fun_eq_iff intro!: arg_cong [where f = "\<lambda>f. s\<lparr>elems := f\<rparr>"])

lemma delete_line_mark: "elems s a = Some e \<Longrightarrow> fbc_delete_line_ER (Some a) s = Some (mark_deleted [a] s)"
  by (auto simp: fbc_delete_line_ER_def update_elem_def mark_deleted_def deleted_def intro!: arg_cong [where f = "\<lambda>f. s\<lparr>elems := f\<rparr>"])

lemma links_mark: "links (elems (mark_deleted ys s)) p xs n \<longleftrightarrow> links (elems s) p xs n"
  by (rule links_cong) (auto simp: mark_deleted_def pointers_def option.map_comp comp_def)

lemma dll_mark: "dll (mark_deleted ys s) xs \<longleftrightarrow> dll s xs"
  using links_mark [of ys s] by (simp add: dll_def) (simp add: mark_deleted_def)

lemma delete_lines_links:
  "links (elems s) p (xs @ [b]) n \<Longrightarrow> distinct (xs @ [b]) \<Longrightarrow> delete_lines (first (Some b) xs) (Some b) s = Some (mark_deleted (xs @ [b]) s)"
proof (induction xs arbitrary: p s)
  case Nil
  then show ?case by (auto simp: delete_lines.simps delete_line_mark)
next
  case (Cons x xs)
  then obtain e where e: "elems s x = Some e" "next_ptr e = first (Some b) xs" by auto
  let ?s = "mark_deleted [x] s"
  have "elems ?s x = Some (deleted e)" "x \<noteq> b" using e(1) Cons.prems(2) by (auto simp: mark_deleted_def)
  moreover have "links (elems s) (Some x) (xs @ [b]) n" "distinct (xs @ [b])" using Cons.prems by auto
  then have "delete_lines (first (Some b) xs) (Some b) ?s = Some (mark_deleted (xs @ [b]) ?s)"
    unfolding links_mark [of "[x]" s, symmetric] by (rule Cons.IH)
  moreover have "mark_deleted (xs @ [b]) ?s = mark_deleted ((x # xs) @ [b]) s"
    using mark_deleted_step [of x "xs @ [b]" s] Cons.prems(2) by simp
  ultimately show ?case using delete_line_mark [OF e(1)] e(2) by (simp add: delete_lines.simps [of "Some x"])
qed

text \<open>The lines from one line through another, along the pointers; none when both pointers are null.\<close>

fun line_path :: "'i line_list \<Rightarrow> nat option \<Rightarrow> nat option \<Rightarrow> nat list \<Rightarrow> bool" where
  "line_path s b e [] \<longleftrightarrow> b = None \<and> e = None"
| "line_path s b e (y # ys) \<longleftrightarrow>
     b = Some y \<and> (\<exists>x. elems s y = Some x \<and> (if e = Some y then ys = [] else line_path s (next_ptr x) e ys))"

lemma path_mark: "line_path (mark_deleted zs s) b e ys \<longleftrightarrow> line_path s b e ys"
proof (induction ys arbitrary: b)
  case (Cons y ys)
  then show ?case by (cases "elems s y") (auto simp: mark_deleted_def)
qed simp

lemma mark_deleted_Cons: "mark_deleted xs (mark_deleted [x] s) = mark_deleted (x # xs) s"
proof -
  have "map_option deleted (map_option deleted z) = map_option deleted z" for z :: "'a line_elem option"
    by (cases z) (simp_all add: deleted_def)
  then show ?thesis by (simp add: mark_deleted_def fun_eq_iff)
qed

lemma mark_deleted_append: "mark_deleted ys (mark_deleted xs s) = mark_deleted (xs @ ys) s"
proof (induction xs arbitrary: s)
  case (Cons x xs)
  then show ?case by (metis append_Cons mark_deleted_Cons)
qed simp

lemma delete_line_returns:
  assumes "fbc_delete_line_ER p s = Some s'"
  shows "s' = mark_deleted (case p of None \<Rightarrow> [] | Some a \<Rightarrow> [a]) s" "p = Some a \<Longrightarrow> elems s a \<noteq> None"
proof -
  show "s' = mark_deleted (case p of None \<Rightarrow> [] | Some a \<Rightarrow> [a]) s"
  proof (cases p)
    case (Some a)
    then obtain e where "elems s a = Some e" using assms by (auto simp: fbc_delete_line_ER_def update_elem_def split: option.splits)
    from delete_line_mark [OF this] show ?thesis using assms Some by simp
  qed (use assms in \<open>simp add: fbc_delete_line_ER_def\<close>)
  show "p = Some a \<Longrightarrow> elems s a \<noteq> None"
    using assms by (auto simp: fbc_delete_line_ER_def update_elem_def split: option.splits)
qed

lemma delete_lines_path:
  assumes "delete_lines b e s = Some s'"
  shows "\<exists>ys. line_path s b e ys \<and> s' = mark_deleted ys s"
proof (rule delete_lines.raw_induct [OF _ assms, of "\<lambda>b e s s'. \<exists>ys. line_path s b e ys \<and> s' = mark_deleted ys s"], goal_cases)
  case (1 f b e s s')
  show ?case
  proof (cases "b = e")
    case True
    show ?thesis
    proof (cases b)
      case None
      then show ?thesis using 1(2) True by (intro exI [of _ "[]"]) simp
    next
      case (Some a)
      then have d: "fbc_delete_line_ER (Some a) s = Some s'" using 1(2) True by simp
      from delete_line_returns [OF d] show ?thesis using Some True by (intro exI [of _ "[a]"]) auto
    qed
  next
    case False
    then obtain a s1 x where a: "b = Some a" "fbc_delete_line_ER (Some a) s = Some s1" "elems s1 a = Some x" "f (next_ptr x) e s1 = Some s'"
      using 1(2) by (auto split: option.splits)
    have s1: "s1 = mark_deleted [a] s" using delete_line_returns(1) [OF a(2)] by simp
    obtain x0 where x0: "elems s a = Some x0" "next_ptr x0 = next_ptr x"
      using a(3) delete_line_returns(2) [OF a(2) refl] unfolding s1 by (auto simp: mark_deleted_def)
    obtain ys where "line_path s1 (next_ptr x) e ys" "s' = mark_deleted ys s1" using 1(1) [OF a(4)] by blast
    then show ?thesis unfolding s1 path_mark mark_deleted_Cons using a(1) x0 False by (intro exI [of _ "a # ys"]) simp
  qed
qed

section \<open>Entering the predefined modes\<close>

lemma insert_line_new:
  assumes d: "dll s xs" and a: "a \<notin> set xs" and n: "n \<in> set xs" and indent: "indent \<noteq> FBC_INDENT_ENTRY"
  shows "\<exists>s'. fbc_insert_line_ER (Some a) raw (Some n) ir fn indent s = Some (Some a, s') \<and> dll s' (before (Some n) a xs) \<and>
    line_data s' = (line_data s)(a \<mapsto> raw\<lparr>config_stream_in := None, line_pos := - 1,
      ir_ptr := ir, print_fn := fn, status := FBC_LINE_INSERTED, indent_level := indent, next_ptr := None, prev_ptr := None\<rparr>)"
proof -
  let ?e = "raw\<lparr>config_stream_in := None, line_pos := - 1, ir_ptr := ir, print_fn := fn,
    status := FBC_LINE_INSERTED, indent_level := indent\<rparr>"
  let ?s = "s\<lparr>elems := (elems s)(a \<mapsto> ?e)\<rparr>"
  obtain ys zs where xs: "xs = ys @ n # zs" "n \<notin> set ys" using n by (meson split_list_first)
  obtain en where en: "elems s n = Some en" using dll_elem [OF d n] by blast
  have "dll ?s (ys @ n # zs)" using dll_new [OF d a] xs by simp
  then obtain s' where s': "fbc_list_insert_prev n a ?s = Some s'" "dll s' (ys @ a # n # zs)" "line_data s' = line_data ?s"
    using insert_prev_dll [of ?s ys n zs a ?e] a xs by auto
  have "takeWhile (\<lambda>x. x \<noteq> n) xs = ys" "dropWhile (\<lambda>x. x \<noteq> n) xs = n # zs"
    using xs by (auto simp: takeWhile_append dropWhile_append)
  then have "before (Some n) a xs = ys @ a # n # zs" by (simp add: before_def)
  moreover have "fbc_insert_line_ER (Some a) raw (Some n) ir fn indent s = Some (Some a, s')"
    using s'(1) en indent a n by (auto simp: fbc_insert_line_ER_def Let_def)
  moreover have "line_data ?s = (line_data s)(a \<mapsto> ?e\<lparr>next_ptr := None, prev_ptr := None\<rparr>)"
    by (simp add: line_data_def fun_eq_iff)
  ultimately show ?thesis using s'(2,3) by simp
qed

text \<open>
  C25. Suppose that the configuration has the section of predefined modes, that the Monitor section has a name and a recorded end and does not use the
  predefined modes yet, in general or for this monitor, that the names of the section, of the monitor and of the device fit into the 80 bytes
  reserved for them, and that memory is available. Then two entries that use the section are added to the Monitor section, a general one and one for this
  monitor, and an inserted line that will print the latter is put just before the end of the Monitor section and recorded as its
  UseModes line. The other lines are as they were, in their order with all that is recorded about them, and nothing else about the
  Monitor section and about the Modes sections changes. Asking again changes nothing.
\<close>

theorem predefined_modes_entered:
  assumes sec: "xf86findModes ''SunModes'' (section_names s) = Some i" "modes_identifier (conf_modes_lst s ! i) = Some a"
    and links: "xf86findModes ''SunModes'' (link_names s) = None" "xf86findModes (a @ ''_'' @ b) (link_names s @ [Some a]) = None"
    and mon: "mon_identifier (conf_monitor s) = Some b" "mon_end_line_er (conf_monitor s) = Some e"
    and fit: "length a + length b + 2 \<le> name_buf_len" "length device_type + 9 \<le> name_buf_len"
    and mem: "\<forall>k. mem_ok env k" "line = mem_addr env (requests s + 4)"
    and lines: "dll (conf_lines s) xs" "e \<in> set xs" "line \<notin> set xs"
  shows "\<exists>s1. fbc_append_Modes_sections env read_supplement device_type s = Returned s1 \<and>
    conf_modes_lst s1 = conf_modes_lst s \<and>
    conf_monitor s1 = (conf_monitor s)\<lparr>mon_modes_sect_lst := mon_modes_sect_lst (conf_monitor s) @
        [\<lparr>ml_modes_str = Some a, ml_modes = i, link_line_er = None\<rparr>,
         \<lparr>ml_modes_str = Some (a @ ''_'' @ b), ml_modes = i, link_line_er = Some line\<rparr>],
      mon_usemodes_line_er := Some line\<rparr> \<and>
    dll (conf_lines s1) (before (Some e) line xs) \<and>
    (\<forall>x. x \<noteq> line \<longrightarrow> line_data (conf_lines s1) x = line_data (conf_lines s) x) \<and>
    (\<exists>x. line_data (conf_lines s1) line = Some x \<and> status x = FBC_LINE_INSERTED \<and> indent_level x = 1 \<and>
      print_fn x = Some xf86printMonitorSectionUseModes \<and>
      ir_ptr x = Some (Use_modes \<lparr>ml_modes_str = Some (a @ ''_'' @ b), ml_modes = i, link_line_er = None\<rparr>)) \<and>
    fbc_append_Modes_sections env read_supplement device_type s1 = Returned s1"
proof -
  define l where "l = \<lparr>ml_modes_str = Some (a @ ''_'' @ b), ml_modes = i, link_line_er = None\<rparr>"
  obtain lines' where l': "fbc_insert_line_ER (Some line) (mem_raw env) (Some e) (Some (Use_modes l))
      (Some xf86printMonitorSectionUseModes) FBC_INDENT_1 (conf_lines s) = Some (Some line, lines')"
    "dll lines' (before (Some e) line xs)"
    "line_data lines' = (line_data (conf_lines s))(line \<mapsto> (mem_raw env)\<lparr>config_stream_in := None,
      line_pos := - 1, ir_ptr := Some (Use_modes l), print_fn := Some xf86printMonitorSectionUseModes, status := FBC_LINE_INSERTED,
      indent_level := FBC_INDENT_1, next_ptr := None, prev_ptr := None\<rparr>)"
    using insert_line_new [OF lines(1,3,2), of FBC_INDENT_1 "mem_raw env" "Some (Use_modes l)" "Some xf86printMonitorSectionUseModes"]
    by (auto simp: FBC_INDENT_1_def FBC_INDENT_ENTRY_def)
  define s3 where "s3 = add_link \<lparr>ml_modes_str = Some a, ml_modes = i, link_line_er = None\<rparr> (s\<lparr>requests := requests s + 2\<rparr>)"
  define s1 where "s1 = set_usemodes_line (Some line) (add_link (l\<lparr>link_line_er := Some line\<rparr>)
    (s3\<lparr>requests := requests s + 5, conf_lines := lines'\<rparr>))"
  have ln: "link_names s3 = link_names s @ [Some a]" by (simp add: s3_def add_link_def)
  have s3: "conf_lines s3 = conf_lines s" "requests s3 = requests s + 2" "mon_end_line_er (conf_monitor s3) = Some e"
    using mon(2) by (simp_all add: s3_def add_link_def)
  have r: "mem_addr env (requests s3 + 2) = line" "requests s3 + 3 = requests s + 5" using mem(2) s3(2) by (simp_all add: numeral_eq_Suc)
  have "insert_monitor_entry env i (a @ ''_'' @ b) s3 = Returned (FBC_SUCCESS, s1)"
    unfolding insert_monitor_entry_def ln s1_def r(2) [symmetric] using links(2) mem(1) l'(1) s3 r(1)
    by (simp add: request_def Let_def l_def numeral_eq_Suc)
  then have ins: "fbc_insert_UseModes_entry env i s = Returned (FBC_SUCCESS, s1)"
    using mem(1) sec(2) mon(1) fit(1)
    by (simp add: fbc_insert_UseModes_entry_def request_def Let_def add_link_def s3_def)
  have ap: "fbc_append_Modes_sections env read_supplement device_type s = Returned s1"
    using ins fit(2) sec(1) links(1) by (simp add: fbc_append_Modes_sections_def enter_modes_def)
  have s1: "conf_modes_lst s1 = conf_modes_lst s" "conf_lines s1 = lines'"
    "mon_modes_sect_lst (conf_monitor s1) = mon_modes_sect_lst (conf_monitor s) @
      [\<lparr>ml_modes_str = Some a, ml_modes = i, link_line_er = None\<rparr>, l\<lparr>link_line_er := Some line\<rparr>]"
    "conf_monitor s1 = (conf_monitor s)\<lparr>mon_modes_sect_lst := mon_modes_sect_lst (conf_monitor s1), mon_usemodes_line_er := Some line\<rparr>"
    by (simp_all add: s1_def s3_def set_usemodes_line_def add_link_def)
  have "xf86nameCompare (Some ''SunModes'') (Some a) = Some 0"
    using findModes_Some [OF sec(1)] sec(2) by auto
  then have "xf86findModes ''SunModes'' (link_names s1) \<noteq> None"
    using s1(3) links(1) by (simp add: xf86findModes_def find_name_append)
  then have "fbc_append_Modes_sections env read_supplement device_type s1 = Returned s1"
    using sec(1) fit(2) s1(1) by (simp add: fbc_append_Modes_sections_def enter_modes_def)
  moreover have "conf_monitor s1 = (conf_monitor s)\<lparr>mon_modes_sect_lst := mon_modes_sect_lst (conf_monitor s) @
        [\<lparr>ml_modes_str = Some a, ml_modes = i, link_line_er = None\<rparr>,
         \<lparr>ml_modes_str = Some (a @ ''_'' @ b), ml_modes = i, link_line_er = Some line\<rparr>],
      mon_usemodes_line_er := Some line\<rparr>" using s1(3,4) by (simp add: l_def)
  ultimately show ?thesis using ap s1(1,2) l'(2,3) by (simp add: l_def FBC_INDENT_1_def)
qed

definition sample_lines :: "ir_data line_list" where
  "sample_lines = \<lparr>elems = [1 \<mapsto> (mem_raw sample_env)\<lparr>config_stream_in := Some 0\<rparr>], head_ptr = Some 1, tail_ptr = Some 1\<rparr>"

definition new_monitor :: config where
  "new_monitor = sample_config\<lparr>conf_monitor := (conf_monitor sample_config)\<lparr>mon_modes_sect_lst := [], mon_end_line_er := Some 1\<rparr>,
     conf_lines := sample_lines\<rparr>"

theorem predefined_modes_entered_witness:
  "\<exists>s1. fbc_append_Modes_sections sample_env (\<lambda>name lines. No_file) ''ast'' new_monitor = Returned s1 \<and>
    map ml_modes_str (mon_modes_sect_lst (conf_monitor s1)) = [Some ''SunModes'', Some ''SunModes_Monitor0''] \<and>
    dll (conf_lines s1) [14, 1] \<and>
    fbc_append_Modes_sections sample_env (\<lambda>name lines. No_file) ''ast'' s1 = Returned s1"
proof -
  have n: "xf86findModes ''SunModes'' (section_names new_monitor) = Some 0" "xf86findModes ''SunModes'' (link_names new_monitor) = None"
    "xf86findModes (''SunModes'' @ ''_'' @ ''Monitor0'') (link_names new_monitor @ [Some ''SunModes'']) = None"
    by code_simp+
  have m: "modes_identifier (conf_modes_lst new_monitor ! 0) = Some ''SunModes''" "mon_identifier (conf_monitor new_monitor) = Some ''Monitor0''"
    "mon_end_line_er (conf_monitor new_monitor) = Some 1" "\<forall>k. mem_ok sample_env k" "14 = mem_addr sample_env (requests new_monitor + 4)"
    "mon_modes_sect_lst (conf_monitor new_monitor) = []"
    by (simp_all add: new_monitor_def sample_defs)
  have d: "dll (conf_lines new_monitor) [1]" by (simp add: dll_def new_monitor_def sample_lines_def sample_env_def)
  from predefined_modes_entered [OF n(1) m(1) n(2,3) m(2,3) _ _ m(4,5) d, of "''ast''" "\<lambda>name lines. No_file"] m(6)
  show ?thesis by (auto simp: name_buf_len_def before_def)
qed

end
