(* ===== verification/Fbc_Compat.thy ===== *)
theory Fbc_Compat
  imports Fbc_Mode_List "HOL-Library.Monad_Syntax"
begin

text \<open>
  Video modes that are known not to work with a combination of frame buffer and display
  (\<^verbatim>\<open>components/x11/app/gfx-utils/sun-src/fbconf_xorg/fbc/fbc_res_compatible.c\<close>). The program reads a file of such
  combinations line by line into a buffer, splits each line in place and compares the fields with the hardware.

  The buffer is a list of characters, null characters included, because the splitting can run past the
  end of a line into what earlier lines have left there. \<open>None\<close> is a read past the end of the buffer.
\<close>

section \<open>Splitting a line\<close>

abbreviation NUL :: char where
  "NUL \<equiv> CHR 0x00"

definition whitespace :: "char \<Rightarrow> bool" where
  "whitespace c \<longleftrightarrow> c = CHR 0x09 \<or> c = CHR 0x0A \<or> c = CHR '' ''"

text \<open>The first position from \<open>p\<close> on whose character does not satisfy the predicate.\<close>

definition span_at :: "(char \<Rightarrow> bool) \<Rightarrow> string \<Rightarrow> nat \<Rightarrow> nat option" where
  "span_at P buf p =
     (let q = p + length (takeWhile P (drop p buf)) in if q < length buf then Some q else None)"

definition skip_ws :: "string \<Rightarrow> nat \<Rightarrow> nat option" where
  "skip_ws = span_at whitespace"

definition to_ws :: "string \<Rightarrow> nat \<Rightarrow> nat option" where
  "to_ws = span_at (\<lambda>c. \<not> whitespace c \<and> c \<noteq> NUL)"

definition to_char :: "char \<Rightarrow> string \<Rightarrow> nat \<Rightarrow> nat option" where
  "to_char d = span_at (\<lambda>c. c \<noteq> d \<and> c \<noteq> NUL)"

definition text_at :: "string \<Rightarrow> nat \<Rightarrow> nat \<Rightarrow> string" where
  "text_at buf p q = take (q - p) (drop p buf)"

text \<open>The number at the start of a string, in the base its prefix says, and what follows it.\<close>

definition digit_value :: "char \<Rightarrow> int" where
  "digit_value c =
     (let n = cval c
      in if 48 \<le> n \<and> n \<le> 57 then n - 48 else if 97 \<le> n \<and> n \<le> 102 then n - 87
         else if 65 \<le> n \<and> n \<le> 70 then n - 55 else 99)"

fun digits :: "int \<Rightarrow> int \<Rightarrow> string \<Rightarrow> int \<times> string" where
  "digits base acc [] = (acc, [])"
| "digits base acc (c # cs) =
     (if digit_value c < base then digits base (acc * base + digit_value c) cs else (acc, c # cs))"

definition unsigned_number :: "string \<Rightarrow> (int \<times> string) option" where
  "unsigned_number s =
     (case s of
        [] \<Rightarrow> None
      | c # cs \<Rightarrow>
          if c = CHR ''0'' \<and> cs \<noteq> [] \<and> lower (cval (hd cs)) = cval (CHR ''x'') \<and> tl cs \<noteq> [] \<and> digit_value (hd (tl cs)) < 16
          then Some (digits 16 0 (tl cs))
          else if c = CHR ''0'' then Some (digits 8 0 s)
          else if digit_value c < 10 then Some (digits 10 0 s)
          else None)"

text \<open>The function skips every space of the C locale first: tab, line feed, vertical tab, form feed, carriage return, blank.\<close>

definition space_char :: "char \<Rightarrow> bool" where
  "space_char c \<longleftrightarrow> c = CHR '' '' \<or> 9 \<le> cval c \<and> cval c \<le> 13"

definition strtoul :: "string \<Rightarrow> int \<times> string" where
  "strtoul s =
     (let t = dropWhile space_char s;
          (neg, u) = (case t of [] \<Rightarrow> (False, t) | c # cs \<Rightarrow> if c = CHR ''-'' then (True, cs) else if c = CHR ''+'' then (False, cs) else (False, t))
      in case unsigned_number u of
           None \<Rightarrow> (0, s)
         | Some (v, rest) \<Rightarrow>
             (if v \<ge> 18446744073709551616 then 18446744073709551615 else if neg then (- v) mod 18446744073709551616 else v, rest))"

record comp_fields =
  fb_model_name :: "string option"
  manufacturer_id :: "string option"
  product_field :: "string option"
  product_code :: int
  video_mode :: "string option"
  error_text :: "string option"

definition no_fields :: comp_fields where
  "no_fields = \<lparr>fb_model_name = None, manufacturer_id = None, product_field = None, product_code = 0, video_mode = None,
     error_text = None\<rparr>"

definition parse_mode :: "string \<Rightarrow> nat \<Rightarrow> comp_fields \<Rightarrow> (fbc_error \<times> comp_fields \<times> string) option" where
  "parse_mode buf p f =
     do { p5 \<leftarrow> skip_ws buf p;
          p6 \<leftarrow> to_ws buf p5;
          let f1 = f\<lparr>video_mode := Some (text_at buf p5 p6)\<rparr>;
          if buf ! p6 = NUL then Some (FBC_SUCCESS, f1, buf)
          else
            do { let buf1 = buf[p6 := NUL];
                 p7 \<leftarrow> skip_ws buf1 (p6 + 1);
                 if buf1 ! p7 \<noteq> NUL
                 then Some (FBC_ERR_GENERAL, f1\<lparr>error_text := Some ''Garbage following video mode name''\<rparr>, buf1)
                 else Some (FBC_SUCCESS, f1, buf1) } }"

definition parse_product :: "string \<Rightarrow> nat \<Rightarrow> comp_fields \<Rightarrow> (fbc_error \<times> comp_fields \<times> string) option" where
  "parse_product buf p f =
     do { p4 \<leftarrow> to_ws buf p;
          let product = text_at buf p p4;
          let f1 = f\<lparr>product_field := Some product,
            error_text := (if product = [] \<or> buf ! p4 = NUL then Some ''Error near display device product code'' else error_text f)\<rparr>;
          let buf1 = buf[p4 := NUL];
          if product = ''*'' then parse_mode buf1 (p4 + 1) f1
          else
            (let (v, rest) = strtoul product; f2 = f1\<lparr>product_code := v mod 65536\<rparr>
             in if rest \<noteq> []
                then Some (FBC_ERR_GENERAL, f2\<lparr>error_text := Some ''Invalid display device product code''\<rparr>, buf1)
                else parse_mode buf1 (p4 + 1) f2) }"

definition fbc_res_comp_parse :: "string \<Rightarrow> (fbc_error \<times> comp_fields \<times> string) option" where
  "fbc_res_comp_parse line_buf =
     do { h \<leftarrow> to_char (CHR ''#'') line_buf 0;
          let buf = (if line_buf ! h = CHR ''#'' then line_buf[h := NUL] else line_buf);
          p0 \<leftarrow> skip_ws buf 0;
          if buf ! p0 = NUL then Some (FBC_SUCCESS, no_fields, buf)
          else
            do { p1 \<leftarrow> to_ws buf p0;
                 let f1 = no_fields\<lparr>fb_model_name := Some (text_at buf p0 p1),
                   error_text := (if buf ! p1 = NUL then Some ''Error near frame buffer model name'' else None)\<rparr>;
                 let buf1 = buf[p1 := NUL];
                 p2 \<leftarrow> skip_ws buf1 (p1 + 1);
                 p3 \<leftarrow> to_char (CHR '','') buf1 p2;
                 let f2 = f1\<lparr>manufacturer_id := Some (text_at buf1 p2 p3)\<rparr>;
                 if buf1 ! p3 = NUL
                 then Some (FBC_ERR_GENERAL, f2\<lparr>error_text := Some ''Error near display device manufacturer ID''\<rparr>, buf1)
                 else parse_product (buf1[p3 := NUL]) (p3 + 1) f2 } }"

section \<open>Looking the hardware up\<close>

record edid_mode =
  em_name :: string
  em_width :: int
  em_height :: int
  em_frequency :: int

record edid_res =
  edid_manufacturer :: string
  edid_product :: int
  edid_modes :: "edid_mode list option"

definition MAX_LINE_LEN :: nat where
  "MAX_LINE_LEN = 1024"

text \<open>
  What \<^verbatim>\<open>fgets\<close> leaves in the buffer when it stores \<open>line\<close>, and the pieces in which successive calls return a
  file: up to and including the next newline, but never more than fits into the buffer.
\<close>

definition fgets :: "string \<Rightarrow> string \<Rightarrow> string" where
  "fgets line buf = line @ NUL # drop (length line + 1) buf"

abbreviation LF :: char where
  "LF \<equiv> CHR 0x0A"

definition piece_len :: "string \<Rightarrow> nat" where
  "piece_len s = min (MAX_LINE_LEN - 1) (length (takeWhile (\<lambda>c. c \<noteq> LF) s) + 1)"

function read_lines :: "string \<Rightarrow> string list" where
  "read_lines s = (if s = [] then [] else take (piece_len s) s # read_lines (drop (piece_len s) s))"
  by pat_completeness auto
termination
  by (relation "measure length") (auto simp: piece_len_def MAX_LINE_LEN_def)

declare read_lines.simps [simp del]

definition display_matches :: "comp_fields \<Rightarrow> edid_res \<Rightarrow> bool" where
  "display_matches f d \<longleftrightarrow>
     (manufacturer_id f = Some ''*'' \<or> strcasecmp (the (manufacturer_id f)) (edid_manufacturer d) = 0) \<and>
     (product_field f = Some ''*'' \<or> product_code f = edid_product d)"

text \<open>Taking an incompatible mode out of the list for display; the elements are pointers to modes.\<close>

fun exclude_mode :: "string \<Rightarrow> mode_line option list \<Rightarrow> mode_line option list fbc_run" where
  "exclude_mode name [] = Returned []"
| "exclude_mode name (None # ms) = Undefined"
| "exclude_mode name (Some m # ms) =
     (case exclude_mode name ms of
        Returned l \<Rightarrow>
          Returned ((if ml_identifier m \<noteq> None \<and> strcasecmp name (the (ml_identifier m)) = 0 then None else Some m) # l)
      | Exited \<Rightarrow> Exited
      | Undefined \<Rightarrow> Undefined)"

text \<open>The answer and the list after the lines have been read; the displays are those of the streams in use.\<close>

fun fbc_res_comp_lookup ::
  "edid_res list \<Rightarrow> string \<Rightarrow> string option \<Rightarrow> mode_line option list option \<Rightarrow> string \<Rightarrow> string list \<Rightarrow>
    (bool \<times> mode_line option list option) fbc_run option" where
  "fbc_res_comp_lookup displays model res_mode_name res_mode_list buf [] = Some (Returned (True, res_mode_list))"
| "fbc_res_comp_lookup displays model res_mode_name res_mode_list buf (line # lines) =
     do { (code, f, buf1) \<leftarrow> fbc_res_comp_parse (fgets line buf);
          if code \<noteq> FBC_SUCCESS \<or> fb_model_name f = None \<or> strcasecmp (the (fb_model_name f)) model \<noteq> 0 \<or>
             \<not> list_ex (display_matches f) displays
          then fbc_res_comp_lookup displays model res_mode_name res_mode_list buf1 lines
          else if res_mode_name \<noteq> None \<and> strcasecmp (the (video_mode f)) (the res_mode_name) = 0
          then Some (Returned (False, res_mode_list))
          else (case res_mode_list of
                  None \<Rightarrow> fbc_res_comp_lookup displays model res_mode_name res_mode_list buf1 lines
                | Some l \<Rightarrow>
                    (case exclude_mode (the (video_mode f)) l of
                       Returned l1 \<Rightarrow> fbc_res_comp_lookup displays model res_mode_name (Some l1) buf1 lines
                     | Exited \<Rightarrow> Some Exited
                     | Undefined \<Rightarrow> Some Undefined)) }"

text \<open>The model name from the device, and the contents of the file when it could be opened.\<close>

definition fbc_res_compatible ::
  "string option \<Rightarrow> string option \<Rightarrow> string \<Rightarrow> edid_res list \<Rightarrow> string option \<Rightarrow> mode_line option list option \<Rightarrow>
    (bool \<times> mode_line option list option) fbc_run option" where
  "fbc_res_compatible model mode_comp buf displays res_mode_name res_mode_list =
     (case model of
        None \<Rightarrow> Some (Returned (True, res_mode_list))
      | Some m \<Rightarrow>
          (case mode_comp of
             None \<Rightarrow> Some (Returned (True, res_mode_list))
           | Some content \<Rightarrow> fbc_res_comp_lookup displays m res_mode_name res_mode_list buf (read_lines content)))"

section \<open>Lines of the documented form\<close>

lemma span_at_run:
  assumes "\<forall>x\<in>set xs. P x" "\<not> P y" "p = length pre"
  shows "span_at P (pre @ xs @ y # rest) p = Some (p + length xs)"
proof -
  have "takeWhile P (xs @ y # rest) = xs" using assms by (simp add: takeWhile_append2)
  then show ?thesis using assms(3) by (simp add: span_at_def)
qed

lemma text_at_run: "p = length pre \<Longrightarrow> text_at (pre @ xs @ rest) p (p + length xs) = xs"
  by (simp add: text_at_def)

lemma nth_run: "p = length pre \<Longrightarrow> (pre @ xs @ y # rest) ! (p + length xs) = y"
  by (simp add: nth_append)

lemma update_run: "p = length pre \<Longrightarrow> (pre @ xs @ y # rest)[p + length xs := z] = pre @ xs @ z # rest"
  by (simp add: list_update_append)

lemmas run_simps = text_at_run nth_run update_run

definition word :: "string \<Rightarrow> bool" where
  "word s \<longleftrightarrow> s \<noteq> [] \<and> (\<forall>c\<in>set s. \<not> whitespace c \<and> c \<noteq> NUL \<and> c \<noteq> CHR ''#'')"

definition blank :: "string \<Rightarrow> bool" where
  "blank s \<longleftrightarrow> (\<forall>c\<in>set s. whitespace c)"

lemma not_whitespace_NUL [simp]: "\<not> whitespace NUL" "\<not> whitespace (CHR ''#'')" "\<not> whitespace (CHR '','')"
  by (simp_all add: whitespace_def)

lemma word_hd: "word s \<Longrightarrow> \<exists>c cs. s = c # cs \<and> \<not> whitespace c \<and> c \<noteq> NUL"
  by (cases s) (auto simp: word_def)

lemma skip_blank:
  "blank sp \<Longrightarrow> \<not> whitespace y \<Longrightarrow> p = length pre \<Longrightarrow> skip_ws (pre @ sp @ y # rest) p = Some (p + length sp)"
  unfolding skip_ws_def by (rule span_at_run) (auto simp: blank_def)

lemma to_ws_word:
  "word w \<Longrightarrow> whitespace y \<or> y = NUL \<Longrightarrow> p = length pre \<Longrightarrow> to_ws (pre @ w @ y # rest) p = Some (p + length w)"
  unfolding to_ws_def by (rule span_at_run) (auto simp: word_def)

lemma parse_mode_word:
  assumes "blank sp" "word w" "blank te" "p = length pre"
  shows "\<exists>buf'. parse_mode (pre @ sp @ w @ te @ NUL # rest) p f = Some (FBC_SUCCESS, f\<lparr>video_mode := Some w\<rparr>, buf')"
proof -
  obtain c cs where w: "w = c # cs" "\<not> whitespace c" using word_hd [OF assms(2)] by auto
  have p5: "skip_ws (pre @ sp @ w @ te @ NUL # rest) p = Some (p + length sp)"
    using skip_blank [OF assms(1) w(2) assms(4)] by (simp add: w(1))
  have q: "p + length sp = length (pre @ sp)" using assms(4) by simp
  show ?thesis
  proof (cases te)
    case Nil
    have "to_ws ((pre @ sp) @ w @ NUL # rest) (p + length sp) = Some (p + length sp + length w)"
      using assms(2) q by (intro to_ws_word) auto
    then show ?thesis
      using p5 Nil run_simps [OF q, of w] by (simp add: parse_mode_def)
  next
    case (Cons y te')
    then have y: "whitespace y" "blank te'" using assms(3) by (auto simp: blank_def)
    have p6: "to_ws ((pre @ sp) @ w @ y # te' @ NUL # rest) (p + length sp) = Some (p + length sp + length w)"
      using assms(2) y(1) q by (intro to_ws_word) auto
    have p7: "skip_ws ((pre @ sp @ w @ [NUL]) @ te' @ NUL # rest) (p + length sp + length w + 1) =
        Some (p + length sp + length w + 1 + length te')"
      using y(2) assms(4) by (intro skip_blank) auto
    have "y \<noteq> NUL" using y(1) by auto
    moreover have "(pre @ sp @ w @ NUL # te' @ NUL # rest) ! (p + length sp + length w + 1 + length te') = NUL"
      using nth_run [of "p + length sp + length w + 1" "pre @ sp @ w @ [NUL]" te' NUL rest] assms(4) by simp
    ultimately show ?thesis
      using p5 p6 p7 Cons run_simps [OF q, of w] by (simp add: parse_mode_def)
  qed
qed

definition product_ok :: "string \<Rightarrow> bool" where
  "product_ok code \<longleftrightarrow> word code \<and> (code = ''*'' \<or> snd (strtoul code) = [])"

definition product_value :: "string \<Rightarrow> int" where
  "product_value code = (if code = ''*'' then 0 else fst (strtoul code) mod 65536)"

lemma parse_product_word:
  assumes "product_ok code" "whitespace w" "blank sp" "word mode" "blank te" "p = length pre"
    and f: "product_code f = 0"
  shows "\<exists>buf'. parse_product (pre @ code @ w # sp @ mode @ te @ NUL # rest) p f =
    Some (FBC_SUCCESS, f\<lparr>product_field := Some code, product_code := product_value code, video_mode := Some mode\<rparr>, buf')"
proof -
  have cd: "word code" "code \<noteq> []" using assms(1) by (auto simp: product_ok_def word_def)
  have p4: "to_ws (pre @ code @ w # sp @ mode @ te @ NUL # rest) p = Some (p + length code)"
    using cd assms(2,6) by (intro to_ws_word) auto
  have "w \<noteq> NUL" using assms(2) by auto
  moreover obtain buf' where "parse_mode ((pre @ code @ [NUL]) @ sp @ mode @ te @ NUL # rest) (p + length code + 1) g =
      Some (FBC_SUCCESS, g\<lparr>video_mode := Some mode\<rparr>, buf')" if "g = f\<lparr>product_field := Some code, product_code := product_value code\<rparr>" for g
    using parse_mode_word [OF assms(3-5), of "p + length code + 1" "pre @ code @ [NUL]" rest] assms(6) by fastforce
  moreover have "f\<lparr>product_field := Some code, error_text := error_text f\<rparr> = f\<lparr>product_field := Some code\<rparr>" by (cases f) simp
  moreover have "code = ''*'' \<Longrightarrow> f\<lparr>product_field := Some code\<rparr> = f\<lparr>product_field := Some code, product_code := product_value code\<rparr>"
    using f by (cases f) (simp add: product_value_def)
  ultimately show ?thesis
    using p4 cd assms(1) run_simps [OF assms(6), of code]
    by (auto simp: parse_product_def product_ok_def product_value_def case_prod_unfold Let_def)
qed

text \<open>An entry: model, manufacturer, product and mode, the blanks around them, and an optional comment.\<close>

record entry =
  e_model :: string
  e_manufacturer :: string
  e_product :: string
  e_mode :: string

definition entry_ok :: "entry \<Rightarrow> bool" where
  "entry_ok e \<longleftrightarrow> word (e_model e) \<and> product_ok (e_product e) \<and> word (e_mode e) \<and>
     (\<forall>c\<in>set (e_manufacturer e). c \<noteq> CHR '','' \<and> c \<noteq> NUL \<and> c \<noteq> CHR ''#'') \<and>
     (e_manufacturer e = [] \<or> \<not> whitespace (hd (e_manufacturer e)))"

definition entry_text :: "entry \<Rightarrow> string \<Rightarrow> char \<Rightarrow> string \<Rightarrow> char \<Rightarrow> string \<Rightarrow> string \<Rightarrow> string" where
  "entry_text e s0 w1 s1 w2 s2 s3 =
     s0 @ e_model e @ w1 # s1 @ e_manufacturer e @ CHR '','' # e_product e @ w2 # s2 @ e_mode e @ s3"

definition entry_fields :: "entry \<Rightarrow> comp_fields" where
  "entry_fields e = \<lparr>fb_model_name = Some (e_model e), manufacturer_id = Some (e_manufacturer e),
     product_field = Some (e_product e), product_code = product_value (e_product e), video_mode = Some (e_mode e), error_text = None\<rparr>"

definition comment :: "string \<Rightarrow> bool" where
  "comment s \<longleftrightarrow> s = [] \<or> hd s = CHR ''#''"

lemma strip_comment:
  assumes "\<forall>c\<in>set body. c \<noteq> NUL \<and> c \<noteq> CHR ''#''" "comment cm"
  shows "\<exists>h rest. to_char (CHR ''#'') (fgets (body @ cm) buf) 0 = Some h \<and>
    (if fgets (body @ cm) buf ! h = CHR ''#'' then (fgets (body @ cm) buf)[h := NUL] else fgets (body @ cm) buf) = body @ NUL # rest"
proof -
  have "\<exists>y r. fgets (body @ cm) buf = body @ y # r \<and> (y = NUL \<or> y = CHR ''#'')"
    using assms(2) by (cases cm) (auto simp: fgets_def comment_def)
  then obtain y r where y: "fgets (body @ cm) buf = body @ y # r" "y = NUL \<or> y = CHR ''#''" by blast
  have "to_char (CHR ''#'') (body @ y # r) 0 = Some (length body)"
    using span_at_run [of body "\<lambda>c. c \<noteq> CHR ''#'' \<and> c \<noteq> NUL" y 0 "[]" r] assms(1) y(2) by (auto simp: to_char_def)
  then show ?thesis using y by (auto simp: nth_append list_update_append)
qed

lemma parse_blank:
  assumes "blank body" "comment cm"
  shows "\<exists>buf'. fbc_res_comp_parse (fgets (body @ cm) buf) = Some (FBC_SUCCESS, no_fields, buf')"
proof -
  have "\<forall>c\<in>set body. c \<noteq> NUL \<and> c \<noteq> CHR ''#''" using assms(1) not_whitespace_NUL by (auto simp: blank_def)
  from strip_comment [OF this assms(2), of buf] obtain h rest where
    h: "to_char (CHR ''#'') (fgets (body @ cm) buf) 0 = Some h"
    "(if fgets (body @ cm) buf ! h = CHR ''#'' then (fgets (body @ cm) buf)[h := NUL] else fgets (body @ cm) buf) = body @ NUL # rest"
    by blast
  have "skip_ws (body @ NUL # rest) 0 = Some (length body)"
    using skip_blank [OF assms(1), of NUL 0 "[]" rest] by simp
  then show ?thesis using h by (simp add: fbc_res_comp_parse_def Let_def)
qed

lemma entry_chars:
  assumes "entry_ok e" "blank s0" "whitespace w1" "blank s1" "whitespace w2" "blank s2" "blank s3"
  shows "\<forall>c\<in>set (entry_text e s0 w1 s1 w2 s2 s3). c \<noteq> NUL \<and> c \<noteq> CHR ''#''"
  using assms not_whitespace_NUL(1,2)
  by (auto simp: entry_ok_def entry_text_def word_def product_ok_def blank_def)

lemma parse_entry:
  assumes e: "entry_ok e" and sp: "blank s0" "whitespace w1" "blank s1" "whitespace w2" "blank s2" "blank s3"
    and cm: "comment cm"
  shows "\<exists>buf'. fbc_res_comp_parse (fgets (entry_text e s0 w1 s1 w2 s2 s3 @ cm) buf) = Some (FBC_SUCCESS, entry_fields e, buf')"
proof -
  let ?b = "entry_text e s0 w1 s1 w2 s2 s3"
  obtain h rest where h: "to_char (CHR ''#'') (fgets (?b @ cm) buf) 0 = Some h"
    "(if fgets (?b @ cm) buf ! h = CHR ''#'' then (fgets (?b @ cm) buf)[h := NUL] else fgets (?b @ cm) buf) = ?b @ NUL # rest"
    using strip_comment [OF entry_chars [OF e sp] cm] by blast
  let ?m = "e_model e" and ?f = "e_manufacturer e"
  let ?Y = "e_product e @ w2 # s2 @ e_mode e @ s3 @ NUL # rest"
  let ?X = "s1 @ ?f @ CHR '','' # ?Y"
  have b: "?b @ NUL # rest = s0 @ ?m @ w1 # ?X" by (simp add: entry_text_def)
  have ok: "word ?m" "product_ok (e_product e)" "word (e_mode e)" using e by (simp_all add: entry_ok_def)
  obtain c cs where m: "?m = c # cs" "\<not> whitespace c" "c \<noteq> NUL" using word_hd [OF ok(1)] by auto
  have p0: "skip_ws (s0 @ ?m @ w1 # ?X) 0 = Some (length s0)"
    using skip_blank [OF sp(1) m(2), of 0 "[]"] by (simp add: m(1))
  have n0: "(s0 @ ?m @ w1 # ?X) ! length s0 = c" by (simp add: m(1) nth_append)
  have p1: "to_ws (s0 @ ?m @ w1 # ?X) (length s0) = Some (length s0 + length ?m)"
    using ok(1) sp(2) by (intro to_ws_word) auto
  let ?p = "length s0 + length ?m + 1"
  obtain y ys where y: "?f @ CHR '','' # ?Y = y # ys" "\<not> whitespace y"
    using e by (cases ?f) (auto simp: entry_ok_def)
  have p2: "skip_ws (s0 @ ?m @ NUL # ?X) ?p = Some (?p + length s1)"
    using skip_blank [OF sp(3) y(2), of ?p "s0 @ ?m @ [NUL]" ys] by (simp add: y(1))
  have q: "?p + length s1 = length (s0 @ ?m @ NUL # s1)" by simp
  have p3: "to_char (CHR '','') (s0 @ ?m @ NUL # ?X) (?p + length s1) = Some (?p + length s1 + length ?f)"
    using span_at_run [of ?f "\<lambda>c. c \<noteq> CHR '','' \<and> c \<noteq> NUL" "CHR '',''", OF _ _ q, of ?Y] e
    by (simp add: to_char_def entry_ok_def)
  note r1 = run_simps [of "length s0" s0, OF refl, of ?m]
  note r2 = run_simps [OF q, of ?f]
  let ?g = "no_fields\<lparr>fb_model_name := Some ?m, error_text := None, manufacturer_id := Some ?f\<rparr>"
  have q3: "?p + length s1 + length ?f + 1 = length (s0 @ ?m @ NUL # s1 @ ?f @ [NUL])" by simp
  obtain buf' where "parse_product ((s0 @ ?m @ NUL # s1 @ ?f @ [NUL]) @ ?Y) (?p + length s1 + length ?f + 1) ?g = Some (FBC_SUCCESS,
      ?g\<lparr>product_field := Some (e_product e), product_code := product_value (e_product e), video_mode := Some (e_mode e)\<rparr>, buf')"
    using parse_product_word [OF ok(2) sp(4,5) ok(3) sp(6) q3, of ?g] by (auto simp: no_fields_def)
  moreover have "w1 \<noteq> NUL" using sp(2) by auto
  ultimately show ?thesis
    using h p0 n0 p1 p2 p3 r1 r2 m(3) unfolding b
    by (simp add: fbc_res_comp_parse_def Let_def entry_fields_def no_fields_def)
qed

section \<open>Files of the documented form\<close>

datatype file_line =
  Blank_line string string
| Entry_line entry string char string char string string string

fun line_text :: "file_line \<Rightarrow> string" where
  "line_text (Blank_line sp cm) = sp @ cm"
| "line_text (Entry_line e s0 w1 s1 w2 s2 s3 cm) = entry_text e s0 w1 s1 w2 s2 s3 @ cm"

fun line_ok :: "file_line \<Rightarrow> bool" where
  "line_ok (Blank_line sp cm) \<longleftrightarrow> blank sp \<and> comment cm"
| "line_ok (Entry_line e s0 w1 s1 w2 s2 s3 cm) \<longleftrightarrow>
     entry_ok e \<and> blank s0 \<and> whitespace w1 \<and> blank s1 \<and> whitespace w2 \<and> blank s2 \<and> blank s3 \<and> comment cm"

fun line_entry :: "file_line \<Rightarrow> entry option" where
  "line_entry (Blank_line sp cm) = None"
| "line_entry (Entry_line e s0 w1 s1 w2 s2 s3 cm) = Some e"

lemma parse_line:
  assumes "line_ok ln"
  shows "\<exists>buf'. fbc_res_comp_parse (fgets (line_text ln) buf) =
    Some (FBC_SUCCESS, case line_entry ln of None \<Rightarrow> no_fields | Some e \<Rightarrow> entry_fields e, buf')"
  using assms parse_blank parse_entry by (cases ln) auto

text \<open>A line that the buffer can hold, closed by its only newline.\<close>

definition whole_line :: "file_line \<Rightarrow> bool" where
  "whole_line ln \<longleftrightarrow> line_ok ln \<and> (\<exists>u. line_text ln = u @ [LF] \<and> LF \<notin> set u \<and> length u < MAX_LINE_LEN - 1)"

lemma read_line:
  assumes "LF \<notin> set u" "length u < MAX_LINE_LEN - 1"
  shows "read_lines ((u @ [LF]) @ rest) = (u @ [LF]) # read_lines rest"
proof -
  have "takeWhile (\<lambda>c. c \<noteq> LF) (u @ LF # rest) = u" using assms(1) by (induction u) auto
  then have "piece_len ((u @ [LF]) @ rest) = length (u @ [LF])" using assms(2) by (simp add: piece_len_def)
  then show ?thesis by (subst read_lines.simps) simp
qed

lemma read_whole_lines: "\<forall>ln\<in>set lns. whole_line ln \<Longrightarrow> read_lines (concat (map line_text lns)) = map line_text lns"
proof (induction lns)
  case Nil
  then show ?case by (simp add: read_lines.simps)
next
  case (Cons ln lns)
  then obtain u where u: "line_text ln = u @ [LF]" "LF \<notin> set u" "length u < MAX_LINE_LEN - 1"
    by (auto simp: whole_line_def)
  then show ?case using Cons read_line [OF u(2,3)] by simp
qed

text \<open>The entry names this model and one of the displays.\<close>

definition same_hardware :: "entry \<Rightarrow> string \<Rightarrow> edid_res list \<Rightarrow> bool" where
  "same_hardware e model displays \<longleftrightarrow> map low (e_model e) = map low model \<and>
     (\<exists>d\<in>set displays.
        (e_manufacturer e = ''*'' \<or> map low (e_manufacturer e) = map low (edid_manufacturer d)) \<and>
        (e_product e = ''*'' \<or> product_value (e_product e) = edid_product d))"

definition hardware_ok :: "string \<Rightarrow> edid_res list \<Rightarrow> bool" where
  "hardware_ok model displays \<longleftrightarrow> c_string model \<and> (\<forall>d\<in>set displays. c_string (edid_manufacturer d))"

lemma entry_strings: "entry_ok e \<Longrightarrow> c_string (e_model e) \<and> c_string (e_manufacturer e) \<and> c_string (e_mode e)"
  by (auto simp: entry_ok_def word_def c_string_def)

lemma entry_matches:
  assumes "entry_ok e" "hardware_ok model displays"
  shows "fb_model_name (entry_fields e) \<noteq> None \<and> strcasecmp (the (fb_model_name (entry_fields e))) model = 0 \<and>
    list_ex (display_matches (entry_fields e)) displays \<longleftrightarrow> same_hardware e model displays"
  using assms entry_strings [OF assms(1)]
  by (auto simp: entry_fields_def same_hardware_def hardware_ok_def list_ex_iff display_matches_def strcasecmp_0)

text \<open>What a line does, in terms of its entry.\<close>

definition after_line ::
  "edid_res list \<Rightarrow> string \<Rightarrow> string option \<Rightarrow> mode_line option list option \<Rightarrow> entry option \<Rightarrow> string \<Rightarrow> string list \<Rightarrow>
    (bool \<times> mode_line option list option) fbc_run option" where
  "after_line displays model name l ent buf lines =
     (case ent of
        None \<Rightarrow> fbc_res_comp_lookup displays model name l buf lines
      | Some e \<Rightarrow>
          if \<not> same_hardware e model displays then fbc_res_comp_lookup displays model name l buf lines
          else if name \<noteq> None \<and> strcasecmp (e_mode e) (the name) = 0 then Some (Returned (False, l))
          else (case l of
                  None \<Rightarrow> fbc_res_comp_lookup displays model name l buf lines
                | Some ms \<Rightarrow>
                    (case exclude_mode (e_mode e) ms of
                       Returned l1 \<Rightarrow> fbc_res_comp_lookup displays model name (Some l1) buf lines
                     | Exited \<Rightarrow> Some Exited
                     | Undefined \<Rightarrow> Some Undefined)))"

lemma lookup_line:
  assumes "line_ok ln" "hardware_ok model displays"
  shows "\<exists>buf'. fbc_res_comp_lookup displays model name l buf (line_text ln # lines) =
    after_line displays model name l (line_entry ln) buf' lines"
proof -
  obtain buf' where p: "fbc_res_comp_parse (fgets (line_text ln) buf) =
      Some (FBC_SUCCESS, case line_entry ln of None \<Rightarrow> no_fields | Some e \<Rightarrow> entry_fields e, buf')"
    using parse_line [OF assms(1)] by blast
  show ?thesis
  proof (cases "line_entry ln")
    case None
    then show ?thesis using p by (auto simp: no_fields_def after_line_def)
  next
    case (Some e)
    then have "entry_ok e" using assms(1) by (cases ln) auto
    note m = entry_matches [OF this assms(2)]
    have v: "the (video_mode (entry_fields e)) = e_mode e" by (simp add: entry_fields_def)
    show ?thesis using p Some m v
      by (intro exI [of _ buf']) (auto simp: after_line_def split: option.splits fbc_run.splits)
  qed
qed

declare fbc_res_comp_lookup.simps(2) [simp del]

lemma lookup_name:
  "\<forall>ln\<in>set lns. line_ok ln \<Longrightarrow> hardware_ok model displays \<Longrightarrow> c_string mode \<Longrightarrow>
    fbc_res_comp_lookup displays model (Some mode) None buf (map line_text lns) =
    Some (Returned (\<not> (\<exists>ln\<in>set lns. \<exists>e. line_entry ln = Some e \<and> same_hardware e model displays \<and>
      map low (e_mode e) = map low mode), None))"
proof (induction lns arbitrary: buf)
  case (Cons ln lns)
  obtain buf' where b: "fbc_res_comp_lookup displays model (Some mode) None buf (line_text ln # map line_text lns) =
      after_line displays model (Some mode) None (line_entry ln) buf' (map line_text lns)"
    using lookup_line [OF _ Cons.prems(2)] Cons.prems(1) by fastforce
  have "strcasecmp (e_mode e) mode = 0 \<longleftrightarrow> map low (e_mode e) = map low mode" if "line_entry ln = Some e" for e
    using that Cons.prems(1,3) entry_strings by (cases ln) (auto simp: strcasecmp_0)
  then show ?case using b Cons.IH [of buf'] Cons.prems by (cases "line_entry ln") (auto simp: after_line_def)
qed simp

text \<open>
  C30. For a file of the documented form, whatever comments, blank lines and spacing it has and whatever the line
  buffer held before, a video mode is reported as incompatible exactly when the file has an entry for
  this model of frame buffer, for one of the displays in use, wildcards included, and for that mode. Lines end
  with a newline and fit into the buffer.
\<close>

theorem incompatible_modes:
  assumes "\<forall>ln\<in>set lns. whole_line ln" "hardware_ok model displays" "c_string mode"
  shows "fbc_res_compatible (Some model) (Some (concat (map line_text lns))) buf displays (Some mode) None =
    Some (Returned (\<not> (\<exists>ln\<in>set lns. \<exists>e. line_entry ln = Some e \<and> same_hardware e model displays \<and>
      map low (e_mode e) = map low mode), None))"
  using lookup_name [OF _ assms(2,3), of lns buf] assms(1) read_whole_lines [OF assms(1)]
  by (simp add: fbc_res_compatible_def whole_line_def)

theorem incompatible_modes_witness:
  "fbc_res_compatible (Some ''SUNW,XVR-100'')
      (Some (concat (map line_text [Blank_line [] (''# Hardware'' @ [LF]),
        Entry_line \<lparr>e_model = ''SUNW,XVR-100'', e_manufacturer = ''SUN'', e_product = ''0x586'', e_mode = ''SUNW_STD_1280x1024x76''\<rparr>
          [] (CHR '' '') '' '' (CHR '' '') [] [LF] []])))
      (replicate 1024 NUL) [\<lparr>edid_manufacturer = ''sun'', edid_product = 1414, edid_modes = None\<rparr>]
      (Some ''sunw_std_1280x1024x76'') None = Some (Returned (False, None))"
proof -
  let ?e = "\<lparr>e_model = ''SUNW,XVR-100'', e_manufacturer = ''SUN'', e_product = ''0x586'', e_mode = ''SUNW_STD_1280x1024x76''\<rparr>"
  let ?l = "Entry_line ?e [] (CHR '' '') '' '' (CHR '' '') [] [LF] []"
  let ?b = "Blank_line [] (''# Hardware'' @ [LF])"
  let ?d = "[\<lparr>edid_manufacturer = ''sun'', edid_product = 1414, edid_modes = None\<rparr>]"
  have "line_ok ?l" "line_ok ?b" by code_simp+
  moreover have "line_text ?l = ''SUNW,XVR-100  SUN,0x586 SUNW_STD_1280x1024x76'' @ [LF]" "line_text ?b = ''# Hardware'' @ [LF]"
    by (simp_all add: entry_text_def)
  ultimately have "whole_line ?l" "whole_line ?b" unfolding whole_line_def MAX_LINE_LEN_def by simp_all
  then have ok: "\<forall>ln\<in>set [?b, ?l]. whole_line ln" by simp
  have hw: "hardware_ok ''SUNW,XVR-100'' ?d" "c_string ''sunw_std_1280x1024x76''" by (simp_all add: hardware_ok_def)
  have "line_entry ?l = Some ?e" "same_hardware ?e ''SUNW,XVR-100'' ?d" "map low (e_mode ?e) = map low ''sunw_std_1280x1024x76''"
    by code_simp+
  then show ?thesis unfolding incompatible_modes [OF ok hw] by auto
qed

text \<open>
  When the modes are to be listed, an entry that removes a mode leaves a null pointer in the list, and the
  next entry for the same hardware reads through it.
\<close>

lemma second_exclusion_undefined:
  assumes w: "\<forall>ln\<in>set (l1 # l2 # lns). whole_line ln" and hw: "hardware_ok model displays"
    and e1: "line_entry l1 = Some e1" "same_hardware e1 model displays"
    and e2: "line_entry l2 = Some e2" "same_hardware e2 model displays"
    and m: "ml_identifier m = Some (e_mode e1)"
  shows "fbc_res_compatible (Some model) (Some (concat (map line_text (l1 # l2 # lns)))) buf displays None (Some [Some m]) = Some Undefined"
proof -
  have ok: "line_ok l1" "line_ok l2" using w by (auto simp: whole_line_def)
  then have "entry_ok e1" using e1(1) by (cases l1) auto
  then have "strcasecmp (e_mode e1) (e_mode e1) = 0" using entry_strings by (auto simp: strcasecmp_0)
  then have ex: "exclude_mode (e_mode e1) [Some m] = Returned [None]" using m by simp
  obtain buf1 where "fbc_res_comp_lookup displays model None (Some [Some m]) buf (map line_text (l1 # l2 # lns)) =
      after_line displays model None (Some [Some m]) (Some e1) buf1 (map line_text (l2 # lns))"
    using lookup_line [OF ok(1) hw, of None "Some [Some m]" buf "map line_text (l2 # lns)"] e1(1) by auto
  moreover obtain buf2 where "fbc_res_comp_lookup displays model None (Some [None]) buf1 (map line_text (l2 # lns)) =
      after_line displays model None (Some [None]) (Some e2) buf2 (map line_text lns)"
    using lookup_line [OF ok(2) hw, of None "Some [None]" buf1 "map line_text lns"] e2(1) by auto
  ultimately show ?thesis using e1(2) e2(2) ex unfolding fbc_res_compatible_def option.case read_whole_lines [OF w]
    by (simp add: after_line_def)
qed

end
