(* ===== verification/Fbc_Res.thy ===== *)
theory Fbc_Res
  imports Fbc_Modes Fbc_Compat
begin

text \<open>
  Choosing a video mode (\<^verbatim>\<open>components/x11/app/gfx-utils/sun-src/fbconf_xorg\<close>, \<^verbatim>\<open>fbc/fbc_res.c\<close>, \<^verbatim>\<open>fbc/fbc_ask.c\<close> and
  \<^verbatim>\<open>fbc/resolutions.c\<close>): listing the modes, and looking up and checking the mode that the command line names. What the
  displays say about themselves, the device, the options and the replies of the user are parameters.
\<close>

section \<open>The table of video modes\<close>

record SunVideoSummary =
  id_string :: string
  vs_width :: int
  vs_height :: int
  vfreq :: int
  Hfp :: int
  Hsw :: int
  Hbp :: int
  Vfp :: int
  Vsw :: int
  Vbp :: int
  Pclk :: int
  Fint :: int
  Fst :: int
  Stype :: int
  SHpol :: int
  SVpol :: int

abbreviation Video where
  "Video \<equiv> SunVideoSummary_ext"

definition SunVideoTable :: "SunVideoSummary list" where
  "SunVideoTable = [
   Video ''VESA_STD_720x400x85'' 720 400 85 36 72 108 1 3 42 35500 0 0 1 0 1 (),
   Video ''VESA_STD_640x480x60'' 640 480 60 16 96 48 10 2 33 25175 0 0 1 0 0 (),
   Video ''VESA_STD_640x480x72'' 640 480 72 24 40 128 9 3 28 31500 0 0 1 0 0 (),
   Video ''VESA_STD_640x480x75'' 640 480 75 16 64 120 1 3 16 31500 0 0 1 0 0 (),
   Video ''SUNW_STD_640x480x180'' 640 480 180 40 80 120 1 3 36 82350 0 0 0 0 0 (),
   Video ''VESA_STD_800x600x56'' 800 600 56 24 72 128 1 2 22 36000 0 0 1 1 1 (),
   Video ''VESA_STD_800x600x60'' 800 600 60 40 128 88 1 4 23 40000 0 0 1 1 1 (),
   Video ''VESA_STD_800x600x72'' 800 600 72 56 120 64 37 6 23 50000 0 0 1 1 1 (),
   Video ''VESA_STD_800x600x75'' 800 600 75 16 80 160 1 3 21 49500 0 0 1 1 1 (),
   Video ''VESA_STD_800x600x85'' 800 600 85 32 64 152 1 3 27 56250 0 0 1 1 1 (),
   Video ''SUNW_STEREO_960x680x108'' 960 680 108 64 64 192 3 4 34 99900 0 0 0 0 0 (),
   Video ''SUNW_STEREO_960x680x112'' 960 680 112 24 48 216 2 8 32 101250 0 0 0 0 0 (),
   Video ''VESA_STD_1024x768x60'' 1024 768 60 24 136 160 3 6 29 65000 0 0 1 0 0 (),
   Video ''VESA_STD_1024x768x70'' 1024 768 70 24 136 144 3 6 29 75214 0 0 1 0 0 (),
   Video ''VESA_STD_1024x768x75'' 1024 768 75 16 96 176 1 3 28 78750 0 0 1 1 1 (),
   Video ''SUNW_STD_1024x768x77'' 1024 768 77 32 64 240 2 4 31 84375 0 0 0 0 0 (),
   Video ''VESA_STD_1024x768x85'' 1024 768 85 48 96 208 1 3 36 94500 0 0 1 1 1 (),
   Video ''SUNW_STD_1024x800x84'' 1024 800 86 16 128 152 2 4 31 94500 0 0 0 0 0 (),
   Video ''VESA_STD_1152x864x75'' 1152 864 75 64 128 256 1 3 32 108000 0 0 1 1 1 (),
   Video ''SUNW_STD_1152x900x66'' 1152 900 66 40 128 208 2 4 31 94500 0 0 0 0 0 (),
   Video ''SUNW_STD_1152x900x76'' 1152 900 76 32 128 192 2 8 33 108000 0 0 0 0 0 (),
   Video ''SUNW_STEREO_1152x900x120'' 1152 900 120 64 136 216 2 10 44 180000 0 1 1 1 1 (),
   Video ''SUNW_STD_1280x768x56'' 1280 768 56 48 112 248 1 3 30 76179 0 0 1 0 0 (),
   Video ''SUNW_STD_1280x800x76'' 1280 800 76 20 114 156 3 7 36 101250 0 0 0 0 0 (),
   Video ''SUNW_STEREO_1280x800x112'' 1280 800 112 16 176 264 2 8 36 164700 0 1 1 1 1 (),
   Video ''VESA_STD_1280x1024x60'' 1280 1024 60 48 112 248 1 3 38 108000 0 0 1 1 1 (),
   Video ''SUNW_STD_1280x1024x60'' 1280 1024 60 48 112 248 1 3 38 108000 0 0 0 0 0 (),
   Video ''SUNW_STD_1280x1024x67'' 1280 1024 67 16 112 224 2 8 33 117000 0 0 0 0 0 (),
   Video ''VESA_STD_1280x1024x75'' 1280 1024 75 16 144 248 1 3 38 135000 0 0 1 1 1 (),
   Video ''SUNW_STD_1280x1024x76'' 1280 1024 76 32 64 288 2 8 32 135000 0 0 0 0 0 (),
   Video ''VESA_STD_1280x1024x85'' 1280 1024 85 64 160 224 1 3 44 157500 0 0 1 1 1 (),
   Video ''SUNW_STEREO_1280x1024x96'' 1280 1024 96 20 160 140 3 6 30 163280 0 1 1 0 0 (),
   Video ''SUNW_STEREO_1280x1024x108'' 1280 1024 108 8 80 56 2 4 6 159300 0 1 1 0 0 (),
   Video ''SUNW_STEREO_1280x1024x112'' 1280 1024 112 26 160 320 1 8 47 216000 0 1 1 0 0 (),
   Video ''SUNW_STD_1440x900x76'' 1440 900 76 40 160 240 2 3 39 135000 0 0 0 0 0 (),
   Video ''SUNW_STD_1600x1000x66'' 1600 1000 66 40 136 192 2 5 32 135000 0 0 0 0 0 (),
   Video ''SUNW_STD_1600x1000x76'' 1600 1000 76 32 216 280 2 3 46 170100 0 0 0 0 0 (),
   Video ''SGI_STD_1600x1024x60'' 1600 1024 60 16 56 36 2 1 26 107000 0 0 1 0 0 (),
   Video ''VESA_STD_1600x1200x60'' 1600 1200 60 64 192 304 1 3 46 162000 0 0 1 1 1 (),
   Video ''SUNW_DIG_1600x1200x60'' 1600 1200 60 4 64 106 5 10 24 132300 0 0 1 1 1 (),
   Video ''VESA_STD_1600x1200x65'' 1600 1200 65 64 192 304 1 3 46 175500 0 0 1 1 1 (),
   Video ''VESA_STD_1600x1200x70'' 1600 1200 70 64 192 304 1 3 46 189000 0 0 1 1 1 (),
   Video ''SIEMENS_STD_1600x1200x73'' 1600 1200 73 88 216 296 0 5 43 200460 0 0 1 1 1 (),
   Video ''VESA_STD_1600x1200x75'' 1600 1200 75 64 192 304 1 3 46 202500 0 0 1 1 1 (),
   Video ''VESA_STD_1600x1200x85'' 1600 1200 85 64 192 304 1 3 46 229500 0 0 1 1 1 (),
   Video ''SUNW_STD_1600x1280x76'' 1600 1280 76 24 216 280 2 8 50 216000 0 0 0 0 0 (),
   Video ''VESA_STD_1792x1344x60'' 1792 1344 60 128 200 328 1 3 46 204750 0 0 1 0 1 (),
   Video ''VESA_STD_1792x1344x75'' 1792 1344 75 96 216 352 1 3 69 261000 0 0 1 0 1 (),
   Video ''VESA_STD_1856x1392x60'' 1856 1392 60 96 224 352 1 3 43 219375 0 0 1 0 1 (),
   Video ''VESA_STD_1856x1392x75'' 1856 1392 75 128 224 352 1 3 104 288000 0 0 1 0 1 (),
   Video ''SUNW_DIG_1920x1080x60'' 1920 1080 60 4 64 68 2 4 26 137700 0 0 1 1 1 (),
   Video ''SUNW_STD_1920x1080x72'' 1920 1080 72 48 216 376 3 3 86 216000 0 0 0 0 0 (),
   Video ''SUNW_DIG_1920x1200x60'' 1920 1200 60 4 64 68 2 4 28 151200 0 0 1 1 1 (),
   Video ''SUNW_STD_1920x1200x70'' 1920 1200 70 24 228 344 1 3 36 219375 0 0 0 0 0 (),
   Video ''SUNW_STD_1920x1200x75'' 1920 1200 75 64 224 352 3 3 44 239625 0 0 0 0 0 (),
   Video ''SUNW_INT_640x240x60'' 640 240 60 20 58 62 3 3 16 12273 1 0 0 0 0 (),
   Video ''SUNW_INT_768x287x50'' 768 287 50 14 70 84 3 2 19 14625 0 0 0 0 0 (),
   Video ''SUNW_DIG_1400x1050x60'' 1400 1050 60 6 112 170 0 3 13 108000 0 0 0 0 0 ()]"

section \<open>Environment\<close>

record video_mode_t =
  vm_name :: string
  vm_width :: int
  vm_height :: int
  vm_frequency :: int

text \<open>
  \<open>edid_info\<close> is what a display says, by the number of its video stream, given the modes of the configuration;
  \<open>end_mark\<close> what the element after the modes of a display holds besides its null name.
\<close>

record res_env =
  mem_env :: env
  read_supp :: "string \<Rightarrow> ir_data line_list \<Rightarrow> supplement"
  list_mem :: "nat \<Rightarrow> bool"
  monitor_set :: bool
  device_type :: string
  max_streams :: nat
  stream_lo :: nat
  stream_hi :: nat
  fb_model :: "string option"
  comp_file :: "string option"
  comp_buf :: string
  edid_info :: "mode_line list \<Rightarrow> nat \<Rightarrow> edid_res"
  end_mark :: "int \<times> int \<times> int"
  mode_name_buf_len :: nat
  res_mode_nocheck :: bool
  res_mode_noconfirm :: bool
  replies :: "string list"

definition streams :: "res_env \<Rightarrow> nat list" where
  "streams v = [stream_lo v ..< stream_hi v + 1]"

abbreviation device_modes :: "res_env \<Rightarrow> config \<Rightarrow> (mode_line list \<times> config) fbc_run" where
  "device_modes v \<equiv> fbc_get_mode_list (mem_env v) (read_supp v) (list_mem v) (monitor_set v) (device_type v)"

section \<open>Listing the modes\<close>

definition fbc_get_monitor_id :: "nat \<Rightarrow> nat \<Rightarrow> string" where
  "fbc_get_monitor_id n stream_index = (if n > 1 then '' '' @ show_nat (stream_index + 1) else [])"

definition FBC_CHECK_EDID_MODES :: int where
  "FBC_CHECK_EDID_MODES = - 2"

definition FBC_NOT_IN_EDID_MODES :: int where
  "FBC_NOT_IN_EDID_MODES = - 1"

definition FBC_FIRST_EDID_MODE :: int where
  "FBC_FIRST_EDID_MODE = 0"

fun edid_loop :: "edid_mode list \<Rightarrow> string \<Rightarrow> int \<Rightarrow> int" where
  "edid_loop [] mode_name i = FBC_NOT_IN_EDID_MODES"
| "edid_loop (m # ms) mode_name i = (if fbc_resname_cmp (em_name m) mode_name = 0 then i else edid_loop ms mode_name (i + 1))"

definition fbc_in_edid_modes :: "edid_mode list option \<Rightarrow> string \<Rightarrow> int" where
  "fbc_in_edid_modes modes mode_name =
     (case modes of None \<Rightarrow> FBC_NOT_IN_EDID_MODES | Some ms \<Rightarrow> edid_loop ms mode_name 0)"

definition suppressed :: "string \<Rightarrow> bool" where
  "suppressed mode_name \<longleftrightarrow>
     fbc_resname_attr_str mode_name ''NTSC'' \<or> fbc_resname_attr_str mode_name ''PAL'' \<or>
     fbc_resname_attr_str mode_name ''INT'' \<or> fbc_resname_attr_str mode_name ''FSC'' \<or>
     fbc_resname_attr_chr mode_name (CHR ''S'') \<or> fbc_resname_attr_chr mode_name (CHR ''I'')"

text \<open>The notes after a mode, and the notes used so far; \<open>None\<close> when the number of a note is out of range.\<close>

fun stream_notes :: "string \<Rightarrow> int \<Rightarrow> (nat \<Rightarrow> edid_mode list option) \<Rightarrow> nat list \<Rightarrow> bool list \<Rightarrow> (string \<times> bool list) option" where
  "stream_notes mode_name support_level modes [] footnote = Some ([], footnote)"
| "stream_notes mode_name support_level modes (k # ks) footnote =
     (let i = (if support_level = FBC_CHECK_EDID_MODES then fbc_in_edid_modes (modes k) mode_name else support_level);
          note_num = k * 2 + 1
      in if i = FBC_NOT_IN_EDID_MODES
         then stream_notes mode_name support_level modes ks (footnote[0 := True])
         else if length footnote \<le> note_num + (if i = FBC_FIRST_EDID_MODE then 1 else 0) then None
         else do { (t, f) \<leftarrow> stream_notes mode_name support_level modes ks
                     (if i = FBC_FIRST_EDID_MODE then footnote[note_num := True, note_num + 1 := True] else footnote[note_num := True]);
                   Some (''['' @ show_nat note_num @ '']'' @
                     (if i = FBC_FIRST_EDID_MODE then ''['' @ show_nat (note_num + 1) @ '']'' else []) @ t, f) })"

definition pad :: "nat \<Rightarrow> string \<Rightarrow> string" where
  "pad n s = s @ replicate (n - length s) (CHR '' '')"

definition fbc_list_video_mode ::
  "res_env \<Rightarrow> string \<Rightarrow> int \<Rightarrow> (nat \<Rightarrow> edid_mode list option) \<Rightarrow> bool list \<Rightarrow> (string \<times> bool list) option" where
  "fbc_list_video_mode v mode_name support_level modes footnote =
     (if suppressed mode_name then Some ([], footnote)
      else do { (t, f) \<leftarrow> stream_notes mode_name support_level modes (streams v) footnote;
                Some ([CHR 0x09] @ pad 26 mode_name @ t @ NL, f) })"

definition mode_pref_keywd :: "string list" where
  "mode_pref_keywd = [''AUTO'', ''NONE'']"

fun list_keywords :: "res_env \<Rightarrow> string list \<Rightarrow> bool list \<Rightarrow> (string \<times> bool list) option" where
  "list_keywords v [] footnote = Some ([], footnote)"
| "list_keywords v (k # ks) footnote =
     do { (t, f) \<leftarrow> fbc_list_video_mode v k FBC_FIRST_EDID_MODE (\<lambda>k. None) footnote;
          (u, g) \<leftarrow> list_keywords v ks f;
          Some (t @ u, g) }"

text \<open>The elements are pointers to modes, null for the modes that have been excluded.\<close>

fun list_modes :: "res_env \<Rightarrow> (nat \<Rightarrow> edid_mode list option) \<Rightarrow> mode_line option list \<Rightarrow> bool list \<Rightarrow> (string \<times> bool list) option" where
  "list_modes v modes [] footnote = Some ([], footnote)"
| "list_modes v modes (None # ms) footnote = list_modes v modes ms footnote"
| "list_modes v modes (Some m # ms) footnote =
     do { name \<leftarrow> ml_identifier m;
          (t, f) \<leftarrow> fbc_list_video_mode v name FBC_CHECK_EDID_MODES modes footnote;
          (u, g) \<leftarrow> list_modes v modes ms f;
          Some (t @ u, g) }"

text \<open>The text of the notes, whether there is any, and the notes used.\<close>

fun list_notes :: "res_env \<Rightarrow> (nat \<Rightarrow> edid_mode list option) \<Rightarrow> nat list \<Rightarrow> bool \<Rightarrow> bool list \<Rightarrow> string \<times> bool \<times> bool list" where
  "list_notes v modes [] footnoted footnote = ([], footnoted, footnote)"
| "list_notes v modes (k # ks) footnoted footnote =
     (let monitor_id = fbc_get_monitor_id (max_streams v) k; n = k * 2 + 1; no_edid = (modes k = None);
          (t, shown, f) = list_notes v modes ks (footnoted \<or> footnote ! n \<or> footnote ! (n + 1) \<or> no_edid)
            (if no_edid then footnote[0 := True] else footnote)
      in ((if footnote ! n then ''['' @ show_nat n @ ''] Resolution is supported by monitor'' @ monitor_id @ NL else []) @
          (if footnote ! (n + 1) then ''['' @ show_nat (n + 1) @ ''] Preferred resolution for monitor'' @ monitor_id @ NL else []) @
          (if no_edid then ''No EDID data for monitor'' @ monitor_id @ ''.  Can not determine supported resolutions.'' @ NL else []) @ t,
          shown, f))"

definition FBC_MAX_NOTES :: nat where
  "FBC_MAX_NOTES = 2 * 2"

definition fbc_res_list_modes :: "res_env \<Rightarrow> config \<Rightarrow> (string \<times> config) fbc_run" where
  "fbc_res_list_modes v s =
     run_bind (defined (list_keywords v mode_pref_keywd (replicate (FBC_MAX_NOTES + 1) False))) (\<lambda>(t1, f1).
     run_bind (device_modes v s) (\<lambda>(mode_list, s1).
       let info = edid_info v mode_list; modes = (\<lambda>k. edid_modes (info k))
       in run_bind (defined (fbc_res_compatible (fb_model v) (comp_file v) (comp_buf v) (map info (streams v)) None
              (Some (map Some mode_list)))) (\<lambda>r.
          run_bind r (\<lambda>(ok, shown).
          run_bind (defined (list_modes v modes (the shown) f1)) (\<lambda>(t2, f2).
            let (t3, footnoted, f3) = list_notes v modes (streams v) False f2
            in Returned (''Video modes accepted by the -res option:'' @ NL @ t1 @ t2 @ NL @ t3 @ (if footnoted then NL else []) @
                 (if f3 ! 0 then ''Use of an unsupported resolution can render the video display unusable.'' @ NL @ NL else []) @
                 ''Abbreviations such as '' @ quoted ''1280x1024x75'' @ '' may also be used.'' @ NL, s1))))))"

section \<open>Looking a mode up\<close>

text \<open>The integer at the start of the text, as \<^verbatim>\<open>scanf\<close> reads it, and what follows it.\<close>

definition scan_int :: "string \<Rightarrow> (int \<times> string) option" where
  "scan_int s =
     (let t = dropWhile (\<lambda>c. c = CHR '' '' \<or> (9 \<le> cval c \<and> cval c \<le> 13)) s;
          (neg, u) = (case t of [] \<Rightarrow> (False, t)
            | c # cs \<Rightarrow> if c = CHR ''-'' then (True, cs) else if c = CHR ''+'' then (False, cs) else (False, t))
      in case u of
           [] \<Rightarrow> None
         | c # cs \<Rightarrow> if isdigit c then (let (n, r) = digits 10 0 u in Some (if neg then - n else n, r)) else None)"

definition int_range :: "int \<Rightarrow> bool" where
  "int_range n \<longleftrightarrow> - 2147483648 \<le> n \<and> n < 2147483648"

definition scan_size :: "string \<Rightarrow> (int \<times> int) fbc_run" where
  "scan_size s =
     (case scan_int s of
        None \<Rightarrow> Returned (0, 0)
      | Some (w, r) \<Rightarrow>
          if \<not> int_range w then Undefined
          else if r = [] \<or> hd r \<noteq> CHR ''x'' then Returned (0, 0)
          else case scan_int (tl r) of
                 None \<Rightarrow> Returned (0, 0)
               | Some (h, u) \<Rightarrow> if \<not> int_range h then Undefined else Returned (w, h))"

definition name_size :: "string \<Rightarrow> (int \<times> int) fbc_run" where
  "name_size name = scan_size (case strrchr name (CHR ''_'') of Some r \<Rightarrow> tl r | None \<Rightarrow> name)"

text \<open>The name with the last \<^verbatim>\<open>@\<close> replaced, and whether it fitted into the buffer.\<close>

definition replace_at :: "nat \<Rightarrow> string \<Rightarrow> bool \<times> string" where
  "replace_at len name =
     (case strrchr name (CHR ''@'') of
        None \<Rightarrow> (True, name)
      | Some r \<Rightarrow> if length name \<ge> len then (False, name) else (True, name[length name - length r := CHR ''x'']))"

fun config_mode :: "mode_line list \<Rightarrow> string \<Rightarrow> mode_line option fbc_run" where
  "config_mode [] name = Returned None"
| "config_mode (m # ms) name =
     (case ml_identifier m of
        None \<Rightarrow> Undefined
      | Some full_resname \<Rightarrow> if fbc_resname_cmp full_resname name = 0 then Returned (Some m) else config_mode ms name)"

definition fbc_is_known_mode :: "res_env \<Rightarrow> (nat \<Rightarrow> edid_res) \<Rightarrow> string \<Rightarrow> config \<Rightarrow> (bool \<times> video_mode_t \<times> config) fbc_run" where
  "fbc_is_known_mode v info name s =
     run_bind (name_size name) (\<lambda>(w, h).
       let len = mode_name_buf_len v; (fits, name1) = replace_at len name;
           vm = \<lparr>vm_name = name1, vm_width = w, vm_height = h, vm_frequency = 0\<rparr>
       in if \<not> fits then Returned (False, vm, s)
          else case find (\<lambda>m. fbc_resname_cmp (em_name m) name1 = 0)
                 (concat (map (\<lambda>k. case edid_modes (info k) of None \<Rightarrow> [] | Some ms \<Rightarrow> ms) (streams v))) of
            Some m \<Rightarrow>
              Returned (length (em_name m) < len,
                \<lparr>vm_name = take (len - 1) (em_name m), vm_width = em_width m, vm_height = em_height m, vm_frequency = em_frequency m\<rparr>, s)
          | None \<Rightarrow>
              run_bind (device_modes v s) (\<lambda>(mode_list, s1).
              run_bind (config_mode mode_list name1) (\<lambda>found.
                case found of
                  Some m \<Rightarrow>
                    Returned (True, \<lparr>vm_name = the (ml_identifier m), vm_width = ml_hdisplay m, vm_height = ml_vdisplay m, vm_frequency = 0\<rparr>, s1)
                | None \<Rightarrow>
                    (case find (\<lambda>x. fbc_resname_cmp (id_string x) name1 = 0) SunVideoTable of
                       Some x \<Rightarrow>
                         Returned (True, \<lparr>vm_name = id_string x, vm_width = vs_width x, vm_height = vs_height x, vm_frequency = vfreq x\<rparr>, s1)
                     | None \<Rightarrow> Returned (False, vm, s1)))))"

definition fbc_is_supported_mode :: "res_env \<Rightarrow> (nat \<Rightarrow> edid_res) \<Rightarrow> string \<Rightarrow> bool" where
  "fbc_is_supported_mode v info mode_name =
     (let name = (if strcasecmp mode_name ''VESA_STD_1600x1200x60'' = 0 then ''1600x1200x60'' else mode_name)
      in list_all (\<lambda>k. case edid_modes (info k) of None \<Rightarrow> False | Some ms \<Rightarrow> list_ex (\<lambda>m. fbc_resname_cmp (em_name m) name = 0) ms)
           (streams v))"

section \<open>Checking a mode\<close>

text \<open>
  A reply is a line of input. Asking a second time uses up arguments that are not there any more, which C does not
  define.
\<close>

fun fbc_ask_yes_no :: "string list \<Rightarrow> bool fbc_run" where
  "fbc_ask_yes_no [] = Returned False"
| "fbc_ask_yes_no (line # lines) =
     (let c = cval (hd (line @ [NUL]))
      in if (0 \<le> c \<and> c < 32) \<or> c = 127 \<or> upper c = cval (CHR ''N'') then Returned False
         else if upper c = cval (CHR ''Y'') then Returned True
         else Undefined)"

definition remove_sunmodes :: "res_env \<Rightarrow> config \<Rightarrow> config fbc_run" where
  "remove_sunmodes v s = (if monitor_set v then defined (fbc_remove_monitor_sunmodes_section_ER s) else Undefined)"

definition remove_usemodes :: "res_env \<Rightarrow> config \<Rightarrow> config fbc_run" where
  "remove_usemodes v s = (if monitor_set v then defined (fbc_remove_monitor_usemodes_entry_ER s) else Undefined)"

definition preferred_name :: "string \<Rightarrow> bool" where
  "preferred_name name \<longleftrightarrow> list_ex (\<lambda>k. strcasecmp name k = 0) mode_pref_keywd"

definition preferred_mode :: "res_env \<Rightarrow> (nat \<Rightarrow> edid_res) \<Rightarrow> video_mode_t" where
  "preferred_mode v info =
     (let (w, h, f) = (case edid_modes (info (stream_lo v)) of
        None \<Rightarrow> (0, 0, 0) | Some [] \<Rightarrow> end_mark v | Some (m # ms) \<Rightarrow> (em_width m, em_height m, em_frequency m))
      in \<lparr>vm_name = ''AUTO'', vm_width = w, vm_height = h, vm_frequency = f\<rparr>)"

definition mode_verified :: "res_env \<Rightarrow> (nat \<Rightarrow> edid_res) \<Rightarrow> bool \<Rightarrow> string \<Rightarrow> bool fbc_run" where
  "mode_verified v info known name =
     (if known \<and> fbc_is_supported_mode v info name
      then run_bind (defined (fbc_res_compatible (fb_model v) (comp_file v) (comp_buf v) (map info (streams v)) (Some name) None)) (\<lambda>r.
           run_bind r (\<lambda>(ok, l). Returned ok))
      else Returned False)"

definition mode_accepted :: "res_env \<Rightarrow> (nat \<Rightarrow> edid_res) \<Rightarrow> bool \<Rightarrow> string \<Rightarrow> bool fbc_run" where
  "mode_accepted v info known name =
     (if res_mode_nocheck v then Returned True
      else run_bind (mode_verified v info known name) (\<lambda>ok.
             if ok then Returned True
             else if res_mode_noconfirm v then Returned True
             else fbc_ask_yes_no (replies v)))"

definition fbc_res_validate_mode :: "res_env \<Rightarrow> string \<Rightarrow> config \<Rightarrow> (bool \<times> video_mode_t \<times> config) fbc_run" where
  "fbc_res_validate_mode v name s =
     run_bind (device_modes v s) (\<lambda>(mode_list, s1).
       let info = edid_info v mode_list
       in if preferred_name name
          then if stream_hi v < stream_lo v then Undefined
               else let vm = preferred_mode v info; (sun_mode, s2) = fbc_trim_Modes_sections (vm_name vm) s1
               in run_bind (remove_sunmodes v s2) (\<lambda>s3.
                  run_bind (remove_usemodes v s3) (\<lambda>s4. Returned (True, vm, s4)))
          else
            run_bind (fbc_is_known_mode v info name s1) (\<lambda>(known_mode, vm, s2).
            run_bind (mode_accepted v info known_mode (vm_name vm)) (\<lambda>valid_mode.
              let (sun_mode, s3) = fbc_trim_Modes_sections (vm_name vm) s2
              in run_bind (remove_sunmodes v s3) (\<lambda>s4.
                 if sun_mode then Returned (valid_mode, vm, s4)
                 else run_bind (remove_usemodes v s4) (\<lambda>s5. Returned (valid_mode, vm, s5))))))"

section \<open>The mode that a name stands for\<close>

text \<open>The modes that names are looked up among, in this order: those of the displays, of the configuration, of the table.\<close>

definition edid_video :: "edid_mode \<Rightarrow> video_mode_t" where
  "edid_video m = \<lparr>vm_name = em_name m, vm_width = em_width m, vm_height = em_height m, vm_frequency = em_frequency m\<rparr>"

definition config_video :: "mode_line \<Rightarrow> video_mode_t" where
  "config_video m = \<lparr>vm_name = the (ml_identifier m), vm_width = ml_hdisplay m, vm_height = ml_vdisplay m, vm_frequency = 0\<rparr>"

definition table_video :: "SunVideoSummary \<Rightarrow> video_mode_t" where
  "table_video x = \<lparr>vm_name = id_string x, vm_width = vs_width x, vm_height = vs_height x, vm_frequency = vfreq x\<rparr>"

definition display_modes :: "res_env \<Rightarrow> (nat \<Rightarrow> edid_res) \<Rightarrow> edid_mode list" where
  "display_modes v info = concat (map (\<lambda>k. case edid_modes (info k) of None \<Rightarrow> [] | Some ms \<Rightarrow> ms) (streams v))"

definition all_modes :: "res_env \<Rightarrow> (nat \<Rightarrow> edid_res) \<Rightarrow> mode_line list \<Rightarrow> video_mode_t list" where
  "all_modes v info mode_list = map edid_video (display_modes v info) @ map config_video mode_list @ map table_video SunVideoTable"

text \<open>
  A name stands for a full name when the two are equal up to case, or when it begins with a digit and is what follows the last
  underscore of the full name.
\<close>

definition names_mode :: "string \<Rightarrow> string \<Rightarrow> bool" where
  "names_mode name full \<longleftrightarrow> map low full = map low name \<or>
     name \<noteq> [] \<and> isdigit (hd name) \<and> (\<exists>p r. full = p @ CHR ''_'' # r \<and> CHR ''_'' \<notin> set r \<and> map low r = map low name)"

lemma resname_cmp_0: "c_string full \<Longrightarrow> c_string name \<Longrightarrow> fbc_resname_cmp full name = 0 \<longleftrightarrow> names_mode name full"
  using mode_names by (simp add: names_mode_def)

lemma find_map: "find P (map f xs) = map_option f (find (\<lambda>x. P (f x)) xs)"
  by (induction xs) auto

lemma find_resname:
  "c_string name \<Longrightarrow> \<forall>x\<in>set xs. c_string (f x) \<Longrightarrow> find (\<lambda>x. fbc_resname_cmp (f x) name = 0) xs = find (\<lambda>x. names_mode name (f x)) xs"
  by (induction xs) (simp_all add: resname_cmp_0)

lemma config_mode_find:
  "c_string name \<Longrightarrow> \<forall>m\<in>set l. \<exists>n. ml_identifier m = Some n \<and> c_string n \<Longrightarrow>
    config_mode l name = Returned (find (\<lambda>m. names_mode name (vm_name (config_video m))) l)"
  by (induction l) (auto simp: resname_cmp_0 config_video_def)

lemma table_strings: "\<forall>x\<in>set SunVideoTable. c_string (id_string x)"
proof -
  have "list_all (\<lambda>x. list_all (\<lambda>c. c \<noteq> CHR 0x00) (id_string x)) SunVideoTable" by code_simp
  then show ?thesis by (simp add: list_all_iff c_string_def)
qed

text \<open>The last \<^verbatim>\<open>@\<close> of a name read as \<^verbatim>\<open>x\<close>.\<close>

definition at_read :: "string \<Rightarrow> string \<Rightarrow> bool" where
  "at_read name name1 \<longleftrightarrow> CHR ''@'' \<notin> set name \<and> name1 = name \<or>
     (\<exists>p q. name = p @ CHR ''@'' # q \<and> CHR ''@'' \<notin> set q \<and> name1 = p @ CHR ''x'' # q)"

lemma replace_at_read:
  assumes "at_read name name1" "length name < len"
  shows "replace_at len name = (True, name1)"
proof (cases "CHR ''@'' \<in> set name")
  case True
  then obtain p q where pq: "name = p @ CHR ''@'' # q" "CHR ''@'' \<notin> set q" "name1 = p @ CHR ''x'' # q"
    using assms(1) by (auto simp: at_read_def)
  then have "strrchr name (CHR ''@'') = Some (CHR ''@'' # q)" using strrchr_Some by blast
  then show ?thesis using assms(2) pq by (simp add: replace_at_def)
next
  case False
  then have "strrchr name (CHR ''@'') = None" "name1 = name" using assms(1) by (auto simp: at_read_def strrchr_None)
  then show ?thesis by (simp add: replace_at_def)
qed

text \<open>
  The size that a name gives: its part after the last underscore, or all of it, begins with two decimal numbers joined by an
  \<^verbatim>\<open>x\<close>. A name whose part does not begin with a digit, a sign or a space gives none.
\<close>

definition decimal_value :: "string \<Rightarrow> int" where
  "decimal_value ds = foldl (\<lambda>n c. 10 * n + (cval c - 48)) 0 ds"

definition last_part :: "string \<Rightarrow> string \<Rightarrow> bool" where
  "last_part name t \<longleftrightarrow> CHR ''_'' \<notin> set t \<and> (name = t \<or> (\<exists>p. name = p @ CHR ''_'' # t))"

definition gives_size :: "string \<Rightarrow> int \<Rightarrow> int \<Rightarrow> bool" where
  "gives_size name w h \<longleftrightarrow>
     (\<exists>d1 d2 r. last_part name (d1 @ CHR ''x'' # d2 @ r) \<and> d1 \<noteq> [] \<and> d2 \<noteq> [] \<and> list_all isdigit (d1 @ d2) \<and>
        (r = [] \<or> \<not> isdigit (hd r)) \<and> w = decimal_value d1 \<and> h = decimal_value d2 \<and> w < 2147483648 \<and> h < 2147483648)"

definition gives_none :: "string \<Rightarrow> bool" where
  "gives_none name \<longleftrightarrow>
     (\<exists>t. last_part name t \<and> (t = [] \<or> \<not> isdigit (hd t) \<and> hd t \<notin> {CHR ''+'', CHR ''-'', CHR '' ''} \<and>
        \<not> (9 \<le> cval (hd t) \<and> cval (hd t) \<le> 13)))"

lemma digits_decimal:
  assumes "list_all isdigit ds" "r = [] \<or> \<not> isdigit (hd r)"
  shows "digits 10 n (ds @ r) = (foldl (\<lambda>n c. 10 * n + (cval c - 48)) n ds, r)"
  using assms(1)
proof (induction ds arbitrary: n)
  case Nil
  have "digit_value c < 10 \<longleftrightarrow> isdigit c" for c by (simp add: digit_value_def isdigit_def Let_def)
  then show ?case using assms(2) by (cases r) simp_all
next
  case (Cons c ds)
  then show ?case by (simp add: digit_value_def isdigit_def Let_def algebra_simps)
qed

lemma decimal_value_pos:
  assumes "list_all isdigit ds"
  shows "0 \<le> decimal_value ds"
proof -
  have "0 \<le> n \<Longrightarrow> 0 \<le> foldl (\<lambda>n c. 10 * n + (cval c - 48)) n ds" for n
    using assms by (induction ds arbitrary: n) (auto simp: isdigit_def)
  then show ?thesis by (simp add: decimal_value_def)
qed

lemma scan_int_digits:
  assumes "ds \<noteq> []" "list_all isdigit ds" "r = [] \<or> \<not> isdigit (hd r)"
  shows "scan_int (ds @ r) = Some (decimal_value ds, r)"
proof -
  obtain c cs where c: "ds = c # cs" "isdigit c" using assms(1,2) by (cases ds) auto
  then have "c \<noteq> CHR '' ''" "\<not> (9 \<le> cval c \<and> cval c \<le> 13)" "c \<noteq> CHR ''-''" "c \<noteq> CHR ''+''" by (auto simp: isdigit_def cval_def)
  then have dw: "dropWhile (\<lambda>c. c = CHR '' '' \<or> (9 \<le> cval c \<and> cval c \<le> 13)) (ds @ r) = ds @ r"
    "(case ds @ r of [] \<Rightarrow> (False, ds @ r) | c # cs \<Rightarrow> if c = CHR ''-'' then (True, cs) else if c = CHR ''+'' then (False, cs) else (False, ds @ r)) =
      (False, ds @ r)" using c by auto
  show ?thesis unfolding scan_int_def Let_def dw prod.case digits_decimal [OF assms(2,3), of 0]
    using c by (simp add: decimal_value_def)
qed

lemma last_part_size: "last_part name t \<Longrightarrow> name_size name = scan_size t"
proof -
  assume l: "last_part name t"
  show ?thesis
  proof (cases "CHR ''_'' \<in> set name")
    case True
    then obtain p where "name = p @ CHR ''_'' # t" using l by (auto simp: last_part_def)
    then have "strrchr name (CHR ''_'') = Some (CHR ''_'' # t)" using l strrchr_Some unfolding last_part_def by blast
    then show ?thesis by (simp add: name_size_def)
  next
    case False
    then have "strrchr name (CHR ''_'') = None" "name = t" using l by (auto simp: last_part_def strrchr_None)
    then show ?thesis by (simp add: name_size_def)
  qed
qed

lemma size_given:
  assumes "gives_size name w h \<or> gives_none name \<and> w = 0 \<and> h = 0"
  shows "name_size name = Returned (w, h)"
  using assms
proof (elim disjE conjE)
  assume "gives_size name w h"
  then obtain d1 d2 r where d: "last_part name (d1 @ CHR ''x'' # d2 @ r)" "d1 \<noteq> []" "d2 \<noteq> []" "list_all isdigit d1" "list_all isdigit d2"
    "r = [] \<or> \<not> isdigit (hd r)" "w = decimal_value d1" "h = decimal_value d2" "w < 2147483648" "h < 2147483648"
    by (auto simp: gives_size_def)
  have "scan_int (d1 @ CHR ''x'' # d2 @ r) = Some (w, CHR ''x'' # d2 @ r)"
    using scan_int_digits [OF d(2,4), of "CHR ''x'' # d2 @ r"] d(7) by (simp add: isdigit_def cval_def)
  moreover have "scan_int (d2 @ r) = Some (h, r)" using scan_int_digits [OF d(3,5,6)] d(8) by simp
  moreover have "int_range w" "int_range h" using d decimal_value_pos by (auto simp: int_range_def intro: order_trans [of _ 0])
  ultimately show ?thesis using last_part_size [OF d(1)] by (simp add: scan_size_def)
next
  assume "gives_none name" and wh: "w = 0" "h = 0"
  then obtain t where t: "last_part name t" "t = [] \<or> \<not> isdigit (hd t) \<and> hd t \<notin> {CHR ''+'', CHR ''-'', CHR '' ''} \<and>
      \<not> (9 \<le> cval (hd t) \<and> cval (hd t) \<le> 13)" by (auto simp: gives_none_def)
  then have "scan_int t = None" by (cases t) (auto simp: scan_int_def)
  then show ?thesis using last_part_size [OF t(1)] wh by (simp add: scan_size_def)
qed

text \<open>
  C21. Take a name given on the command line that is shorter than the buffer for it, and read its last \<^verbatim>\<open>@\<close>, if it has one, as an \<^verbatim>\<open>x\<close>. It
  stands for the first mode it matches among those of the displays, of the configuration and of the table, in this order, where a name matches a
  full name when the two are equal up to case, or when it begins with a digit and is what follows the last underscore of the full name. The look-up succeeds exactly
  when there is such a mode, and then returns its full name, its size and, for a mode of a display or of the table, its
  frequency; the frequency returned for a mode of the configuration is 0. When there is none, the frequency is 0 and the size is the one that the name as given begins
  with after its last underscore, two decimal numbers below \<open>2 ^ 31\<close> joined by an \<^verbatim>\<open>x\<close>, or 0 by 0 when it begins there with no
  digit, sign or space. The names of the displays' modes fit into the buffer, no name of the configuration is missing, the list of the configuration's modes can be made, and no name has a null character.
\<close>

theorem video_mode_found:
  assumes at: "CHR ''@'' \<notin> set name \<and> name1 = name \<or>
      (\<exists>p q. name = p @ CHR ''@'' # q \<and> CHR ''@'' \<notin> set q \<and> name1 = p @ CHR ''x'' # q)"
    and size: "gives_size name w h \<or> gives_none name \<and> w = 0 \<and> h = 0"
    and fits: "length name < mode_name_buf_len v" "c_string name"
    and l: "device_modes v s = Returned (l, s1)" "\<forall>m\<in>set l. \<exists>n. ml_identifier m = Some n \<and> c_string n"
    and short: "\<forall>m\<in>set (display_modes v info). length (em_name m) < mode_name_buf_len v \<and> c_string (em_name m)"
  shows "\<exists>s'. s' \<in> {s, s1} \<and> fbc_is_known_mode v info name s = Returned
    (case find (\<lambda>x. names_mode name1 (vm_name x)) (all_modes v info l) of
       Some x \<Rightarrow> (True, x, s')
     | None \<Rightarrow> (False, \<lparr>vm_name = name1, vm_width = w, vm_height = h, vm_frequency = 0\<rparr>, s'))"
proof -
  have r: "replace_at (mode_name_buf_len v) name = (True, name1)" using at fits(1) replace_at_read [of name name1] by (simp add: at_read_def)
  have n: "name_size name = Returned (w, h)" using size by (rule size_given)
  have c: "c_string name1" using at fits(2) by (elim disjE exE conjE) (simp_all add: c_string_def)
  have e: "find (\<lambda>m. fbc_resname_cmp (em_name m) name1 = 0) (display_modes v info) = find (\<lambda>m. names_mode name1 (em_name m)) (display_modes v info)"
    using c short by (intro find_resname) auto
  have t: "find (\<lambda>x. fbc_resname_cmp (id_string x) name1 = 0) SunVideoTable = find (\<lambda>x. names_mode name1 (id_string x)) SunVideoTable"
    using c table_strings by (intro find_resname) auto
  show ?thesis
  proof (cases "find (\<lambda>m. names_mode name1 (em_name m)) (display_modes v info)")
    case (Some m)
    then have "m \<in> set (display_modes v info)" by (auto simp: find_Some_iff)
    then have "length (em_name m) < mode_name_buf_len v" using short by blast
    moreover from this have "take (mode_name_buf_len v - 1) (em_name m) = em_name m" by simp
    ultimately show ?thesis using Some n r e
      by (intro exI [of _ s]) (simp add: fbc_is_known_mode_def all_modes_def find_append find_map edid_video_def display_modes_def)
  next
    case None
    have k: "fbc_is_known_mode v info name s = (case find (\<lambda>m. names_mode name1 (vm_name (config_video m))) l of
        Some m \<Rightarrow> Returned (True, config_video m, s1)
      | None \<Rightarrow> (case find (\<lambda>x. names_mode name1 (id_string x)) SunVideoTable of
          Some x \<Rightarrow> Returned (True, table_video x, s1)
        | None \<Rightarrow> Returned (False, \<lparr>vm_name = name1, vm_width = w, vm_height = h, vm_frequency = 0\<rparr>, s1)))"
      using None n r e t l(1) config_mode_find [OF c l(2)]
      by (simp add: fbc_is_known_mode_def display_modes_def config_video_def table_video_def cong: option.case_cong)
    show ?thesis unfolding k all_modes_def using None
      by (intro exI [of _ s1]) (simp add: find_append find_map edid_video_def table_video_def split: option.split)
  qed
qed

text \<open>One display that supports one mode, and no list of incompatible modes.\<close>

definition sample_display :: edid_res where
  "sample_display = \<lparr>edid_manufacturer = ''SUN'', edid_product = 1414,
     edid_modes = Some [\<lparr>em_name = ''VESA_STD_1280x1024x60'', em_width = 1280, em_height = 1024, em_frequency = 60\<rparr>]\<rparr>"

definition sample_res :: res_env where
  "sample_res = \<lparr>mem_env = sample_env, read_supp = (\<lambda>name lines. No_file), list_mem = (\<lambda>k. True), monitor_set = True,
     device_type = ''ast'', max_streams = 1, stream_lo = 0, stream_hi = 0, fb_model = None, comp_file = None, comp_buf = [],
     edid_info = (\<lambda>l k. sample_display), end_mark = (0, 0, 0), mode_name_buf_len = 256, res_mode_nocheck = False,
     res_mode_noconfirm = False, replies = []\<rparr>"

lemma sample_streams: "streams sample_res = [0]"
  by (simp add: streams_def sample_res_def)

lemma sample_device_modes:
  "\<exists>l. device_modes sample_res sample_config = Returned (l, sample_config) \<and> (\<forall>m\<in>set l. \<exists>n. ml_identifier m = Some n \<and> c_string n)"
proof -
  have n: "\<forall>m\<in>set (concat (monitor_modes sample_config)). named m" by (simp add: monitor_modes_def sample_defs named_def)
  have "lists_modes [] []" by (simp add: lists_modes_def visible_def)
  from sections_lists [OF this, of "monitor_modes sample_config" 0] n
  obtain l where l: "append_sections (\<lambda>k. True) 0 [] (monitor_modes sample_config) = Returned l"
    "lists_modes l (concat (monitor_modes sample_config))" by auto
  then have "set l \<subseteq> set (concat (monitor_modes sample_config))" by (auto simp: lists_modes_def visible_def)
  then have "\<forall>m\<in>set l. \<exists>n. ml_identifier m = Some n \<and> c_string n" using n unfolding named_def by blast
  then show ?thesis using l(1) sample_append by (auto simp: sample_res_def fbc_get_mode_list_def)
qed

lemma sample_name:
  "name_size ''1280x1024@60'' = Returned (1280, 1024)" "replace_at 256 ''1280x1024@60'' = (True, ''1280x1024x60'')"
  "fbc_resname_cmp ''VESA_STD_1280x1024x60'' ''1280x1024x60'' = 0" "\<not> preferred_name ''1280x1024@60''"
proof -
  show "replace_at 256 ''1280x1024@60'' = (True, ''1280x1024x60'')" by (simp add: replace_at_def)
qed code_simp+

lemma sample_size: "gives_size ''1280x1024@60'' 1280 1024"
proof -
  have "last_part ''1280x1024@60'' (''1280'' @ CHR ''x'' # ''1024'' @ ''@60'')" by (simp add: last_part_def)
  moreover have "list_all isdigit (''1280'' @ ''1024'')" "\<not> isdigit (hd ''@60'')" "decimal_value ''1280'' = 1280" "decimal_value ''1024'' = 1024"
    by code_simp+
  ultimately show ?thesis unfolding gives_size_def
    by (intro exI [of _ "''1280''"] exI [of _ "''1024''"] exI [of _ "''@60''"]) simp
qed

lemma sample_modes:
  "c_string ''1280x1024@60''" "length ''1280x1024@60'' < mode_name_buf_len sample_res"
  "\<forall>m\<in>set (display_modes sample_res (\<lambda>k. sample_display)). length (em_name m) < mode_name_buf_len sample_res \<and> c_string (em_name m)"
  "names_mode ''1280x1024x60'' ''VESA_STD_1280x1024x60''"
proof -
  show "names_mode ''1280x1024x60'' ''VESA_STD_1280x1024x60''" using resname_cmp_0 sample_name(3) by simp
qed (simp_all add: display_modes_def sample_streams sample_display_def sample_res_def)

theorem video_mode_found_witness:
  "\<exists>s'. fbc_is_known_mode sample_res (\<lambda>k. sample_display) ''1280x1024@60'' sample_config =
    Returned (True, \<lparr>vm_name = ''VESA_STD_1280x1024x60'', vm_width = 1280, vm_height = 1024, vm_frequency = 60\<rparr>, s')"
proof -
  obtain l where l: "device_modes sample_res sample_config = Returned (l, sample_config)" "\<forall>m\<in>set l. \<exists>n. ml_identifier m = Some n \<and> c_string n"
    using sample_device_modes by blast
  have "''1280x1024@60'' = ''1280x1024'' @ CHR ''@'' # ''60''" "CHR ''@'' \<notin> set ''60''" "''1280x1024x60'' = ''1280x1024'' @ CHR ''x'' # ''60''" by simp_all
  then have "\<exists>p q. ''1280x1024@60'' = p @ CHR ''@'' # q \<and> CHR ''@'' \<notin> set q \<and> ''1280x1024x60'' = p @ CHR ''x'' # q" by blast
  from video_mode_found [OF disjI2 [OF this] disjI1 [OF sample_size] sample_modes(2,1) l sample_modes(3)]
  show ?thesis using sample_modes(4) by (auto simp: all_modes_def display_modes_def sample_streams sample_display_def edid_video_def)
qed

section \<open>The decision\<close>

text \<open>The sections after trimming: the predefined modes are reduced to the last one of the name, if any.\<close>

definition trimmed_modes :: "string \<Rightarrow> config \<Rightarrow> modes_section list" where
  "trimmed_modes name s =
     (case xf86findModes ''SunModes'' (section_names s) of
        None \<Rightarrow> conf_modes_lst s
      | Some i \<Rightarrow>
          (let sectn = conf_modes_lst s ! i; ms = filter (same_name name) (modes_modelines sectn)
           in (conf_modes_lst s)[i := sectn\<lparr>modes_modelines := (if ms = [] then [] else [last ms])\<rparr>]))"

definition predefined :: "string \<Rightarrow> config \<Rightarrow> bool" where
  "predefined name s \<longleftrightarrow> (\<exists>i. xf86findModes ''SunModes'' (section_names s) = Some i \<and>
     (\<exists>m\<in>set (modes_modelines (conf_modes_lst s ! i)). same_name name m))"

text \<open>The lines of the Modes section of the monitor, and the line by which the Monitor section uses it.\<close>

definition section_lines :: "config \<Rightarrow> nat list \<Rightarrow> bool" where
  "section_lines s ys \<longleftrightarrow> (\<exists>b. mon_identifier (conf_monitor s) = Some b \<and>
     (case xf86findModes (''SunModes_'' @ b) (section_names s) of
        None \<Rightarrow> ys = []
      | Some i \<Rightarrow> line_path (conf_lines s) (begin_line_er (conf_modes_lst s ! i)) (end_line_er (conf_modes_lst s ! i)) ys))"

definition usemodes_line :: "config \<Rightarrow> nat list" where
  "usemodes_line s =
     (case mon_identifier (conf_monitor s) of
        None \<Rightarrow> []
      | Some b \<Rightarrow>
          (case xf86findModes (''SunModes_'' @ b) (link_names s) of
             None \<Rightarrow> []
           | Some i \<Rightarrow> (case link_line_er (mon_modes_sect_lst (conf_monitor s) ! i) of None \<Rightarrow> [] | Some a \<Rightarrow> [a])))"

lemma trim_effect:
  assumes "fbc_trim_Modes_sections name s = (sun, s')"
  shows "sun \<longleftrightarrow> predefined name s" "s' = s\<lparr>conf_modes_lst := trimmed_modes name s\<rparr>"
  using assms trim_modes [of s, OF _ refl, of _ name]
  by (cases "xf86findModes ''SunModes'' (section_names s)";
      auto simp: trimmed_modes_def predefined_def fbc_trim_Modes_sections_def Let_def filter_empty_conv)+

lemma trimmed_keeps:
  "section_names (s\<lparr>conf_modes_lst := trimmed_modes name s\<rparr>) = section_names s"
  "begin_line_er (trimmed_modes name s ! i) = begin_line_er (conf_modes_lst s ! i)"
  "end_line_er (trimmed_modes name s ! i) = end_line_er (conf_modes_lst s ! i)"
proof -
  have n: "map modes_identifier (trimmed_modes name s) = map modes_identifier (conf_modes_lst s) \<and>
      begin_line_er (trimmed_modes name s ! i) = begin_line_er (conf_modes_lst s ! i) \<and>
      end_line_er (trimmed_modes name s ! i) = end_line_er (conf_modes_lst s ! i)"
  proof (cases "xf86findModes ''SunModes'' (section_names s)")
    case (Some j)
    then have "j < length (conf_modes_lst s)" using findModes_Some by fastforce
    then show ?thesis using Some
      by (cases "j = i") (auto simp: trimmed_modes_def Let_def map_update list_update_same_conv)
  qed (simp add: trimmed_modes_def)
  then show "section_names (s\<lparr>conf_modes_lst := trimmed_modes name s\<rparr>) = section_names s"
    "begin_line_er (trimmed_modes name s ! i) = begin_line_er (conf_modes_lst s ! i)"
    "end_line_er (trimmed_modes name s ! i) = end_line_er (conf_modes_lst s ! i)" by simp_all
qed

lemma section_removed:
  assumes "remove_sunmodes v s = Returned s'"
  shows "\<exists>ys. section_lines s ys \<and> s' = s\<lparr>conf_lines := mark_deleted ys (conf_lines s)\<rparr>"
proof -
  obtain b where b: "mon_identifier (conf_monitor s) = Some b" "monitor_modes_name s = Some (''SunModes_'' @ b)"
    and r: "fbc_remove_monitor_sunmodes_section_ER s = Some s'"
    using assms
    by (auto simp: remove_sunmodes_def fbc_remove_monitor_sunmodes_section_ER_def monitor_modes_name_def defined_Returned
        split: if_splits option.splits)
  show ?thesis
  proof (cases "xf86findModes (''SunModes_'' @ b) (section_names s)")
    case None
    then show ?thesis using b r by (intro exI [of _ "[]"]) (auto simp: section_lines_def fbc_remove_monitor_sunmodes_section_ER_def)
  next
    case (Some i)
    let ?x = "conf_modes_lst s ! i"
    obtain lines where d: "delete_lines (begin_line_er ?x) (end_line_er ?x) (conf_lines s) = Some lines" "s' = s\<lparr>conf_lines := lines\<rparr>"
      using b r Some by (auto simp: fbc_remove_monitor_sunmodes_section_ER_def Let_def split: option.splits)
    from delete_lines_path [OF d(1)] show ?thesis using b Some d(2) by (auto simp: section_lines_def)
  qed
qed

lemma use_removed:
  assumes "remove_usemodes v s = Returned s'"
  shows "s' = s\<lparr>conf_lines := mark_deleted (usemodes_line s) (conf_lines s)\<rparr>"
proof -
  obtain b where b: "mon_identifier (conf_monitor s) = Some b" "monitor_modes_name s = Some (''SunModes_'' @ b)"
    and r: "fbc_remove_monitor_usemodes_entry_ER s = Some s'"
    using assms
    by (auto simp: remove_usemodes_def fbc_remove_monitor_usemodes_entry_ER_def monitor_modes_name_def defined_Returned
        split: if_splits option.splits)
  show ?thesis
  proof (cases "xf86findModes (''SunModes_'' @ b) (link_names s)")
    case None
    then show ?thesis using b r by (auto simp: usemodes_line_def fbc_remove_monitor_usemodes_entry_ER_def)
  next
    case (Some i)
    obtain lines where d: "fbc_delete_line_ER (link_line_er (mon_modes_sect_lst (conf_monitor s) ! i)) (conf_lines s) = Some lines"
      "s' = s\<lparr>conf_lines := lines\<rparr>"
      using b r Some by (auto simp: fbc_remove_monitor_usemodes_entry_ER_def split: option.splits)
    from delete_line_returns(1) [OF d(1)] show ?thesis using b Some d(2) by (simp add: usemodes_line_def)
  qed
qed

text \<open>What is left after trimming and after the removal of the lines \<open>ys\<close>.\<close>

definition reduced :: "string \<Rightarrow> nat list \<Rightarrow> config \<Rightarrow> config" where
  "reduced name ys s = s\<lparr>conf_modes_lst := trimmed_modes name s, conf_lines := mark_deleted ys (conf_lines s)\<rparr>"

lemma reduced_after:
  assumes t: "fbc_trim_Modes_sections name s = (sun, s2)" and r: "remove_sunmodes v s2 = Returned s3"
  shows "\<exists>ys. section_lines s ys \<and> s3 = reduced name ys s \<and>
    (remove_usemodes v s3 = Returned u \<longrightarrow> u = reduced name (ys @ usemodes_line s) s)"
proof -
  have s2: "s2 = s\<lparr>conf_modes_lst := trimmed_modes name s\<rparr>" using trim_effect(2) [OF t] .
  obtain ys where ys: "section_lines s2 ys" "s3 = s2\<lparr>conf_lines := mark_deleted ys (conf_lines s2)\<rparr>" using section_removed [OF r] by blast
  have "section_lines s ys" using ys(1) trimmed_keeps [of name s] unfolding s2 section_lines_def by (auto split: option.splits)
  moreover have s3: "s3 = reduced name ys s" using ys(2) by (simp add: s2 reduced_def)
  moreover have "u = reduced name (ys @ usemodes_line s) s" if "remove_usemodes v s3 = Returned u"
  proof -
    have "usemodes_line s3 = usemodes_line s" by (simp add: s3 usemodes_line_def reduced_def cong: option.case_cong)
    then show ?thesis using use_removed [OF that] by (simp add: s3 reduced_def mark_deleted_append)
  qed
  ultimately show ?thesis by blast
qed

definition user_agrees :: "string list \<Rightarrow> bool" where
  "user_agrees lines \<longleftrightarrow> lines \<noteq> [] \<and> hd lines \<noteq> [] \<and> hd (hd lines) \<in> {CHR ''Y'', CHR ''y''}"

lemma cval_inj: "cval c = cval d \<longleftrightarrow> c = d"
proof -
  have "0 \<le> (of_char x :: int)" "of_char x < (256 :: int)" for x
    using pos_mod_bound [of "256 :: int" "of_char x"] pos_mod_sign [of "256 :: int" "of_char x"] by simp_all
  from this [of c] this [of d] show ?thesis by (auto simp: cval_def Let_def split: if_splits)
qed

lemma upper_Y: "upper (cval c) = cval (CHR ''Y'') \<longleftrightarrow> c = CHR ''Y'' \<or> c = CHR ''y''"
proof -
  have "upper n = 89 \<longleftrightarrow> n = 89 \<or> n = 121" for n by (auto simp: upper_def)
  moreover have "cval (CHR ''Y'') = 89" "cval (CHR ''y'') = 121" by (simp_all add: cval_def)
  ultimately show ?thesis using cval_inj [of c "CHR ''Y''"] cval_inj [of c "CHR ''y''"] by simp
qed

lemma ask_answer: "fbc_ask_yes_no lines = Returned b \<Longrightarrow> b \<longleftrightarrow> user_agrees lines"
proof (cases lines)
  case (Cons line rest)
  have "cval NUL = 0" "cval (CHR ''Y'') = 89" "cval (CHR ''N'') = 78" "cval (CHR ''y'') = 121" by (simp_all add: cval_def)
  moreover assume "fbc_ask_yes_no lines = Returned b"
  ultimately show ?thesis using Cons upper_Y [of "hd line"]
    by (cases line) (auto simp: user_agrees_def upper_def Let_def split: if_splits)
qed (simp add: user_agrees_def)

text \<open>
  Every display in use lists the mode. The name of one mode is reduced to its size and frequency first, so that a mode of
  another kind with that size and frequency will do for it.
\<close>

definition all_support :: "res_env \<Rightarrow> (nat \<Rightarrow> edid_res) \<Rightarrow> string \<Rightarrow> bool" where
  "all_support v info name \<longleftrightarrow>
     (\<forall>k. stream_lo v \<le> k \<and> k \<le> stream_hi v \<longrightarrow>
        (\<exists>ms. edid_modes (info k) = Some ms \<and> (\<exists>m\<in>set ms.
          names_mode (if map low name = map low ''VESA_STD_1600x1200x60'' then ''1600x1200x60'' else name) (em_name m))))"

text \<open>The modes of the displays have names without null characters.\<close>

definition string_names :: "res_env \<Rightarrow> (nat \<Rightarrow> edid_res) \<Rightarrow> bool" where
  "string_names v info \<longleftrightarrow> (\<forall>k\<in>set (streams v). \<forall>ms. edid_modes (info k) = Some ms \<longrightarrow> (\<forall>m\<in>set ms. c_string (em_name m)))"

lemma streams_iff: "(\<forall>k\<in>set (streams v). P k) \<longleftrightarrow> (\<forall>k. stream_lo v \<le> k \<and> k \<le> stream_hi v \<longrightarrow> P k)"
  by (auto simp: streams_def)

lemma supported_iff:
  assumes "c_string name" "string_names v info"
  shows "fbc_is_supported_mode v info name \<longleftrightarrow> all_support v info name"
proof -
  define n where "n = (if map low name = map low ''VESA_STD_1600x1200x60'' then ''1600x1200x60'' else name)"
  have "strcasecmp name ''VESA_STD_1600x1200x60'' = 0 \<longleftrightarrow> map low name = map low ''VESA_STD_1600x1200x60''"
    using assms(1) by (intro strcasecmp_0) simp_all
  then have n: "(if strcasecmp name ''VESA_STD_1600x1200x60'' = 0 then ''1600x1200x60'' else name) = n" by (simp add: n_def)
  have c: "c_string n" using assms(1) by (simp add: n_def)
  have "(case edid_modes (info k) of None \<Rightarrow> False | Some ms \<Rightarrow> list_ex (\<lambda>m. fbc_resname_cmp (em_name m) n = 0) ms) \<longleftrightarrow>
      (\<exists>ms. edid_modes (info k) = Some ms \<and> (\<exists>m\<in>set ms. names_mode n (em_name m)))" if "k \<in> set (streams v)" for k
    using assms(2) that c resname_cmp_0 by (auto simp: string_names_def list_ex_iff split: option.splits)
  then have "fbc_is_supported_mode v info name \<longleftrightarrow>
      (\<forall>k\<in>set (streams v). \<exists>ms. edid_modes (info k) = Some ms \<and> (\<exists>m\<in>set ms. names_mode n (em_name m)))"
    unfolding fbc_is_supported_mode_def Let_def n list_all_iff by blast
  then show ?thesis unfolding all_support_def streams_iff n_def .
qed

definition works_with :: "res_env \<Rightarrow> (nat \<Rightarrow> edid_res) \<Rightarrow> string \<Rightarrow> bool" where
  "works_with v info name \<longleftrightarrow>
     (\<exists>l. fbc_res_compatible (fb_model v) (comp_file v) (comp_buf v) (map info (streams v)) (Some name) None = Some (Returned (True, l)))"

lemma accepted_iff:
  assumes "mode_accepted v info known name = Returned b" "c_string name" "string_names v info"
  shows "b \<longleftrightarrow> res_mode_nocheck v \<or> res_mode_noconfirm v \<or> user_agrees (replies v) \<or>
    known \<and> all_support v info name \<and> works_with v info name"
  using assms ask_answer [of "replies v" b]
  by (auto simp: mode_accepted_def mode_verified_def supported_iff works_with_def run_bind_Returned defined_Returned split: if_splits)

lemma preferred_iff: "c_string name \<Longrightarrow> preferred_name name \<longleftrightarrow> map low name \<in> {map low ''AUTO'', map low ''NONE''}"
  by (simp add: preferred_name_def mode_pref_keywd_def strcasecmp_0)

text \<open>
  C20. Suppose that checking a mode returns and that names have no null character. The keywords \<^verbatim>\<open>AUTO\<close> and \<^verbatim>\<open>NONE\<close>, in any case,
  are always accepted and stand for the mode \<^verbatim>\<open>AUTO\<close> with the size and the frequency of the first mode of the
  first display. Any other mode is accepted exactly when checking
  is switched off, when confirmation is switched off or given, or when the look-up of the name (C21) has succeeded, every display in
  use lists the mode, and the mode works with the frame buffer and the displays. One mode is treated in a special way: for
  \<^verbatim>\<open>VESA_STD_1600x1200x60\<close> it is enough that every display lists some mode whose name is \<^verbatim>\<open>1600x1200x60\<close> after its last underscore, so that
  the mode is accepted for displays that list \<^verbatim>\<open>SUNW_DIG_1600x1200x60\<close> only. Accepted or not, the following has changed since the
  look-up: the predefined modes are reduced to the last one with the name, or to none; the lines of the Modes section
  of the monitor, from its first to its last line, are deleted; and, for the keywords and for a mode that is not a
  predefined one, so is the line by which the Monitor section uses that section. Nothing else about the configuration has changed.
\<close>

theorem video_mode_validated:
  assumes r: "fbc_res_validate_mode v name s = Returned (valid, vm, s')"
    and names: "c_string name" "c_string (vm_name vm)" "\<forall>l. string_names v (edid_info v l)"
  shows "\<exists>l s1. device_modes v s = Returned (l, s1) \<and>
    (if map low name \<in> {map low ''AUTO'', map low ''NONE''}
     then valid \<and> vm_name vm = ''AUTO'' \<and>
       (\<forall>m ms. edid_modes (edid_info v l (stream_lo v)) = Some (m # ms) \<longrightarrow>
          vm_width vm = em_width m \<and> vm_height vm = em_height m \<and> vm_frequency vm = em_frequency m) \<and>
       (\<exists>ys. section_lines s1 ys \<and> s' = reduced ''AUTO'' (ys @ usemodes_line s1) s1)
     else \<exists>known s2. fbc_is_known_mode v (edid_info v l) name s1 = Returned (known, vm, s2) \<and>
       (valid \<longleftrightarrow> res_mode_nocheck v \<or> res_mode_noconfirm v \<or> user_agrees (replies v) \<or>
          known \<and> all_support v (edid_info v l) (vm_name vm) \<and> works_with v (edid_info v l) (vm_name vm)) \<and>
       (\<exists>ys. section_lines s2 ys \<and>
          s' = reduced (vm_name vm) (if predefined (vm_name vm) s2 then ys else ys @ usemodes_line s2) s2))"
proof -
  obtain l s1 where l: "device_modes v s = Returned (l, s1)"
    using r by (auto simp: fbc_res_validate_mode_def run_bind_Returned)
  let ?info = "edid_info v l"
  have p: "preferred_name name \<longleftrightarrow> map low name \<in> {map low ''AUTO'', map low ''NONE''}" using names(1) by (rule preferred_iff)
  show ?thesis
  proof (cases "preferred_name name")
    case True
    obtain sun s2 where t: "fbc_trim_Modes_sections ''AUTO'' s1 = (sun, s2)" by force
    then obtain s3 where s3: "remove_sunmodes v s2 = Returned s3" "remove_usemodes v s3 = Returned s'" "valid" "vm = preferred_mode v ?info"
      using r l True
      by (auto simp: fbc_res_validate_mode_def run_bind_Returned preferred_mode_def Let_def split: if_splits prod.splits)
    obtain ys where ys: "section_lines s1 ys" "s' = reduced ''AUTO'' (ys @ usemodes_line s1) s1"
      using reduced_after [OF t s3(1), where u = s'] s3(2) by blast
    have vm: "vm_name vm = ''AUTO''" "edid_modes (?info (stream_lo v)) = Some (m # ms) \<Longrightarrow>
        vm_width vm = em_width m \<and> vm_height vm = em_height m \<and> vm_frequency vm = em_frequency m" for m ms
      using s3(4) by (simp_all add: preferred_mode_def Let_def split_def)
    show ?thesis using True s3(3) ys vm unfolding p by (intro exI [of _ l] exI [of _ s1] conjI l) auto
  next
    case False
    then obtain known s2 where k: "fbc_is_known_mode v ?info name s1 = Returned (known, vm, s2)"
      "mode_accepted v ?info known (vm_name vm) = Returned valid"
      using r l by (auto simp: fbc_res_validate_mode_def run_bind_Returned Let_def split_def split: if_splits)
    obtain sun s3 where t: "fbc_trim_Modes_sections (vm_name vm) s2 = (sun, s3)" by force
    then obtain s4 where s4: "remove_sunmodes v s3 = Returned s4" "if sun then s' = s4 else remove_usemodes v s4 = Returned s'"
      using r l k False by (auto simp: fbc_res_validate_mode_def run_bind_Returned Let_def split_def split: if_splits)
    obtain ys where "section_lines s2 ys" "s' = reduced (vm_name vm) (if predefined (vm_name vm) s2 then ys else ys @ usemodes_line s2) s2"
      using reduced_after [OF t s4(1), where u = s'] s4(2) trim_effect(1) [OF t] by (auto split: if_splits)
    moreover have "valid \<longleftrightarrow> res_mode_nocheck v \<or> res_mode_noconfirm v \<or> user_agrees (replies v) \<or>
        known \<and> all_support v ?info (vm_name vm) \<and> works_with v ?info (vm_name vm)"
      using accepted_iff [OF k(2) names(2)] names(3) by blast
    ultimately show ?thesis using l k(1) False unfolding p by (intro exI [of _ l] exI [of _ s1]) auto
  qed
qed

lemma trim_keeps:
  assumes "fbc_trim_Modes_sections name s = (sun, s')"
  shows "section_names s' = section_names s" "conf_monitor s' = conf_monitor s"
proof -
  show "conf_monitor s' = conf_monitor s" using assms by (auto simp: fbc_trim_Modes_sections_def Let_def split: option.splits)
  show "section_names s' = section_names s"
  proof (cases "xf86findModes ''SunModes'' (section_names s)")
    case (Some i)
    then have "i < length (conf_modes_lst s)" using findModes_Some by fastforce
    then show ?thesis using assms Some by (auto simp: fbc_trim_Modes_sections_def Let_def map_update list_update_same_conv)
  qed (use assms in \<open>auto simp: fbc_trim_Modes_sections_def\<close>)
qed

lemma sample_other_name: "xf86nameCompare (Some ''SunModes_Monitor0'') (Some ''SunModes'') \<noteq> Some 0"
  by (subst nameCompare_0) (simp_all, code_simp)

lemma sample_removals:
  assumes "conf_monitor s = conf_monitor sample_config" "section_names s = section_names sample_config"
  shows "remove_sunmodes sample_res s = Returned s" "remove_usemodes sample_res s = Returned s"
  using assms sample_other_name
  by (simp_all add: remove_sunmodes_def remove_usemodes_def fbc_remove_monitor_sunmodes_section_ER_def xf86findModes_def
      fbc_remove_monitor_usemodes_entry_ER_def monitor_modes_name_def name_buf_len_def sample_res_def sample_config_def sample_sections_def)

lemma sample_accepted: "mode_accepted sample_res (\<lambda>k. sample_display) True ''VESA_STD_1280x1024x60'' = Returned True"
  by code_simp

lemma sample_trimmed: "filter (same_name ''VESA_STD_1280x1024x60'') (modes_modelines (sample_sections ! 0)) =
    [sample_mode ''VESA_STD_1280x1024x60'' 78643 1280 1024, sample_mode ''vesa std 1280x1024x60'' 78643 1280 1024]"
  by code_simp

theorem video_mode_validated_witness:
  "\<exists>vm s'. fbc_res_validate_mode sample_res ''1280x1024@60'' sample_config = Returned (True, vm, s') \<and>
    all_support sample_res (\<lambda>k. sample_display) (vm_name vm) \<and>
    map modes_modelines (conf_modes_lst s') = [[sample_mode ''vesa std 1280x1024x60'' 78643 1280 1024]]"
proof -
  let ?vm = "\<lparr>vm_name = ''VESA_STD_1280x1024x60'', vm_width = 1280, vm_height = 1024, vm_frequency = 60\<rparr>"
  obtain l where l: "device_modes sample_res sample_config = Returned (l, sample_config)" using sample_device_modes by blast
  have k: "fbc_is_known_mode sample_res (\<lambda>k. sample_display) ''1280x1024@60'' sample_config = Returned (True, ?vm, sample_config)"
    using sample_name sample_streams by (simp add: fbc_is_known_mode_def sample_display_def sample_res_def)
  obtain sun s3 where t: "fbc_trim_Modes_sections (vm_name ?vm) sample_config = (sun, s3)" by force
  have e: "edid_info sample_res l = (\<lambda>k. sample_display)" for l by (simp add: sample_res_def)
  have r: "fbc_res_validate_mode sample_res ''1280x1024@60'' sample_config = Returned (True, ?vm, s3)"
    using l k t sample_name(4) sample_accepted sample_removals [OF trim_keeps(2,1) [OF t]]
    by (simp add: fbc_res_validate_mode_def e Let_def)
  have n: "\<not> res_mode_nocheck sample_res" "\<not> res_mode_noconfirm sample_res" "\<not> user_agrees (replies sample_res)"
    by (simp_all add: sample_res_def user_agrees_def)
  have c: "c_string ''1280x1024@60''" "c_string (vm_name ?vm)" "\<forall>l. string_names sample_res (edid_info sample_res l)"
    "map low ''1280x1024@60'' \<notin> {map low ''AUTO'', map low ''NONE''}"
    using preferred_iff [of "''1280x1024@60''"] sample_name(4) by (simp_all add: e string_names_def sample_display_def)
  from video_mode_validated [OF r c(1-3)] l k n c(4) obtain ys where
    "all_support sample_res (\<lambda>k. sample_display) (vm_name ?vm)" "s3 = reduced (vm_name ?vm) ys sample_config"
    unfolding e by (auto split: if_splits)
  moreover have "xf86findModes ''SunModes'' (section_names sample_config) = Some 0"
    by (simp add: xf86findModes_def sample_config_def sample_sections_def sample_names)
  ultimately show ?thesis using r sample_trimmed
    by (auto simp: reduced_def trimmed_modes_def sample_config_def Let_def map_update) (simp_all add: sample_sections_def)
qed

section \<open>What is listed\<close>

text \<open>The notes of a mode, given for each stream the place of the mode among those of the display.\<close>

definition level_notes :: "(nat \<Rightarrow> int) \<Rightarrow> nat \<Rightarrow> nat list" where
  "level_notes i k = (if i k = FBC_NOT_IN_EDID_MODES then [] else if i k = FBC_FIRST_EDID_MODE then [k * 2 + 1, k * 2 + 2] else [k * 2 + 1])"

definition brackets :: "nat list \<Rightarrow> string" where
  "brackets ns = concat (map (\<lambda>n. ''['' @ show_nat n @ '']'') ns)"

definition mark :: "bool list \<Rightarrow> nat set \<Rightarrow> bool list" where
  "mark f S = map (\<lambda>n. f ! n \<or> n \<in> S) [0 ..< length f]"

lemma mark_simps [simp]:
  "length (mark f S) = length f" "mark f {} = f" "mark (mark f S) T = mark f (S \<union> T)"
  "n < length f \<Longrightarrow> mark f S ! n \<longleftrightarrow> f ! n \<or> n \<in> S"
  by (auto simp: mark_def intro: nth_equalityI)

lemma mark_update: "n < length f \<Longrightarrow> f[n := True] = mark f {n}"
  by (auto simp: mark_def nth_list_update intro!: nth_equalityI)

definition missing :: "bool \<Rightarrow> nat set" where
  "missing b = (if b then {0} else {})"

lemma stream_notes_marks:
  assumes "\<forall>k\<in>set ks. k * 2 + 2 < length f" "0 < length f"
    and "i = (\<lambda>k. if lvl = FBC_CHECK_EDID_MODES then fbc_in_edid_modes (modes k) name else lvl)"
  shows "stream_notes name lvl modes ks f = Some (brackets (concat (map (level_notes i) ks)),
    mark f (set (concat (map (level_notes i) ks)) \<union> missing (\<exists>k\<in>set ks. level_notes i k = [])))"
  using assms(1,2)
proof (induction ks arbitrary: f)
  case (Cons k ks)
  have ik: "(if lvl = FBC_CHECK_EDID_MODES then fbc_in_edid_modes (modes k) name else lvl) = i k" using assms(3) by simp
  have k: "k * 2 + 1 < length f" "k * 2 + 2 < length f" using Cons.prems by auto
  consider (no) "i k = FBC_NOT_IN_EDID_MODES" | (fst) "i k = FBC_FIRST_EDID_MODE" "i k \<noteq> FBC_NOT_IN_EDID_MODES"
    | (other) "i k \<noteq> FBC_FIRST_EDID_MODE" "i k \<noteq> FBC_NOT_IN_EDID_MODES" by blast
  then show ?case
  proof cases
    case no
    then show ?thesis using Cons.IH [of "mark f {0}"] Cons.prems ik
      by (simp add: mark_update level_notes_def missing_def Un_commute)
  next
    case fst
    then show ?thesis using Cons.IH [of "mark f {k * 2 + 1, k * 2 + 2}"] Cons.prems ik k
      by (simp add: mark_update level_notes_def brackets_def missing_def Un_assoc insert_commute)
  next
    case other
    then show ?thesis using Cons.IH [of "mark f {k * 2 + 1}"] Cons.prems ik k
      by (simp add: mark_update level_notes_def brackets_def missing_def)
  qed
qed (simp add: brackets_def missing_def)

definition supports :: "edid_mode list option \<Rightarrow> string \<Rightarrow> bool" where
  "supports modes name \<longleftrightarrow> (\<exists>ms. modes = Some ms \<and> (\<exists>m\<in>set ms. names_mode name (em_name m)))"

definition prefers :: "edid_mode list option \<Rightarrow> string \<Rightarrow> bool" where
  "prefers modes name \<longleftrightarrow> (\<exists>m ms. modes = Some (m # ms) \<and> names_mode name (em_name m))"

definition mode_notes :: "(nat \<Rightarrow> edid_mode list option) \<Rightarrow> string \<Rightarrow> nat \<Rightarrow> nat list" where
  "mode_notes modes name k =
     (if supports (modes k) name then if prefers (modes k) name then [k * 2 + 1, k * 2 + 2] else [k * 2 + 1] else [])"

lemma edid_loop_range: "edid_loop ms name i = - 1 \<or> i \<le> edid_loop ms name i"
  by (induction ms name i rule: edid_loop.induct) (auto simp: FBC_NOT_IN_EDID_MODES_def)

lemma edid_loop_none: "0 \<le> i \<Longrightarrow> edid_loop ms name i = - 1 \<longleftrightarrow> (\<forall>m\<in>set ms. fbc_resname_cmp (em_name m) name \<noteq> 0)"
  by (induction ms name i rule: edid_loop.induct) (auto simp: FBC_NOT_IN_EDID_MODES_def)

lemma level_notes_checked:
  assumes "c_string name" "\<forall>ms. modes k = Some ms \<longrightarrow> (\<forall>m\<in>set ms. c_string (em_name m))"
  shows "level_notes (\<lambda>k. fbc_in_edid_modes (modes k) name) k = mode_notes modes name k"
proof (cases "modes k")
  case (Some ms)
  have c: "fbc_resname_cmp (em_name m) name = 0 \<longleftrightarrow> names_mode name (em_name m)" if "m \<in> set ms" for m
    using assms Some that by (intro resname_cmp_0) auto
  show ?thesis
  proof (cases ms)
    case (Cons m ms')
    have "edid_loop ms' name 1 \<noteq> 0" using edid_loop_range [of ms' name 1] by auto
    then show ?thesis using Some Cons c edid_loop_none [of 1 ms' name]
      by (auto simp: level_notes_def mode_notes_def supports_def prefers_def fbc_in_edid_modes_def FBC_NOT_IN_EDID_MODES_def FBC_FIRST_EDID_MODE_def)
  qed (use Some in \<open>simp add: level_notes_def mode_notes_def supports_def fbc_in_edid_modes_def\<close>)
qed (simp add: level_notes_def mode_notes_def supports_def fbc_in_edid_modes_def)

text \<open>
  The names that are left out: those with one of four words, in any case and set off by punctuation or the ends of the name, and those that
  end in one of two letters. The word for stereo modes is not among them.
\<close>

definition has_word :: "string \<Rightarrow> string \<Rightarrow> bool" where
  "has_word full w \<longleftrightarrow> (\<exists>a m b. full = a @ m @ b \<and> map low m = map low w \<and> (a = [] \<or> ispunct (last a)) \<and> (b = [] \<or> ispunct (hd b)))"

definition left_out :: "string \<Rightarrow> bool" where
  "left_out name \<longleftrightarrow> (\<exists>w\<in>{''NTSC'', ''PAL'', ''INT'', ''FSC''}. has_word name w) \<or>
     name \<noteq> [] \<and> last name \<in> {CHR ''S'', CHR ''s'', CHR ''I'', CHR ''i''}"

lemma upper_letter: "upper (cval c) = cval (CHR ''S'') \<longleftrightarrow> c \<in> {CHR ''S'', CHR ''s''}" "upper (cval c) = cval (CHR ''I'') \<longleftrightarrow> c \<in> {CHR ''I'', CHR ''i''}"
proof -
  have "upper n = 83 \<longleftrightarrow> n = 83 \<or> n = 115" "upper n = 73 \<longleftrightarrow> n = 73 \<or> n = 105" for n by (auto simp: upper_def)
  moreover have "cval (CHR ''S'') = 83" "cval (CHR ''s'') = 115" "cval (CHR ''I'') = 73" "cval (CHR ''i'') = 105" by (simp_all add: cval_def)
  ultimately show "upper (cval c) = cval (CHR ''S'') \<longleftrightarrow> c \<in> {CHR ''S'', CHR ''s''}" "upper (cval c) = cval (CHR ''I'') \<longleftrightarrow> c \<in> {CHR ''I'', CHR ''i''}"
    using cval_inj [of c "CHR ''S''"] cval_inj [of c "CHR ''s''"] cval_inj [of c "CHR ''I''"] cval_inj [of c "CHR ''i''"] by simp_all
qed

lemma suppressed_iff:
  assumes "c_string name"
  shows "suppressed name \<longleftrightarrow> left_out name"
proof -
  have w: "fbc_resname_attr_str name w \<longleftrightarrow> has_word name w" if "c_string w" for w
    using mode_names [OF assms that] by (simp add: has_word_def)
  have "c_string ''NTSC''" "c_string ''PAL''" "c_string ''INT''" "c_string ''FSC''" by simp_all
  from this [THEN w] show ?thesis
    unfolding suppressed_def left_out_def fbc_resname_attr_chr_def upper_letter by blast
qed

definition entry :: "string \<Rightarrow> nat list \<Rightarrow> string" where
  "entry name notes = [CHR 0x09] @ pad 26 name @ brackets notes @ NL"

text \<open>The names that are listed, of a list of pointers to modes.\<close>

definition listed :: "mode_line option list \<Rightarrow> string list" where
  "listed l = filter (\<lambda>name. \<not> left_out name) (map (\<lambda>m. the (ml_identifier (the m))) (filter (\<lambda>m. m \<noteq> None) l))"

definition unsupported :: "res_env \<Rightarrow> (nat \<Rightarrow> edid_mode list option) \<Rightarrow> string \<Rightarrow> bool" where
  "unsupported v modes name \<longleftrightarrow> (\<exists>k\<in>set (streams v). \<not> supports (modes k) name)"

definition used_notes :: "res_env \<Rightarrow> (nat \<Rightarrow> edid_mode list option) \<Rightarrow> string list \<Rightarrow> nat set" where
  "used_notes v modes names =
     (\<Union>name\<in>set names. set (concat (map (mode_notes modes name) (streams v))) \<union> missing (unsupported v modes name))"

lemma mode_notes_Nil: "mode_notes modes name k = [] \<longleftrightarrow> \<not> supports (modes k) name"
  by (simp add: mode_notes_def)

definition strings :: "(nat \<Rightarrow> edid_mode list option) \<Rightarrow> nat list \<Rightarrow> bool" where
  "strings modes ks \<longleftrightarrow> (\<forall>k\<in>set ks. \<forall>ms. modes k = Some ms \<longrightarrow> (\<forall>m\<in>set ms. c_string (em_name m)))"

lemma list_video_mode_entry:
  assumes "\<forall>k\<in>set (streams v). k * 2 + 2 < length f" "0 < length f" "\<not> left_out name" "c_string name" "strings modes (streams v)"
  shows "fbc_list_video_mode v name FBC_CHECK_EDID_MODES modes f = Some (entry name (concat (map (mode_notes modes name) (streams v))),
      mark f (used_notes v modes [name]))"
proof -
  have n: "level_notes (\<lambda>k. fbc_in_edid_modes (modes k) name) k = mode_notes modes name k" if "k \<in> set (streams v)" for k
    using assms(4,5) that by (intro level_notes_checked) (auto simp: strings_def)
  then have "map (level_notes (\<lambda>k. fbc_in_edid_modes (modes k) name)) (streams v) = map (mode_notes modes name) (streams v)"
    "(\<exists>k\<in>set (streams v). level_notes (\<lambda>k. fbc_in_edid_modes (modes k) name) k = []) \<longleftrightarrow> unsupported v modes name"
    using mode_notes_Nil by (auto simp: unsupported_def)
  then show ?thesis
    using assms(3) suppressed_iff [OF assms(4)] stream_notes_marks [OF assms(1,2) refl, of name FBC_CHECK_EDID_MODES modes]
    by (simp add: fbc_list_video_mode_def entry_def used_notes_def cong: map_cong)
qed

lemma list_modes_entries:
  assumes "\<forall>k\<in>set (streams v). k * 2 + 2 < length f" "0 < length f" "\<forall>m. Some m \<in> set l \<longrightarrow> (\<exists>n. ml_identifier m = Some n \<and> c_string n)"
    and "strings modes (streams v)"
  shows "list_modes v modes l f = Some (concat (map (\<lambda>name. entry name (concat (map (mode_notes modes name) (streams v)))) (listed l)),
      mark f (used_notes v modes (listed l)))"
  using assms(1-3)
proof (induction l arbitrary: f)
  case (Cons p ms)
  show ?case
  proof (cases p)
    case None
    then show ?thesis using Cons by (simp add: listed_def)
  next
    case (Some m)
    then obtain name where name: "ml_identifier m = Some name" "c_string name" using Cons.prems(3) by auto
    show ?thesis
    proof (cases "left_out name")
      case True
      then show ?thesis using Cons Some name suppressed_iff by (simp add: fbc_list_video_mode_def listed_def)
    next
      case False
      have "listed (p # ms) = name # listed ms" using Some name False by (simp add: listed_def)
      moreover from this have "used_notes v modes (listed (p # ms)) = used_notes v modes [name] \<union> used_notes v modes (listed ms)"
        by (simp add: used_notes_def)
      ultimately show ?thesis
        using Some name list_video_mode_entry [OF Cons.prems(1,2) False name(2) assms(4)] Cons.IH [of "mark f (used_notes v modes [name])"] Cons.prems
        by simp
    qed
  qed
qed (simp add: listed_def used_notes_def)

definition all_notes :: "res_env \<Rightarrow> nat list" where
  "all_notes v = concat (map (\<lambda>k. [k * 2 + 1, k * 2 + 2]) (streams v))"

lemma checked_first: "FBC_FIRST_EDID_MODE \<noteq> FBC_CHECK_EDID_MODES"
  by (simp add: FBC_FIRST_EDID_MODE_def FBC_CHECK_EDID_MODES_def)

lemma list_keywords_entries:
  assumes "\<forall>k\<in>set (streams v). k * 2 + 2 < length f" "0 < length f" "\<forall>k\<in>set ks. \<not> suppressed k"
  shows "list_keywords v ks f = Some (concat (map (\<lambda>k. entry k (all_notes v)) ks), mark f (if ks = [] then {} else set (all_notes v)))"
  using assms
proof (induction ks arbitrary: f)
  case (Cons k ks)
  have "level_notes (\<lambda>k. FBC_FIRST_EDID_MODE) = (\<lambda>k. [k * 2 + 1, k * 2 + 2])"
    by (simp add: level_notes_def [abs_def] FBC_FIRST_EDID_MODE_def FBC_NOT_IN_EDID_MODES_def)
  then have "fbc_list_video_mode v k FBC_FIRST_EDID_MODE (\<lambda>k. None) f = Some (entry k (all_notes v), mark f (set (all_notes v)))"
    using stream_notes_marks [OF Cons.prems(1,2) refl, of k FBC_FIRST_EDID_MODE "\<lambda>k. None"] Cons.prems(3)
    by (simp add: fbc_list_video_mode_def entry_def all_notes_def missing_def checked_first)
  then show ?case using Cons.IH [of "mark f (set (all_notes v))"] Cons.prems by auto
qed simp

text \<open>What is said about the notes of a stream.\<close>

definition legend :: "res_env \<Rightarrow> (nat \<Rightarrow> edid_mode list option) \<Rightarrow> nat \<Rightarrow> string" where
  "legend v modes k =
     (let monitor_id = fbc_get_monitor_id (max_streams v) k
      in ''['' @ show_nat (k * 2 + 1) @ ''] Resolution is supported by monitor'' @ monitor_id @ NL @
         ''['' @ show_nat (k * 2 + 2) @ ''] Preferred resolution for monitor'' @ monitor_id @ NL @
         (if modes k = None then ''No EDID data for monitor'' @ monitor_id @ ''.  Can not determine supported resolutions.'' @ NL else []))"

lemma list_notes_legend:
  assumes "\<forall>k\<in>set ks. k * 2 + 2 < length f \<and> f ! (k * 2 + 1) \<and> f ! (k * 2 + 2)"
  shows "list_notes v modes ks b f = (concat (map (legend v modes) ks), b \<or> ks \<noteq> [], mark f (missing (\<exists>k\<in>set ks. modes k = None)))"
  using assms
proof (induction ks arbitrary: b f)
  case (Cons k ks)
  have "mark f {0} ! (j * 2 + 1) \<and> mark f {0} ! (j * 2 + 2)" "0 < length f" if "j \<in> set (k # ks)" for j
    using Cons.prems that by fastforce+
  then have IH: "list_notes v modes ks True f = (concat (map (legend v modes) ks), True, mark f (missing (\<exists>k\<in>set ks. modes k = None)))"
    "list_notes v modes ks True (mark f {0}) =
      (concat (map (legend v modes) ks), True, mark f ({0} \<union> missing (\<exists>k\<in>set ks. modes k = None)))"
    using Cons.IH [of f True] Cons.IH [of "mark f {0}" True] Cons.prems by simp_all
  have u: "f[0 := True] = mark f {0}" using Cons.prems by (intro mark_update) auto
  have f: "f ! (k * 2 + 1)" "f ! (k * 2 + 1 + 1)" using Cons.prems by auto
  have "{0} \<union> missing P = {0}" for P by (simp add: missing_def)
  then show ?case using f IH u unfolding list_notes.simps
    by (cases "modes k") (simp_all add: legend_def [of v modes k] Let_def missing_def)
qed (simp add: missing_def)

lemma keywords_shown: "\<forall>k\<in>set mode_pref_keywd. \<not> suppressed k"
  unfolding mode_pref_keywd_def by code_simp

text \<open>
  C26. Suppose that the list of modes can be made, that the run that excludes incompatible modes returns (it can read through a null pointer instead), that
  one or both of two video streams are in use, and that the names of the modes are present and without null characters. Then the listing names the two keywords and
  after them, in the order of the mode list, the modes that have not been excluded as incompatible and whose name is not one of these: a name that has \<^verbatim>\<open>NTSC\<close>, \<^verbatim>\<open>PAL\<close>, \<^verbatim>\<open>INT\<close> or \<^verbatim>\<open>FSC\<close>
  in it, in any case and set off by punctuation or the ends of the name, and a name that ends in the letter S or I of
  either case. Stereo modes whose name has the word \<^verbatim>\<open>STEREO\<close> are listed. Each mode listed carries the note of every
  display that lists it, and the second note of every display that lists it first; all notes are explained, and
  the warning is given exactly when a listed mode is not listed by some display or when a display says
  nothing.
\<close>

theorem modes_listed:
  assumes l: "device_modes v s = Returned (l, s1)" and "stream_lo v \<le> stream_hi v" "stream_hi v < 2"
    and c: "fbc_res_compatible (fb_model v) (comp_file v) (comp_buf v) (map (edid_info v l) (streams v)) None (Some (map Some l)) =
      Some (Returned (ok, Some shown))"
    and names: "\<forall>m. Some m \<in> set shown \<longrightarrow> (\<exists>n. ml_identifier m = Some n \<and> c_string n)" "string_names v (edid_info v l)"
    and m: "modes = (\<lambda>k. edid_modes (edid_info v l k))"
  shows "fbc_res_list_modes v s = Returned (''Video modes accepted by the -res option:'' @ NL @
    entry ''AUTO'' (all_notes v) @ entry ''NONE'' (all_notes v) @
    concat (map (\<lambda>name. entry name (concat (map (mode_notes modes name) (streams v)))) (listed shown)) @ NL @
    concat (map (legend v modes) (streams v)) @ NL @
    (if (\<exists>k\<in>set (streams v). modes k = None \<or> (\<exists>name\<in>set (listed shown). \<not> supports (modes k) name))
     then ''Use of an unsupported resolution can render the video display unusable.'' @ NL @ NL else []) @
    ''Abbreviations such as '' @ quoted ''1280x1024x75'' @ '' may also be used.'' @ NL, s1)"
proof -
  let ?f = "replicate (FBC_MAX_NOTES + 1) False" and ?N = "set (all_notes v)" and ?U = "used_notes v modes (listed shown)"
  let ?f2 = "mark (mark ?f ?N) ?U"
  have k: "\<forall>k\<in>set (streams v). k * 2 + 2 < length ?f" "0 < length ?f" "streams v \<noteq> []"
    using assms(2,3) by (auto simp: streams_def FBC_MAX_NOTES_def)
  have t1: "list_keywords v mode_pref_keywd ?f = Some (entry ''AUTO'' (all_notes v) @ entry ''NONE'' (all_notes v), mark ?f ?N)"
    using list_keywords_entries [OF k(1,2) keywords_shown] by (simp add: mode_pref_keywd_def)
  have t2: "list_modes v modes shown (mark ?f ?N) =
      Some (concat (map (\<lambda>name. entry name (concat (map (mode_notes modes name) (streams v)))) (listed shown)), ?f2)"
    using list_modes_entries [of v "mark ?f ?N" shown modes] k(1,2) names by (simp add: m string_names_def strings_def)
  have "k * 2 + 2 < length ?f2 \<and> ?f2 ! (k * 2 + 1) \<and> ?f2 ! (k * 2 + 2)" if "k \<in> set (streams v)" for k
  proof -
    have "k * 2 + 1 \<in> ?N" "k * 2 + 2 \<in> ?N" using that by (auto simp: all_notes_def)
    moreover have "k * 2 + 1 < length ?f" "k * 2 + 2 < length ?f" using k(1) that by auto
    ultimately show ?thesis by (simp del: length_replicate)
  qed
  then have "\<forall>k\<in>set (streams v). k * 2 + 2 < length ?f2 \<and> ?f2 ! (k * 2 + 1) \<and> ?f2 ! (k * 2 + 2)" by blast
  note t3 = list_notes_legend [OF this, of v modes False]
  have "0 \<notin> ?N" "0 \<notin> set (mode_notes modes name j)" for name j by (auto simp: all_notes_def mode_notes_def)
  then have w: "mark ?f2 (missing (\<exists>k\<in>set (streams v). modes k = None)) ! 0 \<longleftrightarrow>
      (\<exists>k\<in>set (streams v). modes k = None \<or> (\<exists>name\<in>set (listed shown). \<not> supports (modes k) name))"
    by (auto simp: used_notes_def missing_def unsupported_def FBC_MAX_NOTES_def split: if_splits)
  show ?thesis
    unfolding fbc_res_list_modes_def l t1 c defined_simps run_bind_simps prod.case Let_def m [symmetric] option.sel t2 t3 w append_assoc
    using k(3) by (simp only: simp_thms if_True)
qed

theorem modes_listed_witness:
  "\<exists>t. fbc_res_list_modes sample_res sample_config = Returned (''Video modes accepted by the -res option:'' @ NL @
     entry ''AUTO'' [1, 2] @ entry ''NONE'' [1, 2] @ t, sample_config)"
proof -
  obtain l where l: "device_modes sample_res sample_config = Returned (l, sample_config)" "\<forall>m\<in>set l. \<exists>n. ml_identifier m = Some n \<and> c_string n"
    using sample_device_modes by blast
  have "stream_lo sample_res \<le> stream_hi sample_res" "stream_hi sample_res < 2" by (simp_all add: sample_res_def)
  moreover have "fbc_res_compatible (fb_model sample_res) (comp_file sample_res) (comp_buf sample_res)
      (map (edid_info sample_res l) (streams sample_res)) None (Some (map Some l)) = Some (Returned (True, Some (map Some l)))"
    by (simp add: fbc_res_compatible_def sample_res_def)
  moreover have "\<forall>m. Some m \<in> set (map Some l) \<longrightarrow> (\<exists>n. ml_identifier m = Some n \<and> c_string n)" using l(2) by auto
  moreover have "string_names sample_res (edid_info sample_res l)" by (simp add: string_names_def sample_res_def sample_display_def)
  ultimately have "\<exists>t. fbc_res_list_modes sample_res sample_config = Returned (''Video modes accepted by the -res option:'' @ NL @
     entry ''AUTO'' (all_notes sample_res) @ entry ''NONE'' (all_notes sample_res) @ t, sample_config)"
    using modes_listed [OF l(1) _ _ _ _ _ refl] by blast
  moreover have "all_notes sample_res = [1, 2]" by (simp add: all_notes_def sample_streams)
  ultimately show ?thesis by (simp only:)
qed

section \<open>The entries of the table\<close>

text \<open>Each entry is named after its width and height, and no two names are equal up to case.\<close>

lemma table_sizes: "list_all (\<lambda>x. name_size (id_string x) = Returned (vs_width x, vs_height x)) SunVideoTable"
  by code_simp

lemma table_distinct: "distinct (map (\<lambda>x. map low (id_string x)) SunVideoTable)"
  by code_simp

end
