(* ===== verification/Fbc_Scan.thy ===== *)
theory Fbc_Scan
  imports Fbc_Names
begin

text \<open>
  Reading lines of a configuration file (\<^verbatim>\<open>components/x11/app/gfx-utils/sun-src/fbconf_xorg/xf86/scan.c\<close>). A line is read
  into a buffer of 1024 characters that grows as long as no end of line has been found. A stream is what is left to
  be read of a file. Whether the n-th memory request of the run succeeds is given by a function.
\<close>

section \<open>The next line\<close>

definition CONFIG_BUF_LEN :: nat where
  "CONFIG_BUF_LEN = 1024"

definition line_end :: "char \<Rightarrow> bool" where
  "line_end c \<longleftrightarrow> c = CHR 0x0A \<or> c = CHR 0x0D"

text \<open>How many characters \<^verbatim>\<open>fgets\<close> takes from the stream when it may store \<open>n\<close>, the null character included.\<close>

definition fgets_len :: "nat \<Rightarrow> string \<Rightarrow> nat" where
  "fgets_len n s = min (n - 1) (length (takeWhile (\<lambda>c. c \<noteq> CHR 0x0A) s) + 1)"

text \<open>
  \<open>acc\<close> is the string in the buffer, which is where the next block is read to. The result is the line unless nothing
  more could be read, the length of the buffer, the rest of the stream and the number of requests so far.
\<close>

function line_loop :: "(nat \<Rightarrow> bool) \<Rightarrow> nat \<Rightarrow> nat \<Rightarrow> string \<Rightarrow> string \<Rightarrow> string option \<times> nat \<times> string \<times> nat" where
  "line_loop mem n len acc stream =
     (if stream = [] then (None, len, [], n)
      else
        (let k = fgets_len (len - length acc - 1) stream;
             block = takeWhile (\<lambda>c. c \<noteq> CHR 0x00) (take k stream);
             rest = drop k stream
         in if list_ex line_end block then (Some (acc @ block), len, rest, n)
            else if mem n then line_loop mem (n + 1) (len + CONFIG_BUF_LEN) (acc @ block) rest
            else (Some (acc @ block), len, rest, n + 1)))"
  by pat_completeness auto
termination
proof (relation "measures [\<lambda>(mem, n, len, acc, stream). length stream, \<lambda>(mem, n, len, acc, stream). length acc + 3 - len]", goal_cases)
  case (2 mem n len acc stream k block rest)
  show ?case
  proof (cases "k = 0")
    case True
    then have "len < length acc + 3" "block = []" "rest = stream" using 2 by (auto simp: fgets_len_def)
    then show ?thesis by (auto simp: CONFIG_BUF_LEN_def)
  next
    case False
    then have "length rest < length stream" using 2 by auto
    then show ?thesis by auto
  qed
qed auto

declare line_loop.simps [simp del]

text \<open>
  A buffer that has grown is to be replaced by one of the usual length first; the code frees the address of the
  variable instead of the buffer, which is not defined.
\<close>

definition xf86getNextLine :: "(nat \<Rightarrow> bool) \<Rightarrow> nat \<Rightarrow> nat \<Rightarrow> string \<Rightarrow> (string option \<times> nat \<times> string \<times> nat) option" where
  "xf86getNextLine mem n len stream =
     (if len \<noteq> CONFIG_BUF_LEN then (if mem n then None else Some (line_loop mem (n + 1) len [] stream))
      else Some (line_loop mem n len [] stream))"

section \<open>Whole lines\<close>

definition plain :: "string \<Rightarrow> bool" where
  "plain u \<longleftrightarrow> (\<forall>c\<in>set u. c \<noteq> CHR 0x00 \<and> \<not> line_end c)"

lemma plain_simps [simp]: "plain []" "plain (u @ v) \<longleftrightarrow> plain u \<and> plain v" "plain u \<Longrightarrow> plain (take k u)" "plain u \<Longrightarrow> plain (drop k u)"
  by (auto simp: plain_def dest: in_set_takeD in_set_dropD)

lemma plain_blocks:
  assumes "plain u"
  shows "takeWhile (\<lambda>c. c \<noteq> CHR 0x00) u = u" "\<not> list_ex line_end u" "takeWhile (\<lambda>c. c \<noteq> CHR 0x0A) (u @ CHR 0x0A # r) = u"
    "takeWhile (\<lambda>c. c \<noteq> CHR 0x0A) u = u"
  using assms by (induction u) (auto simp: plain_def line_end_def)

lemma line_loop_block:
  assumes "stream \<noteq> []" "fgets_len (len - length acc - 1) stream = k" "takeWhile (\<lambda>c. c \<noteq> CHR 0x00) (take k stream) = block"
  shows "line_loop mem n len acc stream =
    (if list_ex line_end block then (Some (acc @ block), len, drop k stream, n)
     else if mem n then line_loop mem (n + 1) (len + CONFIG_BUF_LEN) (acc @ block) (drop k stream)
     else (Some (acc @ block), len, drop k stream, n + 1))"
  using assms by (subst line_loop.simps) (simp add: Let_def)

lemma line_loop_short:
  assumes "plain u" "length acc + length u + 3 \<le> len"
  shows "line_loop mem n len acc (u @ CHR 0x0A # r) = (Some (acc @ u @ [CHR 0x0A]), len, r, n)"
proof -
  let ?s = "u @ CHR 0x0A # r"
  have k: "fgets_len (len - length acc - 1) ?s = length u + 1"
    using assms plain_blocks [OF assms(1)] by (simp add: fgets_len_def)
  have b: "takeWhile (\<lambda>c. c \<noteq> CHR 0x00) (take (length u + 1) ?s) = u @ [CHR 0x0A]"
    using assms(1) by (auto simp: takeWhile_eq_all_conv plain_def)
  show ?thesis using line_loop_block [OF _ k b, of mem n] by (simp add: line_end_def)
qed

text \<open>A line is read whole, however long it is; the buffer grows only for one that does not fit.\<close>

lemma line_loop_line:
  assumes "plain u" "length acc + 3 \<le> len"
  shows "\<exists>n' k. line_loop (\<lambda>i. True) n len acc (u @ CHR 0x0A # r) = (Some (acc @ u @ [CHR 0x0A]), len + k * CONFIG_BUF_LEN, r, n') \<and>
    (k = 0 \<longleftrightarrow> length acc + length u + 3 \<le> len) \<and> (k = 0 \<longrightarrow> n' = n)"
  using assms
proof (induction "length u" arbitrary: u acc len n rule: less_induct)
  case less
  let ?s = "u @ CHR 0x0A # r" and ?size = "len - length acc - 1"
  let ?k = "?size - 1"
  have ne: "?s \<noteq> []" by simp
  show ?case
  proof (cases "length u + 1 \<le> ?k")
    case True
    then have "line_loop (\<lambda>i. True) n len acc ?s = (Some (acc @ u @ [CHR 0x0A]), len, r, n)"
      using line_loop_short [OF less.prems(1), of acc len] by auto
    then show ?thesis using True by (intro exI [of _ n] exI [of _ 0]) auto
  next
    case False
    have k: "0 < ?k" "?k \<le> length u" using False less.prems(2) by auto
    have f: "fgets_len ?size ?s = ?k" using False plain_blocks [OF less.prems(1)] by (simp add: fgets_len_def)
    have b: "takeWhile (\<lambda>c. c \<noteq> CHR 0x00) (take ?k ?s) = take ?k u"
      using k(2) plain_blocks(1) [of "take ?k u"] less.prems(1) by simp
    have "line_loop (\<lambda>i. True) n len acc ?s =
        line_loop (\<lambda>i. True) (n + 1) (len + CONFIG_BUF_LEN) (acc @ take ?k u) (drop ?k u @ CHR 0x0A # r)"
      using line_loop_block [OF ne f b, of "\<lambda>i. True" n] k(2) plain_blocks(2) [of "take ?k u"] less.prems(1) by simp
    moreover have "length (drop ?k u) < length u" "length (acc @ take ?k u) + 3 \<le> len + CONFIG_BUF_LEN" "plain (drop ?k u)"
      using k less.prems by (auto simp: CONFIG_BUF_LEN_def)
    from less.hyps [OF this(1,3,2), of "n + 1"] obtain n' j where "line_loop (\<lambda>i. True) (n + 1) (len + CONFIG_BUF_LEN) (acc @ take ?k u) (drop ?k u @ CHR 0x0A # r) =
        (Some ((acc @ take ?k u) @ drop ?k u @ [CHR 0x0A]), len + CONFIG_BUF_LEN + j * CONFIG_BUF_LEN, r, n')"
      by blast
    ultimately have "line_loop (\<lambda>i. True) n len acc ?s = (Some (acc @ u @ [CHR 0x0A]), len + Suc j * CONFIG_BUF_LEN, r, n')"
      by (simp add: algebra_simps)
    then show ?thesis using False by (intro exI [of _ n'] exI [of _ "Suc j"]) auto
  qed
qed

text \<open>What remains without an end of line is read and lost.\<close>

lemma line_loop_lost:
  assumes "plain u" "length acc + 3 \<le> len"
  shows "\<exists>n' len'. line_loop (\<lambda>i. True) n len acc u = (None, len', [], n')"
  using assms
proof (induction "length u" arbitrary: u acc len n rule: less_induct)
  case less
  show ?case
  proof (cases "u = []")
    case True
    then show ?thesis by (subst line_loop.simps) simp
  next
    case False
    let ?size = "len - length acc - 1"
    define k where "k = fgets_len ?size u"
    have k: "0 < k" using less.prems(2) by (simp add: k_def fgets_len_def)
    have b: "takeWhile (\<lambda>c. c \<noteq> CHR 0x00) (take k u) = take k u" "\<not> list_ex line_end (take k u)"
      using plain_blocks [of "take k u"] less.prems(1) by simp_all
    have "line_loop (\<lambda>i. True) n len acc u = line_loop (\<lambda>i. True) (n + 1) (len + CONFIG_BUF_LEN) (acc @ take k u) (drop k u)"
      using b(2) line_loop_block [OF False k_def [symmetric] b(1), of "\<lambda>i. True" n] by simp
    moreover have "length (acc @ take k u) + 3 \<le> len + CONFIG_BUF_LEN"
      using less.prems(2) by (simp add: CONFIG_BUF_LEN_def k_def fgets_len_def)
    ultimately show ?thesis using less.hyps [of "drop k u" "acc @ take k u"] less.prems(1) k False by auto
  qed
qed

text \<open>
  C27. With memory available, the next line is returned whole, however long it is, and the rest of the file is left for
  later. A line of at most 1021 characters leaves the buffer as it is. After a longer one the call for the next line
  frees what was never allocated, and the end of a file without a newline is dropped as if it were not there.
\<close>

theorem next_line_read:
  assumes "plain u"
  shows "\<exists>len n'. xf86getNextLine (\<lambda>i. True) n CONFIG_BUF_LEN (u @ CHR 0x0A # rest) = Some (Some (u @ [CHR 0x0A]), len, rest, n') \<and>
    (len = CONFIG_BUF_LEN \<longleftrightarrow> length u + 3 \<le> CONFIG_BUF_LEN) \<and>
    (CONFIG_BUF_LEN < length u + 3 \<longrightarrow> xf86getNextLine (\<lambda>i. True) n' len rest = None) \<and>
    (\<exists>len1 n1. xf86getNextLine (\<lambda>i. True) n CONFIG_BUF_LEN u = Some (None, len1, [], n1))"
proof -
  have c: "length ([] :: string) + 3 \<le> CONFIG_BUF_LEN" by (simp add: CONFIG_BUF_LEN_def)
  obtain n' k where "line_loop (\<lambda>i. True) n CONFIG_BUF_LEN [] (u @ CHR 0x0A # rest) =
      (Some (u @ [CHR 0x0A]), CONFIG_BUF_LEN + k * CONFIG_BUF_LEN, rest, n')" "k = 0 \<longleftrightarrow> length u + 3 \<le> CONFIG_BUF_LEN"
    using line_loop_line [OF assms c, of n rest] by auto
  moreover have "CONFIG_BUF_LEN + k * CONFIG_BUF_LEN = CONFIG_BUF_LEN \<longleftrightarrow> k = 0" by (simp add: CONFIG_BUF_LEN_def)
  ultimately show ?thesis using line_loop_lost [OF assms c, of n] by (auto simp: xf86getNextLine_def)
qed

theorem next_line_read_witness:
  "\<exists>len n'. xf86getNextLine (\<lambda>i. True) 0 CONFIG_BUF_LEN (''EndSection'' @ CHR 0x0A # ''# end'') =
      Some (Some (''EndSection'' @ [CHR 0x0A]), len, ''# end'', n') \<and> len = CONFIG_BUF_LEN"
proof -
  have "plain ''EndSection''" by (simp add: plain_def line_end_def)
  from next_line_read [OF this, of 0 "''# end''"] show ?thesis by (auto simp: CONFIG_BUF_LEN_def)
qed

end
