(* ===== verification/Fbc_Double.thy ===== *)
theory Fbc_Double
  imports Complex_Main
begin

text \<open>
  Arithmetic with \<^verbatim>\<open>double\<close>, as far as the frame-buffer configuration uses it: a value is rounded to 53
  significant binary digits, to the nearest, and to the even one of two that are equally near. The range of the
  exponent is not limited; the values in question are clocks, and conversion to an integer bounds them.
\<close>

section \<open>Rounding\<close>

definition half_even :: "rat \<Rightarrow> int" where
  "half_even x =
     (let f = \<lfloor>x\<rfloor>; r = x - of_int f
      in if r < 1 / 2 then f else if 1 / 2 < r then f + 1 else if even f then f else f + 1)"

fun bits :: "nat \<Rightarrow> nat" where
  "bits n = (if n = 0 then 0 else Suc (bits (n div 2)))"

declare bits.simps [simp del]

definition two_to :: "int \<Rightarrow> rat" where
  "two_to e = (if 0 \<le> e then 2 ^ nat e else 1 / 2 ^ nat (- e))"

text \<open>The binary exponent of a positive number.\<close>

definition exponent :: "rat \<Rightarrow> int" where
  "exponent x =
     (let (p, q) = quotient_of x; d = int (bits (nat p)) - int (bits (nat q)) in if two_to d \<le> x then d else d - 1)"

definition round_double :: "rat \<Rightarrow> rat" where
  "round_double x =
     (if x = 0 then 0
      else let u = two_to (exponent \<bar>x\<bar> - 52); r = of_int (half_even (\<bar>x\<bar> / u)) * u in if x < 0 then - r else r)"

section \<open>The error of rounding\<close>

lemma half_even_error: "\<bar>of_int (half_even x) - x\<bar> \<le> 1 / 2"
proof -
  have "of_int \<lfloor>x\<rfloor> \<le> x" "x < of_int \<lfloor>x\<rfloor> + 1" by linarith+
  then show ?thesis unfolding half_even_def Let_def by auto
qed

lemma two_to_pos [simp]: "0 < two_to e"
  by (simp add: two_to_def)

lemma two_to_Suc: "two_to (e + 1) = 2 * two_to e"
proof (cases "0 \<le> e")
  case True
  then show ?thesis by (simp add: two_to_def nat_add_distrib)
next
  case False
  then have "nat (- e) = Suc (nat (- (e + 1)))" by simp
  then show ?thesis using False by (auto simp: two_to_def)
qed

lemma two_to_add: "two_to (e + int n) = two_to e * 2 ^ n"
proof (induction n)
  case (Suc n)
  have "two_to (e + int (Suc n)) = two_to ((e + int n) + 1)" by (simp add: ac_simps)
  then show ?case unfolding two_to_Suc Suc by simp
qed simp

lemma bits_bounds: "0 < n \<Longrightarrow> 2 ^ bits n \<le> 2 * n \<and> n < 2 ^ bits n"
proof (induction n rule: bits.induct)
  case (1 n)
  show ?case
  proof (cases "n div 2 = 0")
    case True
    then show ?thesis using 1 by (simp add: bits.simps [of n] bits.simps [of 0])
  next
    case False
    define k :: nat where "k = 2 ^ bits (n div 2)"
    have "k \<le> 2 * (n div 2)" "n div 2 < k" using 1 False by (auto simp: k_def)
    then have "2 * k \<le> 2 * n \<and> n < 2 * k" by linarith
    then show ?thesis using 1 by (simp add: bits.simps [of n] k_def)
  qed
qed

lemma two_to_diff: "two_to (int a - int b) = 2 ^ a / 2 ^ b"
proof (cases "b \<le> a")
  case True
  then show ?thesis by (simp add: two_to_def power_diff nat_diff_distrib')
next
  case False
  then have "nat (- (int a - int b)) = b - a" by simp
  then show ?thesis using False by (simp add: two_to_def power_diff)
qed

lemma exponent_le:
  assumes "0 < x"
  shows "two_to (exponent x) \<le> x"
proof -
  obtain p q where q: "quotient_of x = (p, q)" by force
  have x: "x = of_int p / of_int q" "0 < q" using q quotient_of_div quotient_of_denom_pos by auto
  then have p: "0 < p" using assms by (simp add: zero_less_divide_iff)
  define a b where "a = bits (nat p)" and "b = bits (nat q)"
  have n: "2 ^ a \<le> 2 * nat p" "nat q \<le> 2 ^ b"
    using bits_bounds [of "nat p"] bits_bounds [of "nat q"] p x(2) by (auto simp: a_def b_def)
  have "(2 :: rat) ^ a \<le> of_nat (2 * nat p)" using n(1) by (metis of_nat_le_iff of_nat_numeral of_nat_power)
  moreover have "of_nat (nat q) \<le> (2 :: rat) ^ b" using n(2) by (metis of_nat_le_iff of_nat_numeral of_nat_power)
  ultimately have "(2 :: rat) ^ a \<le> 2 * of_int p" "of_int q \<le> (2 :: rat) ^ b" using p x(2) by simp_all
  then have "(2 :: rat) ^ a / 2 ^ b \<le> 2 * of_int p / of_int q" using p x(2) by (intro frac_le) auto
  then have "two_to (int a - int b) \<le> 2 * x" using x(1) by (simp add: two_to_diff)
  then have "two_to (int a - int b - 1) \<le> x" using two_to_Suc [of "int a - int b - 1"] by simp
  then show ?thesis using q by (simp add: exponent_def a_def b_def Let_def)
qed

lemma round_error:
  assumes "0 \<le> x"
  shows "\<bar>round_double x - x\<bar> \<le> x / 2 ^ 53"
proof (cases "x = 0")
  case False
  define u where "u = two_to (exponent x - 52)"
  have u: "0 < u" "u * 2 ^ 52 \<le> x" using two_to_add [of "exponent x - 52" 52] exponent_le [of x] assms False by (simp_all add: u_def)
  have "\<bar>of_int (half_even (x / u)) * u - x\<bar> = \<bar>of_int (half_even (x / u)) - x / u\<bar> * u"
  proof -
    have "of_int (half_even (x / u)) * u - x = (of_int (half_even (x / u)) - x / u) * u" using u(1) by (simp add: algebra_simps)
    then show ?thesis using u(1) by (simp add: abs_mult)
  qed
  also have "\<dots> \<le> 1 / 2 * u" using half_even_error u(1) by (intro mult_right_mono) auto
  also have "\<dots> \<le> x / 2 ^ 53" using u(2) by simp
  finally show ?thesis using assms False by (simp add: round_double_def u_def Let_def)
qed (simp add: round_double_def)

lemma round_nonneg: "0 \<le> x \<Longrightarrow> 0 \<le> round_double x"
proof -
  assume x: "0 \<le> x"
  then have "x / 2 ^ 53 \<le> x" by simp
  with round_error [OF x] show ?thesis by linarith
qed

text \<open>
  A number of thousandths that fits into an \<^verbatim>\<open>int\<close> survives being read as a decimal fraction, multiplied by 1000
  and rounded to an integer.
\<close>

definition thousandths :: "rat \<Rightarrow> rat" where
  "thousandths x = round_double (round_double (x * 1000) + 1 / 2)"

lemma thousandths_exact:
  assumes "0 \<le> k" "k < 2147483648"
  shows "\<lfloor>thousandths (round_double (of_int k / 1000))\<rfloor> = k"
proof -
  define x :: rat where "x = of_int k / 1000"
  define a where "a = round_double x"
  define b where "b = round_double (a * 1000)"
  define c where "c = round_double (b + 1 / 2)"
  have x: "0 \<le> x" "x \<le> 2147484" "x * 1000 = of_int k" using assms by (simp_all add: x_def)
  have "\<bar>a - x\<bar> \<le> x / 2 ^ 53" "x / 2 ^ 53 \<le> 1 / 1000000000" using round_error [OF x(1)] x(2) by (simp_all add: a_def)
  then have a: "\<bar>a - x\<bar> \<le> 1 / 1000000000" by linarith
  have a0: "0 \<le> a" using round_nonneg [OF x(1)] by (simp add: a_def)
  have "\<bar>b - a * 1000\<bar> \<le> a * 1000 / 2 ^ 53" using round_error [of "a * 1000"] a0 by (simp add: b_def)
  moreover have "a * 1000 \<le> 2147484001" using a x by linarith
  ultimately have b: "\<bar>b - a * 1000\<bar> \<le> 1 / 1000000" by simp
  have b0: "0 \<le> b" using round_nonneg [of "a * 1000"] a0 by (simp add: b_def)
  have "\<bar>c - (b + 1 / 2)\<bar> \<le> (b + 1 / 2) / 2 ^ 53" using round_error [of "b + 1 / 2"] b0 by (simp add: c_def)
  moreover have "b + 1 / 2 \<le> 2147484003" using a b x by linarith
  ultimately have c: "\<bar>c - (b + 1 / 2)\<bar> \<le> 1 / 1000000" by simp
  have "\<bar>c - (of_int k + 1 / 2)\<bar> \<le> 3 / 1000000" using a b c x(3) by linarith
  then have "of_int k \<le> c" "c < of_int k + 1" by linarith+
  then show ?thesis by (simp add: thousandths_def c_def b_def a_def x_def floor_eq_iff)
qed

end
