(* ===== verification/Fbc_Token.thy ===== *)
theory Fbc_Token
  imports Fbc_Modes Fbc_Scan Fbc_Double
begin

text \<open>
  The scanner of configuration files (\<^verbatim>\<open>components/x11/app/gfx-utils/sun-src/fbconf_xorg/xf86/scan.c\<close>): tokens, the token
  that has been put back, and comments. The global variables of the file are the fields of a record. A call that does
  not return is treated like one whose behaviour C does not define.
\<close>

section \<open>Tokens\<close>

text \<open>The tokens that appear in many sections, and those of ServerFlags, Monitor and Modes sections; the others are numbered.\<close>

datatype (plugins only: code) token =
  EOF_TOKEN | LOCK_TOKEN | ERROR_TOKEN | NUMBER | STRING
| SECTION | SUBSECTION | ENDSECTION | ENDSUBSECTION | IDENTIFIER | VENDOR | DASH | COMMA | OPTION | COMMENT
| NOTRAPSIGNALS | DONTZAP | DONTZOOM | DISABLEVIDMODE | ALLOWNONLOCAL | DISABLEMODINDEV | MODINDEVALLOWNONLOCAL | ALLOWMOUSEOPENFAIL
| BLANKTIME | STANDBYTIME | SUSPENDTIME | OFFTIME | DEFAULTLAYOUT
| MODEL | MODELINE | DISPLAYSIZE | HORIZSYNC | VERTREFRESH | MODE | GAMMA | USEMODES
| DOTCLOCK | HTIMINGS | VTIMINGS | FLAGS | HSKEW | BCAST | VSCAN | ENDMODE
| TT_INTERLACE | TT_PHSYNC | TT_NHSYNC | TT_PVSYNC | TT_NVSYNC | TT_CSYNC | TT_PCSYNC | TT_NCSYNC | TT_DBLSCAN | TT_HSKEW
| TT_BCAST | TT_VSCAN | TT_CUSTOM
| Other_token nat

type_synonym sym_tab = "(token \<times> string) list"

abbreviation EOS :: char where
  "EOS \<equiv> CHR 0x00"

section \<open>Numbers\<close>

definition ul_digit :: "int \<Rightarrow> char \<Rightarrow> int option" where
  "ul_digit base c =
     (let n = cval c
      in if 48 \<le> n \<and> n \<le> (if base = 8 then 55 else 57) then Some (n - 48)
         else if base = 16 \<and> 97 \<le> n \<and> n \<le> 102 then Some (10 + (n - 97))
         else if base = 16 \<and> 65 \<le> n \<and> n \<le> 70 then Some (10 + (n - 65))
         else None)"

fun ul_loop :: "int \<Rightarrow> int \<Rightarrow> string \<Rightarrow> int" where
  "ul_loop base tot [] = tot"
| "ul_loop base tot (c # p) =
     (case ul_digit base c of None \<Rightarrow> tot | Some d \<Rightarrow> ul_loop base ((tot * base + d) mod 4294967296) p)"

definition xf86strToUL :: "string \<Rightarrow> int" where
  "xf86strToUL str =
     (if str \<noteq> [] \<and> hd str = CHR ''0''
      then (let p = tl str
            in if p \<noteq> [] \<and> (hd p = CHR ''x'' \<or> hd p = CHR ''X'') then ul_loop 16 0 (tl p) else ul_loop 8 0 p)
      else ul_loop 10 0 str)"

text \<open>
  The value that \<^verbatim>\<open>atof\<close> gives for the text of a number token: digits in decimal, or in hexadecimal after a
  prefix, with digits after a point.
\<close>

fun read_digits :: "int \<Rightarrow> nat \<Rightarrow> nat \<Rightarrow> string \<Rightarrow> nat \<times> nat \<times> string" where
  "read_digits base acc k [] = (acc, k, [])"
| "read_digits base acc k (c # cs) =
     (case ul_digit base c of
        None \<Rightarrow> (acc, k, c # cs)
      | Some d \<Rightarrow> read_digits base (acc * nat base + nat d) (Suc k) cs)"

definition decimal :: "int \<Rightarrow> string \<Rightarrow> rat" where
  "decimal base s =
     (let (n, k, r) = read_digits base 0 0 s;
          (f, j, u) = (if r \<noteq> [] \<and> hd r = CHR ''.'' then read_digits base n 0 (tl r) else (n, 0, r))
      in of_nat f / of_nat (nat base ^ j))"

definition hex_prefix :: "string \<Rightarrow> bool" where
  "hex_prefix s \<longleftrightarrow>
     (case s of
        z # x # t \<Rightarrow>
          z = CHR ''0'' \<and> (x = CHR ''x'' \<or> x = CHR ''X'') \<and>
          (let u = (if t \<noteq> [] \<and> hd t = CHR ''.'' then tl t else t) in u \<noteq> [] \<and> ul_digit 16 (hd u) \<noteq> None)
      | _ \<Rightarrow> False)"

definition atof :: "string \<Rightarrow> rat" where
  "atof s = round_double (if hex_prefix s then decimal 16 (drop 2 s) else decimal 10 s)"

section \<open>State\<close>

text \<open>
  \<open>sc_buf\<close> is the string in the line buffer, \<open>sc_at\<close> the position in it, \<open>sc_rbuf\<close> the string in the token buffer; the
  next memory request has the number \<open>sc_req\<close>.
\<close>

record scanner =
  sc_stream :: string
  sc_file :: nat
  sc_pos :: int
  sc_buf :: string
  sc_at :: nat
  sc_len :: nat
  sc_rlen :: nat
  sc_rbuf :: string
  sc_push :: token
  sc_eol :: bool
  sc_line_no :: nat
  sc_num :: int
  sc_real :: rat
  sc_str :: "string option"
  sc_lines :: "ir_data line_list"
  sc_req :: nat

section \<open>Reading a token\<close>

definition blank :: "char \<Rightarrow> bool" where
  "blank c \<longleftrightarrow> c = CHR '' '' \<or> c = CHR 0x09 \<or> c = CHR 0x0D \<or> c = CHR 0x0A"

definition isalpha :: "char \<Rightarrow> bool" where
  "isalpha c \<longleftrightarrow> (let n = cval c in 65 \<le> n \<and> n \<le> 90 \<or> 97 \<le> n \<and> n \<le> 122)"

text \<open>The next line, if there is one; its place is recorded.\<close>

definition scan_fetch :: "env \<Rightarrow> scanner \<Rightarrow> (bool \<times> scanner) fbc_run" where
  "scan_fetch env st =
     (case xf86getNextLine (mem_ok env) (sc_req st) (sc_len st) (sc_stream st) of
        None \<Rightarrow> Undefined
      | Some (ret, len, rest, n) \<Rightarrow>
          (let st1 = st\<lparr>sc_len := len, sc_stream := rest, sc_req := n, sc_pos := sc_pos st + int (length (sc_stream st) - length rest)\<rparr>
           in case ret of
                None \<Rightarrow> Returned (False, st1\<lparr>sc_push := EOF_TOKEN\<rparr>)
              | Some line \<Rightarrow>
                  run_bind (fbc_save_line_location (if mem_ok env n then Some (mem_addr env n) else None) (mem_raw env)
                      (Some (sc_file st)) (sc_pos st) (sc_lines st)) (\<lambda>lines.
                    Returned (True, st1\<lparr>sc_lines := lines, sc_req := n + 1, sc_buf := line, sc_at := 0,
                      sc_line_no := sc_line_no st + 1, sc_eol := True\<rparr>))))"

text \<open>
  A token buffer of another length than the line buffer is to be replaced; the code stores the new one in the
  variable of the line buffer and goes on with the freed one.
\<close>

definition token_buffer :: "env \<Rightarrow> scanner \<Rightarrow> scanner fbc_run" where
  "token_buffer env st =
     (if sc_rlen st = sc_len st then Returned st
      else if mem_ok env (sc_req st) then Undefined else Returned (st\<lparr>sc_req := sc_req st + 1\<rparr>))"

text \<open>How much of the token buffer skipping these characters and storing the next one uses, and what is left in it before that one.\<close>

fun skip_width :: "nat \<Rightarrow> string \<Rightarrow> nat" where
  "skip_width i [] = i + 1"
| "skip_width i (c # cs) = max (i + 1) (if c = CHR 0x0A then skip_width 0 cs else skip_width (i + 1) cs)"

fun skip_left :: "string \<Rightarrow> string \<Rightarrow> string" where
  "skip_left acc [] = acc"
| "skip_left acc (c # cs) = (if c = CHR 0x0A then skip_left [] cs else skip_left (acc @ [c]) cs)"

definition char_at :: "scanner \<Rightarrow> nat \<Rightarrow> char" where
  "char_at st i = (sc_buf st @ [EOS]) ! i"

text \<open>The first character of the next token, unless the file has ended, and the characters skipped in its line.\<close>

partial_function (option) token_start :: "env \<Rightarrow> char \<Rightarrow> scanner \<Rightarrow> (char option \<times> string \<times> scanner) fbc_run option" where
  "token_start env c st =
     (case (if c = EOS then scan_fetch env st else Returned (True, st)) of
        Exited \<Rightarrow> Some Exited
      | Undefined \<Rightarrow> Some Undefined
      | Returned (got, st1) \<Rightarrow>
          if \<not> got then Some (Returned (None, [], st1))
          else
            (case token_buffer env st1 of
               Exited \<Rightarrow> Some Exited
             | Undefined \<Rightarrow> Some Undefined
             | Returned st2 \<Rightarrow>
                 (let skipped = takeWhile blank (drop (sc_at st2) (sc_buf st2)); p = sc_at st2 + length skipped; d = char_at st2 p
                  in if sc_rlen st2 < skip_width 0 skipped then Some Undefined
                     else if d = EOS then token_start env EOS (st2\<lparr>sc_at := p + 1\<rparr>)
                     else Some (Returned (Some d, skip_left [] skipped, st2\<lparr>sc_at := p + 1\<rparr>)))))"

declare token_start.simps [code]

fun lookup :: "sym_tab \<Rightarrow> string \<Rightarrow> token" where
  "lookup [] s = ERROR_TOKEN"
| "lookup ((t, name) # tab) s = (if xf86nameCompare (Some s) (Some name) = Some 0 then t else lookup tab s)"

definition number_char :: "int \<Rightarrow> char \<Rightarrow> bool" where
  "number_char base c \<longleftrightarrow> isdigit c \<or> c = CHR ''.'' \<or> c = CHR ''x'' \<or> c = CHR ''X'' \<or>
     base = 16 \<and> (97 \<le> cval c \<and> cval c \<le> 102 \<or> 65 \<le> cval c \<and> cval c \<le> 70)"

definition stop :: "char list \<Rightarrow> char \<Rightarrow> bool" where
  "stop cs c \<longleftrightarrow> c \<in> set cs"

text \<open>The token that starts with the character before the position; \<open>left\<close> is what the token buffer holds before it.\<close>

definition scan_token :: "env \<Rightarrow> sym_tab \<Rightarrow> char \<Rightarrow> string \<Rightarrow> scanner \<Rightarrow> (token \<times> scanner) fbc_run" where
  "scan_token env tab c left st =
     (let rest = drop (sc_at st) (sc_buf st); d = hd (rest @ [EOS])
      in if c = CHR ''#'' then
           (let t = takeWhile (\<lambda>c. \<not> stop [CHR 0x0A, CHR 0x0D, EOS] c) rest; last = hd (drop (length t) rest @ [EOS]);
                text = left @ [c] @ t @ (if last = EOS then [] else [last])
            in if sc_rlen st < length left + 1 + length t + 2 then Undefined
               else Returned (COMMENT, st\<lparr>sc_at := sc_at st + length t + 1, sc_rbuf := text, sc_str := Some text\<rparr>))
         else if c = CHR '','' \<and> \<not> isalpha d then Returned (COMMA, st)
         else if c = CHR ''-'' \<and> \<not> isalpha d then Returned (DASH, st)
         else if isdigit c then
           (let base = (if c = CHR ''0'' then if d = CHR ''x'' \<or> d = CHR ''X'' then 16 else 8 else 10);
                text = c # takeWhile (number_char base) rest
            in if sc_rlen st < length text + 1 then Undefined
               else Returned (NUMBER, st\<lparr>sc_at := sc_at st + length text - 1, sc_rbuf := text,
                      sc_num := int32 (xf86strToUL text), sc_real := atof text\<rparr>))
         else if c = CHR 0x22 then
           (let t = takeWhile (\<lambda>c. \<not> stop [CHR 0x22, CHR 0x0A, CHR 0x0D, EOS] c) rest
            in if sc_rlen st < length t + 1 \<or> \<not> mem_ok env (sc_req st) then Undefined
               else Returned (STRING, st\<lparr>sc_at := sc_at st + length t + 1, sc_rbuf := t, sc_str := Some t, sc_req := sc_req st + 1\<rparr>))
         else
           (let text = c # takeWhile (\<lambda>c. \<not> stop [CHR '' '', CHR 0x09, CHR 0x0A, CHR 0x0D, EOS, CHR ''#''] c) rest
            in if sc_rlen st < length text + 1 then Undefined
               else Returned (lookup tab text, st\<lparr>sc_at := sc_at st + length text - 1, sc_rbuf := text\<rparr>)))"

text \<open>The next token of the input.\<close>

definition next_token :: "env \<Rightarrow> sym_tab \<Rightarrow> scanner \<Rightarrow> (token \<times> scanner) fbc_run" where
  "next_token env tab st =
     (if length (sc_buf st) < sc_at st then Undefined
      else run_bind (defined (token_start env (char_at st (sc_at st)) st)) (\<lambda>r.
           run_bind r (\<lambda>(c, left, st1).
             case c of None \<Rightarrow> Returned (EOF_TOKEN, st1) | Some d \<Rightarrow> scan_token env tab d left st1)))"

text \<open>Without a table the look-up fails, like in an empty one.\<close>

definition xf86getToken :: "env \<Rightarrow> sym_tab \<Rightarrow> scanner \<Rightarrow> (token \<times> scanner) fbc_run" where
  "xf86getToken env tab st =
     (if sc_push st = EOF_TOKEN then Returned (EOF_TOKEN, st)
      else if sc_push st = LOCK_TOKEN then next_token env tab (st\<lparr>sc_eol := False\<rparr>)
      else
        (let temp = sc_push st; st1 = st\<lparr>sc_push := LOCK_TOKEN\<rparr>
         in if temp = COMMA \<or> temp = DASH \<or> temp = NUMBER \<or> temp = STRING then Returned (temp, st1)
            else Returned (lookup tab (sc_rbuf st1), st1)))"

definition xf86unGetToken :: "token \<Rightarrow> scanner \<Rightarrow> scanner" where
  "xf86unGetToken t st = st\<lparr>sc_push := t\<rparr>"

fun StringToToken :: "string \<Rightarrow> sym_tab \<Rightarrow> token" where
  "StringToToken str [] = ERROR_TOKEN"
| "StringToToken str ((t, name) # tab) = (if xf86nameCompare (Some name) (Some str) = Some 0 then t else StringToToken str tab)"

definition xf86getStringToken :: "sym_tab \<Rightarrow> scanner \<Rightarrow> token" where
  "xf86getStringToken tab st = (case sc_str st of None \<Rightarrow> ERROR_TOKEN | Some str \<Rightarrow> StringToToken str tab)"

section \<open>Comments\<close>

text \<open>The length asked for counts the character to be added the wrong way round.\<close>

definition xf86addComment :: "env \<Rightarrow> string option \<Rightarrow> string \<Rightarrow> scanner \<Rightarrow> (string option \<times> scanner) fbc_run" where
  "xf86addComment env cur add st =
     (if add = [] then Returned (cur, st)
      else
        (let old = (case cur of None \<Rightarrow> [] | Some s \<Rightarrow> s);
             hasnewline = (old \<noteq> [] \<and> last old = CHR 0x0A);
             eol = (cur = None \<and> sc_eol st);
             body = dropWhile (\<lambda>c. c = CHR '' '' \<or> c = CHR 0x09) add;
             iscomment = (body \<noteq> [] \<and> hd body = CHR ''#'');
             endnewline = (last add = CHR 0x0A);
             len = length add + 1 + of_bool iscomment + of_bool (\<not> hasnewline) + of_bool (\<not> endnewline) + of_bool eol;
             new = old @ (if eol \<or> old \<noteq> [] \<and> \<not> hasnewline then [CHR 0x0A] else []) @ (if iscomment then [] else ''#'') @ add @
               (if endnewline then [] else [CHR 0x0A]);
             st1 = st\<lparr>sc_eol := eol, sc_req := sc_req st + 1\<rparr>
         in if \<not> mem_ok env (sc_req st) then Returned (cur, st1)
            else if length old + len < length new + 1 then Undefined
            else Returned (Some new, st1)))"

text \<open>The next token that is not a comment; comments are added to those given.\<close>

partial_function (option) sub_token_loop :: "env \<Rightarrow> sym_tab \<Rightarrow> string option \<Rightarrow> scanner \<Rightarrow> (token \<times> string option \<times> scanner) fbc_run option" where
  "sub_token_loop env tab comment st =
     (case xf86getToken env tab st of
        Exited \<Rightarrow> Some Exited
      | Undefined \<Rightarrow> Some Undefined
      | Returned (t, st1) \<Rightarrow>
          if t \<noteq> COMMENT then Some (Returned (t, comment, st1))
          else
            (case xf86addComment env comment (the (sc_str st1)) st1 of
               Exited \<Rightarrow> Some Exited
             | Undefined \<Rightarrow> Some Undefined
             | Returned (comment1, st2) \<Rightarrow> sub_token_loop env tab comment1 st2))"

declare sub_token_loop.simps [code]

definition xf86getSubTokenWithTab :: "env \<Rightarrow> string option \<Rightarrow> sym_tab \<Rightarrow> scanner \<Rightarrow> (token \<times> string option \<times> scanner) fbc_run" where
  "xf86getSubTokenWithTab env comment tab st = run_bind (defined (sub_token_loop env tab comment st)) (\<lambda>r. r)"

definition xf86getSubToken :: "env \<Rightarrow> string option \<Rightarrow> scanner \<Rightarrow> (token \<times> string option \<times> scanner) fbc_run" where
  "xf86getSubToken env comment st = xf86getSubTokenWithTab env comment [] st"

end
