(* ===== verification/Fbc_Parse.thy ===== *)
theory Fbc_Parse
  imports Fbc_Token
begin

text \<open>
  The parser of video modes and of Modes sections
  (\<^verbatim>\<open>components/x11/app/gfx-utils/sun-src/fbconf_xorg/xf86/Monitor.c\<close>). A parse function returns the null pointer, here \<open>None\<close>, when it finds
  an error. The lines an entry consists of are linked to the mode by its address and to the print
  function of the entry.
\<close>

section \<open>Tables\<close>

definition ModesTab :: sym_tab where
  "ModesTab = [(ENDSECTION, ''endsection''), (IDENTIFIER, ''identifier''), (MODELINE, ''modeline''), (MODE, ''mode'')]"

definition TimingTab :: sym_tab where
  "TimingTab = [(TT_INTERLACE, ''interlace''), (TT_PHSYNC, ''+hsync''), (TT_NHSYNC, ''-hsync''), (TT_PVSYNC, ''+vsync''),
     (TT_NVSYNC, ''-vsync''), (TT_CSYNC, ''composite''), (TT_PCSYNC, ''+csync''), (TT_NCSYNC, ''-csync''),
     (TT_DBLSCAN, ''doublescan''), (TT_HSKEW, ''hskew''), (TT_BCAST, ''bcast''), (TT_VSCAN, ''vscan''), (TT_CUSTOM, ''CUSTOM'')]"

definition ModeTab :: sym_tab where
  "ModeTab = [(DOTCLOCK, ''dotclock''), (HTIMINGS, ''htimings''), (VTIMINGS, ''vtimings''), (FLAGS, ''flags''), (HSKEW, ''hskew''),
     (BCAST, ''bcast''), (VSCAN, ''vscan''), (ENDMODE, ''endmode'')]"

section \<open>Modes\<close>

record parsed_mode = mode_line +
  ml_comment :: "string option"
  ml_verbose :: bool
  ml_dotclock_line_er :: "nat option"
  ml_htimings_line_er :: "nat option"
  ml_vtimings_line_er :: "nat option"
  ml_flags_line_er :: "nat option"
  ml_hskew_line_er :: "nat option"
  ml_vscan_line_er :: "nat option"
  ml_end_line_er :: "nat option"

definition new_mode :: parsed_mode where
  "new_mode = \<lparr>ml_identifier = None, ml_clock = 0, ml_hdisplay = 0, ml_hsyncstart = 0, ml_hsyncend = 0, ml_htotal = 0,
     ml_vdisplay = 0, ml_vsyncstart = 0, ml_vsyncend = 0, ml_vtotal = 0, ml_vscan = 0, ml_flags = 0, ml_hskew = 0,
     ml_comment = None, ml_verbose = False, ml_dotclock_line_er = None, ml_htimings_line_er = None, ml_vtimings_line_er = None,
     ml_flags_line_er = None, ml_hskew_line_er = None, ml_vscan_line_er = None, ml_end_line_er = None\<rparr>"

datatype mode_part = Mode_line_text | Dot_clock | H_timings | V_timings | Mode_flags | H_skew | V_scan

type_synonym printers = "mode_part \<Rightarrow> ir_data option \<Rightarrow> string list \<Rightarrow> string"

type_synonym 'a parsed = "('a option \<times> scanner) fbc_run"

definition link_mode :: "nat \<Rightarrow> nat option \<Rightarrow> (ir_data option \<Rightarrow> string list \<Rightarrow> string) option \<Rightarrow> nat \<Rightarrow> scanner \<Rightarrow> scanner fbc_run" where
  "link_mode a line_er print indent st =
     run_bind (defined (fbc_link_line_ER line_er (Some (Other_entry a)) print indent (sc_lines st))) (\<lambda>lines. Returned (st\<lparr>sc_lines := lines\<rparr>))"

text \<open>The next token that is not a comment, with the comments added to the mode.\<close>

definition sub_token :: "env \<Rightarrow> sym_tab \<Rightarrow> parsed_mode \<Rightarrow> scanner \<Rightarrow> (token \<times> parsed_mode \<times> scanner) fbc_run" where
  "sub_token env tab m st =
     run_bind (xf86getSubTokenWithTab env (ml_comment m) tab st) (\<lambda>(t, c, st1). Returned (t, m\<lparr>ml_comment := c\<rparr>, st1))"

fun read_numbers :: "env \<Rightarrow> (int \<Rightarrow> parsed_mode \<Rightarrow> parsed_mode) list \<Rightarrow> parsed_mode \<Rightarrow> scanner \<Rightarrow> parsed_mode parsed" where
  "read_numbers env [] m st = Returned (Some m, st)"
| "read_numbers env (f # fs) m st =
     run_bind (sub_token env [] m st) (\<lambda>(t, m1, st1).
       if t \<noteq> NUMBER then Returned (None, st1) else read_numbers env fs (f (sc_num st1) m1) st1)"

definition htimings :: "(int \<Rightarrow> parsed_mode \<Rightarrow> parsed_mode) list" where
  "htimings = [\<lambda>n m. m\<lparr>ml_hdisplay := n\<rparr>, \<lambda>n m. m\<lparr>ml_hsyncstart := n\<rparr>, \<lambda>n m. m\<lparr>ml_hsyncend := n\<rparr>, \<lambda>n m. m\<lparr>ml_htotal := n\<rparr>]"

definition vtimings :: "(int \<Rightarrow> parsed_mode \<Rightarrow> parsed_mode) list" where
  "vtimings = [\<lambda>n m. m\<lparr>ml_vdisplay := n\<rparr>, \<lambda>n m. m\<lparr>ml_vsyncstart := n\<rparr>, \<lambda>n m. m\<lparr>ml_vsyncend := n\<rparr>, \<lambda>n m. m\<lparr>ml_vtotal := n\<rparr>]"

text \<open>Conversion to an integer outside its range is not defined.\<close>

definition clock_khz :: "rat \<Rightarrow> int fbc_run" where
  "clock_khz r = (let k = \<lfloor>thousandths r\<rfloor> in if k < 2147483648 then Returned k else Undefined)"

definition read_clock :: "env \<Rightarrow> parsed_mode \<Rightarrow> scanner \<Rightarrow> parsed_mode parsed" where
  "read_clock env m st =
     run_bind (sub_token env [] m st) (\<lambda>(t, m1, st1).
       if t \<noteq> NUMBER then Returned (None, st1)
       else run_bind (clock_khz (sc_real st1)) (\<lambda>k. Returned (Some (m1\<lparr>ml_clock := k\<rparr>), st1)))"

definition read_name :: "env \<Rightarrow> parsed_mode \<Rightarrow> scanner \<Rightarrow> parsed_mode parsed" where
  "read_name env m st =
     run_bind (sub_token env [] m st) (\<lambda>(t, m1, st1).
       if t \<noteq> STRING then Returned (None, st1) else Returned (Some (m1\<lparr>ml_identifier := sc_str st1\<rparr>), st1))"

text \<open>What follows when a value has been read; an error ends the parse.\<close>

definition then_parse :: "'a parsed \<Rightarrow> ('a \<Rightarrow> scanner \<Rightarrow> 'b parsed) \<Rightarrow> 'b parsed" where
  "then_parse r f = run_bind r (\<lambda>(x, st). case x of None \<Rightarrow> Returned (None, st) | Some y \<Rightarrow> f y st)"

subsection \<open>Mode entries\<close>

definition sync_flag :: "token \<Rightarrow> int option" where
  "sync_flag t =
     (case t of
        TT_INTERLACE \<Rightarrow> Some 0x0010 | TT_PHSYNC \<Rightarrow> Some 0x0001 | TT_NHSYNC \<Rightarrow> Some 0x0002 | TT_PVSYNC \<Rightarrow> Some 0x0004
      | TT_NVSYNC \<Rightarrow> Some 0x0008 | TT_CSYNC \<Rightarrow> Some 0x0040 | TT_PCSYNC \<Rightarrow> Some 0x0080 | TT_NCSYNC \<Rightarrow> Some 0x0100
      | TT_DBLSCAN \<Rightarrow> Some 0x0020 | TT_CUSTOM \<Rightarrow> Some 0x0800 | _ \<Rightarrow> None)"

partial_function (option) flags_loop :: "env \<Rightarrow> token \<Rightarrow> parsed_mode \<Rightarrow> scanner \<Rightarrow> parsed_mode parsed option" where
  "flags_loop env t m st =
     (if t \<noteq> STRING then Some (Returned (Some m, xf86unGetToken t st))
      else
        (case sync_flag (xf86getStringToken TimingTab st) of
           None \<Rightarrow> Some (Returned (None, st))
         | Some f \<Rightarrow>
             (case sub_token env [] (m\<lparr>ml_flags := ml_flags m OR f\<rparr>) st of
                Exited \<Rightarrow> Some Exited
              | Undefined \<Rightarrow> Some Undefined
              | Returned (t1, m1, st1) \<Rightarrow> flags_loop env t1 m1 st1)))"

declare flags_loop.simps [code]

definition read_flags :: "env \<Rightarrow> parsed_mode \<Rightarrow> scanner \<Rightarrow> parsed_mode parsed" where
  "read_flags env m st =
     run_bind (sub_token env [] m st) (\<lambda>(t, m1, st1).
       if t \<noteq> STRING then Returned (None, st1) else run_bind (defined (flags_loop env t m1 st1)) (\<lambda>r. r))"

text \<open>Which of the clock and the timings have been given.\<close>

type_synonym given = "bool \<times> bool \<times> bool"

text \<open>The entry that the token begins, in the line \<open>line_er\<close>; an unexpected token is an error.\<close>

definition mode_entry :: "env \<Rightarrow> printers \<Rightarrow> nat \<Rightarrow> token \<Rightarrow> nat option \<Rightarrow> parsed_mode \<Rightarrow> given \<Rightarrow> scanner \<Rightarrow> (parsed_mode \<times> given) parsed" where
  "mode_entry env pr a t line_er m had st =
     (let (had_dotclock, had_htimings, had_vtimings) = had;
          done = (\<lambda>part set had1 m1 st1. run_bind (link_mode a line_er (Some (pr part)) FBC_INDENT_2 st1) (\<lambda>st2. Returned (Some (set m1, had1), st2)))
      in case t of
           COMMENT \<Rightarrow> run_bind (xf86addComment env (ml_comment m) (the (sc_str st)) st) (\<lambda>(c, st1). Returned (Some (m\<lparr>ml_comment := c\<rparr>, had), st1))
         | DOTCLOCK \<Rightarrow> then_parse (read_clock env m st) (done Dot_clock (\<lambda>m. m\<lparr>ml_dotclock_line_er := line_er\<rparr>) (True, had_htimings, had_vtimings))
         | HTIMINGS \<Rightarrow> then_parse (read_numbers env htimings m st) (done H_timings (\<lambda>m. m\<lparr>ml_htimings_line_er := line_er\<rparr>) (had_dotclock, True, had_vtimings))
         | VTIMINGS \<Rightarrow> then_parse (read_numbers env vtimings m st) (done V_timings (\<lambda>m. m\<lparr>ml_vtimings_line_er := line_er\<rparr>) (had_dotclock, had_htimings, True))
         | FLAGS \<Rightarrow> then_parse (read_flags env m st) (done Mode_flags (\<lambda>m. m\<lparr>ml_flags_line_er := line_er\<rparr>) had)
         | HSKEW \<Rightarrow> then_parse (read_numbers env [\<lambda>n m. m\<lparr>ml_flags := ml_flags m OR XF86CONF_HSKEW, ml_hskew := n\<rparr>] m st)
             (done H_skew (\<lambda>m. m\<lparr>ml_hskew_line_er := line_er\<rparr>) had)
         | VSCAN \<Rightarrow> then_parse (read_numbers env [\<lambda>n m. m\<lparr>ml_flags := ml_flags m OR XF86CONF_VSCAN, ml_vscan := n\<rparr>] m st)
             (done V_scan (\<lambda>m. m\<lparr>ml_vscan_line_er := line_er\<rparr>) had)
         | _ \<Rightarrow> Returned (None, st))"

partial_function (option) mode_loop :: "env \<Rightarrow> printers \<Rightarrow> nat \<Rightarrow> parsed_mode \<Rightarrow> given \<Rightarrow> scanner \<Rightarrow> (parsed_mode \<times> given) parsed option" where
  "mode_loop env pr a m had st =
     (case xf86getToken env ModeTab st of
        Exited \<Rightarrow> Some Exited
      | Undefined \<Rightarrow> Some Undefined
      | Returned (t, st1) \<Rightarrow>
          (let line_er = fbc_get_current_line_ER (sc_lines st1)
           in if t = ENDMODE
              then Some (run_bind (link_mode a line_er None FBC_INDENT_1 st1) (\<lambda>st2. Returned (Some (m\<lparr>ml_end_line_er := line_er\<rparr>, had), st2)))
              else (case mode_entry env pr a t line_er m had st1 of
                      Exited \<Rightarrow> Some Exited
                    | Undefined \<Rightarrow> Some Undefined
                    | Returned (r, st2) \<Rightarrow>
                        (case r of None \<Rightarrow> Some (Returned (None, st2)) | Some (m1, had1) \<Rightarrow> mode_loop env pr a m1 had1 st2))))"

declare mode_loop.simps [code]

definition xf86parseVerboseMode :: "env \<Rightarrow> printers \<Rightarrow> scanner \<Rightarrow> parsed_mode parsed" where
  "xf86parseVerboseMode env pr st =
     (let a = mem_addr env (sc_req st); st1 = st\<lparr>sc_req := sc_req st + 1\<rparr>
      in if \<not> mem_ok env (sc_req st) then Returned (None, st1)
         else then_parse (read_name env (new_mode\<lparr>ml_verbose := True\<rparr>) st1) (\<lambda>m st2.
              then_parse (run_bind (defined (mode_loop env pr a m (False, False, False) st2)) (\<lambda>r. r)) (\<lambda>(m1, had_dotclock, had_htimings, had_vtimings) st3.
                if \<not> had_dotclock \<or> \<not> had_htimings \<or> \<not> had_vtimings then Returned (None, st3) else Returned (Some m1, st3))))"

subsection \<open>ModeLine entries\<close>

text \<open>The tokens that may follow the timings.\<close>

definition timing_token :: "token \<Rightarrow> bool" where
  "timing_token t \<longleftrightarrow> t \<in> {TT_INTERLACE, TT_PHSYNC, TT_NHSYNC, TT_PVSYNC, TT_NVSYNC, TT_CSYNC, TT_PCSYNC, TT_NCSYNC, TT_DBLSCAN,
     TT_HSKEW, TT_VSCAN, TT_BCAST}"

definition timing_entry :: "env \<Rightarrow> token \<Rightarrow> parsed_mode \<Rightarrow> scanner \<Rightarrow> parsed_mode parsed" where
  "timing_entry env t m st =
     (case t of
        TT_HSKEW \<Rightarrow> read_numbers env [\<lambda>n m. m\<lparr>ml_hskew := n, ml_flags := ml_flags m OR XF86CONF_HSKEW\<rparr>] m st
      | TT_VSCAN \<Rightarrow> read_numbers env [\<lambda>n m. m\<lparr>ml_vscan := n, ml_flags := ml_flags m OR XF86CONF_VSCAN\<rparr>] m st
      | TT_BCAST \<Rightarrow> Returned (Some (m\<lparr>ml_flags := ml_flags m OR 0x0400\<rparr>), st)
      | _ \<Rightarrow> (case sync_flag t of None \<Rightarrow> Returned (None, st) | Some f \<Rightarrow> Returned (Some (m\<lparr>ml_flags := ml_flags m OR f\<rparr>), st)))"

partial_function (option) timing_loop :: "env \<Rightarrow> token \<Rightarrow> parsed_mode \<Rightarrow> scanner \<Rightarrow> parsed_mode parsed option" where
  "timing_loop env t m st =
     (if \<not> timing_token t then Some (Returned (Some m, xf86unGetToken t st))
      else
        (case timing_entry env t m st of
           Exited \<Rightarrow> Some Exited
         | Undefined \<Rightarrow> Some Undefined
         | Returned (r, st1) \<Rightarrow>
             (case r of
                None \<Rightarrow> Some (Returned (None, st1))
              | Some m1 \<Rightarrow>
                  (case sub_token env TimingTab m1 st1 of
                     Exited \<Rightarrow> Some Exited
                   | Undefined \<Rightarrow> Some Undefined
                   | Returned (t1, m2, st2) \<Rightarrow> timing_loop env t1 m2 st2))))"

declare timing_loop.simps [code]

definition xf86parseModeLine :: "env \<Rightarrow> printers \<Rightarrow> scanner \<Rightarrow> parsed_mode parsed" where
  "xf86parseModeLine env pr st =
     (let a = mem_addr env (sc_req st); st1 = st\<lparr>sc_req := sc_req st + 1\<rparr>; line_er = fbc_get_current_line_ER (sc_lines st1);
          m = new_mode\<lparr>ml_dotclock_line_er := line_er, ml_htimings_line_er := line_er, ml_vtimings_line_er := line_er,
            ml_flags_line_er := line_er, ml_hskew_line_er := line_er, ml_vscan_line_er := line_er\<rparr>
      in if \<not> mem_ok env (sc_req st) then Returned (None, st1)
         else run_bind (link_mode a line_er (Some (pr Mode_line_text)) FBC_INDENT_1 st1) (\<lambda>st2.
              then_parse (read_name env m st2) (\<lambda>m1 st3.
              then_parse (read_clock env m1 st3) (\<lambda>m2 st4.
              then_parse (read_numbers env (htimings @ vtimings) m2 st4) (\<lambda>m3 st5.
                run_bind (sub_token env TimingTab m3 st5) (\<lambda>(t, m4, st6).
                  run_bind (defined (timing_loop env t m4 st6)) (\<lambda>r. r)))))))"

section \<open>Modes sections\<close>

text \<open>The section without its lines, and the comments.\<close>

record section_state =
  ss_identifier :: "string option"
  ss_modes :: "parsed_mode list"
  ss_comment :: "string option"

definition section_entry :: "env \<Rightarrow> printers \<Rightarrow> token \<Rightarrow> section_state \<Rightarrow> scanner \<Rightarrow> section_state parsed" where
  "section_entry env pr t s st =
     (case t of
        COMMENT \<Rightarrow> run_bind (xf86addComment env (ss_comment s) (the (sc_str st)) st) (\<lambda>(c, st1). Returned (Some (s\<lparr>ss_comment := c\<rparr>), st1))
      | IDENTIFIER \<Rightarrow>
          run_bind (xf86getSubToken env (ss_comment s) st) (\<lambda>(t1, c, st1).
            if t1 \<noteq> STRING \<or> ss_identifier s \<noteq> None then Returned (None, st1)
            else Returned (Some (s\<lparr>ss_comment := c, ss_identifier := sc_str st1\<rparr>), st1))
      | MODE \<Rightarrow> then_parse (xf86parseVerboseMode env pr st) (\<lambda>m st1. Returned (Some (s\<lparr>ss_modes := ss_modes s @ [m]\<rparr>), st1))
      | MODELINE \<Rightarrow> then_parse (xf86parseModeLine env pr st) (\<lambda>m st1. Returned (Some (s\<lparr>ss_modes := ss_modes s @ [m]\<rparr>), st1))
      | _ \<Rightarrow> Returned (None, st))"

partial_function (option) section_loop :: "env \<Rightarrow> printers \<Rightarrow> section_state \<Rightarrow> scanner \<Rightarrow> section_state parsed option" where
  "section_loop env pr s st =
     (case xf86getToken env ModesTab st of
        Exited \<Rightarrow> Some Exited
      | Undefined \<Rightarrow> Some Undefined
      | Returned (t, st1) \<Rightarrow>
          if t = ENDSECTION then Some (Returned (Some s, st1))
          else (case section_entry env pr t s st1 of
                  Exited \<Rightarrow> Some Exited
                | Undefined \<Rightarrow> Some Undefined
                | Returned (r, st2) \<Rightarrow> (case r of None \<Rightarrow> Some (Returned (None, st2)) | Some s1 \<Rightarrow> section_loop env pr s1 st2)))"

declare section_loop.simps [code]

text \<open>The lines of the predefined section are marked as deleted from its beginning on.\<close>

definition xf86parseModesSection :: "env \<Rightarrow> printers \<Rightarrow> scanner \<Rightarrow> (modes_section \<times> parsed_mode list \<times> string option) parsed" where
  "xf86parseModesSection env pr st =
     (let st1 = st\<lparr>sc_req := sc_req st + 1\<rparr>; line_er = fbc_get_current_line_ER (sc_lines st1)
      in if \<not> mem_ok env (sc_req st) then Returned (None, st1)
         else then_parse (run_bind (defined (section_loop env pr \<lparr>ss_identifier = None, ss_modes = [], ss_comment = None\<rparr> st1)) (\<lambda>r. r)) (\<lambda>s st2.
           let end_er = fbc_get_current_line_ER (sc_lines st2)
           in run_bind (if ss_identifier s = Some ''SunModes'' then defined (delete_lines line_er None (sc_lines st2)) else Returned (sc_lines st2)) (\<lambda>lines.
                if ss_identifier s = None then Returned (None, st2\<lparr>sc_lines := lines\<rparr>)
                else Returned (Some (\<lparr>modes_identifier = ss_identifier s, modes_modelines = map mode_line.truncate (ss_modes s),
                       begin_line_er = line_er, end_line_er = end_er\<rparr>, ss_modes s, ss_comment s), st2\<lparr>sc_lines := lines\<rparr>))))"

end
