(* ===== verification/Fbc_Write.thy ===== *)
theory Fbc_Write
  imports Fbc_Modes Fbc_Scan
begin

text \<open>
  Reading the lines of a configuration file and writing the file back (\<^verbatim>\<open>components/x11/app/gfx-utils/sun-src/fbconf_xorg\<close>,
  \<^verbatim>\<open>xf86/scan.c\<close> and \<^verbatim>\<open>fbc/fbc_write_config.c\<close>). The contents of the files, whether a file can be positioned, and the
  outcomes of the system calls are parameters.
\<close>

section \<open>Recording the lines\<close>

text \<open>
  The part of the scanner that fetches the next line when the current one is used up: the position of the line is
  recorded. The k-th line is recorded at the address \<open>addr k\<close>.
\<close>

partial_function (option) load_lines ::
  "(nat \<Rightarrow> bool) \<Rightarrow> (nat \<Rightarrow> nat) \<Rightarrow> 'i line_elem \<Rightarrow> nat \<Rightarrow> nat \<Rightarrow> nat \<Rightarrow> nat \<Rightarrow> int \<Rightarrow> string \<Rightarrow> 'i line_list \<Rightarrow> 'i line_list option" where
  "load_lines mem addr raw f k n len pos stream s =
     (case xf86getNextLine mem n len stream of
        None \<Rightarrow> None
      | Some (ret, len1, rest, n1) \<Rightarrow>
          (case ret of
             None \<Rightarrow> Some s
           | Some line \<Rightarrow>
               (case fbc_save_line_location (Some (addr k)) raw (Some f) pos s of
                  Returned s1 \<Rightarrow> load_lines mem addr raw f (k + 1) n1 len1 (pos + int (length stream - length rest)) rest s1
                | Exited \<Rightarrow> None
                | Undefined \<Rightarrow> None)))"

section \<open>Writing the lines\<close>

record file_env =
  file_text :: "nat \<Rightarrow> string"
  seek_ok :: "nat \<Rightarrow> int \<Rightarrow> bool"
  line_mem :: "nat \<Rightarrow> bool"

text \<open>The whitespace to use, whether it has been measured, the length of the line buffer, the memory requests made.\<close>

record write_state =
  wspace_chars :: wspace
  wspace_measured :: bool
  buf_len :: nat
  line_requests :: nat

definition fbc_reread_config_line ::
  "file_env \<Rightarrow> nat option \<Rightarrow> int \<Rightarrow> write_state \<Rightarrow> (fbc_error \<times> string \<times> write_state) option" where
  "fbc_reread_config_line env stream pos st =
     (case stream of
        None \<Rightarrow> None
      | Some f \<Rightarrow>
          if \<not> seek_ok env f pos then Some (FBC_ERR_SEEK, [], st)
          else
            (case xf86getNextLine (line_mem env) (line_requests st) (buf_len st) (drop (nat pos) (file_text env f)) of
               None \<Rightarrow> None
             | Some (ret, len, rest, n) \<Rightarrow>
                 (let st1 = st\<lparr>buf_len := len, line_requests := n\<rparr>
                  in case ret of
                       None \<Rightarrow> Some (FBC_ERR_READ, [], st1)
                     | Some line \<Rightarrow>
                         (case fbc_measure_whitespace line (wspace_chars st1) of
                            None \<Rightarrow> None
                          | Some w \<Rightarrow> Some (FBC_SUCCESS, line, st1\<lparr>wspace_chars := w\<rparr>)))))"

text \<open>Copying a line; \<open>note\<close> is what is written before it.\<close>

definition copy_line :: "file_env \<Rightarrow> string \<Rightarrow> 'i line_elem \<Rightarrow> write_state \<Rightarrow> (fbc_error \<times> string \<times> write_state) option" where
  "copy_line env note e st =
     (case fbc_reread_config_line env (config_stream_in e) (line_pos e) st of
        None \<Rightarrow> None
      | Some (code, line, st1) \<Rightarrow>
          if code \<noteq> FBC_SUCCESS then Some (code, note, st1)
          else Some (FBC_SUCCESS, note @ line, st1\<lparr>wspace_measured := True\<rparr>))"

definition inserted_whitespace :: "nat \<Rightarrow> write_state \<Rightarrow> string list \<times> write_state" where
  "inserted_whitespace indent st =
     (if \<not> wspace_measured st \<or> indent = FBC_INDENT_0
      then if indent = FBC_INDENT_0 then (xf86whitespace_0, st\<lparr>wspace_measured := False\<rparr>)
           else if indent = FBC_INDENT_1 \<or> indent = FBC_INDENT_ENTRY then (xf86whitespace_1, st)
           else (xf86whitespace_2, st)
      else (wspace_list (wspace_chars st), st))"

definition write_line :: "file_env \<Rightarrow> 'i line_elem \<Rightarrow> write_state \<Rightarrow> (fbc_error \<times> string \<times> write_state) option" where
  "write_line env e st =
     (case status e of
        FBC_LINE_ORIGINAL \<Rightarrow> copy_line env [] e st
      | FBC_LINE_INSERTED \<Rightarrow>
          (case print_fn e of
             None \<Rightarrow> Some (FBC_SUCCESS, ''### A line to be inserted here was discarded for lack of a print function'' @ NL, st)
           | Some print \<Rightarrow>
               (let (whitespace, st1) = inserted_whitespace (indent_level e) st
                in Some (FBC_SUCCESS, print (ir_ptr e) whitespace, st1)))
      | FBC_LINE_MODIFIED \<Rightarrow>
          (case fbc_reread_config_line env (config_stream_in e) (line_pos e) st of
             None \<Rightarrow> None
           | Some (code, line, st1) \<Rightarrow>
               (let st2 = st1\<lparr>wspace_measured := True\<rparr>
                in case print_fn e of
                     None \<Rightarrow> copy_line env (''### The following line was not modified for lack of a print function'' @ NL) e st2
                   | Some print \<Rightarrow> Some (FBC_SUCCESS, print (ir_ptr e) (wspace_list (wspace_chars st2)), st2)))
      | FBC_LINE_DELETED \<Rightarrow> Some (FBC_SUCCESS, [], st))"

text \<open>The error code and what has been written.\<close>

partial_function (option) write_loop :: "file_env \<Rightarrow> nat option \<Rightarrow> write_state \<Rightarrow> 'i line_list \<Rightarrow> (fbc_error \<times> string) option" where
  "write_loop env line st s =
     (case line of
        None \<Rightarrow> Some (FBC_SUCCESS, [])
      | Some a \<Rightarrow>
          (case elems s a of
             None \<Rightarrow> None
           | Some e \<Rightarrow>
               (case write_line env e st of
                  None \<Rightarrow> None
                | Some (code, out, st1) \<Rightarrow>
                    if code \<noteq> FBC_SUCCESS then Some (code, out)
                    else do { (code1, rest) \<leftarrow> write_loop env (next_ptr e) st1 s; Some (code1, out @ rest) })))"

text \<open>The Modes section of the monitor, with the modes left in the predefined one.\<close>

fun print_modes :: "mode_line list \<Rightarrow> string option" where
  "print_modes [] = Some []"
| "print_modes (m # ms) =
     (case xf86printMxxxSectionMode m xf86whitespace_1 xf86whitespace_2 of
        None \<Rightarrow> None
      | Some t \<Rightarrow> (case print_modes ms of None \<Rightarrow> None | Some ts \<Rightarrow> Some (t @ ts)))"

definition fbc_write_config_modes :: "config \<Rightarrow> string option" where
  "fbc_write_config_modes s =
     (case xf86findModes ''SunModes'' (section_names s) of
        None \<Rightarrow> Some []
      | Some i \<Rightarrow>
          (let modes = modes_modelines (conf_modes_lst s ! i)
           in if modes = [] then Some []
              else case (mon_identifier (conf_monitor s), print_modes modes) of
                     (Some b, Some t) \<Rightarrow>
                       Some (''Section '' @ quoted ''Modes'' @ NL @
                         [CHR 0x09] @ ''Identifier '' @ quoted (''SunModes_'' @ b) @ NL @ t @ NL @ ''EndSection'' @ NL)
                   | _ \<Rightarrow> None))"

text \<open>The buffer for whitespace is not initialised.\<close>

definition fbc_write_config_file :: "file_env \<Rightarrow> nat \<Rightarrow> string \<Rightarrow> bool \<Rightarrow> config \<Rightarrow> (fbc_error \<times> string) option" where
  "fbc_write_config_file env len buf video_mode s =
     (case write_loop env (head_ptr (conf_lines s))
        \<lparr>wspace_chars = \<lparr>wspace_ptrs = map Constant xf86whitespace_0, whitespace_buf = buf\<rparr>, wspace_measured = False,
          buf_len = len, line_requests = 0\<rparr> (conf_lines s) of
        None \<Rightarrow> None
      | Some (code, out) \<Rightarrow>
          if code \<noteq> FBC_SUCCESS then Some (code, out)
          else if video_mode
          then (case fbc_write_config_modes s of None \<Rightarrow> None | Some t \<Rightarrow> Some (FBC_SUCCESS, out @ t))
          else Some (FBC_SUCCESS, out))"

section \<open>Replacing the file\<close>











section \<open>What is written for a line\<close>

text \<open>The file has this line at the place recorded for the element, and it fits into the buffers.\<close>

definition line_in_file :: "file_env \<Rightarrow> 'i line_elem \<Rightarrow> string \<Rightarrow> bool" where
  "line_in_file env e line \<longleftrightarrow>
     (\<exists>f u r. config_stream_in e = Some f \<and> seek_ok env f (line_pos e) \<and>
        drop (nat (line_pos e)) (file_text env f) = u @ CHR 0x0A # r \<and> plain u \<and>
        length u + 3 \<le> CONFIG_BUF_LEN \<and> line = u @ [CHR 0x0A])"

lemma line_in_file_unique:
  assumes "line_in_file env e l1" "line_in_file env e l2"
  shows "l1 = l2"
proof -
  obtain u1 r1 u2 r2 where "u1 @ CHR 0x0A # r1 = u2 @ CHR 0x0A # r2" "plain u1" "plain u2" "l1 = u1 @ [CHR 0x0A]" "l2 = u2 @ [CHR 0x0A]"
    using assms by (auto simp: line_in_file_def)
  then show ?thesis using plain_blocks(3) [of u1 r1] plain_blocks(3) [of u2 r2] by simp
qed

text \<open>A line that is left alone is copied, a deleted one left out, any other is what its print function gives.\<close>

definition line_output :: "file_env \<Rightarrow> 'i line_elem \<Rightarrow> string \<Rightarrow> bool" where
  "line_output env e out \<longleftrightarrow>
     (case status e of
        FBC_LINE_ORIGINAL \<Rightarrow> line_in_file env e out
      | FBC_LINE_DELETED \<Rightarrow> out = []
      | FBC_LINE_INSERTED \<Rightarrow> (\<exists>print whitespace. print_fn e = Some print \<and> out = print (ir_ptr e) whitespace)
      | FBC_LINE_MODIFIED \<Rightarrow> (\<exists>print whitespace. print_fn e = Some print \<and> out = print (ir_ptr e) whitespace))"

definition line_ready :: "file_env \<Rightarrow> 'i line_elem \<Rightarrow> bool" where
  "line_ready env e \<longleftrightarrow>
     (status e \<in> {FBC_LINE_ORIGINAL, FBC_LINE_MODIFIED} \<longrightarrow> (\<exists>line. line_in_file env e line)) \<and>
     (status e \<in> {FBC_LINE_INSERTED, FBC_LINE_MODIFIED} \<longrightarrow> print_fn e \<noteq> None)"

definition write_ok :: "write_state \<Rightarrow> bool" where
  "write_ok st \<longleftrightarrow> wspace_ok (wspace_chars st) \<and> buf_len st = CONFIG_BUF_LEN"

lemma reread_line:
  assumes l: "line_in_file env e line" and st: "write_ok st"
  shows "\<exists>st1. fbc_reread_config_line env (config_stream_in e) (line_pos e) st = Some (FBC_SUCCESS, line, st1) \<and> write_ok st1"
proof -
  obtain f u r where f: "config_stream_in e = Some f" "seek_ok env f (line_pos e)"
    "drop (nat (line_pos e)) (file_text env f) = u @ CHR 0x0A # r" "plain u" "length u + 3 \<le> CONFIG_BUF_LEN" "line = u @ [CHR 0x0A]"
    using l by (auto simp: line_in_file_def)
  have "xf86getNextLine (line_mem env) (line_requests st) CONFIG_BUF_LEN (u @ CHR 0x0A # r) =
      Some (Some line, CONFIG_BUF_LEN, r, line_requests st)"
    using line_loop_short [OF f(4), of "[]" CONFIG_BUF_LEN] f(5,6) by (simp add: xf86getNextLine_def)
  moreover obtain w where "fbc_measure_whitespace line (wspace_chars st) = Some w" "wspace_ok w"
    using measure_fits [of "wspace_chars st" line] st f(5,6) by (auto simp: write_ok_def wspace_buf_len_def CONFIG_BUF_LEN_def)
  ultimately show ?thesis using f st by (simp add: fbc_reread_config_line_def write_ok_def)
qed

lemma write_line_output:
  assumes "line_ready env e" "write_ok st"
  shows "\<exists>out st1. write_line env e st = Some (FBC_SUCCESS, out, st1) \<and> write_ok st1 \<and> line_output env e out"
proof (cases "status e")
  case FBC_LINE_ORIGINAL
  then obtain line where l: "line_in_file env e line" using assms(1) by (auto simp: line_ready_def)
  obtain st1 where "fbc_reread_config_line env (config_stream_in e) (line_pos e) st = Some (FBC_SUCCESS, line, st1)" "write_ok st1"
    using reread_line [OF l assms(2)] by blast
  then show ?thesis using FBC_LINE_ORIGINAL l by (simp add: write_line_def copy_line_def line_output_def write_ok_def)
next
  case FBC_LINE_MODIFIED
  then obtain line print where l: "line_in_file env e line" "print_fn e = Some print" using assms(1) by (auto simp: line_ready_def)
  obtain st1 where "fbc_reread_config_line env (config_stream_in e) (line_pos e) st = Some (FBC_SUCCESS, line, st1)" "write_ok st1"
    using reread_line [OF l(1) assms(2)] by blast
  then show ?thesis using FBC_LINE_MODIFIED l by (auto simp: write_line_def line_output_def write_ok_def Let_def)
next
  case FBC_LINE_INSERTED
  then obtain print where "print_fn e = Some print" using assms(1) by (auto simp: line_ready_def)
  moreover have "write_ok (snd (inserted_whitespace (indent_level e) st))" using assms(2) by (simp add: inserted_whitespace_def write_ok_def)
  ultimately show ?thesis using FBC_LINE_INSERTED by (auto simp: write_line_def line_output_def split: prod.splits)
next
  case FBC_LINE_DELETED
  then show ?thesis using assms(2) by (simp add: write_line_def line_output_def)
qed

lemma write_loop_output:
  assumes "links (elems s) p xs None" "\<forall>a\<in>set xs. line_ready env (line_at s a)" "write_ok st"
  shows "\<exists>outs. write_loop env (first None xs) st s = Some (FBC_SUCCESS, concat outs) \<and> list_all2 (\<lambda>a. line_output env (line_at s a)) xs outs"
  using assms
proof (induction xs arbitrary: p st)
  case Nil
  then show ?case by (simp add: write_loop.simps)
next
  case (Cons x xs)
  then obtain e where e: "elems s x = Some e" "next_ptr e = first None xs" "line_at s x = e" by (auto simp: line_at_def)
  obtain out st1 where o: "write_line env e st = Some (FBC_SUCCESS, out, st1)" "write_ok st1" "line_output env e out"
    using write_line_output [OF _ Cons.prems(3), of env e] Cons.prems(2) e(3) by auto
  obtain outs where "write_loop env (first None xs) st1 s = Some (FBC_SUCCESS, concat outs)" "list_all2 (\<lambda>a. line_output env (line_at s a)) xs outs"
    using Cons.IH [of "Some x" st1] Cons.prems o(2) by auto
  then show ?case using e o by (intro exI [of _ "out # outs"]) (simp add: write_loop.simps [of env "Some x"])
qed

definition writable :: "file_env \<Rightarrow> config \<Rightarrow> nat list \<Rightarrow> bool" where
  "writable env s xs \<longleftrightarrow> dll (conf_lines s) xs \<and> (\<forall>a\<in>set xs. line_ready env (line_at (conf_lines s) a))"

lemma write_lines:
  assumes "writable env s xs" "length buf = wspace_buf_len"
  shows "\<exists>outs. fbc_write_config_file env CONFIG_BUF_LEN buf False s = Some (FBC_SUCCESS, concat outs) \<and>
    list_all2 (\<lambda>a. line_output env (line_at (conf_lines s) a)) xs outs"
proof -
  let ?st = "\<lparr>wspace_chars = \<lparr>wspace_ptrs = map Constant xf86whitespace_0, whitespace_buf = buf\<rparr>, wspace_measured = False,
    buf_len = CONFIG_BUF_LEN, line_requests = 0\<rparr>"
  have "write_ok ?st" using assms(2) by (simp add: write_ok_def wspace_ok_def xf86whitespace_0_def FBC_WSPACE_FIELDS_def)
  then obtain outs where "write_loop env (first None xs) ?st (conf_lines s) = Some (FBC_SUCCESS, concat outs)"
    "list_all2 (\<lambda>a. line_output env (line_at (conf_lines s) a)) xs outs"
    using write_loop_output [of "conf_lines s" None xs env ?st] assms(1) by (auto simp: writable_def dll_def)
  then show ?thesis using assms(1) by (auto simp: fbc_write_config_file_def writable_def dll_def)
qed

section \<open>Lines read from a file\<close>

definition file_lines :: "string list \<Rightarrow> string" where
  "file_lines us = concat (map (\<lambda>u. u @ [CHR 0x0A]) us)"

lemma file_lines_simps [simp]: "file_lines [] = []" "file_lines (u # us) = u @ CHR 0x0A # file_lines us"
  by (simp_all add: file_lines_def)

text \<open>What is recorded about a line that has just been read.\<close>

definition recorded :: "'i line_list \<Rightarrow> nat \<Rightarrow> nat \<Rightarrow> int \<Rightarrow> bool" where
  "recorded s a f pos \<longleftrightarrow> (\<exists>e. elems s a = Some e \<and> config_stream_in e = Some f \<and> line_pos e = pos \<and> status e = FBC_LINE_ORIGINAL)"

lemma recorded_data: "line_data s' a = line_data s a \<Longrightarrow> recorded s a f pos \<Longrightarrow> recorded s' a f pos"
proof -
  assume d: "line_data s' a = line_data s a" and r: "recorded s a f pos"
  obtain e where e: "elems s a = Some e" using r by (auto simp: recorded_def)
  then obtain e' where e': "elems s' a = Some e'" "e'\<lparr>next_ptr := None, prev_ptr := None\<rparr> = e\<lparr>next_ptr := None, prev_ptr := None\<rparr>"
    using d by (auto simp: line_data_def)
  have "config_stream_in e' = config_stream_in e" "line_pos e' = line_pos e" "status e' = status e"
    using arg_cong [OF e'(2), of config_stream_in] arg_cong [OF e'(2), of line_pos] arg_cong [OF e'(2), of status] by simp_all
  then show ?thesis using r e e'(1) by (simp add: recorded_def)
qed

lemma save_line:
  assumes d: "dll s xs" and a: "a \<notin> set xs" "0 \<le> pos"
  shows "\<exists>s1. fbc_save_line_location (Some a) raw (Some f) pos s = Returned s1 \<and> dll s1 (xs @ [a]) \<and>
    (\<forall>b\<in>set xs. line_data s1 b = line_data s b) \<and> recorded s1 a f pos"
proof -
  let ?e = "raw\<lparr>config_stream_in := Some f, line_pos := pos, ir_ptr := None, print_fn := None, status := FBC_LINE_ORIGINAL\<rparr>"
  let ?s = "s\<lparr>elems := (elems s)(a \<mapsto> ?e)\<rparr>"
  obtain s1 where s1: "fbc_list_append a ?s = Some s1" "dll s1 (xs @ [a])" "line_data s1 = line_data ?s"
    using append_dll [OF dll_new [OF d a(1)] a(1)] by auto
  have "line_data s1 b = line_data s b" if "b \<in> set xs" for b
    using s1(3) a(1) that by (auto simp: line_data_def)
  moreover have "recorded ?s a f pos" by (simp add: recorded_def)
  then have "recorded s1 a f pos" using s1(3) by (metis recorded_data)
  ultimately show ?thesis using s1(1,2) a(2) by (simp add: fbc_save_line_location_def)
qed

text \<open>Lines the scanner takes without growing its buffer.\<close>

definition short_lines :: "string list \<Rightarrow> bool" where
  "short_lines us \<longleftrightarrow> (\<forall>u\<in>set us. plain u \<and> length u + 3 \<le> CONFIG_BUF_LEN)"

lemma load_lines_recorded:
  assumes "short_lines us" "dll s xs" "inj_on addr {k ..< k + length us}" "addr ` {k ..< k + length us} \<inter> set xs = {}" "0 \<le> pos"
  shows "\<exists>s'. load_lines mem addr raw f k n CONFIG_BUF_LEN pos (file_lines us) s = Some s' \<and> dll s' (xs @ map addr [k ..< k + length us]) \<and>
    (\<forall>b\<in>set xs. line_data s' b = line_data s b) \<and>
    (\<forall>j<length us. recorded s' (addr (k + j)) f (pos + int (length (file_lines (take j us)))))"
  using assms
proof (induction us arbitrary: s xs k pos)
  case Nil
  have "xf86getNextLine mem n CONFIG_BUF_LEN [] = Some (None, CONFIG_BUF_LEN, [], n)"
    by (simp add: xf86getNextLine_def line_loop.simps)
  then show ?case using Nil by (simp add: load_lines.simps)
next
  case (Cons u us)
  have u: "plain u" "length u + 3 \<le> CONFIG_BUF_LEN" and us: "short_lines us" using Cons.prems(1) by (auto simp: short_lines_def)
  have ks: "{k ..< k + length (u # us)} = insert k {k + 1 ..< k + 1 + length us}" by auto
  have a: "addr k \<notin> set xs" using Cons.prems(4) unfolding ks by blast
  obtain s1 where s1: "fbc_save_line_location (Some (addr k)) raw (Some f) pos s = Returned s1" "dll s1 (xs @ [addr k])"
    "\<forall>b\<in>set xs. line_data s1 b = line_data s b" "recorded s1 (addr k) f pos"
    using save_line [OF Cons.prems(2) a Cons.prems(5)] by blast
  let ?pos = "pos + int (length u + 1)"
  have "xf86getNextLine mem n CONFIG_BUF_LEN (file_lines (u # us)) = Some (Some (u @ [CHR 0x0A]), CONFIG_BUF_LEN, file_lines us, n)"
    using line_loop_short [OF u(1), of "[]" CONFIG_BUF_LEN] u(2) by (simp add: xf86getNextLine_def)
  then have l: "load_lines mem addr raw f k n CONFIG_BUF_LEN pos (file_lines (u # us)) s =
      load_lines mem addr raw f (k + 1) n CONFIG_BUF_LEN ?pos (file_lines us) s1"
    using s1(1) by (subst load_lines.simps) (simp add: algebra_simps)
  have i: "inj_on addr {k + 1 ..< k + 1 + length us}" "addr ` {k + 1 ..< k + 1 + length us} \<inter> set (xs @ [addr k]) = {}" "0 \<le> ?pos"
    using Cons.prems(3-5) unfolding ks by auto
  obtain s' where s': "load_lines mem addr raw f (k + 1) n CONFIG_BUF_LEN ?pos (file_lines us) s1 = Some s'"
    "dll s' ((xs @ [addr k]) @ map addr [k + 1 ..< k + 1 + length us])"
    "\<forall>b\<in>set (xs @ [addr k]). line_data s' b = line_data s1 b"
    "\<forall>j<length us. recorded s' (addr (k + 1 + j)) f (?pos + int (length (file_lines (take j us))))"
    using Cons.IH [OF us s1(2) i] by blast
  have "recorded s' (addr k) f pos" using s'(3) s1(4) by (auto intro: recorded_data)
  then have "recorded s' (addr (k + j)) f (pos + int (length (file_lines (take j (u # us)))))" if "j < length (u # us)" for j
    using s'(4) that by (cases j) (auto simp: algebra_simps)
  moreover have "dll s' (xs @ map addr [k ..< k + length (u # us)])"
    using s'(2) upt_conv_Cons [of k "k + length (u # us)"] by (simp del: upt_Suc)
  ultimately show ?case using l s'(1,3) s1(3) by auto
qed

lemma drop_line: "j < length us \<Longrightarrow> drop (length (file_lines (take j us))) (file_lines us) = us ! j @ CHR 0x0A # file_lines (drop (j + 1) us)"
proof (induction us arbitrary: j)
  case (Cons u us)
  then show ?case by (cases j) auto
qed simp

lemma recorded_in_file:
  assumes "recorded s a f (int (length (file_lines (take j us))))" "file_text env f = file_lines us" "\<forall>p. seek_ok env f p"
    and "j < length us" "short_lines us"
  shows "status (line_at s a) = FBC_LINE_ORIGINAL" "line_in_file env (line_at s a) (us ! j @ [CHR 0x0A])"
  using assms drop_line [of j us] by (auto simp: recorded_def line_at_def line_in_file_def short_lines_def)

text \<open>
  C23. A configuration file whose lines end with a newline and fit into the buffer is reproduced, character by
  character, when its lines are recorded as they are read and written without any edit.
\<close>

theorem unedited_file_copied:
  assumes "short_lines us" "inj_on addr {0 ..< length us}"
    and "file_text env f = file_lines us" "\<forall>p. seek_ok env f p" "length buf = wspace_buf_len"
  shows "\<exists>lines. load_lines mem addr raw f 0 n CONFIG_BUF_LEN 0 (file_lines us) fbc_line_ER_list = Some lines \<and>
    (\<forall>s. conf_lines s = lines \<longrightarrow> fbc_write_config_file env CONFIG_BUF_LEN buf False s = Some (FBC_SUCCESS, file_lines us))"
proof -
  let ?xs = "map addr [0 ..< length us]"
  obtain lines where l: "load_lines mem addr raw f 0 n CONFIG_BUF_LEN 0 (file_lines us) fbc_line_ER_list = Some lines" "dll lines ?xs"
    "\<forall>j<length us. recorded lines (addr j) f (int (length (file_lines (take j us))))"
    using load_lines_recorded [OF assms(1) dll_empty, of addr 0 0 mem raw f n] assms(2) by auto
  have e: "status (line_at lines (addr j)) = FBC_LINE_ORIGINAL" "line_in_file env (line_at lines (addr j)) (us ! j @ [CHR 0x0A])"
    if "j < length us" for j
    using recorded_in_file [OF _ assms(3,4) that assms(1)] l(3) that by blast+
  have "fbc_write_config_file env CONFIG_BUF_LEN buf False s = Some (FBC_SUCCESS, file_lines us)" if s: "conf_lines s = lines" for s
  proof -
    have "line_ready env (line_at lines (addr j))" if "j < length us" for j using e [OF that] by (auto simp: line_ready_def)
    then have "writable env s ?xs" using l(2) unfolding writable_def s by auto
    from write_lines [OF this assms(5)] obtain outs where o: "fbc_write_config_file env CONFIG_BUF_LEN buf False s = Some (FBC_SUCCESS, concat outs)"
      "list_all2 (\<lambda>a. line_output env (line_at lines a)) ?xs outs" unfolding s by blast
    have "outs ! j = us ! j @ [CHR 0x0A]" if "j < length us" for j
      using list_all2_nthD [OF o(2), of j] e [OF that] that line_in_file_unique by (auto simp: line_output_def)
    moreover have "length outs = length us" using list_all2_lengthD [OF o(2)] by simp
    ultimately have "outs = map (\<lambda>u. u @ [CHR 0x0A]) us" by (intro nth_equalityI) auto
    then show ?thesis using o(1) by (simp add: file_lines_def)
  qed
  then show ?thesis using l(1) by blast
qed

theorem unedited_file_copied_witness:
  "\<exists>lines. load_lines (\<lambda>k. True) (\<lambda>k. k + 1) (mem_raw sample_env) 0 0 0 CONFIG_BUF_LEN 0
      (file_lines [''Section'', ''EndSection'']) fbc_line_ER_list = Some lines \<and>
    fbc_write_config_file \<lparr>file_text = (\<lambda>f. file_lines [''Section'', ''EndSection'']), seek_ok = (\<lambda>f p. True), line_mem = (\<lambda>k. True)\<rparr>
      CONFIG_BUF_LEN (replicate 1024 (CHR 0x00)) False (sample_config\<lparr>conf_lines := lines\<rparr>) =
      Some (FBC_SUCCESS, ''Section'' @ NL @ ''EndSection'' @ NL)"
proof -
  let ?us = "[''Section'', ''EndSection'']" and ?buf = "replicate 1024 (CHR 0x00)"
  let ?env = "\<lparr>file_text = (\<lambda>f. file_lines ?us), seek_ok = (\<lambda>f p. True), line_mem = (\<lambda>k. True)\<rparr>"
  have "short_lines ?us" by (simp add: short_lines_def plain_def line_end_def CONFIG_BUF_LEN_def)
  moreover have "inj_on (\<lambda>k. k + 1) {0 ..< length ?us}" by (auto simp: inj_on_def)
  moreover have "length ?buf = wspace_buf_len" by (simp add: wspace_buf_len_def)
  ultimately obtain lines where l: "load_lines (\<lambda>k. True) (\<lambda>k. k + 1) (mem_raw sample_env) 0 0 0 CONFIG_BUF_LEN 0 (file_lines ?us) fbc_line_ER_list = Some lines"
    "\<forall>s. conf_lines s = lines \<longrightarrow> fbc_write_config_file ?env CONFIG_BUF_LEN ?buf False s = Some (FBC_SUCCESS, file_lines ?us)"
    using unedited_file_copied [of ?us "\<lambda>k. k + 1" ?env 0 ?buf "\<lambda>k. True" "mem_raw sample_env" 0] by auto
  then have "fbc_write_config_file ?env CONFIG_BUF_LEN ?buf False (sample_config\<lparr>conf_lines := lines\<rparr>) = Some (FBC_SUCCESS, file_lines ?us)"
    by simp
  with l(1) show ?thesis by auto
qed

text \<open>
  C22. Take a file of lines that fit into the buffers and have no null and no carriage return character, record its lines, each at a new
  address, and edit them by any insertions, modifications and deletions, with or without memory. Suppose that every line that is inserted or modified has a print
  function and that every line that is modified is a line of the file (modifying a line that was inserted
  leaves it without a stream, and writing then calls \<^verbatim>\<open>fseeko\<close> with a null pointer). Then writing succeeds: what is written is a
  piece for each line, in the order of the lines, the lines of the file are among them in the order of the file, a line that is left
  alone gives itself, a deleted one nothing and any other what its print function gives, and the piece of a line that no edit names is that line of
  the file, unchanged. The file can be positioned at every line, and no video mode is being set.
\<close>

theorem edited_file_written:
  assumes us: "short_lines us" "inj_on addr {0 ..< length us}"
    and env: "file_text env f = file_lines us" "\<forall>p. seek_ok env f p" "length buf = wspace_buf_len"
    and load: "load_lines mem addr raw f 0 n CONFIG_BUF_LEN 0 (file_lines us) fbc_line_ER_list = Some lines"
    and es: "all_allowed edit_allowed apply_edit place_edit es lines (map addr [0 ..< length us])"
      "edits apply_edit es lines = Some lines'" "xs = fold place_edit es (map addr [0 ..< length us])"
    and ready: "\<forall>a\<in>set xs. (\<exists>e\<in>set es. edit_target e = Some a) \<or> a \<notin> addr ` {0 ..< length us} \<longrightarrow> line_ready env (line_at lines' a)"
    and s: "conf_lines s = lines'"
  shows "\<exists>outs. fbc_write_config_file env CONFIG_BUF_LEN buf False s = Some (FBC_SUCCESS, concat outs) \<and> length outs = length xs \<and>
    subseq (map addr [0 ..< length us]) xs \<and>
    (\<forall>i<length xs. line_output env (line_at lines' (xs ! i)) (outs ! i)) \<and>
    (\<forall>i<length xs. \<forall>j<length us. xs ! i = addr j \<and> (\<forall>e\<in>set es. edit_target e \<noteq> Some (addr j)) \<longrightarrow> outs ! i = us ! j @ [CHR 0x0A])"
proof -
  let ?xs = "map addr [0 ..< length us]"
  have l: "dll lines ?xs" "\<forall>j<length us. recorded lines (addr j) f (int (length (file_lines (take j us))))"
    using load_lines_recorded [OF us(1) dll_empty, of addr 0 0 mem raw f n] us(2) load by auto
  have d: "dll lines' xs" and k: "\<forall>a\<in>set ?xs. (\<forall>e\<in>set es. edit_target e \<noteq> Some a) \<longrightarrow> line_data lines' a = line_data lines a"
    using er.edits_refine [OF l(1) es(1)] es(2,3) by auto
  have old: "status (line_at lines' (addr j)) = FBC_LINE_ORIGINAL" "line_in_file env (line_at lines' (addr j)) (us ! j @ [CHR 0x0A])"
    if j: "j < length us" "\<forall>e\<in>set es. edit_target e \<noteq> Some (addr j)" for j
  proof -
    have "recorded lines' (addr j) f (int (length (file_lines (take j us))))"
      using l(2) k j by (intro recorded_data [of lines' "addr j" lines]) auto
    from recorded_in_file [OF this env(1,2) j(1) us(1)]
    show "status (line_at lines' (addr j)) = FBC_LINE_ORIGINAL" "line_in_file env (line_at lines' (addr j)) (us ! j @ [CHR 0x0A])" .
  qed
  have old_ready: "line_ready env (line_at lines' (addr j))" if "j < length us" "\<forall>e\<in>set es. edit_target e \<noteq> Some (addr j)" for j
    using old [OF that] by (auto simp: line_ready_def)
  have "line_ready env (line_at lines' a)" if a: "a \<in> set xs" for a
  proof (cases "(\<exists>e\<in>set es. edit_target e = Some a) \<or> a \<notin> addr ` {0 ..< length us}")
    case True
    then show ?thesis using ready a by blast
  next
    case False
    then show ?thesis using old_ready by auto
  qed
  then have "writable env s xs" using d by (simp add: writable_def s)
  from write_lines [OF this env(3)] obtain outs where o: "fbc_write_config_file env CONFIG_BUF_LEN buf False s = Some (FBC_SUCCESS, concat outs)"
    "list_all2 (\<lambda>a. line_output env (line_at lines' a)) xs outs" unfolding s by blast
  have "outs ! i = us ! j @ [CHR 0x0A]" if "i < length xs" "j < length us" "xs ! i = addr j" "\<forall>e\<in>set es. edit_target e \<noteq> Some (addr j)" for i j
    using list_all2_nthD [OF o(2) that(1)] old [OF that(2,4)] that(3) line_in_file_unique by (auto simp: line_output_def)
  then show ?thesis
    using o er.edits_subseq [of ?xs es] es(3) list_all2_lengthD [OF o(2)] list_all2_nthD [OF o(2)] by auto
qed

theorem edited_file_written_witness:
  "\<exists>lines lines'. load_lines (\<lambda>k. True) (\<lambda>k. k + 1) (mem_raw sample_env) 0 0 0 CONFIG_BUF_LEN 0
      (file_lines [''Section'', ''EndSection'']) fbc_line_ER_list = Some lines \<and>
    apply_edit (Delete_line (Some 1)) lines = Some lines' \<and>
    fbc_write_config_file \<lparr>file_text = (\<lambda>f. file_lines [''Section'', ''EndSection'']), seek_ok = (\<lambda>f p. True), line_mem = (\<lambda>k. True)\<rparr>
      CONFIG_BUF_LEN (replicate 1024 (CHR 0x00)) False (sample_config\<lparr>conf_lines := lines'\<rparr>) = Some (FBC_SUCCESS, ''EndSection'' @ NL)"
proof -
  let ?us = "[''Section'', ''EndSection'']" and ?buf = "replicate 1024 (CHR 0x00)" and ?addr = "\<lambda>k::nat. k + 1"
  let ?env = "\<lparr>file_text = (\<lambda>f. file_lines ?us), seek_ok = (\<lambda>f p. True), line_mem = (\<lambda>k. True)\<rparr>"
  have us: "short_lines ?us" "inj_on ?addr {0 ..< length ?us}" "map ?addr [0 ..< length ?us] = [1, 2]" "?addr ` {0 ..< length ?us} = {1, 2}"
    by (auto simp: short_lines_def plain_def line_end_def CONFIG_BUF_LEN_def inj_on_def image_def upt_rec)
  from load_lines_recorded [OF us(1) dll_empty, of ?addr 0 0 "\<lambda>k. True" "mem_raw sample_env" 0 0] us(2)
  obtain lines where l: "load_lines (\<lambda>k. True) ?addr (mem_raw sample_env) 0 0 0 CONFIG_BUF_LEN 0 (file_lines ?us) fbc_line_ER_list = Some lines"
    "dll lines ([] @ map ?addr [0 ..< 0 + length ?us])" "\<forall>j<length ?us. recorded lines (?addr (0 + j)) 0 (0 + int (length (file_lines (take j ?us))))"
    by auto
  have "recorded lines 1 0 0" using l(3) [rule_format, of 0] by simp
  then obtain e where e: "elems lines 1 = Some e" by (auto simp: recorded_def)
  define lines' where "lines' = lines\<lparr>elems := (elems lines)(1 \<mapsto> e\<lparr>ir_ptr := None, status := FBC_LINE_DELETED\<rparr>)\<rparr>"
  have d: "apply_edit (Delete_line (Some 1)) lines = Some lines'" "status (line_at lines' 1) = FBC_LINE_DELETED"
    using e by (auto simp: lines'_def fbc_delete_line_ER_def update_elem_def line_at_def)
  let ?s = "sample_config\<lparr>conf_lines := lines'\<rparr>" and ?e = "Delete_line (Some 1) :: ir_data line_edit"
  have ready: "\<forall>a\<in>set [1, 2]. (\<exists>e\<in>set [?e]. edit_target e = Some a) \<or> a \<notin> ?addr ` {0 ..< length ?us} \<longrightarrow> line_ready ?env (line_at lines' a)"
    using d(2) us(4) by (auto simp: line_ready_def)
  have es: "all_allowed edit_allowed apply_edit place_edit [?e] lines (map ?addr [0 ..< length ?us])"
    "edits apply_edit [?e] lines = Some lines'" "[1, 2] = fold place_edit [?e] (map ?addr [0 ..< length ?us])"
    using d(1) us(3) by (auto split: option.splits)
  have env: "file_text ?env 0 = file_lines ?us" "\<forall>p. seek_ok ?env 0 p" "length ?buf = wspace_buf_len" by (simp_all add: wspace_buf_len_def)
  from edited_file_written [OF us(1,2) env l(1) es ready, of ?s]
  obtain outs where o: "fbc_write_config_file ?env CONFIG_BUF_LEN ?buf False ?s = Some (FBC_SUCCESS, concat outs)" "length outs = length [1, 2]"
    "\<forall>i<length [1, 2]. line_output ?env (line_at lines' ([1, 2] ! i)) (outs ! i)"
    "\<forall>i<length [1, 2]. \<forall>j<length ?us. [1, 2] ! i = ?addr j \<and> (\<forall>e\<in>set [?e]. edit_target e \<noteq> Some (?addr j)) \<longrightarrow>
      outs ! i = ?us ! j @ [CHR 0x0A]"
    by auto
  have "line_output ?env (line_at lines' 1) (outs ! 0)" using o(3) [rule_format, of 0] by simp
  moreover have "outs ! 1 = ''EndSection'' @ [CHR 0x0A]" using o(4) [rule_format, of 1 1] by simp
  ultimately have "concat outs = ''EndSection'' @ NL" using d(2) o(2) by (auto simp: line_output_def length_Suc_conv)
  with l(1) d(1) o(1) show ?thesis by auto
qed

section \<open>Replacing the file\<close>












end
