(* ===== verification/Fbc_Lex.thy ===== *)
theory Fbc_Lex
  imports Fbc_Parse Fbc_Write
begin

text \<open>
  What the scanner does with well-formed text: tokens are read one after the other, across the ends of lines, as
  long as the lines fit into the buffer and memory does not run out.
\<close>

section \<open>Positions in a text\<close>

definition good_env :: "env \<Rightarrow> bool" where
  "good_env env \<longleftrightarrow> (\<forall>k. mem_ok env k) \<and> inj (mem_addr env)"

text \<open>The lists of lines: well formed, and not at an address that will be allocated.\<close>

definition lines_ok :: "env \<Rightarrow> scanner \<Rightarrow> bool" where
  "lines_ok env st \<longleftrightarrow> (\<exists>xs. dll (sc_lines st) xs \<and> (\<forall>k\<ge>sc_req st. mem_addr env k \<notin> set xs))"

definition bufs_ok :: "scanner \<Rightarrow> bool" where
  "bufs_ok st \<longleftrightarrow> sc_push st = LOCK_TOKEN \<and> sc_len st = CONFIG_BUF_LEN \<and> sc_rlen st = CONFIG_BUF_LEN \<and> 0 \<le> sc_pos st"

text \<open>The scanner stands before \<open>r\<close> in its line, and \<open>us\<close> are the lines that follow.\<close>

definition stands :: "env \<Rightarrow> scanner \<Rightarrow> string \<Rightarrow> string list \<Rightarrow> bool" where
  "stands env st r us \<longleftrightarrow> bufs_ok st \<and> lines_ok env st \<and> short_lines us \<and> sc_stream st = file_lines us \<and>
     sc_at st \<le> length (sc_buf st) \<and> drop (sc_at st) (sc_buf st) = r \<and> length (sc_buf st) + 2 \<le> CONFIG_BUF_LEN \<and>
     (r = [] \<or> (\<exists>v. r = v @ [CHR 0x0A] \<and> plain v)) \<and> (r \<noteq> [] \<longrightarrow> tail_ptr (sc_lines st) \<noteq> None)"

definition ahead :: "env \<Rightarrow> scanner \<Rightarrow> string \<Rightarrow> bool" where
  "ahead env st text \<longleftrightarrow> (\<exists>r us. stands env st r us \<and> text = r @ file_lines us)"

text \<open>No line is lost.\<close>

definition keeps :: "scanner \<Rightarrow> scanner \<Rightarrow> bool" where
  "keeps st st' \<longleftrightarrow> (\<forall>a. elems (sc_lines st) a \<noteq> None \<longrightarrow> elems (sc_lines st') a \<noteq> None)"

lemma keeps_trans: "keeps a b \<Longrightarrow> keeps b c \<Longrightarrow> keeps a c"
  by (simp add: keeps_def)

lemma keeps_same [simp]: "sc_lines st' = sc_lines st \<Longrightarrow> keeps st st'"
  by (simp add: keeps_def)

lemma save_keeps:
  "fbc_save_line_location (Some a) raw f pos s = Returned s' \<Longrightarrow> elems s b \<noteq> None \<Longrightarrow> elems s' b \<noteq> None"
  by (auto simp: fbc_save_line_location_def fbc_list_append_def update_elem_def Let_def split: if_splits option.splits bind_splits)

lemma fetch_line:
  assumes "good_env env" "bufs_ok st" "lines_ok env st" "short_lines (u # us)" "sc_stream st = file_lines (u # us)"
  shows "\<exists>st1. scan_fetch env st = Returned (True, st1) \<and> stands env st1 (u @ [CHR 0x0A]) us \<and> keeps st st1"
proof -
  have u: "plain u" "length u + 3 \<le> CONFIG_BUF_LEN" "short_lines us" using assms(4) by (auto simp: short_lines_def)
  obtain xs where xs: "dll (sc_lines st) xs" "\<forall>k\<ge>sc_req st. mem_addr env k \<notin> set xs" using assms(3) by (auto simp: lines_ok_def)
  let ?a = "mem_addr env (sc_req st)"
  have "?a \<notin> set xs" "0 \<le> sc_pos st" using xs(2) assms(2) by (auto simp: bufs_ok_def)
  from save_line [OF xs(1) this]
  obtain l where l: "fbc_save_line_location (Some ?a) (mem_raw env) (Some (sc_file st)) (sc_pos st) (sc_lines st) = Returned l" "dll l (xs @ [?a])"
    by blast
  have n: "xf86getNextLine (mem_ok env) (sc_req st) (sc_len st) (sc_stream st) =
      Some (Some (u @ [CHR 0x0A]), CONFIG_BUF_LEN, file_lines us, sc_req st)"
    using line_loop_short [OF u(1), of "[]" CONFIG_BUF_LEN] u(2) assms(2,5) by (simp add: xf86getNextLine_def bufs_ok_def)
  have "\<forall>k\<ge>sc_req st + 1. mem_addr env k \<notin> set (xs @ [?a])"
    using xs(2) assms(1) by (auto simp: good_env_def dest!: injD)
  moreover have "tail_ptr l = Some ?a" using l(2) by (simp add: dll_def)
  moreover have "elems (sc_lines st) b \<noteq> None \<longrightarrow> elems l b \<noteq> None" for b using save_keeps [OF l(1)] by blast
  ultimately show ?thesis using n l u assms(1,2)
    by (auto simp: scan_fetch_def good_env_def stands_def bufs_ok_def lines_ok_def keeps_def)
qed

section \<open>The start of a token\<close>

lemma skip_width_le: "skip_width i ws \<le> i + length ws + 1"
proof (induction ws arbitrary: i)
  case (Cons c ws)
  have "skip_width 0 ws \<le> 0 + length ws + 1" "skip_width (i + 1) ws \<le> i + 1 + length ws + 1" by (rule Cons)+
  then show ?case by simp
qed simp

lemma stands_length: "stands env st r us \<Longrightarrow> drop (sc_at st) (sc_buf st) = r \<and> length r + 2 \<le> CONFIG_BUF_LEN \<and> sc_rlen st = CONFIG_BUF_LEN"
  unfolding stands_def bufs_ok_def by (metis add_le_mono1 diff_le_self length_drop order_trans)

lemma stands_chars:
  assumes "stands env st r us" "c \<in> set r"
  shows "c \<noteq> EOS"
proof -
  have "r = [] \<or> (\<exists>v. r = v @ [CHR 0x0A] \<and> plain v)" using assms(1) unfolding stands_def by (elim conjE)
  then show ?thesis
  proof
    assume "\<exists>v. r = v @ [CHR 0x0A] \<and> plain v"
    then obtain v where "r = v @ [CHR 0x0A]" "\<forall>x\<in>set v. x \<noteq> EOS" unfolding plain_def by blast
    then show ?thesis using assms(2) by auto
  qed (use assms(2) in simp)
qed

lemma stands_char_at: "stands env st r us \<Longrightarrow> char_at st (sc_at st + k) = (r @ [EOS]) ! k" if "k \<le> length r"
proof -
  assume "stands env st r us"
  then have r: "r = drop (sc_at st) (sc_buf st)" "sc_at st \<le> length (sc_buf st)" by (auto simp: stands_def)
  then have "sc_buf st @ [EOS] = take (sc_at st) (sc_buf st) @ (r @ [EOS])" by simp
  then show ?thesis using r(2) that unfolding char_at_def by (metis length_take min.absorb2 nth_append_length_plus)
qed

lemma stands_buffer: "stands env st r us \<Longrightarrow> token_buffer env st = Returned st"
  by (simp add: stands_def bufs_ok_def token_buffer_def)

lemma start_here:
  assumes s: "stands env st (ws @ c # r) us" and ws: "\<forall>x\<in>set ws. blank x" "\<not> blank c" and d: "d \<noteq> EOS"
  shows "token_start env d st = Some (Returned (Some c, skip_left [] ws, st\<lparr>sc_at := sc_at st + length ws + 1\<rparr>))"
proof -
  have "drop (sc_at st) (sc_buf st) = ws @ c # r" "length (ws @ c # r) + 2 \<le> CONFIG_BUF_LEN" "sc_rlen st = CONFIG_BUF_LEN"
    using stands_length [OF s] by auto
  moreover have "takeWhile blank (ws @ c # r) = ws" using ws by (simp add: takeWhile_append2)
  moreover have "char_at st (sc_at st + length ws) = c" using stands_char_at [OF _ s, of "length ws"] by (simp add: nth_append)
  moreover have "c \<noteq> EOS" using stands_chars [OF s, of c] by simp
  ultimately show ?thesis using d stands_buffer [OF s] skip_width_le [of 0 ws] by (subst token_start.simps) (simp add: Let_def)
qed

lemma start_next:
  assumes e: "good_env env" and s: "stands env st r (u # us)" and r: "\<forall>x\<in>set r. blank x"
  shows "\<exists>st1. stands env st1 (u @ [CHR 0x0A]) us \<and> keeps st st1 \<and> token_start env (char_at st (sc_at st)) st = token_start env (char_at st1 (sc_at st1)) st1"
proof -
  have fetched: "\<exists>st1. stands env st1 (u @ [CHR 0x0A]) us \<and> keeps st st1 \<and> token_start env EOS (st\<lparr>sc_at := k\<rparr>) = token_start env (char_at st1 (sc_at st1)) st1" for k
  proof -
    have "bufs_ok (st\<lparr>sc_at := k\<rparr>)" "lines_ok env (st\<lparr>sc_at := k\<rparr>)" "short_lines (u # us)" "sc_stream (st\<lparr>sc_at := k\<rparr>) = file_lines (u # us)"
      using s by (auto simp: stands_def bufs_ok_def lines_ok_def)
    from fetch_line [OF e this] obtain st1 where f: "scan_fetch env (st\<lparr>sc_at := k\<rparr>) = Returned (True, st1)" and st1: "stands env st1 (u @ [CHR 0x0A]) us" and keep: "keeps st st1"
      by (auto simp: keeps_def)
    have "char_at st1 (sc_at st1) = hd (u @ [CHR 0x0A])" using stands_char_at [OF _ st1, of 0] by (cases u) auto
    then have "char_at st1 (sc_at st1) \<noteq> EOS" using stands_chars [OF st1] by (metis append_is_Nil_conv hd_in_set list.distinct(1))
    then have "token_start env EOS (st\<lparr>sc_at := k\<rparr>) = token_start env (char_at st1 (sc_at st1)) st1"
      using f by (simp add: token_start.simps [of env EOS] token_start.simps [of env "char_at st1 (sc_at st1)"])
    then show ?thesis using st1 keep by blast
  qed
  show ?thesis
  proof (cases "r = []")
    case True
    then have "char_at st (sc_at st) = EOS" using stands_char_at [OF _ s, of 0] by simp
    then show ?thesis using fetched [of "sc_at st"] by simp
  next
    case False
    have d: "drop (sc_at st) (sc_buf st) = r" "length r + 2 \<le> CONFIG_BUF_LEN" "sc_rlen st = CONFIG_BUF_LEN"
      using stands_length [OF s] by auto
    have w: "takeWhile blank r = r" using r by simp
    have "char_at st (sc_at st) = hd r" using stands_char_at [OF _ s, of 0] False by (cases r) auto
    then have c: "char_at st (sc_at st) \<noteq> EOS" using stands_chars [OF s] False by simp
    have x: "char_at st (sc_at st + length r) = EOS" using stands_char_at [OF _ s, of "length r"] by simp
    have "token_start env (char_at st (sc_at st)) st = token_start env EOS (st\<lparr>sc_at := sc_at st + length r + 1\<rparr>)"
      using c d x stands_buffer [OF s] skip_width_le [of 0 r] by (simp add: token_start.simps [of env "char_at st (sc_at st)"] w Let_def)
    then show ?thesis using fetched [of "sc_at st + length r + 1"] by auto
  qed
qed

section \<open>Lexemes\<close>

datatype lexeme = Word string | Num string | Str string

fun lex_text :: "lexeme \<Rightarrow> string" where
  "lex_text (Word w) = w"
| "lex_text (Num t) = t"
| "lex_text (Str t) = quoted t"

fun tok_of :: "sym_tab \<Rightarrow> lexeme \<Rightarrow> token" where
  "tok_of tab (Word w) = lookup tab w"
| "tok_of tab (Num t) = NUMBER"
| "tok_of tab (Str t) = STRING"

definition word_end :: "char \<Rightarrow> bool" where
  "word_end c \<longleftrightarrow> stop [CHR '' '', CHR 0x09, CHR 0x0A, CHR 0x0D, EOS, CHR ''#''] c"

fun lex_ok :: "lexeme \<Rightarrow> bool" where
  "lex_ok (Word w) \<longleftrightarrow>
     (case w of
        [] \<Rightarrow> False
      | c # cs \<Rightarrow> \<not> word_end c \<and> c \<noteq> CHR 0x22 \<and> \<not> isdigit c \<and> (c \<in> {CHR '','', CHR ''-''} \<longrightarrow> cs \<noteq> [] \<and> isalpha (hd cs)) \<and>
          list_all (\<lambda>x. \<not> word_end x) cs)"
| "lex_ok (Num t) \<longleftrightarrow> (case t of [] \<Rightarrow> False | c # cs \<Rightarrow> isdigit c \<and> list_all (\<lambda>x. isdigit x \<or> x = CHR ''.'') cs)"
| "lex_ok (Str t) \<longleftrightarrow> list_all (\<lambda>x. \<not> stop [CHR 0x22, CHR 0x0A, CHR 0x0D, EOS] x) t"

text \<open>Whether the token ends before this character.\<close>

fun ends_at :: "lexeme \<Rightarrow> char \<Rightarrow> bool" where
  "ends_at (Word w) d \<longleftrightarrow> word_end d"
| "ends_at (Num t) d \<longleftrightarrow> \<not> number_char 10 d"
| "ends_at (Str t) d \<longleftrightarrow> True"

text \<open>What the scanner holds after the token.\<close>

fun holds :: "lexeme \<Rightarrow> scanner \<Rightarrow> bool" where
  "holds (Word w) st \<longleftrightarrow> sc_rbuf st = w"
| "holds (Num t) st \<longleftrightarrow> sc_num st = int32 (xf86strToUL t) \<and> sc_real st = atof t"
| "holds (Str t) st \<longleftrightarrow> sc_str st = Some t"

lemma stands_unused [simp]:
  "stands env (st\<lparr>sc_rbuf := x\<rparr>) r us \<longleftrightarrow> stands env st r us" "stands env (st\<lparr>sc_num := n\<rparr>) r us \<longleftrightarrow> stands env st r us"
  "stands env (st\<lparr>sc_real := q\<rparr>) r us \<longleftrightarrow> stands env st r us" "stands env (st\<lparr>sc_str := y\<rparr>) r us \<longleftrightarrow> stands env st r us"
  "stands env (st\<lparr>sc_eol := b\<rparr>) r us \<longleftrightarrow> stands env st r us"
  by (simp_all add: stands_def bufs_ok_def lines_ok_def)

lemma stands_request: "stands env st r us \<Longrightarrow> sc_req st \<le> k \<Longrightarrow> stands env (st\<lparr>sc_req := k\<rparr>) r us"
  unfolding stands_def bufs_ok_def lines_ok_def by (auto simp del: length_drop)

lemma stands_advance:
  assumes "stands env st (p @ r) us"
  shows "stands env (st\<lparr>sc_at := sc_at st + length p\<rparr>) r us"
proof -
  have d: "drop (sc_at st) (sc_buf st) = p @ r" "sc_at st \<le> length (sc_buf st)" using assms by (simp_all add: stands_def)
  have "drop (sc_at st + length p) (sc_buf st) = drop (length p) (drop (sc_at st) (sc_buf st))" by (simp add: ac_simps)
  then have "drop (sc_at st + length p) (sc_buf st) = r" using d(1) by simp
  moreover have "sc_at st + length p \<le> length (sc_buf st)" using d by (metis add_leD1 le_diff_conv2 length_append length_drop nat_le_linear add.commute le_add1)
  moreover have "r = [] \<or> (\<exists>v. r = v @ [CHR 0x0A] \<and> plain v)"
  proof (cases r rule: rev_cases)
    case (snoc v c)
    have "p @ r = [] \<or> (\<exists>v. p @ r = v @ [CHR 0x0A] \<and> plain v)" using assms unfolding stands_def by (elim conjE)
    then show ?thesis using snoc by auto
  qed simp
  ultimately show ?thesis using assms by (auto simp: stands_def bufs_ok_def lines_ok_def)
qed

lemma takeWhile_upto: "list_all P t \<Longrightarrow> \<not> P (hd (r @ [EOS])) \<Longrightarrow> \<not> P EOS \<Longrightarrow> takeWhile P (t @ r) = t"
  by (cases r) (auto simp: list_all_iff takeWhile_append2)

lemma number_char_base: "number_char 8 = number_char 10"
  by (auto simp: number_char_def fun_eq_iff)

lemma scan_lexeme:
  assumes e: "good_env env" and s: "stands env st (lex_text l @ r) us" and l: "lex_ok l" "ends_at l (hd (r @ [EOS]))"
  shows "\<exists>c cs st'. lex_text l = c # cs \<and> \<not> blank c \<and> stands env st' r us \<and> holds l st' \<and> sc_lines st' = sc_lines st \<and>
    (\<forall>tab left. scan_token env tab c left (st\<lparr>sc_at := sc_at st + 1\<rparr>) = Returned (tok_of tab l, st'))"
proof -
  note len = stands_length [OF s]
  have rest: "lex_text l = c # cs \<Longrightarrow> drop (sc_at st + 1) (sc_buf st) = cs @ r" for c cs
  proof -
    assume "lex_text l = c # cs"
    then have "drop 1 (drop (sc_at st) (sc_buf st)) = cs @ r" using len by simp
    then show ?thesis by (simp add: ac_simps)
  qed
  let ?st = "st\<lparr>sc_at := sc_at st + length (lex_text l)\<rparr>"
  have adv: "stands env ?st r us" using stands_advance [OF s] .
  show ?thesis
  proof (cases l)
    case (Word w)
    then obtain c cs where w: "w = c # cs" "\<not> word_end c" "c \<noteq> CHR 0x22" "\<not> isdigit c" "c \<in> {CHR '','', CHR ''-''} \<longrightarrow> cs \<noteq> [] \<and> isalpha (hd cs)"
      "list_all (\<lambda>x. \<not> word_end x) cs"
      using l(1) by (cases w) auto
    have "takeWhile (\<lambda>x. \<not> word_end x) (cs @ r) = cs"
      using l(2) Word w(6) by (intro takeWhile_upto) (auto simp: word_end_def stop_def)
    moreover have "cs \<noteq> [] \<Longrightarrow> hd (cs @ r @ [EOS]) = hd cs" by (cases cs) auto
    moreover have "\<not> blank c" "c \<noteq> CHR ''#''" using w(2) by (auto simp: word_end_def stop_def blank_def)
    ultimately have x: "takeWhile (\<lambda>x. \<not> stop [CHR '' '', CHR 0x09, CHR 0x0A, CHR 0x0D, EOS, CHR ''#''] x) (cs @ r) = cs"
      "\<not> blank c" "c \<noteq> CHR ''#''" "\<not> (c = CHR '','' \<and> \<not> isalpha (hd (cs @ r @ [EOS])))" "\<not> (c = CHR ''-'' \<and> \<not> isalpha (hd (cs @ r @ [EOS])))"
      using w(5) by (auto simp: word_end_def [abs_def])
    have "drop (Suc (sc_at st)) (sc_buf st) = cs @ r" "length cs + 2 \<le> CONFIG_BUF_LEN" "sc_rlen st = CONFIG_BUF_LEN"
      using rest [of c cs] Word w(1) len by auto
    then have "scan_token env tab c left (st\<lparr>sc_at := sc_at st + 1\<rparr>) = Returned (lookup tab w, ?st\<lparr>sc_rbuf := w\<rparr>)" for tab left
      unfolding scan_token_def Let_def using x(3-5) w(3,4) by (simp add: x(1) Word w(1)) blast
    then show ?thesis using Word w(1) adv x(2) by auto
  next
    case (Num t)
    then obtain c cs where t: "t = c # cs" "isdigit c" "list_all (\<lambda>x. isdigit x \<or> x = CHR ''.'') cs" using l(1) by (cases t) auto
    have x: "\<not> isdigit (CHR ''x'')" "\<not> isdigit (CHR ''X'')" "\<not> isdigit EOS" "\<not> isdigit (CHR ''#'')" "\<not> isdigit (CHR '','')" "\<not> isdigit (CHR ''-'')"
      by code_simp+
    have n: "takeWhile (number_char 10) (cs @ r) = cs"
      using l(2) Num t(3) x by (intro takeWhile_upto) (auto simp: number_char_def list_all_iff)
    have "hd (cs @ r @ [EOS]) \<noteq> CHR ''x''" "hd (cs @ r @ [EOS]) \<noteq> CHR ''X''"
      using l(2) Num t(3) x by (cases cs; auto simp: number_char_def)+
    moreover have "\<not> blank c" using t(2) by (auto simp: blank_def isdigit_def cval_def)
    ultimately have "scan_token env tab c left (st\<lparr>sc_at := sc_at st + 1\<rparr>) =
        Returned (NUMBER, ?st\<lparr>sc_rbuf := t, sc_num := int32 (xf86strToUL t), sc_real := atof t\<rparr>)" for tab left
      using t(1,2) rest [of c cs] Num len n x by (auto simp: scan_token_def Let_def number_char_base)
    then show ?thesis using Num t(1) adv \<open>\<not> blank c\<close> by auto
  next
    case (Str t)
    have t: "takeWhile (\<lambda>x. \<not> stop [CHR 0x22, CHR 0x0A, CHR 0x0D, EOS] x) (t @ CHR 0x22 # r) = t"
      using l(1) Str by (simp add: list_all_iff takeWhile_append2 stop_def)
    have "\<not> isdigit (CHR 0x22)" "\<not> blank (CHR 0x22)" by code_simp+
    then have "scan_token env tab (CHR 0x22) left (st\<lparr>sc_at := sc_at st + 1\<rparr>) =
        Returned (STRING, ?st\<lparr>sc_rbuf := t, sc_str := Some t, sc_req := sc_req st + 1\<rparr>)" for tab left
      using rest [of "CHR 0x22" "t @ [CHR 0x22]"] Str len t e by (auto simp: scan_token_def Let_def good_env_def)
    moreover have "stands env (?st\<lparr>sc_rbuf := t, sc_str := Some t, sc_req := sc_req st + 1\<rparr>) r us"
      using stands_request [of env "?st\<lparr>sc_rbuf := t, sc_str := Some t\<rparr>" r us "sc_req st + 1"] adv by simp
    ultimately show ?thesis using Str \<open>\<not> blank (CHR 0x22)\<close> by auto
  qed
qed

lemma lex_one_line: "lex_ok l \<Longrightarrow> CHR 0x0A \<notin> set (lex_text l)"
proof (cases l)
  case (Num t)
  moreover have "\<not> isdigit (CHR 0x0A)" by code_simp
  moreover assume "lex_ok l"
  ultimately show ?thesis by (cases t) (auto simp: list_all_iff)
qed (auto simp: word_end_def stop_def list_all_iff split: list.splits)

lemma next_token_start:
  assumes "stands env st r us"
  shows "next_token env tab st = run_bind (defined (token_start env (char_at st (sc_at st)) st)) (\<lambda>r. run_bind r (\<lambda>(c, left, st1).
      case c of None \<Rightarrow> Returned (EOF_TOKEN, st1) | Some d \<Rightarrow> scan_token env tab d left st1))"
proof -
  have "sc_at st \<le> length (sc_buf st)" using assms unfolding stands_def by (elim conjE)
  then show ?thesis by (simp add: next_token_def)
qed

lemma lexeme_in_line:
  assumes e: "good_env env" and s: "stands env st (ws @ lex_text l @ r) us" and l: "lex_ok l" "ends_at l (hd (r @ [EOS]))"
    and ws: "\<forall>x\<in>set ws. blank x"
  shows "\<exists>st'. (\<forall>tab. next_token env tab st = Returned (tok_of tab l, st')) \<and> stands env st' r us \<and> holds l st' \<and> keeps st st'"
proof -
  let ?st = "st\<lparr>sc_at := sc_at st + length ws\<rparr>"
  have "stands env ?st (lex_text l @ r) us" using stands_advance [OF s] .
  from scan_lexeme [OF e this l] obtain c cs st' where c: "lex_text l = c # cs" "\<not> blank c" "stands env st' r us" "holds l st'" "keeps st st'"
    "\<forall>tab left. scan_token env tab c left (st\<lparr>sc_at := sc_at st + length ws + 1\<rparr>) = Returned (tok_of tab l, st')"
    by auto
  have "char_at st (sc_at st) = hd (ws @ c # cs @ r)" using stands_char_at [OF _ s, of 0] c(1) by (cases ws) auto
  moreover have "hd (ws @ c # cs @ r) \<in> set (ws @ lex_text l @ r)" using c(1) by (cases ws) auto
  ultimately have "char_at st (sc_at st) \<noteq> EOS" using stands_chars [OF s] by metis
  then have "token_start env (char_at st (sc_at st)) st = Some (Returned (Some c, skip_left [] ws, st\<lparr>sc_at := sc_at st + length ws + 1\<rparr>))"
    using start_here [of env st ws c "cs @ r" us] s c(1,2) ws by simp
  then show ?thesis using next_token_start [OF s] c(3-6) by auto
qed

lemma lex_first: "lex_ok l \<Longrightarrow> \<exists>c cs. lex_text l = c # cs \<and> \<not> blank c"
proof (cases l)
  case (Num t)
  moreover assume "lex_ok l"
  ultimately show ?thesis by (cases t) (auto simp: blank_def isdigit_def cval_def)
qed (auto simp: word_end_def stop_def blank_def split: list.splits)

lemma blank_prefix:
  assumes "\<forall>x\<in>set ws. blank x" "\<not> blank c" "r @ f = ws @ c # t"
  shows "(\<forall>x\<in>set r. blank x) \<Longrightarrow> \<exists>vs. ws = r @ vs \<and> f = vs @ c # t"
    "\<not> (\<forall>x\<in>set r. blank x) \<Longrightarrow> \<exists>v. r = ws @ v \<and> v \<noteq> [] \<and> v @ f = c # t"
proof -
  obtain us where us: "r = ws @ us \<and> us @ f = c # t \<or> r @ us = ws \<and> f = us @ c # t" using assms(3) by (auto simp: append_eq_append_conv2)
  show "(\<forall>x\<in>set r. blank x) \<Longrightarrow> \<exists>vs. ws = r @ vs \<and> f = vs @ c # t" using us assms(2) by (cases us) auto
  show "\<not> (\<forall>x\<in>set r. blank x) \<Longrightarrow> \<exists>v. r = ws @ v \<and> v \<noteq> [] \<and> v @ f = c # t" using us assms(1) by (cases us) auto
qed

lemma lexeme_here:
  assumes e: "good_env env" and l: "lex_ok l" "ends_at l (hd (R @ [EOS]))"
    and s: "stands env st r us" and t: "r @ file_lines us = ws @ lex_text l @ R" and ws: "\<forall>x\<in>set ws. blank x" and r: "\<not> (\<forall>x\<in>set r. blank x)"
  shows "\<exists>st'. (\<forall>tab. next_token env tab st = Returned (tok_of tab l, st')) \<and> ahead env st' R \<and> tail_ptr (sc_lines st') \<noteq> None \<and> holds l st' \<and> keeps st st'"
proof -
  obtain c cs where c: "lex_text l = c # cs" "\<not> blank c" using lex_first [OF l(1)] by blast
  obtain v where v: "r = ws @ v" "v \<noteq> []" "v @ file_lines us = lex_text l @ R"
    using blank_prefix(2) [OF ws c(2) _ r, of "file_lines us" "cs @ R"] t c(1) by auto
  have "r = [] \<or> (\<exists>x. r = x @ [CHR 0x0A] \<and> plain x)" using s unfolding stands_def by (elim conjE)
  then obtain x where "r = x @ [CHR 0x0A]" using v by auto
  then obtain y where y: "v = y @ [CHR 0x0A]" using v by (cases v rule: rev_cases) auto
  obtain q where q: "v = lex_text l @ q \<and> R = q @ file_lines us \<or> lex_text l = v @ q" using v(3) by (metis append_eq_append_conv2)
  have "CHR 0x0A \<in> set v" using y by simp
  then have q: "v = lex_text l @ q" "q \<noteq> []" "R = q @ file_lines us" using q lex_one_line [OF l(1)] by auto
  have "hd (q @ [EOS]) = hd (R @ [EOS])" using q by (cases q) auto
  then obtain st' where st': "\<forall>tab. next_token env tab st = Returned (tok_of tab l, st')" "stands env st' q us" "holds l st'" "keeps st st'"
    using lexeme_in_line [OF e _ l(1) _ ws, of st q us] s v(1) q(1) l(2) by auto
  moreover have "tail_ptr (sc_lines st') \<noteq> None" using st'(2) q(2) unfolding stands_def by blast
  ultimately show ?thesis using q(3) unfolding ahead_def by blast
qed

lemma next_lexeme:
  assumes e: "good_env env" and l: "lex_ok l" "ends_at l (hd (R @ [EOS]))"
  shows "stands env st r us \<Longrightarrow> r @ file_lines us = ws @ lex_text l @ R \<Longrightarrow> \<forall>x\<in>set ws. blank x \<Longrightarrow>
    \<exists>st'. (\<forall>tab. next_token env tab st = Returned (tok_of tab l, st')) \<and> ahead env st' R \<and> tail_ptr (sc_lines st') \<noteq> None \<and> holds l st' \<and> keeps st st'"
proof (induction us arbitrary: st r ws)
  case Nil
  obtain c cs where c: "lex_text l = c # cs" "\<not> blank c" using lex_first [OF l(1)] by blast
  then have "\<not> (\<forall>x\<in>set r. blank x)" using Nil(2) by auto
  then show ?case using lexeme_here [OF e l Nil] by blast
next
  case (Cons u us)
  obtain c cs where c: "lex_text l = c # cs" "\<not> blank c" using lex_first [OF l(1)] by blast
  show ?case
  proof (cases "\<forall>x\<in>set r. blank x")
    case True
    obtain vs where vs: "ws = r @ vs" "file_lines (u # us) = vs @ lex_text l @ R"
      using blank_prefix(1) [OF Cons.prems(3) c(2) _ True, of "file_lines (u # us)" "cs @ R"] Cons.prems(2) c(1) by auto
    obtain st1 where st1: "stands env st1 (u @ [CHR 0x0A]) us" "keeps st st1" "token_start env (char_at st (sc_at st)) st = token_start env (char_at st1 (sc_at st1)) st1"
      using start_next [OF e Cons.prems(1) True] by blast
    have "next_token env tab st = next_token env tab st1" for tab
      using next_token_start [OF Cons.prems(1)] next_token_start [OF st1(1)] st1(3) by simp
    then show ?thesis using Cons.IH [OF st1(1), of vs] vs Cons.prems(3) keeps_trans [OF st1(2)] by auto
  next
    case False
    then show ?thesis using lexeme_here [OF e l Cons.prems] by blast
  qed
qed

text \<open>The scanner has a line, so that entries can be linked to it.\<close>

definition inside :: "env \<Rightarrow> scanner \<Rightarrow> string \<Rightarrow> bool" where
  "inside env st text \<longleftrightarrow> ahead env st text \<and> tail_ptr (sc_lines st) \<noteq> None"

lemma ahead_lock: "ahead env st text \<Longrightarrow> sc_push st = LOCK_TOKEN"
  by (auto simp: ahead_def stands_def bufs_ok_def)

text \<open>A well-formed token is read, whatever white space and line ends stand before it.\<close>

lemma read_lexeme:
  assumes "good_env env" "lex_ok l" "ends_at l (hd (R @ [EOS]))" "ahead env st (ws @ lex_text l @ R)" "\<forall>x\<in>set ws. blank x"
  shows "\<exists>st'. (\<forall>tab. xf86getToken env tab st = Returned (tok_of tab l, st')) \<and> inside env st' R \<and> holds l st' \<and> keeps st st'"
proof -
  obtain r us where s: "stands env st r us" "r @ file_lines us = ws @ lex_text l @ R" using assms(4) by (auto simp: ahead_def)
  from next_lexeme [OF assms(1-3) _ s(2) assms(5), of "st\<lparr>sc_eol := False\<rparr>"] s(1) ahead_lock [OF assms(4)] show ?thesis
    by (auto simp: xf86getToken_def inside_def keeps_def)
qed

section \<open>Tokens that have been put back\<close>

text \<open>The text follows, or its first word has been read and put back.\<close>

definition before :: "env \<Rightarrow> scanner \<Rightarrow> string \<Rightarrow> bool" where
  "before env st text \<longleftrightarrow> inside env st text \<or>
     (\<exists>ws w r. text = ws @ w @ r \<and> (\<forall>x\<in>set ws. blank x) \<and> lex_ok (Word w) \<and> word_end (hd (r @ [EOS])) \<and>
        sc_push st = ERROR_TOKEN \<and> sc_rbuf st = w \<and> inside env (st\<lparr>sc_push := LOCK_TOKEN\<rparr>) r)"

lemma word_split:
  assumes "\<forall>x\<in>set ws. blank x" "lex_ok (Word w)" "word_end (hd (r @ [EOS]))"
  shows "dropWhile blank (ws @ w @ r) = w @ r" "takeWhile (\<lambda>x. \<not> word_end x) (w @ r) = w"
proof -
  obtain c cs where w: "w = c # cs" "\<not> blank c" "\<not> word_end c" "list_all (\<lambda>x. \<not> word_end x) cs"
    using assms(2) lex_first [OF assms(2)] by (cases w) auto
  show "dropWhile blank (ws @ w @ r) = w @ r" using assms(1) w by (simp add: dropWhile_append2)
  show "takeWhile (\<lambda>x. \<not> word_end x) (w @ r) = w"
    using w assms(3) by (intro takeWhile_upto) (auto simp: word_end_def stop_def)
qed

lemma word_unique:
  assumes "\<forall>x\<in>set ws. blank x" "lex_ok (Word w)" "word_end (hd (r @ [EOS]))"
    and "\<forall>x\<in>set vs. blank x" "lex_ok (Word v)" "word_end (hd (q @ [EOS]))" and t: "ws @ w @ r = vs @ v @ q"
  shows "w = v" "r = q"
proof -
  have "w @ r = v @ q" using word_split(1) [OF assms(1-3)] word_split(1) [OF assms(4-6)] t by simp
  then show "w = v" "r = q" using word_split(2) [OF assms(1-3)] word_split(2) [OF assms(4-6)] by (metis append_same_eq same_append_eq)+
qed

lemma before_word:
  assumes e: "good_env env" and b: "before env st (ws @ w @ r)" and w: "\<forall>x\<in>set ws. blank x" "lex_ok (Word w)" "word_end (hd (r @ [EOS]))"
  shows "\<exists>st'. (\<forall>tab. xf86getToken env tab st = Returned (lookup tab w, st')) \<and> inside env st' r \<and> keeps st st' \<and> sc_rbuf st' = w"
proof (cases "inside env st (ws @ w @ r)")
  case True
  then show ?thesis using read_lexeme [OF e w(2), of r st ws] w by (auto simp: inside_def)
next
  case False
  then obtain vs v q where v: "ws @ w @ r = vs @ v @ q" "\<forall>x\<in>set vs. blank x" "lex_ok (Word v)" "word_end (hd (q @ [EOS]))"
    "sc_push st = ERROR_TOKEN" "sc_rbuf st = v" "inside env (st\<lparr>sc_push := LOCK_TOKEN\<rparr>) q"
    using b unfolding before_def by blast
  have "v = w" "q = r" using word_unique [OF w v(2-4) v(1)] by simp_all
  then show ?thesis using v(5-7) by (intro exI [of _ "st\<lparr>sc_push := LOCK_TOKEN\<rparr>"]) (simp add: xf86getToken_def Let_def)
qed

section \<open>Linking lines\<close>

lemma link_line:
  assumes "elems (sc_lines st) a \<noteq> None"
  shows "\<exists>l. link_mode b (Some a) print n st = Returned (st\<lparr>sc_lines := l\<rparr>) \<and> tail_ptr l = tail_ptr (sc_lines st) \<and>
    (\<forall>x. pointers (elems l x) = pointers (elems (sc_lines st) x)) \<and> head_ptr l = head_ptr (sc_lines st)"
  using assms by (auto simp: link_mode_def fbc_link_line_ER_def update_elem_def pointers_def)

lemma link_inside:
  assumes "tail_ptr l = tail_ptr (sc_lines st)" "\<forall>x. pointers (elems l x) = pointers (elems (sc_lines st) x)" "head_ptr l = head_ptr (sc_lines st)"
  shows "inside env (st\<lparr>sc_lines := l\<rparr>) text \<longleftrightarrow> inside env st text" "keeps st (st\<lparr>sc_lines := l\<rparr>)"
proof -
  have "dll l xs \<longleftrightarrow> dll (sc_lines st) xs" for xs
    using assms links_cong [of xs "elems l" "elems (sc_lines st)" None None] by (simp add: dll_def)
  then have "lines_ok env (st\<lparr>sc_lines := l\<rparr>) \<longleftrightarrow> lines_ok env st" by (simp add: lines_ok_def)
  then show "inside env (st\<lparr>sc_lines := l\<rparr>) text \<longleftrightarrow> inside env st text"
    using assms(1) by (simp add: inside_def ahead_def stands_def bufs_ok_def)
  have "elems l a \<noteq> None" if "elems (sc_lines st) a \<noteq> None" for a using assms(2) [rule_format, of a] that by (auto simp: pointers_def)
  then show "keeps st (st\<lparr>sc_lines := l\<rparr>)" by (simp add: keeps_def)
qed

text \<open>Linking a line changes nothing about what is read next.\<close>

lemma link_before:
  assumes "elems (sc_lines st) a \<noteq> None"
  shows "\<exists>st'. link_mode b (Some a) print n st = Returned st' \<and> keeps st st' \<and> (\<forall>t. before env st t \<longrightarrow> before env st' t)"
proof -
  obtain l where l: "link_mode b (Some a) print n st = Returned (st\<lparr>sc_lines := l\<rparr>)" "tail_ptr l = tail_ptr (sc_lines st)"
    "\<forall>x. pointers (elems l x) = pointers (elems (sc_lines st) x)" "head_ptr l = head_ptr (sc_lines st)"
    using link_line [OF assms] by blast
  have "inside env (st\<lparr>sc_lines := l, sc_push := p\<rparr>) t \<longleftrightarrow> inside env (st\<lparr>sc_push := p\<rparr>) t" for t p
  proof -
    have order: "st\<lparr>sc_lines := l, sc_push := p\<rparr> = st\<lparr>sc_push := p\<rparr>\<lparr>sc_lines := l\<rparr>" by (cases st) simp
    show ?thesis unfolding order using l(2-4) by (intro link_inside(1)) simp_all
  qed
  then have "before env st t \<longrightarrow> before env (st\<lparr>sc_lines := l\<rparr>) t" for t
    using link_inside(1) [OF l(2-4)] by (auto simp: before_def simp del: lex_ok.simps)
  then show ?thesis using l(1) link_inside(2) [OF l(2-4)] by blast
qed

end
