(* ===== verification/Fbc_Roundtrip.thy ===== *)
theory Fbc_Roundtrip
  imports Fbc_Lex
begin

text \<open>
  The text that is written for video modes is read back as the same modes: numbers, clocks, flags, whole modes, and
  the Modes section that is appended to the configuration file.
\<close>

section \<open>Numbers\<close>

lemma digit_char_cases: "n < 10 \<Longrightarrow> digit_char n \<in> set ''0123456789''"
proof -
  have "list_all (\<lambda>n. digit_char n \<in> set ''0123456789'') [0 ..< 10]" by code_simp
  then show "n < 10 \<Longrightarrow> ?thesis" by (auto simp: list_all_iff)
qed

lemma digit_char_value: "n < 10 \<Longrightarrow> ul_digit 10 (digit_char n) = Some (int n) \<and> isdigit (digit_char n) \<and> (digit_char n = CHR ''0'' \<longleftrightarrow> n = 0)"
proof -
  have "list_all (\<lambda>n. ul_digit 10 (digit_char n) = Some (int n) \<and> isdigit (digit_char n) \<and> (digit_char n = CHR ''0'' \<longleftrightarrow> n = 0)) [0 ..< 10]"
    by code_simp
  then show "n < 10 \<Longrightarrow> ?thesis" by (auto simp: list_all_iff)
qed

lemma show_nat_digits: "list_all isdigit (show_nat n) \<and> show_nat n \<noteq> [] \<and> (hd (show_nat n) = CHR ''0'' \<longleftrightarrow> n = 0)"
proof (induction n rule: show_nat.induct)
  case (1 n)
  show ?case
  proof (cases "n < 10")
    case True
    then show ?thesis using digit_char_value by (simp add: show_nat.simps [of n])
  next
    case False
    then show ?thesis using 1 digit_char_value [of "n mod 10"] by (simp add: show_nat.simps [of n])
  qed
qed

lemma ul_loop_append: "list_all (\<lambda>c. ul_digit base c \<noteq> None) s \<Longrightarrow> ul_loop base tot (s @ t) = ul_loop base (ul_loop base tot s) t"
  by (induction s arbitrary: tot) (auto split: option.splits)

lemma isdigit_value: "isdigit c \<Longrightarrow> ul_digit 10 c \<noteq> None"
  by (simp add: isdigit_def ul_digit_def Let_def)

lemma ul_loop_show: "ul_loop 10 0 (show_nat n) = int n mod 4294967296"
proof (induction n rule: show_nat.induct)
  case (1 n)
  show ?case
  proof (cases "n < 10")
    case True
    then show ?thesis using digit_char_value by (simp add: show_nat.simps [of n])
  next
    case False
    have "list_all (\<lambda>c. ul_digit 10 c \<noteq> None) (show_nat (n div 10))"
      using show_nat_digits [of "n div 10"] isdigit_value by (auto simp: list_all_iff)
    then have "ul_loop 10 0 (show_nat n) = (int (n div 10) mod 4294967296 * 10 + int (n mod 10)) mod 4294967296"
      using 1 False digit_char_value [of "n mod 10"] by (simp add: show_nat.simps [of n] ul_loop_append)
    also have "\<dots> = (int (n div 10) * 10 + int (n mod 10)) mod 4294967296" by (metis mod_add_left_eq mod_mult_left_eq)
    also have "int (n div 10) * 10 + int (n mod 10) = int n" by presburger
    finally show ?thesis .
  qed
qed

lemma strToUL_show: "xf86strToUL (show_nat n) = int n mod 4294967296"
proof (cases "n = 0")
  case True
  moreover have "show_nat 0 = ''0''" by code_simp
  ultimately show ?thesis by (simp add: xf86strToUL_def)
next
  case False
  then show ?thesis using show_nat_digits [of n] ul_loop_show by (simp add: xf86strToUL_def)
qed

text \<open>A number that is written is read back, and ends before any character that cannot belong to it.\<close>

definition number :: "int \<Rightarrow> bool" where
  "number n \<longleftrightarrow> 0 \<le> n \<and> n < 2147483648"

lemma show_int_lexeme:
  assumes "number n"
  shows "lex_ok (Num (show_int n))" "int32 (xf86strToUL (show_int n)) = n"
proof -
  have s: "show_int n = show_nat (nat n)" using assms by (simp add: show_int_def number_def)
  show "lex_ok (Num (show_int n))" using show_nat_digits [of "nat n"] unfolding s by (auto simp: list_all_iff neq_Nil_conv)
  show "int32 (xf86strToUL (show_int n)) = n" using assms unfolding s strToUL_show by (simp add: int32_def number_def)
qed

section \<open>Clocks\<close>

lemma read_digits_append: "list_all isdigit s \<Longrightarrow> read_digits 10 acc k (s @ t) = (let (n, j, r) = read_digits 10 acc k s in read_digits 10 n j t)"
proof (induction s arbitrary: acc k)
  case (Cons c s)
  then show ?case using isdigit_value [of c] by (auto split: option.splits)
qed simp

lemma read_digits_show: "\<exists>k. read_digits 10 0 0 (show_nat n) = (n, k, [])"
proof (induction n rule: show_nat.induct)
  case (1 n)
  show ?case
  proof (cases "n < 10")
    case True
    then show ?thesis using digit_char_value by (simp add: show_nat.simps [of n])
  next
    case False
    then show ?thesis using 1 digit_char_value [of "n mod 10"] show_nat_digits [of "n div 10"]
      by (auto simp: show_nat.simps [of n] read_digits_append)
  qed
qed

lemma show_clock_lexeme: "0 \<le> k \<Longrightarrow> lex_ok (Num (show_clock k))"
proof -
  assume "0 \<le> k"
  have "isdigit (CHR ''0'')" by code_simp
  then show ?thesis using \<open>0 \<le> k\<close> show_nat_digits [of "nat k div 1000"] digit_char_value
    by (auto simp: show_clock_def list_all_iff neq_Nil_conv)
qed

lemma read_clock_text:
  assumes "0 \<le> k"
  shows "atof (show_clock k) = round_double (of_int k / 1000)"
proof -
  define n a b c d where "n = nat k" and "a = n div 1000" and "b = n div 100 mod 10" and "c = n div 10 mod 10" and "d = n mod 10"
  have t: "show_clock k = show_nat a @ CHR ''.'' # [digit_char b, digit_char c, digit_char d, CHR ''0'']"
    using assms by (simp add: show_clock_def n_def a_def b_def c_def d_def)
  have v: "ul_digit 10 (digit_char b) = Some (int b)" "ul_digit 10 (digit_char c) = Some (int c)" "ul_digit 10 (digit_char d) = Some (int d)"
    "ul_digit 10 (CHR ''0'') = Some 0" "ul_digit 10 (CHR ''.'') = None"
    using digit_char_value by (simp_all add: b_def c_def d_def) code_simp+
  have x: "\<not> isdigit (CHR ''x'')" "\<not> isdigit (CHR ''X'')" by code_simp+
  then have h: "\<not> hex_prefix (show_clock k)"
    using show_nat_digits [of a] unfolding t by (cases "show_nat a"; cases "tl (show_nat a)") (auto simp: hex_prefix_def)
  obtain j where "read_digits 10 0 0 (show_nat a) = (a, j, [])" using read_digits_show by blast
  then have "read_digits 10 0 0 (show_clock k) = (a, j, CHR ''.'' # [digit_char b, digit_char c, digit_char d, CHR ''0''])"
    using show_nat_digits [of a] v(5) unfolding t by (simp add: read_digits_append)
  then have "decimal 10 (show_clock k) = of_nat ((((a * 10 + b) * 10 + c) * 10 + d) * 10) / of_nat (10 ^ 4)"
  proof -
    have "read_digits 10 a 0 [digit_char b, digit_char c, digit_char d, CHR ''0''] = ((((a * 10 + b) * 10 + c) * 10 + d) * 10, 4, [])"
      using v(1-4) by simp
    moreover assume "read_digits 10 0 0 (show_clock k) = (a, j, CHR ''.'' # [digit_char b, digit_char c, digit_char d, CHR ''0''])"
    ultimately show ?thesis unfolding decimal_def Let_def by (simp only: prod.case list.sel list.distinct simp_thms if_True) simp
  qed
  also have "((a * 10 + b) * 10 + c) * 10 + d = n"
  proof -
    have "a = n div 10 div 10 div 10" "b = n div 10 div 10 mod 10" "c = n div 10 mod 10" "d = n mod 10"
      by (simp_all add: a_def b_def c_def d_def flip: div_mult2_eq)
    then show ?thesis by (simp add: mult.commute)
  qed
  also have "of_nat (n * 10) / of_nat (10 ^ 4) = (of_int k / 1000 :: rat)" using assms by (simp add: n_def)
  finally have "decimal 10 (show_clock k) = of_int k / 1000" .
  then show ?thesis unfolding atof_def using h by (simp only: if_False)
qed

lemma clock_round_trip: "number k \<Longrightarrow> clock_khz (atof (show_clock k)) = Returned k"
  using thousandths_exact [of k] by (simp add: read_clock_text number_def clock_khz_def)

section \<open>Values\<close>

lemma sub_token_lexeme:
  assumes "good_env env" "lex_ok l" "ends_at l (hd (R @ [EOS]))" "inside env st (ws @ lex_text l @ R)" "\<forall>x\<in>set ws. blank x" "tok_of tab l \<noteq> COMMENT"
  shows "\<exists>st'. sub_token env tab m st = Returned (tok_of tab l, m, st') \<and> inside env st' R \<and> holds l st' \<and> keeps st st'"
proof -
  have "ahead env st (ws @ lex_text l @ R)" using assms(4) by (simp add: inside_def)
  from read_lexeme [OF assms(1-3) this assms(5)] assms(6) show ?thesis
    by (auto simp: sub_token_def xf86getSubTokenWithTab_def sub_token_loop.simps)
qed

definition blank_start :: "string \<Rightarrow> bool" where
  "blank_start t \<longleftrightarrow> t \<noteq> [] \<and> blank (hd t)"

lemma blank_start_ends:
  assumes "blank_start t"
  shows "ends_at (Num n) (hd (t @ u))" "word_end (hd (t @ u))"
  using assms by (cases t; auto simp: blank_start_def blank_def number_char_def isdigit_def cval_def word_end_def stop_def)+

fun num_text :: "(string \<times> int) list \<Rightarrow> string" where
  "num_text [] = []"
| "num_text ((ws, n) # ns) = ws @ show_int n @ num_text ns"

fun apply_numbers :: "(int \<Rightarrow> parsed_mode \<Rightarrow> parsed_mode) list \<Rightarrow> int list \<Rightarrow> parsed_mode \<Rightarrow> parsed_mode" where
  "apply_numbers (f # fs) (n # ns) m = apply_numbers fs ns (f n m)"
| "apply_numbers fs ns m = m"

definition spaces :: "string \<Rightarrow> bool" where
  "spaces ws \<longleftrightarrow> ws \<noteq> [] \<and> list_all blank ws"

lemma num_text_start: "\<forall>(ws, n)\<in>set ns. spaces ws \<Longrightarrow> blank_start R \<Longrightarrow> blank_start (num_text ns @ R)"
  by (cases ns rule: num_text.cases) (auto simp: blank_start_def spaces_def list_all_iff neq_Nil_conv)

lemma read_numbers_text:
  assumes "good_env env" "blank_start R"
  shows "length fs = length ns \<Longrightarrow> \<forall>(ws, n)\<in>set ns. number n \<and> spaces ws \<Longrightarrow> inside env st (num_text ns @ R) \<Longrightarrow>
    \<exists>st'. read_numbers env fs m st = Returned (Some (apply_numbers fs (map snd ns) m), st') \<and> inside env st' R \<and> keeps st st'"
proof (induction fs arbitrary: ns m st)
  case Nil
  then show ?case by auto
next
  case (Cons f fs)
  then obtain ws n ns' where ns: "ns = (ws, n) # ns'" by (cases ns) auto
  have n: "number n" "\<forall>x\<in>set ws. blank x" using Cons.prems(2) unfolding ns by (auto simp: spaces_def list_all_iff)
  have "blank_start (num_text ns' @ R)" using num_text_start [OF _ assms(2), of ns'] Cons.prems(2) unfolding ns by auto
  from blank_start_ends(1) [OF this] have "ends_at (Num (show_int n)) (hd ((num_text ns' @ R) @ [EOS]))" .
  from sub_token_lexeme [OF assms(1) show_int_lexeme(1) [OF n(1)] this, of st ws "[]" m] n(2) Cons.prems(3)
  obtain st1 where st1: "sub_token env [] m st = Returned (NUMBER, m, st1)" "inside env st1 (num_text ns' @ R)" "sc_num st1 = n" "keeps st st1"
    unfolding ns using show_int_lexeme(2) [OF n(1)] by auto
  obtain st2 where "read_numbers env fs (f n m) st1 = Returned (Some (apply_numbers fs (map snd ns') (f n m)), st2)" "inside env st2 R" "keeps st1 st2"
    using Cons.IH [of ns' st1 "f n m"] Cons.prems(1,2) st1(2) unfolding ns by auto
  then show ?case using st1 keeps_trans [of st st1 st2] unfolding ns by auto
qed

lemma read_clock_value:
  assumes "good_env env" "blank_start R" "number k" "spaces ws" "inside env st (ws @ show_clock k @ R)"
  shows "\<exists>st'. read_clock env m st = Returned (Some (m\<lparr>ml_clock := k\<rparr>), st') \<and> inside env st' R \<and> keeps st st'"
proof -
  have "lex_ok (Num (show_clock k))" using show_clock_lexeme assms(3) by (simp add: number_def)
  from sub_token_lexeme [OF assms(1) this blank_start_ends(1) [OF assms(2)], of st ws "[]" m] assms(4,5)
  obtain st1 where "sub_token env [] m st = Returned (NUMBER, m, st1)" "inside env st1 R" "sc_real st1 = atof (show_clock k)" "keeps st st1"
    by (auto simp: spaces_def list_all_iff)
  then show ?thesis using clock_round_trip [OF assms(3)] by (auto simp: read_clock_def)
qed

definition flag_of :: "string \<Rightarrow> int option" where
  "flag_of name = sync_flag (StringToToken name TimingTab)"

definition flag_ok :: "string \<Rightarrow> bool" where
  "flag_ok name \<longleftrightarrow> lex_ok (Str name) \<and> flag_of name \<noteq> None"

fun or_flags :: "string list \<Rightarrow> int \<Rightarrow> int" where
  "or_flags [] f = f"
| "or_flags (n # ns) f = or_flags ns (f OR the (flag_of n))"

definition flags_text :: "string list \<Rightarrow> string" where
  "flags_text names = concat (map (\<lambda>n. '' '' @ quoted n) names)"

lemma flags_loop_text:
  assumes e: "good_env env" and w: "\<forall>x\<in>set ws. blank x" "lex_ok (Word w)" "word_end (hd (R @ [EOS]))"
  shows "list_all flag_ok (name # names) \<Longrightarrow> sc_str st = Some name \<Longrightarrow> inside env st (flags_text names @ CHR 0x0A # ws @ w @ R) \<Longrightarrow>
    \<exists>st'. flags_loop env STRING m st = Some (Returned (Some (m\<lparr>ml_flags := or_flags (name # names) (ml_flags m)\<rparr>), st')) \<and>
      before env st' (CHR 0x0A # ws @ w @ R) \<and> keeps st st'"
proof (induction names arbitrary: name m st)
  case Nil
  let ?m = "m\<lparr>ml_flags := ml_flags m OR the (flag_of name)\<rparr>"
  have f: "sync_flag (xf86getStringToken TimingTab st) = Some (the (flag_of name))"
    using Nil by (auto simp: flag_ok_def flag_of_def xf86getStringToken_def)
  have "\<forall>x\<in>set (CHR 0x0A # ws). blank x" using w(1) by (simp add: blank_def)
  moreover have "inside env st ((CHR 0x0A # ws) @ lex_text (Word w) @ R)" using Nil(3) by (simp add: flags_text_def)
  ultimately obtain st1 where st1: "sub_token env [] ?m st = Returned (ERROR_TOKEN, ?m, st1)" "inside env st1 R" "sc_rbuf st1 = w" "keeps st st1"
    using sub_token_lexeme [OF e w(2), of R st "CHR 0x0A # ws" "[]" ?m] w(3) by auto
  have "sc_push st1 = LOCK_TOKEN" using st1(2) by (auto simp: inside_def dest: ahead_lock)
  then have "inside env (st1\<lparr>sc_push := ERROR_TOKEN, sc_push := LOCK_TOKEN\<rparr>) R" using st1(2) by (metis scanner.surjective scanner.update_convs(9) scanner.select_convs(9))
  then have "before env (xf86unGetToken ERROR_TOKEN st1) (CHR 0x0A # ws @ w @ R)"
    unfolding before_def xf86unGetToken_def
    using w st1(3) \<open>\<forall>x\<in>set (CHR 0x0A # ws). blank x\<close>
    by (intro disjI2 exI [of _ "CHR 0x0A # ws"] exI [of _ w] exI [of _ R]) (simp del: lex_ok.simps)
  moreover have "flags_loop env STRING m st = Some (Returned (Some ?m, xf86unGetToken ERROR_TOKEN st1))"
    using f st1(1) by (simp add: flags_loop.simps)
  moreover have "keeps st (xf86unGetToken ERROR_TOKEN st1)" using st1(4) by (simp add: keeps_def xf86unGetToken_def)
  ultimately show ?case by auto
next
  case (Cons n names)
  let ?m = "m\<lparr>ml_flags := ml_flags m OR the (flag_of name)\<rparr>"
  have f: "sync_flag (xf86getStringToken TimingTab st) = Some (the (flag_of name))"
    using Cons.prems by (auto simp: flag_ok_def flag_of_def xf86getStringToken_def)
  have "lex_ok (Str n)" using Cons.prems(1) by (simp add: flag_ok_def)
  from sub_token_lexeme [OF e this, of "flags_text names @ CHR 0x0A # ws @ w @ R" st "'' ''" "[]" ?m] Cons.prems(3)
  obtain st1 where st1: "sub_token env [] ?m st = Returned (STRING, ?m, st1)" "inside env st1 (flags_text names @ CHR 0x0A # ws @ w @ R)"
    "sc_str st1 = Some n" "keeps st st1"
    by (auto simp: flags_text_def blank_def)
  from Cons.IH [OF _ st1(3,2), of ?m] Cons.prems(1)
  obtain st2 where "flags_loop env STRING ?m st1 = Some (Returned (Some (?m\<lparr>ml_flags := or_flags (n # names) (ml_flags ?m)\<rparr>), st2))"
    "before env st2 (CHR 0x0A # ws @ w @ R)" "keeps st1 st2"
    by auto
  then show ?case using f st1 keeps_trans [of st st1 st2] by (auto simp: flags_loop.simps [of env STRING m])
qed

section \<open>Flags\<close>

lemma single_bit: "f AND 2 ^ k = 0 \<or> f AND 2 ^ k = (2 ^ k :: int)"
  by (cases "bit f k") (auto intro!: bit_eqI simp: bit_and_iff bit_exp_iff)

lemma or_single_bit: "(\<exists>k. m = 2 ^ k) \<Longrightarrow> (if f AND m \<noteq> 0 then x OR m else x) = x OR (f AND m)" for f m x :: int
proof -
  assume "\<exists>k. m = 2 ^ k"
  then have "f AND m = 0 \<or> f AND m = m" using single_bit by blast
  then show ?thesis by auto
qed

lemma or_flags_table:
  assumes "\<forall>(m, n)\<in>set tab. flag_of n = Some m \<and> (\<exists>k. m = 2 ^ k)"
  shows "or_flags (map snd (filter (\<lambda>(m, n). f AND m \<noteq> 0) tab)) x = x OR (f AND foldr (OR) (map fst tab) 0)"
  using assms
proof (induction tab arbitrary: x)
  case (Cons p tab)
  obtain m n where p: "p = (m, n)" by force
  have "or_flags (map snd (filter (\<lambda>(m, n). f AND m \<noteq> 0) (p # tab))) x =
      or_flags (map snd (filter (\<lambda>(m, n). f AND m \<noteq> 0) tab)) (if f AND m \<noteq> 0 then x OR m else x)"
    using Cons.prems p by simp
  also have "\<dots> = (x OR (f AND m)) OR (f AND foldr (OR) (map fst tab) 0)"
    using Cons.IH Cons.prems p or_single_bit [of m f x] by simp
  finally show ?case using p by (simp add: bit.conj_disj_distrib or.assoc)
qed simp

definition set_flags :: "int \<Rightarrow> string list" where
  "set_flags f = map snd (filter (\<lambda>(m, n). f AND m \<noteq> 0) modeFlagTab)"

definition known_flags :: "int \<Rightarrow> bool" where
  "known_flags f \<longleftrightarrow> f AND 0x1BFF = f"

lemma flag_names: "list_all (\<lambda>(m, n). flag_of n = Some m \<and> lex_ok (Str n)) (butlast modeFlagTab)"
  by code_simp

lemma flag_table:
  "modeFlagTab = butlast modeFlagTab @ [(0x0400, ''BCast'')]" "foldr (OR) (map fst (butlast modeFlagTab)) 0 = (0x09FF :: int)"
  "\<forall>(m, n)\<in>set (butlast modeFlagTab). \<exists>k. m = 2 ^ k"
proof -
  have "m \<in> {2 ^ 0, 2 ^ 1, 2 ^ 2, 2 ^ 3, 2 ^ 4, 2 ^ 5, 2 ^ 6, 2 ^ 7, 2 ^ 8, 2 ^ 11}" if "(m, n) \<in> set (butlast modeFlagTab)" for m n
    using that by (auto simp: modeFlagTab_def)
  then show "\<forall>(m, n)\<in>set (butlast modeFlagTab). \<exists>k. m = 2 ^ k" by fast
qed (simp_all add: modeFlagTab_def)

lemma no_broadcast: "known_flags f \<Longrightarrow> set_flags f = map snd (filter (\<lambda>(m, n). f AND m \<noteq> 0) (butlast modeFlagTab))"
proof -
  assume "known_flags f"
  then have "f AND 0x0400 = f AND (0x1BFF AND 0x0400)" by (metis known_flags_def and.assoc)
  then have "f AND 0x0400 = 0" by simp
  then show ?thesis unfolding set_flags_def by (subst flag_table(1)) simp
qed

lemma set_flags_ok: "known_flags f \<Longrightarrow> list_all flag_ok (set_flags f)"
  using flag_names by (auto simp: no_broadcast list_all_iff flag_ok_def)

lemma set_flags_value: "known_flags f \<Longrightarrow> or_flags (set_flags f) 0 = f AND 0x09FF"
proof -
  have "\<forall>(m, n)\<in>set (butlast modeFlagTab). flag_of n = Some m \<and> (\<exists>k. m = 2 ^ k)"
    using flag_names flag_table(3) by (fastforce simp: list_all_iff)
  from or_flags_table [OF this, of f 0] show "known_flags f \<Longrightarrow> ?thesis" by (simp add: no_broadcast flag_table(2))
qed

lemma all_flags_value:
  assumes "known_flags f" "x = f AND 0x09FF"
    and "y = (if f AND XF86CONF_HSKEW \<noteq> 0 then x OR XF86CONF_HSKEW else x)" "z = (if f AND XF86CONF_VSCAN \<noteq> 0 then y OR XF86CONF_VSCAN else y)"
  shows "z = f"
proof -
  have "XF86CONF_HSKEW = 2 ^ 9" "XF86CONF_VSCAN = 2 ^ 12" by (simp_all add: XF86CONF_HSKEW_def XF86CONF_VSCAN_def)
  then have "\<exists>k. XF86CONF_HSKEW = 2 ^ k" "\<exists>k. XF86CONF_VSCAN = 2 ^ k" by blast+
  then have "y = x OR (f AND XF86CONF_HSKEW)" "z = y OR (f AND XF86CONF_VSCAN)"
    unfolding assms(3,4) by (simp_all only: or_single_bit)
  then have "z = (f AND 0x09FF) OR (f AND XF86CONF_HSKEW) OR (f AND XF86CONF_VSCAN)" unfolding assms(2) by (simp only: or.assoc)
  also have "\<dots> = f AND (0x09FF OR XF86CONF_HSKEW OR XF86CONF_VSCAN)" by (simp only: bit.conj_disj_distrib)
  finally show ?thesis using assms(1) by (simp add: XF86CONF_HSKEW_def XF86CONF_VSCAN_def known_flags_def)
qed

text \<open>The text of the flags.\<close>

lemma flag_loop_text:
  "flag_loop tab f ws True = flags_text (map snd (filter (\<lambda>(m, n). f AND m \<noteq> 0) tab)) @ NL"
  "flag_loop tab f ws False =
    (case map snd (filter (\<lambda>(m, n). f AND m \<noteq> 0) tab) of [] \<Rightarrow> [] | n # ns \<Rightarrow> xf86printFields ws [''Flags''] @ quoted n @ flags_text ns @ NL)"
proof -
  show t: "flag_loop tab f ws True = flags_text (map snd (filter (\<lambda>(m, n). f AND m \<noteq> 0) tab)) @ NL" for tab
    by (induction tab) (auto simp: flags_text_def)
  show "flag_loop tab f ws False = (case map snd (filter (\<lambda>(m, n). f AND m \<noteq> 0) tab) of [] \<Rightarrow> []
      | n # ns \<Rightarrow> xf86printFields ws [''Flags''] @ quoted n @ flags_text ns @ NL)"
    by (induction tab) (auto simp: t)
qed

end
