(* ===== verification/Fbc_Path.thy ===== *)
theory Fbc_Path
  imports Fbc_Token
begin

text \<open>
  Finding and opening a configuration file (\<^verbatim>\<open>components/x11/app/gfx-utils/sun-src/fbconf_xorg/xf86/scan.c\<close>): the safety of a
  path, the escapes of a path template, and the search. The environment variables, the name of the host and the
  files that can be opened are parameters.
\<close>

section \<open>Paths\<close>

definition xf86pathIsAbsolute :: "string option \<Rightarrow> bool" where
  "xf86pathIsAbsolute path = (case path of None \<Rightarrow> False | Some p \<Rightarrow> p \<noteq> [] \<and> hd p = CHR ''/'')"

text \<open>\<open>strstr\<close>\<close>

fun occurs :: "string \<Rightarrow> string \<Rightarrow> bool" where
  "occurs pat [] = (pat = [])"
| "occurs pat (c # cs) = (take (length pat) (c # cs) = pat \<or> occurs pat cs)"

definition xf86pathIsSafe :: "string \<Rightarrow> bool" where
  "xf86pathIsSafe path =
     (if xf86pathIsAbsolute (Some path) then False
      else if path = ''..'' then False
      else if take 3 path = ''../'' then False
      else if 3 < length path \<and> drop (length path - 3) path = ''/..'' then False
      else if occurs ''/../'' path then False
      else True)"

section \<open>Templates\<close>

record path_env =
  host_name :: "string option"
  xorgconfig :: "string option"
  home_dir :: "string option"
  fopen :: "string \<Rightarrow> (nat \<times> string) option"

definition PATH_MAX :: nat where "PATH_MAX = 1024"

text \<open>
  What \<open>DoSubstitution\<close> works on: the next memory request, the name of the host once it is known, whether there is
  memory for the result, the result, and whether the name from the command line is in it. A branch that gives up
  returns \<open>False\<close>; without memory the result is written through a null pointer.
\<close>

record subst =
  su_req :: nat
  su_host :: "string option"
  su_mem :: bool
  su_result :: string
  su_cmdline :: bool

definition append_str :: "string \<Rightarrow> subst \<Rightarrow> (bool \<times> subst) fbc_run" where
  "append_str s u =
     (if PATH_MAX < length s + length (su_result u) then Returned (False, u)
      else if \<not> su_mem u then Undefined
      else Returned (True, u\<lparr>su_result := su_result u @ s\<rparr>))"

definition append_char :: "char \<Rightarrow> subst \<Rightarrow> (bool \<times> subst) fbc_run" where
  "append_char c u =
     (if \<not> su_mem u then Undefined
      else let r = su_result u @ [c] in Returned (length r \<le> PATH_MAX, u\<lparr>su_result := r\<rparr>))"

definition append_if :: "(string \<Rightarrow> bool) \<Rightarrow> string option \<Rightarrow> subst \<Rightarrow> (bool \<times> subst) fbc_run" where
  "append_if ok s u = (case s of None \<Rightarrow> Returned (False, u) | Some t \<Rightarrow> if ok t then append_str t u else Returned (False, u))"

definition cmdline_used :: "(bool \<times> subst) fbc_run \<Rightarrow> (bool \<times> subst) fbc_run" where
  "cmdline_used r = run_bind r (\<lambda>(ok, u). Returned (ok, if ok then u\<lparr>su_cmdline := True\<rparr> else u))"

definition find_host :: "env \<Rightarrow> path_env \<Rightarrow> subst \<Rightarrow> subst" where
  "find_host env pe u =
     (if su_host u \<noteq> None then u
      else u\<lparr>su_req := su_req u + 1, su_host := (if mem_ok env (su_req u) then host_name pe else None)\<rparr>)"

definition is_absolute :: "string \<Rightarrow> bool" where
  "is_absolute p = xf86pathIsAbsolute (Some p)"

definition escape :: "env \<Rightarrow> path_env \<Rightarrow> string option \<Rightarrow> string option \<Rightarrow> string \<Rightarrow> char \<Rightarrow> subst \<Rightarrow> (bool \<times> subst) fbc_run" where
  "escape env pe cmdline projroot XConfigFile c u =
     (if c = CHR ''A'' then cmdline_used (append_if is_absolute cmdline u)
      else if c = CHR ''R'' then cmdline_used (append_if (\<lambda>p. \<not> is_absolute p) cmdline u)
      else if c = CHR ''S'' then cmdline_used (append_if xf86pathIsSafe cmdline u)
      else if c = CHR ''X'' then append_str XConfigFile u
      else if c = CHR ''H'' then
        (let u1 = find_host env pe u in case su_host u1 of None \<Rightarrow> Returned (True, u1) | Some h \<Rightarrow> append_str h u1)
      else if c = CHR ''E'' then append_if is_absolute (xorgconfig pe) u
      else if c = CHR ''F'' then append_if (\<lambda>p. \<not> is_absolute p) (xorgconfig pe) u
      else if c = CHR ''G'' then append_if xf86pathIsSafe (xorgconfig pe) u
      else if c = CHR ''D'' then append_if is_absolute (home_dir pe) u
      else if c = CHR ''P'' then append_if is_absolute projroot u
      else if c = CHR ''M'' then append_str ''4'' u
      else if c = CHR ''%'' then append_char (CHR ''%'') u
      else Returned (False, u))"

text \<open>A percent sign at the end of the template is followed by the end of the string, which is no escape.\<close>

fun subst_loop :: "env \<Rightarrow> path_env \<Rightarrow> string option \<Rightarrow> string option \<Rightarrow> string \<Rightarrow> string \<Rightarrow> subst \<Rightarrow> (bool \<times> subst) fbc_run" where
  "subst_loop env pe cmdline projroot xf [] u = (if \<not> su_mem u then Undefined else Returned (True, u))"
| "subst_loop env pe cmdline projroot xf (c # t) u =
     (if c \<noteq> CHR ''%''
      then run_bind (append_char c u) (\<lambda>(ok, u1). if ok then subst_loop env pe cmdline projroot xf t u1 else Returned (False, u1))
      else
        (case t of
           [] \<Rightarrow> Returned (False, u)
         | d # t1 \<Rightarrow>
             run_bind (escape env pe cmdline projroot xf d u) (\<lambda>(ok, u1). if ok then subst_loop env pe cmdline projroot xf t1 u1 else Returned (False, u1))))"

definition DoSubstitution :: "env \<Rightarrow> path_env \<Rightarrow> string \<Rightarrow> string option \<Rightarrow> string option \<Rightarrow> string \<Rightarrow> nat \<Rightarrow> string option \<Rightarrow> (string option \<times> subst) fbc_run" where
  "DoSubstitution env pe template cmdline projroot XConfigFile req host =
     run_bind (subst_loop env pe cmdline projroot XConfigFile template
         \<lparr>su_req = req + 1, su_host = host, su_mem = mem_ok env req, su_result = [], su_cmdline = False\<rparr>) (\<lambda>(ok, u).
       Returned (if ok then Some (su_result u) else None, u))"

section \<open>The search\<close>

text \<open>\<open>strtok\<close> with a comma: empty parts are skipped.\<close>

fun split_at :: "char \<Rightarrow> string \<Rightarrow> string list" where
  "split_at sep [] = [[]]"
| "split_at sep (c # cs) =
     (let ps = split_at sep cs in if c = sep then [] # ps else (c # hd ps) # tl ps)"

definition templates :: "string \<Rightarrow> string list" where
  "templates path = filter (\<lambda>t. t \<noteq> []) (split_at (CHR '','') path)"

definition DEFAULT_CONF_PATH :: string where
  "DEFAULT_CONF_PATH = ''/etc/X11/%S,%P/etc/X11/%S,/etc/X11/%G,%P/etc/X11/%G,/etc/X11/%X-%M,/etc/X11/%X,/etc/%X,%P/etc/X11/%X.%H,%P/etc/X11/%X-%M,%P/etc/X11/%X,%P/lib/X11/%X.%H,%P/lib/X11/%X-%M,%P/lib/X11/%X''"

type_synonym opened = "(string \<times> nat \<times> string) option"

fun try_templates :: "env \<Rightarrow> path_env \<Rightarrow> string option \<Rightarrow> string option \<Rightarrow> string \<Rightarrow> string list \<Rightarrow> nat \<Rightarrow> string option \<Rightarrow> (opened \<times> nat \<times> string option) fbc_run" where
  "try_templates env pe cmdline projroot xf [] req host = Returned (None, req, host)"
| "try_templates env pe cmdline projroot xf (t # ts) req host =
     run_bind (DoSubstitution env pe t cmdline projroot xf req host) (\<lambda>(path, u).
       case path of
         None \<Rightarrow> try_templates env pe cmdline projroot xf ts (su_req u) (su_host u)
       | Some p \<Rightarrow>
           (case (if cmdline = None \<or> su_cmdline u then fopen pe p else None) of
              None \<Rightarrow> try_templates env pe cmdline projroot xf ts (su_req u) (su_host u)
            | Some (f, contents) \<Rightarrow> Returned (Some (p, f, contents), su_req u, su_host u)))"

fun try_names :: "env \<Rightarrow> path_env \<Rightarrow> string option \<Rightarrow> string option \<Rightarrow> string list \<Rightarrow> string list \<Rightarrow> nat \<Rightarrow> string option \<Rightarrow> (opened \<times> nat \<times> string option) fbc_run" where
  "try_names env pe cmdline projroot ts [] req host = Returned (None, req, host)"
| "try_names env pe cmdline projroot ts (xf # xfs) req host =
     run_bind (try_templates env pe cmdline projroot xf ts req host) (\<lambda>(r, req1, host1).
       case r of None \<Rightarrow> try_names env pe cmdline projroot ts xfs req1 host1 | Some x \<Rightarrow> Returned (Some x, req1, host1))"

definition project_root :: "string option \<Rightarrow> string" where
  "project_root projroot = (case projroot of None \<Rightarrow> ''/usr/X11R6'' | Some p \<Rightarrow> if p = [] then ''/usr/X11R6'' else p)"

text \<open>The variables of the scanner are initialised before the search. Without a file there is nothing to read.\<close>

definition xf86openConfigFileIn ::
  "env \<Rightarrow> path_env \<Rightarrow> string option \<Rightarrow> string option \<Rightarrow> string option \<Rightarrow> scanner \<Rightarrow> string option \<Rightarrow> (string option \<times> scanner \<times> string option) fbc_run" where
  "xf86openConfigFileIn env pe path cmdline projroot st host =
     (let st1 = st\<lparr>sc_line_no := 0, sc_at := 0, sc_buf := [], sc_push := LOCK_TOKEN, sc_stream := [], sc_req := sc_req st + 1\<rparr>;
          path1 = (case path of None \<Rightarrow> DEFAULT_CONF_PATH | Some p \<Rightarrow> if p = [] then DEFAULT_CONF_PATH else p)
      in if \<not> mem_ok env (sc_req st) then Returned (None, st1, host)
         else run_bind (try_names env pe cmdline (Some (project_root projroot)) (templates path1) [''xorg.conf'', ''XF86Config''] (sc_req st + 1) host) (\<lambda>(r, req, host1).
           case r of
             None \<Rightarrow> Returned (None, st1\<lparr>sc_req := req\<rparr>, host1)
           | Some (p, f, contents) \<Rightarrow> Returned (Some p, st1\<lparr>sc_req := req, sc_stream := contents, sc_file := f, sc_pos := 0\<rparr>, host1)))"

definition xf86openConfigFile ::
  "env \<Rightarrow> path_env \<Rightarrow> string option \<Rightarrow> string option \<Rightarrow> string option \<Rightarrow> scanner \<Rightarrow> string option \<Rightarrow> (string option \<times> scanner \<times> string option) fbc_run" where
  "xf86openConfigFile env pe path cmdline projroot st host =
     run_bind (xf86openConfigFileIn env pe path cmdline projroot st host) (\<lambda>(p, st1, host1).
       let st2 = st1\<lparr>sc_req := sc_req st1 + 2\<rparr>
       in if \<not> mem_ok env (sc_req st1) \<or> \<not> mem_ok env (sc_req st1 + 1) then Returned (None, st2, host1)
          else Returned (p, st2\<lparr>sc_len := CONFIG_BUF_LEN, sc_rlen := CONFIG_BUF_LEN, sc_buf := []\<rparr>, host1))"

section \<open>Safe paths\<close>

lemma split_at_nonempty [simp]: "split_at s p \<noteq> []"
  by (cases p) (simp_all add: Let_def)

lemma occurs_iff: "occurs pat p \<longleftrightarrow> (\<exists>u v. p = u @ pat @ v)"
proof (induction p)
  case (Cons c p)
  have "take (length pat) (c # p) = pat \<longleftrightarrow> (\<exists>v. c # p = pat @ v)"
    by (metis append_eq_conv_conj append_take_drop_id)
  then show ?case using Cons by (simp add: Cons_eq_append_conv) blast
qed auto

lemma split_at_append: "split_at s (u @ s # v) = split_at s u @ split_at s v"
  by (induction u) (auto simp: Let_def neq_Nil_conv)

lemma split_at_whole: "s \<notin> set u \<Longrightarrow> split_at s u = [u]"
  by (induction u) (auto simp: Let_def)

lemma split_at_join: "concat (map (\<lambda>q. s # q) (split_at s p)) = s # p"
proof (induction p)
  case (Cons c p)
  then show ?case by (cases "split_at s p") (auto simp: Let_def)
qed simp

lemma split_at_parts: "q \<in> set (split_at s p) \<Longrightarrow> s \<notin> set q"
proof (induction p arbitrary: q)
  case (Cons c p)
  then show ?case by (cases "split_at s p") (auto simp: Let_def split: if_splits)
qed simp

text \<open>A part of a path stands at the start or after a separator, and at the end or before a separator.\<close>

lemma split_at_iff: "q \<in> set (split_at s p) \<longleftrightarrow> s \<notin> set q \<and>
    (p = q \<or> (\<exists>v. p = q @ s # v) \<or> (\<exists>u. p = u @ s # q) \<or> (\<exists>u v. p = u @ s # q @ s # v))" (is "?l \<longleftrightarrow> ?r")
proof
  assume ?l
  then obtain xs ys where x: "split_at s p = xs @ q # ys" by (meson split_list)
  define u v where "u = concat (map (\<lambda>q. s # q) xs)" and "v = concat (map (\<lambda>q. s # q) ys)"
  have "s # p = u @ s # q @ v" using split_at_join [of s p] by (simp add: x u_def v_def)
  moreover have "u = [] \<or> (\<exists>w. u = s # w)" by (cases xs) (simp_all add: u_def)
  moreover have "v = [] \<or> (\<exists>w. v = s # w)" by (cases ys) (simp_all add: v_def)
  ultimately show ?r using split_at_parts [OF \<open>?l\<close>] by (elim disjE exE; simp; blast)
next
  assume ?r
  then show ?l using split_at_whole [of s q] by (auto simp: split_at_append)
qed

text \<open>
  A path is safe exactly when it is relative and none of its elements is the parent directory.
\<close>

theorem safe_paths:
  "xf86pathIsSafe p \<longleftrightarrow> \<not> xf86pathIsAbsolute (Some p) \<and> ''..'' \<notin> set (split_at (CHR ''/'') p)"
proof -
  have "take 3 p = ''../'' \<longleftrightarrow> (\<exists>v. p = ''..'' @ CHR ''/'' # v)"
  proof
    assume "take 3 p = ''../''"
    then have "p = ''../'' @ drop 3 p" by (metis append_take_drop_id)
    then show "\<exists>v. p = ''..'' @ CHR ''/'' # v" by auto
  qed auto
  moreover have "3 < length p \<and> drop (length p - 3) p = ''/..'' \<longleftrightarrow> p \<noteq> ''/..'' \<and> (\<exists>u. p = u @ CHR ''/'' # ''..'')"
  proof
    assume "3 < length p \<and> drop (length p - 3) p = ''/..''"
    then show "p \<noteq> ''/..'' \<and> (\<exists>u. p = u @ CHR ''/'' # ''..'')" by (metis append_take_drop_id length_Cons less_irrefl list.size(3) numeral_3_eq_3)
  qed (auto simp: neq_Nil_conv)
  moreover have "occurs ''/../'' p \<longleftrightarrow> (\<exists>u v. p = u @ CHR ''/'' # ''..'' @ CHR ''/'' # v)" by (simp add: occurs_iff)
  ultimately show ?thesis unfolding xf86pathIsSafe_def split_at_iff
    by (auto simp: xf86pathIsAbsolute_def)
qed

section \<open>What is opened\<close>

lemmas append_defs = append_str_def append_char_def append_if_def cmdline_used_def

text \<open>The result always fits into its buffer, and into a path when the template has been expanded.\<close>

definition fits :: "subst \<Rightarrow> bool \<Rightarrow> bool" where
  "fits u ok \<longleftrightarrow> length (su_result u) \<le> PATH_MAX + of_bool (\<not> ok)"

lemma fits_weaken: "fits u True \<Longrightarrow> fits u ok"
  by (simp add: fits_def)

lemma fits_cmdline [simp]: "fits (u\<lparr>su_cmdline := b\<rparr>) ok = fits u ok"
  by (simp add: fits_def)

lemma append_fits:
  "fits u True \<Longrightarrow> append_str s u = Returned (ok, u1) \<Longrightarrow> fits u1 ok"
  "fits u True \<Longrightarrow> append_char c u = Returned (ok, u1) \<Longrightarrow> fits u1 ok"
  by (auto simp: append_defs fits_def Let_def split: if_splits)

lemma append_if_fits: "fits u True \<Longrightarrow> append_if P s u = Returned (ok, u1) \<Longrightarrow> fits u1 ok"
  by (auto simp: append_if_def intro: append_fits(1) fits_weaken split: option.splits if_splits)

lemma cmdline_used_fits: "fits u True \<Longrightarrow> cmdline_used (append_if P s u) = Returned (ok, u1) \<Longrightarrow> fits u1 ok"
  by (cases "append_if P s u") (auto simp: cmdline_used_def split: if_splits dest: append_if_fits)

lemma escape_fits: "fits u True \<Longrightarrow> escape env pe cmdline projroot xf c u = Returned (ok, u1) \<Longrightarrow> fits u1 ok"
proof -
  assume f: "fits u True" and e: "escape env pe cmdline projroot xf c u = Returned (ok, u1)"
  have h: "fits (find_host env pe u) True" using f by (simp add: fits_def find_host_def)
  have "(case su_host (find_host env pe u) of None \<Rightarrow> Returned (True, find_host env pe u) | Some h \<Rightarrow> append_str h (find_host env pe u)) = Returned (ok, u1) \<Longrightarrow> fits u1 ok"
    using h append_fits(1) [OF h] by (auto split: option.splits)
  then show ?thesis using e append_fits [OF f] append_if_fits [OF f] cmdline_used_fits [OF f] f
    unfolding escape_def Let_def by (auto split: if_splits intro: fits_weaken)
qed

lemma subst_loop_fits: "fits u True \<Longrightarrow> subst_loop env pe cmdline projroot xf t u = Returned (ok, u1) \<Longrightarrow> fits u1 ok"
proof (induction env pe cmdline projroot xf t u rule: subst_loop.induct)
  case (2 env pe cmdline projroot xf c t u)
  show ?case
  proof (cases "c = CHR ''%''")
    case False
    then show ?thesis using 2 append_fits(2) [of u c] by (cases "append_char c u") (auto split: if_splits)
  next
    case True
    show ?thesis
    proof (cases t)
      case Nil
      then show ?thesis using 2 True by (auto simp: fits_def)
    next
      case (Cons d t1)
      then show ?thesis using 2 True escape_fits [of u env pe cmdline projroot xf d]
        by (cases "escape env pe cmdline projroot xf d u") (auto split: if_splits)
    qed
  qed
qed (auto split: if_splits)

lemma substitution_fits:
  "DoSubstitution env pe t cmdline projroot xf req host = Returned (Some p, u) \<Longrightarrow> length p \<le> PATH_MAX"
  using subst_loop_fits [of "\<lparr>su_req = req + 1, su_host = host, su_mem = mem_ok env req, su_result = [], su_cmdline = False\<rparr>" env pe cmdline projroot xf t]
  by (cases "subst_loop env pe cmdline projroot xf t \<lparr>su_req = req + 1, su_host = host, su_mem = mem_ok env req, su_result = [], su_cmdline = False\<rparr>")
    (auto simp: DoSubstitution_def fits_def split: if_splits)

text \<open>A file that is opened comes from one of the templates, and is named on the command line if any file is.\<close>

definition found_by :: "env \<Rightarrow> path_env \<Rightarrow> string option \<Rightarrow> string option \<Rightarrow> string \<Rightarrow> string \<Rightarrow> string \<Rightarrow> nat \<Rightarrow> string \<Rightarrow> bool" where
  "found_by env pe cmdline projroot xf t p f contents \<longleftrightarrow>
     (\<exists>req host u. DoSubstitution env pe t cmdline projroot xf req host = Returned (Some p, u) \<and> fopen pe p = Some (f, contents) \<and> (cmdline = None \<or> su_cmdline u))"

lemma try_templates_found:
  "try_templates env pe cmdline projroot xf ts req host = Returned (Some (p, f, contents), r) \<Longrightarrow> \<exists>t\<in>set ts. found_by env pe cmdline projroot xf t p f contents"
proof (induction ts arbitrary: req host)
  case (Cons t ts)
  show ?case
  proof (cases "DoSubstitution env pe t cmdline projroot xf req host")
    case (Returned x)
    obtain path u where x: "x = (path, u)" by force
    show ?thesis
    proof (cases "case path of None \<Rightarrow> None | Some q \<Rightarrow> if cmdline = None \<or> su_cmdline u then fopen pe q else None")
      case None
      then have "try_templates env pe cmdline projroot xf ts (su_req u) (su_host u) = Returned (Some (p, f, contents), r)"
        using Cons.prems Returned x by (auto split: option.splits)
      then show ?thesis using Cons.IH by auto
    next
      case (Some y)
      then have "found_by env pe cmdline projroot xf t p f contents"
        using Cons.prems Returned x by (auto simp: found_by_def split: option.splits if_splits)
      then show ?thesis by simp
    qed
  qed (use Cons.prems in simp_all)
qed simp

lemma try_names_found:
  "try_names env pe cmdline projroot ts xfs req host = Returned (Some (p, f, contents), r) \<Longrightarrow> \<exists>xf\<in>set xfs. \<exists>t\<in>set ts. found_by env pe cmdline projroot xf t p f contents"
proof (induction xfs arbitrary: req host)
  case (Cons xf xfs)
  show ?case
  proof (cases "try_templates env pe cmdline projroot xf ts req host")
    case (Returned x)
    obtain y req1 host1 where x: "x = (y, req1, host1)" by (cases x) auto
    show ?thesis
    proof (cases y)
      case None
      then show ?thesis using Cons Returned x by auto
    next
      case (Some z)
      then have "z = (p, f, contents)" using Cons.prems Returned x by simp
      then show ?thesis using try_templates_found [of env pe cmdline projroot xf ts req host p f contents] Returned x Some by auto
    qed
  qed (use Cons.prems in simp_all)
qed simp

text \<open>Whether a template names the file from the command line.\<close>

fun uses :: "string \<Rightarrow> bool" where
  "uses [] = False"
| "uses (c # t) = (if c \<noteq> CHR ''%'' then uses t else case t of [] \<Rightarrow> False | d # t1 \<Rightarrow> d \<in> set ''ARS'' \<or> uses t1)"

lemma append_cmdline:
  "append_str s u = Returned (ok, u1) \<Longrightarrow> su_cmdline u1 = su_cmdline u" "append_char c u = Returned (ok, u1) \<Longrightarrow> su_cmdline u1 = su_cmdline u"
  "append_if P x u = Returned (ok, u1) \<Longrightarrow> su_cmdline u1 = su_cmdline u"
  by (auto simp: append_defs Let_def split: if_splits option.splits)

lemma host_cmdline:
  "(case su_host (find_host env pe u) of None \<Rightarrow> Returned (True, find_host env pe u) | Some h \<Rightarrow> append_str h (find_host env pe u)) = Returned (ok, u1) \<Longrightarrow>
    su_cmdline u1 = su_cmdline u"
proof -
  have "su_cmdline (find_host env pe u) = su_cmdline u" by (simp add: find_host_def)
  then show "(case su_host (find_host env pe u) of None \<Rightarrow> Returned (True, find_host env pe u) | Some h \<Rightarrow> append_str h (find_host env pe u)) = Returned (ok, u1) \<Longrightarrow> ?thesis"
    using append_cmdline(1) [of _ "find_host env pe u" ok u1] by (auto split: option.splits)
qed

lemma escape_cmdline:
  assumes "escape env pe cmdline projroot xf c u = Returned (ok, u1)" "c \<notin> set ''ARS''"
  shows "su_cmdline u1 = su_cmdline u"
proof -
  have "c \<noteq> CHR ''A''" "c \<noteq> CHR ''R''" "c \<noteq> CHR ''S''" using assms(2) by auto
  with assms(1) show ?thesis unfolding escape_def Let_def
    by (simp only: if_False split: if_split_asm) (erule append_cmdline host_cmdline | simp)+
qed

lemma subst_loop_cmdline:
  "subst_loop env pe cmdline projroot xf t u = Returned (ok, u1) \<Longrightarrow> \<not> uses t \<Longrightarrow> su_cmdline u1 = su_cmdline u"
proof (induction env pe cmdline projroot xf t u rule: subst_loop.induct)
  case (2 env pe cmdline projroot xf c t u)
  show ?case
  proof (cases "c = CHR ''%''")
    case False
    then obtain ok' v where v: "append_char c u = Returned (ok', v)" using 2 by (cases "append_char c u") auto
    then have "su_cmdline v = su_cmdline u" by (rule append_cmdline(2))
    then show ?thesis using 2(1) [OF False TrueI, of v] 2(3,4) False v by (cases ok') auto
  next
    case True
    show ?thesis
    proof (cases t)
      case Nil
      then show ?thesis using 2 True by simp
    next
      case (Cons d t1)
      then obtain ok' v where v: "escape env pe cmdline projroot xf d u = Returned (ok', v)"
        using 2(3) True by (cases "escape env pe cmdline projroot xf d u") auto
      have "su_cmdline v = su_cmdline u" using 2(4) True Cons by (intro escape_cmdline [OF v]) auto
      then show ?thesis using 2(2) [OF _ Cons TrueI, of v] 2(3,4) True Cons v by (cases ok') auto
    qed
  qed
qed (auto split: if_splits)

lemma found_uses: "found_by env pe (Some c) projroot xf t p f contents \<Longrightarrow> uses t"
proof (rule ccontr)
  assume "found_by env pe (Some c) projroot xf t p f contents" and n: "\<not> uses t"
  then obtain req host u where "DoSubstitution env pe t (Some c) projroot xf req host = Returned (Some p, u)" "su_cmdline u" by (auto simp: found_by_def)
  then show False using subst_loop_cmdline [OF _ n, of env pe "Some c" projroot xf "\<lparr>su_req = req + 1, su_host = host, su_mem = mem_ok env req, su_result = [], su_cmdline = False\<rparr>"]
    unfolding DoSubstitution_def
    by (cases "subst_loop env pe (Some c) projroot xf t \<lparr>su_req = req + 1, su_host = host, su_mem = mem_ok env req, su_result = [], su_cmdline = False\<rparr>") auto
qed

text \<open>What a template with one use of the name makes of it.\<close>

lemma plain_prefix:
  assumes "CHR ''%'' \<notin> set w" "subst_loop env pe cmdline projroot xf (w @ t) u = Returned (True, u1)"
  shows "subst_loop env pe cmdline projroot xf t (u\<lparr>su_result := su_result u @ w\<rparr>) = Returned (True, u1)"
  using assms
proof (induction w arbitrary: u)
  case (Cons c w)
  obtain v where v: "append_char c u = Returned (True, v)" "subst_loop env pe cmdline projroot xf (w @ t) v = Returned (True, u1)"
    using Cons.prems by (cases "append_char c u") (auto split: if_splits)
  moreover have "v = u\<lparr>su_result := su_result u @ [c]\<rparr>" using v(1) by (auto simp: append_char_def Let_def split: if_splits)
  ultimately show ?case using Cons.IH [of v] Cons.prems(1) by simp
qed simp

lemma safe_escape:
  "subst_loop env pe cmdline projroot xf (CHR ''%'' # CHR ''S'' # t) u = Returned (True, u1) \<Longrightarrow>
    \<exists>c. cmdline = Some c \<and> xf86pathIsSafe c \<and> subst_loop env pe cmdline projroot xf t (u\<lparr>su_result := su_result u @ c, su_cmdline := True\<rparr>) = Returned (True, u1)"
  by (cases cmdline) (auto simp: escape_def append_defs split: if_splits)

lemma root_escape:
  "subst_loop env pe cmdline projroot xf (CHR ''%'' # CHR ''P'' # t) u = Returned (True, u1) \<Longrightarrow>
    \<exists>r. projroot = Some r \<and> subst_loop env pe cmdline projroot xf t (u\<lparr>su_result := su_result u @ r\<rparr>) = Returned (True, u1)"
  by (cases projroot) (auto simp: escape_def append_defs split: if_splits)

lemma default_templates:
  "set (filter uses (templates DEFAULT_CONF_PATH)) = {''/etc/X11/'' @ ''%S'', ''%P'' @ ''/etc/X11/'' @ ''%S''}"
proof -
  have "filter uses (templates DEFAULT_CONF_PATH) = [''/etc/X11/'' @ ''%S'', ''%P'' @ ''/etc/X11/'' @ ''%S'']" by code_simp
  then show ?thesis by simp
qed

lemma default_found:
  assumes "found_by env pe (Some c) (Some r) xf t p f contents" "t \<in> set (templates DEFAULT_CONF_PATH)"
  shows "xf86pathIsSafe c \<and> p \<in> {''/etc/X11/'' @ c, r @ ''/etc/X11/'' @ c} \<and> fopen pe p = Some (f, contents) \<and> length p \<le> PATH_MAX"
proof -
  obtain req host u where d: "DoSubstitution env pe t (Some c) (Some r) xf req host = Returned (Some p, u)" and o: "fopen pe p = Some (f, contents)"
    using assms(1) by (auto simp: found_by_def)
  define u0 where "u0 = \<lparr>su_req = req + 1, su_host = host, su_mem = mem_ok env req, su_result = [], su_cmdline = False\<rparr>"
  obtain u1 where u1: "subst_loop env pe (Some c) (Some r) xf t u0 = Returned (True, u1)" "su_result u1 = p"
    using d unfolding DoSubstitution_def u0_def [symmetric] by (cases "subst_loop env pe (Some c) (Some r) xf t u0") (auto split: if_splits)
  have q: "CHR ''%'' \<notin> set ''/etc/X11/''" by simp
  have "t \<in> set (filter uses (templates DEFAULT_CONF_PATH))" using assms found_uses by auto
  then consider "t = ''/etc/X11/'' @ ''%S''" | "t = ''%P'' @ ''/etc/X11/'' @ ''%S''" unfolding default_templates by blast
  then have "\<exists>w\<in>{[], r}. subst_loop env pe (Some c) (Some r) xf (''/etc/X11/'' @ ''%S'') (u0\<lparr>su_result := w\<rparr>) = Returned (True, u1)"
  proof cases
    case 1
    have "u0\<lparr>su_result := []\<rparr> = u0" by (simp add: u0_def)
    then show ?thesis using u1(1) unfolding 1 by (metis insertI1)
  next
    case 2
    then have "subst_loop env pe (Some c) (Some r) xf (CHR ''%'' # CHR ''P'' # ''/etc/X11/'' @ ''%S'') u0 = Returned (True, u1)" using u1(1) by simp
    from root_escape [OF this] show ?thesis by (auto simp: u0_def)
  qed
  then obtain w where w: "w \<in> {[], r}" "subst_loop env pe (Some c) (Some r) xf (''/etc/X11/'' @ ''%S'') (u0\<lparr>su_result := w\<rparr>) = Returned (True, u1)" by blast
  from safe_escape [OF plain_prefix [OF q w(2)]]
  have "xf86pathIsSafe c" "subst_loop env pe (Some c) (Some r) xf [] (u0\<lparr>su_result := w @ ''/etc/X11/'' @ c, su_cmdline := True\<rparr>) = Returned (True, u1)"
    by auto
  then show ?thesis using w(1) o u1(2) substitution_fits [OF d] by (auto split: if_splits)
qed

text \<open>A safe name, in characters: it does not start with a separator, and two dots in it are not an element of their own.\<close>

lemma safe_characters:
  assumes "xf86pathIsSafe c"
  shows "take 1 c \<noteq> ''/''" "c = u @ ''..'' @ v \<Longrightarrow> (u \<noteq> [] \<and> last u \<noteq> CHR ''/'') \<or> (v \<noteq> [] \<and> hd v \<noteq> CHR ''/'')"
proof -
  show "take 1 c \<noteq> ''/''" using assms by (cases c) (auto simp: safe_paths xf86pathIsAbsolute_def)
  assume c: "c = u @ ''..'' @ v"
  show "(u \<noteq> [] \<and> last u \<noteq> CHR ''/'') \<or> (v \<noteq> [] \<and> hd v \<noteq> CHR ''/'')"
  proof (rule ccontr)
    assume "\<not> ?thesis"
    then have "u = [] \<or> (\<exists>w. u = w @ ''/'')" "v = [] \<or> (\<exists>w. v = ''/'' @ w)"
      by (metis append_butlast_last_id, metis append_Cons append_Nil list.collapse)
    then have "''..'' \<in> set (split_at (CHR ''/'') c)" unfolding split_at_iff c by (elim disjE exE; simp; blast)
    then show False using assms safe_paths by blast
  qed
qed

text \<open>
  C18. When a file is named and the search uses the default path, a file is opened only below the directories \<^verbatim>\<open>/etc/X11\<close> of
  the system and of the project root: the path opened is one of these two directories followed by the name that was given, the name does not start
  with a slash, and nowhere in it do two dots form an element of the path, be it at the start, at the end or in
  between. The path has at most \<^verbatim>\<open>PATH_MAX\<close> characters, not counting the null character (one more than the
  system accepts, but the buffer has room for it), and the scanner stands at the start of the file.
\<close>

theorem search_confined:
  assumes "xf86openConfigFile env pe None (Some c) projroot st host = Returned (Some p, st', host')"
  shows "take 1 c \<noteq> ''/'' \<and>
    (\<forall>u v. c = u @ ''..'' @ v \<longrightarrow> (u \<noteq> [] \<and> last u \<noteq> CHR ''/'') \<or> (v \<noteq> [] \<and> hd v \<noteq> CHR ''/'')) \<and>
    p \<in> {''/etc/X11/'' @ c, project_root projroot @ ''/etc/X11/'' @ c} \<and> length p \<le> PATH_MAX \<and>
    fopen pe p = Some (sc_file st', sc_stream st') \<and> sc_buf st' = [] \<and> sc_at st' = 0 \<and> sc_push st' = LOCK_TOKEN \<and> sc_line_no st' = 0"
proof -
  let ?names = "try_names env pe (Some c) (Some (project_root projroot)) (templates DEFAULT_CONF_PATH) [''xorg.conf'', ''XF86Config''] (sc_req st + 1) host"
  have m: "mem_ok env (sc_req st)"
    using assms by (rule contrapos_pp) (auto simp: xf86openConfigFile_def xf86openConfigFileIn_def Let_def)
  obtain f contents r where n: "?names = Returned (Some (p, f, contents), r)"
    and st': "sc_file st' = f" "sc_stream st' = contents" "sc_buf st' = []" "sc_at st' = 0" "sc_push st' = LOCK_TOKEN" "sc_line_no st' = 0"
    using assms m by (cases ?names) (auto simp: xf86openConfigFile_def xf86openConfigFileIn_def Let_def split: option.splits if_splits)
  from try_names_found [OF n] obtain xf t where "t \<in> set (templates DEFAULT_CONF_PATH)" "found_by env pe (Some c) (Some (project_root projroot)) xf t p f contents" by blast
  from default_found [OF this(2,1)] have safe: "xf86pathIsSafe c"
    and "p \<in> {''/etc/X11/'' @ c, project_root projroot @ ''/etc/X11/'' @ c} \<and> fopen pe p = Some (f, contents) \<and> length p \<le> PATH_MAX" by blast+
  then show ?thesis using st' safe_characters [OF safe] by auto
qed

definition sample_files :: path_env where
  "sample_files = \<lparr>host_name = None, xorgconfig = None, home_dir = None,
     fopen = (\<lambda>p. if p = ''/usr/X11R6/etc/X11/a'' then Some (3, ''Section'') else None)\<rparr>"

definition sample_scanner :: scanner where
  "sample_scanner = \<lparr>sc_stream = [], sc_file = 0, sc_pos = 0, sc_buf = [], sc_at = 0, sc_len = 0, sc_rlen = 0, sc_rbuf = [], sc_push = LOCK_TOKEN,
     sc_eol = False, sc_line_no = 0, sc_num = 0, sc_real = 0, sc_str = None, sc_lines = fbc_line_ER_list, sc_req = 0\<rparr>"

theorem search_confined_witness:
  "\<exists>st' h. xf86openConfigFile sample_env sample_files None (Some ''a'') None sample_scanner None = Returned (Some ''/usr/X11R6/etc/X11/a'', st', h) \<and>
    sc_stream st' = ''Section'' \<and> take 1 ''a'' \<noteq> ''/''"
proof -
  have "(case xf86openConfigFile sample_env sample_files None (Some ''a'') None sample_scanner None of
      Returned (p, st', h) \<Rightarrow> p = Some ''/usr/X11R6/etc/X11/a'' | _ \<Rightarrow> False)"
    by code_simp
  then obtain st' h where o: "xf86openConfigFile sample_env sample_files None (Some ''a'') None sample_scanner None = Returned (Some ''/usr/X11R6/etc/X11/a'', st', h)"
    by (auto split: fbc_run.splits)
  from search_confined [OF o] have "sc_stream st' = ''Section'' \<and> take 1 ''a'' \<noteq> ''/''" by (simp add: sample_files_def)
  with o show ?thesis by blast
qed

text \<open>The file the program is given by its absolute name.\<close>

lemma open_absolute:
  assumes "\<forall>k. mem_ok env k" "is_absolute file" "length file \<le> PATH_MAX" "fopen pe file = Some (f, contents)"
  shows "xf86openConfigFile env pe (Some ''%A'') (Some file) None st host =
    Returned (Some file, st\<lparr>sc_line_no := 0, sc_at := 0, sc_buf := [], sc_push := LOCK_TOKEN, sc_stream := contents, sc_req := sc_req st + 4,
      sc_file := f, sc_pos := 0, sc_len := CONFIG_BUF_LEN, sc_rlen := CONFIG_BUF_LEN\<rparr>, host)"
proof -
  have "templates ''%A'' = [''%A'']" by code_simp
  then show ?thesis using assms
    by (simp add: xf86openConfigFile_def xf86openConfigFileIn_def DoSubstitution_def escape_def append_defs Let_def)
qed

end
