(* ===== verification/Fbc_Modes_Back.thy ===== *)
theory Fbc_Modes_Back
  imports Fbc_Roundtrip Fbc_Path
begin

text \<open>
  Whole modes and Modes sections: what is written is read back as the same modes.
\<close>

section \<open>Lines and tokens\<close>

lemma final_in: "final p xs = Some a \<Longrightarrow> p = None \<Longrightarrow> a \<in> set xs"
  by (cases xs rule: rev_cases) auto

lemma inside_tail: "inside env st t \<Longrightarrow> \<exists>a. fbc_get_current_line_ER (sc_lines st) = Some a \<and> elems (sc_lines st) a \<noteq> None"
proof -
  assume i: "inside env st t"
  then obtain xs where xs: "dll (sc_lines st) xs" by (auto simp: inside_def ahead_def stands_def lines_ok_def)
  obtain a where a: "tail_ptr (sc_lines st) = Some a" using i by (auto simp: inside_def)
  have "a \<in> set xs" using xs a by (auto simp: dll_def intro: final_in)
  then have "elems (sc_lines st) a \<noteq> None" using dll_elem [OF xs] by auto
  then show ?thesis using a by (simp add: fbc_get_current_line_ER_def)
qed

lemma inside_request: "inside env st t \<Longrightarrow> inside env (st\<lparr>sc_req := sc_req st + 1\<rparr>) t"
  unfolding inside_def ahead_def using stands_request [of env st _ _ "sc_req st + 1"] by auto

lemma inside_before: "inside env st t \<Longrightarrow> before env st t"
  by (simp add: before_def)

lemma printed_words:
  "xf86printFields xf86whitespace_1 [''Mode''] = [CHR 0x09] @ ''Mode'' @ [CHR 0x09, CHR 0x09]"
  "xf86printFields xf86whitespace_2 [''DotClock''] = [CHR 0x09, CHR 0x09] @ ''DotClock'' @ [CHR 0x09]"
  "xf86printFields xf86whitespace_2 [''HTimings''] = [CHR 0x09, CHR 0x09] @ ''HTimings'' @ [CHR 0x09]"
  "xf86printFields xf86whitespace_2 [''VTimings''] = [CHR 0x09, CHR 0x09] @ ''VTimings'' @ [CHR 0x09]"
  "xf86printFields xf86whitespace_2 [''Flags''] = [CHR 0x09, CHR 0x09] @ ''Flags'' @ [CHR 0x09, CHR 0x09]"
  "xf86printFields xf86whitespace_2 [''HSkew''] = [CHR 0x09, CHR 0x09] @ ''HSkew'' @ [CHR 0x09, CHR 0x09]"
  "xf86printFields xf86whitespace_2 [''VScan''] = [CHR 0x09, CHR 0x09] @ ''VScan'' @ [CHR 0x09, CHR 0x09]"
  "xf86printFields xf86whitespace_1 [''EndMode'' @ NL] = [CHR 0x09] @ ''EndMode'' @ [CHR 0x0A, CHR 0x09]"
  by code_simp+

lemma mode_words:
  "lookup ModeTab ''DotClock'' = DOTCLOCK" "lookup ModeTab ''HTimings'' = HTIMINGS" "lookup ModeTab ''VTimings'' = VTIMINGS"
  "lookup ModeTab ''Flags'' = FLAGS" "lookup ModeTab ''HSkew'' = HSKEW" "lookup ModeTab ''VScan'' = VSCAN" "lookup ModeTab ''EndMode'' = ENDMODE"
  "lookup ModesTab ''Mode'' = MODE" "lookup ModesTab ''Identifier'' = IDENTIFIER" "lookup ModesTab ''EndSection'' = ENDSECTION"
  by code_simp+

lemma word_lexemes:
  "list_all (\<lambda>w. lex_ok (Word w)) [''DotClock'', ''HTimings'', ''VTimings'', ''Flags'', ''HSkew'', ''VScan'', ''EndMode'', ''Mode'', ''Identifier'', ''EndSection'', ''Section'']"
  by code_simp

section \<open>Entries of a mode\<close>

text \<open>
  The loop over the entries goes from one text to another, whatever else the mode holds.
\<close>

definition advances :: "env \<Rightarrow> printers \<Rightarrow> nat \<Rightarrow> mode_line \<Rightarrow> given \<Rightarrow> string \<Rightarrow> mode_line \<Rightarrow> given \<Rightarrow> string \<Rightarrow> bool" where
  "advances env pr a m had t m' had' t' \<longleftrightarrow>
     (\<forall>m1 st. mode_line.truncate m1 = m \<and> before env st t \<longrightarrow>
        (\<exists>m2 st'. mode_loop env pr a m1 had st = mode_loop env pr a m2 had' st' \<and> mode_line.truncate m2 = m' \<and> before env st' t' \<and> keeps st st'))"

lemma advances_refl: "advances env pr a m had t m had t"
  by (force simp: advances_def keeps_def)

lemma advances_trans:
  assumes "advances env pr a m had t m1 had1 t1" "advances env pr a m1 had1 t1 m2 had2 t2"
  shows "advances env pr a m had t m2 had2 t2"
  unfolding advances_def
proof (intro allI impI)
  fix n :: parsed_mode and st assume "mode_line.truncate n = m \<and> before env st t"
  then obtain n1 st1 where s1: "mode_loop env pr a n had st = mode_loop env pr a n1 had1 st1" "mode_line.truncate n1 = m1" "before env st1 t1" "keeps st st1"
    using assms(1) unfolding advances_def by blast
  then obtain n2 st2 where "mode_loop env pr a n1 had1 st1 = mode_loop env pr a n2 had2 st2" "mode_line.truncate n2 = m2" "before env st2 t2" "keeps st1 st2"
    using assms(2) unfolding advances_def by blast
  then show "\<exists>n2 st'. mode_loop env pr a n had st = mode_loop env pr a n2 had2 st' \<and> mode_line.truncate n2 = m2 \<and> before env st' t2 \<and> keeps st st'"
    using s1 keeps_trans [of st st1 st2] by (intro exI [of _ n2] exI [of _ st2]) simp
qed

text \<open>An entry: a word, a value that is read, and the line that is linked.\<close>

lemma entry_advances:
  assumes e: "good_env env" and w: "\<forall>x\<in>set ws. blank x" "lex_ok (Word w)" "word_end (hd (r @ [EOS]))" "lookup ModeTab w \<noteq> ENDMODE"
    and body: "\<And>m1 st. mode_line.truncate m1 = m \<Longrightarrow> inside env st r \<Longrightarrow>
      \<exists>m2 st2. read m1 st = Returned (Some m2, st2) \<and> mode_line.truncate m2 = m' \<and> before env st2 r' \<and> keeps st st2"
    and entry: "\<And>line m1 st. mode_entry env pr a (lookup ModeTab w) line m1 had st =
      then_parse (read m1 st) (\<lambda>m2 st2. run_bind (link_mode a line (Some print) FBC_INDENT_2 st2) (\<lambda>st3. Returned (Some (set_line line m2, had'), st3)))"
    and set_line: "\<And>line m2. mode_line.truncate (set_line line m2) = mode_line.truncate m2"
  shows "advances env pr a m had (ws @ w @ r) m' had' r'"
  unfolding advances_def
proof (intro allI impI, elim conjE)
  fix m1 :: parsed_mode and st assume m1: "mode_line.truncate m1 = m" and b: "before env st (ws @ w @ r)"
  obtain st1 where st1: "\<forall>tab. xf86getToken env tab st = Returned (lookup tab w, st1)" "inside env st1 r" "keeps st st1"
    using before_word [OF e b w(1-3)] by blast
  obtain x where x: "fbc_get_current_line_ER (sc_lines st1) = Some x" "elems (sc_lines st1) x \<noteq> None" using inside_tail [OF st1(2)] by blast
  obtain m2 st2 where st2: "read m1 st1 = Returned (Some m2, st2)" "mode_line.truncate m2 = m'" "before env st2 r'" "keeps st1 st2"
    using body [OF m1 st1(2)] by blast
  obtain st3 where st3: "link_mode a (Some x) (Some print) FBC_INDENT_2 st2 = Returned st3" "keeps st2 st3" "before env st3 r'"
    using link_before [of st2 x a "Some print" FBC_INDENT_2 env] x(2) st2(3,4) by (auto simp: keeps_def)
  have "mode_entry env pr a (lookup ModeTab w) (Some x) m1 had st1 = Returned (Some (set_line (Some x) m2, had'), st3)"
    unfolding entry by (simp add: then_parse_def st2(1) st3(1))
  then have "mode_loop env pr a m1 had st = mode_loop env pr a (set_line (Some x) m2) had' st3"
    using st1(1) x(1) w(4) by (simp add: mode_loop.simps [of env pr a m1])
  moreover have "keeps st st3" using st1(3) st2(4) st3(2) keeps_trans by blast
  ultimately show "\<exists>m2 st'. mode_loop env pr a m1 had st = mode_loop env pr a m2 had' st' \<and> mode_line.truncate m2 = m' \<and> before env st' r' \<and> keeps st st'"
    using set_line st2(2) st3(3) by blast
qed

lemma truncate_updates [simp]:
  fixes m :: parsed_mode
  shows "mode_line.truncate (m\<lparr>ml_clock := n\<rparr>) = (mode_line.truncate m)\<lparr>ml_clock := n\<rparr>"
    "mode_line.truncate (m\<lparr>ml_identifier := x\<rparr>) = (mode_line.truncate m)\<lparr>ml_identifier := x\<rparr>"
    "mode_line.truncate (m\<lparr>ml_hdisplay := n\<rparr>) = (mode_line.truncate m)\<lparr>ml_hdisplay := n\<rparr>"
    "mode_line.truncate (m\<lparr>ml_hsyncstart := n\<rparr>) = (mode_line.truncate m)\<lparr>ml_hsyncstart := n\<rparr>"
    "mode_line.truncate (m\<lparr>ml_hsyncend := n\<rparr>) = (mode_line.truncate m)\<lparr>ml_hsyncend := n\<rparr>"
    "mode_line.truncate (m\<lparr>ml_htotal := n\<rparr>) = (mode_line.truncate m)\<lparr>ml_htotal := n\<rparr>"
    "mode_line.truncate (m\<lparr>ml_vdisplay := n\<rparr>) = (mode_line.truncate m)\<lparr>ml_vdisplay := n\<rparr>"
    "mode_line.truncate (m\<lparr>ml_vsyncstart := n\<rparr>) = (mode_line.truncate m)\<lparr>ml_vsyncstart := n\<rparr>"
    "mode_line.truncate (m\<lparr>ml_vsyncend := n\<rparr>) = (mode_line.truncate m)\<lparr>ml_vsyncend := n\<rparr>"
    "mode_line.truncate (m\<lparr>ml_vtotal := n\<rparr>) = (mode_line.truncate m)\<lparr>ml_vtotal := n\<rparr>"
    "mode_line.truncate (m\<lparr>ml_flags := n\<rparr>) = (mode_line.truncate m)\<lparr>ml_flags := n\<rparr>"
    "mode_line.truncate (m\<lparr>ml_hskew := n\<rparr>) = (mode_line.truncate m)\<lparr>ml_hskew := n\<rparr>"
    "mode_line.truncate (m\<lparr>ml_vscan := n\<rparr>) = (mode_line.truncate m)\<lparr>ml_vscan := n\<rparr>"
    "mode_line.truncate (m\<lparr>ml_comment := c\<rparr>) = mode_line.truncate m"
    "mode_line.truncate (m\<lparr>ml_verbose := b\<rparr>) = mode_line.truncate m"
    "mode_line.truncate (m\<lparr>ml_dotclock_line_er := l\<rparr>) = mode_line.truncate m"
    "mode_line.truncate (m\<lparr>ml_htimings_line_er := l\<rparr>) = mode_line.truncate m"
    "mode_line.truncate (m\<lparr>ml_vtimings_line_er := l\<rparr>) = mode_line.truncate m"
    "mode_line.truncate (m\<lparr>ml_flags_line_er := l\<rparr>) = mode_line.truncate m"
    "mode_line.truncate (m\<lparr>ml_hskew_line_er := l\<rparr>) = mode_line.truncate m"
    "mode_line.truncate (m\<lparr>ml_vscan_line_er := l\<rparr>) = mode_line.truncate m"
    "mode_line.truncate (m\<lparr>ml_end_line_er := l\<rparr>) = mode_line.truncate m"
  by (simp_all add: mode_line.truncate_def)

lemma flags_truncate [simp]: "ml_flags (mode_line.truncate m) = ml_flags m"
  by (simp add: mode_line.truncate_def)

lemma truncate_flags: "mode_line.truncate m1 = m \<Longrightarrow> ml_flags m1 = ml_flags m"
  by (auto simp: mode_line.truncate_def)

lemma clock_advances:
  assumes "good_env env" "number k" "\<forall>x\<in>set ws. blank x"
  shows "advances env pr a m (d, h, v) (ws @ ''DotClock'' @ [CHR 0x09] @ show_clock k @ NL @ r) (m\<lparr>ml_clock := k\<rparr>) (True, h, v) (NL @ r)"
proof (rule entry_advances [where read = "read_clock env" and set_line = "\<lambda>line m. m\<lparr>ml_dotclock_line_er := line\<rparr>" and print = "pr Dot_clock"])
  fix m1 :: parsed_mode and st assume "mode_line.truncate m1 = m" "inside env st ([CHR 0x09] @ show_clock k @ NL @ r)"
  moreover from read_clock_value [OF assms(1) _ assms(2) _ this(2), of m1]
  obtain st' where "read_clock env m1 st = Returned (Some (m1\<lparr>ml_clock := k\<rparr>), st')" "inside env st' (NL @ r)" "keeps st st'"
    by (auto simp: blank_start_def spaces_def blank_def)
  ultimately show "\<exists>m2 st2. read_clock env m1 st = Returned (Some m2, st2) \<and> mode_line.truncate m2 = m\<lparr>ml_clock := k\<rparr> \<and> before env st2 (NL @ r) \<and> keeps st st2"
    using inside_before by (intro exI [of _ "m1\<lparr>ml_clock := k\<rparr>"] exI [of _ st']) simp
qed (use assms word_lexemes in \<open>simp_all add: mode_words mode_entry_def word_end_def stop_def\<close>)

lemma numbers_advance:
  assumes e: "good_env env" and w: "\<forall>x\<in>set ws. blank x" "lex_ok (Word w)" "lookup ModeTab w \<noteq> ENDMODE"
    and ns: "length fs = length ns" "\<forall>(ws, n)\<in>set ns. number n \<and> spaces ws" "word_end (hd (num_text ns @ NL))"
    and update: "\<And>m1. mode_line.truncate m1 = m \<Longrightarrow> mode_line.truncate (apply_numbers fs (map snd ns) m1) = m'"
    and entry: "\<And>line m1 st. mode_entry env pr a (lookup ModeTab w) line m1 had st =
      then_parse (read_numbers env fs m1 st) (\<lambda>m2 st2. run_bind (link_mode a line (Some print) FBC_INDENT_2 st2) (\<lambda>st3. Returned (Some (set_line line m2, had'), st3)))"
    and set_line: "\<And>line m2. mode_line.truncate (set_line line m2) = mode_line.truncate m2"
  shows "advances env pr a m had (ws @ w @ num_text ns @ NL @ r) m' had' (NL @ r)"
proof (rule entry_advances [OF e w(1,2) _ w(3) _ entry set_line])
  show "word_end (hd ((num_text ns @ NL @ r) @ [EOS]))" using ns(3) by (cases "num_text ns") auto
  fix m1 :: parsed_mode and st assume m1: "mode_line.truncate m1 = m" and st: "inside env st (num_text ns @ NL @ r)"
  have "blank_start (NL @ r)" by (simp add: blank_start_def blank_def)
  from read_numbers_text [OF e this ns(1,2) st, of m1] update [OF m1] inside_before
  show "\<exists>m2 st2. read_numbers env fs m1 st = Returned (Some m2, st2) \<and> mode_line.truncate m2 = m' \<and> before env st2 (NL @ r) \<and> keeps st st2"
    by blast
qed

lemma timings_advance:
  assumes "good_env env" "\<forall>x\<in>set ws. blank x" "list_all number [n1, n2, n3, n4]"
  shows "advances env pr a m (d, h, v) (ws @ ''HTimings'' @ [CHR 0x09] @ four_numbers n1 n2 n3 n4 @ r)
      (m\<lparr>ml_hdisplay := n1, ml_hsyncstart := n2, ml_hsyncend := n3, ml_htotal := n4\<rparr>) (d, True, v) (NL @ r)" (is ?h)
    and "advances env pr a m (d, h, v) (ws @ ''VTimings'' @ [CHR 0x09] @ four_numbers n1 n2 n3 n4 @ r)
      (m\<lparr>ml_vdisplay := n1, ml_vsyncstart := n2, ml_vsyncend := n3, ml_vtotal := n4\<rparr>) (d, h, True) (NL @ r)" (is ?v)
proof -
  let ?ns = "[([CHR 0x09], n1), ('' '', n2), ('' '', n3), ('' '', n4)]"
  have t: "w @ [CHR 0x09] @ four_numbers n1 n2 n3 n4 @ r = w @ num_text ?ns @ NL @ r" for w by (simp add: four_numbers_def)
  have ns: "\<forall>(ws, n)\<in>set ?ns. number n \<and> spaces ws" "word_end (hd (num_text ?ns @ NL))"
    using assms(3) by (simp_all add: spaces_def blank_def word_end_def stop_def)
  show ?h unfolding t
    by (rule numbers_advance [where fs = htimings and print = "pr H_timings" and set_line = "\<lambda>line m. m\<lparr>ml_htimings_line_er := line\<rparr>"])
      (use assms ns word_lexemes in \<open>simp_all add: mode_words mode_entry_def htimings_def\<close>)
  show ?v unfolding t
    by (rule numbers_advance [where fs = vtimings and print = "pr V_timings" and set_line = "\<lambda>line m. m\<lparr>ml_vtimings_line_er := line\<rparr>"])
      (use assms ns word_lexemes in \<open>simp_all add: mode_words mode_entry_def vtimings_def\<close>)
qed

lemma skew_advances:
  assumes "good_env env" "\<forall>x\<in>set ws. blank x" "number n"
  shows "advances env pr a m had (ws @ ''HSkew'' @ [CHR 0x09, CHR 0x09] @ '' '' @ show_int n @ NL @ r)
      (m\<lparr>ml_flags := ml_flags m OR XF86CONF_HSKEW, ml_hskew := n\<rparr>) had (NL @ r)" (is ?h)
    and "advances env pr a m had (ws @ ''VScan'' @ [CHR 0x09, CHR 0x09] @ '' '' @ show_int n @ NL @ r)
      (m\<lparr>ml_flags := ml_flags m OR XF86CONF_VSCAN, ml_vscan := n\<rparr>) had (NL @ r)" (is ?v)
proof -
  let ?ns = "[([CHR 0x09, CHR 0x09, CHR '' ''], n)]"
  have t: "w @ [CHR 0x09, CHR 0x09] @ '' '' @ show_int n @ NL @ r = w @ num_text ?ns @ NL @ r" for w by simp
  have ns: "\<forall>(ws, n)\<in>set ?ns. number n \<and> spaces ws" "word_end (hd (num_text ?ns @ NL))"
    using assms(3) by (simp_all add: spaces_def blank_def word_end_def stop_def)
  show ?h unfolding t
    by (rule numbers_advance [where fs = "[\<lambda>n m. m\<lparr>ml_flags := ml_flags m OR XF86CONF_HSKEW, ml_hskew := n\<rparr>]" and print = "pr H_skew"
          and set_line = "\<lambda>line m. m\<lparr>ml_hskew_line_er := line\<rparr>"])
      (use assms ns word_lexemes in \<open>auto simp: mode_words mode_entry_def split: prod.splits\<close>)
  show ?v unfolding t
    by (rule numbers_advance [where fs = "[\<lambda>n m. m\<lparr>ml_flags := ml_flags m OR XF86CONF_VSCAN, ml_vscan := n\<rparr>]" and print = "pr V_scan"
          and set_line = "\<lambda>line m. m\<lparr>ml_vscan_line_er := line\<rparr>"])
      (use assms ns word_lexemes in \<open>auto simp: mode_words mode_entry_def split: prod.splits\<close>)
qed

lemma read_flags_text:
  assumes e: "good_env env" and w: "\<forall>x\<in>set ws. blank x" "lex_ok (Word w)" "word_end (hd (r @ [EOS]))"
    and n: "list_all flag_ok (name # names)" and st: "inside env st ([CHR 0x09, CHR 0x09] @ quoted name @ flags_text names @ NL @ ws @ w @ r)"
  shows "\<exists>st'. read_flags env m st = Returned (Some (m\<lparr>ml_flags := or_flags (name # names) (ml_flags m)\<rparr>), st') \<and> before env st' (NL @ ws @ w @ r) \<and> keeps st st'"
proof -
  have "lex_ok (Str name)" using n by (simp add: flag_ok_def)
  from sub_token_lexeme [OF e this, of "flags_text names @ NL @ ws @ w @ r" st "[CHR 0x09, CHR 0x09]" "[]" m] st
  obtain st1 where st1: "sub_token env [] m st = Returned (STRING, m, st1)" "inside env st1 (flags_text names @ NL @ ws @ w @ r)" "sc_str st1 = Some name" "keeps st st1"
    by (auto simp: blank_def)
  obtain st2 where "flags_loop env STRING m st1 = Some (Returned (Some (m\<lparr>ml_flags := or_flags (name # names) (ml_flags m)\<rparr>), st2))"
    "before env st2 (NL @ ws @ w @ r)" "keeps st1 st2"
    using flags_loop_text [OF e w n st1(3), of m] st1(2) by auto
  then show ?thesis using st1(1,4) keeps_trans by (auto simp: read_flags_def)
qed

lemma flags_advance:
  assumes e: "good_env env" and ws: "\<forall>x\<in>set ws. blank x"
    and w: "\<forall>x\<in>set vs. blank x" "lex_ok (Word w)" "word_end (hd (r @ [EOS]))" and n: "list_all flag_ok (name # names)"
  shows "advances env pr a m had (ws @ ''Flags'' @ [CHR 0x09, CHR 0x09] @ quoted name @ flags_text names @ NL @ vs @ w @ r)
    (m\<lparr>ml_flags := or_flags (name # names) (ml_flags m)\<rparr>) had (NL @ vs @ w @ r)"
proof (rule entry_advances [where read = "read_flags env" and set_line = "\<lambda>line m. m\<lparr>ml_flags_line_er := line\<rparr>" and print = "pr Mode_flags"])
  fix m1 :: parsed_mode and st assume m1: "mode_line.truncate m1 = m"
    and "inside env st ([CHR 0x09, CHR 0x09] @ quoted name @ flags_text names @ NL @ vs @ w @ r)"
  from read_flags_text [OF e w n this(2), of m1]
  obtain st2 where "read_flags env m1 st = Returned (Some (m1\<lparr>ml_flags := or_flags (name # names) (ml_flags m1)\<rparr>), st2)"
    "before env st2 (NL @ vs @ w @ r)" "keeps st st2"
    by blast
  moreover have "ml_flags m1 = ml_flags m" using m1 by (rule truncate_flags)
  ultimately show "\<exists>m2 st2. read_flags env m1 st = Returned (Some m2, st2) \<and>
      mode_line.truncate m2 = m\<lparr>ml_flags := or_flags (name # names) (ml_flags m)\<rparr> \<and> before env st2 (NL @ vs @ w @ r) \<and> keeps st st2"
    using m1 by (intro exI [of _ "m1\<lparr>ml_flags := or_flags (name # names) (ml_flags m1)\<rparr>"] exI [of _ st2]) simp
qed (use e ws word_lexemes in \<open>simp_all add: mode_words mode_entry_def word_end_def stop_def split: prod.splits\<close>)

text \<open>The end of the mode.\<close>

lemma mode_ends:
  assumes e: "good_env env" and ws: "\<forall>x\<in>set ws. blank x" and b: "before env st (ws @ ''EndMode'' @ NL @ r)"
  shows "\<exists>m' st'. mode_loop env pr a m had st = Some (Returned (Some (m', had), st')) \<and> mode_line.truncate m' = mode_line.truncate m \<and>
    inside env st' (NL @ r) \<and> keeps st st'"
proof -
  have "lex_ok (Word ''EndMode'')" "word_end (hd ((NL @ r) @ [EOS]))" using word_lexemes by (simp_all add: word_end_def stop_def)
  from before_word [OF e b ws this]
  obtain st1 where st1: "\<forall>tab. xf86getToken env tab st = Returned (lookup tab ''EndMode'', st1)" "inside env st1 (NL @ r)" "keeps st st1" by blast
  obtain x where x: "fbc_get_current_line_ER (sc_lines st1) = Some x" "elems (sc_lines st1) x \<noteq> None" using inside_tail [OF st1(2)] by blast
  obtain l where l: "link_mode a (Some x) None FBC_INDENT_1 st1 = Returned (st1\<lparr>sc_lines := l\<rparr>)" "tail_ptr l = tail_ptr (sc_lines st1)"
    "\<forall>x. pointers (elems l x) = pointers (elems (sc_lines st1) x)" "head_ptr l = head_ptr (sc_lines st1)"
    using link_line [OF x(2)] by blast
  have "mode_loop env pr a m had st = Some (Returned (Some (m\<lparr>ml_end_line_er := Some x\<rparr>, had), st1\<lparr>sc_lines := l\<rparr>))"
    using st1(1) x(1) l(1) by (simp add: mode_loop.simps [of env pr a m] mode_words)
  moreover have "inside env (st1\<lparr>sc_lines := l\<rparr>) (NL @ r)" "keeps st (st1\<lparr>sc_lines := l\<rparr>)"
    using link_inside [OF l(2-4)] st1(2,3) keeps_trans by blast+
  ultimately show ?thesis by auto
qed

section \<open>Whole modes\<close>

text \<open>
  The modes that can be written: a name that can be quoted, numbers that fit, no flag without a text, and no skew or
  scan count that the flags do not announce.
\<close>

definition printable :: "mode_line \<Rightarrow> bool" where
  "printable m \<longleftrightarrow> (case ml_identifier m of None \<Rightarrow> False | Some name \<Rightarrow> lex_ok (Str name)) \<and>
     list_all number [ml_clock m, ml_hdisplay m, ml_hsyncstart m, ml_hsyncend m, ml_htotal m,
       ml_vdisplay m, ml_vsyncstart m, ml_vsyncend m, ml_vtotal m, ml_hskew m, ml_vscan m] \<and>
     known_flags (ml_flags m) \<and> (ml_flags m AND XF86CONF_HSKEW = 0 \<longrightarrow> ml_hskew m = 0) \<and> (ml_flags m AND XF86CONF_VSCAN = 0 \<longrightarrow> ml_vscan m = 0)"

definition end_text :: "string \<Rightarrow> string" where
  "end_text r = [CHR 0x09] @ ''EndMode'' @ NL @ [CHR 0x09] @ r"

definition vscan_text :: "mode_line \<Rightarrow> string \<Rightarrow> string" where
  "vscan_text m r = (if ml_flags m AND XF86CONF_VSCAN \<noteq> 0 then xf86printMxxxSectionModeVScan m xf86whitespace_2 else []) @ end_text r"

definition hskew_text :: "mode_line \<Rightarrow> string \<Rightarrow> string" where
  "hskew_text m r = (if ml_flags m AND XF86CONF_HSKEW \<noteq> 0 then xf86printMxxxSectionModeHSkew m xf86whitespace_2 else []) @ vscan_text m r"

definition starts_word :: "string \<Rightarrow> bool" where
  "starts_word t \<longleftrightarrow> (\<exists>vs w q. t = vs @ w @ q \<and> (\<forall>x\<in>set vs. blank x) \<and> lex_ok (Word w) \<and> word_end (hd (q @ [EOS])))"

lemma starts_wordI: "\<forall>x\<in>set vs. blank x \<Longrightarrow> lex_ok (Word w) \<Longrightarrow> word_end (hd (q @ [EOS])) \<Longrightarrow> starts_word (vs @ w @ q)"
  unfolding starts_word_def by blast

lemma hskew_text_word: "starts_word (hskew_text m r)"
proof -
  have "starts_word (end_text r)"
    unfolding end_text_def by (rule starts_wordI) (use word_lexemes in \<open>simp_all add: blank_def word_end_def stop_def\<close>)
  moreover have "starts_word (xf86printMxxxSectionModeVScan m xf86whitespace_2 @ q)" "starts_word (xf86printMxxxSectionModeHSkew m xf86whitespace_2 @ q)" for q
    unfolding xf86printMxxxSectionModeVScan_def xf86printMxxxSectionModeHSkew_def printed_words append_assoc
    by (rule starts_wordI; use word_lexemes in \<open>simp add: blank_def word_end_def stop_def\<close>)+
  ultimately show ?thesis by (simp add: hskew_text_def vscan_text_def)
qed

lemma skew_text_advances:
  assumes "good_env env" "printable m"
  shows "advances env pr a n had (NL @ hskew_text m r)
    (if ml_flags m AND XF86CONF_HSKEW \<noteq> 0 then n\<lparr>ml_flags := ml_flags n OR XF86CONF_HSKEW, ml_hskew := ml_hskew m\<rparr> else n) had (NL @ vscan_text m r)" (is ?h)
    and "advances env pr a n had (NL @ vscan_text m r)
    (if ml_flags m AND XF86CONF_VSCAN \<noteq> 0 then n\<lparr>ml_flags := ml_flags n OR XF86CONF_VSCAN, ml_vscan := ml_vscan m\<rparr> else n) had (NL @ end_text r)" (is ?v)
proof -
  have b: "\<forall>x\<in>set [CHR 0x0A, CHR 0x09, CHR 0x09]. blank x" by (simp add: blank_def)
  have n: "number (ml_hskew m)" "number (ml_vscan m)" using assms(2) by (simp_all add: printable_def)
  have "NL @ xf86printMxxxSectionModeHSkew m xf86whitespace_2 @ q =
      [CHR 0x0A, CHR 0x09, CHR 0x09] @ ''HSkew'' @ [CHR 0x09, CHR 0x09] @ '' '' @ show_int (ml_hskew m) @ NL @ q"
    "NL @ xf86printMxxxSectionModeVScan m xf86whitespace_2 @ q =
      [CHR 0x0A, CHR 0x09, CHR 0x09] @ ''VScan'' @ [CHR 0x09, CHR 0x09] @ '' '' @ show_int (ml_vscan m) @ NL @ q" for q
    unfolding xf86printMxxxSectionModeVScan_def xf86printMxxxSectionModeHSkew_def printed_words append_assoc by simp_all
  note t = this
  show ?h using skew_advances(1) [OF assms(1) b n(1), of pr a n had "vscan_text m r"] advances_refl
    by (simp only: t hskew_text_def append_Nil append_assoc split: if_split) blast
  show ?v using skew_advances(2) [OF assms(1) b n(2), of pr a n had "end_text r"] advances_refl
    by (simp only: t vscan_text_def append_Nil append_assoc split: if_split) blast
qed

lemma flags_text_advance:
  assumes "good_env env" "printable m"
  shows "advances env pr a n had (NL @ xf86printMxxxSectionModeFlags m xf86whitespace_2 @ hskew_text m r)
    (n\<lparr>ml_flags := or_flags (set_flags (ml_flags m)) (ml_flags n)\<rparr>) had (NL @ hskew_text m r)"
proof (cases "set_flags (ml_flags m)")
  case Nil
  then show ?thesis using advances_refl by (simp add: xf86printMxxxSectionModeFlags_def flag_loop_text(2) set_flags_def)
next
  case (Cons name names)
  have f: "list_all flag_ok (name # names)" using set_flags_ok [of "ml_flags m"] assms(2) Cons by (simp add: printable_def)
  obtain vs w q where t: "hskew_text m r = vs @ w @ q" "\<forall>x\<in>set vs. blank x" "lex_ok (Word w)" "word_end (hd (q @ [EOS]))"
    using hskew_text_word unfolding starts_word_def by blast
  have b: "\<forall>x\<in>set [CHR 0x0A, CHR 0x09, CHR 0x09]. blank x" by (simp add: blank_def)
  have "NL @ xf86printMxxxSectionModeFlags m xf86whitespace_2 @ u =
      [CHR 0x0A, CHR 0x09, CHR 0x09] @ ''Flags'' @ [CHR 0x09, CHR 0x09] @ quoted name @ flags_text names @ NL @ u" for u
    using Cons by (simp add: xf86printMxxxSectionModeFlags_def flag_loop_text(2) set_flags_def printed_words)
  then show ?thesis using flags_advance [OF assms(1) b t(2-4) f, of pr a n had] unfolding t(1) Cons by (simp only:)
qed

definition body_text :: "mode_line \<Rightarrow> string \<Rightarrow> string" where
  "body_text m r = [CHR 0x09, CHR 0x09] @ ''DotClock'' @ [CHR 0x09] @ show_clock (ml_clock m) @ NL @
     [CHR 0x09, CHR 0x09] @ ''HTimings'' @ [CHR 0x09] @ four_numbers (ml_hdisplay m) (ml_hsyncstart m) (ml_hsyncend m) (ml_htotal m) @
     [CHR 0x09, CHR 0x09] @ ''VTimings'' @ [CHR 0x09] @ four_numbers (ml_vdisplay m) (ml_vsyncstart m) (ml_vsyncend m) (ml_vtotal m) @
     xf86printMxxxSectionModeFlags m xf86whitespace_2 @ hskew_text m r"

lemma mode_text:
  assumes "ml_identifier m = Some name"
  shows "\<exists>t. xf86printMxxxSectionMode m xf86whitespace_1 xf86whitespace_2 = Some t \<and>
    (\<forall>r. t @ r = [CHR 0x09] @ ''Mode'' @ [CHR 0x09, CHR 0x09] @ quoted name @ NL @ body_text m r)"
  unfolding xf86printMxxxSectionMode_def xf86printMxxxSectionModeDotClock_def xf86printMxxxSectionModeHTimings_def xf86printMxxxSectionModeVTimings_def
    body_text_def hskew_text_def vscan_text_def end_text_def printed_words
  by (simp add: assms)

definition named_mode :: "string option \<Rightarrow> mode_line" where
  "named_mode name = (mode_line.truncate new_mode)\<lparr>ml_identifier := name\<rparr>"

lemma body_advances:
  assumes e: "good_env env" and m: "printable m"
  shows "advances env pr a (named_mode (ml_identifier m)) (False, False, False) (NL @ body_text m r) m (True, True, True) (NL @ end_text r)"
proof -
  define n1 where "n1 = (named_mode (ml_identifier m))\<lparr>ml_clock := ml_clock m\<rparr>"
  define n2 where "n2 = n1\<lparr>ml_hdisplay := ml_hdisplay m, ml_hsyncstart := ml_hsyncstart m, ml_hsyncend := ml_hsyncend m, ml_htotal := ml_htotal m\<rparr>"
  define n3 where "n3 = n2\<lparr>ml_vdisplay := ml_vdisplay m, ml_vsyncstart := ml_vsyncstart m, ml_vsyncend := ml_vsyncend m, ml_vtotal := ml_vtotal m\<rparr>"
  define n4 where "n4 = n3\<lparr>ml_flags := or_flags (set_flags (ml_flags m)) (ml_flags n3)\<rparr>"
  define n5 where "n5 = (if ml_flags m AND XF86CONF_HSKEW \<noteq> 0 then n4\<lparr>ml_flags := ml_flags n4 OR XF86CONF_HSKEW, ml_hskew := ml_hskew m\<rparr> else n4)"
  define n6 where "n6 = (if ml_flags m AND XF86CONF_VSCAN \<noteq> 0 then n5\<lparr>ml_flags := ml_flags n5 OR XF86CONF_VSCAN, ml_vscan := ml_vscan m\<rparr> else n5)"
  define t3 t2 t1 where "t3 = xf86printMxxxSectionModeFlags m xf86whitespace_2 @ hskew_text m r"
    and "t2 = [CHR 0x09, CHR 0x09] @ ''VTimings'' @ [CHR 0x09] @ four_numbers (ml_vdisplay m) (ml_vsyncstart m) (ml_vsyncend m) (ml_vtotal m) @ t3"
    and "t1 = [CHR 0x09, CHR 0x09] @ ''HTimings'' @ [CHR 0x09] @ four_numbers (ml_hdisplay m) (ml_hsyncstart m) (ml_hsyncend m) (ml_htotal m) @ t2"
  have b: "\<forall>x\<in>set (NL @ [CHR 0x09, CHR 0x09]). blank x" by (simp add: blank_def)
  have n: "number (ml_clock m)" "list_all number [ml_hdisplay m, ml_hsyncstart m, ml_hsyncend m, ml_htotal m]"
    "list_all number [ml_vdisplay m, ml_vsyncstart m, ml_vsyncend m, ml_vtotal m]"
    using m by (simp_all add: printable_def)
  have "advances env pr a (named_mode (ml_identifier m)) (False, False, False) (NL @ body_text m r) n1 (True, False, False) (NL @ t1)"
    using clock_advances [OF e n(1) b] unfolding body_text_def n1_def t1_def t2_def t3_def append_assoc .
  moreover have "advances env pr a n1 (True, False, False) (NL @ t1) n2 (True, True, False) (NL @ t2)"
    using timings_advance(1) [OF e b n(2)] unfolding t1_def n2_def append_assoc .
  moreover have "advances env pr a n2 (True, True, False) (NL @ t2) n3 (True, True, True) (NL @ t3)"
    using timings_advance(2) [OF e b n(3)] unfolding t2_def n3_def append_assoc .
  moreover have "advances env pr a n3 (True, True, True) (NL @ t3) n4 (True, True, True) (NL @ hskew_text m r)"
    using flags_text_advance [OF e m] unfolding t3_def n4_def .
  moreover have "advances env pr a n4 (True, True, True) (NL @ hskew_text m r) n5 (True, True, True) (NL @ vscan_text m r)"
    using skew_text_advances(1) [OF e m] unfolding n5_def .
  moreover have "advances env pr a n5 (True, True, True) (NL @ vscan_text m r) n6 (True, True, True) (NL @ end_text r)"
    using skew_text_advances(2) [OF e m] unfolding n6_def .
  ultimately have "advances env pr a (named_mode (ml_identifier m)) (False, False, False) (NL @ body_text m r) n6 (True, True, True) (NL @ end_text r)"
    using advances_trans by meson
  moreover have "n6 = m"
  proof -
    have "ml_flags n6 = ml_flags m"
    proof (rule all_flags_value)
      show "known_flags (ml_flags m)" using m by (simp add: printable_def)
      have "ml_flags n3 = 0" by (simp add: n3_def n2_def n1_def named_mode_def new_mode_def mode_line.truncate_def)
      then show "ml_flags n4 = ml_flags m AND 0x09FF" using set_flags_value [of "ml_flags m"] m by (simp add: n4_def printable_def)
      show "ml_flags n5 = (if ml_flags m AND XF86CONF_HSKEW \<noteq> 0 then ml_flags n4 OR XF86CONF_HSKEW else ml_flags n4)" by (simp add: n5_def)
      show "ml_flags n6 = (if ml_flags m AND XF86CONF_VSCAN \<noteq> 0 then ml_flags n5 OR XF86CONF_VSCAN else ml_flags n5)" by (simp add: n6_def)
    qed
    moreover have "ml_hskew n6 = ml_hskew m" "ml_vscan n6 = ml_vscan m" "ml_identifier n6 = ml_identifier m" "ml_clock n6 = ml_clock m"
      "ml_hdisplay n6 = ml_hdisplay m" "ml_hsyncstart n6 = ml_hsyncstart m" "ml_hsyncend n6 = ml_hsyncend m" "ml_htotal n6 = ml_htotal m"
      "ml_vdisplay n6 = ml_vdisplay m" "ml_vsyncstart n6 = ml_vsyncstart m" "ml_vsyncend n6 = ml_vsyncend m" "ml_vtotal n6 = ml_vtotal m"
      using m by (simp_all add: n6_def n5_def n4_def n3_def n2_def n1_def named_mode_def new_mode_def mode_line.truncate_def printable_def)
    ultimately show ?thesis by (intro mode_line.equality) simp_all
  qed
  ultimately show ?thesis by simp
qed

text \<open>A mode that is written is read back.\<close>

lemma mode_read_back:
  assumes e: "good_env env" and m: "printable m" and name: "ml_identifier m = Some name"
    and st: "inside env st ([CHR 0x09, CHR 0x09] @ quoted name @ NL @ body_text m r)"
  shows "\<exists>m' st'. xf86parseVerboseMode env pr st = Returned (Some m', st') \<and> mode_line.truncate m' = m \<and> inside env st' (NL @ [CHR 0x09] @ r) \<and> keeps st st'"
proof -
  let ?m = "new_mode\<lparr>ml_verbose := True\<rparr>" and ?a = "mem_addr env (sc_req st)"
  have "lex_ok (Str name)" using m name by (simp add: printable_def)
  from sub_token_lexeme [OF e this, of "NL @ body_text m r" "st\<lparr>sc_req := sc_req st + 1\<rparr>" "[CHR 0x09, CHR 0x09]" "[]" ?m] inside_request [OF st]
  obtain st1 where st1: "sub_token env [] ?m (st\<lparr>sc_req := sc_req st + 1\<rparr>) = Returned (STRING, ?m, st1)"
    "inside env st1 (NL @ body_text m r)" "sc_str st1 = Some name" "keeps st st1"
    by (auto simp: blank_def keeps_def)
  let ?n = "?m\<lparr>ml_identifier := Some name\<rparr>"
  have r: "read_name env ?m (st\<lparr>sc_req := sc_req st + 1\<rparr>) = Returned (Some ?n, st1)" using st1(1,3) by (simp add: read_name_def)
  have "mode_line.truncate ?n = named_mode (ml_identifier m)" using name by (simp add: named_mode_def)
  with body_advances [OF e m, of pr ?a r] inside_before [OF st1(2)]
  obtain m2 st2 where st2: "mode_loop env pr ?a ?n (False, False, False) st1 = mode_loop env pr ?a m2 (True, True, True) st2"
    "mode_line.truncate m2 = m" "before env st2 (NL @ end_text r)" "keeps st1 st2"
    unfolding advances_def by blast
  have "\<forall>x\<in>set (NL @ [CHR 0x09]). blank x" by (simp add: blank_def)
  moreover have "before env st2 ((NL @ [CHR 0x09]) @ ''EndMode'' @ NL @ [CHR 0x09] @ r)" using st2(3) by (simp add: end_text_def)
  ultimately obtain m3 st3 where st3: "mode_loop env pr ?a m2 (True, True, True) st2 = Some (Returned (Some (m3, True, True, True), st3))"
    "mode_line.truncate m3 = m" "inside env st3 (NL @ [CHR 0x09] @ r)" "keeps st2 st3"
    using mode_ends [OF e, of _ st2 _ pr ?a m2] st2(2) by metis
  have "mem_ok env (sc_req st)" using e by (simp add: good_env_def)
  then have "xf86parseVerboseMode env pr st = Returned (Some m3, st3)"
    using r st2(1) st3(1) by (simp add: xf86parseVerboseMode_def Let_def then_parse_def)
  then show ?thesis using st1(4) st2(4) st3 keeps_trans by blast
qed

section \<open>Modes sections\<close>

lemma printed_modes:
  assumes e: "good_env env"
  shows "list_all printable ms \<Longrightarrow> print_modes ms = Some t \<Longrightarrow> inside env st (ws @ t @ r) \<Longrightarrow> \<forall>x\<in>set ws. blank x \<Longrightarrow>
    \<exists>ps vs st'. section_loop env pr s st = section_loop env pr (s\<lparr>ss_modes := ss_modes s @ ps\<rparr>) st' \<and> map mode_line.truncate ps = ms \<and>
      inside env st' (vs @ r) \<and> (\<forall>x\<in>set vs. blank x) \<and> keeps st st'"
proof (induction ms arbitrary: t st ws s)
  case Nil
  then show ?case by (intro exI [of _ "[]"] exI [of _ ws] exI [of _ st]) simp
next
  case (Cons m ms)
  then obtain name where name: "ml_identifier m = Some name" "printable m" by (auto simp: printable_def split: option.splits)
  obtain u where u: "xf86printMxxxSectionMode m xf86whitespace_1 xf86whitespace_2 = Some u"
    "\<forall>r. u @ r = [CHR 0x09] @ ''Mode'' @ [CHR 0x09, CHR 0x09] @ quoted name @ NL @ body_text m r"
    using mode_text [OF name(1)] by blast
  then obtain v where v: "print_modes ms = Some v" "t = u @ v" using Cons.prems(2) by (auto split: option.splits)
  let ?q = "[CHR 0x09, CHR 0x09] @ quoted name @ NL @ body_text m (v @ r)"
  have "ws @ t @ r = (ws @ [CHR 0x09]) @ ''Mode'' @ ?q" using u(2) [rule_format, of "v @ r"] by (simp add: v(2))
  then have "before env st ((ws @ [CHR 0x09]) @ ''Mode'' @ ?q)" using inside_before [OF Cons.prems(3)] by (simp only:)
  moreover have "\<forall>x\<in>set (ws @ [CHR 0x09]). blank x" "lex_ok (Word ''Mode'')" "word_end (hd (?q @ [EOS]))"
    using Cons.prems(4) word_lexemes by (simp_all add: blank_def word_end_def stop_def)
  ultimately obtain st1 where st1: "\<forall>tab. xf86getToken env tab st = Returned (lookup tab ''Mode'', st1)" "inside env st1 ?q" "keeps st st1"
    using before_word [OF e] by blast
  obtain p st2 where st2: "xf86parseVerboseMode env pr st1 = Returned (Some p, st2)" "mode_line.truncate p = m"
    "inside env st2 (NL @ [CHR 0x09] @ v @ r)" "keeps st1 st2"
    using mode_read_back [OF e name(2,1) st1(2)] by blast
  let ?s = "s\<lparr>ss_modes := ss_modes s @ [p]\<rparr>"
  have "section_loop env pr s st = section_loop env pr ?s st2"
    using st1(1) st2(1) by (simp add: section_loop.simps [of env pr s] mode_words section_entry_def then_parse_def)
  moreover obtain ps vs st3 where "section_loop env pr ?s st2 = section_loop env pr (?s\<lparr>ss_modes := ss_modes ?s @ ps\<rparr>) st3" "map mode_line.truncate ps = ms"
      "inside env st3 (vs @ r)" "\<forall>x\<in>set vs. blank x" "keeps st2 st3"
    using Cons.IH [of v st2 "NL @ [CHR 0x09]" ?s] Cons.prems(1) v(1) st2(3) by (auto simp: blank_def)
  ultimately show ?case using st1(3) st2(2,4) keeps_trans [of st st1 st2] keeps_trans [of st st2 st3]
    by (intro exI [of _ "p # ps"] exI [of _ vs] exI [of _ st3]) simp
qed

lemma string_read:
  assumes "good_env env" "lex_ok (Str name)" "inside env st (ws @ quoted name @ r)" "\<forall>x\<in>set ws. blank x"
  shows "\<exists>st'. xf86getSubToken env c st = Returned (STRING, c, st') \<and> inside env st' r \<and> sc_str st' = Some name \<and> keeps st st'"
proof -
  have "ahead env st (ws @ lex_text (Str name) @ r)" using assms(3) by (simp add: inside_def)
  from read_lexeme [OF assms(1,2) _ this assms(4)] show ?thesis
    by (auto simp: xf86getSubToken_def xf86getSubTokenWithTab_def sub_token_loop.simps)
qed

text \<open>The section from the identifier on.\<close>

lemma section_read_back:
  assumes e: "good_env env" and ms: "list_all printable ms" "print_modes ms = Some t" and name: "lex_ok (Str name)" "name \<noteq> ''SunModes''"
    and st: "inside env st (NL @ [CHR 0x09] @ ''Identifier '' @ quoted name @ NL @ t @ NL @ ''EndSection'' @ NL @ r)"
  shows "\<exists>sec ps c st'. xf86parseModesSection env pr st = Returned (Some (sec, ps, c), st') \<and> modes_identifier sec = Some name \<and> modes_modelines sec = ms \<and>
    inside env st' (NL @ r)"
proof -
  let ?st = "st\<lparr>sc_req := sc_req st + 1\<rparr>" and ?s0 = "\<lparr>ss_identifier = None, ss_modes = [], ss_comment = None\<rparr>"
  let ?q1 = "'' '' @ quoted name @ NL @ t @ NL @ ''EndSection'' @ NL @ r" and ?q2 = "NL @ t @ NL @ ''EndSection'' @ NL @ r"
  have "before env ?st ((NL @ [CHR 0x09]) @ ''Identifier'' @ ?q1)"
    using inside_before [OF inside_request [OF st]] by (simp only: append_assoc append_Cons append_Nil)
  moreover have "\<forall>x\<in>set (NL @ [CHR 0x09]). blank x" "lex_ok (Word ''Identifier'')" "word_end (hd (?q1 @ [EOS]))"
    using word_lexemes by (simp_all add: blank_def word_end_def stop_def)
  ultimately obtain st1 where st1: "\<forall>tab. xf86getToken env tab ?st = Returned (lookup tab ''Identifier'', st1)" "inside env st1 ?q1"
    using before_word [OF e] by blast
  obtain st2 where st2: "xf86getSubToken env None st1 = Returned (STRING, None, st2)" "inside env st2 ?q2" "sc_str st2 = Some name"
    using string_read [OF e name(1) st1(2)] by (auto simp: blank_def)
  let ?s1 = "?s0\<lparr>ss_identifier := Some name\<rparr>"
  have l1: "section_loop env pr ?s0 ?st = section_loop env pr ?s1 st2"
    using st1(1) st2(1,3) by (simp add: section_loop.simps [of env pr ?s0] mode_words section_entry_def)
  obtain ps vs st3 where st3: "section_loop env pr ?s1 st2 = section_loop env pr (?s1\<lparr>ss_modes := ss_modes ?s1 @ ps\<rparr>) st3"
    "map mode_line.truncate ps = ms" "inside env st3 (vs @ NL @ ''EndSection'' @ NL @ r)" "\<forall>x\<in>set vs. blank x"
    using printed_modes [OF e ms st2(2), of pr ?s1] by (auto simp: blank_def)
  have "before env st3 ((vs @ NL) @ ''EndSection'' @ NL @ r)" using inside_before [OF st3(3)] by (simp only: append_assoc)
  moreover have "\<forall>x\<in>set (vs @ NL). blank x" "lex_ok (Word ''EndSection'')" "word_end (hd ((NL @ r) @ [EOS]))"
    using st3(4) word_lexemes by (simp_all add: blank_def word_end_def stop_def)
  ultimately obtain st4 where st4: "\<forall>tab. xf86getToken env tab st3 = Returned (lookup tab ''EndSection'', st4)" "inside env st4 (NL @ r)"
    using before_word [OF e] by blast
  have "section_loop env pr ?s0 ?st = Some (Returned (Some (?s1\<lparr>ss_modes := ps\<rparr>), st4))"
    using l1 st3(1) st4(1) by (simp add: section_loop.simps [of env pr _ st3] mode_words)
  moreover have "mem_ok env (sc_req st)" using e by (simp add: good_env_def)
  ultimately have "\<exists>sec c. xf86parseModesSection env pr st = Returned (Some (sec, ps, c), st4) \<and> modes_identifier sec = Some name \<and> modes_modelines sec = ms"
    using name(2) st3(2) by (simp add: xf86parseModesSection_def Let_def then_parse_def)
  then show ?thesis using st4(2) by blast
qed

definition TopLevelTab :: sym_tab where
  "TopLevelTab = [(SECTION, ''section'')]"

lemma section_start:
  assumes "good_env env" "lex_ok (Str name)" "ahead env st ([] @ lex_text (Word ''Section'') @ '' '' @ quoted name @ q)"
  shows "\<exists>st1 st2. xf86getToken env TopLevelTab st = Returned (SECTION, st1) \<and> xf86getSubToken env None st1 = Returned (STRING, None, st2) \<and>
    sc_str st2 = Some name \<and> inside env st2 q"
proof -
  have "lex_ok (Word ''Section'')" "ends_at (Word ''Section'') (hd (('' '' @ quoted name @ q) @ [EOS]))"
    using word_lexemes by (simp_all add: word_end_def stop_def)
  from read_lexeme [OF assms(1) this assms(3)]
  obtain st1 where st1: "\<forall>tab. xf86getToken env tab st = Returned (lookup tab ''Section'', st1)" "inside env st1 ('' '' @ quoted name @ q)" by auto
  have "lookup TopLevelTab ''Section'' = SECTION" by code_simp
  then show ?thesis using st1(1) string_read [OF assms(1,2) st1(2)] by (auto simp: blank_def)
qed

text \<open>
  C14. The Modes section that is written for the monitor is read back as it was, under these conditions: there is at least one mode; the names of
  the modes and of the monitor have no quotation mark, line end or null character; the clock and the timings of every mode are numbers that are not
  negative and fit into an \<^verbatim>\<open>int\<close>; the flags are those that have a text, without \<^verbatim>\<open>BCast\<close>, which the parser does not accept; and the skew and the
  scan count are 0 where the flags do not announce them (they are not written then). Memory is available, and the lines of the text, which has no null and no carriage return
  character, fit into the buffer of the scanner. Then, wherever the scanner stands before the
  text, the section is recognised by its name, it is parsed without error, it has the name that was written and
  exactly the modes that were written, in their order with all their values, and the text after it is what is read next.
\<close>

theorem modes_section_read_back:
  assumes "good_env env" "xf86findModes ''SunModes'' (section_names s) = Some i" "modes_modelines (conf_modes_lst s ! i) = ms" "ms \<noteq> []" "list_all printable ms"
    and "mon_identifier (conf_monitor s) = Some b" "lex_ok (Str b)" "fbc_write_config_modes s = Some t" "ahead env st (t @ r)"
  shows "\<exists>st1 st2 st3 sec ps c. xf86getToken env TopLevelTab st = Returned (SECTION, st1) \<and>
    xf86getSubToken env None st1 = Returned (STRING, None, st2) \<and> sc_str st2 = Some ''Modes'' \<and>
    xf86parseModesSection env pr st2 = Returned (Some (sec, ps, c), st3) \<and>
    modes_identifier sec = Some (''SunModes_'' @ b) \<and> modes_modelines sec = ms \<and> ahead env st3 (NL @ r)"
proof -
  obtain u where u: "print_modes ms = Some u" "t = ''Section '' @ quoted ''Modes'' @ NL @ [CHR 0x09] @ ''Identifier '' @ quoted (''SunModes_'' @ b) @ NL @ u @ NL @ ''EndSection'' @ NL"
    using assms(2-4,6,8) by (auto simp: fbc_write_config_modes_def Let_def split: option.splits)
  let ?q = "NL @ [CHR 0x09] @ ''Identifier '' @ quoted (''SunModes_'' @ b) @ NL @ u @ NL @ ''EndSection'' @ NL @ r"
  have "ahead env st ([] @ lex_text (Word ''Section'') @ '' '' @ quoted ''Modes'' @ ?q)" using assms(9) by (simp add: u(2))
  moreover have "lex_ok (Str ''Modes'')" by code_simp
  ultimately obtain st1 st2 where top: "xf86getToken env TopLevelTab st = Returned (SECTION, st1)"
    and st2: "xf86getSubToken env None st1 = Returned (STRING, None, st2)" "inside env st2 ?q" "sc_str st2 = Some ''Modes''"
    using section_start [OF assms(1)] by blast
  have "lex_ok (Str (''SunModes_'' @ b))" using assms(7) by (simp add: stop_def)
  from section_read_back [OF assms(1,5) u(1) this _ st2(2), of pr] show ?thesis
    using top st2(1,3) unfolding inside_def by auto
qed

lemma opened_ahead:
  assumes "good_env env" "short_lines us" "dll (sc_lines st) []" "0 \<le> sc_pos st"
    and "sc_buf st = []" "sc_at st = 0" "sc_push st = LOCK_TOKEN" "sc_len st = CONFIG_BUF_LEN" "sc_rlen st = CONFIG_BUF_LEN" "sc_stream st = file_lines us"
  shows "ahead env st (file_lines us)"
proof -
  have "lines_ok env st" using assms(3) unfolding lines_ok_def by (intro exI [of _ "[]"]) simp
  then show ?thesis using assms unfolding ahead_def
    by (intro exI [of _ "[]"] exI [of _ us]) (simp add: stands_def bufs_ok_def CONFIG_BUF_LEN_def)
qed

definition small_mode :: mode_line where
  "small_mode = (sample_mode ''small'' 25 8 6)\<lparr>ml_flags := 0x21, ml_hsyncend := 12\<rparr>"

definition small_config :: config where
  "small_config = sample_config\<lparr>conf_modes_lst := [\<lparr>modes_identifier = Some ''SunModes'', modes_modelines = [small_mode], begin_line_er = None, end_line_er = None\<rparr>]\<rparr>"

definition sample_text :: string where
  "sample_text = the (fbc_write_config_modes small_config)"

definition file_holding :: "string \<Rightarrow> path_env" where
  "file_holding t = \<lparr>host_name = None, xorgconfig = None, home_dir = None, fopen = (\<lambda>p. Some (3, t))\<rparr>"

lemma file_opened:
  fixes t defines "us \<equiv> butlast (split_at (CHR 0x0A) t)"
  assumes us: "list_all (\<lambda>u. list_all (\<lambda>c. c \<noteq> CHR 0x00 \<and> \<not> line_end c) u \<and> length u \<le> 50) us" "file_lines us = t"
  obtains st where "xf86openConfigFile sample_env (file_holding t) (Some ''%A'') (Some ''/etc/X11/xorg.conf'') None sample_scanner None = Returned (Some ''/etc/X11/xorg.conf'', st, None)"
    "sc_stream st = t" "ahead sample_env st t"
proof -
  have short: "short_lines us" using us(1) by (auto simp: short_lines_def plain_def list_all_iff CONFIG_BUF_LEN_def)
  have e: "good_env sample_env" by (simp add: good_env_def sample_env_def inj_def)
  have f: "is_absolute ''/etc/X11/xorg.conf''" "length ''/etc/X11/xorg.conf'' \<le> PATH_MAX" "fopen (file_holding t) ''/etc/X11/xorg.conf'' = Some (3, t)"
    by (simp_all add: is_absolute_def xf86pathIsAbsolute_def PATH_MAX_def file_holding_def)
  have m: "\<forall>k. mem_ok sample_env k" by (simp add: sample_env_def)
  have "dll fbc_line_ER_list []" by (rule dll_empty)
  then show thesis using that [OF open_absolute [OF m f]] opened_ahead [OF e short] us(2) by (simp add: sample_scanner_def)
qed

theorem modes_section_read_back_witness:
  "\<exists>st st1 st2 st3 sec ps c. xf86openConfigFile sample_env (file_holding sample_text) (Some ''%A'') (Some ''/etc/X11/xorg.conf'') None sample_scanner None =
      Returned (Some ''/etc/X11/xorg.conf'', st, None) \<and> sc_stream st = sample_text \<and>
    xf86getToken sample_env TopLevelTab st = Returned (SECTION, st1) \<and> xf86getSubToken sample_env None st1 = Returned (STRING, None, st2) \<and>
    xf86parseModesSection sample_env (\<lambda>p d w. []) st2 = Returned (Some (sec, ps, c), st3) \<and>
    modes_modelines sec = [small_mode]"
proof -
  let ?us = "butlast (split_at (CHR 0x0A) sample_text)"
  have us: "list_all (\<lambda>u. list_all (\<lambda>c. c \<noteq> CHR 0x00 \<and> \<not> line_end c) u \<and> length u \<le> 50) ?us" "file_lines ?us = sample_text" by code_simp+
  have e: "good_env sample_env" by (simp add: good_env_def sample_env_def inj_def)
  obtain st where st: "xf86openConfigFile sample_env (file_holding sample_text) (Some ''%A'') (Some ''/etc/X11/xorg.conf'') None sample_scanner None = Returned (Some ''/etc/X11/xorg.conf'', st, None)"
    "sc_stream st = sample_text" "ahead sample_env st sample_text"
    using file_opened [OF us] .
  have w: "fbc_write_config_modes small_config \<noteq> None" "list_all printable [small_mode]" "lex_ok (Str ''Monitor0'')" by code_simp+
  then have "fbc_write_config_modes small_config = Some sample_text" by (auto simp: sample_text_def)
  moreover have "xf86findModes ''SunModes'' (section_names small_config) = Some 0" by code_simp
  moreover have "modes_modelines (conf_modes_lst small_config ! 0) = [small_mode]" "mon_identifier (conf_monitor small_config) = Some ''Monitor0''" "[small_mode] \<noteq> []"
    by (simp_all add: small_config_def sample_config_def)
  ultimately show ?thesis
    using modes_section_read_back [OF e, of small_config 0 "[small_mode]" "''Monitor0''" sample_text st "[]" "\<lambda>p d w. []"] w(2,3) st
    by auto
qed

end
