(* ===== verification/Fbc_Options.thy ===== *)
theory Fbc_Options
  imports Fbc_Parse
begin

text \<open>
  Option entries (\<^verbatim>\<open>components/x11/app/gfx-utils/sun-src/fbconf_xorg\<close>, \<^verbatim>\<open>xf86/Flags.c\<close>, \<^verbatim>\<open>fbc/fbc_Option.c\<close>): lists of options, what the
  command line changes in them together with the lines of the file, and the ServerFlags section.

  A list of option records is a list; a record carries its address, which the line of the entry refers to. The print
  function that lines are linked to, applied to the entry at an address, is a parameter.
\<close>

section \<open>Option lists\<close>

record option_rec =
  opt_name :: "string option"
  opt_val :: "string option"
  opt_used :: int
  opt_comment :: "string option"
  opt_line_er :: "nat option"
  opt_addr :: nat

definition bool_option_names :: "string list" where
  "bool_option_names =
     [''NoTrapSignals'', ''DontVTSwitch'', ''DontZap'', ''DontZoom'', ''DisableVidModeExtension'', ''AllowNonLocalXvidtune'',
      ''DisableModInDev'', ''AllowNonLocalModInDev'', ''AllowMouseOpenFail'', ''VTSysReq'', ''XkbDisable'', ''PC98'', ''NoPM'', ''Xinerama'',
      ''AllowDeactivateGrabs'', ''AllowClosedownGrabs'', ''AIGLX'', ''IgnoreABI'', ''AlwaysCore'', ''SendCoreEvents'', ''SendDragEvents'',
      ''DPMS'', ''SyncOnGreen'', ''Enable'', ''Ignore'', ''InitPrimary'', ''NoInt10'', ''SingleCard'',
      ''DefLinear'', ''DefOverlay'', ''DefTransparent'', ''DoubleHigh'', ''DoubleWide'']"

text \<open>Whether an option has this name. A null pointer equals no name; two of them are read through.\<close>

definition has_name :: "string option \<Rightarrow> string option \<Rightarrow> bool fbc_run" where
  "has_name a b =
     (case (a, b) of
        (Some s, Some t) \<Rightarrow> Returned (xf86optionNameCompare bool_option_names s t = Some 0)
      | (None, None) \<Rightarrow> Undefined
      | _ \<Rightarrow> Returned False)"

fun find_loop :: "option_rec list \<Rightarrow> string option \<Rightarrow> nat \<Rightarrow> nat option fbc_run" where
  "find_loop [] name i = Returned None"
| "find_loop (p # ps) name i =
     run_bind (has_name (opt_name p) name) (\<lambda>eq. if eq then Returned (Some i) else find_loop ps name (i + 1))"

definition xf86findOption :: "option_rec list \<Rightarrow> string option \<Rightarrow> nat option fbc_run" where
  "xf86findOption list name = find_loop list name 0"

definition xf86findOptionValue :: "option_rec list \<Rightarrow> string option \<Rightarrow> string option fbc_run" where
  "xf86findOptionValue list name =
     run_bind (xf86findOption list name) (\<lambda>p. Returned
       (case p of None \<Rightarrow> None | Some i \<Rightarrow> (case opt_val (list ! i) of None \<Rightarrow> Some [] | Some v \<Rightarrow> Some v)))"

definition xf86newOption :: "env \<Rightarrow> string option \<Rightarrow> string option \<Rightarrow> nat \<Rightarrow> option_rec option" where
  "xf86newOption env name val req =
     (if mem_ok env req
      then Some \<lparr>opt_name = name, opt_val = val, opt_used = 0, opt_comment = None, opt_line_er = None, opt_addr = mem_addr env req\<rparr>
      else None)"

text \<open>The print function of an option line, given the entry.\<close>

type_synonym printer = "ir_data option \<Rightarrow> string list \<Rightarrow> string"

text \<open>
  Setting an option. The address of a line that is inserted is not kept in the record; the memory for the record is
  not checked.
\<close>

definition xf86addNewOptionOrValue ::
  "env \<Rightarrow> printer \<Rightarrow> option_rec list \<Rightarrow> string option \<Rightarrow> string option \<Rightarrow> int \<Rightarrow> nat option \<Rightarrow> ir_data line_list \<Rightarrow> nat \<Rightarrow>
    (option_rec list \<times> ir_data line_list \<times> nat) fbc_run" where
  "xf86addNewOptionOrValue env print head name val used end_er lines req =
     run_bind (xf86findOption head name) (\<lambda>old.
       case old of
         None \<Rightarrow>
           (case xf86newOption env name val req of
              None \<Rightarrow> Undefined
            | Some p \<Rightarrow>
                (let new = p\<lparr>opt_used := used\<rparr>
                 in case end_er of
                      None \<Rightarrow> Returned (head @ [new], lines, req + 1)
                    | Some n \<Rightarrow>
                        run_bind (defined (fbc_insert_line_ER (if mem_ok env (req + 1) then Some (mem_addr env (req + 1)) else None) (mem_raw env)
                            (Some n) (Some (Other_entry (opt_addr new))) (Some print) FBC_INDENT_ENTRY lines)) (\<lambda>(line, lines1).
                          Returned (head @ [new], lines1, req + 2))))
       | Some i \<Rightarrow>
           (let head1 = head[i := (head ! i)\<lparr>opt_name := name, opt_val := val, opt_used := used\<rparr>]
            in if end_er = None then Returned (head1, lines, req)
               else run_bind (defined (fbc_modify_line_ER (opt_line_er (head ! i)) lines)) (\<lambda>lines1. Returned (head1, lines1, req))))"

definition xf86addNewOption :: "env \<Rightarrow> option_rec list \<Rightarrow> string option \<Rightarrow> string option \<Rightarrow> nat \<Rightarrow> (option_rec list \<times> nat) fbc_run" where
  "xf86addNewOption env head name val req =
     run_bind (xf86addNewOptionOrValue env (\<lambda>d w. []) head name val 0 None fbc_line_ER_list req) (\<lambda>(head1, lines, req1). Returned (head1, req1))"

definition xf86configStrdup :: "env \<Rightarrow> string option \<Rightarrow> nat \<Rightarrow> string option \<times> nat" where
  "xf86configStrdup env s req = (case s of None \<Rightarrow> (None, req) | Some t \<Rightarrow> (if mem_ok env req then Some t else None, req + 1))"

text \<open>The copy: the use count and the comment of every option are stored in the first option of the copy.\<close>

fun dup_loop :: "env \<Rightarrow> option_rec list \<Rightarrow> option_rec list \<Rightarrow> nat \<Rightarrow> (option_rec list \<times> nat) fbc_run" where
  "dup_loop env newopt [] req = Returned (newopt, req)"
| "dup_loop env newopt (p # ps) req =
     (let (v, req1) = xf86configStrdup env (opt_val p) req; (n, req2) = xf86configStrdup env (opt_name p) req1
      in run_bind (xf86addNewOption env newopt n v req2) (\<lambda>(head, req3).
           let (c, req4) = xf86configStrdup env (opt_comment p) req3;
               first = (hd head)\<lparr>opt_used := opt_used p, opt_comment := (if opt_comment p = None then opt_comment (hd head) else c)\<rparr>
           in dup_loop env (first # tl head) ps req4))"

definition xf86optionListDup :: "env \<Rightarrow> option_rec list \<Rightarrow> nat \<Rightarrow> (option_rec list \<times> nat) fbc_run" where
  "xf86optionListDup env opt req = dup_loop env [] opt req"

text \<open>The options of an array of names and values; the array of another length than even is refused.\<close>

fun create_loop :: "env \<Rightarrow> int \<Rightarrow> option_rec list \<Rightarrow> string list \<Rightarrow> nat \<Rightarrow> (option_rec list \<times> nat) fbc_run" where
  "create_loop env used p (n # v # options) req =
     (if \<not> mem_ok env req \<or> \<not> mem_ok env (req + 1) then Undefined
      else run_bind (xf86addNewOptionOrValue env (\<lambda>d w. []) p (Some n) (Some v) used None fbc_line_ER_list (req + 2)) (\<lambda>(p1, lines, req1).
             create_loop env used p1 options req1))"
| "create_loop env used p options req = Returned (p, req)"

definition xf86optionListCreate :: "env \<Rightarrow> string list \<Rightarrow> int \<Rightarrow> nat \<Rightarrow> (option_rec list \<times> nat) fbc_run" where
  "xf86optionListCreate env options used req =
     (if length options mod 2 \<noteq> 0 then Returned ([], req) else create_loop env used [] options req)"

text \<open>
  Merging. \<open>hs\<close> is what has been passed of the first list, \<open>bs\<close> the rest of it, \<open>i\<close> the position of the candidate in the
  second list. Two null pointers for names are read through.
\<close>

function merge_loop :: "option_rec list \<Rightarrow> option_rec list \<Rightarrow> option_rec list \<Rightarrow> nat \<Rightarrow> option_rec list option" where
  "merge_loop hs bs tail i =
     (if length tail \<le> i then Some (hs @ bs @ tail)
      else
        (case bs of
           [] \<Rightarrow> Some (hs @ bs @ tail)
         | b # bs1 \<Rightarrow>
             (case xf86nameCompare (opt_name (tail ! i)) (opt_name b) of
                None \<Rightarrow> None
              | Some r \<Rightarrow>
                  if r = 0 then merge_loop (hs @ [tail ! i]) bs1 (take i tail @ drop (Suc i) tail) 0
                  else if i + 1 < length tail then merge_loop hs bs tail (i + 1)
                  else merge_loop (hs @ [b]) bs1 tail 0)))"
  by pat_completeness auto
termination
  by (relation "measures [\<lambda>(hs, bs, tail, i). length bs, \<lambda>(hs, bs, tail, i). length tail - i]") auto

declare merge_loop.simps [simp del]

definition xf86optionListMerge :: "option_rec list \<Rightarrow> option_rec list \<Rightarrow> option_rec list option" where
  "xf86optionListMerge head tail = merge_loop [] head tail 0"

section \<open>Text\<close>

text \<open>A null pointer for the name is read through.\<close>

definition xf86printOption :: "option_rec \<Rightarrow> string list \<Rightarrow> string option" where
  "xf86printOption p whitespace =
     (let comment = (case opt_comment p of None \<Rightarrow> NL | Some c \<Rightarrow> c)
      in case opt_name p of
           None \<Rightarrow> None
         | Some n \<Rightarrow> Some (xf86printFields whitespace [''Option''] @
             (case opt_val p of Some v \<Rightarrow> quoted n @ '' '' @ quoted v @ comment | None \<Rightarrow> quoted n @ comment)))"

fun xf86printOptionList :: "option_rec list \<Rightarrow> string list \<Rightarrow> string option" where
  "xf86printOptionList [] whitespace = Some []"
| "xf86printOptionList (p # ps) whitespace =
     (case xf86printOption p whitespace of
        None \<Rightarrow> None
      | Some t \<Rightarrow> (case xf86printOptionList ps whitespace of None \<Rightarrow> None | Some ts \<Rightarrow> Some (t @ ts)))"

section \<open>Parsing\<close>

definition xf86parseOption :: "env \<Rightarrow> printer \<Rightarrow> option_rec list \<Rightarrow> scanner \<Rightarrow> (option_rec list \<times> scanner) fbc_run" where
  "xf86parseOption env print head st =
     (let line_er = fbc_get_current_line_ER (sc_lines st)
      in run_bind (xf86getSubToken env None st) (\<lambda>(t, comment, st1).
           if t \<noteq> STRING then Returned (head, st1)
           else
             (let name = sc_str st1
              in run_bind (xf86getSubToken env comment st1) (\<lambda>(t2, comment2, st2).
                   case xf86newOption env name (if t2 = STRING then sc_str st2 else None) (sc_req st2) of
                     None \<Rightarrow> Undefined
                   | Some p \<Rightarrow>
                       (let st3 = st2\<lparr>sc_req := sc_req st2 + 1\<rparr>
                        in run_bind (if t2 = STRING then xf86getToken env [] st3 else Returned (t2, st3)) (\<lambda>(t4, st4).
                           run_bind (if t4 = COMMENT then xf86addComment env comment2 (the (sc_str st4)) st4
                                     else Returned (comment2, xf86unGetToken t4 st4)) (\<lambda>(comment3, st5).
                           run_bind (xf86findOption head name) (\<lambda>old.
                             if old \<noteq> None
                             then run_bind (defined (fbc_delete_line_ER line_er (sc_lines st5))) (\<lambda>lines. Returned (head, st5\<lparr>sc_lines := lines\<rparr>))
                             else run_bind (link_mode (opt_addr p) line_er (Some print) FBC_INDENT_ENTRY st5) (\<lambda>st6.
                                    Returned (head @ [p\<lparr>opt_comment := comment3, opt_line_er := line_er\<rparr>], st6))))))))))"

section \<open>The ServerFlags section\<close>

definition ServerFlagsTab :: sym_tab where
  "ServerFlagsTab = [(ENDSECTION, ''endsection''), (NOTRAPSIGNALS, ''notrapsignals''), (DONTZAP, ''dontzap''), (DONTZOOM, ''dontzoom''),
     (DISABLEVIDMODE, ''disablevidmodeextension''), (ALLOWNONLOCAL, ''allownonlocalxvidtune''), (DISABLEMODINDEV, ''disablemodindev''),
     (MODINDEVALLOWNONLOCAL, ''allownonlocalmodindev''), (ALLOWMOUSEOPENFAIL, ''allowmouseopenfail''), (OPTION, ''option''),
     (BLANKTIME, ''blanktime''), (STANDBYTIME, ''standbytime''), (SUSPENDTIME, ''suspendtime''), (OFFTIME, ''offtime''),
     (DEFAULTLAYOUT, ''defaultserverlayout'')]"

record flags_section =
  flg_option_lst :: "option_rec list"
  flg_comment :: "string option"

text \<open>The value that follows an old keyword: a string, a number, or nothing.\<close>

definition keyword_value :: "env \<Rightarrow> bool \<Rightarrow> bool \<Rightarrow> string option \<Rightarrow> scanner \<Rightarrow> (string option \<times> string option) parsed" where
  "keyword_value env hasvalue strvalue comment st =
     (if \<not> hasvalue then Returned (Some (None, comment), st)
      else
        run_bind (xf86getSubToken env comment st) (\<lambda>(t, comment1, st1).
          if strvalue then Returned (if t \<noteq> STRING then None else Some (sc_str st1, comment1), st1)
          else if t \<noteq> NUMBER then Returned (None, st1)
          else Returned (Some (if mem_ok env (sc_req st1) then Some (show_int (sc_num st1)) else None, comment1), st1\<lparr>sc_req := sc_req st1 + 1\<rparr>)))"

definition flag_keyword :: "env \<Rightarrow> token \<Rightarrow> bool \<Rightarrow> bool \<Rightarrow> flags_section \<Rightarrow> scanner \<Rightarrow> flags_section parsed" where
  "flag_keyword env t hasvalue strvalue ptr st =
     (case map_of ServerFlagsTab t of
        None \<Rightarrow> Returned (Some ptr, st)
      | Some name \<Rightarrow>
          (let (tmp, req) = xf86configStrdup env (Some name) (sc_req st)
           in then_parse (keyword_value env hasvalue strvalue (flg_comment ptr) (st\<lparr>sc_req := req\<rparr>)) (\<lambda>(valstr, comment) st1.
                run_bind (xf86addNewOption env (flg_option_lst ptr) tmp valstr (sc_req st1)) (\<lambda>(lst, req1).
                  Returned (Some \<lparr>flg_option_lst = lst, flg_comment = comment\<rparr>, st1\<lparr>sc_req := req1\<rparr>)))))"

definition flags_entry :: "env \<Rightarrow> printer \<Rightarrow> token \<Rightarrow> flags_section \<Rightarrow> scanner \<Rightarrow> flags_section parsed" where
  "flags_entry env print t ptr st =
     (if t = COMMENT
      then run_bind (xf86addComment env (flg_comment ptr) (the (sc_str st)) st) (\<lambda>(c, st1). Returned (Some (ptr\<lparr>flg_comment := c\<rparr>), st1))
      else if t = DEFAULTLAYOUT then flag_keyword env t True True ptr st
      else if t \<in> {BLANKTIME, STANDBYTIME, SUSPENDTIME, OFFTIME} then flag_keyword env t True False ptr st
      else if t \<in> {NOTRAPSIGNALS, DONTZAP, DONTZOOM, DISABLEVIDMODE, ALLOWNONLOCAL, DISABLEMODINDEV, MODINDEVALLOWNONLOCAL, ALLOWMOUSEOPENFAIL}
      then flag_keyword env t False False ptr st
      else if t = OPTION
      then run_bind (xf86parseOption env print (flg_option_lst ptr) st) (\<lambda>(lst, st1). Returned (Some (ptr\<lparr>flg_option_lst := lst\<rparr>), st1))
      else Returned (None, st))"

partial_function (option) server_loop :: "env \<Rightarrow> printer \<Rightarrow> flags_section \<Rightarrow> scanner \<Rightarrow> flags_section parsed option" where
  "server_loop env print ptr st =
     (case xf86getToken env ServerFlagsTab st of
        Exited \<Rightarrow> Some Exited
      | Undefined \<Rightarrow> Some Undefined
      | Returned (t, st1) \<Rightarrow>
          if t = ENDSECTION then Some (Returned (Some ptr, st1))
          else (case flags_entry env print t ptr st1 of
                  Exited \<Rightarrow> Some Exited
                | Undefined \<Rightarrow> Some Undefined
                | Returned (r, st2) \<Rightarrow> (case r of None \<Rightarrow> Some (Returned (None, st2)) | Some ptr1 \<Rightarrow> server_loop env print ptr1 st2)))"

declare server_loop.simps [code]

definition xf86parseFlagsSection :: "env \<Rightarrow> printer \<Rightarrow> scanner \<Rightarrow> flags_section parsed" where
  "xf86parseFlagsSection env print st =
     (let st1 = st\<lparr>sc_req := sc_req st + 1\<rparr>
      in if \<not> mem_ok env (sc_req st) then Returned (None, st1)
         else run_bind (defined (server_loop env print \<lparr>flg_option_lst = [], flg_comment = None\<rparr> st1)) (\<lambda>r. r))"

definition xf86printServerFlagsSection :: "flags_section option \<Rightarrow> string option" where
  "xf86printServerFlagsSection flags =
     (case flags of
        None \<Rightarrow> Some []
      | Some f \<Rightarrow>
          if flg_option_lst f = [] then Some []
          else (case xf86printOptionList (flg_option_lst f) xf86whitespace_1 of
                  None \<Rightarrow> None
                | Some t \<Rightarrow> Some (''Section '' @ quoted ''ServerFlags'' @ NL @ (case flg_comment f of None \<Rightarrow> [] | Some c \<Rightarrow> c) @ t @ ''EndSection'' @ NL @ NL)))"

section \<open>Options of the active sections\<close>

datatype sectn_mask = FBC_SECTION_NONE | FBC_SECTION_Screen | FBC_SUBSCTN_Display | FBC_SECTION_Monitor | FBC_SECTION_Device

text \<open>The options of a section and its last line.\<close>

type_synonym opt_section = "option_rec list \<times> nat option"

record xf86_active =
  screen_sectn :: "opt_section option"
  display_subsectn :: "opt_section option"
  monitor_sectn :: "opt_section option"
  device_sectn :: "opt_section option"

definition fbc_get_Option_list :: "xf86_active \<Rightarrow> sectn_mask \<Rightarrow> opt_section option" where
  "fbc_get_Option_list active section =
     (case section of
        FBC_SECTION_NONE \<Rightarrow> None
      | FBC_SECTION_Screen \<Rightarrow> screen_sectn active
      | FBC_SUBSCTN_Display \<Rightarrow> display_subsectn active
      | FBC_SECTION_Monitor \<Rightarrow> monitor_sectn active
      | FBC_SECTION_Device \<Rightarrow> device_sectn active)"

definition store_Option_list :: "sectn_mask \<Rightarrow> option_rec list \<Rightarrow> xf86_active \<Rightarrow> xf86_active" where
  "store_Option_list section list active =
     (case section of
        FBC_SECTION_NONE \<Rightarrow> active
      | FBC_SECTION_Screen \<Rightarrow> active\<lparr>screen_sectn := map_option (\<lambda>(l, e). (list, e)) (screen_sectn active)\<rparr>
      | FBC_SUBSCTN_Display \<Rightarrow> active\<lparr>display_subsectn := map_option (\<lambda>(l, e). (list, e)) (display_subsectn active)\<rparr>
      | FBC_SECTION_Monitor \<Rightarrow> active\<lparr>monitor_sectn := map_option (\<lambda>(l, e). (list, e)) (monitor_sectn active)\<rparr>
      | FBC_SECTION_Device \<Rightarrow> active\<lparr>device_sectn := map_option (\<lambda>(l, e). (list, e)) (device_sectn active)\<rparr>)"

text \<open>Without an active section there is only a message.\<close>

definition fbc_set_Option_value ::
  "env \<Rightarrow> printer \<Rightarrow> xf86_active \<Rightarrow> sectn_mask \<Rightarrow> string \<Rightarrow> string option \<Rightarrow> ir_data line_list \<Rightarrow> nat \<Rightarrow> (xf86_active \<times> ir_data line_list \<times> nat) fbc_run" where
  "fbc_set_Option_value env print active section option_name option_value lines req =
     (case fbc_get_Option_list active section of
        None \<Rightarrow> Returned (active, lines, req)
      | Some (option_list, end_er) \<Rightarrow>
          run_bind (xf86addNewOptionOrValue env print option_list (Some option_name) option_value 0 end_er lines req) (\<lambda>(list, lines1, req1).
            Returned (store_Option_list section list active, lines1, req1)))"

definition fbc_get_Option_string_value ::
  "xf86_active \<Rightarrow> sectn_mask \<Rightarrow> string \<Rightarrow> string option \<Rightarrow> string option \<Rightarrow> string option fbc_run" where
  "fbc_get_Option_string_value active section option_name option_not_found option_value_empty =
     (case fbc_get_Option_list active section of
        None \<Rightarrow> Returned option_not_found
      | Some (option_list, end_er) \<Rightarrow>
          run_bind (xf86findOption option_list (Some option_name)) (\<lambda>entry. Returned
            (case entry of
               None \<Rightarrow> option_not_found
             | Some i \<Rightarrow> (case opt_val (option_list ! i) of None \<Rightarrow> option_value_empty | Some v \<Rightarrow> Some v))))"

fun keywd_value :: "(string \<times> int) list \<Rightarrow> string \<Rightarrow> int option" where
  "keywd_value [] v = None"
| "keywd_value ((name, n) # table) v = (if xf86nameCompare (Some name) (Some v) = Some 0 then Some n else keywd_value table v)"

definition fbc_get_Option_keywd_value :: "xf86_active \<Rightarrow> sectn_mask \<Rightarrow> string \<Rightarrow> int \<Rightarrow> int \<Rightarrow> (string \<times> int) list \<Rightarrow> int fbc_run" where
  "fbc_get_Option_keywd_value active section option_name option_not_found option_value_bad keywd_table =
     run_bind (fbc_get_Option_string_value active section option_name None (Some [])) (\<lambda>opt_val. Returned
       (case opt_val of
          None \<Rightarrow> option_not_found
        | Some v \<Rightarrow> (case keywd_value keywd_table v of None \<Rightarrow> option_value_bad | Some n \<Rightarrow> n)))"

definition keywd_boolean :: "(string \<times> int) list" where
  "keywd_boolean = [(''false'', 0), (''true'', 1), (''off'', 0), (''on'', 1), (''no'', 0), (''yes'', 1), (''0'', 0), (''1'', 1), ([], 1)]"

definition fbc_get_Option_bool_value :: "xf86_active \<Rightarrow> sectn_mask \<Rightarrow> string \<Rightarrow> bool fbc_run" where
  "fbc_get_Option_bool_value active section option_name =
     (case fbc_get_Option_list active section of
        None \<Rightarrow> Returned False
      | Some (option_list, end_er) \<Rightarrow>
          run_bind (xf86findOption option_list (Some option_name)) (\<lambda>entry. Returned
            (case entry of
               None \<Rightarrow> False
             | Some i \<Rightarrow>
                 (let v = (case opt_val (option_list ! i) of None \<Rightarrow> [] | Some v \<Rightarrow> v);
                      value = (case keywd_value keywd_boolean v of None \<Rightarrow> False | Some n \<Rightarrow> n \<noteq> 0)
                  in if xf86nameCompare (Some option_name) (opt_name (option_list ! i)) \<noteq> Some 0 then \<not> value else value))))"

record opt_mod =
  mod_section :: sectn_mask
  mod_name :: string
  mod_value :: "string option"

text \<open>Names that start with a number sign are not options of the file.\<close>

fun fbc_edit_Options :: "env \<Rightarrow> printer \<Rightarrow> xf86_active \<Rightarrow> opt_mod list \<Rightarrow> ir_data line_list \<Rightarrow> nat \<Rightarrow> (xf86_active \<times> ir_data line_list \<times> nat) fbc_run" where
  "fbc_edit_Options env print active [] lines req = Returned (active, lines, req)"
| "fbc_edit_Options env print active (m # mods) lines req =
     (if mod_name m \<noteq> [] \<and> hd (mod_name m) = CHR ''#'' then fbc_edit_Options env print active mods lines req
      else run_bind (fbc_set_Option_value env print active (mod_section m) (mod_name m) (mod_value m) lines req) (\<lambda>(active1, lines1, req1).
             fbc_edit_Options env print active1 mods lines1 req1))"

end
