(* ===== verification/Fbc_Option_Laws.thy ===== *)
theory Fbc_Option_Laws
  imports Fbc_Options Fbc_Lex
begin

text \<open>
  Option lists as maps from names to values, the changes the command line makes, and the merging of two lists.
\<close>

section \<open>When two names mean the same option\<close>

lemma nameCompare_norm: "c_string s \<Longrightarrow> c_string t \<Longrightarrow> xf86nameCompare (Some s) (Some t) = Some 0 \<longleftrightarrow> norm_name s = norm_name t"
  using name_order_agrees [of s t] by (auto simp: nameCompare_order agrees_def)

text \<open>What is left of a name after a prefix depends on the normalised name only.\<close>

lemma name_loop_rest:
  "c_string s \<Longrightarrow> c_string t \<Longrightarrow>
    map_option norm_name (snd (name_loop s t)) =
      (let p = butlast (norm_name t) in if take (length p) (norm_name s) = p then Some (drop (length p) (norm_name s)) else None) \<and>
    (\<forall>r. snd (name_loop s t) = Some r \<longrightarrow> c_string r)"
proof (induction s t rule: name_loop.induct)
  case (1 s t)
  let ?s = "dropWhile separator s" and ?t = "dropWhile separator t"
  have cs: "c_string ?s" "c_string ?t" using "1.prems" by (simp_all add: c_string_dropWhile)
  have n: "norm_name s = norm_name ?s" "norm_name t = norm_name ?t" by (simp_all add: norm_dropWhile)
  have ne: "norm_name u \<noteq> []" for u by (simp add: norm_name_def)
  show ?case
  proof (cases ?t)
    case t: Nil
    then have "snd (name_loop s t) = Some ?s" by (simp add: name_loop.simps [of s t] del: dropWhile_eq_Nil_conv)
    moreover have "butlast (norm_name t) = []" unfolding n t by (simp add: norm_name_def)
    ultimately show ?thesis using n cs by simp
  next
    case t: (Cons d ds)
    then have d: "\<not> separator d" "d \<noteq> CHR 0x00" using cs by (auto dest: dropWhile_head)
    have bt: "butlast (norm_name t) = low d # butlast (norm_name ds)" unfolding n t using d ne by (simp add: norm_Cons)
    show ?thesis
    proof (cases ?s)
      case Nil
      then have "snd (name_loop s t) = None" using t by (simp add: name_loop.simps [of s t] del: dropWhile_eq_Nil_conv)
      moreover have "norm_name s = [0]" unfolding n Nil by (simp add: norm_name_def)
      moreover have "low d \<noteq> 0" using d by (simp add: low_sign cval_0)
      ultimately show ?thesis using bt by (simp add: Let_def)
    next
      case (Cons c cs')
      then have c: "\<not> separator c" using cs by (auto dest: dropWhile_head)
      have ns: "norm_name s = low c # norm_name cs'" unfolding n Cons using c by (simp add: norm_Cons)
      show ?thesis
      proof (cases "low c = low d")
        case True
        then have "name_loop s t = name_loop cs' ds" using t Cons by (simp add: name_loop.simps [of s t])
        then show ?thesis using "1.IH" [OF refl refl t Cons True] cs t Cons True bt ns by (simp add: Let_def)
      next
        case False
        then have "snd (name_loop s t) = None" using t Cons by (simp add: name_loop.simps [of s t])
        then show ?thesis using bt ns False by (simp add: Let_def)
      qed
    qed
  qed
qed

definition after_no :: "string \<Rightarrow> string" where
  "after_no s = (case snd (xf86nameCompareResumable (Some s) (Some ''No'')) of None \<Rightarrow> s | Some r \<Rightarrow> r)"

lemma after_no_norm:
  assumes "c_string s" "c_string t" "norm_name s = norm_name t"
  shows "norm_name (after_no s) = norm_name (after_no t)" "c_string (after_no s)"
proof -
  have "c_string ''No''" by simp
  note r = name_loop_rest [OF assms(1) this] name_loop_rest [OF assms(2) this]
  then show "norm_name (after_no s) = norm_name (after_no t)" "c_string (after_no s)"
    using assms unfolding after_no_def xf86nameCompareResumable_def
    by (auto simp: Let_def split: option.splits if_splits)
qed

lemma bool_names_strings: "list_all c_string bool_option_names"
  by code_simp

lemma bool_loop_norm:
  assumes "c_string s" "c_string t" "norm_name s = norm_name t"
  shows "list_all c_string names \<Longrightarrow> bool_loop names i s = bool_loop names i t"
proof (induction names arbitrary: i)
  case (Cons name names)
  have a: "c_string (after_no s)" "c_string (after_no t)" "norm_name (after_no s) = norm_name (after_no t)"
    using after_no_norm assms by metis+
  show ?case using Cons assms nameCompare_norm [of name s] nameCompare_norm [of name t] nameCompare_norm [of name "after_no s"]
      nameCompare_norm [of name "after_no t"] a
    by (simp add: after_no_def Let_def)
qed simp

text \<open>The known Boolean option, or the normalised name.\<close>

definition option_key :: "string \<Rightarrow> int + int list" where
  "option_key s = (let i = xf86lookupBoolOption bool_option_names s in if i \<noteq> - 1 then Inl i else Inr (norm_name s))"

lemma option_names_equal:
  assumes "c_string s" "c_string t"
  shows "xf86optionNameCompare bool_option_names s t = Some 0 \<longleftrightarrow> option_key s = option_key t"
proof -
  have "norm_name s = norm_name t \<Longrightarrow> xf86lookupBoolOption bool_option_names s = xf86lookupBoolOption bool_option_names t"
    using bool_loop_norm [OF assms _ bool_names_strings] by (simp add: xf86lookupBoolOption_def)
  then show ?thesis using nameCompare_norm [OF assms] by (auto simp: xf86optionNameCompare_def option_key_def Let_def)
qed

section \<open>Lists as maps\<close>

definition key_of :: "option_rec \<Rightarrow> int + int list" where
  "key_of p = option_key (the (opt_name p))"

definition wf_options :: "option_rec list \<Rightarrow> bool" where
  "wf_options l \<longleftrightarrow> (\<forall>p\<in>set l. \<exists>n. opt_name p = Some n \<and> c_string n) \<and> distinct (map key_of l)"

definition value_in :: "option_rec list \<Rightarrow> int + int list \<Rightarrow> string option option" where
  "value_in l = map_of (map (\<lambda>p. (key_of p, opt_val p)) l)"

lemma value_None: "k \<notin> key_of ` set l \<Longrightarrow> value_in l k = None"
  by (simp add: value_in_def map_of_eq_None_iff image_image)

lemma find_loop_spec:
  "\<forall>p\<in>set l. \<exists>n. opt_name p = Some n \<and> c_string n \<Longrightarrow> c_string n \<Longrightarrow>
    (find_loop l (Some n) j = Returned None \<and> option_key n \<notin> key_of ` set l) \<or>
    (\<exists>i<length l. find_loop l (Some n) j = Returned (Some (j + i)) \<and> key_of (l ! i) = option_key n \<and> option_key n \<notin> key_of ` set (take i l))"
proof (induction l arbitrary: j)
  case (Cons p l)
  obtain m where m: "opt_name p = Some m" "c_string m" using Cons.prems(1) by auto
  have eq: "has_name (opt_name p) (Some n) = Returned (key_of p = option_key n)"
    using option_names_equal [OF m(2) Cons.prems(2)] by (simp add: has_name_def key_of_def m(1))
  show ?case
  proof (cases "key_of p = option_key n")
    case True
    then show ?thesis using eq by auto
  next
    case False
    then have f: "find_loop (p # l) (Some n) j = find_loop l (Some n) (j + 1)" using eq by simp
    from Cons.IH [of "j + 1"] Cons.prems consider "find_loop l (Some n) (j + 1) = Returned None \<and> option_key n \<notin> key_of ` set l"
      | i where "i < length l" "find_loop l (Some n) (j + 1) = Returned (Some (j + 1 + i))" "key_of (l ! i) = option_key n" "option_key n \<notin> key_of ` set (take i l)"
      by auto
    then show ?thesis
    proof cases
      case 1
      then show ?thesis using f False by auto
    next
      case (2 i)
      then show ?thesis using f False by (intro disjI2 exI [of _ "Suc i"]) auto
    qed
  qed
qed simp

lemma find_option:
  assumes "wf_options l" "c_string n"
  obtains "xf86findOption l (Some n) = Returned None" "option_key n \<notin> key_of ` set l" "value_in l (option_key n) = None"
  | i where "i < length l" "xf86findOption l (Some n) = Returned (Some i)" "key_of (l ! i) = option_key n" "value_in l (option_key n) = Some (opt_val (l ! i))"
proof -
  have d: "distinct (map key_of l)" using assms(1) by (simp add: wf_options_def)
  have "(xf86findOption l (Some n) = Returned None \<and> option_key n \<notin> key_of ` set l) \<or> (\<exists>i<length l. xf86findOption l (Some n) = Returned (Some i) \<and> key_of (l ! i) = option_key n)"
    using find_loop_spec [of l n 0] assms by (auto simp: wf_options_def xf86findOption_def)
  moreover have "option_key n \<notin> key_of ` set l \<Longrightarrow> value_in l (option_key n) = None" by (rule value_None)
  moreover have "value_in l (key_of (l ! i)) = Some (opt_val (l ! i))" if "i < length l" for i
    unfolding value_in_def using d that by (intro map_of_is_SomeI) (auto simp: comp_def)
  ultimately show thesis using that by metis
qed

lemma value_update:
  assumes "distinct (map key_of l)" "i < length l" "key_of q = key_of (l ! i)"
  shows "value_in (l[i := q]) = (value_in l)(key_of q \<mapsto> opt_val q)" "map key_of (l[i := q]) = map key_of l"
proof -
  show k: "map key_of (l[i := q]) = map key_of l" using assms(2,3) by (simp add: map_update list_update_same_conv)
  have d: "distinct (map fst (map (\<lambda>p. (key_of p, opt_val p)) (l[i := q])))" using assms(1) k by (simp add: comp_def)
  show "value_in (l[i := q]) = (value_in l)(key_of q \<mapsto> opt_val q)"
  proof
    fix x
    show "value_in (l[i := q]) x = ((value_in l)(key_of q \<mapsto> opt_val q)) x"
    proof (cases "x \<in> key_of ` set l")
      case False
      then have "x \<notin> key_of ` set (l[i := q])" using k by (metis list.set_map)
      moreover have "x \<noteq> key_of q" using False assms(2,3) by auto
      ultimately show ?thesis using False by (simp add: value_None)
    next
      case True
      then obtain j where j: "j < length l" "x = key_of (l ! j)" by (auto simp: in_set_conv_nth)
      have "(key_of ((l[i := q]) ! j), opt_val ((l[i := q]) ! j)) \<in> set (map (\<lambda>p. (key_of p, opt_val p)) (l[i := q]))" using j(1) by auto
      then have "value_in (l[i := q]) (key_of ((l[i := q]) ! j)) = Some (opt_val ((l[i := q]) ! j))"
        unfolding value_in_def by (rule map_of_is_SomeI [OF d])
      moreover have "value_in l x = Some (opt_val (l ! j))"
        unfolding value_in_def using j assms(1) by (intro map_of_is_SomeI) (auto simp: comp_def)
      moreover have "i = j \<longleftrightarrow> x = key_of q" using j assms by (auto simp: distinct_conv_nth)
      ultimately show ?thesis using j assms(2,3) by (cases "i = j") auto
    qed
  qed
qed

text \<open>Setting an option changes its value and no other, and no name comes to stand twice.\<close>

lemma option_set:
  assumes "xf86addNewOptionOrValue env print l (Some n) v used e lines req = Returned (l', lines', req')" "wf_options l" "c_string n"
  shows "wf_options l' \<and> value_in l' = (value_in l)(option_key n \<mapsto> v) \<and> (\<forall>p\<in>set l'. key_of p = option_key n \<or> p \<in> set l)"
  using assms(2,3)
proof (cases rule: find_option)
  case 1
  obtain p where p: "xf86newOption env (Some n) v req = Some p" using assms(1) 1 by (auto simp: xf86addNewOptionOrValue_def split: option.splits)
  then have k: "key_of (p\<lparr>opt_used := used\<rparr>) = option_key n" "opt_val (p\<lparr>opt_used := used\<rparr>) = v" "opt_name (p\<lparr>opt_used := used\<rparr>) = Some n"
    by (auto simp: xf86newOption_def key_of_def split: if_splits)
  have l': "l' = l @ [p\<lparr>opt_used := used\<rparr>]"
    using assms(1) 1 p by (auto simp: xf86addNewOptionOrValue_def Let_def run_bind_Returned split: option.splits)
  have "value_in l' = (value_in l)(option_key n \<mapsto> v)"
    unfolding l' value_in_def using k 1(2,3) by (auto simp: map_add_def fun_eq_iff value_in_def split: option.splits)
  then show ?thesis using assms(2,3) k 1(2) unfolding l' wf_options_def by auto
next
  case (2 i)
  let ?q = "(l ! i)\<lparr>opt_name := Some n, opt_val := v, opt_used := used\<rparr>"
  have l': "l' = l[i := ?q]" using assms(1) 2 by (auto simp: xf86addNewOptionOrValue_def Let_def run_bind_Returned split: if_splits)
  have k: "key_of ?q = option_key n" by (simp add: key_of_def)
  have d: "distinct (map key_of l)" using assms(2) by (simp add: wf_options_def)
  have "\<forall>p\<in>set l'. p = ?q \<or> p \<in> set l" unfolding l' using set_update_subset_insert by fastforce
  then show ?thesis using value_update [OF d 2(1), of ?q] k 2(3) assms(2,3) unfolding wf_options_def l'
    by (auto simp: l' [symmetric])
qed

section \<open>Setting many options\<close>

text \<open>
  What a store of named values promises: a name that is set has the value, every other name keeps its own. Then
  after any sequence of changes a name has the value it was given last.
\<close>

locale value_store =
  fixes sets :: "'l \<Rightarrow> 'n \<Rightarrow> 'v \<Rightarrow> 'l \<Rightarrow> bool"
    and val_of :: "'l \<Rightarrow> 'n \<Rightarrow> 'v option"
    and same :: "'n \<Rightarrow> 'n \<Rightarrow> bool"
    and ok :: "'n \<Rightarrow> bool"
    and inv :: "'l \<Rightarrow> bool"
  assumes inv_sets: "sets l n v l' \<Longrightarrow> inv l \<Longrightarrow> ok n \<Longrightarrow> inv l'"
    and val_sets: "sets l n v l' \<Longrightarrow> inv l \<Longrightarrow> ok n \<Longrightarrow> ok m \<Longrightarrow> val_of l' m = (if same n m then Some v else val_of l m)"
begin

primrec sets_all :: "('n \<times> 'v) list \<Rightarrow> 'l \<Rightarrow> 'l \<Rightarrow> bool" where
  "sets_all [] l l' \<longleftrightarrow> l = l'"
| "sets_all (c # cs) l l' \<longleftrightarrow> (\<exists>l1. sets l (fst c) (snd c) l1 \<and> sets_all cs l1 l')"

definition last_value :: "('n \<times> 'v) list \<Rightarrow> 'n \<Rightarrow> 'v option" where
  "last_value cs m = map_option snd (find (\<lambda>c. same (fst c) m) (rev cs))"

lemma sets_all_inv: "sets_all cs l l' \<Longrightarrow> inv l \<Longrightarrow> \<forall>c\<in>set cs. ok (fst c) \<Longrightarrow> inv l'"
  by (induction cs arbitrary: l) (auto intro: inv_sets)

lemma sets_all_value:
  "sets_all cs l l' \<Longrightarrow> inv l \<Longrightarrow> \<forall>c\<in>set cs. ok (fst c) \<Longrightarrow> ok m \<Longrightarrow>
    val_of l' m = (case last_value cs m of None \<Rightarrow> val_of l m | Some v \<Rightarrow> Some v)"
proof (induction cs arbitrary: l)
  case (Cons c cs)
  then obtain l1 where l1: "sets l (fst c) (snd c) l1" "sets_all cs l1 l'" by auto
  then have "inv l1" using inv_sets Cons.prems by auto
  then show ?case using Cons.IH [OF l1(2)] Cons.prems val_sets [OF l1(1), of m]
    by (auto simp: last_value_def find_append split: option.splits)
qed (simp add: last_value_def)

end

definition option_sets :: "option_rec list \<Rightarrow> string \<Rightarrow> string option \<Rightarrow> option_rec list \<Rightarrow> bool" where
  "option_sets l n v l' \<longleftrightarrow>
     (\<exists>env print used e lines req lines' req'. xf86addNewOptionOrValue env print l (Some n) v used e lines req = Returned (l', lines', req'))"

interpretation opt: value_store option_sets "\<lambda>l n. value_in l (option_key n)" "\<lambda>n m. option_key n = option_key m" c_string wf_options
  by unfold_locales (auto simp: option_sets_def dest: option_set)

section \<open>What the command line changes\<close>

definition real_mod :: "opt_mod \<Rightarrow> bool" where
  "real_mod m \<longleftrightarrow> \<not> (mod_name m \<noteq> [] \<and> hd (mod_name m) = CHR ''#'')"

definition mods_of :: "sectn_mask \<Rightarrow> opt_mod list \<Rightarrow> (string \<times> string option) list" where
  "mods_of section mods = map (\<lambda>m. (mod_name m, mod_value m)) (filter (\<lambda>m. real_mod m \<and> mod_section m = section) mods)"

lemma mods_of_simps [simp]:
  "mods_of section [] = []"
  "mods_of section (m # mods) = (if real_mod m \<and> mod_section m = section then (mod_name m, mod_value m) # mods_of section mods else mods_of section mods)"
  by (simp_all add: mods_of_def)

text \<open>No option is named twice for a section.\<close>

definition named_once :: "opt_mod list \<Rightarrow> bool" where
  "named_once mods \<longleftrightarrow> (\<forall>section. distinct (map (option_key \<circ> fst) (mods_of section mods)))"

text \<open>The lines of the sections: the last line is in the list, and so is the line of every option that will be changed.\<close>

definition lines_for :: "nat list \<Rightarrow> (int + int list) set \<Rightarrow> opt_section \<Rightarrow> bool" where
  "lines_for xs ks sec \<longleftrightarrow> wf_options (fst sec) \<and>
     (\<forall>n. snd sec = Some n \<longrightarrow> n \<in> set xs \<and> (\<forall>p\<in>set (fst sec). key_of p \<in> ks \<longrightarrow> (\<exists>a\<in>set xs. opt_line_er p = Some a)))"

lemma set_returns:
  assumes "good_env env" "dll lines xs" "\<forall>k\<ge>req. mem_addr env k \<notin> set xs" "lines_for xs ks (l, e)" "c_string n" "option_key n \<in> ks"
  shows "\<exists>l' lines' req' ys. xf86addNewOptionOrValue env print l (Some n) v used e lines req = Returned (l', lines', req') \<and> dll lines' ys \<and> set xs \<subseteq> set ys \<and>
    req \<le> req' \<and> (\<forall>k\<ge>req'. mem_addr env k \<notin> set ys) \<and> lines_for ys (ks - {option_key n}) (l', e)"
proof -
  have wf: "wf_options l" using assms(4) by (simp add: lines_for_def)
  have mem: "mem_ok env k" "inj (mem_addr env)" for k using assms(1) by (auto simp: good_env_def)
  have after: "lines_for ys (ks - {option_key n}) (l', e)" if "xf86addNewOptionOrValue env print l (Some n) v used e lines req = Returned (l', lines', req')" "set xs \<subseteq> set ys" for l' lines' req' ys
    using option_set [OF that(1) wf assms(5)] assms(4) that(2) unfolding lines_for_def by (auto 4 4)
  show ?thesis
  proof (cases e)
    case None
    from wf assms(5) obtain l' req' where "xf86addNewOptionOrValue env print l (Some n) v used e lines req = Returned (l', lines, req')" "req \<le> req'"
      by (cases rule: find_option) (auto simp: xf86addNewOptionOrValue_def xf86newOption_def mem None Let_def)
    then show ?thesis using after [of l' lines req' xs] assms(2,3) by (intro exI [of _ l'] exI [of _ lines] exI [of _ req'] exI [of _ xs]) auto
  next
    case (Some b)
    then have b: "b \<in> set xs" using assms(4) by (simp add: lines_for_def)
    from wf assms(5) show ?thesis
    proof (cases rule: find_option)
      case 1
      let ?a = "mem_addr env (req + 1)"
      have a: "?a \<notin> set xs" using assms(3) by simp
      obtain lines' where lines': "fbc_insert_line_ER (Some ?a) (mem_raw env) (Some b) (Some (Other_entry (mem_addr env req))) (Some print) FBC_INDENT_ENTRY lines = Some (Some ?a, lines')"
          "edited lines xs None lines' (Fbc_Line_ER.before (Some b) ?a xs)"
        using insert_line_edited [OF assms(2) a, of "Some b"] b by blast
      let ?ys = "Fbc_Line_ER.before (Some b) ?a xs"
      have ys: "set ?ys = insert ?a (set xs)"
      proof -
        have "set (takeWhile (\<lambda>x. x \<noteq> b) xs) \<union> set (dropWhile (\<lambda>x. x \<noteq> b) xs) = set xs" by (metis set_append takeWhile_dropWhile_id)
        then show ?thesis by (auto simp: Fbc_Line_ER.before_def)
      qed
      have r: "xf86addNewOptionOrValue env print l (Some n) v used e lines req =
          Returned (l @ [\<lparr>opt_name = Some n, opt_val = v, opt_used = used, opt_comment = None, opt_line_er = None, opt_addr = mem_addr env req\<rparr>], lines', req + 2)"
        using 1 lines'(1) by (simp add: xf86addNewOptionOrValue_def xf86newOption_def mem Some Let_def)
      have "\<forall>k\<ge>req + 2. mem_addr env k \<notin> set ?ys" using assms(3) mem(2) ys by (auto dest: injD)
      then show ?thesis using r after [OF r, of ?ys] lines'(2) ys by (intro exI) (auto simp: edited_def)
    next
      case (2 i)
      have "l ! i \<in> set l" using 2(1) by simp
      then obtain c where c: "c \<in> set xs" "opt_line_er (l ! i) = Some c" using assms(4,6) 2(3) Some by (auto simp: lines_for_def)
      obtain lines' where lines': "fbc_modify_line_ER (Some c) lines = Some lines'" "edited lines xs (Some c) lines' xs"
        using edited_update [OF assms(2) c(1), of "\<lambda>e. e\<lparr>status := FBC_LINE_MODIFIED\<rparr>"] by (auto simp: fbc_modify_line_ER_def)
      have r: "xf86addNewOptionOrValue env print l (Some n) v used e lines req =
          Returned (l[i := (l ! i)\<lparr>opt_name := Some n, opt_val := v, opt_used := used\<rparr>], lines', req)"
        using 2 c(2) lines'(1) Some by (simp add: xf86addNewOptionOrValue_def Let_def)
      then show ?thesis using after [OF r, of xs] lines'(2) assms(3) by (intro exI) (auto simp: edited_def)
    qed
  qed
qed

lemma stored_lists:
  "fbc_get_Option_list active section = Some (l, e) \<Longrightarrow>
    fbc_get_Option_list (store_Option_list section l' active) other = (if other = section then Some (l', e) else fbc_get_Option_list active other)"
  by (cases "section"; cases other) (auto simp: fbc_get_Option_list_def store_Option_list_def)

text \<open>The keys that are still to be set in a section.\<close>

definition keys_of :: "sectn_mask \<Rightarrow> opt_mod list \<Rightarrow> (int + int list) set" where
  "keys_of section mods = (option_key \<circ> fst) ` set (mods_of section mods)"

definition sections_ready :: "xf86_active \<Rightarrow> opt_mod list \<Rightarrow> nat list \<Rightarrow> bool" where
  "sections_ready active mods xs \<longleftrightarrow> (\<forall>section sec. fbc_get_Option_list active section = Some sec \<longrightarrow> lines_for xs (keys_of section mods) sec)"

lemma lines_for_weaken: "lines_for xs ks sec \<Longrightarrow> set xs \<subseteq> set ys \<Longrightarrow> ks' \<subseteq> ks \<Longrightarrow> lines_for ys ks' sec"
  unfolding lines_for_def by fast

lemma keys_of_mono: "keys_of s mods \<subseteq> keys_of s (m # mods)"
  by (auto simp: keys_of_def)

lemma sections_ready_mono: "sections_ready active (m # mods) xs \<Longrightarrow> set xs \<subseteq> set ys \<Longrightarrow> sections_ready active mods ys"
  unfolding sections_ready_def using lines_for_weaken keys_of_mono by blast

lemma edit_returns:
  assumes "good_env env"
  shows "dll lines xs \<Longrightarrow> \<forall>k\<ge>req. mem_addr env k \<notin> set xs \<Longrightarrow> sections_ready active mods xs \<Longrightarrow> named_once mods \<Longrightarrow> \<forall>m\<in>set mods. c_string (mod_name m) \<Longrightarrow>
    \<exists>active' lines' req'. fbc_edit_Options env print active mods lines req = Returned (active', lines', req') \<and>
      (\<forall>section. case fbc_get_Option_list active section of
         None \<Rightarrow> fbc_get_Option_list active' section = None
       | Some (l, e) \<Rightarrow> \<exists>l'. fbc_get_Option_list active' section = Some (l', e) \<and> opt.sets_all (mods_of section mods) l l')"
proof (induction mods arbitrary: active lines req xs)
  case Nil
  show ?case by (simp split: option.splits prod.splits)
next
  case (Cons m mods)
  have once: "named_once mods" using Cons.prems(4) unfolding named_once_def by (auto split: if_splits)
  show ?case
  proof (cases "real_mod m \<and> fbc_get_Option_list active (mod_section m) \<noteq> None")
    case False
    have "sections_ready active mods xs" using sections_ready_mono [OF Cons.prems(3)] by simp
    from Cons.IH [OF Cons.prems(1,2) this once] Cons.prems(5)
    obtain active' lines' req' where r: "fbc_edit_Options env print active mods lines req = Returned (active', lines', req')"
      "\<forall>section. case fbc_get_Option_list active section of None \<Rightarrow> fbc_get_Option_list active' section = None
         | Some (l, e) \<Rightarrow> \<exists>l'. fbc_get_Option_list active' section = Some (l', e) \<and> opt.sets_all (mods_of section mods) l l'"
      by auto
    have "fbc_edit_Options env print active (m # mods) lines req = fbc_edit_Options env print active mods lines req"
      using False by (cases "fbc_get_Option_list active (mod_section m)") (auto simp: real_mod_def fbc_set_Option_value_def)
    moreover have "case fbc_get_Option_list active section of None \<Rightarrow> fbc_get_Option_list active' section = None
         | Some (l, e) \<Rightarrow> \<exists>l'. fbc_get_Option_list active' section = Some (l', e) \<and> opt.sets_all (mods_of section (m # mods)) l l'" for "section"
      using r(2) [rule_format, of "section"] False by (cases "fbc_get_Option_list active section") auto
    ultimately show ?thesis using r(1) by auto
  next
    case True
    let ?s = "mod_section m" and ?k = "option_key (mod_name m)"
    obtain l e where le: "fbc_get_Option_list active ?s = Some (l, e)" using True by auto
    have rd: "lines_for xs (keys_of ?s (m # mods)) (l, e)" using Cons.prems(3) le by (simp add: sections_ready_def)
    have c: "c_string (mod_name m)" using Cons.prems(5) by simp
    have "?k \<in> keys_of ?s (m # mods)" using True by (auto simp: keys_of_def)
    from set_returns [OF assms Cons.prems(1,2) rd c this, of print "mod_value m" 0]
    obtain l' lines1 req1 ys where s: "xf86addNewOptionOrValue env print l (Some (mod_name m)) (mod_value m) 0 e lines req = Returned (l', lines1, req1)"
      "dll lines1 ys" "set xs \<subseteq> set ys" "req \<le> req1" "\<forall>k\<ge>req1. mem_addr env k \<notin> set ys" "lines_for ys (keys_of ?s (m # mods) - {?k}) (l', e)"
      by blast
    let ?a = "store_Option_list ?s l' active"
    note st = stored_lists [OF le, of l']
    have "keys_of ?s mods \<subseteq> keys_of ?s (m # mods) - {?k}"
      using Cons.prems(4) True unfolding named_once_def keys_of_def by (auto split: if_splits)
    then have "lines_for ys (keys_of ?s mods) (l', e)" using s(6) lines_for_weaken by blast
    moreover have "sections_ready active mods ys" using sections_ready_mono [OF Cons.prems(3) s(3)] .
    ultimately have "sections_ready ?a mods ys" unfolding sections_ready_def using st by auto
    from Cons.IH [OF s(2,5) this once] Cons.prems(5)
    obtain active' lines' req' where r: "fbc_edit_Options env print ?a mods lines1 req1 = Returned (active', lines', req')"
      "\<forall>section. case fbc_get_Option_list ?a section of None \<Rightarrow> fbc_get_Option_list active' section = None
         | Some (l, e) \<Rightarrow> \<exists>l'. fbc_get_Option_list active' section = Some (l', e) \<and> opt.sets_all (mods_of section mods) l l'"
      by auto
    have "fbc_edit_Options env print active (m # mods) lines req = Returned (active', lines', req')"
      using True le s(1) r(1) by (auto simp: real_mod_def fbc_set_Option_value_def)
    moreover have "case fbc_get_Option_list active section of None \<Rightarrow> fbc_get_Option_list active' section = None
         | Some (l, e) \<Rightarrow> \<exists>l'. fbc_get_Option_list active' section = Some (l', e) \<and> opt.sets_all (mods_of section (m # mods)) l l'" for "section"
    proof (cases "section = ?s")
      case sec: True
      have "option_sets l (mod_name m) (mod_value m) l'" using s(1) unfolding option_sets_def by blast
      then show ?thesis using r(2) [rule_format, of "section"] st [of "section"] le True sec by auto
    next
      case False
      then have "mods_of section (m # mods) = mods_of section mods" by simp
      then show ?thesis using r(2) [rule_format, of "section"] st [of "section"] False by (cases "fbc_get_Option_list active section") auto
    qed
    ultimately show ?thesis by blast
  qed
qed

lemma find_rev: "distinct (map f xs) \<Longrightarrow> find (\<lambda>x. f x = k) (rev xs) = find (\<lambda>x. f x = k) xs"
proof (induction xs)
  case (Cons x xs)
  have "find (\<lambda>y. f y = k) xs = None" if "f x = k" using Cons.prems that by (auto simp: find_None_iff) (metis image_eqI)
  then show ?case using Cons by (auto simp: find_append split: option.splits)
qed simp

lemma once_found:
  assumes "named_once mods"
  shows "map_option snd (find (\<lambda>c. option_key (fst c) = option_key n) (rev (mods_of sec mods))) =
    map_option mod_value (find (\<lambda>m. real_mod m \<and> mod_section m = sec \<and> option_key (mod_name m) = option_key n) mods)"
proof -
  have "distinct (map (\<lambda>c. option_key (fst c)) (mods_of sec mods))" using assms by (simp add: named_once_def comp_def)
  then have "find (\<lambda>c. option_key (fst c) = option_key n) (rev (mods_of sec mods)) = find (\<lambda>c. option_key (fst c) = option_key n) (mods_of sec mods)"
    by (rule find_rev)
  moreover have "map_option snd (find (\<lambda>c. option_key (fst c) = option_key n) (mods_of sec mods)) =
      map_option mod_value (find (\<lambda>m. real_mod m \<and> mod_section m = sec \<and> option_key (mod_name m) = option_key n) mods)"
    by (induction mods) auto
  ultimately show ?thesis by simp
qed

lemma string_value:
  assumes "wf_options l" "c_string n" "fbc_get_Option_list active sec = Some (l, e)"
  shows "fbc_get_Option_string_value active sec n not_found no_value =
    Returned (case value_in l (option_key n) of None \<Rightarrow> not_found | Some None \<Rightarrow> no_value | Some (Some v) \<Rightarrow> Some v)"
  using assms(1,2) by (cases rule: find_option) (auto simp: fbc_get_Option_string_value_def assms(3) split: option.splits)

text \<open>
  C16. The options that the command line changes are changed as asked for and no others: when every option is named once for
  its section, the options of the file have their lines and memory does not run out, the changes succeed; a section
  that is not active is left out; and the value that is found afterwards under any name is the one given on the command
  line for that option, however its name is spelled, or else what was found before. No option comes to stand twice.
\<close>

theorem options_edited:
  assumes "good_env env" "dll lines xs" "\<forall>k\<ge>req. mem_addr env k \<notin> set xs" "sections_ready active mods xs" "named_once mods"
    and "\<forall>m\<in>set mods. c_string (mod_name m)" "c_string n"
  shows "\<exists>active' lines' req'. fbc_edit_Options env print active mods lines req = Returned (active', lines', req') \<and>
    fbc_get_Option_string_value active' sec n not_found no_value =
      (if fbc_get_Option_list active sec = None then Returned not_found
       else case find (\<lambda>m. real_mod m \<and> mod_section m = sec \<and> option_key (mod_name m) = option_key n) mods of
              None \<Rightarrow> fbc_get_Option_string_value active sec n not_found no_value
            | Some m \<Rightarrow> Returned (case mod_value m of None \<Rightarrow> no_value | Some v \<Rightarrow> Some v)) \<and>
    (\<forall>l e. fbc_get_Option_list active' sec = Some (l, e) \<longrightarrow> wf_options l)"
proof -
  obtain active' lines' req' where r: "fbc_edit_Options env print active mods lines req = Returned (active', lines', req')"
    "case fbc_get_Option_list active sec of None \<Rightarrow> fbc_get_Option_list active' sec = None
       | Some (l, e) \<Rightarrow> \<exists>l'. fbc_get_Option_list active' sec = Some (l', e) \<and> opt.sets_all (mods_of sec mods) l l'"
    using edit_returns [OF assms(1-6)] by blast
  show ?thesis
  proof (cases "fbc_get_Option_list active sec")
    case None
    then show ?thesis using r by (auto simp: fbc_get_Option_string_value_def)
  next
    case (Some le)
    obtain l e where le: "le = (l, e)" by force
    obtain l' where l': "fbc_get_Option_list active' sec = Some (l', e)" "opt.sets_all (mods_of sec mods) l l'" using r(2) Some le by auto
    have wf: "wf_options l" using assms(4) Some le by (auto simp: sections_ready_def lines_for_def)
    have names: "\<forall>c\<in>set (mods_of sec mods). c_string (fst c)" using assms(6) by (auto simp: mods_of_def)
    have wf': "wf_options l'" using opt.sets_all_inv [OF l'(2) wf names] .
    have "opt.last_value (mods_of sec mods) n = map_option mod_value (find (\<lambda>m. real_mod m \<and> mod_section m = sec \<and> option_key (mod_name m) = option_key n) mods)"
      using once_found [OF assms(5), of n sec] by (simp add: opt.last_value_def)
    then show ?thesis
      using opt.sets_all_value [OF l'(2) wf names assms(7)] string_value [OF wf' assms(7) l'(1)] string_value [OF wf assms(7) Some [unfolded le]] Some le r(1) wf' l'(1)
      by (auto split: option.splits)
  qed
qed

definition one_line :: "ir_data line_list" where
  "one_line = \<lparr>elems = [5 \<mapsto> mem_raw sample_env], head_ptr = Some 5, tail_ptr = Some 5\<rparr>"

definition device_only :: xf86_active where
  "device_only = \<lparr>screen_sectn = None, display_subsectn = None, monitor_sectn = None, device_sectn = Some ([], Some 5)\<rparr>"

definition wide_mods :: "opt_mod list" where
  "wide_mods = [\<lparr>mod_section = FBC_SECTION_Device, mod_name = ''#Gamma'', mod_value = Some ''2''\<rparr>,
     \<lparr>mod_section = FBC_SECTION_Device, mod_name = ''DoubleWide'', mod_value = Some ''Enable''\<rparr>,
     \<lparr>mod_section = FBC_SECTION_Screen, mod_name = ''Clone'', mod_value = None\<rparr>]"

theorem options_edited_witness:
  "\<exists>active' lines' req'. fbc_edit_Options sample_env (\<lambda>d w. []) device_only wide_mods one_line 0 = Returned (active', lines', req') \<and>
    fbc_get_Option_string_value active' FBC_SECTION_Device ''NoDouble_wide'' None None = Returned (Some ''Enable'')"
proof -
  have k: "option_key ''DoubleWide'' = option_key ''NoDouble_wide''" by code_simp
  have e: "good_env sample_env" by (simp add: good_env_def sample_env_def inj_def)
  have d: "dll one_line [5]" by (simp add: dll_def one_line_def sample_env_def)
  have a: "\<forall>k\<ge>0. mem_addr sample_env k \<notin> set [5]" by (simp add: sample_env_def)
  have r: "sections_ready device_only wide_mods [5]"
    unfolding sections_ready_def by (auto simp: device_only_def lines_for_def wf_options_def fbc_get_Option_list_def split: sectn_mask.splits)
  have o: "named_once wide_mods" by (auto simp: named_once_def wide_mods_def real_mod_def)
  have c: "\<forall>m\<in>set wide_mods. c_string (mod_name m)" "c_string ''NoDouble_wide''" by (simp_all add: wide_mods_def)
  from options_edited [OF e d a r o c, of "\<lambda>d w. []" FBC_SECTION_Device None None]
  show ?thesis using k by (auto simp: wide_mods_def real_mod_def device_only_def fbc_get_Option_list_def)
qed

text \<open>
  C40. An option that has been inserted cannot be set a second time: its line is not recorded with it, and marking the line
  as modified goes through a null pointer.
\<close>

theorem inserted_option_set_again:
  assumes "wf_options l" "c_string n" "c_string n'" "option_key n' = option_key n" "xf86findOption l (Some n) = Returned None"
    and "xf86addNewOptionOrValue env print l (Some n) v used (Some b) lines req = Returned (l', lines', req')"
  shows "xf86addNewOptionOrValue env print l' (Some n') v' used' (Some b) lines' req' = Undefined"
proof -
  obtain p where p: "l' = l @ [p]" "opt_line_er p = None"
    using assms(5,6) by (auto simp: xf86addNewOptionOrValue_def xf86newOption_def Let_def run_bind_Returned split: if_splits)
  have wf: "wf_options l'" and v: "value_in l' (option_key n) = Some v" using option_set [OF assms(6,1,2)] by auto
  from assms(1,2) have "option_key n \<notin> key_of ` set l" by (cases rule: find_option) (use assms(5) in auto)
  then have old: "key_of (l ! i) \<noteq> option_key n" if "i < length l" for i using that by (metis image_eqI nth_mem)
  from wf assms(3) show ?thesis
  proof (cases rule: find_option)
    case 1
    then show ?thesis using v assms(4) by simp
  next
    case (2 i)
    then have "i = length l" using old assms(4) p(1) by (auto simp: nth_append split: if_splits)
    then have "opt_line_er (l' ! i) = None" using p by simp
    then show ?thesis using 2(2) by (simp add: xf86addNewOptionOrValue_def fbc_modify_line_ER_def Let_def)
  qed
qed

theorem inserted_option_set_again_witness:
  "\<exists>l' lines' req'. xf86addNewOptionOrValue sample_env (\<lambda>d w. []) [] (Some ''DoubleWide'') None 0 (Some 5) one_line 0 = Returned (l', lines', req') \<and>
    xf86addNewOptionOrValue sample_env (\<lambda>d w. []) l' (Some ''NoDoubleWide'') None 0 (Some 5) lines' req' = Undefined"
proof -
  have k: "option_key ''NoDoubleWide'' = option_key ''DoubleWide''" by code_simp
  have w: "wf_options []" "c_string ''DoubleWide''" "c_string ''NoDoubleWide''" "xf86findOption [] (Some ''DoubleWide'') = Returned None"
    by (simp_all add: wf_options_def xf86findOption_def)
  obtain l' lines' req' where r: "xf86addNewOptionOrValue sample_env (\<lambda>d w. []) [] (Some ''DoubleWide'') None 0 (Some 5) one_line 0 = Returned (l', lines', req')"
    by (simp add: xf86addNewOptionOrValue_def xf86findOption_def xf86newOption_def fbc_insert_line_ER_def fbc_list_insert_prev_def update_elem_def one_line_def sample_env_def Let_def)
  show ?thesis using r inserted_option_set_again [OF w(1-3) k w(4) r] by blast
qed

section \<open>Merging\<close>

definition plain_name :: "option_rec \<Rightarrow> int list" where
  "plain_name p = norm_name (the (opt_name p))"

definition plain_names :: "option_rec list \<Rightarrow> bool" where
  "plain_names l \<longleftrightarrow> (\<forall>p\<in>set l. \<exists>n. opt_name p = Some n \<and> c_string n) \<and> distinct (map plain_name l)"

definition user_choice :: "option_rec list \<Rightarrow> option_rec \<Rightarrow> option_rec" where
  "user_choice tail b = (case find (\<lambda>a. plain_name a = plain_name b) tail of None \<Rightarrow> b | Some a \<Rightarrow> a)"

lemma names_compared:
  "\<exists>n. opt_name a = Some n \<and> c_string n \<Longrightarrow> \<exists>n. opt_name b = Some n \<and> c_string n \<Longrightarrow>
    \<exists>r. xf86nameCompare (opt_name a) (opt_name b) = Some r \<and> (r = 0 \<longleftrightarrow> plain_name a = plain_name b)"
  using nameCompare_norm by (auto simp: plain_name_def nameCompare_order)

lemma find_distinct: "distinct (map f xs) \<Longrightarrow> i < length xs \<Longrightarrow> f (xs ! i) = k \<Longrightarrow> find (\<lambda>x. f x = k) xs = Some (xs ! i)"
proof (induction xs arbitrary: i)
  case (Cons x xs)
  show ?case
  proof (cases i)
    case (Suc j)
    then have "f (xs ! j) \<in> f ` set xs" using Cons.prems(2) by simp
    then show ?thesis using Cons Suc by auto
  qed (use Cons.prems in simp)
qed simp

lemma find_removed: "f (xs ! i) \<noteq> k \<Longrightarrow> i < length xs \<Longrightarrow> find (\<lambda>x. f x = k) (take i xs @ drop (Suc i) xs) = find (\<lambda>x. f x = k) xs"
proof (induction xs arbitrary: i)
  case (Cons x xs)
  then show ?case by (cases i) auto
qed simp

lemma filter_removed: "\<not> P (xs ! i) \<Longrightarrow> i < length xs \<Longrightarrow> filter P (take i xs @ drop (Suc i) xs) = filter P xs"
  by (metis append_take_drop_id filter.simps(2) filter_append id_take_nth_drop)

lemma plain_names_removed: "plain_names xs \<Longrightarrow> plain_names (take i xs @ drop (Suc i) xs)"
proof -
  have "distinct (take i ys @ drop (Suc i) ys)" if "distinct ys" for ys :: "int list list"
    using that by (simp add: set_take_disj_set_drop_if_distinct)
  from this [of "map plain_name xs"] show "plain_names xs \<Longrightarrow> ?thesis"
    by (auto simp: plain_names_def take_map drop_map dest: in_set_takeD in_set_dropD)
qed

lemma merge_loop_result:
  "plain_names bs \<Longrightarrow> plain_names tail \<Longrightarrow> i \<le> length tail \<Longrightarrow> (i = length tail \<longrightarrow> tail = []) \<Longrightarrow> (\<forall>b. bs \<noteq> [] \<longrightarrow> plain_name (hd bs) \<notin> plain_name ` set (take i tail)) \<Longrightarrow>
    merge_loop hs bs tail i = Some (hs @ map (user_choice tail) bs @ filter (\<lambda>a. plain_name a \<notin> plain_name ` set bs) tail)"
proof (induction hs bs tail i rule: merge_loop.induct)
  case (1 hs bs tail i)
  show ?case
  proof (cases "length tail \<le> i \<or> bs = []")
    case True
    then consider "tail = []" | "bs = []" using "1.prems"(3,4) by auto
    then show ?thesis by cases (simp_all add: merge_loop.simps [of hs] user_choice_def map_idI split: list.splits)
  next
    case False
    then obtain b bs1 where bs: "bs = b # bs1" and i: "i < length tail" by (cases bs) auto
    let ?a = "tail ! i" and ?rest = "take i tail @ drop (Suc i) tail"
    have "?a \<in> set tail" using i by simp
    then obtain r where r: "xf86nameCompare (opt_name ?a) (opt_name b) = Some r" "r = 0 \<longleftrightarrow> plain_name ?a = plain_name b"
      using names_compared [of ?a b] "1.prems"(1,2) bs unfolding plain_names_def by auto
    have pb: "plain_names bs1" "plain_name b \<notin> plain_name ` set bs1" using "1.prems"(1) bs by (auto simp: plain_names_def)
    have dt: "distinct (map plain_name tail)" using "1.prems"(2) by (simp add: plain_names_def)
    show ?thesis
    proof (cases "r = 0")
      case True
      have step: "merge_loop hs bs tail i = merge_loop (hs @ [?a]) bs1 ?rest 0" using True i bs r(1) by (simp add: merge_loop.simps [of hs])
      have "merge_loop (hs @ [?a]) bs1 ?rest 0 = Some ((hs @ [?a]) @ map (user_choice ?rest) bs1 @ filter (\<lambda>a. plain_name a \<notin> plain_name ` set bs1) ?rest)"
        using "1.IH"(1) [OF _ bs r(1) True] i pb(1) plain_names_removed [OF "1.prems"(2)] by simp
      moreover have "user_choice tail b = ?a" using find_distinct [OF dt i] r(2) True by (simp add: user_choice_def)
      moreover have "map (user_choice ?rest) bs1 = map (user_choice tail) bs1"
      proof (rule map_cong [OF refl])
        fix c assume "c \<in> set bs1"
        then have "plain_name ?a \<noteq> plain_name c" using r(2) True pb(2) by auto
        then show "user_choice ?rest c = user_choice tail c" unfolding user_choice_def using find_removed [of plain_name tail i, OF _ i] by simp
      qed
      moreover have "filter (\<lambda>a. plain_name a \<notin> plain_name ` set bs1) ?rest = filter (\<lambda>a. plain_name a \<notin> plain_name ` set bs) tail"
      proof -
        have "plain_name x \<noteq> plain_name b" if "x \<in> set ?rest" for x
        proof -
          have "distinct (map plain_name (take i tail @ ?a # drop (Suc i) tail))" using dt i by (simp add: id_take_nth_drop [symmetric])
          then show ?thesis using that r(2) True by (auto simp: image_iff)
        qed
        then have "filter (\<lambda>a. plain_name a \<notin> plain_name ` set bs1) ?rest = filter (\<lambda>a. plain_name a \<notin> plain_name ` set bs) ?rest" unfolding bs by (intro filter_cong) auto
        also have "\<dots> = filter (\<lambda>a. plain_name a \<notin> plain_name ` set bs) tail" using r(2) True i bs by (intro filter_removed) auto
        finally show ?thesis .
      qed
      ultimately show ?thesis unfolding step by (simp only: bs list.map append_assoc append_Cons append_Nil)
    next
      case False
      then have nm: "plain_name ?a \<noteq> plain_name b" using r(2) by simp
      have no: "plain_name b \<notin> plain_name ` set (take (Suc i) tail)" using "1.prems"(5) bs nm i by (auto simp: take_Suc_conv_app_nth)
      show ?thesis
      proof (cases "i + 1 < length tail")
        case True
        then have "merge_loop hs bs tail i = merge_loop hs bs tail (i + 1)" unfolding bs using r(1) False i by (subst merge_loop.simps) simp
        then show ?thesis using "1.IH"(2) [OF _ bs r(1) False True] i True "1.prems"(1,2) no bs by simp
      next
        case last: False
        then have "take (Suc i) tail = tail" using i by simp
        then have n: "plain_name b \<notin> plain_name ` set tail" using no by simp
        have step: "merge_loop hs bs tail i = merge_loop (hs @ [b]) bs1 tail 0" using False last i bs r(1) by (simp add: merge_loop.simps [of hs])
        have "find (\<lambda>a. plain_name a = plain_name b) tail = None" using n by (auto simp: find_None_iff image_iff)
        then have "user_choice tail b = b" by (simp add: user_choice_def)
        moreover have "filter (\<lambda>a. plain_name a \<notin> plain_name ` set bs) tail = filter (\<lambda>a. plain_name a \<notin> plain_name ` set bs1) tail"
          unfolding bs using n by (intro filter_cong) (auto simp: image_iff)
        ultimately show ?thesis using "1.IH"(3) [OF _ bs r(1) False last] i "1.prems"(2) pb(1) unfolding step by (simp add: bs)
      qed
    qed
  qed
qed

text \<open>
  Merging two lists keeps the order of the first and takes every option that both have from the second; the options that
  only the second has follow in their order.
\<close>

theorem merged_options:
  assumes "plain_names head" "plain_names tail"
  shows "xf86optionListMerge head tail = Some (map (user_choice tail) head @ filter (\<lambda>a. plain_name a \<notin> plain_name ` set head) tail)"
  using merge_loop_result [of head tail 0 "[]"] assms by (auto simp: xf86optionListMerge_def)

definition sample_option :: "string \<Rightarrow> nat \<Rightarrow> option_rec" where
  "sample_option n v = \<lparr>opt_name = Some n, opt_val = None, opt_used = 0, opt_comment = None, opt_line_er = None, opt_addr = v\<rparr>"

theorem merged_options_witness:
  "xf86optionListMerge [sample_option ''a'' 1, sample_option ''b'' 2] [sample_option ''c'' 3, sample_option ''_B'' 4] =
    Some [sample_option ''a'' 1, sample_option ''_B'' 4, sample_option ''c'' 3]"
proof -
  let ?h = "[sample_option ''a'' 1, sample_option ''b'' 2]" and ?t = "[sample_option ''c'' 3, sample_option ''_B'' 4]"
  have "plain_names ?h" "plain_names ?t" by (simp_all add: plain_names_def plain_name_def sample_option_def norm_name_def separator_def lower_def cval_def)
  from merged_options [OF this]
  show ?thesis by (simp add: user_choice_def plain_name_def sample_option_def norm_name_def separator_def lower_def cval_def)
qed

end
