(* ===== verification/Fbc_Flags_Back.thy ===== *)
theory Fbc_Flags_Back
  imports Fbc_Modes_Back Fbc_Option_Laws
begin

text \<open>
  A ServerFlags section that is written is read back with the same options.
\<close>

section \<open>A word that is read and put back\<close>

lemma word_put_back:
  assumes e: "good_env env" and w: "\<forall>x\<in>set ws. blank x" "lex_ok (Word w)" "word_end (hd (r @ [EOS]))" and st: "inside env st (ws @ w @ r)"
  shows "\<exists>st1. xf86getToken env [] st = Returned (ERROR_TOKEN, st1) \<and> before env (xf86unGetToken ERROR_TOKEN st1) (ws @ w @ r) \<and> keeps st st1"
proof -
  obtain st1 where st1: "\<forall>tab. xf86getToken env tab st = Returned (lookup tab w, st1)" "inside env st1 r" "keeps st st1" "sc_rbuf st1 = w"
    using before_word [OF e inside_before [OF st] w] by blast
  have "sc_push st1 = LOCK_TOKEN" using st1(2) by (auto simp: inside_def dest: ahead_lock)
  then have "st1\<lparr>sc_push := ERROR_TOKEN, sc_push := LOCK_TOKEN\<rparr> = st1" by simp
  then have "before env (xf86unGetToken ERROR_TOKEN st1) (ws @ w @ r)"
    unfolding before_def xf86unGetToken_def using w st1(2,4)
    by (intro disjI2 exI [of _ ws] exI [of _ w] exI [of _ r]) (simp del: lex_ok.simps)
  then show ?thesis using st1(1,3) by auto
qed

lemma sub_token_put_back:
  assumes "good_env env" "\<forall>x\<in>set ws. blank x" "lex_ok (Word w)" "word_end (hd (r @ [EOS]))" "inside env st (ws @ w @ r)"
  shows "\<exists>st1. xf86getSubToken env c st = Returned (ERROR_TOKEN, c, st1) \<and> before env (xf86unGetToken ERROR_TOKEN st1) (ws @ w @ r) \<and> keeps st st1"
  using word_put_back [OF assms] by (auto simp: xf86getSubToken_def xf86getSubTokenWithTab_def sub_token_loop.simps)

lemma before_request: "before env st t \<Longrightarrow> before env (st\<lparr>sc_req := sc_req st + 1\<rparr>) t"
proof -
  have order: "st\<lparr>sc_req := sc_req st + 1, sc_push := p\<rparr> = (st\<lparr>sc_push := p\<rparr>)\<lparr>sc_req := sc_req (st\<lparr>sc_push := p\<rparr>) + 1\<rparr>" for p by (cases st) simp
  have "inside env (st\<lparr>sc_push := p\<rparr>) u \<Longrightarrow> inside env (st\<lparr>sc_req := sc_req st + 1, sc_push := p\<rparr>) u" for p u
    unfolding order by (rule inside_request)
  then have put_back: "inside env (st\<lparr>sc_push := LOCK_TOKEN\<rparr>) u \<Longrightarrow> inside env (st\<lparr>sc_req := sc_req st + 1, sc_push := LOCK_TOKEN\<rparr>) u" for u .
  assume "before env st t"
  then show ?thesis unfolding before_def
  proof (elim disjE exE conjE)
    fix ws w r
    assume "t = ws @ w @ r" "\<forall>x\<in>set ws. blank x" "lex_ok (Word w)" "word_end (hd (r @ [EOS]))" "sc_push st = ERROR_TOKEN" "sc_rbuf st = w" "inside env (st\<lparr>sc_push := LOCK_TOKEN\<rparr>) r"
    then show "inside env (st\<lparr>sc_req := sc_req st + 1\<rparr>) t \<or> (\<exists>ws w r. t = ws @ w @ r \<and> (\<forall>x\<in>set ws. blank x) \<and> lex_ok (Word w) \<and> word_end (hd (r @ [EOS])) \<and>
        sc_push (st\<lparr>sc_req := sc_req st + 1\<rparr>) = ERROR_TOKEN \<and> sc_rbuf (st\<lparr>sc_req := sc_req st + 1\<rparr>) = w \<and> inside env (st\<lparr>sc_req := sc_req st + 1, sc_push := LOCK_TOKEN\<rparr>) r)"
      using put_back by (intro disjI2 exI [of _ ws] exI [of _ w] exI [of _ r]) (simp del: lex_ok.simps)
  qed (use inside_request in blast)
qed

section \<open>An option\<close>

definition printable_option :: "option_rec \<Rightarrow> bool" where
  "printable_option p \<longleftrightarrow> (case opt_name p of None \<Rightarrow> False | Some n \<Rightarrow> lex_ok (Str n) \<and> c_string n) \<and>
     (case opt_val p of None \<Rightarrow> True | Some v \<Rightarrow> lex_ok (Str v)) \<and> opt_comment p = None"

definition same_option :: "option_rec \<Rightarrow> option_rec \<Rightarrow> bool" where
  "same_option p q \<longleftrightarrow> opt_name p = opt_name q \<and> opt_val p = opt_val q \<and> opt_comment p = opt_comment q"

lemma option_text:
  assumes "printable_option p"
  shows "\<exists>n. opt_name p = Some n \<and> lex_ok (Str n) \<and> c_string n \<and> (\<forall>v. opt_val p = Some v \<longrightarrow> lex_ok (Str v)) \<and>
    (\<exists>t. xf86printOption p xf86whitespace_1 = Some t \<and>
      (\<forall>r. t @ r = [CHR 0x09] @ ''Option'' @ [CHR 0x09, CHR 0x09] @ quoted n @ (case opt_val p of None \<Rightarrow> [] | Some v \<Rightarrow> '' '' @ quoted v) @ NL @ r))"
proof -
  have w: "xf86printFields xf86whitespace_1 [''Option''] = [CHR 0x09] @ ''Option'' @ [CHR 0x09, CHR 0x09]" by code_simp
  show ?thesis using assms unfolding printable_option_def xf86printOption_def w by (auto simp: Let_def split: option.splits)
qed

lemma option_read:
  assumes e: "good_env env" and p: "printable_option p" and r: "starts_word r" and l: "wf_options l" "key_of p \<notin> key_of ` set l"
    and st: "inside env st ([CHR 0x09, CHR 0x09] @ quoted (the (opt_name p)) @ (case opt_val p of None \<Rightarrow> [] | Some v \<Rightarrow> '' '' @ quoted v) @ NL @ r)"
  shows "\<exists>q st'. xf86parseOption env print l st = Returned (l @ [q], st') \<and> same_option p q \<and> before env st' (NL @ r) \<and> keeps st st'"
proof -
  obtain n where n: "opt_name p = Some n" "lex_ok (Str n)" "c_string n" "\<forall>v. opt_val p = Some v \<longrightarrow> lex_ok (Str v)" using option_text [OF p] by blast
  obtain vs w q where w: "NL @ r = (NL @ vs) @ w @ q" "\<forall>x\<in>set (NL @ vs). blank x" "lex_ok (Word w)" "word_end (hd (q @ [EOS]))"
    using r unfolding starts_word_def by (auto simp: blank_def simp del: lex_ok.simps)
  obtain x where x: "fbc_get_current_line_ER (sc_lines st) = Some x" "elems (sc_lines st) x \<noteq> None" using inside_tail [OF st] by blast
  let ?t = "(case opt_val p of None \<Rightarrow> [] | Some v \<Rightarrow> '' '' @ quoted v) @ NL @ r"
  obtain st1 where st1: "xf86getSubToken env None st = Returned (STRING, None, st1)" "inside env st1 ?t" "sc_str st1 = Some n" "keeps st st1"
    using string_read [OF e n(2), of st "[CHR 0x09, CHR 0x09]" ?t None] st n(1) by (auto simp: blank_def)
  have mem: "mem_ok env k" for k using e by (simp add: good_env_def)
  let ?next = "\<lambda>t2 st2. if t2 = STRING then xf86getToken env [] (st2\<lparr>sc_req := sc_req st2 + 1\<rparr>) else Returned (t2, st2\<lparr>sc_req := sc_req st2 + 1\<rparr>)"
  have "\<exists>t2 st2 st4. xf86getSubToken env None st1 = Returned (t2, None, st2) \<and> (if t2 = STRING then sc_str st2 else None) = opt_val p \<and>
      ?next t2 st2 = Returned (ERROR_TOKEN, st4) \<and> before env (xf86unGetToken ERROR_TOKEN st4) (NL @ r) \<and> keeps st1 (xf86unGetToken ERROR_TOKEN st4)"
  proof (cases "opt_val p")
    case None
    then have "inside env st1 ((NL @ vs) @ w @ q)" using st1(2) unfolding w(1) [symmetric] by simp
    from sub_token_put_back [OF e w(2-4) this, of None] w(1)
    obtain st2 where st2: "xf86getSubToken env None st1 = Returned (ERROR_TOKEN, None, st2)" "before env (xf86unGetToken ERROR_TOKEN st2) (NL @ r)" "keeps st1 st2" by auto
    have order: "xf86unGetToken ERROR_TOKEN (st2\<lparr>sc_req := sc_req st2 + 1\<rparr>) = (xf86unGetToken ERROR_TOKEN st2)\<lparr>sc_req := sc_req (xf86unGetToken ERROR_TOKEN st2) + 1\<rparr>"
      by (cases st2) (simp add: xf86unGetToken_def)
    have "before env (xf86unGetToken ERROR_TOKEN (st2\<lparr>sc_req := sc_req st2 + 1\<rparr>)) (NL @ r)" unfolding order using st2(2) by (rule before_request)
    moreover have "keeps st1 (xf86unGetToken ERROR_TOKEN (st2\<lparr>sc_req := sc_req st2 + 1\<rparr>))" using st2(3) by (simp add: keeps_def xf86unGetToken_def)
    ultimately show ?thesis using st2(1) None by (intro exI [of _ ERROR_TOKEN] exI [of _ st2] exI [of _ "st2\<lparr>sc_req := sc_req st2 + 1\<rparr>"]) simp
  next
    case (Some v)
    then have v: "lex_ok (Str v)" "inside env st1 ('' '' @ quoted v @ NL @ r)" using n(4) st1(2) by auto
    obtain st2 where st2: "xf86getSubToken env None st1 = Returned (STRING, None, st2)" "inside env st2 (NL @ r)" "sc_str st2 = Some v" "keeps st1 st2"
      using string_read [OF e v] by (auto simp: blank_def)
    have "inside env (st2\<lparr>sc_req := sc_req st2 + 1\<rparr>) ((NL @ vs) @ w @ q)" using inside_request [OF st2(2)] w(1) by simp
    from word_put_back [OF e w(2-4) this] w(1)
    obtain st4 where st4: "xf86getToken env [] (st2\<lparr>sc_req := sc_req st2 + 1\<rparr>) = Returned (ERROR_TOKEN, st4)" "before env (xf86unGetToken ERROR_TOKEN st4) (NL @ r)"
      "keeps (st2\<lparr>sc_req := sc_req st2 + 1\<rparr>) st4" by auto
    have "keeps st1 (xf86unGetToken ERROR_TOKEN st4)" using st2(4) st4(3) by (simp add: keeps_def xf86unGetToken_def)
    then show ?thesis using st2(1,3) st4(1,2) Some by (intro exI [of _ STRING] exI [of _ st2] exI [of _ st4]) simp
  qed
  then obtain t2 st2 st4 where s: "xf86getSubToken env None st1 = Returned (t2, None, st2)" "(if t2 = STRING then sc_str st2 else None) = opt_val p"
      "?next t2 st2 = Returned (ERROR_TOKEN, st4)" "before env (xf86unGetToken ERROR_TOKEN st4) (NL @ r)" "keeps st1 (xf86unGetToken ERROR_TOKEN st4)"
    by blast
  let ?st5 = "xf86unGetToken ERROR_TOKEN st4"
  have "elems (sc_lines ?st5) x \<noteq> None" using x(2) st1(4) s(5) by (auto simp: keeps_def)
  from link_before [OF this, of "mem_addr env (sc_req st2)" "Some print" FBC_INDENT_ENTRY env] s(4)
  obtain st6 where st6: "link_mode (mem_addr env (sc_req st2)) (Some x) (Some print) FBC_INDENT_ENTRY ?st5 = Returned st6" "keeps ?st5 st6" "before env st6 (NL @ r)"
    by blast
  have k: "key_of (l ! i) \<noteq> option_key n" if "i < length l" for i using l(2) n(1) that by (metis image_eqI key_of_def nth_mem option.sel)
  have f: "xf86findOption l (Some n) = Returned None" using l(1) n(3) by (cases rule: find_option) (use k in auto)
  let ?q = "\<lparr>opt_name = Some n, opt_val = opt_val p, opt_used = 0, opt_comment = None, opt_line_er = Some x, opt_addr = mem_addr env (sc_req st2)\<rparr>"
  have "xf86parseOption env print l st = Returned (l @ [?q], st6)"
    unfolding xf86parseOption_def Let_def using st1(1,3) s(1-3) x(1) st6(1) f
    by (simp add: xf86newOption_def mem)
  moreover have "same_option p ?q" using n(1) p by (simp add: same_option_def printable_option_def)
  moreover have "keeps st st6" using st1(4) s(5) st6(2) keeps_trans by blast
  ultimately show ?thesis using st6(3) by blast
qed

section \<open>The section\<close>

lemma flag_words:
  "lookup ServerFlagsTab ''Option'' = OPTION" "lookup ServerFlagsTab ''EndSection'' = ENDSECTION" "lex_ok (Word ''Option'')" "lex_ok (Word ''EndSection'')"
  by code_simp+

definition end_section :: "string \<Rightarrow> string" where
  "end_section r = ''EndSection'' @ NL @ r"

lemma options_start: "list_all printable_option ps \<Longrightarrow> xf86printOptionList ps xf86whitespace_1 = Some t \<Longrightarrow> starts_word (t @ end_section r)"
proof (cases ps)
  case Nil
  assume "xf86printOptionList ps xf86whitespace_1 = Some t"
  then have "t @ end_section r = [] @ ''EndSection'' @ NL @ r" using Nil by (simp add: end_section_def)
  then show ?thesis by (simp only:) (rule starts_wordI; use flag_words in \<open>simp add: word_end_def stop_def\<close>)
next
  case (Cons p qs)
  assume a: "list_all printable_option ps" "xf86printOptionList ps xf86whitespace_1 = Some t"
  obtain n u where u: "xf86printOption p xf86whitespace_1 = Some u"
    "\<forall>r. u @ r = [CHR 0x09] @ ''Option'' @ [CHR 0x09, CHR 0x09] @ quoted n @ (case opt_val p of None \<Rightarrow> [] | Some v \<Rightarrow> '' '' @ quoted v) @ NL @ r"
    using option_text [of p] a(1) Cons by auto
  then obtain v where "t = u @ v" using a(2) Cons by (auto split: option.splits)
  then have "t @ end_section r = [CHR 0x09] @ ''Option'' @ [CHR 0x09, CHR 0x09] @ quoted n @ (case opt_val p of None \<Rightarrow> [] | Some v \<Rightarrow> '' '' @ quoted v) @ NL @ v @ end_section r"
    using u(2) [rule_format, of "v @ end_section r"] by simp
  then show ?thesis by (simp only:) (rule starts_wordI; use flag_words in \<open>simp add: blank_def word_end_def stop_def\<close>)
qed

lemma same_key: "same_option p q \<Longrightarrow> key_of p = key_of q"
  by (simp add: same_option_def key_of_def)

lemma printed_options:
  assumes e: "good_env env"
  shows "list_all printable_option ps \<Longrightarrow> xf86printOptionList ps xf86whitespace_1 = Some t \<Longrightarrow> before env st (NL @ t @ end_section r) \<Longrightarrow>
    wf_options l \<Longrightarrow> distinct (map key_of ps) \<Longrightarrow> key_of ` set ps \<inter> key_of ` set l = {} \<Longrightarrow>
    \<exists>qs st'. server_loop env print \<lparr>flg_option_lst = l, flg_comment = None\<rparr> st = Some (Returned (Some \<lparr>flg_option_lst = l @ qs, flg_comment = None\<rparr>, st')) \<and>
      list_all2 same_option ps qs \<and> inside env st' (NL @ r)"
proof (induction ps arbitrary: t st l)
  case Nil
  have "before env st (NL @ ''EndSection'' @ NL @ r)" using Nil by (simp add: end_section_def)
  moreover have "\<forall>x\<in>set NL. blank x" "word_end (hd ((NL @ r) @ [EOS]))" by (simp_all add: blank_def word_end_def stop_def)
  ultimately obtain st1 where "\<forall>tab. xf86getToken env tab st = Returned (lookup tab ''EndSection'', st1)" "inside env st1 (NL @ r)"
    using before_word [OF e _ _ flag_words(4)] by blast
  then show ?case by (auto simp: server_loop.simps flag_words)
next
  case (Cons p ps)
  have p: "printable_option p" using Cons.prems(1) by simp
  obtain n u where n: "opt_name p = Some n" "c_string n" and u: "xf86printOption p xf86whitespace_1 = Some u"
    "\<forall>r. u @ r = [CHR 0x09] @ ''Option'' @ [CHR 0x09, CHR 0x09] @ quoted n @ (case opt_val p of None \<Rightarrow> [] | Some v \<Rightarrow> '' '' @ quoted v) @ NL @ r"
    using option_text [OF p] by auto
  obtain v where v: "xf86printOptionList ps xf86whitespace_1 = Some v" "t = u @ v" using Cons.prems(2) u(1) by (auto split: option.splits)
  let ?q = "[CHR 0x09, CHR 0x09] @ quoted n @ (case opt_val p of None \<Rightarrow> [] | Some v \<Rightarrow> '' '' @ quoted v) @ NL @ v @ end_section r"
  have "NL @ t @ end_section r = (NL @ [CHR 0x09]) @ ''Option'' @ ?q" using u(2) [rule_format, of "v @ end_section r"] v(2) by simp
  then have "before env st ((NL @ [CHR 0x09]) @ ''Option'' @ ?q)" using Cons.prems(3) by (simp only:)
  moreover have "\<forall>x\<in>set (NL @ [CHR 0x09]). blank x" "word_end (hd (?q @ [EOS]))" by (simp_all add: blank_def word_end_def stop_def)
  ultimately obtain st1 where st1: "\<forall>tab. xf86getToken env tab st = Returned (lookup tab ''Option'', st1)" "inside env st1 ?q"
    using before_word [OF e _ _ flag_words(3)] by blast
  have sw: "starts_word (v @ end_section r)" using options_start [OF _ v(1)] Cons.prems(1) by simp
  have k: "key_of p \<notin> key_of ` set l" using Cons.prems(6) by auto
  have "inside env st1 ([CHR 0x09, CHR 0x09] @ quoted (the (opt_name p)) @ (case opt_val p of None \<Rightarrow> [] | Some v \<Rightarrow> '' '' @ quoted v) @ NL @ v @ end_section r)"
    using st1(2) unfolding n(1) option.sel .
  from option_read [OF e p sw Cons.prems(4) k this, of print]
  obtain q st2 where q: "xf86parseOption env print l st1 = Returned (l @ [q], st2)" "same_option p q" "before env st2 (NL @ v @ end_section r)" by blast
  have "wf_options (l @ [q])" using Cons.prems(4,6) q(2) n same_key [OF q(2)] by (auto simp: wf_options_def same_option_def)
  moreover have "key_of ` set ps \<inter> key_of ` set (l @ [q]) = {}" using Cons.prems(5,6) same_key [OF q(2)] by auto
  ultimately obtain qs st' where "server_loop env print \<lparr>flg_option_lst = l @ [q], flg_comment = None\<rparr> st2 =
      Some (Returned (Some \<lparr>flg_option_lst = (l @ [q]) @ qs, flg_comment = None\<rparr>, st'))" "list_all2 same_option ps qs" "inside env st' (NL @ r)"
    using Cons.IH [of v st2 "l @ [q]"] Cons.prems(1,5) v(1) q(3) by auto
  moreover have "server_loop env print \<lparr>flg_option_lst = l, flg_comment = None\<rparr> st = server_loop env print \<lparr>flg_option_lst = l @ [q], flg_comment = None\<rparr> st2"
    using st1(1) q(1) by (simp add: server_loop.simps [of env print _ st] flag_words flags_entry_def)
  ultimately show ?case using q(2) by (intro exI [of _ "q # qs"] exI [of _ st']) simp
qed

text \<open>
  C17. A ServerFlags section that is written is read back, under these conditions: neither the section nor an option has a comment; there is at least one option; every
  option has a name, and the names and values have no quotation mark, line end or null character; no two options have the same name, where case, blanks, underscores and, for
  the Boolean options the program knows, a prefix \<^verbatim>\<open>No\<close> do not distinguish names. Memory is available, and the lines of the text, which has no null and no carriage return
  character, fit into the buffer of the scanner. Then, wherever the scanner stands before the text, the section is
  recognised by its name, it is parsed without error, and it has the same options with the same values in the same order, and the text after it is what is read next.
\<close>

theorem server_flags_read_back:
  assumes "good_env env" "flg_comment f = None" "flg_option_lst f \<noteq> []" "list_all printable_option (flg_option_lst f)" "distinct (map key_of (flg_option_lst f))"
    and "xf86printServerFlagsSection (Some f) = Some t" "ahead env st (t @ r)"
  shows "\<exists>st1 st2 st3 g. xf86getToken env TopLevelTab st = Returned (SECTION, st1) \<and>
    xf86getSubToken env None st1 = Returned (STRING, None, st2) \<and> sc_str st2 = Some ''ServerFlags'' \<and>
    xf86parseFlagsSection env print st2 = Returned (Some g, st3) \<and> flg_comment g = None \<and>
    list_all2 same_option (flg_option_lst f) (flg_option_lst g) \<and> ahead env st3 (NL @ NL @ r)"
proof -
  obtain u where u: "xf86printOptionList (flg_option_lst f) xf86whitespace_1 = Some u" "t = ''Section '' @ quoted ''ServerFlags'' @ NL @ u @ end_section NL"
    using assms(2,3,6) by (auto simp: xf86printServerFlagsSection_def end_section_def split: option.splits)
  let ?q = "NL @ u @ end_section (NL @ r)"
  have "ahead env st (t @ r)" using assms(7) .
  then have a: "ahead env st ([] @ lex_text (Word ''Section'') @ '' '' @ quoted ''ServerFlags'' @ ?q)" by (simp add: u(2) end_section_def)
  obtain st1 st2 where st: "xf86getToken env TopLevelTab st = Returned (SECTION, st1)" "xf86getSubToken env None st1 = Returned (STRING, None, st2)"
    "sc_str st2 = Some ''ServerFlags''" "inside env st2 ?q"
    using section_start [OF assms(1) _ a] by (auto simp: stop_def)
  have "before env (st2\<lparr>sc_req := sc_req st2 + 1\<rparr>) ?q" using inside_before [OF inside_request [OF st(4)]] .
  from printed_options [OF assms(1,4) u(1) this, of "[]" print] assms(5)
  obtain qs st3 where "server_loop env print \<lparr>flg_option_lst = [], flg_comment = None\<rparr> (st2\<lparr>sc_req := sc_req st2 + 1\<rparr>) =
      Some (Returned (Some \<lparr>flg_option_lst = qs, flg_comment = None\<rparr>, st3))" "list_all2 same_option (flg_option_lst f) qs" "inside env st3 (NL @ NL @ r)"
    by (auto simp: wf_options_def)
  moreover have "mem_ok env (sc_req st2)" using assms(1) by (simp add: good_env_def)
  ultimately show ?thesis using st(1-3) by (auto simp: xf86parseFlagsSection_def Let_def inside_def)
qed

definition sample_flags :: flags_section where
  "sample_flags = \<lparr>flg_option_lst = [sample_option ''DontZap'' 1, (sample_option ''BlankTime'' 2)\<lparr>opt_val := Some ''10''\<rparr>], flg_comment = None\<rparr>"

definition flags_text :: string where
  "flags_text = the (xf86printServerFlagsSection (Some sample_flags))"

theorem server_flags_read_back_witness:
  "\<exists>st st1 st2 st3 g. xf86openConfigFile sample_env (file_holding flags_text) (Some ''%A'') (Some ''/etc/X11/xorg.conf'') None sample_scanner None =
      Returned (Some ''/etc/X11/xorg.conf'', st, None) \<and> sc_stream st = flags_text \<and>
    xf86getToken sample_env TopLevelTab st = Returned (SECTION, st1) \<and> xf86getSubToken sample_env None st1 = Returned (STRING, None, st2) \<and>
    xf86parseFlagsSection sample_env (\<lambda>d w. []) st2 = Returned (Some g, st3) \<and>
    map (\<lambda>p. (opt_name p, opt_val p)) (flg_option_lst g) = [(Some ''DontZap'', None), (Some ''BlankTime'', Some ''10'')]"
proof -
  let ?us = "butlast (split_at (CHR 0x0A) flags_text)"
  have us: "list_all (\<lambda>u. list_all (\<lambda>c. c \<noteq> CHR 0x00 \<and> \<not> line_end c) u \<and> length u \<le> 50) ?us" "file_lines ?us = flags_text" by code_simp+
  have e: "good_env sample_env" by (simp add: good_env_def sample_env_def inj_def)
  obtain st where st: "xf86openConfigFile sample_env (file_holding flags_text) (Some ''%A'') (Some ''/etc/X11/xorg.conf'') None sample_scanner None = Returned (Some ''/etc/X11/xorg.conf'', st, None)"
    "sc_stream st = flags_text" "ahead sample_env st flags_text"
    using file_opened [OF us] .
  have w: "xf86printServerFlagsSection (Some sample_flags) \<noteq> None" "list_all printable_option (flg_option_lst sample_flags)" "distinct (map key_of (flg_option_lst sample_flags))"
    by code_simp+
  have t: "xf86printServerFlagsSection (Some sample_flags) = Some flags_text" using w(1) by (auto simp: flags_text_def)
  have f: "flg_comment sample_flags = None" "flg_option_lst sample_flags \<noteq> []" by (simp_all add: sample_flags_def)
  have "ahead sample_env st (flags_text @ [])" using st(3) by simp
  from server_flags_read_back [OF e f w(2,3) t this, of "\<lambda>d w. []"] st(1,2)
  show ?thesis by (auto simp: sample_flags_def sample_option_def same_option_def list_all2_Cons1)
qed

end
