(* ===== verification/Fbc_Args.thy ===== *)
theory Fbc_Args
  imports Fbc_Option_Laws
begin

text \<open>
  The command line of the program (\<^verbatim>\<open>components/x11/app/gfx-utils/sun-src/fbconf_xorg\<close>, \<^verbatim>\<open>fbc/fbc_getargs.c\<close>): the
  options, their arguments and what they note in the variables of the program, with the tables of the two supported
  devices (\<^verbatim>\<open>ast/ast_properties.c\<close>, \<^verbatim>\<open>mga/mga_properties.c\<close>).

  \<open>argv\<close> holds the arguments; at its length there is a null pointer, and beyond it nothing. Reading through the
  null pointer or beyond is \<open>Undefined\<close>. Messages are left out; ending the program is \<open>Exited\<close>. The two options on gamma
  correction, which no table of the repository has, and the values they note are left out.
\<close>

section \<open>Tables and variables\<close>

record keywd_int =
  kw_argv_name :: "string option"
  kw_conf_name :: "string option"
  kw_value :: int

text \<open>The functions that handle an option.\<close>

datatype getopt_fn =
  Option_keyword | Option_int | Option_Stream_Offset | Opt_defaults | Opt_dev | Opt_file | Opt_help | Opt_prconf | Opt_predid | Opt_propt | Opt_res

text \<open>
  An option. The names of options of the file are one character array: each name is followed by a null character, and one
  more null character, not part of the literal, ends it.
\<close>

record fbopt_descr =
  argv_name :: string
  option_args :: nat
  fbc_getopt_fn :: getopt_fn
  keywd_table :: "keywd_int list option"
  descr_section :: sectn_mask
  conf_name :: "string option"
  defaults_argv :: "string list option"

record opt_set =
  set_help :: bool
  set_prconf :: bool
  set_predid_raw :: bool
  set_predid_parsed :: bool
  set_propt :: bool
  set_res_list :: bool
  set_res_nocheck :: bool
  set_res_noconfirm :: bool
  set_res_now :: bool
  set_res_try :: bool

record varient =
  config_file_loc :: "string option"
  config_search_path :: "string option"
  config_file_path :: "string option"
  fbc_option :: "fbopt_descr list"
  scrn_defaultdepth :: int
  video_mode_name :: "string option"
  Option_mods_size :: nat
  Option_mods :: "opt_mod list"
  option_set :: opt_set
  modify_config :: int

definition sectn_bit :: "sectn_mask \<Rightarrow> int" where
  "sectn_bit s = (case s of FBC_SECTION_NONE \<Rightarrow> 0 | FBC_SECTION_Screen \<Rightarrow> 1 | FBC_SUBSCTN_Display \<Rightarrow> 2 | FBC_SECTION_Monitor \<Rightarrow> 4 | FBC_SECTION_Device \<Rightarrow> 8)"

definition arg_ptr :: "string list \<Rightarrow> nat \<Rightarrow> string option fbc_run" where
  "arg_ptr argv i = (if i < length argv then Returned (Some (argv ! i)) else if i = length argv then Returned None else Undefined)"

definition deref :: "'a option \<Rightarrow> 'a fbc_run" where
  "deref p = defined p"

definition starts_with :: "char \<Rightarrow> string \<Rightarrow> bool" where
  "starts_with c s \<longleftrightarrow> s \<noteq> [] \<and> hd s = c"

section \<open>Changes of options\<close>

text \<open>The names of a table, up to the end mark.\<close>

definition keywd_names :: "keywd_int list \<Rightarrow> string list" where
  "keywd_names table = map (\<lambda>k. the (kw_argv_name k)) (takeWhile (\<lambda>k. kw_argv_name k \<noteq> None) table)"

definition fbc_search_optvals :: "keywd_int list \<Rightarrow> string \<Rightarrow> keywd_int fbc_run" where
  "fbc_search_optvals table v =
     (case fbc_search_keywds (keywd_names table) v of
        (FBC_SUCCESS, Some i) \<Rightarrow> Returned (table ! i)
      | _ \<Rightarrow> Exited)"

text \<open>
  The array holds \<open>Option_mods_size\<close> elements, of which \<open>Option_mods\<close> are in use. The result is the position of the
  description; \<open>same\<close> compares two values.
\<close>

definition fbc_add_Option_mod ::
  "sectn_mask \<Rightarrow> string \<Rightarrow> string option \<Rightarrow> (string \<Rightarrow> string \<Rightarrow> bool) \<Rightarrow> varient \<Rightarrow> (fbc_error \<times> nat option \<times> varient) fbc_run" where
  "fbc_add_Option_mod option_section option_name option_value same fbvar =
     (let v = fbvar\<lparr>modify_config := modify_config fbvar OR sectn_bit option_section\<rparr>;
          mods = Option_mods v;
          i = length (takeWhile (\<lambda>m. \<not> (option_section = mod_section m \<and> strcasecmp option_name (mod_name m) = 0)) mods)
      in if i < length mods
        then (case (option_value, mod_value (mods ! i)) of
                (None, None) \<Rightarrow> Returned (FBC_SUCCESS, Some i, v)
              | (Some a, Some b) \<Rightarrow> Returned (if same a b then (FBC_SUCCESS, Some i, v) else (FBC_ERR_OPT_CONFLICT, None, v))
              | _ \<Rightarrow> Returned (FBC_ERR_OPT_CONFLICT, None, v))
        else if Option_mods_size v \<le> length mods + 1 then Exited
        else Returned (FBC_SUCCESS, Some (length mods),
               v\<lparr>Option_mods := mods @ [\<lparr>mod_section = option_section, mod_name = option_name, mod_value = option_value\<rparr>]\<rparr>))"

text \<open>The name at the start of a character array, and the array after it, if the array does not end before.\<close>

definition c_name :: "string \<Rightarrow> string" where
  "c_name names = takeWhile (\<lambda>c. c \<noteq> CHR 0x00) names"

definition next_name :: "string \<Rightarrow> string fbc_run" where
  "next_name names = (let n = length (c_name names) in if n < length names then Returned (drop (n + 1) names) else Undefined)"

function reset_loop :: "sectn_mask \<Rightarrow> string \<Rightarrow> string \<Rightarrow> (string \<Rightarrow> string \<Rightarrow> bool) \<Rightarrow> varient \<Rightarrow> varient fbc_run" where
  "reset_loop s names r same v =
     (case next_name names of
        Exited \<Rightarrow> Exited
      | Undefined \<Rightarrow> Undefined
      | Returned names1 \<Rightarrow>
          if names1 = [] \<or> starts_with (CHR 0x00) names1 then Returned v
          else run_bind (fbc_add_Option_mod s (c_name names1) (Some r) same v) (\<lambda>(code, i, v1).
                 if code \<noteq> FBC_SUCCESS then Exited else reset_loop s names1 r same v1))"
  by pat_completeness auto
termination
  by (relation "measure (\<lambda>(s, names, r, same, v). length names)") (auto simp: next_name_def Let_def split: if_splits)

declare reset_loop.simps [simp del]

definition no_case :: "string \<Rightarrow> string \<Rightarrow> bool" where
  "no_case a b \<longleftrightarrow> strcasecmp a b = 0"

text \<open>The value as it stands in the file.\<close>

definition conf_value :: "keywd_int list \<Rightarrow> string option \<Rightarrow> string option fbc_run" where
  "conf_value table v =
     run_bind (run_bind (deref v) (fbc_search_optvals table)) (\<lambda>k.
       Returned (case kw_conf_name k of Some c \<Rightarrow> Some c | None \<Rightarrow> kw_argv_name k))"

definition fbc_add_radio_Option_mod ::
  "keywd_int list option \<Rightarrow> string option \<Rightarrow> string list \<Rightarrow> nat \<Rightarrow> varient \<Rightarrow> fbopt_descr \<Rightarrow> (nat option \<times> varient) fbc_run" where
  "fbc_add_radio_Option_mod table reset argv arg fbvar d =
     run_bind (arg_ptr argv (arg + 1)) (\<lambda>a.
     run_bind (case table of None \<Rightarrow> Returned a | Some t \<Rightarrow> conf_value t a) (\<lambda>value.
     run_bind (deref (conf_name d)) (\<lambda>names.
       let same = (if table = None then (=) else no_case)
       in run_bind (fbc_add_Option_mod (descr_section d) (c_name names) value same fbvar) (\<lambda>(code, i, v).
            if code \<noteq> FBC_SUCCESS then Exited
            else
              (case reset of
                 None \<Rightarrow> Returned (i, v)
               | Some r \<Rightarrow>
                   run_bind (deref value) (\<lambda>w.
                     if no_case w r then Returned (i, v)
                     else run_bind (reset_loop (descr_section d) names r same v) (\<lambda>v1. Returned (i, v1))))))))"

section \<open>Handlers\<close>

text \<open>A row of a table without a name gives the value that resets related options.\<close>

definition kw :: "string \<Rightarrow> string \<Rightarrow> int \<Rightarrow> keywd_int" where
  "kw a c n = \<lparr>kw_argv_name = Some a, kw_conf_name = Some c, kw_value = n\<rparr>"

definition plain_kw :: "string \<Rightarrow> int \<Rightarrow> keywd_int" where
  "plain_kw a n = \<lparr>kw_argv_name = Some a, kw_conf_name = None, kw_value = n\<rparr>"

definition no_kw :: "string option \<Rightarrow> int \<Rightarrow> keywd_int" where
  "no_kw c n = \<lparr>kw_argv_name = None, kw_conf_name = c, kw_value = n\<rparr>"

definition fbc_keywds_boolean :: "keywd_int list" where
  "fbc_keywds_boolean = [no_kw (Some ''False'') 0, kw ''true'' ''True'' 1, kw ''false'' ''False'' 0, kw ''enable'' ''True'' 1,
     kw ''disable'' ''False'' 0, kw ''yes'' ''Yes'' 1, kw ''no'' ''No'' 0, kw ''on'' ''On'' 1, kw ''off'' ''Off'' 0, kw ''0'' ''0'' 0, kw ''1'' ''1'' 1,
     no_kw None 0]"

definition fbc_keywds_xable :: "keywd_int list" where
  "fbc_keywds_xable = [no_kw (Some ''Disable'') 0, kw ''enable'' ''Enable'' 1, kw ''disable'' ''Disable'' 0, kw ''true'' ''Enable'' 1,
     kw ''false'' ''Disable'' 0, kw ''on'' ''Enable'' 1, kw ''off'' ''Disable'' 0, kw ''yes'' ''Enable'' 1, kw ''no'' ''Disable'' 0, no_kw None 0]"

definition fbc_keywds_swappedirect :: "keywd_int list" where
  "fbc_keywds_swappedirect = [no_kw (Some ''Direct'') 0, kw ''swapped'' ''Swapped'' 1, kw ''direct'' ''Direct'' 0, kw ''true'' ''Swapped'' 1,
     kw ''false'' ''Direct'' 0, kw ''yes'' ''Swapped'' 1, kw ''no'' ''Direct'' 0, no_kw None 0]"

definition fbc_keywds_MultiviewMode :: "keywd_int list" where
  "fbc_keywds_MultiviewMode = [no_kw None 0, kw ''disable'' ''Disable'' 1, kw ''multiview'' ''Multiview'' 2, no_kw None 0]"

definition fbc_keywds_Multisample :: "keywd_int list" where
  "fbc_keywds_Multisample = [no_kw None 0, kw ''disable'' ''Disable'' 1, kw ''available'' ''Available'' 2, kw ''forceon'' ''ForceOn'' 3,
     kw ''off'' ''Disable'' 1, kw ''on'' ''Available'' 2, kw ''enable'' ''Available'' 2, kw ''auto'' ''ForceOn'' 3, kw ''true'' ''Available'' 2,
     kw ''false'' ''Disable'' 1, no_kw None 0]"

definition fbc_keywds_Samples :: "keywd_int list" where
  "fbc_keywds_Samples = [no_kw None 0, plain_kw ''1'' 1, plain_kw ''4'' 4, plain_kw ''8'' 8, plain_kw ''16'' 16, no_kw None 0]"

definition fbc_Option_keyword :: "string list \<Rightarrow> nat \<Rightarrow> varient \<Rightarrow> fbopt_descr \<Rightarrow> (nat \<times> varient) fbc_run" where
  "fbc_Option_keyword argv arg fbvar d =
     run_bind (deref (keywd_table d)) (\<lambda>table.
     run_bind (fbc_add_radio_Option_mod (Some (tl table)) (kw_conf_name (hd table)) argv arg fbvar d) (\<lambda>(i, v). Returned (arg, v)))"

text \<open>What \<^verbatim>\<open>strtol\<close> with base 0 leaves of a string, or nothing when it finds no number.\<close>

definition isspace :: "char \<Rightarrow> bool" where
  "isspace c \<longleftrightarrow> cval c = 32 \<or> 9 \<le> cval c \<and> cval c \<le> 13"

definition is_octal :: "char \<Rightarrow> bool" where
  "is_octal c \<longleftrightarrow> 48 \<le> cval c \<and> cval c \<le> 55"

definition is_hex :: "char \<Rightarrow> bool" where
  "is_hex c \<longleftrightarrow> isdigit c \<or> 97 \<le> low c \<and> low c \<le> 102"

definition strtol_rest :: "string \<Rightarrow> string option" where
  "strtol_rest s =
     (let u = dropWhile isspace s;
          t = (if starts_with (CHR ''-'') u \<or> starts_with (CHR ''+'') u then tl u else u)
      in if starts_with (CHR ''0'') t
         then (case tl t of
                 x # h # r \<Rightarrow> Some (if low x = 120 \<and> is_hex h then dropWhile is_hex r else dropWhile is_octal (x # h # r))
               | r \<Rightarrow> Some (dropWhile is_octal r))
         else if t \<noteq> [] \<and> isdigit (hd t) then Some (dropWhile isdigit t)
         else None)"

definition valid_int :: "string option \<Rightarrow> unit fbc_run" where
  "valid_int p = run_bind (deref p) (\<lambda>s. if strtol_rest s = Some [] then Returned () else Exited)"

definition fbc_Option_int :: "string list \<Rightarrow> nat \<Rightarrow> varient \<Rightarrow> fbopt_descr \<Rightarrow> (nat \<times> varient) fbc_run" where
  "fbc_Option_int argv arg fbvar d =
     run_bind (arg_ptr argv (arg + 1)) (\<lambda>a.
     run_bind (valid_int a) (\<lambda>u.
     run_bind (deref (conf_name d)) (\<lambda>names.
     run_bind (fbc_add_Option_mod (descr_section d) (c_name names) a no_case fbvar) (\<lambda>(code, i, v).
       if code \<noteq> FBC_SUCCESS then Exited else Returned (arg, v)))))"

definition fbc_Option_Stream_Offset :: "string list \<Rightarrow> nat \<Rightarrow> varient \<Rightarrow> fbopt_descr \<Rightarrow> (nat \<times> varient) fbc_run" where
  "fbc_Option_Stream_Offset argv arg fbvar d =
     run_bind (arg_ptr argv (arg + 1)) (\<lambda>a.
     run_bind (valid_int a) (\<lambda>u.
     run_bind (arg_ptr argv (arg + 2)) (\<lambda>b.
     run_bind (valid_int b) (\<lambda>u.
     run_bind (deref (conf_name d)) (\<lambda>names.
     run_bind (fbc_add_Option_mod (descr_section d) (c_name names) a no_case fbvar) (\<lambda>(code, i, v).
       if code \<noteq> FBC_SUCCESS then Exited
       else
         run_bind (next_name names) (\<lambda>names1.
         run_bind (fbc_add_Option_mod (descr_section d) (c_name names1) b no_case v) (\<lambda>(code1, i, v1).
           if code1 \<noteq> FBC_SUCCESS then Exited else Returned (arg, v1)))))))))"

definition fbc_opt_dev :: "nat \<Rightarrow> varient \<Rightarrow> (nat \<times> varient) fbc_run" where
  "fbc_opt_dev arg fbvar = Returned (arg, fbvar)"

definition fbc_keywds_file :: "keywd_int list" where
  "fbc_keywds_file = [kw ''machine'' ''/etc/X11/xorg.conf'' 0, kw ''system'' ''/usr/lib/X11/xorg.conf'' 1, no_kw None 0]"

definition fbc_config_search_path :: string where
  "fbc_config_search_path = ''%A''"

text \<open>\<open>setugid\<close> says whether the program runs with the rights of another user.\<close>

definition fbc_opt_file :: "bool \<Rightarrow> string list \<Rightarrow> nat \<Rightarrow> varient \<Rightarrow> fbopt_descr \<Rightarrow> (nat \<times> varient) fbc_run" where
  "fbc_opt_file setugid argv arg fbvar d =
     run_bind (run_bind (arg_ptr argv (arg + 1)) deref) (\<lambda>a.
     run_bind (if starts_with (CHR ''/'') a
               then (if setugid then Exited else Returned (fbvar\<lparr>config_file_loc := None, config_file_path := Some a\<rparr>))
               else run_bind (run_bind (deref (keywd_table d)) (\<lambda>table. fbc_search_optvals table a)) (\<lambda>k.
                      Returned (fbvar\<lparr>config_file_loc := kw_argv_name k, config_file_path := kw_conf_name k\<rparr>))) (\<lambda>v.
       Returned (arg, v\<lparr>config_search_path := Some fbc_config_search_path\<rparr>)))"

definition set_opt :: "(opt_set \<Rightarrow> opt_set) \<Rightarrow> varient \<Rightarrow> varient" where
  "set_opt f v = v\<lparr>option_set := f (option_set v)\<rparr>"

definition fbc_opt_help :: "nat \<Rightarrow> varient \<Rightarrow> (nat \<times> varient) fbc_run" where
  "fbc_opt_help arg fbvar = Returned (arg, set_opt (\<lambda>s. s\<lparr>set_help := True\<rparr>) fbvar)"

definition fbc_opt_prconf :: "nat \<Rightarrow> varient \<Rightarrow> (nat \<times> varient) fbc_run" where
  "fbc_opt_prconf arg fbvar = Returned (arg, set_opt (\<lambda>s. s\<lparr>set_prconf := True\<rparr>) fbvar)"

definition fbc_opt_propt :: "nat \<Rightarrow> varient \<Rightarrow> (nat \<times> varient) fbc_run" where
  "fbc_opt_propt arg fbvar = Returned (arg, set_opt (\<lambda>s. s\<lparr>set_propt := True\<rparr>) fbvar)"

text \<open>The arguments at \<open>arg + k\<close> and after it that look like one, handled one by one with \<open>f\<close>.\<close>

function keywords_loop :: "nat \<Rightarrow> keywd_int list \<Rightarrow> (int \<Rightarrow> opt_set \<Rightarrow> opt_set) \<Rightarrow> string list \<Rightarrow> nat \<Rightarrow> varient \<Rightarrow> (nat \<times> varient) fbc_run" where
  "keywords_loop k table f argv arg v =
     (if length argv < arg + k then Undefined
      else if arg + k = length argv \<or> starts_with (CHR ''-'') (argv ! (arg + k)) then Returned (arg, v)
      else run_bind (fbc_search_optvals table (argv ! (arg + k))) (\<lambda>m. keywords_loop k table f argv (arg + 1) (set_opt (f (kw_value m)) v)))"
  by pat_completeness auto
termination
  by (relation "measure (\<lambda>(k, table, f, argv, arg, v). length argv - arg)") auto

declare keywords_loop.simps [simp del]

definition fbc_keywds_predid :: "keywd_int list" where
  "fbc_keywds_predid = [plain_kw ''raw'' 0, plain_kw ''parsed'' 1, no_kw None 0]"

definition predid_keyword :: "int \<Rightarrow> opt_set \<Rightarrow> opt_set" where
  "predid_keyword n s = (if n = 0 then s\<lparr>set_predid_raw := True\<rparr> else if n = 1 then s\<lparr>set_predid_parsed := True\<rparr> else s)"

definition fbc_opt_predid :: "string list \<Rightarrow> nat \<Rightarrow> varient \<Rightarrow> (nat \<times> varient) fbc_run" where
  "fbc_opt_predid argv arg fbvar =
     run_bind (keywords_loop 1 fbc_keywds_predid predid_keyword argv arg (set_opt (\<lambda>s. s\<lparr>set_predid_raw := False, set_predid_parsed := False\<rparr>) fbvar)) (\<lambda>(arg1, v).
       Returned (arg1, set_opt (\<lambda>s. if \<not> (set_predid_raw s \<or> set_predid_parsed s) then s\<lparr>set_predid_parsed := True\<rparr> else s) v))"

definition fbc_keywds_res_nn :: "keywd_int list" where
  "fbc_keywds_res_nn = [plain_kw ''nocheck'' 1, plain_kw ''noconfirm'' 2, no_kw None 0]"

definition fbc_keywds_res_nntn :: "keywd_int list" where
  "fbc_keywds_res_nntn = [plain_kw ''nocheck'' 1, plain_kw ''noconfirm'' 2, plain_kw ''try'' 3, plain_kw ''now'' 4, no_kw None 0]"

definition res_keyword :: "int \<Rightarrow> opt_set \<Rightarrow> opt_set" where
  "res_keyword n s =
     (if n = 1 then s\<lparr>set_res_nocheck := True, set_res_noconfirm := True\<rparr>
      else if n = 2 then s\<lparr>set_res_noconfirm := True\<rparr>
      else if n = 3 then s\<lparr>set_res_try := True\<rparr>
      else if n = 4 then s\<lparr>set_res_now := True\<rparr>
      else s)"

definition fbc_opt_res :: "string list \<Rightarrow> nat \<Rightarrow> varient \<Rightarrow> fbopt_descr \<Rightarrow> (nat \<times> varient) fbc_run" where
  "fbc_opt_res argv arg fbvar d =
     (let v = set_opt (\<lambda>s. s\<lparr>set_res_list := False, set_res_nocheck := False, set_res_noconfirm := False, set_res_try := False, set_res_now := False\<rparr>) fbvar
      in run_bind (run_bind (arg_ptr argv (arg + 1)) deref) (\<lambda>a.
           if a = ''?'' then Returned (arg, set_opt (\<lambda>s. s\<lparr>set_res_list := True\<rparr>) v)
           else
             (let v1 = v\<lparr>video_mode_name := Some a\<rparr>
              in run_bind (case keywd_table d of
                             None \<Rightarrow> Returned (arg, v1)
                           | Some table \<Rightarrow> keywords_loop 2 table res_keyword argv arg v1) (\<lambda>(arg1, v2).
                   Returned (arg1, v2\<lparr>modify_config := modify_config v2 OR sectn_bit FBC_SUBSCTN_Display\<rparr>)))))"

text \<open>Every handler but the one of \<^verbatim>\<open>-defaults\<close>.\<close>

definition simple_handler :: "bool \<Rightarrow> getopt_fn \<Rightarrow> string list \<Rightarrow> nat \<Rightarrow> varient \<Rightarrow> fbopt_descr \<Rightarrow> (nat \<times> varient) fbc_run" where
  "simple_handler setugid f argv arg v d =
     (case f of
        Option_keyword \<Rightarrow> fbc_Option_keyword argv arg v d
      | Option_int \<Rightarrow> fbc_Option_int argv arg v d
      | Option_Stream_Offset \<Rightarrow> fbc_Option_Stream_Offset argv arg v d
      | Opt_defaults \<Rightarrow> Undefined
      | Opt_dev \<Rightarrow> fbc_opt_dev arg v
      | Opt_file \<Rightarrow> fbc_opt_file setugid argv arg v d
      | Opt_help \<Rightarrow> fbc_opt_help arg v
      | Opt_prconf \<Rightarrow> fbc_opt_prconf arg v
      | Opt_predid \<Rightarrow> fbc_opt_predid argv arg v
      | Opt_propt \<Rightarrow> fbc_opt_propt arg v
      | Opt_res \<Rightarrow> fbc_opt_res argv arg v d)"

text \<open>The loop of \<^verbatim>\<open>-defaults\<close> from the option at \<open>i\<close> on, \<open>self\<close> being the position of the option that runs it.\<close>

partial_function (option) defaults_loop :: "bool \<Rightarrow> nat \<Rightarrow> nat \<Rightarrow> varient \<Rightarrow> varient fbc_run option" where
  "defaults_loop setugid self i v =
     (if length (fbc_option v) \<le> i then Some (Returned v)
      else
        (let d = fbc_option v ! i
         in case defaults_argv d of
              None \<Rightarrow> defaults_loop setugid self (i + 1) v
            | Some argv \<Rightarrow>
                if i = self \<or> strcasecmp (argv_name d) ''defaults'' = 0 then defaults_loop setugid self (i + 1) v
                else
                  Option.bind
                    (if fbc_getopt_fn d = Opt_defaults then defaults_loop setugid i 0 v
                     else Some (run_bind (simple_handler setugid (fbc_getopt_fn d) argv 0 v d) (\<lambda>(arg, v1). Returned v1))) (\<lambda>r.
                    case r of Exited \<Rightarrow> Some Exited | Undefined \<Rightarrow> Some Undefined | Returned v1 \<Rightarrow> defaults_loop setugid self (i + 1) v1)))"

declare defaults_loop.simps [code]

definition fbc_opt_defaults :: "bool \<Rightarrow> nat \<Rightarrow> nat \<Rightarrow> varient \<Rightarrow> (nat \<times> varient) fbc_run" where
  "fbc_opt_defaults setugid arg self fbvar = run_bind (run_bind (defined (defaults_loop setugid self 0 fbvar)) (\<lambda>r. r)) (\<lambda>v. Returned (arg, v))"

definition run_handler :: "bool \<Rightarrow> string list \<Rightarrow> nat \<Rightarrow> nat \<Rightarrow> varient \<Rightarrow> (nat \<times> varient) fbc_run" where
  "run_handler setugid argv arg i v =
     (let d = fbc_option v ! i
      in if fbc_getopt_fn d = Opt_defaults then fbc_opt_defaults setugid arg i v else simple_handler setugid (fbc_getopt_fn d) argv arg v d)"

section \<open>The command line\<close>

partial_function (option) args_loop :: "bool \<Rightarrow> string list \<Rightarrow> nat \<Rightarrow> varient \<Rightarrow> (nat \<times> varient) fbc_run option" where
  "args_loop setugid argv arg v =
     (if length argv \<le> arg \<or> \<not> starts_with (CHR ''-'') (argv ! arg) then Some (Returned (arg, v))
      else
        (case fbc_search_keywds (map argv_name (fbc_option v)) (tl (argv ! arg)) of
           (FBC_SUCCESS, Some i) \<Rightarrow>
             if length argv \<le> arg + option_args (fbc_option v ! i) then Some Exited
             else
               (case run_handler setugid argv arg i v of
                  Exited \<Rightarrow> Some Exited
                | Undefined \<Rightarrow> Some Undefined
                | Returned (arg1, v1) \<Rightarrow> args_loop setugid argv (arg1 + option_args (fbc_option v ! i) + 1) v1)
         | _ \<Rightarrow> Some Exited))"

declare args_loop.simps [code]

text \<open>\<open>mem\<close> is the outcome of the memory request. Arguments that are not options end the program.\<close>

definition fbc_getargs :: "bool \<Rightarrow> bool \<Rightarrow> string list \<Rightarrow> varient \<Rightarrow> varient fbc_run" where
  "fbc_getargs mem setugid argv fbvar =
     (let v = fbvar\<lparr>scrn_defaultdepth := 0, video_mode_name := None\<rparr>
      in if \<not> mem then Exited
         else
           run_bind (run_bind (defined (args_loop setugid argv 1 (v\<lparr>Option_mods := [], modify_config := 0\<rparr>))) (\<lambda>r. r)) (\<lambda>(arg, v1).
             if arg < length argv then Exited
             else if Option_mods_size v1 \<le> length (Option_mods v1) then Undefined
             else Returned v1))"

section \<open>The devices\<close>

definition fbc_defargv_rscreen :: "string list" where
  "fbc_defargv_rscreen = [''-defaults; -rscreen'', ''disable'']"

definition flag_descr :: "string \<Rightarrow> nat \<Rightarrow> getopt_fn \<Rightarrow> keywd_int list option \<Rightarrow> sectn_mask \<Rightarrow> fbopt_descr" where
  "flag_descr n k f t s = \<lparr>argv_name = n, option_args = k, fbc_getopt_fn = f, keywd_table = t, descr_section = s, conf_name = None, defaults_argv = None\<rparr>"

definition ast_option :: "fbopt_descr list" where
  "ast_option =
     [flag_descr ''defaults'' 0 Opt_defaults None FBC_SECTION_NONE,
      flag_descr ''dev'' 1 Opt_dev None FBC_SECTION_Device,
      flag_descr ''file'' 1 Opt_file (Some fbc_keywds_file) FBC_SECTION_NONE,
      flag_descr ''help'' 0 Opt_help None FBC_SECTION_NONE,
      flag_descr ''prconf'' 0 Opt_prconf None FBC_SECTION_NONE,
      flag_descr ''predid'' 0 Opt_predid None FBC_SECTION_NONE,
      flag_descr ''propt'' 0 Opt_propt None FBC_SECTION_NONE,
      flag_descr ''res'' 1 Opt_res (Some fbc_keywds_res_nntn) FBC_SUBSCTN_Display,
      \<lparr>argv_name = ''rscreen'', option_args = 1, fbc_getopt_fn = Option_keyword, keywd_table = Some fbc_keywds_xable,
       descr_section = FBC_SECTION_Screen, conf_name = Some (''RemoteScreen'' @ [CHR 0x00]), defaults_argv = Some fbc_defargv_rscreen\<rparr>]"

text \<open>The table of the other device has the same entries.\<close>

definition mga_option :: "fbopt_descr list" where
  "mga_option = ast_option"

text \<open>The size of the array counts the end mark of the table.\<close>

definition SUNWast_get_properties :: "varient \<Rightarrow> varient" where
  "SUNWast_get_properties fbvar = fbvar\<lparr>fbc_option := ast_option, Option_mods_size := length ast_option + 1\<rparr>"

definition SUNWmga_get_properties :: "varient \<Rightarrow> varient" where
  "SUNWmga_get_properties fbvar = fbvar\<lparr>fbc_option := mga_option, Option_mods_size := length mga_option + 1\<rparr>"

definition fbc_get_base_properties :: "varient \<Rightarrow> varient" where
  "fbc_get_base_properties fbvar = fbvar\<lparr>fbc_option := [], Option_mods_size := 1\<rparr>"

end
