(* ===== verification/Fbc_Command.thy ===== *)
theory Fbc_Command
  imports Fbc_Args
begin

text \<open>
  What command lines the program accepts and what they ask for: the command line as a list of requests, and the
  proof that the loop over the arguments carries out exactly those.
\<close>

section \<open>Requests\<close>

datatype request =
  Defaults | Dev string | File_path string | File_keyword int | Help | Prconf | Predid "int list" | Propt | List_modes | Mode string "int list" | Remote bool

text \<open>
  A word names an entry of a list when it equals the entry up to case, the first such entry counting, or when the entry is the only
  one of which it is an abbreviation, up to case.
\<close>

definition abbreviates :: "string \<Rightarrow> string \<Rightarrow> bool" where
  "abbreviates w e \<longleftrightarrow> (\<exists>r. map low e = map low w @ r)"

definition names_entry :: "string list \<Rightarrow> string \<Rightarrow> nat \<Rightarrow> bool" where
  "names_entry table w i \<longleftrightarrow> i < length table \<and>
     (map low (table ! i) = map low w \<and> (\<forall>j<i. map low (table ! j) \<noteq> map low w) \<or>
      (\<forall>j<length table. abbreviates w (table ! j) \<longleftrightarrow> j = i))"

text \<open>The options of the device, and the keywords with their meaning.\<close>

definition option_names_ast :: "string list" where
  "option_names_ast = [''defaults'', ''dev'', ''file'', ''help'', ''prconf'', ''predid'', ''propt'', ''res'', ''rscreen'']"

definition names_option :: "string \<Rightarrow> string \<Rightarrow> bool" where
  "names_option w n \<longleftrightarrow> (\<exists>u i. w = CHR ''-'' # u \<and> names_entry option_names_ast u i \<and> option_names_ast ! i = n)"

definition names_keyword :: "(string \<times> int) list \<Rightarrow> string \<Rightarrow> int \<Rightarrow> bool" where
  "names_keyword kws u k \<longleftrightarrow> (\<exists>i. names_entry (map fst kws) u i \<and> snd (kws ! i) = k)"

definition file_words :: "(string \<times> int) list" where
  "file_words = [(''machine'', 0), (''system'', 1)]"

definition predid_words :: "(string \<times> int) list" where
  "predid_words = [(''raw'', 0), (''parsed'', 1)]"

definition res_words :: "(string \<times> int) list" where
  "res_words = [(''nocheck'', 1), (''noconfirm'', 2), (''try'', 3), (''now'', 4)]"

definition switch_words :: "(string \<times> int) list" where
  "switch_words = [(''enable'', 1), (''disable'', 0), (''true'', 1), (''false'', 0), (''on'', 1), (''off'', 0), (''yes'', 1), (''no'', 0)]"

definition names_keywords :: "(string \<times> int) list \<Rightarrow> string list \<Rightarrow> int list \<Rightarrow> bool" where
  "names_keywords kws us ks \<longleftrightarrow> list_all2 (\<lambda>u k. take 1 u \<noteq> ''-'' \<and> names_keyword kws u k) us ks"

text \<open>How a request is written.\<close>

fun spelled :: "request \<Rightarrow> string list \<Rightarrow> bool" where
  "spelled Defaults ws \<longleftrightarrow> (\<exists>w. ws = [w] \<and> names_option w ''defaults'')"
| "spelled (Dev a) ws \<longleftrightarrow> (\<exists>w. ws = [w, a] \<and> names_option w ''dev'')"
| "spelled (File_path a) ws \<longleftrightarrow> (\<exists>w. ws = [w, a] \<and> names_option w ''file'' \<and> take 1 a = ''/'')"
| "spelled (File_keyword k) ws \<longleftrightarrow> (\<exists>w a. ws = [w, a] \<and> names_option w ''file'' \<and> take 1 a \<noteq> ''/'' \<and> names_keyword file_words a k)"
| "spelled Help ws \<longleftrightarrow> (\<exists>w. ws = [w] \<and> names_option w ''help'')"
| "spelled Prconf ws \<longleftrightarrow> (\<exists>w. ws = [w] \<and> names_option w ''prconf'')"
| "spelled (Predid ks) ws \<longleftrightarrow> (\<exists>w us. ws = w # us \<and> names_option w ''predid'' \<and> names_keywords predid_words us ks)"
| "spelled Propt ws \<longleftrightarrow> (\<exists>w. ws = [w] \<and> names_option w ''propt'')"
| "spelled List_modes ws \<longleftrightarrow> (\<exists>w. ws = [w, ''?''] \<and> names_option w ''res'')"
| "spelled (Mode a ks) ws \<longleftrightarrow> (\<exists>w us. ws = w # a # us \<and> a \<noteq> ''?'' \<and> names_option w ''res'' \<and> names_keywords res_words us ks)"
| "spelled (Remote on) ws \<longleftrightarrow> (\<exists>w a. ws = [w, a] \<and> names_option w ''rscreen'' \<and> names_keyword switch_words a (if on then 1 else 0))"

text \<open>How the program takes it, in terms of its own search.\<close>

definition resolve :: "keywd_int list \<Rightarrow> string \<Rightarrow> int option" where
  "resolve table u = (case fbc_search_keywds (keywd_names table) u of (FBC_SUCCESS, Some i) \<Rightarrow> Some (kw_value (table ! i)) | _ \<Rightarrow> None)"

definition option_word :: "string \<Rightarrow> nat \<Rightarrow> bool" where
  "option_word w i \<longleftrightarrow> starts_with (CHR ''-'') w \<and> fbc_search_keywds (map argv_name ast_option) (tl w) = (FBC_SUCCESS, Some i)"

definition words_mean :: "keywd_int list \<Rightarrow> string list \<Rightarrow> int list \<Rightarrow> bool" where
  "words_mean table us ks \<longleftrightarrow> list_all (\<lambda>u. \<not> starts_with (CHR ''-'') u) us \<and> map (resolve table) us = map Some ks"

fun taken_as :: "request \<Rightarrow> string list \<Rightarrow> bool" where
  "taken_as Defaults ws \<longleftrightarrow> (\<exists>w. ws = [w] \<and> option_word w 0)"
| "taken_as (Dev a) ws \<longleftrightarrow> (\<exists>w. ws = [w, a] \<and> option_word w 1)"
| "taken_as (File_path a) ws \<longleftrightarrow> (\<exists>w. ws = [w, a] \<and> option_word w 2 \<and> starts_with (CHR ''/'') a)"
| "taken_as (File_keyword k) ws \<longleftrightarrow> (\<exists>w a. ws = [w, a] \<and> option_word w 2 \<and> \<not> starts_with (CHR ''/'') a \<and> resolve fbc_keywds_file a = Some k)"
| "taken_as Help ws \<longleftrightarrow> (\<exists>w. ws = [w] \<and> option_word w 3)"
| "taken_as Prconf ws \<longleftrightarrow> (\<exists>w. ws = [w] \<and> option_word w 4)"
| "taken_as (Predid ks) ws \<longleftrightarrow> (\<exists>w us. ws = w # us \<and> option_word w 5 \<and> words_mean fbc_keywds_predid us ks)"
| "taken_as Propt ws \<longleftrightarrow> (\<exists>w. ws = [w] \<and> option_word w 6)"
| "taken_as List_modes ws \<longleftrightarrow> (\<exists>w. ws = [w, ''?''] \<and> option_word w 7)"
| "taken_as (Mode a ks) ws \<longleftrightarrow> (\<exists>w us. ws = w # a # us \<and> a \<noteq> ''?'' \<and> option_word w 7 \<and> words_mean fbc_keywds_res_nntn us ks)"
| "taken_as (Remote on) ws \<longleftrightarrow> (\<exists>w a. ws = [w, a] \<and> option_word w 8 \<and> resolve (tl fbc_keywds_xable) a = Some (if on then 1 else 0))"

text \<open>What a request notes in the variables; nothing when the program ends with an error.\<close>

definition remote_value :: "bool \<Rightarrow> string" where
  "remote_value on = (if on then ''Enable'' else ''Disable'')"

definition remote_mod :: "bool \<Rightarrow> opt_mod" where
  "remote_mod on = \<lparr>mod_section = FBC_SECTION_Screen, mod_name = ''RemoteScreen'', mod_value = Some (remote_value on)\<rparr>"

definition set_remote :: "bool \<Rightarrow> varient \<Rightarrow> varient option" where
  "set_remote on v =
     (if remote_mod (\<not> on) \<in> set (Option_mods v) then None
      else Some (v\<lparr>modify_config := modify_config v OR 1, Option_mods := [remote_mod on]\<rparr>))"

definition res_flags :: "bool \<Rightarrow> int list \<Rightarrow> opt_set \<Rightarrow> opt_set" where
  "res_flags listing ks s =
     s\<lparr>set_res_list := listing, set_res_nocheck := (1 \<in> set ks), set_res_noconfirm := (1 \<in> set ks \<or> 2 \<in> set ks),
       set_res_now := (4 \<in> set ks), set_res_try := (3 \<in> set ks)\<rparr>"

fun perform :: "bool \<Rightarrow> request \<Rightarrow> varient \<Rightarrow> varient option" where
  "perform setugid Defaults v = set_remote False v"
| "perform setugid (Dev a) v = Some v"
| "perform setugid (File_path a) v =
     (if setugid then None else Some (v\<lparr>config_file_loc := None, config_search_path := Some ''%A'', config_file_path := Some a\<rparr>))"
| "perform setugid (File_keyword k) v =
     Some (v\<lparr>config_file_loc := Some (if k = 0 then ''machine'' else ''system''), config_search_path := Some ''%A'',
       config_file_path := Some (if k = 0 then ''/etc/X11/xorg.conf'' else ''/usr/lib/X11/xorg.conf'')\<rparr>)"
| "perform setugid Help v = Some (set_opt (\<lambda>s. s\<lparr>set_help := True\<rparr>) v)"
| "perform setugid Prconf v = Some (set_opt (\<lambda>s. s\<lparr>set_prconf := True\<rparr>) v)"
| "perform setugid (Predid ks) v = Some (set_opt (\<lambda>s. s\<lparr>set_predid_raw := (0 \<in> set ks), set_predid_parsed := (1 \<in> set ks \<or> 0 \<notin> set ks)\<rparr>) v)"
| "perform setugid Propt v = Some (set_opt (\<lambda>s. s\<lparr>set_propt := True\<rparr>) v)"
| "perform setugid List_modes v = Some (set_opt (res_flags True []) v)"
| "perform setugid (Mode a ks) v = Some (set_opt (res_flags False ks) (v\<lparr>video_mode_name := Some a, modify_config := modify_config v OR 2\<rparr>))"
| "perform setugid (Remote on) v = set_remote on v"

fun performs :: "bool \<Rightarrow> request list \<Rightarrow> varient \<Rightarrow> varient option" where
  "performs setugid [] v = Some v"
| "performs setugid (r # rs) v = Option.bind (perform setugid r v) (performs setugid rs)"

section \<open>Keywords\<close>

lemma keywd_loop_found: "keywd_loop table i w code m = (c, Some j) \<Longrightarrow> (\<forall>k. m = Some k \<longrightarrow> k < i) \<Longrightarrow> j < i + length table"
  by (induction table arbitrary: i code m) (fastforce simp: Let_def split: if_splits)+

lemma search_found: "fbc_search_keywds table w = (c, Some i) \<Longrightarrow> i < length table"
  using keywd_loop_found [of table 0 w] by (auto simp: fbc_search_keywds_def)

lemma resolve_Some:
  "resolve table u = Some k \<longleftrightarrow> (\<exists>i. fbc_search_keywds (keywd_names table) u = (FBC_SUCCESS, Some i) \<and> k = kw_value (table ! i))"
  by (auto simp: resolve_def split: prod.splits option.splits fbc_error.splits)

lemma hd_positions: "positions P xs \<noteq> [] \<and> hd (positions P xs) = i \<longleftrightarrow> i < length xs \<and> P (xs ! i) \<and> (\<forall>j<i. \<not> P (xs ! j))"
proof (induction xs arbitrary: i)
  case (Cons x xs)
  show ?case
  proof (cases "P x")
    case False
    have "positions P xs \<noteq> [] \<and> Suc (hd (positions P xs)) = i \<longleftrightarrow> (\<exists>k. i = Suc k \<and> k < length xs \<and> P (xs ! k) \<and> (\<forall>j<k. \<not> P (xs ! j)))"
      using Cons.IH by auto
    then show ?thesis using False by (cases i; cases "positions P xs = []") (auto simp: hd_map All_less_Suc2)
  qed (cases i; auto)
qed simp

lemma positions_one: "positions P xs = [i] \<longleftrightarrow> i < length xs \<and> (\<forall>j<length xs. P (xs ! j) \<longleftrightarrow> j = i)"
proof -
  have d: "distinct (positions P xs)" "set (positions P xs) = {j. j < length xs \<and> P (xs ! j)}" by (auto simp: positions_def)
  have "positions P xs = [i] \<longleftrightarrow> set (positions P xs) = {i}"
  proof
    assume "set (positions P xs) = {i}"
    then show "positions P xs = [i]" using d(1) by (cases "positions P xs") (auto simp: subset_singleton_iff)
  qed simp
  then show ?thesis unfolding d(2) by auto
qed

lemma search_names:
  assumes "c_string w" "\<forall>e\<in>set table. c_string e"
  shows "fbc_search_keywds table w = (FBC_SUCCESS, Some i) \<longleftrightarrow> names_entry table w i"
proof -
  let ?E = "positions (\<lambda>e. map low w = map low e) table" and ?P = "positions (\<lambda>e. \<exists>r. map low e = map low w @ r) table"
  have "fbc_search_keywds table w = keywd_answer ?E ?P" using keyword_lookup [OF assms] by blast
  then have a: "fbc_search_keywds table w = (FBC_SUCCESS, Some i) \<longleftrightarrow> (?E \<noteq> [] \<and> hd ?E = i) \<or> (?E = [] \<and> ?P = [i])"
    by (auto simp: keywd_answer_def split: list.splits)
  have "?E \<noteq> [] \<and> hd ?E = i" if "?P = [i]" "?E \<noteq> []"
  proof -
    have "set ?E \<subseteq> set ?P" by (auto simp: positions_def)
    then show ?thesis using that by (metis hd_in_set list.set(1,2) singletonD subsetD)
  qed
  then have "fbc_search_keywds table w = (FBC_SUCCESS, Some i) \<longleftrightarrow> (?E \<noteq> [] \<and> hd ?E = i) \<or> ?P = [i]" using a by blast
  then show ?thesis unfolding hd_positions positions_one names_entry_def abbreviates_def by (auto simp: eq_commute [of "map low w"])
qed

lemma named_options:
  assumes "c_string w"
  shows "option_word w 0 \<longleftrightarrow> names_option w ''defaults''" "option_word w 1 \<longleftrightarrow> names_option w ''dev''" "option_word w 2 \<longleftrightarrow> names_option w ''file''"
    "option_word w 3 \<longleftrightarrow> names_option w ''help''" "option_word w 4 \<longleftrightarrow> names_option w ''prconf''" "option_word w 5 \<longleftrightarrow> names_option w ''predid''"
    "option_word w 6 \<longleftrightarrow> names_option w ''propt''" "option_word w 7 \<longleftrightarrow> names_option w ''res''" "option_word w 8 \<longleftrightarrow> names_option w ''rscreen''"
proof -
  have t: "map argv_name ast_option = option_names_ast" by (simp add: ast_option_def flag_descr_def option_names_ast_def)
  have c: "\<forall>e\<in>set option_names_ast. c_string e" by (simp add: option_names_ast_def)
  have d: "distinct option_names_ast" "length option_names_ast = 9" by (simp_all add: option_names_ast_def)
  have n: "option_word w i \<longleftrightarrow> names_option w (option_names_ast ! i)" if "i < 9" for i
  proof -
    have "option_word w i \<longleftrightarrow> (\<exists>u. w = CHR ''-'' # u \<and> names_entry option_names_ast u i)"
      using assms search_names [OF _ c] by (cases w) (auto simp: option_word_def t starts_with_def)
    also have "\<dots> \<longleftrightarrow> names_option w (option_names_ast ! i)"
      using that d nth_eq_iff_index_eq [OF d(1)] by (auto simp: names_option_def names_entry_def)
    finally show ?thesis .
  qed
  show "option_word w 0 \<longleftrightarrow> names_option w ''defaults''" "option_word w 1 \<longleftrightarrow> names_option w ''dev''" "option_word w 2 \<longleftrightarrow> names_option w ''file''"
    "option_word w 3 \<longleftrightarrow> names_option w ''help''" "option_word w 4 \<longleftrightarrow> names_option w ''prconf''" "option_word w 5 \<longleftrightarrow> names_option w ''predid''"
    "option_word w 6 \<longleftrightarrow> names_option w ''propt''" "option_word w 7 \<longleftrightarrow> names_option w ''res''" "option_word w 8 \<longleftrightarrow> names_option w ''rscreen''"
    using n [of 0] n [of 1] n [of 2] n [of 3] n [of 4] n [of 5] n [of 6] n [of 7] n [of 8] by (simp_all add: option_names_ast_def)
qed

lemma named_keyword:
  assumes "c_string u" "keywd_names table = map fst kws" "map kw_value (takeWhile (\<lambda>k. kw_argv_name k \<noteq> None) table) = map snd kws"
    and "\<forall>e\<in>set (map fst kws). c_string e"
  shows "resolve table u = Some k \<longleftrightarrow> names_keyword kws u k"
proof -
  have v: "kw_value (table ! i) = snd (kws ! i)" if "i < length kws" for i
  proof -
    have l: "length (takeWhile (\<lambda>k. kw_argv_name k \<noteq> None) table) = length kws" using arg_cong [OF assms(3), of length] by simp
    then have "map kw_value (takeWhile (\<lambda>k. kw_argv_name k \<noteq> None) table) ! i = kw_value (table ! i)" using that by (simp add: takeWhile_nth)
    then show ?thesis using assms(3) that by simp
  qed
  have "resolve table u = Some k \<longleftrightarrow> (\<exists>i. names_entry (map fst kws) u i \<and> k = kw_value (table ! i))"
    unfolding resolve_Some assms(2) search_names [OF assms(1,4)] ..
  also have "\<dots> \<longleftrightarrow> names_keyword kws u k" using v by (auto simp: names_keyword_def names_entry_def)
  finally show ?thesis .
qed

lemma keyword_tables:
  "keywd_names fbc_keywds_file = map fst file_words" "map kw_value (takeWhile (\<lambda>k. kw_argv_name k \<noteq> None) fbc_keywds_file) = map snd file_words"
  "keywd_names fbc_keywds_predid = map fst predid_words" "map kw_value (takeWhile (\<lambda>k. kw_argv_name k \<noteq> None) fbc_keywds_predid) = map snd predid_words"
  "keywd_names fbc_keywds_res_nntn = map fst res_words" "map kw_value (takeWhile (\<lambda>k. kw_argv_name k \<noteq> None) fbc_keywds_res_nntn) = map snd res_words"
  "keywd_names (tl fbc_keywds_xable) = map fst switch_words" "map kw_value (takeWhile (\<lambda>k. kw_argv_name k \<noteq> None) (tl fbc_keywds_xable)) = map snd switch_words"
  by code_simp+

lemma named_keywords:
  assumes "c_string u"
  shows "resolve fbc_keywds_file u = Some k \<longleftrightarrow> names_keyword file_words u k" "resolve fbc_keywds_predid u = Some k \<longleftrightarrow> names_keyword predid_words u k"
    "resolve fbc_keywds_res_nntn u = Some k \<longleftrightarrow> names_keyword res_words u k" "resolve (tl fbc_keywds_xable) u = Some k \<longleftrightarrow> names_keyword switch_words u k"
  by (rule named_keyword [OF assms keyword_tables(1,2)], simp add: file_words_def,
      rule named_keyword [OF assms keyword_tables(3,4)], simp add: predid_words_def,
      rule named_keyword [OF assms keyword_tables(5,6)], simp add: res_words_def,
      rule named_keyword [OF assms keyword_tables(7,8)], simp add: switch_words_def)

lemma starts_take: "starts_with c a \<longleftrightarrow> take 1 a = [c]"
  by (cases a) (auto simp: starts_with_def)

lemma named_words:
  assumes "\<forall>u\<in>set us. c_string u"
  shows "words_mean fbc_keywds_predid us ks \<longleftrightarrow> names_keywords predid_words us ks" "words_mean fbc_keywds_res_nntn us ks \<longleftrightarrow> names_keywords res_words us ks"
proof -
  have "words_mean table us ks \<longleftrightarrow> list_all2 (\<lambda>u k. take 1 u \<noteq> ''-'' \<and> resolve table u = Some k) us ks" for table us ks
  proof (induction us arbitrary: ks)
    case (Cons u us)
    then show ?case by (cases ks) (auto simp: words_mean_def starts_take)
  qed (auto simp: words_mean_def)
  then show "words_mean fbc_keywds_predid us ks \<longleftrightarrow> names_keywords predid_words us ks" "words_mean fbc_keywds_res_nntn us ks \<longleftrightarrow> names_keywords res_words us ks"
    using assms named_keywords(2,3) unfolding names_keywords_def by (auto simp: list_all2_conv_all_nth)
qed

lemma taken_spelled: "\<forall>w\<in>set ws. c_string w \<Longrightarrow> taken_as r ws \<longleftrightarrow> spelled r ws"
  by (cases r) (auto simp: named_options named_keywords named_words starts_take simp del: One_nat_def)

lemma resolve_in: "resolve table u = Some k \<Longrightarrow> \<exists>m\<in>set (takeWhile (\<lambda>k. kw_argv_name k \<noteq> None) table). k = kw_value m"
  by (auto simp: resolve_Some keywd_names_def dest!: search_found) (metis nth_mem takeWhile_nth)

lemma optvals_found:
  "fbc_search_optvals table u = (case resolve table u of None \<Rightarrow> Exited | Some k \<Rightarrow> fbc_search_optvals table u)"
  "resolve table u = Some k \<Longrightarrow> \<exists>m\<in>set (takeWhile (\<lambda>k. kw_argv_name k \<noteq> None) table). fbc_search_optvals table u = Returned m \<and> k = kw_value m"
  by (auto simp: resolve_Some keywd_names_def fbc_search_optvals_def resolve_def split: prod.splits option.splits fbc_error.splits dest!: search_found)
    (metis nth_mem takeWhile_nth)

lemma optvals_row: "fbc_search_optvals table u = Returned m \<Longrightarrow> kw_argv_name m \<noteq> None"
  using optvals_found [of table u] by (cases "resolve table u") (auto dest!: set_takeWhileD)

lemma set_opt_twice [simp]: "set_opt f (set_opt g v) = set_opt (\<lambda>s. f (g s)) v"
  by (simp add: set_opt_def)

lemma set_opt_simps [simp]:
  "fbc_option (set_opt f v) = fbc_option v" "Option_mods (set_opt f v) = Option_mods v" "Option_mods_size (set_opt f v) = Option_mods_size v"
  "modify_config (set_opt f v) = modify_config v" "set_opt f v\<lparr>modify_config := n\<rparr> = set_opt f (v\<lparr>modify_config := n\<rparr>)"
  "set_opt f v\<lparr>video_mode_name := a\<rparr> = set_opt f (v\<lparr>video_mode_name := a\<rparr>)"
  by (simp_all add: set_opt_def)

lemma keywords_read:
  assumes "arg + k + length us + length rest = length argv" "drop (arg + k) argv = us @ rest" "words_mean table us ks"
    "rest = [] \<or> starts_with (CHR ''-'') (hd rest)"
  shows "keywords_loop k table f argv arg v = Returned (arg + length us, set_opt (fold f ks) v)"
  using assms
proof (induction us arbitrary: arg v ks)
  case Nil
  then have "arg + k = length argv \<or> starts_with (CHR ''-'') (argv ! (arg + k))" by (cases rest) (auto simp: hd_drop_conv_nth [symmetric])
  then show ?case using Nil by (simp add: keywords_loop.simps words_mean_def set_opt_def)
next
  case (Cons u us)
  obtain k1 ks1 where ks: "ks = k1 # ks1" "resolve table u = Some k1" "words_mean table us ks1" "\<not> starts_with (CHR ''-'') u"
    using Cons.prems(3) by (cases ks) (auto simp: words_mean_def)
  have u: "argv ! (arg + k) = u" "arg + k < length argv" using Cons.prems(1,2) by (auto simp: nth_via_drop)
  have "drop (arg + 1 + k) argv = us @ rest" using Cons.prems(2) by (metis append_Cons drop_Suc tl_drop list.sel(3) add.commute add_Suc_right plus_1_eq_Suc)
  then have IH: "keywords_loop k table f argv (arg + 1) v' = Returned (arg + 1 + length us, set_opt (fold f ks1) v')" for v'
    using Cons.IH [of "arg + 1" ks1 v'] Cons.prems(1,4) ks(3) by simp
  obtain m where "fbc_search_optvals table u = Returned m" "k1 = kw_value m" using optvals_found(2) [OF ks(2)] by blast
  then show ?case using u ks(1,4) IH by (subst keywords_loop.simps) (simp add: comp_def)
qed

lemma keywords_split:
  assumes "arg + k \<le> length argv"
  shows "keywords_loop k table f argv arg v = Exited \<or>
    (\<exists>us ks rest. drop (arg + k) argv = us @ rest \<and> words_mean table us ks \<and> (rest = [] \<or> starts_with (CHR ''-'') (hd rest)))"
  using assms
proof (induction k table f argv arg v rule: keywords_loop.induct)
  case (1 k table f argv arg v)
  show ?case
  proof (cases "arg + k = length argv \<or> starts_with (CHR ''-'') (argv ! (arg + k))")
    case True
    then have "drop (arg + k) argv = [] @ drop (arg + k) argv \<and> words_mean table [] [] \<and> (drop (arg + k) argv = [] \<or> starts_with (CHR ''-'') (hd (drop (arg + k) argv)))"
      using 1(2) by (cases "arg + k = length argv") (auto simp: words_mean_def hd_drop_conv_nth)
    then show ?thesis by blast
  next
    case False
    then have l: "arg + k < length argv" using 1(2) by simp
    show ?thesis
    proof (cases "resolve table (argv ! (arg + k))")
      case None
      then show ?thesis using False l optvals_found(1) [of table "argv ! (arg + k)"] by (simp add: keywords_loop.simps)
    next
      case (Some n)
      obtain m where m: "fbc_search_optvals table (argv ! (arg + k)) = Returned m" using optvals_found(2) [OF Some] by blast
      have next_loop: "keywords_loop k table f argv arg v = keywords_loop k table f argv (arg + 1) (set_opt (f (kw_value m)) v)"
        using False l m by (subst keywords_loop.simps) simp
      have d: "drop (arg + k) argv = argv ! (arg + k) # drop (arg + 1 + k) argv" using l by (simp add: Cons_nth_drop_Suc)
      have "\<not> length argv < arg + k" using l by simp
      note IH = 1(1) [OF this False, of m]
      show ?thesis
      proof (cases "keywords_loop k table f argv (arg + 1) (set_opt (f (kw_value m)) v) = Exited")
        case True
        then show ?thesis using next_loop by simp
      next
        case go: False
        then obtain us ks rest where r: "drop (arg + 1 + k) argv = us @ rest" "words_mean table us ks" "rest = [] \<or> starts_with (CHR ''-'') (hd rest)"
          using IH l by auto
        have "drop (arg + k) argv = (argv ! (arg + k) # us) @ rest" using d r(1) by simp
        moreover have "words_mean table (argv ! (arg + k) # us) (n # ks)" using r(2) Some False by (simp add: words_mean_def)
        ultimately show ?thesis using r(3) by blast
      qed
    qed
  qed
qed

section \<open>Handlers\<close>

definition ready :: "varient \<Rightarrow> bool" where
  "ready v \<longleftrightarrow> fbc_option v = ast_option \<and> Option_mods_size v = 10 \<and> (Option_mods v = [] \<or> (\<exists>on. Option_mods v = [remote_mod on]))"

definition outcome :: "nat \<Rightarrow> varient option \<Rightarrow> (nat \<times> varient) fbc_run" where
  "outcome arg r = (case r of None \<Rightarrow> Exited | Some v \<Rightarrow> Returned (arg, v))"

lemma perform_ready: "ready v \<Longrightarrow> perform setugid r v = Some v' \<Longrightarrow> ready v'"
  by (cases r) (auto simp: ready_def set_remote_def split: if_splits option.splits)

lemma remote_names:
  "c_name (''RemoteScreen'' @ [CHR 0x00]) = ''RemoteScreen''" "next_name (''RemoteScreen'' @ [CHR 0x00]) = Returned []" "strcasecmp ''RemoteScreen'' ''RemoteScreen'' = 0"
  "no_case (remote_value a) (remote_value b) \<longleftrightarrow> a = b" "remote_mod a = remote_mod b \<longleftrightarrow> a = b"
proof -
  have "no_case (remote_value True) (remote_value True)" "\<not> no_case (remote_value True) (remote_value False)" "\<not> no_case (remote_value False) (remote_value True)"
    "no_case (remote_value False) (remote_value False)" by code_simp+
  then show "no_case (remote_value a) (remote_value b) \<longleftrightarrow> a = b" by (cases a; cases b) simp_all
  show "remote_mod a = remote_mod b \<longleftrightarrow> a = b" by (simp add: remote_mod_def remote_value_def)
qed code_simp+

lemma xable_rows: "m \<in> set (takeWhile (\<lambda>k. kw_argv_name k \<noteq> None) (tl fbc_keywds_xable)) \<Longrightarrow> kw_conf_name m = Some (remote_value (kw_value m = 1)) \<and> kw_value m \<in> {0, 1}"
proof -
  have "list_all (\<lambda>m. kw_conf_name m = Some (remote_value (kw_value m = 1)) \<and> kw_value m \<in> {0, 1}) (takeWhile (\<lambda>k. kw_argv_name k \<noteq> None) (tl fbc_keywds_xable))"
    by code_simp
  then show "m \<in> set (takeWhile (\<lambda>k. kw_argv_name k \<noteq> None) (tl fbc_keywds_xable)) \<Longrightarrow> ?thesis" by (auto simp: list_all_iff)
qed

lemma add_remote:
  assumes "ready v"
  shows "fbc_add_Option_mod FBC_SECTION_Screen ''RemoteScreen'' (Some (remote_value on)) no_case v =
    (case set_remote on v of
       None \<Rightarrow> Returned (FBC_ERR_OPT_CONFLICT, None, v\<lparr>modify_config := modify_config v OR 1\<rparr>)
     | Some v1 \<Rightarrow> Returned (FBC_SUCCESS, Some 0, v1))"
proof (cases "Option_mods v = []")
  case True
  then show ?thesis using assms by (simp add: fbc_add_Option_mod_def Let_def set_remote_def ready_def sectn_bit_def remote_mod_def)
next
  case False
  then obtain old where old: "Option_mods v = [remote_mod old]" using assms by (auto simp: ready_def)
  then show ?thesis using remote_names(3-5)
    by (auto simp: fbc_add_Option_mod_def Let_def set_remote_def sectn_bit_def remote_mod_def)
qed

lemma remote_run:
  assumes "ready v" "arg + 1 < length argv" "keywd_table d = Some fbc_keywds_xable" "conf_name d = Some (''RemoteScreen'' @ [CHR 0x00])" "descr_section d = FBC_SECTION_Screen"
  shows "resolve (tl fbc_keywds_xable) (argv ! (arg + 1)) = Some (if on then 1 else 0) \<Longrightarrow> fbc_Option_keyword argv arg v d = outcome arg (set_remote on v)"
    and "resolve (tl fbc_keywds_xable) (argv ! (arg + 1)) = None \<Longrightarrow> fbc_Option_keyword argv arg v d = Exited"
proof -
  have a: "arg_ptr argv (arg + 1) = Returned (Some (argv ! (arg + 1)))" using assms(2) by (simp add: arg_ptr_def)
  { assume "resolve (tl fbc_keywds_xable) (argv ! (arg + 1)) = Some (if on then 1 else 0)"
    from optvals_found(2) [OF this] obtain m where m: "fbc_search_optvals (tl fbc_keywds_xable) (argv ! (arg + 1)) = Returned m" "kw_conf_name m = Some (remote_value on)"
      using xable_rows by (auto split: if_splits)
    have c: "conf_value (tl fbc_keywds_xable) (Some (argv ! (arg + 1))) = Returned (Some (remote_value on))" unfolding conf_value_def deref_def defined_simps run_bind_simps m(1) m(2) by simp
    have h: "kw_conf_name (hd fbc_keywds_xable) = Some (remote_value False)" by code_simp
    have r: "reset_loop FBC_SECTION_Screen (''RemoteScreen'' @ [CHR 0x00]) x no_case v1 = Returned v1" for x v1
      by (subst reset_loop.simps) (simp only: remote_names fbc_run.case, simp)
    show "fbc_Option_keyword argv arg v d = outcome arg (set_remote on v)"
      unfolding fbc_Option_keyword_def fbc_add_radio_Option_mod_def
      using a c h assms(3-5) add_remote [OF assms(1), of on]
      by (auto simp: deref_def Let_def remote_names r outcome_def simp del: append.simps split: option.splits) }
  assume "resolve (tl fbc_keywds_xable) (argv ! (arg + 1)) = None"
  then have "fbc_search_optvals (tl fbc_keywds_xable) (argv ! (arg + 1)) = Exited" using optvals_found(1) by (metis option.case(1))
  then show "fbc_Option_keyword argv arg v d = Exited"
    unfolding fbc_Option_keyword_def fbc_add_radio_Option_mod_def conf_value_def using a assms(3) by (simp add: deref_def)
qed

lemma table_length: "length ast_option = 9"
  by (simp add: ast_option_def)

lemma no_defaults: "i < 8 \<Longrightarrow> defaults_argv (ast_option ! i) = None"
proof -
  have "list_all (\<lambda>i. defaults_argv (ast_option ! i) = None) [0 ..< 8]" by code_simp
  then show "i < 8 \<Longrightarrow> ?thesis" by (simp add: list_all_iff)
qed

lemma remote_descr:
  "keywd_table (ast_option ! 8) = Some fbc_keywds_xable" "conf_name (ast_option ! 8) = Some (''RemoteScreen'' @ [CHR 0x00])" "descr_section (ast_option ! 8) = FBC_SECTION_Screen"
  "fbc_getopt_fn (ast_option ! 8) = Option_keyword" "defaults_argv (ast_option ! 8) = Some fbc_defargv_rscreen" "strcasecmp (argv_name (ast_option ! 8)) ''defaults'' \<noteq> 0"
  by (simp_all add: ast_option_def lower_def cval_def)

lemma defaults_skip:
  assumes "ready v" "i \<le> 8"
  shows "defaults_loop setugid self i v = defaults_loop setugid self 8 v"
  using assms(2)
proof (induction rule: inc_induct)
  case (step n)
  then show ?case using no_defaults assms(1) by (subst defaults_loop.simps) (simp add: ready_def table_length)
qed simp

lemma defaults_run:
  assumes "ready v"
  shows "fbc_opt_defaults setugid arg 0 v = outcome arg (set_remote False v)"
proof -
  have d: "fbc_option v = ast_option" using assms by (simp add: ready_def)
  have e: "defaults_loop setugid 0 9 v1 = Some (Returned v1)" if "set_remote False v = Some v1" for v1
    using that d by (subst defaults_loop.simps) (auto simp: table_length set_remote_def split: if_splits)
  have "resolve (tl fbc_keywds_xable) (fbc_defargv_rscreen ! (0 + 1)) = Some (if False then 1 else 0)" "0 + 1 < length fbc_defargv_rscreen" by code_simp+
  from remote_run(1) [OF assms this(2) remote_descr(1-3) this(1)]
  have h: "fbc_Option_keyword fbc_defargv_rscreen 0 v (ast_option ! 8) = outcome 0 (set_remote False v)" .
  have "defaults_loop setugid 0 8 v = (case set_remote False v of None \<Rightarrow> Some Exited | Some v1 \<Rightarrow> Some (Returned v1))"
    using e by (subst defaults_loop.simps) (auto simp: d table_length remote_descr simple_handler_def h outcome_def split: option.splits)
  then show ?thesis using defaults_skip [OF assms, of 0 setugid 0] by (auto simp: fbc_opt_defaults_def outcome_def split: option.splits)
qed

lemma predid_flags: "fold predid_keyword ks s = s\<lparr>set_predid_raw := (set_predid_raw s \<or> 0 \<in> set ks), set_predid_parsed := (set_predid_parsed s \<or> 1 \<in> set ks)\<rparr>"
  by (induction ks arbitrary: s) (auto simp: predid_keyword_def)

lemma res_keywords:
  "fold res_keyword ks s = s\<lparr>set_res_nocheck := (set_res_nocheck s \<or> 1 \<in> set ks), set_res_noconfirm := (set_res_noconfirm s \<or> 1 \<in> set ks \<or> 2 \<in> set ks),
     set_res_now := (set_res_now s \<or> 4 \<in> set ks), set_res_try := (set_res_try s \<or> 3 \<in> set ks)\<rparr>"
  by (induction ks arbitrary: s) (auto simp: res_keyword_def)

lemma file_rows: "m \<in> set (takeWhile (\<lambda>k. kw_argv_name k \<noteq> None) fbc_keywds_file) \<Longrightarrow> kw_argv_name m = Some (if kw_value m = 0 then ''machine'' else ''system'') \<and>
    kw_conf_name m = Some (if kw_value m = 0 then ''/etc/X11/xorg.conf'' else ''/usr/lib/X11/xorg.conf'')"
  by (auto simp: fbc_keywds_file_def kw_def no_kw_def)

lemma file_run:
  assumes "arg + 1 < length argv" "keywd_table d = Some fbc_keywds_file"
  shows "starts_with (CHR ''/'') (argv ! (arg + 1)) \<Longrightarrow>
      fbc_opt_file setugid argv arg v d = outcome arg (perform setugid (File_path (argv ! (arg + 1))) v)"
    and "\<not> starts_with (CHR ''/'') (argv ! (arg + 1)) \<Longrightarrow> resolve fbc_keywds_file (argv ! (arg + 1)) = Some k \<Longrightarrow>
      fbc_opt_file setugid argv arg v d = outcome arg (perform setugid (File_keyword k) v)"
    and "\<not> starts_with (CHR ''/'') (argv ! (arg + 1)) \<Longrightarrow> resolve fbc_keywds_file (argv ! (arg + 1)) = None \<Longrightarrow>
      fbc_opt_file setugid argv arg v d = Exited"
proof -
  have a: "arg_ptr argv (arg + 1) = Returned (Some (argv ! (arg + 1)))" using assms(1) by (simp add: arg_ptr_def)
  show "fbc_opt_file setugid argv arg v d = outcome arg (perform setugid (File_path (argv ! (arg + 1))) v)"
    if "starts_with (CHR ''/'') (argv ! (arg + 1))"
    using that a by (simp add: fbc_opt_file_def deref_def outcome_def fbc_config_search_path_def)
  show "fbc_opt_file setugid argv arg v d = Exited"
    if "\<not> starts_with (CHR ''/'') (argv ! (arg + 1))" "resolve fbc_keywds_file (argv ! (arg + 1)) = None"
  proof -
    have "fbc_search_optvals fbc_keywds_file (argv ! (arg + 1)) = Exited" using that(2) optvals_found(1) by (metis option.case(1))
    then show ?thesis using that(1) a assms(2) by (simp add: fbc_opt_file_def deref_def)
  qed
  show "fbc_opt_file setugid argv arg v d = outcome arg (perform setugid (File_keyword k) v)"
    if "\<not> starts_with (CHR ''/'') (argv ! (arg + 1))" "resolve fbc_keywds_file (argv ! (arg + 1)) = Some k"
  proof -
    from optvals_found(2) [OF that(2)] obtain m where "fbc_search_optvals fbc_keywds_file (argv ! (arg + 1)) = Returned m" "k = kw_value m"
      "kw_argv_name m = Some (if k = 0 then ''machine'' else ''system'')" "kw_conf_name m = Some (if k = 0 then ''/etc/X11/xorg.conf'' else ''/usr/lib/X11/xorg.conf'')"
      using file_rows by blast
    then show ?thesis using that(1) a assms(2) by (simp add: fbc_opt_file_def deref_def outcome_def fbc_config_search_path_def)
  qed
qed

section \<open>One request\<close>

definition at_boundary :: "string list \<Rightarrow> bool" where
  "at_boundary rest \<longleftrightarrow> rest = [] \<or> starts_with (CHR ''-'') (hd rest)"

fun open_ended :: "request \<Rightarrow> bool" where
  "open_ended (Predid ks) \<longleftrightarrow> True"
| "open_ended (Mode a ks) \<longleftrightarrow> True"
| "open_ended r \<longleftrightarrow> False"

lemma descr_at:
  "option_args (ast_option ! 0) = 0" "fbc_getopt_fn (ast_option ! 0) = Opt_defaults"
  "option_args (ast_option ! 1) = 1" "fbc_getopt_fn (ast_option ! 1) = Opt_dev"
  "option_args (ast_option ! 2) = 1" "fbc_getopt_fn (ast_option ! 2) = Opt_file" "keywd_table (ast_option ! 2) = Some fbc_keywds_file"
  "option_args (ast_option ! 3) = 0" "fbc_getopt_fn (ast_option ! 3) = Opt_help"
  "option_args (ast_option ! 4) = 0" "fbc_getopt_fn (ast_option ! 4) = Opt_prconf"
  "option_args (ast_option ! 5) = 0" "fbc_getopt_fn (ast_option ! 5) = Opt_predid"
  "option_args (ast_option ! 6) = 0" "fbc_getopt_fn (ast_option ! 6) = Opt_propt"
  "option_args (ast_option ! 7) = 1" "fbc_getopt_fn (ast_option ! 7) = Opt_res" "keywd_table (ast_option ! 7) = Some fbc_keywds_res_nntn"
  "option_args (ast_option ! 8) = 1"
  by (simp_all add: ast_option_def flag_descr_def)

lemma option_step:
  assumes "ready v" "arg < length argv" "option_word (argv ! arg) i"
  shows "args_loop setugid argv arg v =
    (if length argv \<le> arg + option_args (ast_option ! i) then Some Exited
     else case run_handler setugid argv arg i v of
            Exited \<Rightarrow> Some Exited
          | Undefined \<Rightarrow> Some Undefined
          | Returned (arg1, v1) \<Rightarrow> args_loop setugid argv (arg1 + option_args (ast_option ! i) + 1) v1)"
proof -
  have "fbc_option v = ast_option" using assms(1) by (simp add: ready_def)
  then show ?thesis using assms(2,3) by (subst args_loop.simps) (simp add: option_word_def split: fbc_run.splits)
qed

lemma at_words:
  assumes "drop arg argv = ws @ rest" "j < length ws"
  shows "arg + j < length argv" "argv ! (arg + j) = ws ! j"
proof -
  have "length (drop arg argv) = length ws + length rest" using assms(1) by simp
  then show l: "arg + j < length argv" using assms(2) by simp
  have "argv ! (arg + j) = drop arg argv ! j" using l by simp
  then show "argv ! (arg + j) = ws ! j" using assms by (simp add: nth_append)
qed

lemma after_words: "drop arg argv = ws @ rest \<Longrightarrow> j \<le> length ws \<Longrightarrow> drop (arg + j) argv = drop j ws @ rest"
  by (metis add.commute drop_drop drop_append diff_is_0_eq drop0)

lemma predid_run:
  assumes "drop arg argv = (w # us) @ rest" "words_mean fbc_keywds_predid us ks" "at_boundary rest"
  shows "fbc_opt_predid argv arg v = outcome (arg + length us) (perform setugid (Predid ks) v)"
proof -
  have d: "drop (arg + 1) argv = us @ rest" using after_words [OF assms(1), of 1] by simp
  have l: "arg + 1 + length us + length rest = length argv" using at_words(1) [OF assms(1), of 0] arg_cong [OF assms(1), of length] by simp
  show ?thesis using keywords_read [OF l d assms(2) assms(3) [unfolded at_boundary_def], of predid_keyword]
    by (simp add: fbc_opt_predid_def predid_flags outcome_def set_opt_def)
qed

lemma res_run:
  assumes "drop arg argv = (w # a # us) @ rest" "words_mean fbc_keywds_res_nntn us ks" "at_boundary rest" "a \<noteq> ''?''" "keywd_table d = Some fbc_keywds_res_nntn"
  shows "fbc_opt_res argv arg v d = outcome (arg + length us) (perform setugid (Mode a ks) v)"
proof -
  have d: "drop (arg + 2) argv = us @ rest" using after_words [OF assms(1), of 2] by simp
  have l: "arg + 2 + length us + length rest = length argv" using at_words(1) [OF assms(1), of 0] arg_cong [OF assms(1), of length] by simp
  have a: "arg_ptr argv (arg + 1) = Returned (Some a)" using at_words [OF assms(1), of 1] by (simp add: arg_ptr_def)
  show ?thesis using keywords_read [OF l d assms(2) assms(3) [unfolded at_boundary_def], of res_keyword] a assms(4,5)
    by (simp add: fbc_opt_res_def Let_def deref_def res_keywords res_flags_def outcome_def set_opt_def sectn_bit_def)
qed

lemma request_run:
  assumes "ready v" "taken_as r ws" "drop arg argv = ws @ rest" "open_ended r \<Longrightarrow> at_boundary rest"
  shows "args_loop setugid argv arg v = (case perform setugid r v of None \<Rightarrow> Some Exited | Some v1 \<Rightarrow> args_loop setugid argv (arg + length ws) v1)"
proof -
  have f: "fbc_option v = ast_option" using assms(1) by (simp add: ready_def)
  have run: ?thesis if "option_word (ws ! 0) i" "0 < length ws" "option_args (ast_option ! i) < length ws"
      "run_handler setugid argv arg i v = outcome (arg + length ws - option_args (ast_option ! i) - 1) (perform setugid r v)" for i
  proof -
    have w: "arg < length argv" "argv ! arg = ws ! 0" "arg + option_args (ast_option ! i) < length argv"
      using at_words [OF assms(3)] that(2,3) by (metis add.right_neutral)+
    have "option_word (argv ! arg) i" using that(1) w(2) by simp
    note step = option_step [OF assms(1) w(1) this, of setugid]
    have "arg + length ws - option_args (ast_option ! i) - 1 + option_args (ast_option ! i) + 1 = arg + length ws" using that(3) by simp
    then show ?thesis using step that(4) w(3) by (simp add: outcome_def del: One_nat_def split: option.splits)
  qed
  note at = at_words [OF assms(3)]
  show ?thesis
  proof (cases r)
    case Defaults
    then show ?thesis using assms(2) by (intro run [of 0]) (auto simp: run_handler_def f descr_at defaults_run [OF assms(1)])
  next
    case (Dev a)
    then show ?thesis using assms(2) by (intro run [of 1]) (auto simp: run_handler_def f descr_at [simplified] simple_handler_def fbc_opt_dev_def outcome_def)
  next
    case (File_path a)
    then have "argv ! (arg + 1) = a" "arg + 1 < length argv" using assms(2) at [of 1] by auto
    then show ?thesis using File_path assms(2) file_run(1) [of arg argv "ast_option ! 2" setugid v]
      by (intro run [of 2]) (auto simp: run_handler_def f descr_at simple_handler_def)
  next
    case (File_keyword k)
    then obtain w a where w: "ws = [w, a]" "option_word w 2" "\<not> starts_with (CHR ''/'') a" "resolve fbc_keywds_file a = Some k" using assms(2) by auto
    then have "argv ! (arg + 1) = a" "arg + 1 < length argv" using at [of 1] by auto
    then show ?thesis using File_keyword w file_run(2) [of arg argv "ast_option ! 2" k setugid v]
      by (intro run [of 2]) (auto simp: run_handler_def f descr_at simple_handler_def)
  next
    case Help
    then show ?thesis using assms(2) by (intro run [of 3]) (auto simp: run_handler_def f descr_at simple_handler_def fbc_opt_help_def outcome_def)
  next
    case Prconf
    then show ?thesis using assms(2) by (intro run [of 4]) (auto simp: run_handler_def f descr_at simple_handler_def fbc_opt_prconf_def outcome_def)
  next
    case (Predid ks)
    then obtain w us where w: "ws = w # us" "option_word w 5" "words_mean fbc_keywds_predid us ks" using assms(2) by auto
    have "fbc_opt_predid argv arg v = outcome (arg + length us) (perform setugid (Predid ks) v)"
      using predid_run [of arg argv w us rest ks v setugid] assms(3,4) w Predid by simp
    then show ?thesis using w Predid by (intro run [of 5]) (auto simp: run_handler_def f descr_at simple_handler_def)
  next
    case Propt
    then show ?thesis using assms(2) by (intro run [of 6]) (auto simp: run_handler_def f descr_at simple_handler_def fbc_opt_propt_def outcome_def)
  next
    case List_modes
    then have "arg_ptr argv (arg + 1) = Returned (Some ''?'')" using assms(2) at [of 1] by (auto simp: arg_ptr_def)
    then show ?thesis using List_modes assms(2)
      by (intro run [of 7]) (auto simp: run_handler_def f descr_at simple_handler_def fbc_opt_res_def deref_def outcome_def res_flags_def set_opt_def)
  next
    case (Mode a ks)
    then obtain w us where w: "ws = w # a # us" "option_word w 7" "words_mean fbc_keywds_res_nntn us ks" "a \<noteq> ''?''" using assms(2) by auto
    have "fbc_opt_res argv arg v (ast_option ! 7) = outcome (arg + length us) (perform setugid (Mode a ks) v)"
      using res_run [of arg argv w a us rest ks "ast_option ! 7" v setugid] assms(3,4) w Mode by (simp add: descr_at)
    then show ?thesis using w Mode by (intro run [of 7]) (auto simp: run_handler_def f descr_at simple_handler_def)
  next
    case (Remote on)
    then obtain w a where w: "ws = [w, a]" "option_word w 8" "resolve (tl fbc_keywds_xable) a = Some (if on then 1 else 0)" using assms(2) by auto
    then have "argv ! (arg + 1) = a" "arg + 1 < length argv" using at [of 1] by auto
    then have "fbc_Option_keyword argv arg v (ast_option ! 8) = outcome arg (set_remote on v)"
      using remote_run(1) [OF assms(1) _ remote_descr(1-3), of arg argv on] w(3) by simp
    then show ?thesis using w Remote by (intro run [of 8]) (auto simp: run_handler_def f descr_at remote_descr simple_handler_def)
  qed
qed

lemma drop_two: "i + 1 < length xs \<Longrightarrow> drop i xs = [xs ! i, xs ! (i + 1)] @ drop (i + 2) xs"
  by (simp add: Cons_nth_drop_Suc)

lemma exited_handler:
  assumes "ready v" "arg < length argv" "option_word (argv ! arg) i" "run_handler setugid argv arg i v = Exited"
  shows "args_loop setugid argv arg v = Some Exited"
  using option_step [OF assms(1-3), of setugid] assms(4) by simp

lemma predid_found:
  assumes "ready v" "arg < length argv" "option_word (argv ! arg) 5"
  shows "args_loop setugid argv arg v = Some Exited \<or> (\<exists>ks us rest. drop arg argv = (argv ! arg # us) @ rest \<and> words_mean fbc_keywds_predid us ks \<and> at_boundary rest)"
proof -
  have f: "fbc_option v = ast_option" using assms(1) by (simp add: ready_def)
  let ?v = "set_opt (\<lambda>s. s\<lparr>set_predid_raw := False, set_predid_parsed := False\<rparr>) v"
  consider "keywords_loop 1 fbc_keywds_predid predid_keyword argv arg ?v = Exited"
    | us ks rest where "drop (arg + 1) argv = us @ rest" "words_mean fbc_keywds_predid us ks" "rest = [] \<or> starts_with (CHR ''-'') (hd rest)"
    using keywords_split [of arg 1 argv fbc_keywds_predid predid_keyword ?v] assms(2) by auto
  then show ?thesis
  proof cases
    case 1
    then have "run_handler setugid argv arg 5 v = Exited" by (simp add: run_handler_def f descr_at simple_handler_def fbc_opt_predid_def)
    then show ?thesis using exited_handler [OF assms] by simp
  next
    case 2
    moreover have "drop arg argv = argv ! arg # drop (arg + 1) argv" using assms(2) by (simp add: Cons_nth_drop_Suc)
    ultimately show ?thesis by (auto simp: at_boundary_def)
  qed
qed

lemma res_found:
  assumes "ready v" "arg + 1 < length argv" "option_word (argv ! arg) 7" "argv ! (arg + 1) \<noteq> ''?''"
  shows "args_loop setugid argv arg v = Some Exited \<or>
    (\<exists>ks us rest. drop arg argv = (argv ! arg # argv ! (arg + 1) # us) @ rest \<and> words_mean fbc_keywds_res_nntn us ks \<and> at_boundary rest)"
proof -
  have f: "fbc_option v = ast_option" using assms(1) by (simp add: ready_def)
  have a: "arg_ptr argv (arg + 1) = Returned (Some (argv ! (arg + 1)))" using assms(2) by (simp add: arg_ptr_def)
  let ?v = "set_opt (\<lambda>s. s\<lparr>set_res_list := False, set_res_nocheck := False, set_res_noconfirm := False, set_res_try := False, set_res_now := False\<rparr>) v\<lparr>video_mode_name := Some (argv ! (arg + 1))\<rparr>"
  consider "keywords_loop 2 fbc_keywds_res_nntn res_keyword argv arg ?v = Exited"
    | us ks rest where "drop (arg + 2) argv = us @ rest" "words_mean fbc_keywds_res_nntn us ks" "rest = [] \<or> starts_with (CHR ''-'') (hd rest)"
    using keywords_split [of arg 2 argv fbc_keywds_res_nntn res_keyword ?v] assms(2) by auto
  then show ?thesis
  proof cases
    case 1
    then have "run_handler setugid argv arg 7 v = Exited" using a assms(4)
      by (simp add: run_handler_def f descr_at simple_handler_def fbc_opt_res_def Let_def deref_def)
    then show ?thesis using exited_handler [OF assms(1) _ assms(3)] assms(2) by simp
  next
    case 2
    then show ?thesis using drop_two [OF assms(2)] by (auto simp: at_boundary_def)
  qed
qed

lemma request_found:
  assumes "ready v" "arg < length argv" "starts_with (CHR ''-'') (argv ! arg)"
  shows "args_loop setugid argv arg v = Some Exited \<or> (\<exists>r ws rest. drop arg argv = ws @ rest \<and> taken_as r ws \<and> (open_ended r \<longrightarrow> at_boundary rest))"
proof (cases "\<exists>i. option_word (argv ! arg) i")
  case False
  then have "\<nexists>i. fbc_search_keywds (map argv_name ast_option) (tl (argv ! arg)) = (FBC_SUCCESS, Some i)" using assms(3) by (auto simp: option_word_def)
  then have "args_loop setugid argv arg v = Some Exited"
    using assms by (subst args_loop.simps) (auto simp: ready_def split: prod.splits option.splits fbc_error.splits)
  then show ?thesis ..
next
  case True
  then obtain i where i: "option_word (argv ! arg) i" by blast
  then have "i < 9" using search_found [of "map argv_name ast_option"] by (auto simp: option_word_def table_length)
  then have nine: "i \<in> {0, 1, 2, 3, 4, 5, 6, 7, 8}" by auto
  have one: "drop arg argv = [argv ! arg] @ drop (arg + 1) argv" using assms(2) by (simp add: Cons_nth_drop_Suc)
  have f: "fbc_option v = ast_option" using assms(1) by (simp add: ready_def)
  have short: "args_loop setugid argv arg v = Some Exited" if "length argv \<le> arg + 1" "option_args (ast_option ! i) = 1"
    using option_step [OF assms(1,2) i, of setugid] that by simp
  have found: ?thesis if "drop arg argv = ws @ rest" "taken_as r ws" "open_ended r \<longrightarrow> at_boundary rest" for r ws rest using that by blast
  consider "i \<in> {0, 3, 4, 6}" | "i = 5" | "option_args (ast_option ! i) = 1" "length argv \<le> arg + 1" | "i \<in> {1, 2, 7, 8}" "arg + 1 < length argv"
    using nine descr_at by (elim insertE) (simp_all, linarith+)
  then show ?thesis
  proof cases
    case 1
    then show ?thesis using i found [OF one, of Defaults] found [OF one, of Help] found [OF one, of Prconf] found [OF one, of Propt] by auto
  next
    case 2
    have "?thesis" if "drop arg argv = (argv ! arg # us) @ rest" "words_mean fbc_keywds_predid us ks" "at_boundary rest" for ks us rest
      using found [OF that(1), of "Predid ks"] that(2,3) i 2 by simp
    then show ?thesis using predid_found [OF assms(1,2), of setugid] i 2 by blast
  next
    case 3
    then show ?thesis using short by simp
  next
    case 4
    note two = drop_two [OF 4(2)]
    have r8: "args_loop setugid argv arg v = Some Exited" if "i = 8" "resolve (tl fbc_keywds_xable) (argv ! (arg + 1)) = None"
    proof -
      have "run_handler setugid argv arg 8 v = Exited"
        using remote_run(2) [OF assms(1) 4(2) remote_descr(1-3) that(2)] by (simp add: run_handler_def f remote_descr simple_handler_def)
      then show ?thesis using exited_handler [OF assms(1,2)] i that(1) by simp
    qed
    have r8': ?thesis if "i = 8" "resolve (tl fbc_keywds_xable) (argv ! (arg + 1)) = Some k" for k
    proof -
      have "k = (if k = 1 then 1 else 0)" using resolve_in [OF that(2)] xable_rows by fastforce
      then show ?thesis using found [OF two, of "Remote (k = 1)"] i that by simp
    qed
    from 4(1) consider "i = 1" | "i = 2" | "i = 7" "argv ! (arg + 1) = ''?''" | "i = 7" "argv ! (arg + 1) \<noteq> ''?''" | "i = 8" by auto
    then show ?thesis
    proof cases
      case 1
      then show ?thesis using found [OF two, of "Dev (argv ! (arg + 1))"] i by simp
    next
      case 2
      then show ?thesis
      proof (cases "starts_with (CHR ''/'') (argv ! (arg + 1))")
        case True
        then show ?thesis using 2 found [OF two, of "File_path (argv ! (arg + 1))"] i by simp
      next
        case False
        show ?thesis
        proof (cases "resolve fbc_keywds_file (argv ! (arg + 1))")
          case None
          then have "run_handler setugid argv arg 2 v = Exited"
            using file_run(3) [OF 4(2) descr_at(7) False, of setugid v] by (simp add: run_handler_def f descr_at simple_handler_def)
          then show ?thesis using exited_handler [OF assms(1,2)] i 2 by simp
        next
          case (Some k)
          then show ?thesis using 2 False found [OF two, of "File_keyword k"] i by simp
        qed
      qed
    next
      case 3
      then show ?thesis using found [OF two, of List_modes] i by simp
    next
      case m: 4
      have "?thesis" if "drop arg argv = (argv ! arg # argv ! (arg + 1) # us) @ rest" "words_mean fbc_keywds_res_nntn us ks" "at_boundary rest" for ks us rest
        using found [OF that(1), of "Mode (argv ! (arg + 1)) ks"] that(2,3) i m by simp
      then show ?thesis using res_found [OF assms(1) 4(2), of setugid] i m by blast
    next
      case 5
      then show ?thesis using r8 r8' by (cases "resolve (tl fbc_keywds_xable) (argv ! (arg + 1))") auto
    qed
  qed
qed

section \<open>The command line\<close>

lemma taken_first: "taken_as r ws \<Longrightarrow> ws \<noteq> [] \<and> starts_with (CHR ''-'') (hd ws)"
  by (cases r) (auto simp: option_word_def)

lemma requests_run:
  "list_all2 taken_as rs wss \<Longrightarrow> ready v \<Longrightarrow> drop arg argv = concat wss \<Longrightarrow>
    args_loop setugid argv arg v = (case performs setugid rs v of None \<Rightarrow> Some Exited | Some w \<Rightarrow> Some (Returned (arg + length (concat wss), w)))"
proof (induction rs wss arbitrary: arg v rule: list_all2_induct)
  case Nil
  then show ?case by (subst args_loop.simps) simp
next
  case (Cons r rs ws wss)
  have d: "drop arg argv = ws @ concat wss" using Cons.prems(2) by simp
  have "at_boundary (concat wss)" using Cons(2) taken_first by (cases wss) (auto simp: at_boundary_def list_all2_Cons2)
  then have run: "args_loop setugid argv arg v = (case perform setugid r v of None \<Rightarrow> Some Exited | Some v1 \<Rightarrow> args_loop setugid argv (arg + length ws) v1)"
    using request_run [OF Cons.prems(1) Cons(1) d] by blast
  have "drop (arg + length ws) argv = concat wss" using after_words [OF d, of "length ws"] by simp
  then show ?case using run Cons.IH [of _ "arg + length ws"] perform_ready [OF Cons.prems(1), of setugid r]
    by (auto simp: add.assoc split: option.splits)
qed

lemma requests_found:
  "ready v \<Longrightarrow> args_loop setugid argv arg v = Some Exited \<or>
    (\<exists>a w. args_loop setugid argv arg v = Some (Returned (a, w)) \<and> ready w \<and>
       (length argv \<le> a \<longrightarrow> (\<exists>rs wss. drop arg argv = concat wss \<and> list_all2 taken_as rs wss \<and> performs setugid rs v = Some w)))"
proof (induction "length argv - arg" arbitrary: arg v rule: less_induct)
  case less
  show ?case
  proof (cases "length argv \<le> arg \<or> \<not> starts_with (CHR ''-'') (argv ! arg)")
    case True
    then have "args_loop setugid argv arg v = Some (Returned (arg, v))" by (subst args_loop.simps) auto
    moreover have "length argv \<le> arg \<Longrightarrow> drop arg argv = concat [] \<and> list_all2 taken_as [] [] \<and> performs setugid [] v = Some v" by simp
    ultimately show ?thesis using less.prems by blast
  next
    case False
    then have a: "arg < length argv" "starts_with (CHR ''-'') (argv ! arg)" by auto
    show ?thesis
    proof (cases "args_loop setugid argv arg v = Some Exited")
      case go: False
      then obtain r ws rest where r: "drop arg argv = ws @ rest" "taken_as r ws" "open_ended r \<longrightarrow> at_boundary rest"
        using request_found [OF less.prems a, of setugid] by blast
      then have "args_loop setugid argv arg v = (case perform setugid r v of None \<Rightarrow> Some Exited | Some v1 \<Rightarrow> args_loop setugid argv (arg + length ws) v1)"
        using request_run [OF less.prems r(2,1)] by blast
      then obtain v1 where v1: "perform setugid r v = Some v1" "args_loop setugid argv arg v = args_loop setugid argv (arg + length ws) v1"
        using go by (auto split: option.splits)
      have d: "drop (arg + length ws) argv = rest" using after_words [OF r(1), of "length ws"] by simp
      have "length argv - (arg + length ws) < length argv - arg" using a(1) taken_first [OF r(2)] by (cases ws) auto
      from less.hyps [OF this perform_ready [OF less.prems v1(1)]] go v1(2)
      obtain b w where w: "args_loop setugid argv (arg + length ws) v1 = Some (Returned (b, w))" "ready w"
        "length argv \<le> b \<longrightarrow> (\<exists>rs wss. rest = concat wss \<and> list_all2 taken_as rs wss \<and> performs setugid rs v1 = Some w)"
        using d by auto
      have "\<exists>rs wss. drop arg argv = concat wss \<and> list_all2 taken_as rs wss \<and> performs setugid rs v = Some w" if long: "length argv \<le> b"
      proof -
        obtain rs wss where "rest = concat wss" "list_all2 taken_as rs wss" "performs setugid rs v1 = Some w" using w(3) long by blast
        then have "drop arg argv = concat (ws # wss) \<and> list_all2 taken_as (r # rs) (ws # wss) \<and> performs setugid (r # rs) v = Some w" using r v1(1) by simp
        then show ?thesis by blast
      qed
      then show ?thesis using w(1,2) v1(2) by auto
    qed simp
  qed
qed

definition start_values :: "varient \<Rightarrow> varient" where
  "start_values v = v\<lparr>scrn_defaultdepth := 0, video_mode_name := None, Option_mods := [], modify_config := 0\<rparr>"

text \<open>
  C15. The command line is read as it is meant. Whatever the arguments are, C strings without null characters, the program returns from reading them or ends with
  a message; it never reads past them or writes past the array of changes. It returns exactly when the arguments are
  a sequence of requests, each an option of the device followed by the arguments it takes, and every request can be carried out. An option is named after a dash by its full name or by an
  abbreviation that fits no other option, in any case, and so is a keyword; \<^verbatim>\<open>-file\<close> takes a path that begins with a slash, or one of its two keywords. A request can be carried
  out unless it switches \<^verbatim>\<open>RemoteScreen\<close> against an earlier one (\<^verbatim>\<open>-defaults\<close> switches it off), or gives \<^verbatim>\<open>-file\<close> a path while the program runs with the rights of another user.
  When the program returns, the variables hold what the requests ask for, in their order. Memory for the array is available.
\<close>

theorem command_line_read:
  assumes strings: "\<forall>a\<in>set args. c_string a"
  shows "fbc_getargs True setugid (prog # args) (SUNWast_get_properties v) \<noteq> Undefined \<and>
   (fbc_getargs True setugid (prog # args) (SUNWast_get_properties v) = Returned w \<longleftrightarrow>
     (\<exists>rs wss. args = concat wss \<and> list_all2 spelled rs wss \<and> performs setugid rs (start_values (SUNWast_get_properties v)) = Some w))"
proof -
  let ?v = "start_values (SUNWast_get_properties v)" and ?argv = "prog # args"
  have r: "ready ?v" by (simp add: ready_def start_values_def SUNWast_get_properties_def table_length)
  have e: "fbc_getargs True setugid ?argv (SUNWast_get_properties v) = run_bind (run_bind (defined (args_loop setugid ?argv 1 ?v)) (\<lambda>r. r)) (\<lambda>(arg, v1).
      if arg < length ?argv then Exited else if Option_mods_size v1 \<le> length (Option_mods v1) then Undefined else Returned v1)"
    by (simp add: fbc_getargs_def start_values_def Let_def)
  have d: "drop 1 ?argv = args" by simp
  have sp: "list_all2 taken_as rs wss \<longleftrightarrow> list_all2 spelled rs wss" if "args = concat wss" for rs wss
    using that strings taken_spelled by (auto simp: list_all2_conv_all_nth) (metis nth_mem)+
  show ?thesis
  proof
    show "fbc_getargs True setugid ?argv (SUNWast_get_properties v) \<noteq> Undefined"
      using requests_found [OF r, of setugid ?argv 1] unfolding e by (auto simp: ready_def split: if_splits)
    show "fbc_getargs True setugid ?argv (SUNWast_get_properties v) = Returned w \<longleftrightarrow>
        (\<exists>rs wss. args = concat wss \<and> list_all2 spelled rs wss \<and> performs setugid rs ?v = Some w)"
    proof
      assume "fbc_getargs True setugid ?argv (SUNWast_get_properties v) = Returned w"
      then obtain a where "args_loop setugid ?argv 1 ?v = Some (Returned (a, w))" "length ?argv \<le> a"
        unfolding e by (auto simp: run_bind_Returned defined_Returned split: if_splits)
      then have "\<exists>rs wss. args = concat wss \<and> list_all2 taken_as rs wss \<and> performs setugid rs ?v = Some w"
        using requests_found [OF r, of setugid ?argv 1] unfolding d by auto
      then show "\<exists>rs wss. args = concat wss \<and> list_all2 spelled rs wss \<and> performs setugid rs ?v = Some w" using sp by blast
    next
      assume "\<exists>rs wss. args = concat wss \<and> list_all2 spelled rs wss \<and> performs setugid rs ?v = Some w"
      then obtain rs wss where a: "args = concat wss" "list_all2 taken_as rs wss" "performs setugid rs ?v = Some w" using sp by blast
      then have l: "args_loop setugid ?argv 1 ?v = Some (Returned (1 + length args, w))" using requests_run [OF a(2) r, of 1 ?argv setugid] by simp
      moreover have "ready w" using requests_found [OF r, of setugid ?argv 1] l by auto
      ultimately show "fbc_getargs True setugid ?argv (SUNWast_get_properties v) = Returned w" unfolding e by (auto simp: ready_def)
    qed
  qed
qed

definition no_values :: varient where
  "no_values = \<lparr>config_file_loc = None, config_search_path = None, config_file_path = None, fbc_option = [], scrn_defaultdepth = 0, video_mode_name = None,
     Option_mods_size = 0, Option_mods = [], option_set = \<lparr>set_help = False, set_prconf = False, set_predid_raw = False, set_predid_parsed = False, set_propt = False,
       set_res_list = False, set_res_nocheck = False, set_res_noconfirm = False, set_res_now = False, set_res_try = False\<rparr>, modify_config = 0\<rparr>"

theorem command_line_read_witness:
  "\<exists>w. fbc_getargs True False [''fbconf_xorg'', ''-rs'', ''on'', ''-RES'', ''1024x768x60'', ''nocheck'', ''-prop''] (SUNWast_get_properties no_values) = Returned w \<and>
    Option_mods w = [remote_mod True] \<and> video_mode_name w = Some ''1024x768x60'' \<and> modify_config w = 3 \<and>
    set_res_noconfirm (option_set w) \<and> set_propt (option_set w) \<and> \<not> set_help (option_set w)"
proof -
  let ?rs = "[Remote True, Mode ''1024x768x60'' [1], Propt]" and ?wss = "[[''-rs'', ''on''], [''-RES'', ''1024x768x60'', ''nocheck''], [''-prop'']]"
  have "option_word ''-rs'' 8" "option_word ''-RES'' 7" "option_word ''-prop'' 6" "resolve (tl fbc_keywds_xable) ''on'' = Some 1" "words_mean fbc_keywds_res_nntn [''nocheck''] [1]"
    by code_simp+
  then have "list_all2 taken_as ?rs ?wss" by simp
  moreover have c: "\<forall>a\<in>set [''-rs'', ''on'', ''-RES'', ''1024x768x60'', ''nocheck'', ''-prop'']. c_string a" by simp
  ultimately have sp: "list_all2 spelled ?rs ?wss" using taken_spelled by (simp del: taken_as.simps spelled.simps)
  obtain w where w: "performs False ?rs (start_values (SUNWast_get_properties no_values)) = Some w"
    "Option_mods w = [remote_mod True] \<and> video_mode_name w = Some ''1024x768x60'' \<and> modify_config w = 3 \<and>
    set_res_noconfirm (option_set w) \<and> set_propt (option_set w) \<and> \<not> set_help (option_set w)"
    by (simp add: start_values_def SUNWast_get_properties_def no_values_def set_remote_def set_opt_def res_flags_def)
  have "concat ?wss = [''-rs'', ''on'', ''-RES'', ''1024x768x60'', ''nocheck'', ''-prop'']" by simp
  with command_line_read [OF c, of False "''fbconf_xorg''" no_values w] sp w
  show ?thesis by metis
qed

section \<open>Options that exclude each other\<close>

text \<open>No option is asked for twice.\<close>

definition mods_ok :: "opt_mod list \<Rightarrow> bool" where
  "mods_ok mods \<longleftrightarrow> sorted_wrt (\<lambda>m m'. \<not> (mod_section m' = mod_section m \<and> strcasecmp (mod_name m') (mod_name m) = 0)) mods"

definition asked :: "sectn_mask \<Rightarrow> string \<Rightarrow> string \<Rightarrow> varient \<Rightarrow> bool" where
  "asked s n x v \<longleftrightarrow> (\<exists>m\<in>set (Option_mods v). mod_section m = s \<and> strcasecmp n (mod_name m) = 0 \<and> (\<exists>y. mod_value m = Some y \<and> no_case x y))"

definition extends :: "varient \<Rightarrow> varient \<Rightarrow> bool" where
  "extends v v' \<longleftrightarrow> mods_ok (Option_mods v') \<and> (\<exists>new. Option_mods v' = Option_mods v @ new)"

function option_names :: "string \<Rightarrow> string list" where
  "option_names names = c_name names #
     (case next_name names of Returned names1 \<Rightarrow> if names1 = [] \<or> starts_with (CHR 0x00) names1 then [] else option_names names1 | _ \<Rightarrow> [])"
  by pat_completeness auto
termination
  by (relation "measure length") (auto simp: next_name_def Let_def split: if_splits)

declare option_names.simps [simp del]

lemma strcasecmp_refl [simp]: "strcasecmp s s = 0"
  by (induction s) simp_all

lemma asked_extends: "asked s n x v \<Longrightarrow> extends v v' \<Longrightarrow> asked s n x v'"
  unfolding asked_def extends_def by auto

lemma extends_trans: "extends u v \<Longrightarrow> extends v w \<Longrightarrow> extends u w"
  by (auto simp: extends_def)

lemma option_added:
  assumes "fbc_add_Option_mod s n (Some x) no_case v = Returned (FBC_SUCCESS, i, v')" "mods_ok (Option_mods v)"
  shows "extends v v' \<and> asked s n x v'"
proof -
  let ?P = "\<lambda>m. \<not> (s = mod_section m \<and> strcasecmp n (mod_name m) = 0)"
  let ?i = "length (takeWhile ?P (Option_mods v))"
  show ?thesis
  proof (cases "?i < length (Option_mods v)")
    case True
    then have "\<not> ?P (Option_mods v ! ?i)" by (rule nth_length_takeWhile)
    moreover obtain y where "mod_value (Option_mods v ! ?i) = Some y" "no_case x y" "Option_mods v' = Option_mods v"
      using assms(1) True by (auto simp: fbc_add_Option_mod_def Let_def split: option.splits if_splits)
    ultimately show ?thesis using True assms(2) unfolding asked_def extends_def by (metis append_Nil2 nth_mem)
  next
    case False
    then have "takeWhile ?P (Option_mods v) = Option_mods v" by (metis takeWhile_eq_take take_all not_less)
    then have "\<forall>m\<in>set (Option_mods v). ?P m" by (simp add: takeWhile_eq_all_conv)
    moreover have "Option_mods v' = Option_mods v @ [\<lparr>mod_section = s, mod_name = n, mod_value = Some x\<rparr>]"
      using assms(1) False by (auto simp: fbc_add_Option_mod_def Let_def split: if_splits)
    ultimately show ?thesis using assms(2) by (auto simp: extends_def asked_def mods_ok_def sorted_wrt_append no_case_def)
  qed
qed

lemma options_reset:
  "reset_loop s names r no_case v = Returned v' \<Longrightarrow> mods_ok (Option_mods v) \<Longrightarrow> extends v v' \<and> (\<forall>n\<in>set (tl (option_names names)). asked s n r v')"
proof (induction s names r no_case v rule: reset_loop.induct)
  case (1 s names r v)
  obtain names1 where n1: "next_name names = Returned names1" using 1(2) by (subst (asm) reset_loop.simps) (auto split: fbc_run.splits)
  show ?case
  proof (cases "names1 = [] \<or> starts_with (CHR 0x00) names1")
    case True
    then show ?thesis using 1(2,3) n1 by (subst (asm) reset_loop.simps) (auto simp: option_names.simps [of names] extends_def)
  next
    case False
    then obtain i v1 where v1: "fbc_add_Option_mod s (c_name names1) (Some r) no_case v = Returned (FBC_SUCCESS, i, v1)" "reset_loop s names1 r no_case v1 = Returned v'"
      using 1(2) n1 by (subst (asm) reset_loop.simps) (auto simp: run_bind_Returned split: if_splits)
    have a: "extends v v1" "asked s (c_name names1) r v1" using option_added [OF v1(1) 1(3)] by auto
    then have m: "mods_ok (Option_mods v1)" by (simp add: extends_def)
    have "extends v1 v' \<and> (\<forall>n\<in>set (tl (option_names names1)). asked s n r v')" using 1(1) [OF n1 False _ v1(2) m] by auto
    moreover have "set (tl (option_names names)) = insert (c_name names1) (set (tl (option_names names1)))"
      using n1 False by (simp add: option_names.simps [of names] option_names.simps [of names1])
    ultimately show ?thesis using a asked_extends extends_trans by auto
  qed
qed

text \<open>
  C19. Options that exclude each other are changed together: when an option with a keyword is accepted, the option is noted
  with the value of the keyword, and, unless that is the value that switches it off, the other options of its group are
  noted with the value that switches them off. What was noted before is kept, and nothing is noted twice. A value
  that contradicts one noted before is not accepted.
\<close>

theorem exclusive_options:
  assumes "mods_ok (Option_mods v)" "keywd_table d = Some table" "conf_name d = Some names" "fbc_Option_keyword argv arg v d = Returned (arg', v')"
  shows "extends v v' \<and> (\<exists>x. conf_value (tl table) (Some (argv ! (arg + 1))) = Returned (Some x) \<and> asked (descr_section d) (c_name names) x v' \<and>
    (\<forall>r n. kw_conf_name (hd table) = Some r \<and> \<not> no_case x r \<and> n \<in> set (tl (option_names names)) \<longrightarrow> asked (descr_section d) n r v'))"
proof -
  from assms(2,4) obtain i where "fbc_add_radio_Option_mod (Some (tl table)) (kw_conf_name (hd table)) argv arg v d = Returned (i, v')"
    by (auto simp: fbc_Option_keyword_def deref_def run_bind_Returned)
  then obtain a val j v1 where a: "arg_ptr argv (arg + 1) = Returned a" "conf_value (tl table) a = Returned val"
    "fbc_add_Option_mod (descr_section d) (c_name names) val no_case v = Returned (FBC_SUCCESS, j, v1)"
    "(case kw_conf_name (hd table) of None \<Rightarrow> Returned (j, v1)
      | Some r \<Rightarrow> run_bind (deref val) (\<lambda>w. if no_case w r then Returned (j, v1)
          else run_bind (reset_loop (descr_section d) names r no_case v1) (\<lambda>v2. Returned (j, v2)))) = Returned (i, v')"
    using assms(3) by (auto simp: fbc_add_radio_Option_mod_def run_bind_Returned deref_def Let_def split: if_splits)
  obtain m where m: "a = Some (argv ! (arg + 1))" "fbc_search_optvals (tl table) (argv ! (arg + 1)) = Returned m"
      "val = (case kw_conf_name m of Some c \<Rightarrow> Some c | None \<Rightarrow> kw_argv_name m)"
    using a(1,2) by (auto simp: arg_ptr_def conf_value_def deref_def run_bind_Returned defined_Returned split: if_splits)
  have "kw_argv_name m \<noteq> None" using optvals_row [OF m(2)] .
  then obtain x where x: "val = Some x" using m(3) by (auto split: option.splits)
  have e: "extends v v1" "asked (descr_section d) (c_name names) x v1" using option_added a(3) x assms(1) by auto
  then have ok: "mods_ok (Option_mods v1)" by (simp add: extends_def)
  have "extends v1 v' \<and> (\<forall>r n. kw_conf_name (hd table) = Some r \<and> \<not> no_case x r \<and> n \<in> set (tl (option_names names)) \<longrightarrow> asked (descr_section d) n r v')"
    using a(4) x ok options_reset [OF _ ok, of "descr_section d" names]
    by (auto simp: deref_def run_bind_Returned extends_def split: option.splits if_splits)
  then show ?thesis using e a(2) m(1) x asked_extends extends_trans by blast
qed

definition wide_descr :: fbopt_descr where
  "wide_descr = \<lparr>argv_name = ''doublewide'', option_args = 1, fbc_getopt_fn = Option_keyword, keywd_table = Some fbc_keywds_xable, descr_section = FBC_SECTION_Screen,
     conf_name = Some (''DoubleWide'' @ [CHR 0x00] @ ''DoubleHigh'' @ [CHR 0x00]), defaults_argv = None\<rparr>"

theorem exclusive_options_witness:
  "\<exists>v'. fbc_Option_keyword [''-doublewide'', ''yes''] 0 (no_values\<lparr>Option_mods_size := 9\<rparr>) wide_descr = Returned (0, v') \<and>
    asked FBC_SECTION_Screen ''DoubleWide'' ''Enable'' v' \<and> asked FBC_SECTION_Screen ''DoubleHigh'' ''Disable'' v'"
proof -
  let ?v = "no_values\<lparr>Option_mods_size := 9\<rparr>" and ?names = "''DoubleWide'' @ [CHR 0x00] @ ''DoubleHigh'' @ [CHR 0x00]"
  have ok: "mods_ok (Option_mods ?v)" by (simp add: mods_ok_def no_values_def)
  have d: "keywd_table wide_descr = Some fbc_keywds_xable" "conf_name wide_descr = Some ?names" by (simp_all add: wide_descr_def)
  have "case fbc_Option_keyword [''-doublewide'', ''yes''] 0 ?v wide_descr of Returned (arg', v') \<Rightarrow> arg' = 0 | _ \<Rightarrow> False" by code_simp
  then obtain v' where r: "fbc_Option_keyword [''-doublewide'', ''yes''] 0 ?v wide_descr = Returned (0, v')" by (auto split: fbc_run.splits prod.splits)
  have c: "conf_value (tl fbc_keywds_xable) (Some ([''-doublewide'', ''yes''] ! (0 + 1))) = Returned (Some ''Enable'')" "kw_conf_name (hd fbc_keywds_xable) = Some ''Disable''"
    "\<not> no_case ''Enable'' ''Disable''" "''DoubleHigh'' \<in> set (tl (option_names ?names))" "c_name ?names = ''DoubleWide''" "descr_section wide_descr = FBC_SECTION_Screen"
    by code_simp+
  then show ?thesis using exclusive_options [OF ok d r] r by auto
qed

end
