(* ===== verification/Spec2Isabelle.thy ===== *)
theory Spec2Isabelle
  imports Entity_Limits Entity_Requests Seq_Refinement Seq_Export Cxa_Runs Fbc_Res Fbc_Flags_Back Fbc_Command
begin

text \<open>
  The repository holds the build of the open-source packages of Solaris: patches, makefiles and a number of C
  programs and libraries written for Solaris. This development verifies four of the latter, whose behaviour is
  their own and not that of a library they call.

  \<^bold>\<open>The entity-MIB module of the SNMP agent\<close> (\<^verbatim>\<open>components/net-snmp/sun/agent/modules/entityMib/\<close>). Other modules
  of the agent describe the hardware through it: physical entities (\<^verbatim>\<open>entPhysicalTable.c\<close>), logical entities
  (\<^verbatim>\<open>entLogicalTable.c\<close>), which logical entity uses which physical one (\<^verbatim>\<open>entLPMappingTable.c\<close>), aliases of
  ports (\<^verbatim>\<open>entAliasMappingTable.c\<close>), and which physical entity contains which (\<^verbatim>\<open>entPhysicalContainsTable.c\<close>).
  Every change sets the time of the last change and may send a notification (\<^verbatim>\<open>entLastChangeTime.c\<close>). The tables
  call each other: deleting an entry or making it stale removes the rows of the three mapping tables that
  mention it, adding a containment row looks both entries up and may rewrite the parent field of the
  child, and the iterators and handlers serve the tables to SNMP managers.

  \<^item> \<^verbatim>\<open>Entity_Prelude\<close>: the constants of \<^verbatim>\<open>stdhdr.h\<close>, C integer conversions, memory requests as a sequence of
    outcomes counted by the state, shared list lemmas and the collections the proofs use.
  \<^item> \<^verbatim>\<open>Last_Change\<close>: every function of \<^verbatim>\<open>entLastChangeTime.c\<close>; notifications are throttled, and a change whose
    notification was held back is reported by an alarm after the throttle period.
  \<^item> \<^verbatim>\<open>Indexed_Table\<close>: the linked list that \<^verbatim>\<open>entPhysicalTable.c\<close> and \<^verbatim>\<open>entLogicalTable.c\<close> both implement, over
    the payload. The locales \<open>entity_directory\<close> and \<open>growing_directory\<close> state what the list promises as a map
    from indices to live or stale entries; the interpretation \<open>tbl\<close> discharges them.
  \<^item> \<^verbatim>\<open>Entity_State\<close>: the entry structures, the global variables of the C files as one record, \<^verbatim>\<open>init_entity\<close>.
  \<^item> \<^verbatim>\<open>LP_Mapping\<close>, \<^verbatim>\<open>Alias_Mapping\<close>, \<^verbatim>\<open>Contains_Table\<close>, \<^verbatim>\<open>Physical_Table\<close>, \<^verbatim>\<open>Logical_Table\<close>: the operations of the five
    tables, one definition per C function, with the invariant of each and what each operation does to its rows.
  \<^item> \<^verbatim>\<open>Entity_Invariant\<close>: the invariant across the tables and its preservation by every operation.
  \<^item> \<^verbatim>\<open>Entity_Runs\<close>: the calls of the interface and the alarm as steps, and the states they reach. An allocation
    is a step only where the code that adds to the list is right: the new address is not in use, the largest index is not in use, and the
    tail pointer is not stale in a table of more than 200 entries. \<open>Entity_Limits\<close> shows what happens otherwise.
  \<^item> \<^verbatim>\<open>Entity_Lifecycle\<close>, \<^verbatim>\<open>Entity_Rows\<close>: the functional behaviour of the operations on reachable states, on
    every branch.
  \<^item> \<^verbatim>\<open>Entity_Limits\<close>: when the cycle check returns, and what the code does past the limits it does not check.
  \<^item> \<^verbatim>\<open>Row_Iterators\<close>: the data-point functions of the five tables; the locale \<open>row_iterator\<close> says why a walk
    visits every row once, and is interpreted for each of the five.
  \<^item> \<^verbatim>\<open>Snmp_Handlers\<close>, \<^verbatim>\<open>Entity_Requests\<close>: the registrations and the GET and SET handlers, and what a manager sees.

  \<^bold>\<open>Replay and sequence checking of GSS-API tokens\<close> (\<^verbatim>\<open>components/krb5/Solaris/util_ordering.c\<close>). A security context keeps
  the last twenty sequence numbers in a circular array and sorts each arriving token into expected,
  early, late, old or repeated. The queue is exported and imported with the context.

  \<^item> \<^verbatim>\<open>Seq_Order\<close>: every function but the serialization; the circular array as a list; the comparison modulo
    the width.
  \<^item> \<^verbatim>\<open>Seq_Refinement\<close>: the specification on sorted lists of unbounded numbers, the refinement, the locale
    \<open>replay_filter\<close> with its interpretation \<open>ord\<close>, and the properties of streams of tokens.
  \<^item> \<^verbatim>\<open>Seq_Export\<close>: the queue as bytes, in either byte order.

  \<^bold>\<open>Exit handlers of C++ objects\<close> (\<^verbatim>\<open>components/llvm-21/cxa_finalize/cxa_finalize.c\<close>, repeated under \<^verbatim>\<open>llvm-13\<close>). The
  run-time support registers destructors in an array that doubles when full; the callback of \<^verbatim>\<open>atexit\<close> and the
  finalization of shared objects run them.

  \<^item> \<^verbatim>\<open>Cxa_Finalize\<close>: every function, over a store of blocks so that a pointer into an array that has been
    replaced still means something; what the loops do to the list of entries.
  \<^item> \<^verbatim>\<open>Cxa_Runs\<close>: registrations, exit and finalization together, and two failures of the code.

  \<^bold>\<open>Configuration of frame buffers\<close> (\<^verbatim>\<open>components/x11/app/gfx-utils/sun-src/fbconf_xorg/\<close>). The program edits the
  configuration file of the X server: it reads the file into sections, remembers where each line stands, changes
  entries as the command line asks for, and writes the file back with untouched lines unchanged. Video modes
  come from the file, from the display and from a table, and a file lists combinations that do not work.

  \<^item> \<^verbatim>\<open>Fbc_Names\<close>: keywords of the command line (\<^verbatim>\<open>fbc/fbc_keywds.c\<close>), names in configuration files (\<^verbatim>\<open>xf86/scan.c\<close>),
    names of video modes (\<^verbatim>\<open>fbc/fbc_res.c\<close>), and the C string functions they use.
  \<^item> \<^verbatim>\<open>Fbc_Mode_List\<close>: the sorted list of the modes of a Monitor section (\<^verbatim>\<open>fbc/fbc_mode_list.c\<close>).
  \<^item> \<^verbatim>\<open>Fbc_Compat\<close>: the file of combinations that do not work (\<^verbatim>\<open>fbc/fbc_res_compatible.c\<close>), over the line buffer with
    what earlier lines left in it.
  \<^item> \<^verbatim>\<open>Fbc_Line_ER\<close>: the doubly linked list of the lines of the file (\<^verbatim>\<open>fbc/fbc_line_er.c\<close>) over a store of elements; the
    locale \<open>line_sequence\<close> says what the editing functions promise and is interpreted as \<open>er\<close>.
  \<^item> \<^verbatim>\<open>Fbc_Fields\<close>: measuring the whitespace of a line and printing with it (\<^verbatim>\<open>fbc/fbc_fields.c\<close>, \<^verbatim>\<open>xf86/fields.c\<close>).

  \<^item> \<^verbatim>\<open>Fbc_Mode_Text\<close>: the text of a mode (\<^verbatim>\<open>xf86/Monitor.c\<close>).
  \<^item> \<^verbatim>\<open>Fbc_Modes\<close>: the Modes sections of the program and the entries that use them (\<^verbatim>\<open>fbc/fbc_Modes.c\<close>,
    \<^verbatim>\<open>fbc/fbc_Monitor.c\<close>, \<^verbatim>\<open>fbc/fbc_append_config.c\<close>), and the list of all modes of a monitor in order.
  \<^item> \<^verbatim>\<open>Fbc_Res\<close>: the table of modes (\<^verbatim>\<open>fbc/resolutions.c\<close>), listing, looking up and checking a mode (\<^verbatim>\<open>fbc/fbc_res.c\<close>),
    and the question to the user (\<^verbatim>\<open>fbc/fbc_ask.c\<close>).
  \<^item> \<^verbatim>\<open>Fbc_Scan\<close>: fetching a line into a buffer that grows (\<^verbatim>\<open>xf86/scan.c\<close>).
  \<^item> \<^verbatim>\<open>Fbc_Write\<close>: recording the lines of a file, writing it back and replacing it (\<^verbatim>\<open>fbc/fbc_write_config.c\<close>): untouched
    lines are copied whatever is done to the others, and the file on disk changes only when every step has succeeded. The
    disk is the two files with their text, permissions and owners.

  \<^item> \<^verbatim>\<open>Fbc_Double\<close>: rounding to double precision, as far as the dot clock needs it.
  \<^item> \<^verbatim>\<open>Fbc_Token\<close>: the tokens of the scanner, the token that is put back, and comments (\<^verbatim>\<open>xf86/scan.c\<close>).
  \<^item> \<^verbatim>\<open>Fbc_Path\<close>: safe paths, path templates and the search for the configuration file (\<^verbatim>\<open>xf86/scan.c\<close>); what is opened.
  \<^item> \<^verbatim>\<open>Fbc_Parse\<close>: the parser of modes and of Modes sections (\<^verbatim>\<open>xf86/Monitor.c\<close>).
  \<^item> \<^verbatim>\<open>Fbc_Lex\<close>, \<^verbatim>\<open>Fbc_Roundtrip\<close>, \<^verbatim>\<open>Fbc_Modes_Back\<close>: what the scanner makes of well-formed text; numbers, clocks, flags, modes and whole
    Modes sections that are written are read back as they were.

  \<^item> \<^verbatim>\<open>Fbc_Options\<close>: lists of options, their text and their parser, the ServerFlags section (\<^verbatim>\<open>xf86/Flags.c\<close>), and the options of the
    sections in use (\<^verbatim>\<open>fbc/fbc_Option.c\<close>).
  \<^item> \<^verbatim>\<open>Fbc_Option_Laws\<close>: when two names mean the same option, what is found after options have been set, edited or merged. The
    locale \<open>value_store\<close> says what a sequence of assignments leaves, and is interpreted as \<open>opt\<close>.
  \<^item> \<^verbatim>\<open>Fbc_Flags_Back\<close>: a ServerFlags section that is written is read back with the same options.
  \<^item> \<^verbatim>\<open>Fbc_Args\<close>: the command line (\<^verbatim>\<open>fbc/fbc_getargs.c\<close>), with the tables of the two devices (\<^verbatim>\<open>ast/ast_properties.c\<close>,
    \<^verbatim>\<open>mga/mga_properties.c\<close>).
  \<^item> \<^verbatim>\<open>Fbc_Command\<close>: a command line as a list of requests; the loop over the arguments carries out exactly these. Options that
    exclude each other.

  \<^bold>\<open>How the code is rendered.\<close> Structures are records, global variables fields of a state record that the
  operations return updated, and C ints are integers with the conversion at 32 bits written out where the code can
  reach it; sequence numbers are 64-bit words. A failing memory request is an outcome of the environment, so
  every error path is a branch. The agent library, the clock, \<^verbatim>\<open>malloc\<close>, \<^verbatim>\<open>atexit\<close> and the exit handlers
  are parameters. Reads of freed or unwritten memory, writes past a buffer and self-deadlock are the value \<open>None\<close>.

  \<^bold>\<open>Loops.\<close> Loops are structural recursions except those that follow pointers or read a file. The cycle check
  \<open>isRecursiveChild\<close>, the finalization loop \<open>dso_pass\<close> and the loops over the lines and tokens of a file are partial functions
  into \<open>option\<close>, where not returning is \<open>None\<close>; \<open>Entity_Limits\<close> proves that the first returns while the links form no cycle and
  gives a run in which it does not, \<open>Cxa_Runs\<close> that the second returns while handlers do not register. No definition
  takes fuel.

  \<^bold>\<open>This theory\<close> holds the properties that span the tables: references between tables never dangle, stored
  entries obey the limits of the MIB, and containment has no cycles.

  \<^bold>\<open>Not modelled.\<close> Of the frame-buffer configuration, the parsers of the other sections, the decoder of display
  data, the gamma correction and the printing of settings are left out. The other graphics utilities drive hardware. The desktop clients, the InfiniBand layer, the system-monitor
  modules of the agent, the audit and privilege modules and the cryptographic providers are sequences of
  calls into toolkits, drivers and services whose code is not in the repository. Concurrency is not
  modelled: the agent runs its modules in one thread, and the mutex of the exit handlers is modelled for
  one thread, where it can still deadlock. Debug output is left out.
\<close>

section \<open>The tables together\<close>

text \<open>
  C1. Start from initialisation and make any calls of the interface, in any order and with any
  requests for memory failing, under one condition: whenever an entry is allocated, its node has
  an address that no entry of the table has, no entry of the table has the largest index, and the
  table has at most 200 entries or its tail pointer is its last node (what an allocation outside
  this condition does is C36 and C37; it can lose entries that rows mention). In every state
  reached by calls that return, every row of the logical-to-physical table joins a live logical and a live physical
  entry, every alias belongs to a live physical entry of class port and to a live logical entry
  or to none, and every containment row joins two different live physical entries, of which the
  child's parent field names the parent of the row or one with a smaller index.
\<close>

theorem reachable_integrity:
  assumes "reachable A s"
  shows "(\<forall>(l, p) \<in> lp_rel s. getLogicalTableEntry l s \<noteq> None \<and> getPhysicalTableEntry p s \<noteq> None) \<and>
    (\<forall>(p, l, m) \<in> alias_rel s.
       (\<exists>n. getPhysicalTableEntry p s = Some n \<and> entPhysicalClass (ndata n) = 10) \<and>
       (l = 0 \<or> getLogicalTableEntry l s \<noteq> None)) \<and>
    (\<forall>(p, c) \<in> cont_rel s. p \<noteq> c \<and> getPhysicalTableEntry p s \<noteq> None \<and>
       (\<exists>n. getPhysicalTableEntry c s = Some n \<and> entPhysicalContainedIn (ndata n) \<noteq> 0 \<and>
          entPhysicalContainedIn (ndata n) \<le> p))"
proof -
  have i: "entity_inv s" using assms by (rule reachable_inv)
  note T = entity_invD(1) [OF i] and R = entity_invD(2-4) [OF i]
  have look: "x \<in> live_phys s \<Longrightarrow> getPhysicalTableEntry x s \<noteq> None"
    "x \<in> live_logi s \<Longrightarrow> getLogicalTableEntry x s \<noteq> None" for x
    using lookup_None [OF T] by blast+
  have "getLogicalTableEntry l s \<noteq> None \<and> getPhysicalTableEntry p s \<noteq> None" if "(l, p) \<in> lp_rel s" for l p
    using R(1) that lp_rel_keys [OF that] look by (fastforce simp: lp_refs_def)
  moreover have "(\<exists>n. getPhysicalTableEntry p s = Some n \<and> entPhysicalClass (ndata n) = 10) \<and>
      (l = 0 \<or> getLogicalTableEntry l s \<noteq> None)" if row: "(p, l, m) \<in> alias_rel s" for p l m
  proof -
    have "port_phys p s" "l = 0 \<or> l \<in> live_logi s" "p \<in> live_phys s"
      using R(2) row alias_rel_keys [OF row] by (auto simp: alias_refs_def)
    moreover from this obtain n where "n \<in> set (thead (gPhysicalTable s))" "nidx n = p" "entPhysicalClass (ndata n) = 10"
      by (auto simp: port_phys_def)
    moreover have "twf (gPhysicalTable s)" using T by (simp add: tables_wf_def)
    ultimately have "getPhysicalTableEntry p s = Some n"
      by (auto simp: getPhysicalTableEntry_def get_live_iff live_set_def)
    with \<open>entPhysicalClass (ndata n) = 10\<close> \<open>l = 0 \<or> l \<in> live_logi s\<close> look(2) show ?thesis by blast
  qed
  moreover have "p \<noteq> c \<and> getPhysicalTableEntry p s \<noteq> None \<and>
       (\<exists>n. getPhysicalTableEntry c s = Some n \<and> entPhysicalContainedIn (ndata n) \<noteq> 0 \<and>
          entPhysicalContainedIn (ndata n) \<le> p)" if row: "(p, c) \<in> cont_rel s" for p c
  proof -
    have "p \<noteq> c" "c \<in> live_phys s" "p \<in> live_phys s" "parent_of s c \<noteq> 0" "parent_of s c \<le> p"
      using R(3) row cont_keys_rel [OF row] by (auto simp: cont_refs_def)
    then show ?thesis using look(1) by (auto simp: parent_of_def split: option.splits)
  qed
  ultimately show ?thesis by blast
qed

theorem reachable_integrity_witness:
  "\<exists>n. getPhysicalTableEntry 2 (after_calls demo_calls) = Some n \<and> entPhysicalContainedIn (ndata n) \<le> 1"
proof -
  have "(1, 2) \<in> cont_rel (after_calls demo_calls)" by code_simp
  with reachable_integrity [OF demo_reachable [OF UNIV_I]] show ?thesis by fastforce
qed

text \<open>
  C3. In the states of C1, so provided that no entry is allocated while the largest index is in
  use in its table or while the tail pointer of a table of more than 200 entries is stale, every
  stored entry is within the limits of the MIB: its strings are present and at most 255,
  respectively 32, bytes long, its OIDs have the size recorded for them, and its class, position,
  and replaceable flag are in range. In both tables the absolute values of the indices (the index
  of a stale entry is negative) are strictly increasing and between 1 and the largest \<^verbatim>\<open>int\<close>, and the recorded size is the number of entries.
\<close>

theorem reachable_entries:
  assumes "reachable A s"
  shows "(\<forall>n \<in> set (thead (gPhysicalTable s)). phys_typed (ndata n)) \<and>
    (\<forall>n \<in> set (thead (gLogicalTable s)). logi_typed (ndata n)) \<and>
    sorted_wrt (<) (map (\<lambda>n. \<bar>nidx n\<bar>) (thead (gPhysicalTable s))) \<and>
    sorted_wrt (<) (map (\<lambda>n. \<bar>nidx n\<bar>) (thead (gLogicalTable s))) \<and>
    (\<forall>n \<in> set (thead (gPhysicalTable s)). 1 \<le> \<bar>nidx n\<bar> \<and> \<bar>nidx n\<bar> \<le> MAX_ENTITY_INDEX) \<and>
    (\<forall>n \<in> set (thead (gLogicalTable s)). 1 \<le> \<bar>nidx n\<bar> \<and> \<bar>nidx n\<bar> \<le> MAX_ENTITY_INDEX) \<and>
    tsize (gPhysicalTable s) = int (length (thead (gPhysicalTable s))) \<and>
    tsize (gLogicalTable s) = int (length (thead (gLogicalTable s)))"
  using reachable_typed [OF assms] entity_invD(1) [OF reachable_inv [OF assms]]
  by (simp add: entity_typed_def tables_wf_def twf_def)

theorem reachable_entries_witness:
  "sorted_wrt (<) (map (\<lambda>n. \<bar>nidx n\<bar>) (thead (gPhysicalTable (after_calls demo_calls)))) \<and>
   tsize (gPhysicalTable (after_calls demo_calls)) = 2"
proof -
  have "length (thead (gPhysicalTable (after_calls demo_calls))) = 2" by code_simp
  with reachable_entries [OF demo_reachable [OF UNIV_I]] show ?thesis by simp
qed

text \<open>
  C4. In the states of C1 that are reached without a failing request for memory, so again provided
  that no entry is allocated while the largest index is in use in its table or while the tail
  pointer of a table of more than 200 entries is stale, no chain of containment rows leads from an
  entry back to itself.
\<close>

theorem containment_acyclic:
  assumes "reachable {all_ok} s"
  shows "acyclic (cont_rel s)"
  using assms by (rule reachable_acyclic) simp

theorem containment_acyclic_witness:
  "acyclic (cont_rel (after_calls demo_calls)) \<and> cont_rel (after_calls demo_calls) = {(1, 2)}"
proof -
  have "cont_rel (after_calls demo_calls) = {(1, 2)}" by code_simp
  with containment_acyclic [OF demo_reachable [OF singletonI]] show ?thesis by simp
qed

end
